(* ===== verification/Prelude.thy ===== *)
theory Prelude
  imports Main "HOL-Library.Sublist" "HOL-Library.Word" "HOL-Library.Multiset"
begin

text \<open>
  What every component shares.

  \<^item> The collections of rewrite rules the component theories fill and their proofs draw on.
  \<^item> Rust's \<open>String\<close> as the list of its UTF-8 bytes (a HOL \<open>char\<close> is a byte), with the
    operations of \<open>str\<close> the sources call: \<open>strip_prefix\<close>, \<open>contains\<close>, \<open>lines\<close>,
    \<open>chars().take(n)\<close>, \<open>to_ascii_lowercase\<close>, \<open>trim\<close> and the decimal \<open>Display\<close> of \<open>usize\<close>.
    \<open>len()\<close> is \<open>length\<close>, because both count bytes.
  \<^item> \<open>BTreeMap\<close> as an association list sorted by key, under the interface locale
    \<open>ordered_map\<close>, which states what the clients rely on.
  \<^item> Step systems: reachable states and the invariant rule, as a locale.
  \<^item> List lemmas the components use.
\<close>

named_theorems pairing_simps "rewrite rules for tool-call pairing"
named_theorems project_simps "rewrite rules for the session projection"
named_theorems plexus_simps "rewrite rules for the plugin runtime"

type_synonym u8 = "8 word"
type_synonym u32 = "32 word"
type_synonym u64 = "64 word"

section \<open>Strings\<close>

abbreviation newline :: char where "newline \<equiv> CHR 0x0A"
abbreviation carriage_return :: char where "carriage_return \<equiv> CHR 0x0D"

definition em_dash :: string where
  "em_dash = [CHR 0xE2, CHR 0x80, CHR 0x94]"

definition strip_prefix :: "string \<Rightarrow> string \<Rightarrow> string option" where
  "strip_prefix p s = (if prefix p s then Some (drop (length p) s) else None)"

fun contains_str :: "string \<Rightarrow> string \<Rightarrow> bool" where
  "contains_str [] n = (n = [])"
| "contains_str (c # cs) n = (prefix n (c # cs) \<or> contains_str cs n)"

definition byte_of :: "char \<Rightarrow> nat" where
  "byte_of c = of_char c"

definition ascii_lower :: "char \<Rightarrow> char" where
  "ascii_lower c = (if 65 \<le> byte_of c \<and> byte_of c \<le> 90 then char_of (byte_of c + 32) else c)"

definition to_ascii_lowercase :: "string \<Rightarrow> string" where
  "to_ascii_lowercase s = map ascii_lower s"

text \<open>\<open>str::split_inclusive('\n')\<close>, then each piece without its line ending: \<open>str::lines\<close>.\<close>

fun split_inclusive_newline :: "string \<Rightarrow> string list" where
  "split_inclusive_newline [] = []"
| "split_inclusive_newline (c # cs) =
     (if c = newline then [c] # split_inclusive_newline cs
      else (case split_inclusive_newline cs of [] \<Rightarrow> [[c]] | l # ls \<Rightarrow> (c # l) # ls))"

definition strip_line_ending :: "string \<Rightarrow> string" where
  "strip_line_ending l =
     (if l \<noteq> [] \<and> last l = newline
      then (let b = butlast l in if b \<noteq> [] \<and> last b = carriage_return then butlast b else b)
      else l)"

definition str_lines :: "string \<Rightarrow> string list" where
  "str_lines s = map strip_line_ending (split_inclusive_newline s)"

text \<open>A UTF-8 continuation byte is \<open>10xxxxxx\<close>; every other byte starts a character.\<close>

definition is_continuation :: "char \<Rightarrow> bool" where
  "is_continuation c \<longleftrightarrow> byte_of c div 64 = 2"

fun take_chars :: "nat \<Rightarrow> string \<Rightarrow> string" where
  "take_chars n [] = []"
| "take_chars n (c # cs) =
     (if is_continuation c then c # take_chars n cs
      else (case n of 0 \<Rightarrow> [] | Suc m \<Rightarrow> c # take_chars m cs))"

definition char_count :: "string \<Rightarrow> nat" where
  "char_count s = length (filter (\<lambda>c. \<not> is_continuation c) s)"

lemma take_chars_prefix: "prefix (take_chars n s) s"
  by (induction n s rule: take_chars.induct) (auto split: nat.splits)

lemma char_count_take_chars: "char_count (take_chars n s) \<le> n"
  by (induction n s rule: take_chars.induct) (auto simp: char_count_def split: nat.splits)

text \<open>
  The code points of a UTF-8 string (of a valid one, which a Rust \<open>str\<close> is): the leading byte
  says how many continuation bytes follow.
\<close>

definition cont_bits :: "char \<Rightarrow> nat" where
  "cont_bits c = byte_of c mod 64"

fun utf8_decode :: "string \<Rightarrow> nat list" where
  "utf8_decode [] = []"
| "utf8_decode (a # s) =
     (let n = byte_of a in
      if n < 128 then n # utf8_decode s
      else if n < 224 then
        (case s of b # s' \<Rightarrow> ((n mod 32) * 64 + cont_bits b) # utf8_decode s' | _ \<Rightarrow> [])
      else if n < 240 then
        (case s of b # c # s' \<Rightarrow>
           ((n mod 16) * 4096 + cont_bits b * 64 + cont_bits c) # utf8_decode s' | _ \<Rightarrow> [])
      else
        (case s of b # c # d # s' \<Rightarrow>
           ((n mod 8) * 262144 + cont_bits b * 4096 + cont_bits c * 64 + cont_bits d)
           # utf8_decode s' | _ \<Rightarrow> []))"

text \<open>Unicode \<open>White_Space\<close>, which is what \<open>char::is_whitespace\<close> tests.\<close>

definition is_whitespace :: "nat \<Rightarrow> bool" where
  "is_whitespace c \<longleftrightarrow>
     (9 \<le> c \<and> c \<le> 13) \<or> c = 32 \<or> c = 133 \<or> c = 160 \<or> c = 5760 \<or> (8192 \<le> c \<and> c \<le> 8202)
     \<or> c = 8232 \<or> c = 8233 \<or> c = 8239 \<or> c = 8287 \<or> c = 12288"

text \<open>\<open>s.trim().is_empty()\<close>\<close>

definition trim_is_empty :: "string \<Rightarrow> bool" where
  "trim_is_empty s = list_all is_whitespace (utf8_decode s)"

fun show_nat :: "nat \<Rightarrow> string" where
  "show_nat n = (if n < 10 then [char_of (48 + n)]
                 else show_nat (n div 10) @ [char_of (48 + n mod 10)])"

declare show_nat.simps [simp del]

lemma strip_prefix_append [simp]: "strip_prefix p (p @ s) = Some s"
  by (simp add: strip_prefix_def)

lemma strip_prefix_Some: "strip_prefix p s = Some r \<longleftrightarrow> s = p @ r"
  by (auto simp: strip_prefix_def prefix_def)

lemma contains_str_iff: "contains_str s n \<longleftrightarrow> sublist n s"
  by (induction s) (auto simp: sublist_Cons_right)

lemma contains_str_append: "contains_str s n \<Longrightarrow> contains_str (p @ s @ q) n"
  by (simp add: contains_str_iff sublist_appendI sublist_order.order.trans)

section \<open>Small list facts\<close>

lemma sum_list_drop_le: "sum_list (drop n xs) \<le> sum_list (xs :: nat list)"
  by (metis append_take_drop_id le_add2 sum_list_append)

lemma find_Some_split:
  "find P xs = Some x \<Longrightarrow> \<exists>ys zs. xs = ys @ x # zs \<and> P x \<and> (\<forall>y\<in>set ys. \<not> P y)"
proof (induction xs)
  case (Cons a xs)
  show ?case
  proof (cases "P a")
    case True
    with Cons.prems have "x = a" by simp
    with True show ?thesis by (intro exI [of _ "[]"] exI [of _ xs]) simp
  next
    case False
    with Cons obtain ys zs where "xs = ys @ x # zs" "P x" "\<forall>y\<in>set ys. \<not> P y" by auto
    with False show ?thesis by (intro exI [of _ "a # ys"] exI [of _ zs]) simp
  qed
qed simp

lemma filter_eq_when_empty: "(\<forall>x\<in>set xs. \<not> P x) \<Longrightarrow> filter P xs = []"
  by (simp add: filter_empty_conv)

text \<open>\<open>Iterator::position\<close>.\<close>

fun position :: "('a \<Rightarrow> bool) \<Rightarrow> 'a list \<Rightarrow> nat option" where
  "position P [] = None"
| "position P (x # xs) = (if P x then Some 0 else map_option Suc (position P xs))"

lemma position_Some:
  "position P xs = Some i \<longleftrightarrow> i < length xs \<and> P (xs ! i) \<and> (\<forall>j<i. \<not> P (xs ! j))"
proof (induction xs arbitrary: i)
  case (Cons x xs)
  show ?case
  proof (cases i)
    case 0
    then show ?thesis by auto
  next
    case (Suc k)
    then show ?thesis by (auto simp: Cons.IH All_less_Suc2)
  qed
qed simp

lemma position_None: "position P xs = None \<longleftrightarrow> (\<forall>x\<in>set xs. \<not> P x)"
  by (induction xs) auto

section \<open>Maps\<close>

text \<open>
  What the sources use of a keyed store: insertion replaces, removal forgets. An ordered one
  (\<open>BTreeMap\<close>) also iterates over the keys in increasing order.
\<close>

locale map_store =
  fixes lookup :: "'m \<Rightarrow> 'k \<Rightarrow> 'v option"
    and empty :: "'m"
    and insert_entry :: "'k \<Rightarrow> 'v \<Rightarrow> 'm \<Rightarrow> 'm"
    and remove_entry :: "'k \<Rightarrow> 'm \<Rightarrow> 'm"
    and invar :: "'m \<Rightarrow> bool"
  assumes lookup_empty: "lookup empty k = None"
    and lookup_insert: "invar m \<Longrightarrow> lookup (insert_entry k v m) = (lookup m)(k \<mapsto> v)"
    and lookup_remove: "invar m \<Longrightarrow> lookup (remove_entry k m) = (lookup m)(k := None)"
    and invar_empty: "invar empty"
    and invar_insert: "invar m \<Longrightarrow> invar (insert_entry k v m)"
    and invar_remove: "invar m \<Longrightarrow> invar (remove_entry k m)"
begin

text \<open>
  A log of decisions, each putting a value under a key (\<open>Some v\<close>) or taking the key out
  (\<open>None\<close>), replayed from the left.
\<close>

definition decide :: "'k \<times> 'v option \<Rightarrow> 'm \<Rightarrow> 'm" where
  "decide d m = (case snd d of Some v \<Rightarrow> insert_entry (fst d) v m | None \<Rightarrow> remove_entry (fst d) m)"

lemma invar_decide: "invar m \<Longrightarrow> invar (decide d m)"
  by (auto simp: decide_def invar_insert invar_remove split: option.splits)

lemma lookup_decide: "invar m \<Longrightarrow> lookup (decide d m) = (lookup m)(fst d := snd d)"
  by (auto simp: decide_def lookup_insert lookup_remove split: option.splits)

lemma invar_fold_decide: "invar m \<Longrightarrow> invar (fold decide ds m)"
  by (induction ds arbitrary: m) (auto simp: invar_decide)

text \<open>The last decision about a key is the one that stands.\<close>

lemma last_decision_stands:
  "invar m \<Longrightarrow> lookup (fold decide ds m) k =
     (case map_of (rev ds) k of Some d \<Rightarrow> d | None \<Rightarrow> lookup m k)"
proof (induction ds rule: rev_induct)
  case (snoc d ds)
  then show ?case
    by (simp add: lookup_decide invar_fold_decide)
qed simp

end

locale ordered_map = map_store lookup empty insert_entry remove_entry invar
  for lookup :: "'m \<Rightarrow> 'k::linorder \<Rightarrow> 'v option"
    and empty :: "'m"
    and insert_entry :: "'k \<Rightarrow> 'v \<Rightarrow> 'm \<Rightarrow> 'm"
    and remove_entry :: "'k \<Rightarrow> 'm \<Rightarrow> 'm"
    and invar :: "'m \<Rightarrow> bool" +
  fixes entries :: "'m \<Rightarrow> ('k \<times> 'v) list"
  assumes lookup_entries: "invar m \<Longrightarrow> lookup m = map_of (entries m)"
    and sorted_entries: "invar m \<Longrightarrow> sorted_wrt (<) (map fst (entries m))"
begin

lemma entry_iff_lookup: "invar m \<Longrightarrow> (k, v) \<in> set (entries m) \<longleftrightarrow> lookup m k = Some v"
  using sorted_entries [of m]
  by (auto simp: lookup_entries strict_sorted_iff intro: map_of_SomeD map_of_is_SomeI)

end

type_synonym ('k, 'v) btree = "('k \<times> 'v) list"

fun bt_insert :: "'k::linorder \<Rightarrow> 'v \<Rightarrow> ('k, 'v) btree \<Rightarrow> ('k, 'v) btree" where
  "bt_insert k v [] = [(k, v)]"
| "bt_insert k v ((a, b) # m) =
     (if k < a then (k, v) # (a, b) # m
      else if k = a then (k, v) # m
      else (a, b) # bt_insert k v m)"

definition bt_remove :: "'k::linorder \<Rightarrow> ('k, 'v) btree \<Rightarrow> ('k, 'v) btree" where
  "bt_remove k m = filter (\<lambda>e. fst e \<noteq> k) m"

definition bt_invar :: "('k::linorder, 'v) btree \<Rightarrow> bool" where
  "bt_invar m = sorted_wrt (<) (map fst m)"

lemma set_bt_insert: "fst ` set (bt_insert k v m) = insert k (fst ` set m)"
  by (induction k v m rule: bt_insert.induct) auto

lemma bt_insert_last: "(\<forall>a\<in>fst ` set m. a < k) \<Longrightarrow> bt_insert k v m = m @ [(k, v)]"
  by (induction k v m rule: bt_insert.induct) auto

lemma bt_invar_insert: "bt_invar m \<Longrightarrow> bt_invar (bt_insert k v m)"
proof (induction k v m rule: bt_insert.induct)
  case (2 k v a b m)
  then show ?case
    using set_bt_insert [of k v m] by (auto simp: bt_invar_def)
qed (simp add: bt_invar_def)

lemma map_of_bt_insert: "bt_invar m \<Longrightarrow> map_of (bt_insert k v m) = (map_of m)(k \<mapsto> v)"
  by (induction k v m rule: bt_insert.induct) (auto simp: bt_invar_def fun_eq_iff)

lemma map_of_bt_remove: "map_of (bt_remove k m) = (map_of m)(k := None)"
  by (induction m) (auto simp: bt_remove_def fun_eq_iff)

lemma bt_invar_remove: "bt_invar m \<Longrightarrow> bt_invar (bt_remove k m)"
  unfolding bt_invar_def bt_remove_def
  by (induction m) auto

lemma bt_invar_Nil [simp]: "bt_invar []"
  by (simp add: bt_invar_def)

lemma bt_invar_sorted: "bt_invar m \<Longrightarrow> sorted_wrt (<) (map fst m)"
  by (simp add: bt_invar_def)

interpretation bt: ordered_map map_of "[]" bt_insert bt_remove bt_invar "\<lambda>m. m"
  by unfold_locales
    (auto simp: map_of_bt_insert map_of_bt_remove bt_invar_insert bt_invar_remove bt_invar_sorted)

section \<open>Step systems\<close>

text \<open>
  Objects whose state changes one operation at a time. The operations of a Rust object behind a
  lock are such a system: callers interleave in any order, each operation is atomic.
\<close>

locale step_system =
  fixes start :: "'s \<Rightarrow> bool"
    and step :: "'s \<Rightarrow> 's \<Rightarrow> bool"
    and inv :: "'s \<Rightarrow> bool"
  assumes start_inv: "start s \<Longrightarrow> inv s"
    and step_inv: "step s t \<Longrightarrow> inv s \<Longrightarrow> inv t"
begin

inductive reach :: "'s \<Rightarrow> bool" where
  reach_start: "start s \<Longrightarrow> reach s"
| reach_step: "reach s \<Longrightarrow> step s t \<Longrightarrow> reach t"

lemma reach_inv: "reach s \<Longrightarrow> inv s"
  by (induction rule: reach.induct) (auto intro: start_inv step_inv)

end

end
