(* ===== verification/Stream_Model.thy ===== *)
theory Stream_Model
  imports Prelude
begin

text \<open>
  The provider stream (\<open>crates/atomcode-kernel/src/stream.rs\<close>) and the tool call it carries
  (\<open>tool.rs\<close>): token usage with its field-wise merge, the provider error with its
  context-overflow test, and the stream events.
\<close>

record tool_call =
  tc_id :: string
  tc_name :: string
  tc_arguments :: string

record token_usage =
  prompt :: u32
  completion :: u32
  cached :: u32

definition token_usage_default :: token_usage where
  "token_usage_default = \<lparr>prompt = 0, completion = 0, cached = 0\<rparr>"

definition merge_max :: "token_usage \<Rightarrow> token_usage \<Rightarrow> token_usage" where
  "merge_max u v =
     u\<lparr>prompt := max (prompt u) (prompt v),
       completion := max (completion u) (completion v),
       cached := max (cached u) (cached v)\<rparr>"

text \<open>What one round's usage events come to: the loop folds each into the running figure.\<close>

definition round_usage :: "token_usage list \<Rightarrow> token_usage" where
  "round_usage us = foldl merge_max token_usage_default us"

definition OPEN_TIMEOUT_CODE :: string where
  "OPEN_TIMEOUT_CODE = ''open_timeout''"

definition STREAM_TRANSPORT_INTERRUPTED_CODE :: string where
  "STREAM_TRANSPORT_INTERRUPTED_CODE = ''stream_transport_interrupted''"

definition STREAM_IDLE_TIMEOUT_CODE :: string where
  "STREAM_IDLE_TIMEOUT_CODE = ''stream_idle_timeout''"

record provider_error =
  pe_retryable :: bool
  pe_message :: string
  http_status :: "nat option"
  pe_code :: "string option"
  retry_after_secs :: "u64 option"

definition overflow_needles :: "string list" where
  "overflow_needles =
     [''context length'', ''context window'', ''maximum context'', ''prompt is too long'',
      ''reduce the length'', ''too many tokens'', ''range of input length'',
      ''maximum prompt length'', ''too large for model with '']"

definition is_context_overflow :: "provider_error \<Rightarrow> bool" where
  "is_context_overflow e \<longleftrightarrow>
     (case pe_code e of
        Some code \<Rightarrow> to_ascii_lowercase code \<in> {''context_length_exceeded'', ''string_above_max_length''}
      | None \<Rightarrow> False)
     \<or> (http_status e = Some 400 \<and>
        list_ex (contains_str (to_ascii_lowercase (pe_message e))) overflow_needles)"

datatype stream_event =
    TextDelta string
  | Reasoning string
  | ReasoningSignature (sig_opaque: string) (sig_provider: string)
  | ToolCallEvent tool_call
  | ToolCallDelta (tcd_index: u32) (tcd_id: "string option") (tcd_name: "string option") (tcd_arguments: string)
  | UsageEvent token_usage
  | ResponseId string
  | ResponseModel string
  | StreamError provider_error
  | Malformed
  | Done (truncated: bool)

subsection \<open>Usage is a join\<close>

lemma merge_max_assoc: "merge_max (merge_max a b) c = merge_max a (merge_max b c)"
  by (simp add: merge_max_def max.assoc)

lemma merge_max_commute: "merge_max a b = merge_max b a"
  by (simp add: merge_max_def max.commute)

lemma merge_max_idem: "merge_max a a = a"
  by (simp add: merge_max_def)

lemma merge_max_default: "merge_max token_usage_default a = a"
  by (simp add: merge_max_def token_usage_default_def)

definition usage_le :: "token_usage \<Rightarrow> token_usage \<Rightarrow> bool" where
  "usage_le u v \<longleftrightarrow> prompt u \<le> prompt v \<and> completion u \<le> completion v \<and> cached u \<le> cached v"

lemma usage_le_refl [simp]: "usage_le u u"
  by (simp add: usage_le_def)

lemma merge_max_le_iff: "usage_le (merge_max a b) c \<longleftrightarrow> usage_le a c \<and> usage_le b c"
  by (auto simp: usage_le_def merge_max_def)

lemma usage_le_antisym: "usage_le a b \<Longrightarrow> usage_le b a \<Longrightarrow> a = b"
  by (auto simp: usage_le_def)

lemma foldl_merge_max_le_iff:
  "usage_le (foldl merge_max a us) c \<longleftrightarrow> usage_le a c \<and> (\<forall>u\<in>set us. usage_le u c)"
  by (induction us arbitrary: a) (auto simp: merge_max_le_iff)

lemma round_usage_least: "usage_le (round_usage us) c \<longleftrightarrow> (\<forall>u\<in>set us. usage_le u c)"
  by (simp add: round_usage_def foldl_merge_max_le_iff) (simp add: usage_le_def token_usage_default_def)

end
