(* ===== verification/Floats.thy ===== *)
theory Floats
  imports Complex_Main "HOL-Library.Log_Nat" "HOL-Library.Word"
begin

text \<open>
  IEEE binary floating point, for the one place the conversation code uses it (scaling the
  recorded context pressure after a compaction). A finite \<open>f32\<close> or \<open>f64\<close> is the rational it
  denotes; an operation is the exact rational result rounded to the nearest number with \<open>p\<close>
  significant bits, ties to even (\<open>p = 24\<close> for \<open>f32\<close>, \<open>p = 53\<close> for \<open>f64\<close>). The values the
  sources compute with stay far inside the exponent range, so overflow to infinity, subnormal
  numbers and NaN are not represented.
\<close>

type_synonym f32 = rat
type_synonym f64 = rat

definition round_half_even :: "rat \<Rightarrow> int" where
  "round_half_even x =
     (let f = \<lfloor>x\<rfloor>; d = x - of_int f in
      if d < 1/2 then f else if d > 1/2 then f + 1 else if even f then f else f + 1)"

text \<open>The exponent of a positive rational: \<open>2 powi ilog2 x \<le> x < 2 powi (ilog2 x + 1)\<close>.\<close>

definition ilog2 :: "rat \<Rightarrow> int" where
  "ilog2 x =
     (let (n, d) = quotient_of x;
          k = int (floorlog 2 (nat n)) - int (floorlog 2 (nat d))
      in if 2 powi k \<le> x then k else k - 1)"

definition fround :: "nat \<Rightarrow> rat \<Rightarrow> rat" where
  "fround p x =
     (if x = 0 then 0
      else (let e = ilog2 \<bar>x\<bar> - (int p - 1) in
            sgn x * (of_int (round_half_even (\<bar>x\<bar> / 2 powi e)) * 2 powi e)))"

abbreviation to_f64 :: "rat \<Rightarrow> f64" where "to_f64 \<equiv> fround 53"
abbreviation to_f32 :: "rat \<Rightarrow> f32" where "to_f32 \<equiv> fround 24"

text \<open>\<open>f64::round\<close> rounds halves away from zero; \<open>as u32\<close> saturates.\<close>

definition f64_round :: "f64 \<Rightarrow> int" where
  "f64_round x = (if 0 \<le> x then \<lfloor>x + 1/2\<rfloor> else \<lceil>x - 1/2\<rceil>)"

definition as_u32 :: "int \<Rightarrow> 32 word" where
  "as_u32 n = (if n < 0 then 0 else if 2 ^ 32 \<le> n then - 1 else word_of_int n)"

subsection \<open>Rounding is monotone and keeps representable numbers\<close>

lemma round_half_even_mono: "x \<le> y \<Longrightarrow> round_half_even x \<le> round_half_even y"
proof -
  assume le: "x \<le> y"
  then have fl: "\<lfloor>x\<rfloor> \<le> \<lfloor>y\<rfloor>" by (rule floor_mono)
  show ?thesis
  proof (cases "\<lfloor>x\<rfloor> = \<lfloor>y\<rfloor>")
    case True
    with le show ?thesis by (auto simp: round_half_even_def Let_def)
  next
    case False
    with fl have "\<lfloor>x\<rfloor> + 1 \<le> \<lfloor>y\<rfloor>" by simp
    then show ?thesis by (auto simp: round_half_even_def Let_def)
  qed
qed

lemma round_half_even_of_int [simp]: "round_half_even (of_int n) = n"
  by (simp add: round_half_even_def)

lemma ilog2_bounds:
  assumes "0 < x"
  shows "2 powi ilog2 x \<le> x \<and> x < 2 powi (ilog2 x + 1)"
proof -
  obtain n d where q: "quotient_of x = (n, d)" by (cases "quotient_of x")
  then have d: "0 < d" and x: "x = of_int n / of_int d"
    by (auto simp: quotient_of_denom_pos quotient_of_div)
  with assms have n: "0 < n" by (simp add: zero_less_divide_iff)
  define a where "a = floorlog 2 (nat n)"
  define b where "b = floorlog 2 (nat d)"
  have na: "2 ^ (a - 1) \<le> nat n" "nat n < 2 ^ a"
    using floorlog_bounds [of "nat n" 2] n by (auto simp: a_def)
  have db: "2 ^ (b - 1) \<le> nat d" "nat d < 2 ^ b"
    using floorlog_bounds [of "nat d" 2] d by (auto simp: b_def)
  have a1: "1 \<le> a" and b1: "1 \<le> b" using na db n d by (auto simp: Suc_le_eq intro!: gr0I)
  have n': "2 ^ (a - 1) \<le> (of_int n :: rat)" "(of_int n :: rat) < 2 ^ a"
    using na n by (metis of_int_le_iff of_int_less_iff of_int_numeral of_int_power
      nat_less_iff le_nat_iff of_nat_numeral of_nat_power order_less_imp_le)+
  have d': "2 ^ (b - 1) \<le> (of_int d :: rat)" "(of_int d :: rat) < 2 ^ b"
    using db d by (metis of_int_le_iff of_int_less_iff of_int_numeral of_int_power
      nat_less_iff le_nat_iff of_nat_numeral of_nat_power order_less_imp_le)+
  define k where "k = int a - int b"
  have dpos: "0 < (of_int d :: rat)" using d by simp
  have "x < 2 ^ a / 2 ^ (b - 1)"
    unfolding x using n' d' n dpos by (intro frac_less) auto
  also have "2 ^ a / 2 ^ (b - 1) = (2 :: rat) powi (k + 1)"
    using b1 by (simp add: k_def power_int_diff power_int_add power_diff field_simps)
  finally have up: "x < 2 powi (k + 1)" .
  have "2 ^ (a - 1) / 2 ^ b < x"
    unfolding x using n' d' n dpos by (intro frac_less2) auto
  moreover have "2 ^ (a - 1) / 2 ^ b = (2 :: rat) powi (k - 1)"
    using a1 by (simp add: k_def power_int_diff power_int_add power_diff field_simps)
  ultimately have lo: "2 powi (k - 1) \<le> x" by simp
  have il: "ilog2 x = (if 2 powi k \<le> x then k else k - 1)"
    using q by (simp add: ilog2_def a_def b_def k_def Let_def)
  show ?thesis using up lo by (auto simp: il)
qed

lemma two_powi_mono: "a \<le> b \<Longrightarrow> (2 :: rat) powi a \<le> 2 powi b"
  by (rule power_int_increasing) simp_all

lemma two_powi_quotient: "a - b = int n \<Longrightarrow> (2 :: rat) powi a / 2 powi b = of_int (2 ^ n)"
  by (simp add: power_int_diff [symmetric])

definition representable :: "nat \<Rightarrow> rat \<Rightarrow> bool" where
  "representable p x \<longleftrightarrow> (\<exists>m j. x = of_int m * 2 powi j \<and> \<bar>m\<bar> < 2 ^ p)"

lemma fround_pos:
  "0 < x \<Longrightarrow> fround p x =
     of_int (round_half_even (x / 2 powi (ilog2 x - (int p - 1)))) * 2 powi (ilog2 x - (int p - 1))"
  by (simp add: fround_def Let_def)

lemma fround_binade:
  assumes "0 < x" "1 \<le> p"
  shows "2 powi ilog2 x \<le> fround p x \<and> fround p x \<le> 2 powi (ilog2 x + 1)"
proof -
  define e where "e = ilog2 x - (int p - 1)"
  have pos: "0 < (2 :: rat) powi e" by simp
  have lo: "2 powi ilog2 x / 2 powi e = (of_int (2 ^ (p - 1)) :: rat)"
    using assms(2) by (intro two_powi_quotient) (simp add: e_def)
  have hi: "2 powi (ilog2 x + 1) / 2 powi e = (of_int (2 ^ p) :: rat)"
    using assms(2) by (intro two_powi_quotient) (simp add: e_def)
  have b: "2 powi ilog2 x \<le> x" "x \<le> 2 powi (ilog2 x + 1)"
    using ilog2_bounds [OF assms(1)] by auto
  have "of_int (2 ^ (p - 1)) \<le> x / 2 powi e" "x / 2 powi e \<le> of_int (2 ^ p)"
    unfolding lo [symmetric] hi [symmetric] using b pos by (auto intro: divide_right_mono)
  then have "2 ^ (p - 1) \<le> round_half_even (x / 2 powi e)" "round_half_even (x / 2 powi e) \<le> 2 ^ p"
    using round_half_even_mono by (metis round_half_even_of_int)+
  then have "of_int (2 ^ (p - 1)) * 2 powi e \<le> of_int (round_half_even (x / 2 powi e)) * (2 :: rat) powi e"
      "of_int (round_half_even (x / 2 powi e)) * (2 :: rat) powi e \<le> of_int (2 ^ p) * 2 powi e"
    using pos by (simp_all only: mult_le_cancel_right_pos of_int_le_iff)
  moreover have "fround p x = of_int (round_half_even (x / 2 powi e)) * 2 powi e"
    unfolding e_def by (rule fround_pos [OF assms(1)])
  moreover have "of_int (2 ^ (p - 1)) * 2 powi e = (2 :: rat) powi ilog2 x"
    "of_int (2 ^ p) * 2 powi e = (2 :: rat) powi (ilog2 x + 1)"
    using lo hi pos by (metis less_irrefl nonzero_eq_divide_eq)+
  ultimately show ?thesis by metis
qed

lemma ilog2_mono:
  assumes "0 < x" "x \<le> y"
  shows "ilog2 x \<le> ilog2 y"
proof (rule ccontr)
  assume "\<not> ilog2 x \<le> ilog2 y"
  then have "ilog2 y + 1 \<le> ilog2 x" by simp
  then have "(2 :: rat) powi (ilog2 y + 1) \<le> 2 powi ilog2 x" by (rule two_powi_mono)
  moreover have "y < 2 powi (ilog2 y + 1)" "2 powi ilog2 x \<le> x"
    using ilog2_bounds [of x] ilog2_bounds [of y] assms by auto
  ultimately show False using assms by simp
qed

lemma fround_mono_pos:
  assumes "0 < x" "x \<le> y" "1 \<le> p"
  shows "fround p x \<le> fround p y"
proof (cases "ilog2 x = ilog2 y")
  case True
  define e where "e = ilog2 y - (int p - 1)"
  have "round_half_even (x / 2 powi e) \<le> round_half_even (y / 2 powi e)"
    using assms by (intro round_half_even_mono divide_right_mono) auto
  then have "of_int (round_half_even (x / 2 powi e)) * (2 :: rat) powi e
      \<le> of_int (round_half_even (y / 2 powi e)) * 2 powi e"
    by (intro mult_right_mono) simp_all
  then show ?thesis
    using assms True by (simp add: fround_pos e_def)
next
  case False
  have y: "0 < y" using assms by simp
  have "fround p x \<le> 2 powi (ilog2 x + 1)" using fround_binade assms by blast
  also have "\<dots> \<le> 2 powi ilog2 y" using False ilog2_mono [OF assms(1,2)] by (intro two_powi_mono) simp
  also have "\<dots> \<le> fround p y" using fround_binade [OF y assms(3)] by blast
  finally show ?thesis .
qed

lemma fround_nonneg: "0 \<le> x \<Longrightarrow> 1 \<le> p \<Longrightarrow> 0 \<le> fround p x"
proof (cases "x = 0")
  case False
  assume "0 \<le> x" "1 \<le> p"
  with False have "2 powi ilog2 x \<le> fround p x" using fround_binade by simp
  moreover have "(0 :: rat) < 2 powi ilog2 x" by simp
  ultimately show ?thesis by linarith
qed (simp add: fround_def)

lemma fround_mono: "0 \<le> x \<Longrightarrow> x \<le> y \<Longrightarrow> 1 \<le> p \<Longrightarrow> fround p x \<le> fround p y"
  using fround_mono_pos [of x y p] fround_nonneg [of y p]
  by (cases "x = 0") (auto simp: fround_def [of p 0])

lemma fround_representable:
  assumes "representable p x" "0 \<le> x"
  shows "fround p x = x"
proof (cases "x = 0")
  case False
  with assms(2) have pos: "0 < x" by simp
  from assms(1) obtain m j where x: "x = of_int m * 2 powi j" and m: "\<bar>m\<bar> < 2 ^ p"
    by (auto simp: representable_def)
  define e where "e = ilog2 x - (int p - 1)"
  have "e \<le> j"
  proof (rule ccontr)
    assume "\<not> e \<le> j"
    then have "j + int p \<le> ilog2 x" by (simp add: e_def)
    then have "(2 :: rat) powi (j + int p) \<le> 2 powi ilog2 x" by (rule two_powi_mono)
    also have "\<dots> \<le> x" using ilog2_bounds [OF pos] by simp
    also have "x < of_int (2 ^ p) * 2 powi j"
      unfolding x using m by (intro mult_strict_right_mono) (simp_all only: of_int_less_iff, auto)
    finally show False by (simp add: power_int_add)
  qed
  then have q: "(2 :: rat) powi j / 2 powi e = of_int (2 ^ nat (j - e))"
    by (intro two_powi_quotient) simp
  have "x / 2 powi e = of_int m * (2 powi j / 2 powi e)" unfolding x by simp
  also have "\<dots> = of_int (m * 2 ^ nat (j - e))" unfolding q by simp
  finally have i: "x / 2 powi e = of_int (m * 2 ^ nat (j - e))" .
  have "fround p x = of_int (round_half_even (x / 2 powi e)) * 2 powi e"
    unfolding e_def by (rule fround_pos [OF pos])
  also have "\<dots> = x / 2 powi e * 2 powi e" by (simp only: i round_half_even_of_int)
  finally show ?thesis by simp
qed (simp add: fround_def)

text \<open>Scaling by a rounded ratio below one never increases a representable number.\<close>

lemma representable_of_nat: "n < 2 ^ p \<Longrightarrow> representable p (of_nat n)"
proof -
  assume "n < 2 ^ p"
  then have "int n < 2 ^ p" by (metis of_nat_less_iff of_nat_numeral of_nat_power)
  then show ?thesis
    unfolding representable_def by (intro exI [of _ "int n"] exI [of _ 0]) simp
qed

lemma ratio_le_one:
  assumes "a \<le> b" "0 < b"
  shows "0 \<le> to_f64 (to_f64 (of_nat a) / to_f64 (of_nat b))
    \<and> to_f64 (to_f64 (of_nat a) / to_f64 (of_nat b)) \<le> 1"
proof -
  have pos: "0 < to_f64 (of_nat b)"
  proof -
    have "0 < (2 :: rat) powi ilog2 (of_nat b)" by simp
    also have "\<dots> \<le> to_f64 (of_nat b)" using fround_binade [of "of_nat b" 53] assms(2) by simp
    finally show ?thesis .
  qed
  have ab: "0 \<le> to_f64 (of_nat a)" "to_f64 (of_nat a) \<le> to_f64 (of_nat b)"
    using assms by (auto intro!: fround_nonneg fround_mono)
  then have le: "to_f64 (of_nat a) / to_f64 (of_nat b) \<le> 1" and ge: "0 \<le> to_f64 (of_nat a) / to_f64 (of_nat b)"
    using pos by simp_all
  have "to_f64 1 = 1"
    using fround_representable [OF representable_of_nat [of 1 53]] by simp
  then show ?thesis
    using fround_mono [OF ge le, of 53] fround_nonneg [OF ge, of 53] by simp
qed

lemma scale_le:
  assumes "representable 53 u" "0 \<le> u" "0 \<le> r" "r \<le> 1"
  shows "0 \<le> to_f64 (u * r) \<and> to_f64 (u * r) \<le> u"
proof -
  have "u * r \<le> u" using assms by (intro mult_left_le) simp_all
  then have "to_f64 (u * r) \<le> to_f64 u" using assms by (intro fround_mono) auto
  then show ?thesis using assms fround_representable fround_nonneg [of "u * r" 53] by simp
qed

end
