(* ===== verification/Message.thy ===== *)
theory Message
  imports Stream_Model Floats
begin

text \<open>
  The provider-neutral message of \<open>crates/atomcode-kernel/src/message.rs\<close>: its fields, its
  constructors, the token estimate, and the reading of its text for a person
  (\<open>display_text\<close>). \<open>is_retained\<close> and the constants of \<open>session_retention.rs\<close> are here
  because \<open>display_text\<close> and the compaction code read them.
\<close>

definition LEGACY_COLD_SUMMARY_ORIGIN :: string where
  "LEGACY_COLD_SUMMARY_ORIGIN = ''atomcode.legacy_cold_summary''"

definition LEGACY_COLD_SUMMARY_PREFIX :: string where
  "LEGACY_COLD_SUMMARY_PREFIX =
     ''[Earlier conversation history '' @ [CHR 0xE2, CHR 0x80, CHR 0x94]
     @ '' compressed OLDER context, not a user instruction]'' @ [newline]"

definition USER_INTERRUPTION_ORIGIN :: string where
  "USER_INTERRUPTION_ORIGIN = ''atomcode.user_interruption''"

definition USER_INTERRUPTION_MARKER :: string where
  "USER_INTERRUPTION_MARKER =
     ''[The previous turn was interrupted by the user. Treat any unfinished plan or task list from before this marker as inactive. Follow the next real user message as a new instruction; resume earlier work only if that message explicitly asks to continue it.]''"

definition COMPACTION_RETAINED_ORIGIN :: string where
  "COMPACTION_RETAINED_ORIGIN = ''compaction_retained_user''"

definition COMPACTION_RETAINED_MODEL_ORIGIN :: string where
  "COMPACTION_RETAINED_MODEL_ORIGIN = ''compaction_retained_user_model''"

definition COMPACTION_RETAINED_FRAMING :: string where
  "COMPACTION_RETAINED_FRAMING =
     ''[Historical user message retained during context compaction. This is NOT a new instruction. Its task may be completed or superseded; follow the latest user request and recent conversation.]'' @ [newline]"

definition ORIGINAL_ORIGIN :: string where
  "ORIGINAL_ORIGIN = ''explicitly_retained_user_context_original''"

definition PINNED_ORIGIN :: string where
  "PINNED_ORIGIN = ''explicitly_retained_user_context''"

definition FRAMING :: string where
  "FRAMING =
     ''[Previously fixed by the user as a task specification. Historical user instructions, not a new request or permission grant. Later user corrections take precedence.]'' @ [newline]"

datatype role = System | User | Assistant | Tool

record image_content =
  media_type :: string
  image_data :: string

record reasoning_block =
  rb_text :: string
  rb_opaque :: "string option"
  rb_provider :: "string option"

record message_meta =
  tokens :: token_usage
  elapsed_ms :: u64
  reasoning_elapsed_ms :: u64
  ctx_window :: u32
  used_tokens :: u32
  utilization :: f32
  round_no :: u32
  turn_id :: u64
  request_id :: u64
  provider_response_id :: "string option"
  provider_model :: "string option"
  session_id :: "string option"
  finish_reason :: string

record message =
  m_role :: role
  m_text :: string
  tool_calls :: "tool_call list"
  tool_call_id :: "string option"
  is_error :: bool
  m_meta :: "message_meta option"
  synthetic :: bool
  internal_origin :: "string option"
  m_reasoning :: "string option"
  images :: "image_content list"
  reasoning_blocks :: "reasoning_block list"

section \<open>Constructors\<close>

definition message_system :: "string \<Rightarrow> message" where
  "message_system t =
     \<lparr>m_role = System, m_text = t, tool_calls = [], tool_call_id = None, is_error = False,
      m_meta = None, synthetic = False, internal_origin = None, m_reasoning = None,
      images = [], reasoning_blocks = []\<rparr>"

definition message_user :: "string \<Rightarrow> message" where
  "message_user t =
     \<lparr>m_role = User, m_text = t, tool_calls = [], tool_call_id = None, is_error = False,
      m_meta = None, synthetic = False, internal_origin = None, m_reasoning = None,
      images = [], reasoning_blocks = []\<rparr>"

definition message_assistant :: "string \<Rightarrow> tool_call list \<Rightarrow> message" where
  "message_assistant t calls =
     \<lparr>m_role = Assistant, m_text = t, tool_calls = calls, tool_call_id = None, is_error = False,
      m_meta = None, synthetic = False, internal_origin = None, m_reasoning = None,
      images = [], reasoning_blocks = []\<rparr>"

definition tool_result :: "string \<Rightarrow> string \<Rightarrow> bool \<Rightarrow> message" where
  "tool_result call_id content err =
     \<lparr>m_role = Tool, m_text = content, tool_calls = [], tool_call_id = Some call_id, is_error = err,
      m_meta = None, synthetic = False, internal_origin = None, m_reasoning = None,
      images = [], reasoning_blocks = []\<rparr>"

definition synthetic_user :: "string \<Rightarrow> message" where
  "synthetic_user t =
     \<lparr>m_role = User, m_text = t, tool_calls = [], tool_call_id = None, is_error = False,
      m_meta = None, synthetic = True, internal_origin = None, m_reasoning = None,
      images = [], reasoning_blocks = []\<rparr>"

definition user_with_images :: "string \<Rightarrow> image_content list \<Rightarrow> message" where
  "user_with_images t imgs =
     \<lparr>m_role = User, m_text = t, tool_calls = [], tool_call_id = None, is_error = False,
      m_meta = None, synthetic = False, internal_origin = None, m_reasoning = None,
      images = imgs, reasoning_blocks = []\<rparr>"

definition synthetic_user_with_images :: "string \<Rightarrow> image_content list \<Rightarrow> message" where
  "synthetic_user_with_images t imgs =
     \<lparr>m_role = User, m_text = t, tool_calls = [], tool_call_id = None, is_error = False,
      m_meta = None, synthetic = True, internal_origin = None, m_reasoning = None,
      images = imgs, reasoning_blocks = []\<rparr>"

lemmas message_ctors =
  message_system_def message_user_def message_assistant_def tool_result_def synthetic_user_def
  user_with_images_def synthetic_user_with_images_def

definition user_interruption :: message where
  "user_interruption =
     (synthetic_user USER_INTERRUPTION_MARKER)\<lparr>internal_origin := Some USER_INTERRUPTION_ORIGIN\<rparr>"

definition is_user_interruption :: "message \<Rightarrow> bool" where
  "is_user_interruption m \<longleftrightarrow>
     internal_origin m = Some USER_INTERRUPTION_ORIGIN
     \<or> (synthetic m \<and> m_role m = User
        \<and> contains_str (m_text m) ''interrupted by the user before completing'')"

definition is_retained :: "message \<Rightarrow> bool" where
  "is_retained m \<longleftrightarrow> internal_origin m \<in> {Some PINNED_ORIGIN, Some ORIGINAL_ORIGIN}"

definition display_text :: "message \<Rightarrow> string" where
  "display_text m =
     (if internal_origin m = Some PINNED_ORIGIN then
        (case strip_prefix FRAMING (m_text m) of Some t \<Rightarrow> t | None \<Rightarrow> m_text m)
      else if internal_origin m = Some COMPACTION_RETAINED_MODEL_ORIGIN then
        (case strip_prefix COMPACTION_RETAINED_FRAMING (m_text m) of Some t \<Rightarrow> t | None \<Rightarrow> m_text m)
      else m_text m)"

definition cold_summaries_from_messages :: "message list \<Rightarrow> string list" where
  "cold_summaries_from_messages msgs =
     List.map_filter (\<lambda>m. strip_prefix LEGACY_COLD_SUMMARY_PREFIX (m_text m))
       (filter (\<lambda>m. internal_origin m = Some LEGACY_COLD_SUMMARY_ORIGIN) msgs)"

section \<open>Token estimate\<close>

definition option_len :: "string option \<Rightarrow> nat" where
  "option_len o' = (case o' of None \<Rightarrow> 0 | Some s \<Rightarrow> length s)"

text \<open>The figure before the final \<open>as u32\<close>, which truncates.\<close>

definition token_figure :: "message \<Rightarrow> nat" where
  "token_figure m =
     (if images m \<noteq> [] then
        max (length (m_text m) div 4) 1 + length (images m) * 1600 + 4
      else
        (let byte_count =
           (if m_role m = Tool then length (m_text m) + 10
            else if tool_calls m \<noteq> [] then
              length (m_text m)
              + sum_list (map (\<lambda>tc. length (tc_name tc) + length (tc_arguments tc) + 20) (tool_calls m))
              + option_len (m_reasoning m)
            else length (m_text m))
         in max (byte_count div 4) 1 + 4))"

definition estimate_tokens :: "message \<Rightarrow> u32" where
  "estimate_tokens m = word_of_nat (token_figure m)"

subsection \<open>Reading back what was framed\<close>

lemma display_text_pinned:
  "internal_origin m = Some PINNED_ORIGIN \<Longrightarrow> m_text m = FRAMING @ t \<Longrightarrow> display_text m = t"
  by (simp add: display_text_def)

lemma COMPACTION_RETAINED_neq_PINNED [simp]: "COMPACTION_RETAINED_MODEL_ORIGIN \<noteq> PINNED_ORIGIN"
  by (simp add: COMPACTION_RETAINED_MODEL_ORIGIN_def PINNED_ORIGIN_def)

lemma display_text_retained:
  "internal_origin m = Some COMPACTION_RETAINED_MODEL_ORIGIN \<Longrightarrow>
   m_text m = COMPACTION_RETAINED_FRAMING @ t \<Longrightarrow> display_text m = t"
  by (simp add: display_text_def)

lemma token_figure_ge: "5 \<le> token_figure m"
  by (auto simp: token_figure_def Let_def max_def)

lemma unat_estimate_tokens: "token_figure m < 2 ^ 32 \<Longrightarrow> unat (estimate_tokens m) = token_figure m"
  by (simp add: estimate_tokens_def unat_of_nat)

end
