(* ===== verification/Conversation.thy ===== *)
theory Conversation
  imports Message
begin

text \<open>
  \<open>Conversation\<close> of \<open>crates/atomcode-kernel/src/message.rs\<close>: the message list with its prefix
  generation, the two routines that keep tool calls paired with results
  (\<open>backfill_missing_tool_results\<close> and \<open>repair_pairing\<close>), the image budget, and the facts
  compaction reads (\<open>sacred_floor\<close>, \<open>last_pressure\<close>).

  The lemmas show that \<open>repair_pairing\<close> always produces a list a provider accepts, changes
  nothing that is already valid, and keeps every message that is not a tool result; that the
  append-only \<open>backfill\<close> agrees with it on the batch a cancel leaves open; and that folding
  images drops exactly the shortest oldest prefix that fits the budget.
\<close>

record conversation =
  c_messages :: "message list"
  cache_epoch :: u64

definition conversation_new :: conversation where
  "conversation_new = \<lparr>c_messages = [], cache_epoch = 0\<rparr>"

definition conversation_push :: "conversation \<Rightarrow> message \<Rightarrow> conversation" where
  "conversation_push c m = c\<lparr>c_messages := c_messages c @ [m]\<rparr>"

section \<open>Pairing tool calls with results\<close>

subsection \<open>Append-only backfill\<close>

definition result_ids :: "message list \<Rightarrow> string set" where
  "result_ids msgs = set (List.map_filter tool_call_id msgs)"

definition assistant_call_ids :: "message list \<Rightarrow> string list" where
  "assistant_call_ids msgs =
     concat (map (\<lambda>m. map tc_id (tool_calls m)) (filter (\<lambda>m. m_role m = Assistant) msgs))"

fun collect_missing :: "string set \<Rightarrow> string set \<Rightarrow> string list \<Rightarrow> string list" where
  "collect_missing seen_results seen_missing [] = []"
| "collect_missing seen_results seen_missing (i # is) =
     (if i \<notin> seen_results \<and> i \<notin> seen_missing
      then i # collect_missing seen_results (insert i seen_missing) is
      else collect_missing seen_results seen_missing is)"

definition backfill_missing_tool_results :: "string \<Rightarrow> conversation \<Rightarrow> conversation" where
  "backfill_missing_tool_results content c =
     (let missing = collect_missing (result_ids (c_messages c)) {} (assistant_call_ids (c_messages c))
      in c\<lparr>c_messages := c_messages c @ map (\<lambda>i. tool_result i content True) missing\<rparr>)"

definition backfill_cancelled_tool_results :: "conversation \<Rightarrow> conversation" where
  "backfill_cancelled_tool_results = backfill_missing_tool_results ''(cancelled)''"

definition backfill_interrupted_tool_results :: "conversation \<Rightarrow> conversation" where
  "backfill_interrupted_tool_results = backfill_missing_tool_results ''(interrupted before execution)''"

subsection \<open>Repair\<close>

text \<open>
  The inner loop: while the next message is a tool message, take it, and keep it when it answers
  a call of this batch that has no result yet. Returned are the kept results, the answered ids
  and the messages left.
\<close>

fun take_results :: "string list \<Rightarrow> string set \<Rightarrow> message list \<Rightarrow> message list \<times> string set \<times> message list" where
  "take_results pending resolved [] = ([], resolved, [])"
| "take_results pending resolved (m # ms) =
     (if m_role m = Tool then
        (case tool_call_id m of
           Some i \<Rightarrow>
             (if i \<in> set pending \<and> i \<notin> resolved then
                (let (kept, resolved', rest) = take_results pending (insert i resolved) ms
                 in (m # kept, resolved', rest))
              else take_results pending resolved ms)
         | None \<Rightarrow> take_results pending resolved ms)
      else ([], resolved, m # ms))"

fun cancel_unresolved :: "string list \<Rightarrow> string set \<Rightarrow> message list" where
  "cancel_unresolved [] resolved = []"
| "cancel_unresolved (i # is) resolved =
     (if i \<notin> resolved then tool_result i ''(cancelled)'' True # cancel_unresolved is (insert i resolved)
      else cancel_unresolved is resolved)"

lemma take_results_rest_length: "length (snd (snd (take_results p r ms))) \<le> length ms"
  by (induction p r ms rule: take_results.induct)
    (auto simp: split_beta le_Suc_eq split: option.splits)

function repair_pairing :: "message list \<Rightarrow> message list" where
  "repair_pairing [] = []"
| "repair_pairing (m # ms) =
     (if m_role m \<noteq> Assistant \<or> tool_calls m = [] then
        (if m_role m \<noteq> Tool then m # repair_pairing ms else repair_pairing ms)
      else
        (let pending = map tc_id (tool_calls m);
             taken = take_results pending {} ms
         in m # fst taken @ cancel_unresolved pending (fst (snd taken))
              @ repair_pairing (snd (snd taken))))"
  by pat_completeness auto
termination
  by (relation "measure length") (auto simp: le_imp_less_Suc take_results_rest_length)

declare repair_pairing.simps(2) [simp del]

subsection \<open>What a provider accepts\<close>

text \<open>
  Every assistant message with tool calls is followed at once by tool messages that answer
  exactly its call ids, one each, and a tool message stands nowhere else.
\<close>

abbreviation is_tool :: "message \<Rightarrow> bool" where
  "is_tool m \<equiv> m_role m = Tool"

abbreviation opens_batch :: "message \<Rightarrow> bool" where
  "opens_batch m \<equiv> m_role m = Assistant \<and> tool_calls m \<noteq> []"

definition answers :: "message list \<Rightarrow> message \<Rightarrow> bool" where
  "answers run m \<longleftrightarrow>
     distinct (map tool_call_id run)
     \<and> set (map tool_call_id run) = Some ` tc_id ` set (tool_calls m)"

function well_paired :: "message list \<Rightarrow> bool" where
  "well_paired [] = True"
| "well_paired (m # ms) =
     (if opens_batch m then answers (takeWhile is_tool ms) m \<and> well_paired (dropWhile is_tool ms)
      else \<not> is_tool m \<and> well_paired ms)"
  by pat_completeness auto
termination
  by (relation "measure length") (auto simp: le_imp_less_Suc length_dropWhile_le)

declare well_paired.simps(2) [simp del]

subsection \<open>The inner loops\<close>

lemma take_results_rest: "snd (snd (take_results p r ms)) = dropWhile is_tool ms"
  by (induction p r ms rule: take_results.induct) (auto simp: split_beta split: option.splits)

lemma take_results_subseq: "subseq (fst (take_results p r ms)) (takeWhile is_tool ms)"
  by (induction p r ms rule: take_results.induct) (auto simp: split_beta split: option.splits)

lemma take_results_tools: "x \<in> set (fst (take_results p r ms)) \<Longrightarrow> is_tool x"
  by (induction p r ms rule: take_results.induct)
    (auto simp: split_beta split: option.splits if_splits)

lemma take_results_resolved:
  "r \<subseteq> fst (snd (take_results p r ms)) \<and> fst (snd (take_results p r ms)) \<subseteq> r \<union> set p"
  by (induction p r ms rule: take_results.induct)
    (auto simp: split_beta split: option.splits)

lemma take_results_ids:
  "distinct (map tool_call_id (fst (take_results p r ms)))
   \<and> set (map tool_call_id (fst (take_results p r ms)))
       = Some ` (fst (snd (take_results p r ms)) - r)"
proof (induction p r ms rule: take_results.induct)
  case (2 p r m ms)
  show ?case
  proof (cases "is_tool m \<and> (\<exists>i. tool_call_id m = Some i \<and> i \<in> set p \<and> i \<notin> r)")
    case True
    then obtain i where i: "is_tool m" "tool_call_id m = Some i" "i \<in> set p" "i \<notin> r" by blast
    then show ?thesis
      using "2.IH"(2) [OF i(1,2)] take_results_resolved [of "insert i r" p ms]
      by (auto simp: split_beta)
  next
    case False
    with "2.IH" show ?thesis by (cases "tool_call_id m") auto
  qed
qed simp

lemma take_results_all:
  assumes "distinct (map tool_call_id run)" "\<forall>x\<in>set run. is_tool x"
    "set (map tool_call_id run) \<subseteq> Some ` (set p - r)"
    "rest = [] \<or> \<not> is_tool (hd rest)"
  shows "take_results p r (run @ rest) = (run, r \<union> {i. Some i \<in> set (map tool_call_id run)}, rest)"
  using assms
proof (induction run arbitrary: r)
  case Nil
  then show ?case by (cases rest) auto
next
  case (Cons m run)
  then obtain i where i: "tool_call_id m = Some i" "i \<in> set p" "i \<notin> r" by auto
  have "set (map tool_call_id run) \<subseteq> Some ` (set p - insert i r)"
  proof
    fix y assume "y \<in> set (map tool_call_id run)"
    then have "y \<in> Some ` (set p - r)" "y \<noteq> Some i" using Cons.prems(1,3) i(1) by (auto, force)
    then show "y \<in> Some ` (set p - insert i r)" by auto
  qed
  with Cons have "take_results p (insert i r) (run @ rest)
      = (run, insert i r \<union> {i. Some i \<in> set (map tool_call_id run)}, rest)" by simp
  then show ?case using Cons.prems(2) i by auto
qed

lemma cancel_unresolved_ids:
  "distinct (map tool_call_id (cancel_unresolved is r))
   \<and> set (map tool_call_id (cancel_unresolved is r)) = Some ` (set is - r)"
  by (induction "is" r rule: cancel_unresolved.induct) (auto simp: tool_result_def)

lemma cancel_unresolved_tools: "x \<in> set (cancel_unresolved is r) \<Longrightarrow> is_tool x"
  by (induction "is" r rule: cancel_unresolved.induct) (auto simp: tool_result_def split: if_splits)

lemma cancel_unresolved_Nil: "set is \<subseteq> r \<Longrightarrow> cancel_unresolved is r = []"
  by (induction "is" r rule: cancel_unresolved.induct) auto

text \<open>A repaired list starts with a tool message only if the list did not start with another one.\<close>

lemma repair_pairing_plain [pairing_simps]:
  "\<not> opens_batch m \<Longrightarrow> repair_pairing (m # ms) = (if is_tool m then [] else [m]) @ repair_pairing ms"
  by (auto simp: repair_pairing.simps(2))

lemma repair_pairing_batch [pairing_simps]:
  "opens_batch m \<Longrightarrow> repair_pairing (m # ms) =
     m # fst (take_results (map tc_id (tool_calls m)) {} ms)
       @ cancel_unresolved (map tc_id (tool_calls m)) (fst (snd (take_results (map tc_id (tool_calls m)) {} ms)))
       @ repair_pairing (dropWhile is_tool ms)"
  by (simp add: repair_pairing.simps(2) Let_def take_results_rest)

lemma well_paired_plain [pairing_simps]:
  "\<not> opens_batch m \<Longrightarrow> well_paired (m # ms) \<longleftrightarrow> \<not> is_tool m \<and> well_paired ms"
  by (subst well_paired.simps(2)) (simp only: if_False)

lemma well_paired_batch [pairing_simps]:
  "opens_batch m \<Longrightarrow> well_paired (m # ms) \<longleftrightarrow>
     answers (takeWhile is_tool ms) m \<and> well_paired (dropWhile is_tool ms)"
  by (simp add: well_paired.simps(2))

lemma repair_pairing_head: "ms \<noteq> [] \<Longrightarrow> \<not> is_tool (hd ms) \<Longrightarrow>
   \<exists>ms'. repair_pairing ms = hd ms # ms'"
  by (cases ms) (auto simp: repair_pairing.simps(2) Let_def)

lemma repair_pairing_dropWhile_head:
  "repair_pairing (dropWhile is_tool ms) = [] \<or> \<not> is_tool (hd (repair_pairing (dropWhile is_tool ms)))"
proof (cases "dropWhile is_tool ms = []")
  case False
  then have "\<not> is_tool (hd (dropWhile is_tool ms))" by (rule hd_dropWhile)
  with False repair_pairing_head show ?thesis by (metis list.sel(1))
next
  case True
  then show ?thesis by (simp only: repair_pairing.simps(1) simp_thms)
qed

lemma takeWhile_dropWhile_run:
  "\<forall>x\<in>set run. P x \<Longrightarrow> rest = [] \<or> \<not> P (hd rest) \<Longrightarrow>
   takeWhile P (run @ rest) = run \<and> dropWhile P (run @ rest) = rest"
  by (cases rest) (auto simp: dropWhile_append2)

subsection \<open>Repair produces a valid list, and changes no valid one\<close>

lemma well_paired_repair_pairing: "well_paired (repair_pairing ms)"
proof (induction ms rule: repair_pairing.induct)
  case (2 m ms)
  show ?case
  proof (cases "opens_batch m")
    case True
    let ?p = "map tc_id (tool_calls m)"
    let ?t = "take_results ?p {} ms"
    let ?run = "fst ?t @ cancel_unresolved ?p (fst (snd ?t))"
    let ?rest = "repair_pairing (dropWhile is_tool ms)"
    have tools: "\<forall>x\<in>set ?run. is_tool x"
      using take_results_tools cancel_unresolved_tools by fastforce
    then have split: "takeWhile is_tool (?run @ ?rest) = ?run" "dropWhile is_tool (?run @ ?rest) = ?rest"
      using takeWhile_dropWhile_run [OF tools repair_pairing_dropWhile_head] by blast+
    have "answers ?run m"
      using take_results_ids [of ?p "{}" ms] cancel_unresolved_ids [of ?p "fst (snd ?t)"]
        take_results_resolved [of "{}" ?p ms]
      unfolding answers_def by (auto simp: image_image)
    moreover have "well_paired ?rest"
      using "2.IH"(3) [of ?p ?t] True by (auto simp: take_results_rest)
    ultimately show ?thesis
      using True split by (simp add: pairing_simps)
  next
    case False
    with 2 show ?thesis by (auto simp: pairing_simps)
  qed
qed simp

lemma repair_pairing_well_paired: "well_paired ms \<Longrightarrow> repair_pairing ms = ms"
proof (induction ms rule: well_paired.induct)
  case (2 m ms)
  show ?case
  proof (cases "opens_batch m")
    case True
    let ?p = "map tc_id (tool_calls m)"
    let ?run = "takeWhile is_tool ms" and ?rest = "dropWhile is_tool ms"
    from True "2.prems" have ans: "answers ?run m" and rest: "well_paired ?rest"
      by (simp_all add: pairing_simps)
    have "take_results ?p {} (?run @ ?rest)
        = (?run, {} \<union> {i. Some i \<in> set (map tool_call_id ?run)}, ?rest)"
      using ans hd_dropWhile [of is_tool ms] set_takeWhileD [of _ is_tool ms]
      by (intro take_results_all) (auto simp: answers_def)
    then have t: "take_results ?p {} ms = (?run, {i. Some i \<in> set (map tool_call_id ?run)}, ?rest)"
      by simp
    have "set ?p \<subseteq> {i. Some i \<in> set (map tool_call_id ?run)}"
      using ans unfolding answers_def by auto
    with True t rest "2.IH"(1) show ?thesis
      by (simp add: pairing_simps cancel_unresolved_Nil)
  next
    case False
    with 2 show ?thesis by (auto simp: pairing_simps)
  qed
qed simp

lemma filter_tool_takeWhile: "filter (\<lambda>m. \<not> is_tool m) ms = filter (\<lambda>m. \<not> is_tool m) (dropWhile is_tool ms)"
  by (induction ms) auto

lemma repair_pairing_keeps: "filter (\<lambda>m. \<not> is_tool m) (repair_pairing ms) = filter (\<lambda>m. \<not> is_tool m) ms"
proof (induction ms rule: repair_pairing.induct)
  case (2 m ms)
  show ?case
  proof (cases "opens_batch m")
    case True
    then show ?thesis
      using "2.IH"(3) take_results_tools cancel_unresolved_tools
      by (auto simp: pairing_simps take_results_rest filter_empty_conv filter_tool_takeWhile [of ms])
  next
    case False
    with 2 show ?thesis by (auto simp: pairing_simps)
  qed
qed simp

subsection \<open>Repair works batch by batch\<close>

lemma take_results_append:
  "rest = [] \<or> \<not> is_tool (hd rest) \<Longrightarrow>
   take_results p r (ms @ rest) =
     (fst (take_results p r ms), fst (snd (take_results p r ms)), snd (snd (take_results p r ms)) @ rest)"
proof (induction p r ms rule: take_results.induct)
  case (1 p r)
  then show ?case by (cases rest) auto
next
  case (2 p r m ms)
  then show ?case by (auto simp: split_beta split: option.splits)
qed

lemma dropWhile_append_stop:
  "rest = [] \<or> \<not> P (hd rest) \<Longrightarrow> dropWhile P (ms @ rest) = dropWhile P ms @ rest"
  by (induction ms) (auto, cases rest, auto)

lemma repair_pairing_append:
  "rest = [] \<or> \<not> is_tool (hd rest) \<Longrightarrow> repair_pairing (ms @ rest) = repair_pairing ms @ repair_pairing rest"
proof (induction ms rule: repair_pairing.induct)
  case (2 m ms)
  show ?case
  proof (cases "opens_batch m")
    case True
    then show ?thesis
      using "2.IH"(3) "2.prems"
      by (auto simp: pairing_simps take_results_append dropWhile_append_stop take_results_rest)
  next
    case False
    with 2 show ?thesis by (auto simp: pairing_simps)
  qed
qed simp

lemma takeWhile_append_stop:
  "rest = [] \<or> \<not> P (hd rest) \<Longrightarrow> takeWhile P (ms @ rest) = takeWhile P ms"
  by (induction ms) (auto, cases rest, auto)

lemma well_paired_append:
  "rest = [] \<or> \<not> is_tool (hd rest) \<Longrightarrow> well_paired (ms @ rest) \<longleftrightarrow> well_paired ms \<and> well_paired rest"
proof (induction ms rule: well_paired.induct)
  case (2 m ms)
  then show ?case
    by (cases "opens_batch m") (auto simp: pairing_simps takeWhile_append_stop dropWhile_append_stop)
qed simp

text \<open>A prefix that ends with a message outside any batch is repaired on its own.\<close>

abbreviation closed_prefix :: "message list \<Rightarrow> bool" where
  "closed_prefix p \<equiv> p = [] \<or> (\<not> is_tool (last p) \<and> \<not> opens_batch (last p))"

lemma repair_closed_prefix:
  assumes "closed_prefix p"
  shows "repair_pairing (p @ q) = repair_pairing p @ repair_pairing q"
proof (cases p rule: rev_cases)
  case (snoc p' u)
  with assms have "repair_pairing (u # q) = u # repair_pairing q" "repair_pairing [u] = [u]"
    by (auto simp: pairing_simps)
  with snoc assms repair_pairing_append [of "u # q" p'] repair_pairing_append [of "[u]" p']
  show ?thesis by simp
qed simp

lemma well_paired_closed_prefix:
  assumes "closed_prefix p" "well_paired (p @ q)"
  shows "well_paired p"
proof (cases p rule: rev_cases)
  case (snoc p' u)
  with assms well_paired_append [of "u # q" p'] well_paired_append [of "[u]" p']
  show ?thesis by (auto simp: pairing_simps)
qed simp

subsection \<open>Backfill\<close>

lemma collect_missing_set: "set (collect_missing S M is) = set is - S - M"
  by (induction S M "is" rule: collect_missing.induct) auto

lemma collect_missing_distinct: "distinct (collect_missing S M is)"
  by (induction S M "is" rule: collect_missing.induct) (auto simp: collect_missing_set)

lemma collect_missing_append: "set xs \<subseteq> S \<Longrightarrow> collect_missing S M (xs @ ys) = collect_missing S M ys"
  by (induction xs) auto

lemma cancel_unresolved_eq_collect:
  "\<forall>i\<in>set is. i \<in> S \<longleftrightarrow> i \<in> R \<Longrightarrow>
   cancel_unresolved is (R \<union> M) = map (\<lambda>i. tool_result i ''(cancelled)'' True) (collect_missing S M is)"
proof (induction S M "is" rule: collect_missing.induct)
  case (2 S M i "is")
  then show ?case by auto
qed simp

lemma result_ids_append [simp]: "result_ids (xs @ ys) = result_ids xs \<union> result_ids ys"
  by (simp add: result_ids_def map_filter_def)

lemma assistant_call_ids_append [simp]:
  "assistant_call_ids (xs @ ys) = assistant_call_ids xs @ assistant_call_ids ys"
  by (simp add: assistant_call_ids_def)

lemma result_ids_Cons [simp]: "result_ids (m # ms) = set_option (tool_call_id m) \<union> result_ids ms"
  by (auto simp: result_ids_def List.map_filter_simps split: option.splits)

lemma result_ids_Nil [simp]: "result_ids [] = {}"
  by (simp add: result_ids_def List.map_filter_simps)

lemma result_ids_iff: "i \<in> result_ids ms \<longleftrightarrow> Some i \<in> tool_call_id ` set ms"
  by (induction ms) (auto simp: elem_set)

lemma assistant_call_ids_Cons [simp]:
  "assistant_call_ids (m # ms) =
     (if m_role m = Assistant then map tc_id (tool_calls m) else []) @ assistant_call_ids ms"
  by (simp add: assistant_call_ids_def)

lemma assistant_call_ids_tools: "\<forall>x\<in>set ms. is_tool x \<Longrightarrow> assistant_call_ids ms = []"
  by (auto simp: assistant_call_ids_def filter_empty_conv)

lemma backfill_appends:
  "c_messages (backfill_missing_tool_results content c) =
     c_messages c @ map (\<lambda>i. tool_result i content True)
       (collect_missing (result_ids (c_messages c)) {} (assistant_call_ids (c_messages c)))"
  by (simp add: backfill_missing_tool_results_def Let_def)

lemma backfill_answers_every_call:
  "set (assistant_call_ids (c_messages (backfill_missing_tool_results content c)))
   \<subseteq> result_ids (c_messages (backfill_missing_tool_results content c))"
proof -
  have tools: "assistant_call_ids (map (\<lambda>i. tool_result i content True) xs) = []" for xs
    by (intro assistant_call_ids_tools) (auto simp: tool_result_def)
  have ids: "result_ids (map (\<lambda>i. tool_result i content True) xs) = set xs" for xs
    by (induction xs) (auto simp: tool_result_def)
  show ?thesis
    by (auto simp: backfill_appends tools ids collect_missing_set)
qed

lemma well_paired_answered: "well_paired ms \<Longrightarrow> set (assistant_call_ids ms) \<subseteq> result_ids ms"
proof (induction ms rule: well_paired.induct)
  case (2 m ms)
  show ?case
  proof (cases "opens_batch m")
    case True
    let ?run = "takeWhile is_tool ms" and ?rest = "dropWhile is_tool ms"
    from True "2.prems" have ans: "answers ?run m" and rest: "well_paired ?rest"
      by (simp_all add: pairing_simps)
    have "assistant_call_ids ?run = []"
      using set_takeWhileD [of _ is_tool ms] by (intro assistant_call_ids_tools) blast
    then have "assistant_call_ids (m # ?run @ ?rest) = map tc_id (tool_calls m) @ assistant_call_ids ?rest"
      using True by (simp only: assistant_call_ids_Cons assistant_call_ids_append) simp
    moreover have "result_ids ?run = tc_id ` set (tool_calls m)"
      using ans by (auto simp: answers_def result_ids_iff)
    moreover have "set (assistant_call_ids ?rest) \<subseteq> result_ids ?rest"
      using "2.IH"(1) True rest by blast
    ultimately have "set (assistant_call_ids (m # ?run @ ?rest)) \<subseteq> result_ids (m # ?run @ ?rest)"
      by (simp only: result_ids_Cons result_ids_append set_append set_map) blast
    then show ?thesis by simp
  next
    case False
    with 2 have "set (assistant_call_ids ms) \<subseteq> result_ids ms" by (simp add: pairing_simps)
    moreover have "assistant_call_ids (m # ms) = assistant_call_ids ms"
      using False by (auto simp: assistant_call_ids_def)
    ultimately show ?thesis by (auto simp: result_ids_iff)
  qed
qed (simp add: assistant_call_ids_def)

text \<open>
  A cancel leaves one open batch at the end: an assistant message and the results of some of its
  calls. There the append-only routine and the full repair agree, as long as the batch's ids were
  not answered earlier in the conversation.
\<close>

lemma backfill_eq_repair:
  assumes "c_messages c = ps @ m # run" and "well_paired ps"
    and "opens_batch m" and "tool_call_id m = None"
    and "\<forall>x\<in>set run. is_tool x" and "distinct (map tool_call_id run)"
    and "set (map tool_call_id run) \<subseteq> Some ` tc_id ` set (tool_calls m)"
    and "result_ids ps \<inter> tc_id ` set (tool_calls m) = {}"
  shows "c_messages (backfill_cancelled_tool_results c) = repair_pairing (c_messages c)"
proof -
  let ?p = "map tc_id (tool_calls m)"
  let ?S = "result_ids (c_messages c)"
  have not_tool: "\<not> is_tool m" using assms(3) by simp
  have drop: "dropWhile is_tool run = []" using assms(5) by simp
  have "take_results ?p {} (run @ []) = (run, {} \<union> {i. Some i \<in> set (map tool_call_id run)}, [])"
    using assms by (intro take_results_all) auto
  then have t: "take_results ?p {} run = (run, result_ids run, [])"
    by (simp add: result_ids_iff set_eq_iff)
  have "repair_pairing (c_messages c) = ps @ repair_pairing (m # run)"
    using assms(1,2) not_tool repair_pairing_append [of "m # run" ps]
    by (simp add: repair_pairing_well_paired)
  also have "repair_pairing (m # run) = m # run @ cancel_unresolved ?p (result_ids run \<union> {})"
    using assms(3) t by (simp add: repair_pairing_batch drop)
  also have "cancel_unresolved ?p (result_ids run \<union> {})
      = map (\<lambda>i. tool_result i ''(cancelled)'' True) (collect_missing ?S {} ?p)"
    using assms(1,4,8) by (intro cancel_unresolved_eq_collect) auto
  also have "collect_missing ?S {} ?p = collect_missing ?S {} (assistant_call_ids (c_messages c))"
  proof -
    have "assistant_call_ids (c_messages c) = assistant_call_ids ps @ ?p"
      using assms(1,3) assistant_call_ids_tools [OF assms(5)]
      by (simp add: assistant_call_ids_def)
    moreover have "set (assistant_call_ids ps) \<subseteq> ?S"
      using well_paired_answered [OF assms(2)] assms(1) by auto
    ultimately show ?thesis by (simp add: collect_missing_append)
  qed
  finally show ?thesis
    using assms(1) by (simp add: backfill_cancelled_tool_results_def backfill_appends)
qed

section \<open>Images within a byte budget\<close>

definition FOLDED_IMAGE_MARK :: string where
  "FOLDED_IMAGE_MARK =
     ''['' @ [CHR 0xE8, CHR 0xBE, CHR 0x83] @ [CHR 0xE6, CHR 0x97, CHR 0xA9] @ [CHR 0xE7, CHR 0x9A, CHR 0x84]
     @ [CHR 0xE5, CHR 0x9B, CHR 0xBE] @ [CHR 0xE7, CHR 0x89, CHR 0x87] @ [CHR 0xE5, CHR 0xB7, CHR 0xB2]
     @ [CHR 0xE6, CHR 0x8A, CHR 0x98] @ [CHR 0xE5, CHR 0x8F, CHR 0xA0] @ [CHR 0xE4, CHR 0xBB, CHR 0xA5]
     @ [CHR 0xE9, CHR 0x80, CHR 0x82] @ [CHR 0xE5, CHR 0xBA, CHR 0x94] @ [CHR 0xE8, CHR 0xAF, CHR 0xB7]
     @ [CHR 0xE6, CHR 0xB1, CHR 0x82] @ [CHR 0xE5, CHR 0xA4, CHR 0xA7] @ [CHR 0xE5, CHR 0xB0, CHR 0x8F]
     @ [CHR 0xE4, CHR 0xB8, CHR 0x8A] @ [CHR 0xE9, CHR 0x99, CHR 0x90] @ '']''"

definition mark_folded :: "message \<Rightarrow> message" where
  "mark_folded m =
     (if contains_str (m_text m) FOLDED_IMAGE_MARK then m
      else m\<lparr>m_text := (if m_text m = [] then [] else m_text m @ [newline]) @ FOLDED_IMAGE_MARK\<rparr>)"

fun fold_oldest_image :: "message list \<Rightarrow> (message list \<times> nat) option" where
  "fold_oldest_image [] = None"
| "fold_oldest_image (m # ms) =
     (case images m of
        img # imgs \<Rightarrow> Some (mark_folded (m\<lparr>images := imgs\<rparr>) # ms, length (image_data img))
      | [] \<Rightarrow> map_option (\<lambda>(ms', freed). (m # ms', freed)) (fold_oldest_image ms))"

definition all_images :: "message list \<Rightarrow> image_content list" where
  "all_images msgs = concat (map images msgs)"

definition image_bytes :: "image_content list \<Rightarrow> nat" where
  "image_bytes imgs = sum_list (map (\<lambda>i. length (image_data i)) imgs)"

definition remaining_images :: "message list \<Rightarrow> nat" where
  "remaining_images msgs = sum_list (map (\<lambda>m. length (images m)) msgs)"

lemma mark_folded_images [simp]: "images (mark_folded m) = images m"
  by (simp add: mark_folded_def)

lemma fold_oldest_image_images:
  "fold_oldest_image ms = Some (ms', freed) \<Longrightarrow>
   \<exists>img. all_images ms = img # all_images ms' \<and> freed = length (image_data img)"
  by (induction ms arbitrary: ms' freed) (auto simp: all_images_def split: list.splits)

lemma remaining_images_eq: "remaining_images ms = length (all_images ms)"
  by (induction ms) (auto simp: remaining_images_def all_images_def)

lemma fold_oldest_image_None: "fold_oldest_image ms = None \<longleftrightarrow> all_images ms = []"
  by (induction ms) (auto simp: all_images_def split: list.splits)

function fold_until :: "nat \<Rightarrow> message list \<Rightarrow> nat \<Rightarrow> nat \<Rightarrow> message list \<times> nat \<times> nat" where
  "fold_until budget msgs tot folded =
     (if tot > budget then
        (if remaining_images msgs \<le> 1 then (msgs, tot, folded)
         else (case fold_oldest_image msgs of
                 Some (msgs', freed) \<Rightarrow> fold_until budget msgs' (tot - freed) (folded + 1)
               | None \<Rightarrow> (msgs, tot, folded)))
      else (msgs, tot, folded))"
  by pat_completeness auto
termination
  by (relation "measure (\<lambda>(budget, msgs, tot, folded). remaining_images msgs)")
    (auto simp: remaining_images_eq dest!: fold_oldest_image_images)

declare fold_until.simps [simp del]

definition fold_oldest_images_to_budget :: "message list \<Rightarrow> nat \<Rightarrow> message list \<times> nat \<times> bool" where
  "fold_oldest_images_to_budget msgs budget =
     (let tot = image_bytes (all_images msgs) in
      if tot \<le> budget then (msgs, 0, False)
      else (case fold_until budget msgs tot 0 of (msgs', tot', folded) \<Rightarrow>
        (if tot' > budget then
           (case fold_oldest_image msgs' of
              Some (msgs'', _) \<Rightarrow> (msgs'', folded + 1, True)
            | None \<Rightarrow> (msgs', folded, True))
         else (msgs', folded, False))))"

subsection \<open>Exactly the shortest oldest prefix is folded\<close>

lemma image_bytes_Cons [simp]: "image_bytes (i # is) = length (image_data i) + image_bytes is"
  by (simp add: image_bytes_def)

lemma image_bytes_Nil [simp]: "image_bytes [] = 0"
  by (simp add: image_bytes_def)

lemma image_bytes_drop_mono: "m \<le> n \<Longrightarrow> image_bytes (drop n is) \<le> image_bytes (drop m is)"
  by (metis drop_drop image_bytes_def le_add_diff_inverse2 drop_map sum_list_drop_le)

text \<open>
  Where the loop stands: \<open>folded\<close> images are gone from the front of \<open>imgs\<close>, one is always left,
  and every shorter prefix was too little.
\<close>

definition fold_state :: "nat \<Rightarrow> image_content list \<Rightarrow> message list \<Rightarrow> nat \<Rightarrow> nat \<Rightarrow> bool" where
  "fold_state budget imgs msgs tot folded \<longleftrightarrow>
     all_images msgs = drop folded imgs \<and> tot = image_bytes (drop folded imgs) \<and> folded < length imgs
     \<and> (\<forall>n<folded. budget < image_bytes (drop n imgs))"

lemma fold_until_state:
  "fold_state budget imgs msgs tot folded \<Longrightarrow>
   (case fold_until budget msgs tot folded of (msgs', tot', folded') \<Rightarrow>
      fold_state budget imgs msgs' tot' folded'
      \<and> (budget < tot' \<longrightarrow> Suc folded' = length imgs))"
proof (induction budget msgs tot folded rule: fold_until.induct)
  case (1 budget msgs tot folded)
  note st = 1(2) [unfolded fold_state_def]
  show ?case
  proof (cases "budget < tot \<and> \<not> remaining_images msgs \<le> 1")
    case True
    then have "all_images msgs \<noteq> []" by (auto simp: remaining_images_eq)
    then obtain msgs' freed where f: "fold_oldest_image msgs = Some (msgs', freed)"
      by (metis fold_oldest_image_None not_None_eq surj_pair)
    then obtain img where img: "all_images msgs = img # all_images msgs'" "freed = length (image_data img)"
      using fold_oldest_image_images by blast
    have d: "drop (Suc folded) imgs = all_images msgs'"
      using st img by (metis drop_Suc list.sel(3) tl_drop)
    have "fold_state budget imgs msgs' (tot - freed) (folded + 1)"
      unfolding fold_state_def
    proof (intro conjI allI impI)
      show "folded + 1 < length imgs"
        using True st img d by (auto simp: remaining_images_eq dest: arg_cong [where f = length])
      show "tot - freed = image_bytes (drop (folded + 1) imgs)"
        using st img d by (metis Suc_eq_plus1 add_diff_cancel_left' image_bytes_Cons)
      fix n assume "n < folded + 1"
      then show "budget < image_bytes (drop n imgs)"
        using st True by (cases "n = folded") auto
    qed (use d in simp)
    with 1(1) [of "(msgs', freed)" msgs' freed] f True show ?thesis
      by (subst fold_until.simps) simp
  next
    case False
    then have "fold_until budget msgs tot folded = (msgs, tot, folded)"
      by (auto simp: fold_until.simps)
    moreover have "budget < tot \<Longrightarrow> Suc folded = length imgs"
      using False st by (auto simp: remaining_images_eq dest: arg_cong [where f = length])
    ultimately show ?thesis using 1(2) by simp
  qed
qed

lemma fold_images_spec:
  assumes "fold_oldest_images_to_budget msgs budget = (msgs', folded, all_folded)"
  shows "all_images msgs' = drop folded (all_images msgs)"
    and "folded = (LEAST n. image_bytes (drop n (all_images msgs)) \<le> budget)"
    and "all_folded \<longleftrightarrow> all_images msgs \<noteq> [] \<and> folded = length (all_images msgs)"
proof -
  let ?imgs = "all_images msgs"
  have main: "all_images msgs' = drop folded ?imgs \<and> image_bytes (drop folded ?imgs) \<le> budget
      \<and> (\<forall>n<folded. budget < image_bytes (drop n ?imgs))
      \<and> (all_folded \<longleftrightarrow> ?imgs \<noteq> [] \<and> folded = length ?imgs)"
  proof (cases "image_bytes ?imgs \<le> budget")
    case True
    with assms show ?thesis by (auto simp: fold_oldest_images_to_budget_def)
  next
    case False
    then have "?imgs \<noteq> []" by auto
    obtain m1 t1 f1 where u: "fold_until budget msgs (image_bytes ?imgs) 0 = (m1, t1, f1)"
      by (metis prod_cases3)
    have "fold_state budget ?imgs msgs (image_bytes ?imgs) 0"
      using \<open>?imgs \<noteq> []\<close> by (simp add: fold_state_def)
    from fold_until_state [OF this] u have st: "fold_state budget ?imgs m1 t1 f1"
      and last: "budget < t1 \<Longrightarrow> Suc f1 = length ?imgs" by auto
    show ?thesis
    proof (cases "budget < t1")
      case True
      with last have "Suc f1 = length ?imgs" by simp
      then have "all_images m1 \<noteq> []" using st by (simp add: fold_state_def)
      then obtain m2 fr where f: "fold_oldest_image m1 = Some (m2, fr)"
        by (metis fold_oldest_image_None not_None_eq surj_pair)
      then obtain img where "all_images m1 = img # all_images m2" using fold_oldest_image_images by blast
      then have d: "all_images m2 = drop (Suc f1) ?imgs"
        using st by (metis drop_Suc fold_state_def list.sel(3) tl_drop)
      have r: "msgs' = m2" "folded = Suc f1" "all_folded"
        using assms False u True f by (auto simp: fold_oldest_images_to_budget_def Let_def)
      have "\<forall>n<Suc f1. budget < image_bytes (drop n ?imgs)"
        using st True by (auto simp: fold_state_def less_Suc_eq)
      with r d \<open>Suc f1 = length ?imgs\<close> \<open>?imgs \<noteq> []\<close> show ?thesis by simp
    next
      case False
      have r: "msgs' = m1" "folded = f1" "\<not> all_folded"
        using assms \<open>\<not> image_bytes ?imgs \<le> budget\<close> u False
        by (auto simp: fold_oldest_images_to_budget_def Let_def)
      with st False show ?thesis by (auto simp: fold_state_def)
    qed
  qed
  then show "all_images msgs' = drop folded ?imgs"
    and "all_folded \<longleftrightarrow> ?imgs \<noteq> [] \<and> folded = length ?imgs" by auto
  show "folded = (LEAST n. image_bytes (drop n ?imgs) \<le> budget)"
    using main by (metis (mono_tags, lifting) LeastI_ex Least_le antisym_conv2 leD not_le_imp_less)
qed

section \<open>What compaction reads\<close>

definition sacred_floor :: "message list \<Rightarrow> nat" where
  "sacred_floor msgs =
     (let lead_system = (case msgs of m # _ \<Rightarrow> if m_role m = System then 1 else 0 | [] \<Rightarrow> 0) in
      case position (\<lambda>m. m_role m = User \<and> \<not> synthetic m) msgs of
        Some idx \<Rightarrow> idx + 1
      | None \<Rightarrow> lead_system)"

definition last_pressure :: "message list \<Rightarrow> u32 \<times> u32 \<times> f32" where
  "last_pressure msgs =
     (case Option.bind (find (\<lambda>m. m_role m = Assistant) (rev msgs)) m_meta of
        Some meta \<Rightarrow> (ctx_window meta, used_tokens meta, utilization meta)
      | None \<Rightarrow> (0, 0, 0))"

lemma sacred_floor_le: "sacred_floor msgs \<le> length msgs"
  by (auto simp: sacred_floor_def Let_def position_Some Suc_le_eq split: option.splits list.splits)

lemma sacred_floor_closed: "closed_prefix (take (sacred_floor msgs) msgs)"
proof (cases "position (\<lambda>m. m_role m = User \<and> \<not> synthetic m) msgs")
  case None
  then show ?thesis by (cases msgs) (auto simp: sacred_floor_def)
next
  case (Some i)
  then have "sacred_floor msgs = Suc i" by (simp add: sacred_floor_def)
  moreover have "i < length msgs" "m_role (msgs ! i) = User" using Some by (auto simp: position_Some)
  ultimately show ?thesis by (simp add: take_Suc_conv_app_nth)
qed

lemma sacred_floor_keeps_prompt:
  "m \<in> set msgs \<Longrightarrow> m_role m = User \<Longrightarrow> \<not> synthetic m \<Longrightarrow>
   \<exists>m'. take (sacred_floor msgs) msgs \<noteq> [] \<and> last (take (sacred_floor msgs) msgs) = m'
     \<and> m_role m' = User \<and> \<not> synthetic m'"
proof -
  assume "m \<in> set msgs" "m_role m = User" "\<not> synthetic m"
  then obtain i where i: "position (\<lambda>m. m_role m = User \<and> \<not> synthetic m) msgs = Some i"
    by (metis (mono_tags, lifting) not_None_eq position_None)
  then have "i < length msgs" "m_role (msgs ! i) = User" "\<not> synthetic (msgs ! i)"
    by (auto simp: position_Some)
  with i show ?thesis
    by (auto simp: sacred_floor_def take_Suc_conv_app_nth)
qed

end
