(* ===== verification/Compaction.thy ===== *)
theory Compaction
  imports Conversation
begin

text \<open>
  Compaction of a conversation (\<open>prepare_plan\<close>, \<open>commit_prepared\<close>, \<open>apply_plan\<close> and the plan,
  report and snapshot types of \<open>crates/atomcode-kernel/src/message.rs\<close>). A strategy only
  proposes a plan; these routines are the one writer. The lemmas show what no plan can break: the
  protected prefix, the messages a person pinned, valid tool pairing, strict shrinking, and the
  epoch that moves exactly when the history does.
\<close>

datatype compact_trigger =
    Auto (trigger_utilization: f32)
  | Manual (focus: "string option")
  | Overflow (attempt: u8)

record compaction_view =
  cv_messages :: "message list"
  cv_trigger :: compact_trigger
  cv_ctx_window :: u32
  cv_used_tokens :: u32
  cv_utilization :: f32
  cv_sacred_floor :: nat

record compaction_plan =
  drain_from :: nat
  drain_to :: nat
  summary :: "string option"
  plan_rewrites :: "(nat \<times> string) list"
  resume_note :: "string option"

definition plan_noop :: compaction_plan where
  "plan_noop = \<lparr>drain_from = 0, drain_to = 0, summary = None, plan_rewrites = [], resume_note = None\<rparr>"

definition is_noop :: "compaction_plan \<Rightarrow> bool" where
  "is_noop p \<longleftrightarrow> drain_to p \<le> drain_from p \<and> summary p = None \<and> plan_rewrites p = [] \<and> resume_note p = None"

text \<open>The neutral strategy; a strategy is a function from the view to a plan.\<close>

definition no_compaction_plan :: "compaction_view \<Rightarrow> compaction_plan" where
  "no_compaction_plan view = plan_noop"

record compact_report =
  epoch_before :: u64
  epoch_after :: u64
  removed :: nat
  bytes_before :: nat
  bytes_after :: nat
  committed :: bool

record prepared_compaction =
  candidate :: "conversation option"
  report :: compact_report

section \<open>Preparing a candidate\<close>

text \<open>The size proxy: the bytes of a message that ride the wire.\<close>

definition message_size :: "message \<Rightarrow> nat" where
  "message_size m =
     length (m_text m) + option_len (m_reasoning m)
     + sum_list (map (\<lambda>c. length (tc_id c) + length (tc_name c) + length (tc_arguments c)) (tool_calls m))
     + option_len (tool_call_id m)"

definition total_size :: "message list \<Rightarrow> nat" where
  "total_size msgs = sum_list (map message_size msgs)"

definition clamp_drain :: "compaction_plan \<Rightarrow> nat \<Rightarrow> nat \<Rightarrow> nat \<times> nat" where
  "clamp_drain plan flr len =
     (let from' = min (max (drain_from plan) flr) len;
          to' = min (drain_to plan) len
      in if to' \<le> from' then (from', from') else (from', to'))"

definition summary_messages :: "compaction_plan \<Rightarrow> message list" where
  "summary_messages plan = (case summary plan of Some s \<Rightarrow> [synthetic_user s] | None \<Rightarrow> [])"

definition drained_candidate :: "compaction_plan \<Rightarrow> message list \<Rightarrow> nat \<Rightarrow> nat \<Rightarrow> message list" where
  "drained_candidate plan msgs from' to' =
     take from' msgs @ summary_messages plan
     @ filter is_retained (drop from' (take to' msgs)) @ drop to' msgs"

text \<open>
  One rewrite. Its index is an index of the original messages and is translated past the drained
  range, the inserted summary and the retained messages.
\<close>

definition apply_rewrite ::
  "message list \<Rightarrow> nat \<Rightarrow> nat \<Rightarrow> nat \<Rightarrow> nat \<Rightarrow> nat \<Rightarrow> message list \<Rightarrow> nat \<times> string \<Rightarrow> message list" where
  "apply_rewrite msgs flr from' to' summary_shift retained_count cand rw =
     (let orig_i = fst rw in
      if orig_i < flr \<or> (orig_i < length msgs \<and> is_retained (msgs ! orig_i)) then cand
      else if from' \<le> orig_i \<and> orig_i < to' then cand
      else (let cand_i = (if orig_i < from' then orig_i
                          else from' + summary_shift + retained_count + (orig_i - to'))
            in if cand_i < length cand then cand[cand_i := (cand ! cand_i)\<lparr>m_text := snd rw\<rparr>] else cand))"

definition resume_messages :: "compaction_plan \<Rightarrow> message list" where
  "resume_messages plan = (case resume_note plan of Some n \<Rightarrow> [synthetic_user n] | None \<Rightarrow> [])"

definition build_candidate :: "compaction_plan \<Rightarrow> message list \<Rightarrow> nat \<Rightarrow> message list" where
  "build_candidate plan msgs sacred =
     (let len_before = length msgs;
          flr = min sacred len_before;
          (from', to') = clamp_drain plan flr len_before;
          cand = drained_candidate plan msgs from' to';
          shift = length (summary_messages plan);
          retained_count = length (filter is_retained (drop from' (take to' msgs)));
          cand' = foldl (apply_rewrite msgs flr from' to' shift retained_count) cand (plan_rewrites plan)
      in repair_pairing (cand' @ resume_messages plan))"

text \<open>Pressure relief: the surviving last assistant's recorded pressure is scaled by the shrink ratio.\<close>

definition scale_meta :: "nat \<Rightarrow> nat \<Rightarrow> message_meta \<Rightarrow> message_meta" where
  "scale_meta before after meta =
     (let ratio = to_f64 (to_f64 (of_nat after) / to_f64 (of_nat before)) in
      meta\<lparr>utilization := to_f32 (to_f64 (utilization meta * ratio)),
           used_tokens := as_u32 (f64_round (to_f64 (of_nat (unat (used_tokens meta)) * ratio)))\<rparr>)"

fun relieve_first_assistant :: "nat \<Rightarrow> nat \<Rightarrow> message list \<Rightarrow> message list" where
  "relieve_first_assistant before after [] = []"
| "relieve_first_assistant before after (m # ms) =
     (if m_role m = Assistant then m\<lparr>m_meta := map_option (scale_meta before after) (m_meta m)\<rparr> # ms
      else m # relieve_first_assistant before after ms)"

definition relieve_pressure :: "nat \<Rightarrow> nat \<Rightarrow> message list \<Rightarrow> message list" where
  "relieve_pressure before after msgs =
     (if before > 0 then rev (relieve_first_assistant before after (rev msgs)) else msgs)"

definition prepare_plan :: "conversation \<Rightarrow> compaction_plan \<Rightarrow> nat \<Rightarrow> prepared_compaction" where
  "prepare_plan c plan sacred =
     (let before = total_size (c_messages c);
          cand = build_candidate plan (c_messages c) sacred;
          after = total_size cand;
          commit = (after < before);
          e = cache_epoch c
      in if commit then
           \<lparr>candidate = Some \<lparr>c_messages = relieve_pressure before after cand, cache_epoch = e + 1\<rparr>,
            report = \<lparr>epoch_before = e, epoch_after = e + 1,
                      removed = length (c_messages c) - length cand,
                      bytes_before = before, bytes_after = after, committed = True\<rparr>\<rparr>
         else
           \<lparr>candidate = None,
            report = \<lparr>epoch_before = e, epoch_after = e, removed = 0,
                      bytes_before = before, bytes_after = after, committed = False\<rparr>\<rparr>)"

definition commit_prepared :: "conversation \<Rightarrow> prepared_compaction \<Rightarrow> conversation \<times> compact_report" where
  "commit_prepared c p = (case candidate p of Some c' \<Rightarrow> c' | None \<Rightarrow> c, report p)"

definition apply_plan :: "conversation \<Rightarrow> compaction_plan \<Rightarrow> nat \<Rightarrow> conversation \<times> compact_report" where
  "apply_plan c plan sacred = commit_prepared c (prepare_plan c plan sacred)"

section \<open>Snapshots\<close>

definition SNAPSHOT_VERSION :: u32 where
  "SNAPSHOT_VERSION = 1"

record session_snapshot =
  version :: u32
  s_messages :: "message list"
  s_cache_epoch :: u64
  turn_counter :: u64
  request_counter :: u64

definition derive_counters :: "message list \<Rightarrow> u64 \<times> u64" where
  "derive_counters msgs =
     foldl (\<lambda>(t, r) meta. (max t (turn_id meta), max r (request_id meta))) (0, 0)
       (List.map_filter m_meta msgs)"

definition snapshot_new :: "message list \<Rightarrow> session_snapshot" where
  "snapshot_new msgs =
     \<lparr>version = SNAPSHOT_VERSION, s_messages = msgs, s_cache_epoch = 0,
      turn_counter = fst (derive_counters msgs), request_counter = snd (derive_counters msgs)\<rparr>"

definition from_conversation :: "conversation \<Rightarrow> session_snapshot" where
  "from_conversation c =
     \<lparr>version = SNAPSHOT_VERSION, s_messages = c_messages c, s_cache_epoch = cache_epoch c,
      turn_counter = fst (derive_counters (c_messages c)),
      request_counter = snd (derive_counters (c_messages c))\<rparr>"

section \<open>What the rewrites come to\<close>

text \<open>
  A rewrite reaches the message it was aimed at: in the candidate, every surviving message carries
  the text of the last rewrite for its original index, and the protected prefix and the retained
  messages keep their own.
\<close>

definition rewritten :: "nat \<Rightarrow> (nat \<times> string) list \<Rightarrow> nat \<Rightarrow> message \<Rightarrow> message" where
  "rewritten flr rs i m =
     (if i < flr \<or> is_retained m then m
      else (case map_of (rev rs) i of Some t \<Rightarrow> m\<lparr>m_text := t\<rparr> | None \<Rightarrow> m))"

definition survivors :: "nat \<Rightarrow> (nat \<times> string) list \<Rightarrow> message list \<Rightarrow> nat \<Rightarrow> nat \<Rightarrow> message list" where
  "survivors flr rs msgs a b = map (\<lambda>i. rewritten flr rs i (msgs ! i)) [a..<b]"

lemma rewritten_Nil [simp]: "rewritten flr [] i m = m"
  by (simp add: rewritten_def)

lemma rewritten_fields [simp]:
  "m_role (rewritten flr rs i m) = m_role m" "is_retained (rewritten flr rs i m) = is_retained m"
  "tool_calls (rewritten flr rs i m) = tool_calls m" "m_meta (rewritten flr rs i m) = m_meta m"
  "tool_call_id (rewritten flr rs i m) = tool_call_id m"
  by (auto simp: rewritten_def is_retained_def split: option.splits)

lemma rewritten_retained [simp]: "is_retained m \<Longrightarrow> rewritten flr rs i m = m"
  by (simp add: rewritten_def)

lemma rewritten_below [simp]: "i < flr \<Longrightarrow> rewritten flr rs i m = m"
  by (simp add: rewritten_def)

lemma rewritten_snoc:
  "rewritten flr (rs @ [(j, t)]) i m =
     (if i = j \<and> \<not> i < flr \<and> \<not> is_retained m then (rewritten flr rs i m)\<lparr>m_text := t\<rparr>
      else rewritten flr rs i m)"
  by (auto simp: rewritten_def split: option.splits)

lemma survivors_Nil: "b \<le> length msgs \<Longrightarrow> survivors flr [] msgs a b = drop a (take b msgs)"
  by (auto simp: survivors_def intro: nth_equalityI)

lemma length_survivors [simp]: "length (survivors flr rs msgs a b) = b - a"
  by (simp add: survivors_def)

lemma survivors_other:
  "(\<And>i. a \<le> i \<Longrightarrow> i < b \<Longrightarrow> i = j \<Longrightarrow> i < flr \<or> is_retained (msgs ! i)) \<Longrightarrow>
   survivors flr (rs @ [(j, t)]) msgs a b = survivors flr rs msgs a b"
  by (auto simp: survivors_def rewritten_snoc)

lemma survivors_hit:
  assumes "a \<le> j" "j < b" "\<not> j < flr" "\<not> is_retained (msgs ! j)"
  shows "survivors flr (rs @ [(j, t)]) msgs a b =
    (survivors flr rs msgs a b)[j - a := (survivors flr rs msgs a b ! (j - a))\<lparr>m_text := t\<rparr>]"
  using assms by (intro nth_equalityI) (auto simp: survivors_def rewritten_snoc nth_list_update)

lemma update_last_block:
  "(A @ S @ R @ B)[length A + length S + length R + d := f ((A @ S @ R @ B) ! (length A + length S + length R + d))]
   = A @ S @ R @ B[d := f (B ! d)]"
  by (simp add: list_update_append nth_append add.assoc)

lemma apply_rewrite_tail:
  assumes "to' \<le> j" "\<not> j < from'" "\<not> j < flr" "j < length msgs" "\<not> is_retained (msgs ! j)"
    and "length A = from'" "length B = length msgs - to'"
  shows "apply_rewrite msgs flr from' to' (length S) (length R) (A @ S @ R @ B) (j, t)
    = A @ S @ R @ B[j - to' := (B ! (j - to'))\<lparr>m_text := t\<rparr>]"
proof -
  obtain d where d: "j = to' + d" using assms(1) le_Suc_ex by blast
  have "from' + length S + length R + d < length (A @ S @ R @ B)"
    using assms d by simp
  then show ?thesis
    using assms(2-6) update_last_block [of A S R B d "\<lambda>m. m\<lparr>m_text := t\<rparr>"]
    by (auto simp: apply_rewrite_def d)
qed

lemma foldl_apply_rewrite:
  assumes "from' \<le> to'" "to' \<le> length msgs"
    and "S = summary_messages plan" "R = filter is_retained (drop from' (take to' msgs))"
  shows "foldl (apply_rewrite msgs flr from' to' (length S) (length R)) (drained_candidate plan msgs from' to') rs
    = survivors flr rs msgs 0 from' @ S @ R @ survivors flr rs msgs to' (length msgs)"
proof (induction rs rule: rev_induct)
  case Nil
  then show ?case
    using assms by (simp add: drained_candidate_def survivors_Nil)
next
  case (snoc rw rs)
  obtain j t where rw: "rw = (j, t)" by (cases rw)
  let ?A = "survivors flr rs msgs 0 from'" and ?B = "survivors flr rs msgs to' (length msgs)"
  let ?skip = "j < flr \<or> (j < length msgs \<and> is_retained (msgs ! j))"
  consider (skip) "?skip" | (drained) "\<not> ?skip" "from' \<le> j" "j < to'"
    | (head) "\<not> ?skip" "j < from'" | (tail) "\<not> ?skip" "to' \<le> j" "\<not> j < from'"
    by linarith
  then show ?case
  proof cases
    case skip
    then have "survivors flr (rs @ [rw]) msgs 0 from' = ?A"
      "survivors flr (rs @ [rw]) msgs to' (length msgs) = ?B"
      using assms(1,2) unfolding rw by (auto intro!: survivors_other)
    with skip snoc show ?thesis by (auto simp: rw apply_rewrite_def)
  next
    case drained
    then have "survivors flr (rs @ [rw]) msgs 0 from' = ?A"
      "survivors flr (rs @ [rw]) msgs to' (length msgs) = ?B"
      unfolding rw by (auto intro!: survivors_other)
    with drained snoc show ?thesis by (auto simp: rw apply_rewrite_def)
  next
    case head
    then have "survivors flr (rs @ [rw]) msgs 0 from' = ?A[j := (?A ! j)\<lparr>m_text := t\<rparr>]"
      using assms(1,2) survivors_hit [of 0 j from' flr msgs rs t] unfolding rw by auto
    moreover have "survivors flr (rs @ [rw]) msgs to' (length msgs) = ?B"
      using head assms(1) unfolding rw by (auto intro!: survivors_other)
    ultimately show ?thesis
      using head snoc by (auto simp: rw apply_rewrite_def list_update_append nth_append)
  next
    case tail
    have A: "survivors flr (rs @ [rw]) msgs 0 from' = ?A"
      using tail unfolding rw by (auto intro!: survivors_other)
    show ?thesis
    proof (cases "j < length msgs")
      case True
      then have "survivors flr (rs @ [rw]) msgs to' (length msgs) = ?B[j - to' := (?B ! (j - to'))\<lparr>m_text := t\<rparr>]"
        using tail unfolding rw by (intro survivors_hit) auto
      with A tail True snoc apply_rewrite_tail [of to' j from' flr msgs ?A ?B S R t] show ?thesis
        by (simp add: rw)
    next
      case False
      then have "survivors flr (rs @ [rw]) msgs to' (length msgs) = ?B"
        unfolding rw by (auto intro!: survivors_other)
      with A tail False snoc assms(1,2) show ?thesis
        by (auto simp: rw apply_rewrite_def Let_def)
    qed
  qed
qed

lemma clamp_drain_bounds:
  "clamp_drain plan flr len = (from', to') \<Longrightarrow> flr \<le> len \<Longrightarrow> flr \<le> from' \<and> from' \<le> to' \<and> to' \<le> len"
  by (auto simp: clamp_drain_def Let_def split: if_splits)

lemma build_candidate_eq:
  assumes "clamp_drain plan (min sacred (length msgs)) (length msgs) = (from', to')"
  shows "build_candidate plan msgs sacred =
    repair_pairing
      (survivors (min sacred (length msgs)) (plan_rewrites plan) msgs 0 from' @ summary_messages plan
       @ filter is_retained (drop from' (take to' msgs))
       @ survivors (min sacred (length msgs)) (plan_rewrites plan) msgs to' (length msgs)
       @ resume_messages plan)"
  using clamp_drain_bounds [OF assms] foldl_apply_rewrite [OF _ _ refl refl, of from' to' msgs "min sacred (length msgs)" plan]
  by (simp add: build_candidate_def assms Let_def)

section \<open>What no plan can break\<close>

subsection \<open>Relief touches one recorded pressure only\<close>

abbreviation bare :: "message \<Rightarrow> message" where
  "bare m \<equiv> m\<lparr>m_meta := None\<rparr>"

lemma relieve_first_bare: "map bare (relieve_first_assistant b a ms) = map bare ms"
  by (induction ms) auto

lemma relieve_pressure_bare: "map bare (relieve_pressure b a ms) = map bare ms"
  by (simp add: relieve_pressure_def rev_map [symmetric] relieve_first_bare)

lemma message_size_bare: "message_size (bare m) = message_size m"
  by (simp add: message_size_def)

lemma total_size_bare: "map bare xs = map bare ys \<Longrightarrow> total_size xs = total_size ys"
  unfolding total_size_def by (metis (no_types, lifting) list.map_cong map_map o_def message_size_bare)

lemma total_size_relieve [simp]: "total_size (relieve_pressure b a ms) = total_size ms"
  by (rule total_size_bare [OF relieve_pressure_bare])

lemma takeWhile_tool_bare: "takeWhile is_tool (map bare ms) = map bare (takeWhile is_tool ms)"
  by (induction ms) auto

lemma dropWhile_tool_bare: "dropWhile is_tool (map bare ms) = map bare (dropWhile is_tool ms)"
  by (induction ms) auto

lemma answers_bare: "answers (map bare run) (bare m) = answers run m"
  by (simp add: answers_def comp_def)

lemma well_paired_bare: "well_paired (map bare ms) = well_paired ms"
proof (induction ms rule: well_paired.induct)
  case (2 m ms)
  then show ?case
    by (cases "opens_batch m")
      (auto simp: pairing_simps takeWhile_tool_bare dropWhile_tool_bare answers_bare)
qed simp

lemma well_paired_relieve: "well_paired (relieve_pressure b a ms) = well_paired ms"
  by (metis relieve_pressure_bare well_paired_bare)

lemma length_relieve [simp]: "length (relieve_pressure b a ms) = length ms"
  using arg_cong [OF relieve_pressure_bare, of length b a ms] by simp

lemma relieve_pressure_other:
  "(\<And>m. P m \<Longrightarrow> m_role m \<noteq> Assistant) \<Longrightarrow> filter P (relieve_pressure b a ms) = filter P ms"
proof -
  assume *: "\<And>m. P m \<Longrightarrow> m_role m \<noteq> Assistant"
  have "filter P (relieve_first_assistant b a xs) = filter P xs" for xs
    by (induction xs) (auto dest: *)
  then show ?thesis by (simp add: relieve_pressure_def rev_filter [symmetric])
qed

subsection \<open>Refused or committed\<close>

lemma apply_plan_refused:
  "\<not> committed (snd (apply_plan c plan sacred)) \<Longrightarrow> fst (apply_plan c plan sacred) = c"
  by (auto simp: apply_plan_def commit_prepared_def prepare_plan_def Let_def split: if_splits)

lemma apply_plan_committed:
  "committed (snd (apply_plan c plan sacred)) \<Longrightarrow>
   fst (apply_plan c plan sacred) =
     \<lparr>c_messages = relieve_pressure (total_size (c_messages c))
        (total_size (build_candidate plan (c_messages c) sacred)) (build_candidate plan (c_messages c) sacred),
      cache_epoch = cache_epoch c + 1\<rparr>
   \<and> total_size (build_candidate plan (c_messages c) sacred) < total_size (c_messages c)"
  by (auto simp: apply_plan_def commit_prepared_def prepare_plan_def Let_def split: if_splits)

lemma apply_plan_report:
  "bytes_before (snd (apply_plan c plan sacred)) = total_size (c_messages c)"
  "bytes_after (snd (apply_plan c plan sacred)) = total_size (build_candidate plan (c_messages c) sacred)"
  "epoch_before (snd (apply_plan c plan sacred)) = cache_epoch c"
  "epoch_after (snd (apply_plan c plan sacred)) = cache_epoch (fst (apply_plan c plan sacred))"
  "committed (snd (apply_plan c plan sacred)) \<longleftrightarrow>
     total_size (build_candidate plan (c_messages c) sacred) < total_size (c_messages c)"
  by (auto simp: apply_plan_def commit_prepared_def prepare_plan_def Let_def)

lemma apply_plan_well_paired:
  "well_paired (c_messages c) \<or> committed (snd (apply_plan c plan sacred)) \<Longrightarrow>
   well_paired (c_messages (fst (apply_plan c plan sacred)))"
  by (cases "committed (snd (apply_plan c plan sacred))")
    (auto simp: apply_plan_committed apply_plan_refused well_paired_relieve build_candidate_def Let_def
       well_paired_repair_pairing split: prod.splits)

subsection \<open>The protected prefix and the pinned messages\<close>

lemma survivors_split: "a \<le> k \<Longrightarrow> k \<le> b \<Longrightarrow>
   survivors flr rs msgs a b = survivors flr rs msgs a k @ survivors flr rs msgs k b"
  unfolding survivors_def by (metis le_add_diff_inverse map_append upt_add_eq_append)

lemma survivors_prefix: "k \<le> flr \<Longrightarrow> k \<le> length msgs \<Longrightarrow> survivors flr rs msgs 0 k = take k msgs"
  by (auto simp: survivors_def intro: nth_equalityI)

lemma build_candidate_prefix:
  assumes "flr = min sacred (length msgs)" "closed_prefix (take flr msgs)" "well_paired (take flr msgs)"
  shows "\<exists>tail. build_candidate plan msgs sacred = take flr msgs @ tail"
proof -
  obtain from' to' where cl: "clamp_drain plan flr (length msgs) = (from', to')" by fastforce
  then have b: "flr \<le> from'" "from' \<le> to'" "to' \<le> length msgs"
    using clamp_drain_bounds [OF cl] assms(1) by auto
  have "survivors flr (plan_rewrites plan) msgs 0 from'
      = take flr msgs @ survivors flr (plan_rewrites plan) msgs flr from'"
    using b assms(1) by (simp add: survivors_split [of 0 flr from'] survivors_prefix)
  then show ?thesis
    using build_candidate_eq [of plan sacred msgs from' to'] cl assms
    by (auto simp: repair_closed_prefix repair_pairing_well_paired)
qed

lemma apply_plan_prefix:
  assumes "flr = min sacred (length (c_messages c))"
    and "closed_prefix (take flr (c_messages c))" "well_paired (take flr (c_messages c))"
  shows "map bare (take flr (c_messages (fst (apply_plan c plan sacred))))
       = map bare (take flr (c_messages c))"
proof (cases "committed (snd (apply_plan c plan sacred))")
  case True
  obtain tail where t: "build_candidate plan (c_messages c) sacred = take flr (c_messages c) @ tail"
    using build_candidate_prefix assms by blast
  have "map bare (take flr (relieve_pressure b a (take flr (c_messages c) @ tail)))
      = map bare (take flr (c_messages c))" for b a
    using arg_cong [OF relieve_pressure_bare [of b a "take flr (c_messages c) @ tail"], of "take flr"] assms(1)
    by (simp add: take_map)
  with True t show ?thesis by (simp add: apply_plan_committed)
qed (simp add: apply_plan_refused)

definition pinned :: "message list \<Rightarrow> message list" where
  "pinned msgs = filter (\<lambda>m. is_retained m \<and> m_role m = User) msgs"

lemma pinned_append [simp]: "pinned (xs @ ys) = pinned xs @ pinned ys"
  by (simp add: pinned_def)

lemma pinned_not_tool: "pinned ms = pinned (filter (\<lambda>m. \<not> is_tool m) ms)"
  by (auto simp: pinned_def intro: filter_cong)

lemma pinned_repair [simp]: "pinned (repair_pairing ms) = pinned ms"
  by (subst (1 2) pinned_not_tool) (simp add: repair_pairing_keeps)

lemma pinned_survivors:
  "b \<le> length msgs \<Longrightarrow> pinned (survivors flr rs msgs a b) = pinned (drop a (take b msgs))"
proof -
  assume "b \<le> length msgs"
  then have "pinned (survivors flr rs msgs a b) = pinned (survivors flr [] msgs a b)"
    unfolding survivors_def pinned_def filter_map
    by (auto simp: comp_def)
  with \<open>b \<le> length msgs\<close> show ?thesis by (simp add: survivors_Nil)
qed

lemma pinned_filter [simp]: "pinned (filter is_retained ms) = pinned ms"
  by (auto simp: pinned_def intro: filter_cong)

lemma pinned_synthetic [simp]: "pinned (summary_messages plan) = []" "pinned (resume_messages plan) = []"
  by (auto simp: pinned_def summary_messages_def resume_messages_def is_retained_def synthetic_user_def
      split: option.splits)

lemma pinned_build_candidate: "pinned (build_candidate plan msgs sacred) = pinned msgs"
proof -
  obtain from' to' where cl: "clamp_drain plan (min sacred (length msgs)) (length msgs) = (from', to')"
    by fastforce
  then have b: "from' \<le> to'" "to' \<le> length msgs" using clamp_drain_bounds [OF cl] by auto
  have "pinned msgs = pinned (take from' (take to' msgs) @ drop from' (take to' msgs) @ drop to' msgs)"
    by (simp only: append_take_drop_id append_assoc [symmetric])
  with b show ?thesis
    by (simp add: build_candidate_eq [OF cl] pinned_survivors min_absorb1)
qed

lemma pinned_apply_plan: "pinned (c_messages (fst (apply_plan c plan sacred))) = pinned (c_messages c)"
proof (cases "committed (snd (apply_plan c plan sacred))")
  case True
  have "pinned (relieve_pressure b a ms) = pinned ms" for b a ms
    unfolding pinned_def by (rule relieve_pressure_other) simp
  with True show ?thesis by (simp add: apply_plan_committed pinned_build_candidate)
qed (simp add: apply_plan_refused)

definition apply_plans :: "(compaction_plan \<times> nat) list \<Rightarrow> conversation \<Rightarrow> conversation" where
  "apply_plans ps c = fold (\<lambda>(plan, sacred) c. fst (apply_plan c plan sacred)) ps c"

lemma pinned_apply_plans: "pinned (c_messages (apply_plans ps c)) = pinned (c_messages c)"
  by (induction ps arbitrary: c) (auto simp: apply_plans_def pinned_apply_plan)

lemma apply_plans_size: "total_size (c_messages (apply_plans ps c)) \<le> total_size (c_messages c)"
proof (induction ps arbitrary: c)
  case (Cons p ps)
  obtain plan sacred where p: "p = (plan, sacred)" by fastforce
  have "total_size (c_messages (fst (apply_plan c plan sacred))) \<le> total_size (c_messages c)"
    using apply_plan_committed [of c plan sacred] apply_plan_refused [of c plan sacred]
    by (cases "committed (snd (apply_plan c plan sacred))") auto
  with Cons [of "fst (apply_plan c plan sacred)"] show ?case by (simp add: apply_plans_def p)
qed (simp add: apply_plans_def)

subsection \<open>The recorded pressure never rises\<close>

lemma f64_round_le: "0 \<le> x \<Longrightarrow> x \<le> of_nat n \<Longrightarrow> 0 \<le> f64_round x \<and> f64_round x \<le> int n"
proof -
  assume "0 \<le> x" "x \<le> of_nat n"
  then have "x + 1/2 < of_int (int n + 1)" "0 \<le> \<lfloor>x + 1/2\<rfloor>" by auto
  then have "\<lfloor>x + 1/2\<rfloor> < int n + 1" by (simp only: floor_less_iff)
  with \<open>0 \<le> \<lfloor>x + 1/2\<rfloor>\<close> show ?thesis using \<open>0 \<le> x\<close> by (simp add: f64_round_def)
qed

lemma as_u32_le: "0 \<le> n \<Longrightarrow> n \<le> int (unat w) \<Longrightarrow> as_u32 n \<le> w"
proof -
  assume n: "0 \<le> n" "n \<le> int (unat w)"
  have "int (unat w) < 2 ^ 32" using uint_lt2p [of w] by simp
  with n have "n < 2 ^ 32" by linarith
  with n have "as_u32 n = word_of_int n" by (simp add: as_u32_def)
  moreover have "uint (word_of_int n :: 32 word) = n"
    using n(1) \<open>n < 2 ^ 32\<close> by (simp add: uint_word_of_int_eq take_bit_int_eq_self)
  ultimately show ?thesis using n(2) unfolding word_le_def by simp
qed

lemma scale_meta_used_le:
  assumes "a \<le> b" "0 < b"
  shows "used_tokens (scale_meta b a meta) \<le> used_tokens meta"
proof -
  define u where "u = unat (used_tokens meta)"
  let ?r = "to_f64 (to_f64 (of_nat a) / to_f64 (of_nat b))"
  have "u < 2 ^ 32" using unsigned_less [of "used_tokens meta"] by (simp add: u_def)
  then have "representable 53 (of_nat u)" by (intro representable_of_nat) simp
  then have "0 \<le> to_f64 (of_nat u * ?r) \<and> to_f64 (of_nat u * ?r) \<le> of_nat u"
    using ratio_le_one [OF assms] by (intro scale_le) auto
  then show ?thesis
    using f64_round_le [of "to_f64 (of_nat u * ?r)" u] by (simp add: scale_meta_def Let_def as_u32_le u_def)
qed

lemma representable_mono: "representable p x \<Longrightarrow> p \<le> q \<Longrightarrow> representable q x"
  unfolding representable_def
  by (metis less_le_trans numeral_le_one_iff power_increasing semiring_norm(69) linear)

lemma scale_meta_utilization_le:
  assumes "a \<le> b" "0 < b" "0 \<le> utilization meta" "representable 24 (utilization meta)"
  shows "utilization (scale_meta b a meta) \<le> utilization meta"
proof -
  let ?r = "to_f64 (to_f64 (of_nat a) / to_f64 (of_nat b))"
  have "0 \<le> to_f64 (utilization meta * ?r) \<and> to_f64 (utilization meta * ?r) \<le> utilization meta"
    using ratio_le_one [OF assms(1,2)] assms(3,4) representable_mono [of 24 _ 53] by (intro scale_le) auto
  then have "to_f32 (to_f64 (utilization meta * ?r)) \<le> to_f32 (utilization meta)"
    by (intro fround_mono) auto
  then show ?thesis
    using assms fround_representable by (simp add: scale_meta_def Let_def)
qed

lemma find_assistant_relieve_first:
  "find (\<lambda>m. m_role m = Assistant) (relieve_first_assistant b a ms) =
   map_option (\<lambda>m. m\<lparr>m_meta := map_option (scale_meta b a) (m_meta m)\<rparr>)
     (find (\<lambda>m. m_role m = Assistant) ms)"
  by (induction ms) auto

lemma last_pressure_relieve:
  "0 < b \<Longrightarrow> last_pressure (relieve_pressure b a ms) =
     (case Option.bind (find (\<lambda>m. m_role m = Assistant) (rev ms)) m_meta of
        Some meta \<Rightarrow> (ctx_window meta, used_tokens (scale_meta b a meta), utilization (scale_meta b a meta))
      | None \<Rightarrow> (0, 0, 0))"
  by (auto simp: last_pressure_def relieve_pressure_def find_assistant_relieve_first scale_meta_def Let_def
      split: option.splits bind_splits)

lemma last_pressure_relieve_le:
  assumes "a \<le> b" "0 < b"
  shows "fst (last_pressure (relieve_pressure b a ms)) = fst (last_pressure ms)"
    and "fst (snd (last_pressure (relieve_pressure b a ms))) \<le> fst (snd (last_pressure ms))"
  using scale_meta_used_le [OF assms] assms(2)
  by (auto simp: last_pressure_relieve last_pressure_def [of ms] split: option.splits)

subsection \<open>The counters cover every message\<close>

lemma derive_counters_le_iff:
  "fst (derive_counters msgs) \<le> t \<and> snd (derive_counters msgs) \<le> r \<longleftrightarrow>
   (\<forall>m\<in>set msgs. \<forall>meta. m_meta m = Some meta \<longrightarrow> turn_id meta \<le> t \<and> request_id meta \<le> r)"
proof -
  have "(case foldl (\<lambda>(t, r) meta. (max t (turn_id meta), max r (request_id meta))) (t0, r0) ms of
      (t', r') \<Rightarrow> t' \<le> t \<and> r' \<le> r) \<longleftrightarrow>
      t0 \<le> t \<and> r0 \<le> r \<and> (\<forall>meta\<in>set ms. turn_id meta \<le> t \<and> request_id meta \<le> r)" for ms t0 r0
    by (induction ms arbitrary: t0 r0) auto
  from this [of 0 0 "List.map_filter m_meta msgs"] show ?thesis
    by (auto simp: derive_counters_def case_prod_beta map_filter_def)
qed

end
