(* ===== verification/Recovery_Budget.thy ===== *)
theory Recovery_Budget
  imports Prelude
begin

text \<open>
  The retry allowance of one request (\<open>crates/atomcode-kernel/src/provider/recovery_budget.rs\<close>):
  a mutex around four counters, shared by the retry layers of a request. Each method takes the
  lock for its whole body, so the object is a step system whose steps are the two methods, and a
  run is any interleaving of their calls. A \<open>Duration\<close> is its number of nanoseconds; the one
  addition on it stays at or below \<open>max_wait\<close>, so it cannot overflow.
\<close>

record recovery_snapshot =
  attempts :: u32
  max_attempts :: u32
  reserved_wait :: nat
  max_wait :: nat

datatype recovery_limit = Attempts | Waiting

record recovery_exhausted =
  re_limit :: recovery_limit
  re_snapshot :: recovery_snapshot

type_synonym recovery_result = "recovery_exhausted + recovery_snapshot"

definition budget_new :: "u32 \<Rightarrow> nat \<Rightarrow> recovery_snapshot" where
  "budget_new max_a max_w =
     \<lparr>attempts = 0, max_attempts = max max_a 1, reserved_wait = 0, max_wait = max_w\<rparr>"

definition try_attempt :: "recovery_snapshot \<Rightarrow> recovery_result \<times> recovery_snapshot" where
  "try_attempt st =
     (if max_attempts st \<le> attempts st then (Inl \<lparr>re_limit = Attempts, re_snapshot = st\<rparr>, st)
      else (let st' = st\<lparr>attempts := attempts st + 1\<rparr> in (Inr st', st')))"

definition reserve_wait :: "recovery_snapshot \<Rightarrow> nat \<Rightarrow> recovery_result \<times> recovery_snapshot" where
  "reserve_wait st wait =
     (let limit = (if max_attempts st \<le> attempts st then Some Attempts
                   else if max_wait st - reserved_wait st < wait then Some Waiting
                   else None)
      in case limit of
           Some l \<Rightarrow> (Inl \<lparr>re_limit = l, re_snapshot = st\<rparr>, st)
         | None \<Rightarrow> (let st' = st\<lparr>reserved_wait := reserved_wait st + wait\<rparr> in (Inr st', st')))"

section \<open>Any interleaving of callers\<close>

datatype budget_call = Try_Attempt | Reserve_Wait nat

definition budget_step :: "budget_call \<Rightarrow> recovery_snapshot \<Rightarrow> recovery_result \<times> recovery_snapshot" where
  "budget_step c st = (case c of Try_Attempt \<Rightarrow> try_attempt st | Reserve_Wait w \<Rightarrow> reserve_wait st w)"

fun budget_run :: "recovery_snapshot \<Rightarrow> budget_call list \<Rightarrow> (budget_call \<times> recovery_result) list \<times> recovery_snapshot" where
  "budget_run st [] = ([], st)"
| "budget_run st (c # cs) =
     (let (r, st') = budget_step c st; (rs, st'') = budget_run st' cs in ((c, r) # rs, st''))"

definition granted_attempts :: "(budget_call \<times> recovery_result) list \<Rightarrow> nat" where
  "granted_attempts log = length (filter (\<lambda>(c, r). c = Try_Attempt \<and> \<not> isl r) log)"

fun wait_of :: "budget_call \<Rightarrow> nat" where
  "wait_of Try_Attempt = 0"
| "wait_of (Reserve_Wait w) = w"

definition granted_wait :: "(budget_call \<times> recovery_result) list \<Rightarrow> nat" where
  "granted_wait log = sum_list (map (\<lambda>(c, r). if \<not> isl r then wait_of c else 0) log)"

inductive budget_transition :: "recovery_snapshot \<Rightarrow> recovery_snapshot \<Rightarrow> bool" where
  attempt: "try_attempt st = (r, st') \<Longrightarrow> budget_transition st st'"
| wait: "reserve_wait st w = (r, st') \<Longrightarrow> budget_transition st st'"

inductive_cases budget_transitionE: "budget_transition st st'"

definition budget_start :: "recovery_snapshot \<Rightarrow> bool" where
  "budget_start st \<longleftrightarrow> (\<exists>a w. st = budget_new a w)"

definition budget_inv :: "recovery_snapshot \<Rightarrow> bool" where
  "budget_inv st \<longleftrightarrow> 1 \<le> max_attempts st \<and> attempts st \<le> max_attempts st \<and> reserved_wait st \<le> max_wait st"

lemma word_one_le: "(w :: u32) \<le> v \<Longrightarrow> w \<noteq> v \<Longrightarrow> w + 1 \<le> v"
  by (simp add: inc_le)

lemma max_one_ge: "1 \<le> max (w :: u32) 1"
  by simp

lemma try_attempt_inv: "try_attempt st = (r, st') \<Longrightarrow> budget_inv st \<Longrightarrow> budget_inv st'"
  by (auto simp: try_attempt_def budget_inv_def Let_def word_one_le not_le inc_le split: if_splits)

lemma reserve_wait_inv: "reserve_wait st w = (r, st') \<Longrightarrow> budget_inv st \<Longrightarrow> budget_inv st'"
  by (auto simp: reserve_wait_def budget_inv_def Let_def split: if_splits)

interpretation budget: step_system budget_start budget_transition budget_inv
proof unfold_locales
  fix s t
  show "budget_start s \<Longrightarrow> budget_inv s"
    by (auto simp: budget_start_def budget_new_def budget_inv_def)
  show "budget_transition s t \<Longrightarrow> budget_inv s \<Longrightarrow> budget_inv t"
    by (auto elim!: budget_transitionE dest: try_attempt_inv reserve_wait_inv)
qed

lemma budget_step_transition: "budget_step c st = (r, st') \<Longrightarrow> budget_transition st st'"
  by (auto simp: budget_step_def split: budget_call.splits intro: budget_transition.intros)

lemma budget_run_reach:
  "budget_run st cs = (log, st') \<Longrightarrow> budget.reach st \<Longrightarrow> budget.reach st'"
proof (induction cs arbitrary: st log)
  case (Cons c cs)
  obtain r st1 where "budget_step c st = (r, st1)" by fastforce
  moreover from this have "budget.reach st1"
    using Cons.prems(2) budget_step_transition budget.reach_step by blast
  ultimately show ?case using Cons by (auto split: prod.splits)
qed simp

lemma budget_new_reach: "budget.reach (budget_new a w)"
  by (rule budget.reach_start) (auto simp: budget_start_def)

lemma budget_step_refused: "budget_step c st = (Inl e, st') \<Longrightarrow> st' = st \<and> re_snapshot e = st"
  by (auto simp: budget_step_def try_attempt_def reserve_wait_def Let_def
      split: budget_call.splits if_splits option.splits)

text \<open>The counters are the account of what was granted.\<close>

lemma budget_step_account:
  assumes "budget_step c st = (r, st')" "budget_inv st"
  shows "unat (attempts st') = unat (attempts st) + granted_attempts [(c, r)]
    \<and> reserved_wait st' = reserved_wait st + granted_wait [(c, r)]
    \<and> max_attempts st' = max_attempts st \<and> max_wait st' = max_wait st"
proof -
  have "unat (a + 1) = unat a + 1" if "\<not> m \<le> a" for a m :: u32
  proof -
    have "1 + a \<noteq> 0" using that by (metis add_eq_0_iff word_order.extremum_strict not_le add.inverse_inverse)
    then show ?thesis by (simp add: unatSuc add.commute)
  qed
  then show ?thesis
    using assms
    by (auto simp: budget_step_def try_attempt_def reserve_wait_def granted_attempts_def granted_wait_def
        Let_def split: budget_call.splits if_splits)
qed

lemma budget_run_account:
  "budget_run st cs = (log, st') \<Longrightarrow> budget_inv st \<Longrightarrow>
   unat (attempts st') = unat (attempts st) + granted_attempts log
   \<and> reserved_wait st' = reserved_wait st + granted_wait log
   \<and> max_attempts st' = max_attempts st \<and> max_wait st' = max_wait st \<and> budget_inv st'"
proof (induction cs arbitrary: st log)
  case (Cons c cs)
  obtain r st1 where s: "budget_step c st = (r, st1)" by fastforce
  obtain log1 where l: "log = (c, r) # log1" "budget_run st1 cs = (log1, st')"
    using Cons.prems(1) s by (auto split: prod.splits)
  have "budget_inv st1"
    using budget_step_transition [OF s] Cons.prems(2) budget.step_inv by blast
  with Cons.IH [OF l(2)] budget_step_account [OF s Cons.prems(2)] show ?case
    by (auto simp: l(1) granted_attempts_def granted_wait_def split: if_splits)
qed (simp add: granted_attempts_def granted_wait_def)

lemma budget_run_bounded:
  assumes "budget_run (budget_new a w) cs = (log, st)"
  shows "granted_attempts log \<le> unat (max a 1) \<and> granted_wait log \<le> w"
proof -
  have "budget_inv (budget_new a w)" using budget_new_reach budget.reach_inv by blast
  from budget_run_account [OF assms this] show ?thesis
    by (auto simp: budget_inv_def budget_new_def word_le_nat_alt)
qed

text \<open>No attempt is refused before the allowance is used up.\<close>

lemma budget_run_exact:
  assumes "budget_run (budget_new a w) cs = (log, st)"
  shows "granted_attempts log = min (length (filter (\<lambda>c. c = Try_Attempt) cs)) (unat (max a 1))"
proof -
  have "granted_attempts log = min (length (filter (\<lambda>c. c = Try_Attempt) cs))
      (unat (max_attempts st0) - unat (attempts st0))"
    if "budget_run st0 cs = (log, st)" "budget_inv st0" for st0 log
    using that
  proof (induction cs arbitrary: st0 log)
    case (Cons c cs)
    obtain r st1 where s: "budget_step c st0 = (r, st1)" by fastforce
    obtain log1 where l: "log = (c, r) # log1" "budget_run st1 cs = (log1, st)"
      using Cons.prems(1) s by (auto split: prod.splits)
    have inv: "budget_inv st1"
      using budget_step_transition [OF s] Cons.prems(2) budget.step_inv by blast
    have grant: "c = Try_Attempt \<Longrightarrow> \<not> isl r \<longleftrightarrow> unat (attempts st0) < unat (max_attempts st0)"
      using s by (auto simp: budget_step_def try_attempt_def Let_def word_le_nat_alt split: if_splits)
    show ?case
      using Cons.IH [OF l(2) inv] budget_step_account [OF s Cons.prems(2)] grant
      by (auto simp: l(1) granted_attempts_def)
  qed (simp add: granted_attempts_def)
  from this [OF assms] show ?thesis
    using budget_new_reach [of a w] budget.reach_inv by (auto simp: budget_new_def)
qed

end
