(* ===== verification/Reasoning_Loop.thy ===== *)
theory Reasoning_Loop
  imports Stream_Model
begin

text \<open>
  The reasoning-loop detector (\<open>crates/atomcode-kernel/src/reasoning_loop.rs\<close>): a bounded tail
  of the reasoning characters, scanned every 128 characters and at the end of the stream for an
  exact cycle, with a Z array over the reversed tail. A \<open>char\<close> is its code point; the Unicode
  table behind \<open>char::is_alphabetic\<close> is the parameter \<open>alphabetic\<close> of the operations, and every
  lemma holds for any such table.

  The lemmas show that the Z array holds the longest common prefixes, that \<open>repeated\<close> answers
  exactly the question whether the tail ends in a cycle the configuration counts, that the chunks
  in which the text arrives do not matter, and that the memory stays bounded.
\<close>

record reasoning_loop_config =
  enabled :: bool
  min_period :: nat
  max_period :: nat
  min_repeats :: nat
  min_repeated_chars :: nat

definition reasoning_loop_config_default :: reasoning_loop_config where
  "reasoning_loop_config_default =
     \<lparr>enabled = True, min_period = 32, max_period = 1024, min_repeats = 4, min_repeated_chars = 1024\<rparr>"

record reasoning_loop_detector =
  config :: reasoning_loop_config
  tail :: "nat list"
  since_scan :: nat

definition clamp_nat :: "nat \<Rightarrow> nat \<Rightarrow> nat \<Rightarrow> nat" where
  "clamp_nat x lo hi = (if x < lo then lo else if x > hi then hi else x)"

definition detector_new :: "reasoning_loop_config \<Rightarrow> reasoning_loop_detector" where
  "detector_new c =
     (let c1 = c\<lparr>min_period := clamp_nat (min_period c) 16 1024\<rparr>;
          c2 = c1\<lparr>max_period := clamp_nat (max_period c1) (min_period c1) 1024\<rparr>;
          c3 = c2\<lparr>min_repeats := clamp_nat (min_repeats c2) 3 16\<rparr>;
          c4 = c3\<lparr>min_repeated_chars := clamp_nat (min_repeated_chars c3) 512 4096\<rparr>
      in \<lparr>config = c4, tail = [], since_scan = 0\<rparr>)"

section \<open>The Z array\<close>

function z_extend :: "'a list \<Rightarrow> nat \<Rightarrow> nat \<Rightarrow> nat" where
  "z_extend t i z = (if i + z < length t \<and> t ! z = t ! (i + z) then z_extend t i (z + 1) else z)"
  by pat_completeness auto
termination
  by (relation "measure (\<lambda>(t, i, z). length t - (i + z))") auto

declare z_extend.simps [simp del]

definition z_step :: "'a list \<Rightarrow> nat list \<times> nat \<times> nat \<Rightarrow> nat \<Rightarrow> nat list \<times> nat \<times> nat" where
  "z_step t s i =
     (case s of (z, left, right) \<Rightarrow>
        let z = (if i \<le> right then z[i := min (right - i + 1) (z ! (i - left))] else z);
            z = z[i := z_extend t i (z ! i)]
        in if i + z ! i > right + 1 then (z, i, i + z ! i - 1) else (z, left, right))"

definition z_array :: "'a list \<Rightarrow> nat list" where
  "z_array t = fst (foldl (z_step t) (replicate (length t) 0, 0, 0) [1..<length t])"

definition repeated :: "(nat \<Rightarrow> bool) \<Rightarrow> reasoning_loop_detector \<Rightarrow> bool" where
  "repeated alphabetic d =
     (let c = config d in
      if \<not> enabled c \<or> length (tail d) < min_repeated_chars c then False
      else
        (let t = rev (tail d); n = length t; z = z_array t in
         list_ex (\<lambda>period.
             let count = 1 + z ! period div period in
             min_repeats c \<le> count \<and> min_repeated_chars c \<le> count * period
             \<and> list_ex alphabetic (take period t))
           [min_period c..<Suc (min (max_period c) (n div min_repeats c))]))"

section \<open>Feeding the detector\<close>

fun push_chars :: "(nat \<Rightarrow> bool) \<Rightarrow> reasoning_loop_detector \<Rightarrow> nat list \<Rightarrow> reasoning_loop_detector \<times> bool" where
  "push_chars alphabetic d [] = (d, False)"
| "push_chars alphabetic d (c # cs) =
     (let t = tail d @ [c];
          t = (if length t > 4096 then tl t else t);
          d = d\<lparr>tail := t, since_scan := since_scan d + 1\<rparr>
      in if since_scan d = 128 then
           (let d = d\<lparr>since_scan := 0\<rparr> in
            if repeated alphabetic d then (d, True) else push_chars alphabetic d cs)
         else push_chars alphabetic d cs)"

definition push :: "(nat \<Rightarrow> bool) \<Rightarrow> reasoning_loop_detector \<Rightarrow> string \<Rightarrow> reasoning_loop_detector \<times> bool" where
  "push alphabetic d delta =
     (if \<not> enabled (config d) then (d, False) else push_chars alphabetic d (utf8_decode delta))"

definition disarm :: "reasoning_loop_detector \<Rightarrow> reasoning_loop_detector" where
  "disarm d = d\<lparr>config := (config d)\<lparr>enabled := False\<rparr>, tail := []\<rparr>"

definition observe :: "(nat \<Rightarrow> bool) \<Rightarrow> reasoning_loop_detector \<Rightarrow> stream_event \<Rightarrow> reasoning_loop_detector \<times> bool" where
  "observe alphabetic d event =
     (case event of
        TextDelta t \<Rightarrow> if t \<noteq> [] then (disarm d, False) else (d, False)
      | ToolCallEvent _ \<Rightarrow> (disarm d, False)
      | ToolCallDelta _ _ _ _ \<Rightarrow> (disarm d, False)
      | ReasoningSignature _ _ \<Rightarrow> (disarm d, False)
      | Reasoning t \<Rightarrow> push alphabetic d t
      | Done _ \<Rightarrow> (d, repeated alphabetic d)
      | _ \<Rightarrow> (d, False))"

section \<open>The Z array holds longest common prefixes\<close>

fun lcp :: "'a list \<Rightarrow> 'a list \<Rightarrow> nat" where
  "lcp (x # xs) (y # ys) = (if x = y then Suc (lcp xs ys) else 0)"
| "lcp _ _ = 0"

lemma lcp_ge_iff: "k \<le> lcp xs ys \<longleftrightarrow> k \<le> length xs \<and> k \<le> length ys \<and> take k xs = take k ys"
proof (induction xs ys arbitrary: k rule: lcp.induct)
  case (1 x xs y ys)
  then show ?case by (cases k) auto
qed auto

definition matches :: "'a list \<Rightarrow> nat \<Rightarrow> nat \<Rightarrow> bool" where
  "matches t i z \<longleftrightarrow> i + z \<le> length t \<and> (\<forall>k<z. t ! k = t ! (i + k))"

lemma matches_iff_lcp: "i \<le> length t \<Longrightarrow> matches t i z \<longleftrightarrow> z \<le> lcp t (drop i t)"
proof
  assume "i \<le> length t" "matches t i z"
  then show "z \<le> lcp t (drop i t)"
    by (auto simp: lcp_ge_iff matches_def intro!: nth_equalityI)
next
  assume "i \<le> length t" "z \<le> lcp t (drop i t)"
  then have l: "z \<le> length t" "i + z \<le> length t" "take z t = take z (drop i t)"
    by (auto simp: lcp_ge_iff)
  have "t ! k = t ! (i + k)" if "k < z" for k
    using that l(2,3) by (metis add_leD1 nth_drop nth_take)
  with l show "matches t i z" by (simp add: matches_def)
qed

lemma z_extend_lcp: "matches t i z \<Longrightarrow> z_extend t i z = lcp t (drop i t)"
proof (induction t i z rule: z_extend.induct)
  case (1 t i z)
  show ?case
  proof (cases "i + z < length t \<and> t ! z = t ! (i + z)")
    case True
    with 1(2) have "matches t i (z + 1)" by (auto simp: matches_def less_Suc_eq)
    with 1(1) True show ?thesis by (simp add: z_extend.simps [of t i z])
  next
    case False
    have "i \<le> length t" using 1(2) by (simp add: matches_def)
    moreover have "\<not> matches t i (Suc z)" using False by (auto simp: matches_def)
    ultimately show ?thesis
      using False 1(2) by (auto simp: z_extend.simps [of t i z] matches_iff_lcp)
  qed
qed

text \<open>The state of the scan before index \<open>i\<close>: the entries below are right, and the window matches.\<close>

definition z_inv :: "'a list \<Rightarrow> nat \<Rightarrow> nat list \<times> nat \<times> nat \<Rightarrow> bool" where
  "z_inv t i s \<longleftrightarrow> (case s of (z, left, right) \<Rightarrow>
     length z = length t \<and> (\<forall>j. i \<le> j \<and> j < length t \<longrightarrow> z ! j = 0)
     \<and> (\<forall>j. 1 \<le> j \<and> j < i \<longrightarrow> z ! j = lcp t (drop j t))
     \<and> (i \<le> right \<longrightarrow> 1 \<le> left \<and> left < i \<and> matches t left (right + 1 - left)))"

lemma z_start_matches:
  assumes "z_inv t i (z, left, right)" "1 \<le> i" "i < length t"
  shows "matches t i (if i \<le> right then min (right - i + 1) (z ! (i - left)) else 0)"
proof (cases "i \<le> right")
  case True
  define j where "j = i - left"
  have w: "1 \<le> left" "left < i" "matches t left (right + 1 - left)"
    and z: "z ! j = lcp t (drop j t)"
    using assms True by (auto simp: z_inv_def j_def)
  have m: "matches t j (z ! j)" using z assms(3) by (simp add: matches_iff_lcp j_def)
  have i: "i = left + j" using w(2) by (simp add: j_def)
  have "t ! k = t ! (i + k)" if "k < right - i + 1" "k < z ! j" for k
  proof -
    have "t ! k = t ! (j + k)" using m that(2) by (simp add: matches_def)
    also have "\<dots> = t ! (left + (j + k))"
      using w(3) that(1) True unfolding matches_def i by (simp add: less_diff_conv)
    finally show ?thesis by (simp add: i add.assoc)
  qed
  moreover have "right + 1 \<le> length t" using w True by (auto simp: matches_def)
  ultimately show ?thesis using True by (auto simp: matches_def j_def)
qed (use assms in \<open>simp add: matches_def\<close>)

lemma z_step_inv:
  assumes "z_inv t i s" "1 \<le> i" "i < length t"
  shows "z_inv t (Suc i) (z_step t s i)"
proof -
  obtain z left right where s: "s = (z, left, right)" by (cases s)
  let ?z0 = "if i \<le> right then min (right - i + 1) (z ! (i - left)) else 0"
  let ?l = "lcp t (drop i t)"
  have len: "length z = length t" and zero: "z ! i = 0"
    using assms by (auto simp: z_inv_def s)
  have ext: "z_extend t i ?z0 = ?l"
    using z_start_matches assms z_extend_lcp by (metis s)
  have step: "z_step t s i = (if i + ?l > right + 1 then (z[i := ?l], i, i + ?l - 1) else (z[i := ?l], left, right))"
    using ext len zero assms(3) by (cases "i \<le> right") (simp_all add: z_step_def s Let_def)
  have "matches t i ?l" using assms(3) by (simp add: matches_iff_lcp)
  moreover have "\<forall>j. 1 \<le> j \<and> j < Suc i \<longrightarrow> z[i := ?l] ! j = lcp t (drop j t)"
    using assms len by (auto simp: z_inv_def s less_Suc_eq)
  moreover have "\<forall>j. Suc i \<le> j \<and> j < length t \<longrightarrow> z[i := ?l] ! j = 0"
    using assms by (auto simp: z_inv_def s)
  ultimately show ?thesis
    using assms(1,2) len unfolding step by (auto simp: z_inv_def s)
qed

lemma z_loop_inv:
  "1 \<le> k \<Longrightarrow> k \<le> length t \<Longrightarrow>
   z_inv t k (foldl (z_step t) (replicate (length t) 0, 0, 0) [1..<k])"
proof (induction k rule: nat_induct_at_least)
  case base
  then show ?case by (simp add: z_inv_def)
next
  case (Suc k)
  then show ?case by (simp add: z_step_inv)
qed

lemma z_array_lcp: "1 \<le> i \<Longrightarrow> i < length t \<Longrightarrow> z_array t ! i = lcp t (drop i t)"
  using z_loop_inv [of "length t" t] by (auto simp: z_inv_def z_array_def split: prod.splits)

section \<open>What \<open>repeated\<close> decides\<close>

definition power_word :: "nat \<Rightarrow> 'a list \<Rightarrow> 'a list" where
  "power_word c u = concat (replicate c u)"

lemma length_power_word [simp]: "length (power_word c u) = c * length u"
  by (induction c) (auto simp: power_word_def)

lemma power_word_Suc: "power_word (Suc c) u = u @ power_word c u"
  by (simp add: power_word_def)

lemma power_word_Suc': "power_word (Suc c) u = power_word c u @ u"
  by (induction c) (auto simp: power_word_def)

lemma rev_power_word: "rev (power_word c u) = power_word c (rev u)"
proof (induction c)
  case (Suc c)
  have "rev (power_word (Suc c) u) = rev u @ power_word c (rev u)"
    using Suc by (simp add: power_word_Suc')
  then show ?case by (simp add: power_word_Suc)
qed (simp add: power_word_def)

lemma lcp_power_word:
  assumes "p \<le> length t"
  shows "c * p \<le> lcp t (drop p t) \<longleftrightarrow> prefix (power_word (Suc c) (take p t)) t"
proof
  assume "prefix (power_word (Suc c) (take p t)) t"
  then obtain r where r: "t = power_word (Suc c) (take p t) @ r" by (auto simp: prefix_def)
  let ?w = "power_word c (take p t)"
  have t1: "t = ?w @ take p t @ r" using r by (simp add: power_word_Suc')
  have "t = take p t @ ?w @ r" using r by (simp add: power_word_Suc)
  then have t2: "drop p t = ?w @ r" by (metis append_take_drop_id same_append_eq)
  have len: "length ?w = c * p" using assms by simp
  have "take (c * p) t = ?w" using t1 len by (metis append_eq_conv_conj)
  moreover have "take (c * p) (drop p t) = ?w" using t2 len by (metis append_eq_conv_conj)
  moreover have "c * p \<le> length t" "c * p \<le> length (drop p t)"
    using arg_cong [OF t1, of length] arg_cong [OF t2, of length] len by auto
  ultimately show "c * p \<le> lcp t (drop p t)" by (simp add: lcp_ge_iff)
next
  assume "c * p \<le> lcp t (drop p t)"
  then show "prefix (power_word (Suc c) (take p t)) t"
  proof (induction c)
    case 0
    then show ?case by (simp add: power_word_def take_is_prefix)
  next
    case (Suc c)
    then have eq: "take (Suc c * p) t = take (Suc c * p) (drop p t)" by (simp only: lcp_ge_iff)
    have "prefix (power_word (Suc c) (take p t)) t" using Suc by simp
    moreover have "length (power_word (Suc c) (take p t)) = Suc c * p" using assms by simp
    ultimately have "power_word (Suc c) (take p t) = take (Suc c * p) t"
      by (metis append_eq_conv_conj prefix_def)
    then have "prefix (power_word (Suc c) (take p t)) (drop p t)"
      using eq take_is_prefix by metis
    then have "prefix (take p t @ power_word (Suc c) (take p t)) (take p t @ drop p t)"
      by (simp only: same_prefix_prefix)
    then show ?case by (simp only: append_take_drop_id power_word_Suc [of "Suc c"])
  qed
qed

text \<open>
  A cycle the configuration counts: the tail ends in \<open>c\<close> copies of a block \<open>u\<close> that holds a
  letter, with the period, the number of copies and their total length inside the limits.
\<close>

definition ends_in_cycle :: "(nat \<Rightarrow> bool) \<Rightarrow> reasoning_loop_config \<Rightarrow> nat list \<Rightarrow> bool" where
  "ends_in_cycle alphabetic cfg t \<longleftrightarrow>
     (\<exists>u c. min_period cfg \<le> length u \<and> length u \<le> max_period cfg \<and> min_repeats cfg \<le> c
        \<and> min_repeated_chars cfg \<le> c * length u \<and> list_ex alphabetic u
        \<and> suffix (power_word c u) t)"

definition config_ok :: "reasoning_loop_config \<Rightarrow> bool" where
  "config_ok cfg \<longleftrightarrow>
     16 \<le> min_period cfg \<and> min_period cfg \<le> max_period cfg \<and> max_period cfg \<le> 1024
     \<and> 3 \<le> min_repeats cfg \<and> min_repeats cfg \<le> 16
     \<and> 512 \<le> min_repeated_chars cfg \<and> min_repeated_chars cfg \<le> 4096"

lemma config_ok_new: "config_ok (config (detector_new c))"
  by (auto simp: detector_new_def config_ok_def clamp_nat_def Let_def)

lemma cycle_count:
  assumes "1 \<le> p" "p < length t"
  shows "(\<exists>c\<ge>r. m \<le> c * p \<and> prefix (power_word c (take p t)) t) \<longleftrightarrow>
    r \<le> 1 + z_array t ! p div p \<and> m \<le> (1 + z_array t ! p div p) * p"
    (is "?L \<longleftrightarrow> ?R")
proof -
  let ?q = "z_array t ! p div p"
  have pre: "prefix (power_word (Suc c) (take p t)) t \<longleftrightarrow> c \<le> ?q" for c
    using assms lcp_power_word [of p t c] z_array_lcp [of p t] by (simp add: less_eq_div_iff_mult_less_eq)
  show ?thesis
  proof
    assume ?L
    then obtain c where c: "r \<le> c" "m \<le> c * p" "prefix (power_word c (take p t)) t" by blast
    have "c \<le> 1 + ?q" using c(3) pre by (cases c) auto
    then show ?R using c(1,2) mult_le_mono1 [of c "1 + ?q" p] by linarith
  next
    assume ?R
    then show ?L using pre [of ?q] by (intro exI [of _ "1 + ?q"]) simp
  qed
qed

lemma repeated_unfold:
  "repeated alphabetic d \<longleftrightarrow> enabled (config d) \<and> min_repeated_chars (config d) \<le> length (rev (tail d)) \<and>
     (\<exists>p. min_period (config d) \<le> p \<and> p \<le> max_period (config d)
        \<and> p \<le> length (rev (tail d)) div min_repeats (config d)
        \<and> min_repeats (config d) \<le> 1 + z_array (rev (tail d)) ! p div p
        \<and> min_repeated_chars (config d) \<le> (1 + z_array (rev (tail d)) ! p div p) * p
        \<and> list_ex alphabetic (take p (rev (tail d))))"
proof -
  have ex: "list_ex P [a..<Suc (min b c)] \<longleftrightarrow> (\<exists>p. a \<le> p \<and> p \<le> b \<and> p \<le> c \<and> P p)" for P a b c
    by (auto simp: list_ex_iff Bex_def less_Suc_eq_le simp del: upt_Suc)
  show ?thesis
    unfolding repeated_def Let_def ex by (auto simp: not_less)
qed

lemma repeated_iff_cycle:
  assumes "config_ok (config d)" "enabled (config d)"
  shows "repeated alphabetic d \<longleftrightarrow> ends_in_cycle alphabetic (config d) (tail d)"
proof -
  let ?c = "config d" and ?t = "rev (tail d)"
  let ?n = "length ?t"
  let ?hit = "\<lambda>p. \<exists>c\<ge>min_repeats ?c. min_repeated_chars ?c \<le> c * p
      \<and> prefix (power_word c (take p ?t)) ?t \<and> list_ex alphabetic (take p ?t)"
  have small: "p * min_repeats ?c \<le> ?n \<Longrightarrow> 1 \<le> p \<Longrightarrow> p < ?n" for p
  proof -
    assume p: "p * min_repeats ?c \<le> ?n" "1 \<le> p"
    have "p * 3 \<le> p * min_repeats ?c" using assms(1) by (simp add: config_ok_def)
    with p show "p < ?n" by linarith
  qed
  have "repeated alphabetic d \<longleftrightarrow> min_repeated_chars ?c \<le> ?n \<and>
      (\<exists>p. min_period ?c \<le> p \<and> p \<le> max_period ?c \<and> p * min_repeats ?c \<le> ?n \<and> ?hit p)"
  proof -
    have "min_repeats ?c \<le> 1 + z_array ?t ! p div p \<and> min_repeated_chars ?c \<le> (1 + z_array ?t ! p div p) * p
        \<and> list_ex alphabetic (take p ?t) \<longleftrightarrow> ?hit p"
      if "min_period ?c \<le> p" "p * min_repeats ?c \<le> ?n" for p
      using cycle_count [of p ?t "min_repeats ?c" "min_repeated_chars ?c"] small that assms(1)
      by (auto simp: config_ok_def)
    moreover have "p \<le> ?n div min_repeats ?c \<longleftrightarrow> p * min_repeats ?c \<le> ?n" for p
      using assms(1) by (simp add: less_eq_div_iff_mult_less_eq config_ok_def)
    ultimately show ?thesis
      using assms(2) unfolding repeated_unfold by meson
  qed
  also have "\<dots> \<longleftrightarrow> ends_in_cycle alphabetic ?c (tail d)"
    (is "?L \<longleftrightarrow> ?R")
  proof
    assume ?L
    then obtain p c where p: "min_period ?c \<le> p" "p \<le> max_period ?c" "p * min_repeats ?c \<le> ?n"
      and c: "min_repeats ?c \<le> c" "min_repeated_chars ?c \<le> c * p"
        "prefix (power_word c (take p ?t)) ?t" "list_ex alphabetic (take p ?t)"
      by blast
    have "p \<le> ?n" using small [of p] p assms(1) by (simp add: config_ok_def)
    then have len: "length (rev (take p ?t)) = p" by simp
    have "suffix (power_word c (rev (take p ?t))) (tail d)"
      using c(3) by (simp add: suffix_to_prefix rev_power_word)
    with p c len show ?R
      unfolding ends_in_cycle_def by (intro exI [of _ "rev (take p ?t)"] exI [of _ c]) (simp add: list_ex_iff)
  next
    assume ?R
    then obtain u c where u: "min_period ?c \<le> length u" "length u \<le> max_period ?c" "min_repeats ?c \<le> c"
        "min_repeated_chars ?c \<le> c * length u" "list_ex alphabetic u"
      and suf: "suffix (power_word c u) (tail d)"
      unfolding ends_in_cycle_def by blast
    have pre: "prefix (power_word c (rev u)) ?t" using suf by (simp add: suffix_to_prefix rev_power_word)
    then have le: "c * length u \<le> ?n" using prefix_length_le by fastforce
    obtain c' where c': "c = Suc c'" using u(3) assms(1) by (cases c) (auto simp: config_ok_def)
    have tk: "take (length u) ?t = rev u"
      using pre by (auto simp: c' power_word_Suc prefix_def)
    have "length u * min_repeats ?c \<le> c * length u" using u(3) by (simp add: mult.commute)
    then have "length u * min_repeats ?c \<le> ?n" using le by linarith
    then show ?L
      using u le pre tk by (intro conjI exI [of _ "length u"] exI [of _ c]) (auto simp: list_ex_iff)
  qed
  finally show ?thesis .
qed

section \<open>Feeding character by character\<close>

definition last_window :: "nat list \<Rightarrow> nat list" where
  "last_window cs = drop (length cs - 4096) cs"

lemma last_window_snoc:
  "last_window (t @ [c]) = (let w = last_window t @ [c] in if length w > 4096 then tl w else w)"
proof (cases "length t < 4096")
  case True
  then show ?thesis by (simp add: last_window_def)
next
  case False
  define k where "k = length t - 4096"
  have len: "length (drop k t) = 4096" and k: "Suc (length t) - 4096 = Suc k" "k < length t"
    using False by (auto simp: k_def)
  then have "drop k t \<noteq> []" by auto
  then have "tl (drop k t @ [c]) = drop (Suc k) t @ [c]"
    by (simp add: drop_Suc tl_drop)
  with len k show ?thesis
    by (simp add: last_window_def Let_def k_def [symmetric] del: length_drop)
qed

lemma length_last_window: "length (last_window cs) \<le> 4096"
  by (simp add: last_window_def)

text \<open>
  The detector after \<open>n\<close> characters with \<open>seen\<close> in total: what a run without an alarm leaves.
\<close>

definition fed :: "reasoning_loop_detector \<Rightarrow> nat list \<Rightarrow> reasoning_loop_detector" where
  "fed d cs = d\<lparr>tail := last_window (tail d @ cs), since_scan := (since_scan d + length cs) mod 128\<rparr>"

definition scans_at :: "(nat \<Rightarrow> bool) \<Rightarrow> reasoning_loop_detector \<Rightarrow> nat list \<Rightarrow> nat \<Rightarrow> bool" where
  "scans_at alphabetic d cs k \<longleftrightarrow>
     1 \<le> k \<and> k \<le> length cs \<and> (since_scan d + k) mod 128 = 0 \<and> repeated alphabetic (fed d (take k cs))"

definition detector_inv :: "reasoning_loop_detector \<Rightarrow> bool" where
  "detector_inv d \<longleftrightarrow> config_ok (config d) \<and> length (tail d) \<le> 4096 \<and> since_scan d < 128
     \<and> (\<not> enabled (config d) \<longrightarrow> tail d = [])"

lemma last_window_id: "length t \<le> 4096 \<Longrightarrow> last_window t = t"
  by (simp add: last_window_def)

lemma last_window_append: "last_window (last_window a @ b) = last_window (a @ b)"
proof (cases "length a \<le> 4096")
  case True
  then show ?thesis by (simp add: last_window_id)
next
  case False
  then have "length (last_window a) = 4096" by (simp add: last_window_def)
  with False show ?thesis by (simp add: last_window_def add.commute)
qed

lemma fed_fed: "fed (fed d a) b = fed d (a @ b)"
  by (simp add: fed_def last_window_append [of "tail d @ a", simplified] mod_add_left_eq add.assoc)

lemma fed_one:
  "detector_inv d \<Longrightarrow> fed d [c] =
     d\<lparr>tail := (let t = tail d @ [c] in if length t > 4096 then tl t else t),
       since_scan := (if since_scan d + 1 = 128 then 0 else since_scan d + 1)\<rparr>"
  by (auto simp: fed_def detector_inv_def last_window_snoc last_window_id Let_def)

lemma fed_inv: "detector_inv d \<Longrightarrow> enabled (config d) \<Longrightarrow> detector_inv (fed d cs) \<and> enabled (config (fed d cs))"
  by (auto simp: detector_inv_def fed_def length_last_window)

lemma push_chars_step:
  "detector_inv d \<Longrightarrow> push_chars alphabetic d (c # cs) =
     (if (since_scan d + 1) mod 128 = 0 \<and> repeated alphabetic (fed d [c]) then (fed d [c], True)
      else push_chars alphabetic (fed d [c]) cs)"
proof -
  assume inv: "detector_inv d"
  then have "(since_scan d + 1) mod 128 = 0 \<longleftrightarrow> since_scan d + 1 = 128"
    by (auto simp: detector_inv_def mod_eq_0_iff_dvd dest: dvd_imp_le)
  with inv show ?thesis by (simp add: fed_one Let_def)
qed

lemma scans_at_Cons:
  "scans_at alphabetic d (c # cs) (Suc k) \<longleftrightarrow>
     (if k = 0 then (since_scan d + 1) mod 128 = 0 \<and> repeated alphabetic (fed d [c])
      else scans_at alphabetic (fed d [c]) cs k)"
proof (cases k)
  case (Suc j)
  have "((since_scan d + 1) mod 128 + k) mod 128 = (since_scan d + Suc k) mod 128"
    by (simp add: mod_add_left_eq)
  then show ?thesis by (simp add: scans_at_def fed_fed Suc fed_def [of d "[c]", THEN arg_cong [of _ _ since_scan]])
qed (simp add: scans_at_def)

lemma push_chars_exact:
  "detector_inv d \<Longrightarrow> enabled (config d) \<Longrightarrow>
   push_chars alphabetic d cs =
     (case find (scans_at alphabetic d cs) [1..<Suc (length cs)] of
        Some k \<Rightarrow> (fed d (take k cs), True)
      | None \<Rightarrow> (fed d cs, False))"
proof (induction cs arbitrary: d)
  case Nil
  then show ?case by (simp add: fed_def detector_inv_def last_window_id)
next
  case (Cons c cs)
  let ?d = "fed d [c]"
  have shift: "[1..<Suc (length (c # cs))] = 1 # map Suc [1..<Suc (length cs)]"
    by (simp add: upt_conv_Cons map_Suc_upt del: upt_Suc)
  have find_map: "find P (map Suc xs) = map_option Suc (find (\<lambda>x. P (Suc x)) xs)" for P :: "nat \<Rightarrow> bool" and xs
    by (induction xs) auto
  have scan1: "scans_at alphabetic d (c # cs) 1 \<longleftrightarrow>
      (since_scan d + 1) mod 128 = 0 \<and> repeated alphabetic ?d"
    using scans_at_Cons [of alphabetic d c cs 0] by simp
  have rest: "find (\<lambda>k. scans_at alphabetic d (c # cs) (Suc k)) [1..<Suc (length cs)]
      = find (scans_at alphabetic ?d cs) [1..<Suc (length cs)]"
    by (rule find_cong) (auto simp: scans_at_Cons)
  show ?case
  proof (cases "scans_at alphabetic d (c # cs) 1")
    case True
    then show ?thesis
      using scan1 Cons.prems by (simp only: shift find.simps push_chars_step) simp
  next
    case False
    have IH: "push_chars alphabetic ?d cs =
      (case find (scans_at alphabetic ?d cs) [1..<Suc (length cs)] of
         Some k \<Rightarrow> (fed ?d (take k cs), True) | None \<Rightarrow> (fed ?d cs, False))"
      using Cons.IH fed_inv [OF Cons.prems] by blast
    have "push_chars alphabetic d (c # cs) = push_chars alphabetic ?d cs"
      using False scan1 Cons.prems(1) by (simp only: push_chars_step if_False)
    then show ?thesis
      using False unfolding shift find.simps(2) find_map rest IH
      by (auto simp: fed_fed split: option.splits)
  qed
qed

lemma push_chars_append:
  "push_chars alphabetic d (a @ b) =
     (case push_chars alphabetic d a of (d', hit) \<Rightarrow>
        if hit then (d', True) else push_chars alphabetic d' b)"
  by (induction a arbitrary: d) (auto simp: Let_def)

lemma find_alarm:
  "find (scans_at alphabetic d cs) [1..<Suc (length cs)] = None \<longleftrightarrow> (\<nexists>k. scans_at alphabetic d cs k)"
  by (auto simp: find_None_iff scans_at_def less_Suc_eq_le simp del: upt_Suc)

lemma push_chars_alarm:
  assumes "detector_inv d" "enabled (config d)"
  shows "snd (push_chars alphabetic d cs) \<longleftrightarrow> (\<exists>k. scans_at alphabetic d cs k)"
  using push_chars_exact [OF assms, of alphabetic cs] find_alarm [of alphabetic d cs]
  by (cases "find (scans_at alphabetic d cs) [1..<Suc (length cs)]") (auto simp del: upt_Suc)

lemma push_chars_inv:
  assumes "detector_inv d" "enabled (config d)"
  shows "detector_inv (fst (push_chars alphabetic d cs))"
  using push_chars_exact [OF assms, of alphabetic cs] fed_inv [OF assms] by (auto split: option.splits)

section \<open>Every event of a stream\<close>

lemma observe_inv: "detector_inv d \<Longrightarrow> detector_inv (fst (observe alphabetic d e))"
proof -
  assume inv: "detector_inv d"
  then have "detector_inv (disarm d)" by (simp add: detector_inv_def disarm_def config_ok_def)
  with inv show ?thesis
    by (auto simp: observe_def push_def push_chars_inv split: stream_event.splits)
qed

lemma detector_new_inv: "detector_inv (detector_new c)"
  using config_ok_new [of c] by (auto simp: detector_inv_def detector_new_def Let_def)

interpretation detector: step_system
  "\<lambda>d. \<exists>c. d = detector_new c" "\<lambda>d d'. \<exists>e. d' = fst (observe alphabetic d e)" detector_inv
  for alphabetic
  by unfold_locales (auto simp: detector_new_inv observe_inv)

fun observe_all :: "(nat \<Rightarrow> bool) \<Rightarrow> reasoning_loop_detector \<Rightarrow> stream_event list \<Rightarrow> reasoning_loop_detector" where
  "observe_all alphabetic d [] = d"
| "observe_all alphabetic d (e # es) = observe_all alphabetic (fst (observe alphabetic d e)) es"

lemma observe_all_reach:
  "detector.reach alphabetic d \<Longrightarrow> detector.reach alphabetic (observe_all alphabetic d es)"
proof (induction es arbitrary: d)
  case (Cons e es)
  then have "detector.reach alphabetic (fst (observe alphabetic d e))"
    using detector.reach_step [of alphabetic d] by blast
  then show ?case using Cons.IH by simp
qed simp

lemma observe_all_inv: "detector_inv (observe_all alphabetic (detector_new c) es)"
  using observe_all_reach detector.reach_start detector.reach_inv by blast

lemma observe_disarmed:
  assumes "\<not> enabled (config d)"
  shows "\<not> snd (observe alphabetic d e) \<and> \<not> enabled (config (fst (observe alphabetic d e)))"
  using assms by (auto simp: observe_def push_def disarm_def repeated_def Let_def split: stream_event.splits)

lemma observe_all_disarmed:
  "\<not> enabled (config d) \<Longrightarrow> \<not> enabled (config (observe_all alphabetic d es))"
  by (induction es arbitrary: d) (auto simp: observe_disarmed)

text \<open>What makes an answer visible: after it a cycle is the answer's business, not the detector's.\<close>

fun visible_output :: "stream_event \<Rightarrow> bool" where
  "visible_output (TextDelta t) = (t \<noteq> [])"
| "visible_output (ToolCallEvent _) = True"
| "visible_output (ToolCallDelta _ _ _ _) = True"
| "visible_output (ReasoningSignature _ _) = True"
| "visible_output _ = False"

lemma observe_visible: "visible_output e \<Longrightarrow> observe alphabetic d e = (disarm d, False)"
  by (cases e) (auto simp: observe_def)

lemma observe_all_append:
  "observe_all alphabetic d (es @ fs) = observe_all alphabetic (observe_all alphabetic d es) fs"
  by (induction es arbitrary: d) auto

lemma observe_after_visible:
  assumes "e \<in> set es" "visible_output e"
  shows "\<not> snd (observe alphabetic (observe_all alphabetic d es) f)"
proof -
  obtain as bs where es: "es = as @ e # bs" using assms(1) split_list by fast
  have "\<not> enabled (config (observe_all alphabetic d es))"
    by (simp add: es observe_all_append observe_visible assms(2) observe_all_disarmed disarm_def)
  then show ?thesis using observe_disarmed by blast
qed

end
