(* ===== verification/Session.thy ===== *)
theory Session
  imports Message
begin

text \<open>
  The facts of a session log (\<open>crates/atomcode-kernel/src/session.rs\<close>, with the terminal causes
  and policy interventions of \<open>event.rs\<close>): the event type with every constructor and field of
  the source, the questions put to a person, headers, and the functions that read one event or
  renumber a run of them. A \<open>SeqNo\<close> and a turn number are natural numbers: the log counts them up
  from zero, and the sources only compare and shift them.
\<close>

type_synonym seq_no = nat
type_synonym turn_no = nat

section \<open>Parts of events\<close>

datatype policy_intervention_code = CredentialShellBlocked

datatype policy_recovery_action = CompleteExternally | SkipStep | ViewSafeInstructions | EndTask

record policy_intervention =
  pi_id :: u64
  pi_code :: policy_intervention_code
  pi_actions :: "policy_recovery_action list"

definition credential_shell_blocked :: "u64 \<Rightarrow> policy_intervention \<times> u64" where
  "credential_shell_blocked next_id =
     (\<lparr>pi_id = next_id, pi_code = CredentialShellBlocked,
       pi_actions = [CompleteExternally, SkipStep, ViewSafeInstructions, EndTask]\<rparr>, next_id + 1)"

datatype stop_reason =
    StopStopped | MaxRounds | MaxContinuations | RepeatLoop | ToolLoopDetected | StopProviderError
  | InternalError | StopTimeout | StopCancelled | PromptRejected | PolicyDenied | RateLimited
  | StoppedByPolicy | RunawayFuse | InvariantViolated

datatype header_reason = Append | Series

datatype injection_origin =
    Peer (peer_from: string) (peer_outside: bool)
  | Memory
  | Reminder
  | Skill (skill_name: string)
  | Continuation
  | InternalNudge
  | CompactionSummary
  | PersonToMember (told_member: string)
  | TeamNote (noted_member: string)

datatype notice_kind =
    NoticeRateLimited | OverflowCompacted | StreamRecovered | ProviderRetry | OutputTruncated
  | OutputLeftCutOff | Compacting | CompactionDegraded | ConfigSkipped | MemberNotRestored
  | SessionInterrupted

record retry_attempt =
  ra_attempt :: u32
  ra_max_attempts :: u32
  ra_backoff_secs :: u64

record rewritten_text =
  rt_seq :: seq_no
  rt_text :: string

datatype rewind_scope = ScopeConversation | ScopeCode | ScopeBoth

definition takes_back_conversation :: "rewind_scope \<Rightarrow> bool" where
  "takes_back_conversation s \<longleftrightarrow> s \<in> {ScopeConversation, ScopeBoth}"

record rate_limit_pause =
  reset_at_display :: string
  reset_label :: string
  secs_until_reset :: "u64 option"
  server_message :: "string option"

section \<open>Questions put to a person\<close>

definition ANSWER_ALLOW :: string where "ANSWER_ALLOW = ''allow''"
definition ANSWER_ALWAYS :: string where "ANSWER_ALWAYS = ''allow_always''"
definition ANSWER_ALWAYS_ALL :: string where "ANSWER_ALWAYS_ALL = ''allow_always_all''"
definition ANSWER_DENY :: string where "ANSWER_DENY = ''deny''"
definition ANSWERED_BY_MODE :: string where "ANSWERED_BY_MODE = ''auto mode''"

record answer =
  an_value :: string
  an_label :: string

definition answer_new :: "string \<Rightarrow> answer" where
  "answer_new v = \<lparr>an_value = v, an_label = v\<rparr>"

definition labelled :: "string \<Rightarrow> string \<Rightarrow> answer" where
  "labelled v l = \<lparr>an_value = v, an_label = l\<rparr>"

record about_call =
  ac_tool :: string
  ac_arguments :: string
  ac_grant :: "string option"

record question =
  q_prompt :: string
  q_options :: "answer list"
  q_asker :: "string option"
  q_about :: "about_call option"

definition question_plain :: "string \<Rightarrow> string list \<Rightarrow> question" where
  "question_plain p os = \<lparr>q_prompt = p, q_options = map answer_new os, q_asker = None, q_about = None\<rparr>"

definition approval ::
  "string \<Rightarrow> string \<Rightarrow> string option \<Rightarrow> string option \<Rightarrow> string option \<Rightarrow> question" where
  "approval tool arguments grant asker allow_all =
     \<lparr>q_prompt =
        (case asker of
           Some who \<Rightarrow> ''Allow `'' @ tool @ ''` to run, asked for by `'' @ who @ ''`?''
         | None \<Rightarrow> ''Allow `'' @ tool @ ''` to run?''),
      q_options =
        [labelled ANSWER_ALLOW ''allow once'']
        @ (if grant \<noteq> None then [labelled ANSWER_ALWAYS ''always allow''] else [])
        @ (case allow_all of
             Some grp \<Rightarrow> [labelled ANSWER_ALWAYS_ALL (''allow all '' @ grp @ '' this session'')]
           | None \<Rightarrow> [])
        @ [labelled ANSWER_DENY ''deny''],
      q_asker = asker,
      q_about = Some \<lparr>ac_tool = tool, ac_arguments = arguments, ac_grant = grant\<rparr>\<rparr>"

definition question_values :: "question \<Rightarrow> string list" where
  "question_values q = map an_value (q_options q)"

definition question_has :: "question \<Rightarrow> string \<Rightarrow> bool" where
  "question_has q v = list_ex (\<lambda>o'. an_value o' = v) (q_options q)"

section \<open>Events\<close>

datatype session_event =
    ContextRetention turn_no seq_no bool nat string
  | TurnStart turn_no
  | UserMessage turn_no string "image_content list"
  | StepStart turn_no u32
  | StepEnd turn_no u32 u32
  | RequestHeader turn_no u32 string header_reason
  | AssistantChunk turn_no u32 string bool
  | ReplyCheckpoint turn_no u32 string string bool
  | ReasoningDiscarded turn_no u32
  | AssistantMessage turn_no u32 string string "tool_call list" "reasoning_block list" "message_meta option"
  | ToolStarted turn_no u32 tool_call
  | ToolResultLogged turn_no u32 string string bool "image_content list"
  | Injected turn_no string injection_origin
  | Asked turn_no question
  | Answered turn_no "string option" string
  | Compacted turn_no seq_no string seq_no
  | Usage turn_no u32 token_usage
  | ToolResultsStubbed turn_no seq_no
  | MessagesRewritten turn_no "rewritten_text list"
  | Notice turn_no notice_kind string "retry_attempt option"
  | Titled turn_no string bool
  | RateLimitPaused turn_no rate_limit_pause
  | Interrupted turn_no bool
  | PartialReply turn_no u32 string string
  | Stopped turn_no
  | Rewound turn_no seq_no rewind_scope
  | Checkpointed turn_no string
  | PolicyIntervention turn_no policy_intervention
  | TurnEnd turn_no stop_reason "string option"

definition is_transient :: "session_event \<Rightarrow> bool" where
  "is_transient e \<longleftrightarrow>
     (case e of AssistantChunk _ _ _ _ \<Rightarrow> True | ReasoningDiscarded _ _ \<Rightarrow> True | _ \<Rightarrow> False)"

fun turn :: "session_event \<Rightarrow> turn_no" where
  "turn (ContextRetention t _ _ _ _) = t"
| "turn (TurnStart t) = t"
| "turn (UserMessage t _ _) = t"
| "turn (StepStart t _) = t"
| "turn (StepEnd t _ _) = t"
| "turn (RequestHeader t _ _ _) = t"
| "turn (AssistantChunk t _ _ _) = t"
| "turn (ReplyCheckpoint t _ _ _ _) = t"
| "turn (ReasoningDiscarded t _) = t"
| "turn (AssistantMessage t _ _ _ _ _ _) = t"
| "turn (ToolStarted t _ _) = t"
| "turn (ToolResultLogged t _ _ _ _ _) = t"
| "turn (Injected t _ _) = t"
| "turn (Asked t _) = t"
| "turn (Answered t _ _) = t"
| "turn (Compacted t _ _ _) = t"
| "turn (Usage t _ _) = t"
| "turn (ToolResultsStubbed t _) = t"
| "turn (MessagesRewritten t _) = t"
| "turn (Notice t _ _ _) = t"
| "turn (Titled t _ _) = t"
| "turn (RateLimitPaused t _) = t"
| "turn (Interrupted t _) = t"
| "turn (PartialReply t _ _ _) = t"
| "turn (Stopped t) = t"
| "turn (Rewound t _ _) = t"
| "turn (Checkpointed t _) = t"
| "turn (PolicyIntervention t _) = t"
| "turn (TurnEnd t _ _) = t"

definition is_model_visible :: "session_event \<Rightarrow> bool" where
  "is_model_visible e \<longleftrightarrow>
     (case e of
        ContextRetention _ _ _ _ _ \<Rightarrow> True
      | UserMessage _ _ _ \<Rightarrow> True
      | AssistantMessage _ _ _ _ _ _ _ \<Rightarrow> True
      | ToolResultLogged _ _ _ _ _ _ \<Rightarrow> True
      | Injected _ _ _ \<Rightarrow> True
      | Compacted _ _ _ _ \<Rightarrow> True
      | ToolResultsStubbed _ _ \<Rightarrow> True
      | MessagesRewritten _ _ \<Rightarrow> True
      | Interrupted _ _ \<Rightarrow> True
      | PartialReply _ _ _ _ \<Rightarrow> True
      | _ \<Rightarrow> False)"

definition SESSION_FORMAT_VERSION :: u32 where
  "SESSION_FORMAT_VERSION = 15"

record member_header =
  mh_name :: string
  mh_role :: string
  mh_task :: string
  mh_model :: "string option"
  mh_effort :: "string option"
  mh_worktree :: "string option"
  mh_branch :: "string option"
  mh_scope :: "string list"

record session_header =
  sh_version :: u32
  sh_id :: string
  created_at :: u64
  cwd :: "string option"
  parent :: "string option"
  inherited :: nat
  sh_context :: "string option"
  member_of :: "member_header option"

text \<open>The wall clock's reading is an argument.\<close>

definition session_header_new :: "u64 \<Rightarrow> string \<Rightarrow> session_header" where
  "session_header_new now_ms i =
     \<lparr>sh_version = SESSION_FORMAT_VERSION, sh_id = i, created_at = now_ms, cwd = None, parent = None,
      inherited = 0, sh_context = None, member_of = None\<rparr>"

record logged_event =
  le_seq :: seq_no
  le_at :: u64
  le_event :: session_event

record committed_event =
  ce_session :: string
  ce_seq :: seq_no
  ce_at :: u64
  ce_event :: session_event

definition logged :: "committed_event \<Rightarrow> logged_event" where
  "logged c = \<lparr>le_seq = ce_seq c, le_at = ce_at c, le_event = ce_event c\<rparr>"

section \<open>Renumbering\<close>

definition shift_seq :: "seq_no \<Rightarrow> seq_no \<Rightarrow> seq_no \<Rightarrow> seq_no" where
  "shift_seq old_first first s = (if s < old_first then s else s - old_first + first)"

fun renumber_event :: "(seq_no \<Rightarrow> seq_no) \<Rightarrow> session_event \<Rightarrow> session_event" where
  "renumber_event f (ContextRetention t source active bytes sha) = ContextRetention t (f source) active bytes sha"
| "renumber_event f (Compacted t through s from') =
     Compacted t (f through) s (if from' \<noteq> 0 then f from' else from')"
| "renumber_event f (ToolResultsStubbed t through) = ToolResultsStubbed t (f through)"
| "renumber_event f (MessagesRewritten t texts) =
     MessagesRewritten t (map (\<lambda>r. r\<lparr>rt_seq := f (rt_seq r)\<rparr>) texts)"
| "renumber_event f e = e"

definition renumber :: "logged_event list \<Rightarrow> seq_no \<Rightarrow> logged_event list" where
  "renumber events first =
     (case events of
        [] \<Rightarrow> []
      | e # _ \<Rightarrow>
          (let f = shift_seq (le_seq e) first in
           map (\<lambda>l. l\<lparr>le_seq := f (le_seq l), le_event := renumber_event f (le_event l)\<rparr>) events))"

section \<open>Summaries and stubs\<close>

definition is_context_summary :: "session_event \<Rightarrow> bool" where
  "is_context_summary e \<longleftrightarrow>
     (case e of Compacted _ through s from' \<Rightarrow> from' < through \<and> \<not> trim_is_empty s | _ \<Rightarrow> False)"

definition context_summary_count :: "logged_event list \<Rightarrow> nat" where
  "context_summary_count events =
     card (le_seq ` set (filter (\<lambda>e. is_context_summary (le_event e)) events))"

definition build_compact_stub :: "string \<Rightarrow> string \<Rightarrow> bool \<Rightarrow> string" where
  "build_compact_stub tool_name output success =
     (let ls = str_lines output;
          l1 = (case ls of [] \<Rightarrow> ''(empty)'' | l # _ \<Rightarrow> l);
          chosen = (if prefix ''[elapsed:'' l1
                    then (case ls of _ # l2 # _ \<Rightarrow> l2 | _ \<Rightarrow> l1) else l1);
          first_line = take_chars 80 chosen;
          status = (if success then ''ok'' else ''FAILED'')
      in ''['' @ tool_name @ '' '' @ status @ '': '' @ show_nat (length ls) @ '' lines, first: ''
         @ first_line @ '']'')"

end
