(* ===== verification/Retention.thy ===== *)
theory Retention
  imports Session
begin

text \<open>
  Which facts of a log still count (\<open>taken_back\<close>, \<open>folded_ranges\<close>, \<open>visible_turns\<close>,
  \<open>undone_turns\<close>, \<open>rewound_turns\<close>, \<open>retained_events\<close> of \<open>session.rs\<close>) and the context a person
  pinned (\<open>session_retention.rs\<close>). \<open>digest\<close> is SHA-256 of a third-party crate: it is an argument
  of the functions that call it.

  The lemmas show that the last standing decision about a source is the one in force, that
  \<open>validate\<close> returns exactly the standing texts whose length and digest were recorded, and that
  \<open>validate_request\<close> accepts a request exactly when it carries every pinned text in full, each in
  a message of its own.
\<close>

section \<open>What still counts\<close>

definition rewound_ranges :: "logged_event list \<Rightarrow> (seq_no \<times> seq_no) list" where
  "rewound_ranges events =
     List.map_filter (\<lambda>l. case le_event l of
         Rewound _ to' scope \<Rightarrow> if takes_back_conversation scope then Some (to', le_seq l) else None
       | _ \<Rightarrow> None) events"

definition taken_back :: "logged_event list \<Rightarrow> seq_no \<Rightarrow> bool" where
  "taken_back events s = list_ex (\<lambda>(to', at'). to' \<le> s \<and> s < at') (rewound_ranges events)"

definition folded_ranges :: "logged_event list \<Rightarrow> (seq_no \<times> seq_no) list" where
  "folded_ranges events =
     List.map_filter (\<lambda>l. case le_event l of Compacted _ through _ from' \<Rightarrow> Some (from', through) | _ \<Rightarrow> None)
       (filter (\<lambda>l. \<not> taken_back events (le_seq l)) events)"

definition in_ranges :: "(seq_no \<times> seq_no) list \<Rightarrow> seq_no \<Rightarrow> bool" where
  "in_ranges ranges s = list_ex (\<lambda>(from', through). from' < s \<and> s \<le> through) ranges"

definition undone_by_interruption :: "logged_event list \<Rightarrow> turn_no set" where
  "undone_by_interruption events =
     set (List.map_filter (\<lambda>l. case le_event l of Interrupted t True \<Rightarrow> Some t | _ \<Rightarrow> None) events)"

fun retained_session_wide :: "session_event \<Rightarrow> bool" where
  "retained_session_wide (Interrupted _ _) = True"
| "retained_session_wide (ContextRetention _ _ _ _ _) = True"
| "retained_session_wide (Injected _ _ origin) =
     (case origin of Memory \<Rightarrow> True | CompactionSummary \<Rightarrow> True | PersonToMember _ \<Rightarrow> True
        | TeamNote _ \<Rightarrow> True | _ \<Rightarrow> False)"
| "retained_session_wide _ = False"

definition retained_events :: "logged_event list \<Rightarrow> logged_event list" where
  "retained_events events =
     (let undone = undone_by_interruption events in
      filter (\<lambda>l. if taken_back events (le_seq l) then False
                  else retained_session_wide (le_event l) \<or> turn (le_event l) \<notin> undone) events)"

definition undone_turns :: "logged_event list \<Rightarrow> turn_no set" where
  "undone_turns events =
     set (List.map_filter (\<lambda>l. case le_event l of
         TurnStart t \<Rightarrow> if taken_back events (le_seq l) then Some t else None
       | Interrupted t True \<Rightarrow> Some t
       | _ \<Rightarrow> None) events)"

definition rewound_turns :: "logged_event list \<Rightarrow> turn_no set" where
  "rewound_turns events =
     set (List.map_filter (\<lambda>l. case le_event l of
         TurnStart t \<Rightarrow> if taken_back events (le_seq l) then Some t else None
       | _ \<Rightarrow> None) events)"

section \<open>Pinned sources\<close>

definition apply_retention :: "logged_event \<Rightarrow> (seq_no, nat \<times> string) btree \<Rightarrow> (seq_no, nat \<times> string) btree" where
  "apply_retention l active =
     (case le_event l of
        ContextRetention _ source enabled bytes sha \<Rightarrow>
          if enabled then bt_insert source (bytes, sha) active else bt_remove source active
      | _ \<Rightarrow> active)"

definition active_sources :: "logged_event list \<Rightarrow> (seq_no, nat \<times> string) btree" where
  "active_sources events = fold apply_retention (retained_events events) []"

definition is_pinned :: "logged_event list \<Rightarrow> seq_no \<Rightarrow> bool" where
  "is_pinned events s \<longleftrightarrow> map_of (active_sources events) s \<noteq> None"

definition visible_turn_of :: "session_event \<Rightarrow> turn_no option" where
  "visible_turn_of e =
     (case e of
        TurnStart t \<Rightarrow> Some t
      | UserMessage t _ _ \<Rightarrow> Some t
      | AssistantMessage t _ _ _ _ _ _ \<Rightarrow> Some t
      | ToolResultLogged t _ _ _ _ _ \<Rightarrow> Some t
      | PartialReply t _ _ _ \<Rightarrow> Some t
      | Interrupted t _ \<Rightarrow> Some t
      | Injected t _ origin \<Rightarrow> if origin \<in> {Memory, CompactionSummary} then None else Some t
      | _ \<Rightarrow> None)"

definition visible_turns :: "logged_event list \<Rightarrow> turn_no set" where
  "visible_turns events =
     set (List.map_filter (\<lambda>l.
         if \<not> is_pinned events (le_seq l) \<and> in_ranges (folded_ranges events) (le_seq l) then None
         else (case visible_turn_of (le_event l) of
                 Some t \<Rightarrow> if t \<notin> undone_by_interruption events then Some t else None
               | None \<Rightarrow> None))
       (filter (\<lambda>l. \<not> taken_back events (le_seq l)) events))"

definition user_text_at :: "seq_no \<Rightarrow> logged_event list \<Rightarrow> string option" where
  "user_text_at s events =
     (case List.map_filter (\<lambda>l. case le_event l of
         UserMessage _ t _ \<Rightarrow> if le_seq l = s then Some t else None | _ \<Rightarrow> None) events of
        [] \<Rightarrow> None | t # _ \<Rightarrow> Some t)"

definition missing_error :: "seq_no \<Rightarrow> string" where
  "missing_error s = ''Task specification #'' @ show_nat s @ '' is missing or withdrawn. Unpin it before continuing.''"

definition integrity_error :: "seq_no \<Rightarrow> string" where
  "integrity_error s =
     ''Task specification #'' @ show_nat s @ '' failed integrity validation. Unpin or restore it before continuing.''"

definition incomplete_error :: "seq_no \<Rightarrow> string" where
  "incomplete_error s =
     ''Task specification #'' @ show_nat s @ '' is incomplete in the model request. Unpin or restore it before continuing.''"

fun validate_sources ::
  "(string \<Rightarrow> string) \<Rightarrow> logged_event list \<Rightarrow> (seq_no, nat \<times> string) btree \<Rightarrow> (seq_no, string) btree
   \<Rightarrow> string + (seq_no, string) btree" where
  "validate_sources digest events [] texts = Inr texts"
| "validate_sources digest events ((s, bytes, sha) # rest) texts =
     (case user_text_at s (retained_events events) of
        None \<Rightarrow> Inl (missing_error s)
      | Some t \<Rightarrow>
          if length t \<noteq> bytes \<or> digest t \<noteq> sha then Inl (integrity_error s)
          else validate_sources digest events rest (bt_insert s t texts))"

definition validate :: "(string \<Rightarrow> string) \<Rightarrow> logged_event list \<Rightarrow> string + (seq_no, string) btree" where
  "validate digest events = validate_sources digest events (active_sources events) []"

definition USIZE_MAX :: nat where
  "USIZE_MAX = 2 ^ 64 - 1"

definition carries :: "string \<Rightarrow> message \<Rightarrow> bool" where
  "carries t m \<longleftrightarrow> m_role m = User \<and> internal_origin m = Some PINNED_ORIGIN \<and> m_text m = FRAMING @ t"

fun match_sources ::
  "message list \<Rightarrow> (seq_no, string) btree \<Rightarrow> nat \<Rightarrow> nat set \<Rightarrow> string + nat" where
  "match_sources messages [] bytes matched = Inr bytes"
| "match_sources messages ((s, t) # rest) bytes matched =
     (let bytes = min USIZE_MAX (bytes + length t) in
      case find (\<lambda>i. i \<notin> matched \<and> carries t (messages ! i)) [0..<length messages] of
        None \<Rightarrow> Inl (incomplete_error s)
      | Some i \<Rightarrow> match_sources messages rest bytes (insert i matched))"

definition validate_request :: "(string \<Rightarrow> string) \<Rightarrow> logged_event list \<Rightarrow> message list \<Rightarrow> string + nat" where
  "validate_request digest events messages =
     (case validate digest events of
        Inl e \<Rightarrow> Inl e
      | Inr texts \<Rightarrow> match_sources messages texts 0 {})"

section \<open>The decision in force\<close>

definition retention_decision :: "logged_event \<Rightarrow> (seq_no \<times> (nat \<times> string) option) option" where
  "retention_decision l =
     (case le_event l of
        ContextRetention _ source enabled bytes sha \<Rightarrow> Some (source, if enabled then Some (bytes, sha) else None)
      | _ \<Rightarrow> None)"

definition retention_decisions :: "logged_event list \<Rightarrow> (seq_no \<times> (nat \<times> string) option) list" where
  "retention_decisions events = List.map_filter retention_decision (retained_events events)"

lemma apply_retention_decide:
  "apply_retention l m = (case retention_decision l of Some d \<Rightarrow> bt.decide d m | None \<Rightarrow> m)"
  by (auto simp: apply_retention_def retention_decision_def bt.decide_def split: session_event.splits)

lemma fold_apply_retention:
  "fold apply_retention ls m = fold bt.decide (List.map_filter retention_decision ls) m"
  by (induction ls arbitrary: m)
    (auto simp: apply_retention_decide List.map_filter_simps split: option.splits)

lemma active_sources_fold: "active_sources events = fold bt.decide (retention_decisions events) []"
  by (simp add: active_sources_def retention_decisions_def fold_apply_retention)

lemma bt_invar_active_sources: "bt_invar (active_sources events)"
  by (simp add: active_sources_fold bt.invar_fold_decide)

lemma lookup_active_sources:
  "map_of (active_sources events) s =
     (case map_of (rev (retention_decisions events)) s of Some d \<Rightarrow> d | None \<Rightarrow> None)"
  using bt.last_decision_stands [of "[]" "retention_decisions events" s]
  by (simp add: active_sources_fold split: option.splits)

section \<open>Validation\<close>

definition source_ok :: "(string \<Rightarrow> string) \<Rightarrow> logged_event list \<Rightarrow> seq_no \<times> nat \<times> string \<Rightarrow> bool" where
  "source_ok digest events src \<longleftrightarrow>
     (case src of (s, bytes, sha) \<Rightarrow>
        case user_text_at s (retained_events events) of
          Some t \<Rightarrow> length t = bytes \<and> digest t = sha
        | None \<Rightarrow> False)"

definition source_text :: "logged_event list \<Rightarrow> seq_no \<times> nat \<times> string \<Rightarrow> seq_no \<times> string" where
  "source_text events src = (fst src, the (user_text_at (fst src) (retained_events events)))"

lemma validate_sources_Inr:
  "sorted_wrt (<) (map fst texts @ map fst srcs) \<Longrightarrow>
   validate_sources digest events srcs texts = Inr texts' \<longleftrightarrow>
     list_all (source_ok digest events) srcs \<and> texts' = texts @ map (source_text events) srcs"
proof (induction digest events srcs texts rule: validate_sources.induct)
  case (2 digest events s bytes sha rest texts)
  have ins: "bt_insert s t texts = texts @ [(s, t)]" for t
    using "2.prems" by (intro bt_insert_last) (auto simp: sorted_wrt_append)
  show ?case
  proof (cases "source_ok digest events (s, bytes, sha)")
    case True
    then obtain t where t: "user_text_at s (retained_events events) = Some t" "length t = bytes" "digest t = sha"
      by (auto simp: source_ok_def split: option.splits)
    then show ?thesis
      using "2.IH" [of t] "2.prems" True by (auto simp: ins source_text_def)
  next
    case False
    then show ?thesis by (auto simp: source_ok_def split: option.splits)
  qed
qed auto

lemma validate_Inr:
  "validate digest events = Inr texts \<longleftrightarrow>
     list_all (source_ok digest events) (active_sources events)
     \<and> texts = map (source_text events) (active_sources events)"
  using validate_sources_Inr [of "[]" "active_sources events" digest events texts]
    bt.sorted_entries [OF bt_invar_active_sources]
  by (auto simp: validate_def)

subsection \<open>Matching the request\<close>

definition pinned_text :: "message \<Rightarrow> string option" where
  "pinned_text m =
     (if m_role m = User \<and> internal_origin m = Some PINNED_ORIGIN then strip_prefix FRAMING (m_text m) else None)"

definition pinned_texts :: "message list \<Rightarrow> string list" where
  "pinned_texts ms = List.map_filter pinned_text ms"

lemma carries_iff: "carries t m \<longleftrightarrow> pinned_text m = Some t"
  by (auto simp: carries_def pinned_text_def strip_prefix_Some)

definition available :: "message list \<Rightarrow> nat set \<Rightarrow> string list" where
  "available ms M = List.map_filter (\<lambda>i. pinned_text (ms ! i)) (filter (\<lambda>i. i \<notin> M) [0..<length ms])"

lemma map_filter_append: "List.map_filter f (xs @ ys) = List.map_filter f xs @ List.map_filter f ys"
  by (simp add: map_filter_def)

lemma available_all: "available ms {} = pinned_texts ms"
proof -
  have "List.map_filter pinned_text (map ((!) ms) [0..<length ms]) = pinned_texts ms"
    by (simp add: map_nth pinned_texts_def)
  then show ?thesis by (simp add: available_def map_filter_def filter_map comp_def)
qed

lemma in_available: "t \<in> set (available ms M) \<longleftrightarrow> (\<exists>i<length ms. i \<notin> M \<and> pinned_text (ms ! i) = Some t)"
  by (force simp: available_def map_filter_def)

lemma available_take:
  assumes "i < length ms" "i \<notin> M" "pinned_text (ms ! i) = Some t"
  shows "mset (available ms M) = add_mset t (mset (available ms (insert i M)))"
proof -
  have "[0..<length ms] = [0..<i] @ i # [Suc i..<length ms]"
    using assms(1) by (metis le_add_same_cancel1 less_imp_le_nat upt_add_eq_append upt_conv_Cons
        zero_le le_add_diff_inverse)
  moreover have "filter (\<lambda>j. j \<notin> insert i M) [0..<i] = filter (\<lambda>j. j \<notin> M) [0..<i]"
    "filter (\<lambda>j. j \<notin> insert i M) [Suc i..<length ms] = filter (\<lambda>j. j \<notin> M) [Suc i..<length ms]"
    by (auto intro: filter_cong)
  ultimately show ?thesis
    using assms by (simp add: available_def map_filter_append List.map_filter_simps)
qed

lemma match_sources_iff:
  "(\<exists>n. match_sources ms srcs b M = Inr n) \<longleftrightarrow> mset (map snd srcs) \<subseteq># mset (available ms M)"
proof (induction ms srcs b M rule: match_sources.induct)
  case (2 ms s t rest b M)
  let ?P = "\<lambda>i. i \<notin> M \<and> carries t (ms ! i)"
  show ?case
  proof (cases "find ?P [0..<length ms]")
    case None
    then have "t \<notin># mset (available ms M)"
      by (auto simp: find_None_iff in_available carries_iff)
    then have "\<not> mset (map snd ((s, t) # rest)) \<subseteq># mset (available ms M)"
      by (metis insert_subset_eq_iff list.simps(9) mset.simps(2) snd_conv)
    with None show ?thesis by simp
  next
    case (Some i)
    then have i: "i < length ms" "i \<notin> M" "pinned_text (ms ! i) = Some t"
      by (auto simp: find_Some_iff carries_iff)
    show ?thesis
      using Some "2.IH" [OF refl Some] available_take [OF i] by simp
  qed
qed simp

lemma match_sources_bytes:
  "match_sources ms srcs b M = Inr n \<Longrightarrow> b \<le> USIZE_MAX \<Longrightarrow>
   n = min USIZE_MAX (b + sum_list (map (length \<circ> snd) srcs))"
proof (induction ms srcs b M rule: match_sources.induct)
  case (2 ms s t rest b M)
  have "min U (min U (b + l) + r) = min U (b + (l + r))" for U l r :: nat by linarith
  with 2 show ?case by (auto simp: Let_def split: option.splits)
qed auto

lemma validate_request_Inr:
  "(\<exists>n. validate_request digest events messages = Inr n) \<longleftrightarrow>
     list_all (source_ok digest events) (active_sources events)
     \<and> mset (map (snd \<circ> source_text events) (active_sources events)) \<subseteq># mset (pinned_texts messages)"
proof (cases "validate digest events")
  case (Inl e)
  then have "\<not> list_all (source_ok digest events) (active_sources events)"
    using validate_Inr [of digest events] by fastforce
  with Inl show ?thesis by (simp add: validate_request_def)
next
  case (Inr texts)
  then show ?thesis
    using validate_Inr [of digest events texts] match_sources_iff [of messages texts 0 "{}"]
    by (simp add: validate_request_def available_all)
qed

end
