(* ===== verification/Projection.thy ===== *)
theory Projection
  imports Retention Conversation
begin

text \<open>
  The projection of a session log to the messages a model sees
  (\<open>Projection\<close> and \<open>project\<close> of \<open>crates/atomcode-kernel/src/session.rs\<close>). \<open>Projection\<close> is a
  small state machine that keeps the tool results of one batch together: images and messages that
  arrive while calls are open are held back. \<open>project\<close> first collects what later facts say about
  earlier ones (folds, stubs, rewrites, undone turns, pinned sources), then lays the events down
  in log order.
\<close>

datatype provenance = Event seq_no | Summary seq_no | Derived seq_no

fun provenance_seq :: "provenance \<Rightarrow> seq_no" where
  "provenance_seq (Event s) = s"
| "provenance_seq (Summary s) = s"
| "provenance_seq (Derived s) = s"

record traced_message =
  tm_message :: message
  tm_source :: provenance

abbreviation traced :: "message \<Rightarrow> provenance \<Rightarrow> traced_message" where
  "traced m s \<equiv> \<lparr>tm_message = m, tm_source = s\<rparr>"

section \<open>The state machine\<close>

record projection =
  p_messages :: "traced_message list"
  p_pending :: "image_content list"
  p_pending_from :: seq_no
  p_awaiting :: "string list"
  p_held :: "traced_message list"

definition projection_new :: projection where
  "projection_new = \<lparr>p_messages = [], p_pending = [], p_pending_from = 0, p_awaiting = [], p_held = []\<rparr>"

definition flush_images :: "projection \<Rightarrow> projection" where
  "flush_images p =
     (if p_pending p = [] then p
      else (let carrier = (user_with_images [] (p_pending p))\<lparr>synthetic := True\<rparr> in
            p\<lparr>p_pending := [], p_messages := p_messages p @ [traced carrier (Derived (p_pending_from p))]\<rparr>))"

definition release :: "projection \<Rightarrow> projection" where
  "release p = (let p = flush_images p in p\<lparr>p_messages := p_messages p @ p_held p, p_held := []\<rparr>)"

definition take_images :: "projection \<Rightarrow> seq_no \<Rightarrow> image_content list \<Rightarrow> projection" where
  "take_images p from' imgs =
     (if imgs = [] then p
      else (let p = (if p_pending p = [] then p\<lparr>p_pending_from := from'\<rparr> else p) in
            p\<lparr>p_pending := p_pending p @ imgs\<rparr>))"

definition proj_push :: "projection \<Rightarrow> traced_message \<Rightarrow> projection" where
  "proj_push p tm =
     (let m = tm_message tm in
      case m_role m of
        Tool \<Rightarrow>
          (let p = p\<lparr>p_messages := p_messages p @ [tm]\<rparr> in
           case tool_call_id m of
             Some i \<Rightarrow>
               (let was_open = (p_awaiting p \<noteq> []);
                    p = p\<lparr>p_awaiting := filter (\<lambda>w. w \<noteq> i) (p_awaiting p)\<rparr>
                in if was_open \<and> p_awaiting p = [] then release p else p)
           | None \<Rightarrow> p)
      | Assistant \<Rightarrow>
          (let p = release (p\<lparr>p_awaiting := []\<rparr>)
           in p\<lparr>p_awaiting := map tc_id (tool_calls m), p_messages := p_messages p @ [tm]\<rparr>)
      | _ \<Rightarrow>
          (if p_awaiting p \<noteq> [] then p\<lparr>p_held := p_held p @ [tm]\<rparr>
           else (let p = flush_images p in p\<lparr>p_messages := p_messages p @ [tm]\<rparr>)))"

definition finish :: "projection \<Rightarrow> traced_message list" where
  "finish p = p_messages (release p)"

section \<open>What later facts say\<close>

definition standing :: "logged_event list \<Rightarrow> logged_event list" where
  "standing events = filter (\<lambda>l. \<not> taken_back events (le_seq l)) events"

definition last_summary :: "logged_event list \<Rightarrow> (seq_no \<times> string) option" where
  "last_summary events =
     foldl (\<lambda>acc l. case le_event l of Compacted _ _ s _ \<Rightarrow> Some (le_seq l, s) | _ \<Rightarrow> acc)
       None (standing events)"

definition stubbed_through :: "logged_event list \<Rightarrow> seq_no" where
  "stubbed_through events =
     foldl (\<lambda>acc l. case le_event l of ToolResultsStubbed _ through \<Rightarrow> max through acc | _ \<Rightarrow> acc)
       0 (standing events)"

definition rewritten_texts :: "logged_event list \<Rightarrow> seq_no \<rightharpoonup> string" where
  "rewritten_texts events =
     foldl (\<lambda>acc l. case le_event l of
         MessagesRewritten _ texts \<Rightarrow> foldl (\<lambda>acc r. acc(rt_seq r \<mapsto> rt_text r)) acc texts
       | _ \<Rightarrow> acc) Map.empty (standing events)"

definition tool_names :: "logged_event list \<Rightarrow> string \<rightharpoonup> string" where
  "tool_names events =
     foldl (\<lambda>acc l. case le_event l of
         AssistantMessage _ _ _ _ calls _ _ \<Rightarrow> foldl (\<lambda>acc c. acc(tc_id c \<mapsto> tc_name c)) acc calls
       | _ \<Rightarrow> acc) Map.empty events"

definition is_memory :: "session_event \<Rightarrow> bool" where
  "is_memory e \<longleftrightarrow> (case e of Injected _ _ Memory \<Rightarrow> True | _ \<Rightarrow> False)"

definition latest_memory :: "logged_event list \<Rightarrow> seq_no option" where
  "latest_memory events =
     foldl (\<lambda>acc s. case acc of None \<Rightarrow> Some s | Some m \<Rightarrow> Some (max m s)) None
       (map le_seq (filter (\<lambda>l. is_memory (le_event l)) events))"

definition answered_calls :: "logged_event list \<Rightarrow> string set" where
  "answered_calls events =
     set (List.map_filter (\<lambda>l. case le_event l of ToolResultLogged _ _ i _ _ _ \<Rightarrow> Some i | _ \<Rightarrow> None) events)"

definition calls_of_turn :: "turn_no \<Rightarrow> logged_event list \<Rightarrow> tool_call list" where
  "calls_of_turn t events =
     concat (map (\<lambda>l. case le_event l of AssistantMessage _ _ _ _ calls _ _ \<Rightarrow> calls | _ \<Rightarrow> [])
       (filter (\<lambda>l. turn (le_event l) = t) events))"

section \<open>One event\<close>

fun projection_session_wide :: "session_event \<Rightarrow> bool" where
  "projection_session_wide (Interrupted _ _) = True"
| "projection_session_wide (Injected _ _ origin) =
     (case origin of Memory \<Rightarrow> True | CompactionSummary \<Rightarrow> True | PersonToMember _ \<Rightarrow> True
        | TeamNote _ \<Rightarrow> True | _ \<Rightarrow> False)"
| "projection_session_wide _ = False"

fun stands_for_the_session :: "session_event \<Rightarrow> bool" where
  "stands_for_the_session (Injected _ _ origin) = (origin \<in> {Memory, CompactionSummary})"
| "stands_for_the_session _ = False"

text \<open>The filter of the main loop: a fold hides an event unless it is memory or pinned.\<close>

definition unfolded :: "logged_event list \<Rightarrow> logged_event \<Rightarrow> bool" where
  "unfolded events l \<longleftrightarrow>
     (if is_memory (le_event l) \<and> Some (le_seq l) \<noteq> latest_memory events then False
      else is_memory (le_event l) \<or> is_pinned events (le_seq l)
           \<or> \<not> in_ranges (folded_ranges events) (le_seq l))"

text \<open>The two \<open>continue\<close>s of the main loop.\<close>

definition kept :: "logged_event list \<Rightarrow> logged_event \<Rightarrow> bool" where
  "kept events l \<longleftrightarrow>
     \<not> (\<not> projection_session_wide (le_event l) \<and> turn (le_event l) \<in> undone_by_interruption events)
     \<and> \<not> (\<not> stands_for_the_session (le_event l) \<and> taken_back events (le_seq l))"

definition injected_message :: "string \<Rightarrow> injection_origin \<Rightarrow> message" where
  "injected_message t origin =
     (case origin of
        Continuation \<Rightarrow> message_user t
      | InternalNudge \<Rightarrow> message_user t
      | Peer from' _ \<Rightarrow>
          message_user (''[message from '' @ from' @ '' '' @ em_dash
            @ '' another agent'' @ [CHR 0x27] @ ''s report, not the user]'' @ [newline] @ t)
      | Reminder \<Rightarrow> message_user t
      | Skill _ \<Rightarrow> message_user t
      | PersonToMember m \<Rightarrow>
          message_user (''[the person said this directly to your team member `'' @ m
            @ ''`, which is acting on it '' @ em_dash
            @ '' a correction or an addition, not an instruction to you; do not override it when you coordinate]''
            @ [newline] @ t)
      | TeamNote m \<Rightarrow>
          message_user (''[about your team member `'' @ m @ ''` '' @ em_dash
            @ '' for your information; not the user, and nothing you are asked to do now]''
            @ [newline] @ t)
      | CompactionSummary \<Rightarrow> message_system t
      | Memory \<Rightarrow> message_system t)\<lparr>synthetic := True\<rparr>"

definition user_event_message ::
  "logged_event list \<Rightarrow> bool \<Rightarrow> seq_no \<Rightarrow> string \<Rightarrow> image_content list \<Rightarrow> message" where
  "user_event_message events with_meta s t imgs =
     (let pinned = is_pinned events s;
          t = (if pinned then t else (case rewritten_texts events s of Some r \<Rightarrow> r | None \<Rightarrow> t));
          m = (if imgs = [] then message_user t else user_with_images t imgs)
      in if pinned then
           (if with_meta then m\<lparr>internal_origin := Some ORIGINAL_ORIGIN\<rparr>
            else m\<lparr>internal_origin := Some PINNED_ORIGIN, m_text := FRAMING @ m_text m\<rparr>)
         else if list_ex (\<lambda>(from', _). 0 < from' \<and> s \<le> from') (folded_ranges events) then
           (if with_meta then m\<lparr>internal_origin := Some COMPACTION_RETAINED_ORIGIN\<rparr>
            else m\<lparr>internal_origin := Some COMPACTION_RETAINED_MODEL_ORIGIN,
                   m_text := COMPACTION_RETAINED_FRAMING @ m_text m\<rparr>)
         else m)"

definition shown_result :: "logged_event list \<Rightarrow> seq_no \<Rightarrow> string \<Rightarrow> string \<Rightarrow> bool \<Rightarrow> string" where
  "shown_result events s call_id content err =
     (case rewritten_texts events s of
        Some t \<Rightarrow> t
      | None \<Rightarrow>
          if s \<le> stubbed_through events then
            build_compact_stub (case tool_names events call_id of Some n \<Rightarrow> n | None \<Rightarrow> ''tool'') content (\<not> err)
          else content)"

text \<open>The messages an event is laid down as, in order.\<close>

definition event_messages :: "logged_event list \<Rightarrow> bool \<Rightarrow> logged_event \<Rightarrow> traced_message list" where
  "event_messages events with_meta l =
     (let s = le_seq l; text_of = (\<lambda>own. case rewritten_texts events s of Some r \<Rightarrow> r | None \<Rightarrow> own) in
      case le_event l of
        Interrupted t undone \<Rightarrow>
          (if undone then []
           else map (\<lambda>c. traced (tool_result (tc_id c) ''(cancelled)'' True) (Derived s))
             (filter (\<lambda>c. tc_id c \<notin> answered_calls events) (calls_of_turn t events)))
          @ [traced user_interruption (Derived s)]
      | UserMessage _ t imgs \<Rightarrow> [traced (user_event_message events with_meta s t imgs) (Event s)]
      | Injected _ t origin \<Rightarrow>
          (if origin = CompactionSummary \<and> s < (case last_summary events of Some (at', _) \<Rightarrow> at' | None \<Rightarrow> 0) then []
           else [traced (injected_message t origin) (if origin = CompactionSummary then Summary s else Derived s)])
      | AssistantMessage _ _ t reasoning calls blocks meta \<Rightarrow>
          (let m = message_assistant (text_of t) calls;
               m = (if reasoning \<noteq> [] then m\<lparr>m_reasoning := Some reasoning\<rparr> else m);
               m = m\<lparr>reasoning_blocks := blocks\<rparr>;
               m = (if with_meta then m\<lparr>m_meta := meta\<rparr> else m)
           in [traced m (Event s)])
      | PartialReply _ _ t _ \<Rightarrow>
          (if t \<noteq> [] then [traced (message_assistant (text_of t) []) (Event s)] else [])
      | ToolResultLogged _ _ call_id content err _ \<Rightarrow>
          [traced (tool_result call_id (shown_result events s call_id content err) err) (Event s)]
      | _ \<Rightarrow> [])"

definition event_images :: "session_event \<Rightarrow> image_content list" where
  "event_images e = (case e of ToolResultLogged _ _ _ _ _ imgs \<Rightarrow> imgs | _ \<Rightarrow> [])"

definition project_event :: "logged_event list \<Rightarrow> bool \<Rightarrow> projection \<Rightarrow> logged_event \<Rightarrow> projection" where
  "project_event events with_meta p l =
     (if \<not> kept events l then p
      else foldl proj_push (take_images p (le_seq l) (event_images (le_event l)))
             (event_messages events with_meta l))"

definition project_start :: "logged_event list \<Rightarrow> projection" where
  "project_start events =
     (case last_summary events of
        Some (s, t) \<Rightarrow> proj_push projection_new (traced ((message_system t)\<lparr>synthetic := True\<rparr>) (Summary s))
      | None \<Rightarrow> projection_new)"

definition project :: "logged_event list \<Rightarrow> bool \<Rightarrow> traced_message list" where
  "project events with_meta =
     finish (foldl (project_event events with_meta) (project_start events) (filter (unfolded events) events))"

definition derive_messages :: "logged_event list \<Rightarrow> message list" where
  "derive_messages events = map tm_message (project events False)"

definition derive_traced :: "logged_event list \<Rightarrow> traced_message list" where
  "derive_traced events = project events False"

definition derive_messages_with_meta :: "logged_event list \<Rightarrow> message list" where
  "derive_messages_with_meta events = map tm_message (project events True)"

end
