(* ===== verification/Projection_Laws.thy ===== *)
theory Projection_Laws
  imports Projection
begin

text \<open>
  What the projection guarantees. Nothing a rewind or an undone interruption took back reaches the
  model, and every message is traced to a fact of the log; the results of one batch of tool calls
  stand together right after the message that asked for them; the two readings (for the model,
  and with its metadata for storage) agree message by message; facts that are not model-visible
  change nothing; a pinned text is in the request in full.
\<close>

abbreviation carrier :: "image_content list \<Rightarrow> seq_no \<Rightarrow> traced_message" where
  "carrier imgs s \<equiv> traced ((user_with_images [] imgs)\<lparr>synthetic := True\<rparr>) (Derived s)"

lemma flush_images_eq [project_simps]:
  "flush_images p = p\<lparr>p_pending := [],
     p_messages := p_messages p @ (if p_pending p = [] then [] else [carrier (p_pending p) (p_pending_from p)])\<rparr>"
  by (simp add: flush_images_def Let_def)

lemma release_eq [project_simps]:
  "release p = p\<lparr>p_pending := [], p_held := [],
     p_messages := p_messages p @ (if p_pending p = [] then [] else [carrier (p_pending p) (p_pending_from p)])
       @ p_held p\<rparr>"
  by (simp add: release_def Let_def project_simps)

lemma proj_push_tool:
  "m_role (tm_message tm) = Tool \<Longrightarrow> proj_push p tm =
     (let aw = (case tool_call_id (tm_message tm) of Some i \<Rightarrow> filter (\<lambda>w. w \<noteq> i) (p_awaiting p) | None \<Rightarrow> p_awaiting p);
          q = p\<lparr>p_messages := p_messages p @ [tm], p_awaiting := aw\<rparr>
      in if p_awaiting p \<noteq> [] \<and> aw = [] then release q else q)"
  by (auto simp: proj_push_def Let_def split: option.splits)

lemma proj_push_assistant:
  "m_role (tm_message tm) = Assistant \<Longrightarrow> proj_push p tm =
     (let q = release p in
      q\<lparr>p_awaiting := map tc_id (tool_calls (tm_message tm)), p_messages := p_messages q @ [tm]\<rparr>)"
  by (simp add: proj_push_def Let_def release_eq)

lemma proj_push_other:
  "m_role (tm_message tm) \<notin> {Tool, Assistant} \<Longrightarrow> proj_push p tm =
     (if p_awaiting p \<noteq> [] then p\<lparr>p_held := p_held p @ [tm]\<rparr>
      else (let q = flush_images p in q\<lparr>p_messages := p_messages q @ [tm]\<rparr>))"
  by (cases "m_role (tm_message tm)") (auto simp: proj_push_def Let_def)

lemmas proj_push_cases = proj_push_tool proj_push_assistant proj_push_other

lemma role_trichotomy:
  obtains "m_role m = Tool" | "m_role m = Assistant" | "m_role m \<notin> {Tool, Assistant}"
  by blast

section \<open>Where a message comes from\<close>

definition all_satisfy :: "(traced_message \<Rightarrow> bool) \<Rightarrow> projection \<Rightarrow> bool" where
  "all_satisfy Q p \<longleftrightarrow>
     (\<forall>tm\<in>set (p_messages p) \<union> set (p_held p). Q tm)
     \<and> (p_pending p \<noteq> [] \<longrightarrow> (\<forall>imgs. Q (carrier imgs (p_pending_from p))))"

lemma all_satisfy_push: "all_satisfy Q p \<Longrightarrow> Q tm \<Longrightarrow> all_satisfy Q (proj_push p tm)"
  by (rule role_trichotomy [of "tm_message tm"])
    (auto simp: all_satisfy_def proj_push_cases project_simps Let_def)

lemma all_satisfy_foldl: "all_satisfy Q p \<Longrightarrow> (\<forall>tm\<in>set tms. Q tm) \<Longrightarrow> all_satisfy Q (foldl proj_push p tms)"
  by (induction tms arbitrary: p) (auto simp: all_satisfy_push)

lemma all_satisfy_take_images:
  "all_satisfy Q p \<Longrightarrow> (imgs \<noteq> [] \<longrightarrow> (\<forall>is. Q (carrier is s))) \<Longrightarrow> all_satisfy Q (take_images p s imgs)"
  by (auto simp: all_satisfy_def take_images_def Let_def)

definition laid_down :: "logged_event list \<Rightarrow> logged_event \<Rightarrow> bool" where
  "laid_down events l \<longleftrightarrow> l \<in> set events \<and> unfolded events l \<and> kept events l"

lemma project_all:
  assumes "\<And>s t. last_summary events = Some (s, t) \<Longrightarrow> Q (traced ((message_system t)\<lparr>synthetic := True\<rparr>) (Summary s))"
    and "\<And>l tm. laid_down events l \<Longrightarrow> tm \<in> set (event_messages events with_meta l) \<Longrightarrow> Q tm"
    and "\<And>l imgs. laid_down events l \<Longrightarrow> event_images (le_event l) \<noteq> [] \<Longrightarrow> Q (carrier imgs (le_seq l))"
    and "tm \<in> set (project events with_meta)"
  shows "Q tm"
proof -
  have new: "all_satisfy Q projection_new" by (simp add: all_satisfy_def projection_new_def)
  have start: "all_satisfy Q (project_start events)"
    using assms(1) new by (auto simp: project_start_def all_satisfy_push split: option.splits)
  have fold: "all_satisfy Q (foldl (project_event events with_meta) p ls)"
    if "all_satisfy Q p" "\<forall>l\<in>set ls. l \<in> set events \<and> unfolded events l" for p ls
    using that
  proof (induction ls arbitrary: p)
    case (Cons l ls)
    have "all_satisfy Q (project_event events with_meta p l)"
    proof (cases "kept events l")
      case True
      with Cons.prems have "laid_down events l" by (simp add: laid_down_def)
      with True show ?thesis
        using Cons.prems(1) assms(2,3) unfolding project_event_def
        by (auto intro!: all_satisfy_foldl all_satisfy_take_images)
    qed (use Cons.prems in \<open>simp add: project_event_def\<close>)
    with Cons show ?case by simp
  qed simp
  have "all_satisfy Q (foldl (project_event events with_meta) (project_start events) (filter (unfolded events) events))"
    using start by (intro fold) auto
  with assms(4) show ?thesis
    by (auto simp: project_def finish_def release_eq all_satisfy_def split: if_splits)
qed

text \<open>The events that are laid down as their own text.\<close>

fun speaks :: "session_event \<Rightarrow> bool" where
  "speaks (UserMessage _ _ _) = True"
| "speaks (AssistantMessage _ _ _ _ _ _ _) = True"
| "speaks (ToolResultLogged _ _ _ _ _ _) = True"
| "speaks (PartialReply _ _ _ _) = True"
| "speaks _ = False"

lemma event_messages_Event:
  assumes "tm \<in> set (event_messages events with_meta l)" "tm_source tm = Event s"
  shows "s = le_seq l \<and> speaks (le_event l)"
  using assms by (cases "le_event l") (auto simp: event_messages_def Let_def split: if_splits)

lemma event_messages_seq:
  "tm \<in> set (event_messages events with_meta l) \<Longrightarrow> provenance_seq (tm_source tm) = le_seq l"
  by (cases "le_event l") (auto simp: event_messages_def Let_def split: if_splits)

lemma last_summary_event:
  assumes "last_summary events = Some (s, t)"
  shows "\<exists>l\<in>set events. le_seq l = s \<and> \<not> taken_back events s \<and> (\<exists>tn th fr. le_event l = Compacted tn th t fr)"
proof -
  have "\<exists>l\<in>set ls. le_seq l = s \<and> (\<exists>tn th fr. le_event l = Compacted tn th t fr)"
    if "foldl (\<lambda>acc l. case le_event l of Compacted _ _ s _ \<Rightarrow> Some (le_seq l, s) | _ \<Rightarrow> acc) acc ls = Some (s, t)"
      "acc \<noteq> Some (s, t)" for acc ls
    using that
  proof (induction ls arbitrary: acc)
    case (Cons l ls)
    show ?case
    proof (cases "\<exists>tn th fr. le_event l = Compacted tn th t fr \<and> le_seq l = s")
      case False
      then have "(case le_event l of Compacted _ _ s _ \<Rightarrow> Some (le_seq l, s) | _ \<Rightarrow> acc) \<noteq> Some (s, t)"
        using Cons.prems(2) by (auto split: session_event.splits)
      with Cons show ?thesis by auto
    qed auto
  qed simp
  from this [of None "standing events"] assms show ?thesis
    by (auto simp: last_summary_def standing_def)
qed

lemma project_Event:
  assumes "tm \<in> set (project events with_meta)" "tm_source tm = Event s"
  shows "\<exists>l\<in>set events. le_seq l = s \<and> speaks (le_event l) \<and> \<not> taken_back events s
    \<and> turn (le_event l) \<notin> undone_by_interruption events
    \<and> (is_pinned events s \<or> \<not> in_ranges (folded_ranges events) s)"
proof -
  have speak: "\<not> projection_session_wide e \<and> \<not> stands_for_the_session e \<and> \<not> is_memory e" if "speaks e" for e
    using that by (cases e) (auto simp: is_memory_def)
  have "tm_source tm = Event s \<longrightarrow>
      (\<exists>l. laid_down events l \<and> le_seq l = s \<and> speaks (le_event l))"
    by (rule project_all [OF _ _ _ assms(1)]) (auto dest: event_messages_Event)
  then obtain l where l: "laid_down events l" "le_seq l = s" "speaks (le_event l)"
    using assms(2) by blast
  with speak [OF l(3)] show ?thesis
    by (intro bexI [of _ l]) (auto simp: laid_down_def kept_def unfolded_def)
qed

lemma project_seq:
  assumes "tm \<in> set (project events with_meta)"
  shows "\<exists>l\<in>set events. le_seq l = provenance_seq (tm_source tm)
    \<and> (taken_back events (le_seq l) \<longrightarrow> stands_for_the_session (le_event l))"
  by (rule project_all [OF _ _ _ assms])
    (auto dest!: last_summary_event event_messages_seq simp: laid_down_def kept_def)

lemma project_visible_turn:
  assumes "tm \<in> set (project events with_meta)" "tm_source tm = Event s"
  shows "\<exists>l\<in>set events. le_seq l = s \<and> turn (le_event l) \<in> visible_turns events"
proof -
  from project_Event [OF assms] obtain l where l: "l \<in> set events" "le_seq l = s" "speaks (le_event l)"
    "\<not> taken_back events s" "turn (le_event l) \<notin> undone_by_interruption events"
    "is_pinned events s \<or> \<not> in_ranges (folded_ranges events) s" by blast
  then have "visible_turn_of (le_event l) = Some (turn (le_event l))"
    by (cases "le_event l") (auto simp: visible_turn_of_def)
  with l have "turn (le_event l) \<in> visible_turns events"
    by (force simp: visible_turns_def map_filter_def image_iff)
  with l show ?thesis by blast
qed

section \<open>The results of a batch stand together\<close>

text \<open>
  In the messages after an assistant message and before the next one, a tool message that answers
  one of its calls is in the run of tool messages right behind it, or repeats one that is.
\<close>

definition tool_ids :: "message list \<Rightarrow> string set" where
  "tool_ids ms = {i. \<exists>m\<in>set ms. is_tool m \<and> tool_call_id m = Some i}"

abbreviation is_assistant :: "message \<Rightarrow> bool" where
  "is_assistant m \<equiv> m_role m = Assistant"

definition batch_together :: "message \<Rightarrow> message list \<Rightarrow> bool" where
  "batch_together m ms \<longleftrightarrow>
     tc_id ` set (tool_calls m) \<inter> tool_ids (takeWhile (\<lambda>x. \<not> is_assistant x) ms) \<subseteq> tool_ids (takeWhile is_tool ms)"

fun batches_together :: "message list \<Rightarrow> bool" where
  "batches_together [] = True"
| "batches_together (m # ms) \<longleftrightarrow> (is_assistant m \<longrightarrow> batch_together m ms) \<and> batches_together ms"

lemma tool_ids_append [simp]: "tool_ids (xs @ ys) = tool_ids xs \<union> tool_ids ys"
  by (auto simp: tool_ids_def)

lemma tool_ids_Nil [simp]: "tool_ids [] = {}"
  by (simp add: tool_ids_def)

lemma tool_ids_no_tools: "(\<forall>m\<in>set ms. \<not> is_tool m) \<Longrightarrow> tool_ids ms = {}"
  by (auto simp: tool_ids_def)

lemma takeWhile_take_run:
  "tool_ids (takeWhile is_tool ms) \<subseteq> tool_ids (takeWhile (\<lambda>x. \<not> is_assistant x) ms)"
  by (induction ms) (auto simp: tool_ids_def)

lemma batch_together_append_assistant:
  "x \<in> set ms \<Longrightarrow> is_assistant x \<Longrightarrow> batch_together m (ms @ ns) = batch_together m ms"
proof -
  assume x: "x \<in> set ms" "is_assistant x"
  then have "takeWhile (\<lambda>x. \<not> is_assistant x) (ms @ ns) = takeWhile (\<lambda>x. \<not> is_assistant x) ms"
    by (intro takeWhile_append1) auto
  moreover have "takeWhile is_tool (ms @ ns) = takeWhile is_tool ms"
    using x by (intro takeWhile_append1 [of x]) auto
  ultimately show ?thesis by (simp add: batch_together_def)
qed

lemma batches_together_append:
  "batches_together (ms @ ns) \<longleftrightarrow>
     batches_together ns \<and>
     (\<forall>as m bs. ms = as @ m # bs \<and> is_assistant m \<longrightarrow> batch_together m (bs @ ns))"
proof (induction ms)
  case (Cons x ms)
  have "(\<forall>as m bs. x # ms = as @ m # bs \<and> is_assistant m \<longrightarrow> batch_together m (bs @ ns)) \<longleftrightarrow>
     (is_assistant x \<longrightarrow> batch_together x (ms @ ns)) \<and>
     (\<forall>as m bs. ms = as @ m # bs \<and> is_assistant m \<longrightarrow> batch_together m (bs @ ns))"
    by (auto simp: Cons_eq_append_conv)
  with Cons show ?case by auto
qed simp

text \<open>Only the last assistant message sees what is appended.\<close>

lemma batches_together_extend:
  assumes "batches_together ms" "batches_together ns"
    and "\<And>as m bs. ms = as @ m # bs \<Longrightarrow> is_assistant m \<Longrightarrow> \<forall>b\<in>set bs. \<not> is_assistant b \<Longrightarrow> batch_together m (bs @ ns)"
  shows "batches_together (ms @ ns)"
proof -
  have "batch_together m (bs @ ns)" if "ms = as @ m # bs" "is_assistant m" for as m bs
  proof (cases "\<exists>b\<in>set bs. is_assistant b")
    case True
    moreover have "batch_together m bs"
      using assms(1) batches_together_append [of ms "[]"] that by auto
    ultimately show ?thesis using batch_together_append_assistant by blast
  qed (use assms(3) that in blast)
  with assms(2) show ?thesis by (auto simp: batches_together_append)
qed

lemma run_append: "tool_ids (takeWhile is_tool xs) \<subseteq> tool_ids (takeWhile is_tool (xs @ ns))"
  by (cases "\<forall>x\<in>set xs. is_tool x") (auto simp: takeWhile_append takeWhile_eq_all_conv [THEN iffD2])

lemma batch_together_no_tools:
  assumes "batch_together m bs" "\<forall>x\<in>set ns. \<not> is_tool x"
  shows "batch_together m (bs @ ns)"
proof -
  let ?na = "\<lambda>x. \<not> is_assistant x"
  have "tool_ids (takeWhile ?na ns) = {}"
    using assms(2) by (intro tool_ids_no_tools) (auto dest: set_takeWhileD)
  then have "tool_ids (takeWhile ?na (bs @ ns)) \<subseteq> tool_ids (takeWhile ?na bs)"
    by (cases "\<forall>x\<in>set bs. ?na x") (auto simp: takeWhile_append takeWhile_eq_all_conv [THEN iffD2])
  with run_append [of bs ns] assms(1) show ?thesis unfolding batch_together_def by blast
qed

text \<open>The messages so far and the calls still open: the last assistant message's own batch.\<close>

definition open_batch :: "message list \<Rightarrow> string list \<Rightarrow> bool" where
  "open_batch ms aw \<longleftrightarrow>
     batches_together ms \<and>
     (\<forall>as m bs. ms = as @ m # bs \<and> is_assistant m \<and> (\<forall>b\<in>set bs. \<not> is_assistant b) \<longrightarrow>
        tc_id ` set (tool_calls m) \<subseteq> tool_ids (takeWhile is_tool bs) \<union> set aw
        \<and> (aw \<noteq> [] \<longrightarrow> (\<forall>b\<in>set bs. is_tool b)))"

lemma open_batchI:
  assumes "batches_together ms"
    and "\<And>as m bs. ms = as @ m # bs \<Longrightarrow> is_assistant m \<Longrightarrow> \<forall>b\<in>set bs. \<not> is_assistant b \<Longrightarrow>
      tc_id ` set (tool_calls m) \<subseteq> tool_ids (takeWhile is_tool bs) \<union> set aw
      \<and> (aw \<noteq> [] \<longrightarrow> (\<forall>b\<in>set bs. is_tool b))"
  shows "open_batch ms aw"
  using assms unfolding open_batch_def by blast

lemma open_batch_together: "open_batch ms aw \<Longrightarrow> batches_together ms"
  by (simp add: open_batch_def)

lemma batches_togetherD: "batches_together (as @ m # bs) \<Longrightarrow> is_assistant m \<Longrightarrow> batch_together m bs"
  by (induction as) auto

lemma open_batchD:
  assumes "open_batch (as @ m # bs) aw" "is_assistant m" "\<forall>b\<in>set bs. \<not> is_assistant b"
  shows "tc_id ` set (tool_calls m) \<subseteq> tool_ids (takeWhile is_tool bs) \<union> set aw"
    and "aw \<noteq> [] \<Longrightarrow> \<forall>b\<in>set bs. is_tool b"
  using assms unfolding open_batch_def by blast+

lemma open_batch_tool:
  assumes inv: "open_batch ms aw" and x: "is_tool x"
  shows "open_batch (ms @ [x]) (case tool_call_id x of Some i \<Rightarrow> filter (\<lambda>w. w \<noteq> i) aw | None \<Rightarrow> aw)"
    (is "open_batch _ ?aw")
proof -
  have sub: "tc_id ` set (tool_calls m) \<subseteq> tool_ids (takeWhile is_tool (bs @ [x])) \<union> set ?aw"
    and all: "?aw \<noteq> [] \<Longrightarrow> \<forall>b\<in>set (bs @ [x]). is_tool b"
    and tog: "batch_together m (bs @ [x])"
    if ms: "ms = as @ m # bs" and m: "is_assistant m" and bs: "\<forall>b\<in>set bs. \<not> is_assistant b" for as m bs
  proof -
    note D = open_batchD [OF inv [unfolded ms] m bs]
    have aw_eq: "?aw \<noteq> [] \<Longrightarrow> aw \<noteq> []" by (auto split: option.splits)
    have full: "takeWhile is_tool (bs @ [x]) = bs @ [x]" if "aw \<noteq> []"
      using D(2) [OF that] x by (simp add: takeWhile_eq_all_conv)
    show "tc_id ` set (tool_calls m) \<subseteq> tool_ids (takeWhile is_tool (bs @ [x])) \<union> set ?aw"
    proof (cases "aw = []")
      case True
      then show ?thesis using D(1) run_append [of bs "[x]"] by auto
    next
      case False
      have "set aw \<subseteq> tool_ids [x] \<union> set ?aw" using x by (auto simp: tool_ids_def split: option.splits)
      moreover have "tool_ids (takeWhile is_tool bs) \<subseteq> tool_ids (bs @ [x])"
        using run_append [of bs "[x]"] full [OF False] by simp
      ultimately show ?thesis using D(1) full [OF False] by auto
    qed
    show "?aw \<noteq> [] \<Longrightarrow> \<forall>b\<in>set (bs @ [x]). is_tool b" using D(2) aw_eq x by auto
    show "batch_together m (bs @ [x])"
    proof (cases "aw = []")
      case True
      then show ?thesis using D(1) run_append [of bs "[x]"] unfolding batch_together_def by auto
    next
      case False
      then show ?thesis
        using full [OF False] bs x unfolding batch_together_def by (simp add: takeWhile_eq_all_conv [THEN iffD2])
    qed
  qed
  have "batches_together (ms @ [x])"
  proof (rule batches_together_extend [OF open_batch_together [OF inv]])
    show "batches_together [x]" using x by simp
  qed (rule tog)
  moreover have "tc_id ` set (tool_calls m) \<subseteq> tool_ids (takeWhile is_tool bs) \<union> set ?aw
      \<and> (?aw \<noteq> [] \<longrightarrow> (\<forall>b\<in>set bs. is_tool b))"
    if "ms @ [x] = as @ m # bs" "is_assistant m" "\<forall>b\<in>set bs. \<not> is_assistant b" for as m bs
  proof (cases bs rule: rev_cases)
    case Nil
    with that x show ?thesis by simp
  next
    case (snoc bs' y)
    with that have ms: "ms = as @ m # bs'" and y: "y = x" and b: "\<forall>b\<in>set bs'. \<not> is_assistant b" by auto
    show ?thesis
      unfolding snoc y using sub [OF ms that(2) b] all [OF ms that(2) b] by (intro conjI impI)
  qed
  ultimately show ?thesis by (rule open_batchI)
qed

lemma open_batch_others:
  assumes inv: "open_batch ms []" and ns: "\<forall>n\<in>set ns. \<not> is_tool n \<and> \<not> is_assistant n"
  shows "open_batch (ms @ ns) []"
proof -
  have nsb: "batches_together ns" using ns by (induction ns) auto
  have split: "\<exists>bs'. bs = bs' @ ns \<and> ms = as @ m # bs'"
    if "ms @ ns = as @ m # bs" "is_assistant m" for as m bs
  proof -
    have "m \<notin> set ns" using ns that(2) by blast
    with that(1) show ?thesis
      by (auto simp: append_eq_append_conv2 append_eq_Cons_conv Cons_eq_append_conv)
  qed
  have "batch_together m (bs @ ns)" if "ms = as @ m # bs" "is_assistant m" for as m bs
  proof (rule batch_together_no_tools)
    show "batch_together m bs"
      using batches_togetherD open_batch_together [OF inv] that by metis
  qed (use ns in blast)
  then have "batches_together (ms @ ns)" using nsb by (auto simp: batches_together_append)
  moreover have "tc_id ` set (tool_calls m) \<subseteq> tool_ids (takeWhile is_tool bs) \<union> set []"
    if eq: "ms @ ns = as @ m # bs" and m: "is_assistant m" and bs: "\<forall>b\<in>set bs. \<not> is_assistant b" for as m bs
  proof -
    from split [OF eq m] obtain bs' where "bs = bs' @ ns" "ms = as @ m # bs'" by blast
    then show ?thesis
      using open_batchD(1) [OF inv [unfolded \<open>ms = as @ m # bs'\<close>] m] bs run_append [of bs' ns] by auto
  qed
  ultimately show ?thesis unfolding open_batch_def by blast
qed

lemma open_batch_assistant:
  assumes inv: "batches_together ms" and ns: "\<forall>n\<in>set ns. \<not> is_tool n \<and> \<not> is_assistant n"
    and x: "is_assistant x"
  shows "open_batch (ms @ ns @ [x]) (map tc_id (tool_calls x))"
proof -
  have nt: "\<forall>n\<in>set (ns @ [x]). \<not> is_tool n" using ns x by auto
  have "batches_together (ns @ [x])"
    using ns x by (induction ns) (auto simp: batch_together_def)
  moreover have "batch_together m (bs @ ns @ [x])" if "ms = as @ m # bs" "is_assistant m" for as m bs
    using batches_togetherD [of as m bs] inv that by (intro batch_together_no_tools [OF _ nt]) simp
  ultimately have bt: "batches_together (ms @ ns @ [x])" by (auto simp: batches_together_append [of ms])
  have last: "m = x \<and> bs = []"
    if "ms @ ns @ [x] = as @ m # bs" "\<forall>b\<in>set bs. \<not> is_assistant b" for as m bs
    using that x by (cases bs rule: rev_cases) (auto simp flip: append_assoc)
  show ?thesis
  proof (rule open_batchI [OF bt])
    fix as m bs assume "ms @ ns @ [x] = as @ m # bs" "\<forall>b\<in>set bs. \<not> is_assistant b"
    then have "m = x" "bs = []" using last by blast+
    then show "tc_id ` set (tool_calls m) \<subseteq> tool_ids (takeWhile is_tool bs) \<union> set (map tc_id (tool_calls x))
      \<and> (map tc_id (tool_calls x) \<noteq> [] \<longrightarrow> (\<forall>b\<in>set bs. is_tool b))" by simp
  qed
qed

definition batch_inv :: "projection \<Rightarrow> bool" where
  "batch_inv p \<longleftrightarrow>
     open_batch (map tm_message (p_messages p)) (p_awaiting p)
     \<and> (\<forall>tm\<in>set (p_held p). \<not> is_tool (tm_message tm) \<and> \<not> is_assistant (tm_message tm))
     \<and> (p_awaiting p = [] \<longrightarrow> p_held p = [])"

lemma batch_inv_release:
  "open_batch (map tm_message (p_messages p)) [] \<Longrightarrow> p_awaiting p = [] \<Longrightarrow>
   (\<forall>tm\<in>set (p_held p). \<not> is_tool (tm_message tm) \<and> \<not> is_assistant (tm_message tm)) \<Longrightarrow>
   batch_inv (release p)"
  by (auto simp: batch_inv_def release_eq user_with_images_def intro!: open_batch_others)

lemma batch_inv_push: "batch_inv p \<Longrightarrow> batch_inv (proj_push p tm)"
proof (rule role_trichotomy [of "tm_message tm"])
  assume inv: "batch_inv p" and r: "m_role (tm_message tm) = Tool"
  have "open_batch (map tm_message (p_messages p) @ [tm_message tm])
      (case tool_call_id (tm_message tm) of Some i \<Rightarrow> filter (\<lambda>w. w \<noteq> i) (p_awaiting p) | None \<Rightarrow> p_awaiting p)"
    using inv r by (intro open_batch_tool) (auto simp: batch_inv_def)
  moreover define aw where "aw = (case tool_call_id (tm_message tm) of
      Some i \<Rightarrow> filter (\<lambda>w. w \<noteq> i) (p_awaiting p) | None \<Rightarrow> p_awaiting p)"
  moreover define q where "q = p\<lparr>p_messages := p_messages p @ [tm], p_awaiting := aw\<rparr>"
  ultimately have ob: "open_batch (map tm_message (p_messages q)) aw" by simp
  have held: "\<forall>tm\<in>set (p_held q). \<not> is_tool (tm_message tm) \<and> \<not> is_assistant (tm_message tm)"
    and empty: "p_awaiting p = [] \<longrightarrow> p_held q = []" and aw: "p_awaiting q = aw"
    using inv by (auto simp: batch_inv_def q_def)
  have "batch_inv (release q)" if "aw = []"
    using ob held aw that by (intro batch_inv_release) simp_all
  moreover have "batch_inv q" if "\<not> (p_awaiting p \<noteq> [] \<and> aw = [])"
    using ob held aw empty that by (auto simp: batch_inv_def)
  moreover have "proj_push p tm = (if p_awaiting p \<noteq> [] \<and> aw = [] then release q else q)"
    unfolding proj_push_tool [OF r] Let_def aw_def q_def ..
  ultimately show ?thesis by simp
next
  assume inv: "batch_inv p" and r: "m_role (tm_message tm) = Assistant"
  define ns where "ns = (if p_pending p = [] then [] else [carrier (p_pending p) (p_pending_from p)]) @ p_held p"
  have "batches_together (map tm_message (p_messages p))"
    using inv open_batch_together by (auto simp: batch_inv_def)
  moreover have "\<forall>n\<in>set (map tm_message ns). \<not> is_tool n \<and> \<not> is_assistant n"
    using inv by (auto simp: batch_inv_def ns_def user_with_images_def)
  ultimately have "open_batch (map tm_message (p_messages p) @ map tm_message ns @ [tm_message tm])
      (map tc_id (tool_calls (tm_message tm)))"
    using r by (rule open_batch_assistant)
  moreover have "release p = p\<lparr>p_pending := [], p_held := [], p_messages := p_messages p @ ns\<rparr>"
    by (simp add: release_eq ns_def)
  ultimately show ?thesis
    by (simp add: proj_push_assistant [OF r] Let_def batch_inv_def)
next
  assume inv: "batch_inv p" and r: "m_role (tm_message tm) \<notin> {Tool, Assistant}"
  show ?thesis
  proof (cases "p_awaiting p = []")
    case True
    define ns where "ns = (if p_pending p = [] then [] else [carrier (p_pending p) (p_pending_from p)]) @ [tm]"
    have "open_batch (map tm_message (p_messages p)) []" "p_held p = []"
      using inv True by (auto simp: batch_inv_def)
    moreover have "\<forall>n\<in>set (map tm_message ns). \<not> is_tool n \<and> \<not> is_assistant n"
      using r by (auto simp: ns_def user_with_images_def)
    ultimately have "open_batch (map tm_message (p_messages p) @ map tm_message ns) []"
      by (intro open_batch_others)
    moreover have "proj_push p tm = p\<lparr>p_pending := [], p_messages := p_messages p @ ns\<rparr>"
      using True by (simp add: proj_push_other [OF r] Let_def flush_images_eq ns_def)
    ultimately show ?thesis
      using True \<open>p_held p = []\<close> by (simp add: batch_inv_def)
  next
    case False
    with inv r show ?thesis by (auto simp: proj_push_other batch_inv_def)
  qed
qed

lemma batch_inv_take_images: "batch_inv p \<Longrightarrow> batch_inv (take_images p s imgs)"
  by (simp add: batch_inv_def take_images_def Let_def)

lemma batch_inv_foldl: "batch_inv p \<Longrightarrow> batch_inv (foldl proj_push p tms)"
  by (induction tms arbitrary: p) (auto simp: batch_inv_push)

lemma batch_inv_project_event: "batch_inv p \<Longrightarrow> batch_inv (project_event events with_meta p l)"
  by (simp add: project_event_def batch_inv_foldl batch_inv_take_images)

lemma batch_inv_project:
  "batch_inv (foldl (project_event events with_meta) (project_start events) ls)"
proof (induction ls rule: rev_induct)
  case Nil
  have "batch_inv projection_new" by (simp add: batch_inv_def projection_new_def open_batch_def)
  then show ?case by (simp add: project_start_def batch_inv_push split: option.splits)
qed (simp add: batch_inv_project_event)

lemma project_batches_together: "batches_together (map tm_message (project events with_meta))"
proof -
  define p where "p = foldl (project_event events with_meta) (project_start events) (filter (unfolded events) events)"
  define ns where "ns = (if p_pending p = [] then [] else [carrier (p_pending p) (p_pending_from p)]) @ p_held p"
  have inv: "batch_inv p" unfolding p_def by (rule batch_inv_project)
  have bt: "batches_together (map tm_message (p_messages p))"
    using inv open_batch_together by (auto simp: batch_inv_def)
  have ns: "\<forall>n\<in>set (map tm_message ns). \<not> is_tool n \<and> \<not> is_assistant n"
    using inv by (auto simp: batch_inv_def ns_def user_with_images_def)
  have "batches_together (map tm_message (p_messages p) @ map tm_message ns)"
  proof (rule batches_together_extend [OF bt])
    show "batches_together (map tm_message ns)"
      using ns by (induction ns) auto
    fix as m bs assume "map tm_message (p_messages p) = as @ m # bs" "is_assistant m"
    then have "batch_together m bs" using bt batches_togetherD by metis
    then show "batch_together m (bs @ map tm_message ns)"
      using ns by (intro batch_together_no_tools) auto
  qed
  moreover have "map tm_message (project events with_meta) = map tm_message (p_messages p) @ map tm_message ns"
    by (simp add: project_def p_def [symmetric] finish_def release_eq ns_def)
  ultimately show ?thesis by simp
qed

section \<open>Runs that correspond\<close>

text \<open>
  The state machine reads only the role, the call id and the calls of a message. Two runs over
  corresponding messages therefore stay in step. The locale carries that argument once; it is
  used for the two readings of one log, and for a log whose events were renumbered.
\<close>

locale push_simulation =
  fixes R :: "traced_message \<Rightarrow> traced_message \<Rightarrow> bool"
    and f :: "seq_no \<Rightarrow> seq_no"
  assumes same_role: "R a b \<Longrightarrow> m_role (tm_message b) = m_role (tm_message a)"
    and same_call: "R a b \<Longrightarrow> tool_call_id (tm_message b) = tool_call_id (tm_message a)"
    and same_calls: "R a b \<Longrightarrow> tool_calls (tm_message b) = tool_calls (tm_message a)"
    and carriers: "R (carrier imgs s) (carrier imgs (f s))"
begin

definition sim :: "projection \<Rightarrow> projection \<Rightarrow> bool" where
  "sim p q \<longleftrightarrow>
     list_all2 R (p_messages p) (p_messages q) \<and> list_all2 R (p_held p) (p_held q)
     \<and> p_pending q = p_pending p \<and> (p_pending p \<noteq> [] \<longrightarrow> p_pending_from q = f (p_pending_from p))
     \<and> p_awaiting q = p_awaiting p"

lemma sim_new: "sim projection_new projection_new"
  by (simp add: sim_def projection_new_def)

lemma sim_flush: "sim p q \<Longrightarrow> sim (flush_images p) (flush_images q)"
  by (auto simp: sim_def flush_images_eq carriers list_all2_appendI)

lemma sim_release: "sim p q \<Longrightarrow> sim (release p) (release q)"
  by (auto simp: sim_def release_eq carriers list_all2_appendI)

lemma sim_push: "sim p q \<Longrightarrow> R a b \<Longrightarrow> sim (proj_push p a) (proj_push q b)"
proof (rule role_trichotomy [of "tm_message a"])
  assume s: "sim p q" "R a b" and r: "m_role (tm_message a) = Tool"
  have r': "m_role (tm_message b) = Tool" using s(2) r same_role by simp
  have step: "sim (p\<lparr>p_messages := p_messages p @ [a], p_awaiting := aw\<rparr>) (q\<lparr>p_messages := p_messages q @ [b], p_awaiting := aw\<rparr>)" for aw
    using s by (auto simp: sim_def list_all2_appendI)
  have aw: "p_awaiting q = p_awaiting p" using s(1) by (simp add: sim_def)
  show ?thesis
    unfolding proj_push_tool [OF r] proj_push_tool [OF r'] Let_def same_call [OF s(2)] aw
    by (auto simp only: step sim_release [OF step] split: if_split)
next
  assume s: "sim p q" "R a b" and r: "m_role (tm_message a) = Assistant"
  have r': "m_role (tm_message b) = Assistant" using s(2) r same_role by simp
  show ?thesis
    using sim_release [OF s(1)] s(2)
    unfolding proj_push_assistant [OF r] proj_push_assistant [OF r'] Let_def
    by (auto simp: sim_def same_calls list_all2_appendI)
next
  assume s: "sim p q" "R a b" and r: "m_role (tm_message a) \<notin> {Tool, Assistant}"
  have r': "m_role (tm_message b) \<notin> {Tool, Assistant}" using s(2) r same_role by simp
  show ?thesis
    using sim_flush [OF s(1)] s
    unfolding proj_push_other [OF r] proj_push_other [OF r'] Let_def
    by (auto simp: sim_def list_all2_appendI)
qed

lemma sim_foldl_push: "list_all2 R as bs \<Longrightarrow> sim p q \<Longrightarrow> sim (foldl proj_push p as) (foldl proj_push q bs)"
  by (induction as bs arbitrary: p q rule: list_all2_induct) (auto simp: sim_push)

lemma sim_take_images: "sim p q \<Longrightarrow> sim (take_images p s imgs) (take_images q (f s) imgs)"
  by (auto simp: sim_def take_images_def Let_def)

definition corresponds ::
  "logged_event list \<Rightarrow> bool \<Rightarrow> logged_event list \<Rightarrow> bool \<Rightarrow> logged_event \<Rightarrow> logged_event \<Rightarrow> bool" where
  "corresponds es w es' w' l l' \<longleftrightarrow>
     kept es' l' = kept es l \<and> le_seq l' = f (le_seq l)
     \<and> event_images (le_event l') = event_images (le_event l)
     \<and> list_all2 R (event_messages es w l) (event_messages es' w' l')"

lemma sim_project_event:
  "corresponds es w es' w' l l' \<Longrightarrow> sim p q \<Longrightarrow> sim (project_event es w p l) (project_event es' w' q l')"
  by (auto simp: corresponds_def project_event_def sim_foldl_push sim_take_images)

lemma sim_foldl_events:
  "list_all2 (corresponds es w es' w') ls ls' \<Longrightarrow> sim p q \<Longrightarrow>
   sim (foldl (project_event es w) p ls) (foldl (project_event es' w') q ls')"
  by (induction ls ls' arbitrary: p q rule: list_all2_induct) (auto simp: sim_project_event)

lemma project_related:
  assumes "sim (project_start es) (project_start es')"
    and "list_all2 (corresponds es w es' w') (filter (unfolded es) es) (filter (unfolded es') es')"
  shows "list_all2 R (project es w) (project es' w')"
  using sim_release [OF sim_foldl_events [OF assms(2,1)]]
  by (simp add: project_def finish_def sim_def)

end

subsection \<open>The reading for the model and the reading for storage\<close>

text \<open>Two messages a person reads alike: they differ in framing, origin label and metadata only.\<close>

definition reads_alike :: "traced_message \<Rightarrow> traced_message \<Rightarrow> bool" where
  "reads_alike a b \<longleftrightarrow>
     tm_source b = tm_source a
     \<and> display_text (tm_message b) = display_text (tm_message a)
     \<and> (tm_message b)\<lparr>m_text := [], internal_origin := None, m_meta := None\<rparr>
        = (tm_message a)\<lparr>m_text := [], internal_origin := None, m_meta := None\<rparr>"

lemma reads_alike_refl [simp]: "reads_alike a a"
  by (simp add: reads_alike_def)

lemma reads_alike_fields:
  assumes "reads_alike a b"
  shows "m_role (tm_message b) = m_role (tm_message a)"
    and "tool_call_id (tm_message b) = tool_call_id (tm_message a)"
    and "tool_calls (tm_message b) = tool_calls (tm_message a)"
  using assms unfolding reads_alike_def
  by (metis message.surjective message.update_convs(2,6,8) message.select_convs)+

interpretation readings: push_simulation reads_alike "\<lambda>s. s"
  by unfold_locales (auto simp: reads_alike_fields)

lemma origins_distinct [simp]:
  "PINNED_ORIGIN \<noteq> COMPACTION_RETAINED_MODEL_ORIGIN"
  "ORIGINAL_ORIGIN \<noteq> PINNED_ORIGIN" "ORIGINAL_ORIGIN \<noteq> COMPACTION_RETAINED_MODEL_ORIGIN"
  "COMPACTION_RETAINED_ORIGIN \<noteq> PINNED_ORIGIN" "COMPACTION_RETAINED_ORIGIN \<noteq> COMPACTION_RETAINED_MODEL_ORIGIN"
  by (simp_all add: ORIGINAL_ORIGIN_def PINNED_ORIGIN_def COMPACTION_RETAINED_ORIGIN_def COMPACTION_RETAINED_MODEL_ORIGIN_def)

lemma user_event_alike:
  "reads_alike (traced (user_event_message events False s t imgs) src) (traced (user_event_message events True s t imgs) src)"
  by (simp add: reads_alike_def user_event_message_def Let_def display_text_def message_user_def user_with_images_def)

lemma event_messages_alike:
  "list_all2 reads_alike (event_messages events False l) (event_messages events True l)"
proof (cases "le_event l")
  case (AssistantMessage t r own reasoning calls blocks meta)
  then show ?thesis
    by (simp add: event_messages_def Let_def reads_alike_def display_text_def message_assistant_def)
qed (auto simp: event_messages_def Let_def user_event_alike list_all2_same split: if_splits)

lemma projections_alike: "list_all2 reads_alike (project events False) (project events True)"
proof (rule readings.project_related)
  show "readings.sim (project_start events) (project_start events)"
    by (simp add: readings.sim_def list_all2_same)
  show "list_all2 (readings.corresponds events False events True)
      (filter (unfolded events) events) (filter (unfolded events) events)"
    by (simp add: list_all2_same readings.corresponds_def event_messages_alike)
qed

end
