(* ===== verification/Log_Laws.thy ===== *)
theory Log_Laws
  imports Projection_Laws
begin

text \<open>
  How the projection reacts to changes of the log: facts that are neither model-visible nor a
  rewind leave it alone; renumbering moves the traces and nothing else, as long as the references
  move along; a rewind gives back the projection from before; and a log whose pinned sources
  validate projects to a request that passes the check made before dispatch.
\<close>

section \<open>Inert facts\<close>

fun is_rewound :: "session_event \<Rightarrow> bool" where
  "is_rewound (Rewound _ _ _) = True"
| "is_rewound _ = False"

definition matters :: "logged_event \<Rightarrow> bool" where
  "matters l \<longleftrightarrow> is_model_visible (le_event l) \<or> is_rewound (le_event l)"

lemma map_filter_skip: "(\<And>x. \<not> P x \<Longrightarrow> g x = None) \<Longrightarrow> List.map_filter g (filter P xs) = List.map_filter g xs"
  by (induction xs) (auto simp: List.map_filter_simps split: option.splits)

lemma foldl_skip: "(\<And>s x. \<not> P x \<Longrightarrow> g s x = s) \<Longrightarrow> foldl g s (filter P xs) = foldl g s xs"
  by (induction xs arbitrary: s) auto

lemma fold_skip: "(\<And>s x. \<not> P x \<Longrightarrow> g x s = s) \<Longrightarrow> fold g (filter P xs) s = fold g xs s"
  by (induction xs arbitrary: s) auto

lemma filter_swap: "filter P (filter Q xs) = filter Q (filter P xs)"
  by (simp add: conj_commute)

lemma inert_event:
  assumes "\<not> matters l"
  shows "event_messages events w l = []" "event_images (le_event l) = []" "\<not> is_memory (le_event l)"
    "retention_decision l = None" "apply_retention l m = m"
  using assms
  by (cases "le_event l";
      simp add: matters_def is_model_visible_def event_messages_def event_images_def is_memory_def
        retention_decision_def apply_retention_def)+

lemma rewound_ranges_matters: "rewound_ranges (filter matters events) = rewound_ranges events"
  unfolding rewound_ranges_def
  by (rule map_filter_skip) (auto simp: matters_def split: session_event.splits)

lemma taken_back_matters: "taken_back (filter matters events) = taken_back events"
  by (simp add: fun_eq_iff taken_back_def rewound_ranges_matters)

lemma standing_matters: "standing (filter matters events) = filter matters (standing events)"
  unfolding standing_def taken_back_matters by (rule filter_swap)

lemma folded_ranges_matters: "folded_ranges (filter matters events) = folded_ranges events"
  unfolding folded_ranges_def taken_back_matters
  by (subst filter_swap, rule map_filter_skip) (auto simp: matters_def is_model_visible_def split: session_event.splits)

lemma undone_matters: "undone_by_interruption (filter matters events) = undone_by_interruption events"
  unfolding undone_by_interruption_def
  by (rule arg_cong [of _ _ set], rule map_filter_skip)
    (auto simp: matters_def is_model_visible_def split: session_event.splits)

lemma retained_events_matters: "retained_events (filter matters events) = filter matters (retained_events events)"
  unfolding retained_events_def Let_def taken_back_matters undone_matters by (rule filter_swap)

lemma active_sources_matters: "active_sources (filter matters events) = active_sources events"
  unfolding active_sources_def retained_events_matters by (rule fold_skip) (simp add: inert_event)

lemma is_pinned_matters: "is_pinned (filter matters events) = is_pinned events"
  by (simp add: fun_eq_iff is_pinned_def active_sources_matters)

lemma last_summary_matters: "last_summary (filter matters events) = last_summary events"
  unfolding last_summary_def standing_matters
  by (rule foldl_skip) (auto simp: matters_def is_model_visible_def split: session_event.splits)

lemma stubbed_through_matters: "stubbed_through (filter matters events) = stubbed_through events"
  unfolding stubbed_through_def standing_matters
  by (rule foldl_skip) (auto simp: matters_def is_model_visible_def split: session_event.splits)

lemma rewritten_texts_matters: "rewritten_texts (filter matters events) = rewritten_texts events"
  unfolding rewritten_texts_def standing_matters
  by (rule foldl_skip) (auto simp: matters_def is_model_visible_def split: session_event.splits)

lemma tool_names_matters: "tool_names (filter matters events) = tool_names events"
  unfolding tool_names_def
  by (rule foldl_skip) (auto simp: matters_def is_model_visible_def split: session_event.splits)

lemma latest_memory_matters: "latest_memory (filter matters events) = latest_memory events"
proof -
  have "filter (\<lambda>l. is_memory (le_event l)) (filter matters events) = filter (\<lambda>l. is_memory (le_event l)) events"
    using inert_event(3) by (auto intro: filter_cong)
  then show ?thesis by (simp add: latest_memory_def)
qed

lemma answered_calls_matters: "answered_calls (filter matters events) = answered_calls events"
  unfolding answered_calls_def
  by (rule arg_cong [of _ _ set], rule map_filter_skip)
    (auto simp: matters_def is_model_visible_def split: session_event.splits)

lemma calls_of_turn_matters: "calls_of_turn t (filter matters events) = calls_of_turn t events"
proof -
  have "(case le_event l of AssistantMessage _ _ _ _ calls _ _ \<Rightarrow> calls | _ \<Rightarrow> []) = []" if "\<not> matters l" for l
    using that by (auto simp: matters_def is_model_visible_def split: session_event.splits)
  then show ?thesis
    unfolding calls_of_turn_def by (induction events) auto
qed

lemmas matters_simps =
  taken_back_matters folded_ranges_matters undone_matters is_pinned_matters last_summary_matters
  stubbed_through_matters rewritten_texts_matters tool_names_matters latest_memory_matters
  answered_calls_matters calls_of_turn_matters

lemma event_messages_matters: "event_messages (filter matters events) w = event_messages events w"
  unfolding fun_eq_iff event_messages_def user_event_message_def shown_result_def matters_simps by simp

lemma project_event_matters: "project_event (filter matters events) w = project_event events w"
  unfolding fun_eq_iff project_event_def kept_def event_messages_matters matters_simps by simp

lemma unfolded_matters: "unfolded (filter matters events) = unfolded events"
  unfolding fun_eq_iff unfolded_def matters_simps by simp

lemma project_matters: "project (filter matters events) w = project events w"
proof -
  have "foldl (project_event events w) p (filter matters ls) = foldl (project_event events w) p ls" for p ls
    by (rule foldl_skip) (simp add: project_event_def inert_event take_images_def)
  moreover have "project_start (filter matters events) = project_start events"
    by (simp add: project_start_def last_summary_matters)
  ultimately show ?thesis
    unfolding project_def project_event_matters unfolded_matters
    by (subst filter_swap) (simp only:)
qed

section \<open>Renumbering\<close>

text \<open>
  \<open>renumber_event\<close> moves the references of every event but a rewind's. \<open>relabel_event\<close> moves that
  one too; it is the renumbering under which a projection is stable, and the two agree on a log
  without rewinds.
\<close>

definition relabel_event :: "(seq_no \<Rightarrow> seq_no) \<Rightarrow> session_event \<Rightarrow> session_event" where
  "relabel_event f e = (case e of Rewound t to' scope \<Rightarrow> Rewound t (f to') scope | _ \<Rightarrow> renumber_event f e)"

definition relabel_logged :: "(seq_no \<Rightarrow> seq_no) \<Rightarrow> logged_event \<Rightarrow> logged_event" where
  "relabel_logged f l = l\<lparr>le_seq := f (le_seq l), le_event := relabel_event f (le_event l)\<rparr>"

abbreviation relabel :: "(seq_no \<Rightarrow> seq_no) \<Rightarrow> logged_event list \<Rightarrow> logged_event list" where
  "relabel f \<equiv> map (relabel_logged f)"

fun relabel_source :: "(seq_no \<Rightarrow> seq_no) \<Rightarrow> provenance \<Rightarrow> provenance" where
  "relabel_source f (Event s) = Event (f s)"
| "relabel_source f (Summary s) = Summary (f s)"
| "relabel_source f (Derived s) = Derived (f s)"

definition relabelled :: "(seq_no \<Rightarrow> seq_no) \<Rightarrow> traced_message \<Rightarrow> traced_message \<Rightarrow> bool" where
  "relabelled f a b \<longleftrightarrow> b = a\<lparr>tm_source := relabel_source f (tm_source a)\<rparr>"

interpretation relabelling: push_simulation "relabelled f" f for f
  by unfold_locales (auto simp: relabelled_def)

lemma relabel_seq [simp]: "le_seq (relabel_logged f l) = f (le_seq l)"
  by (simp add: relabel_logged_def)

lemma relabel_le_event [simp]: "le_event (relabel_logged f l) = relabel_event f (le_event l)"
  by (simp add: relabel_logged_def)

lemma turn_relabel [simp]: "turn (relabel_event f e) = turn e"
  by (cases e) (simp_all add: relabel_event_def)

lemma map_filter_map: "List.map_filter g (map h xs) = List.map_filter (g \<circ> h) xs"
  by (simp add: map_filter_def filter_map comp_def)

lemma map_filter_fuse: "List.map_filter (\<lambda>x. map_option k (g x)) xs = map k (List.map_filter g xs)"
  by (induction xs) (auto simp: List.map_filter_simps split: option.splits)

lemma filter_relabel: "(\<And>l. P' (relabel_logged f l) = P l) \<Longrightarrow> filter P' (relabel f xs) = relabel f (filter P xs)"
  by (simp add: filter_map comp_def)

lemma foldl_relabel:
  assumes "\<And>a l. h (g a l) = g' (h a) (relabel_logged f l)"
  shows "h (foldl g a ls) = foldl g' (h a) (relabel f ls)"
  by (induction ls arbitrary: a) (simp_all add: assms)

lemma foldl_relabel':
  assumes "\<And>a l. h (g a (relabel_logged f l)) = g' (h a) l"
  shows "h (foldl g a (relabel f ls)) = foldl g' (h a) ls"
  by (induction ls arbitrary: a) (simp_all add: assms)

lemma relabel_class [simp]:
  "is_memory (relabel_event f e) = is_memory e"
  "projection_session_wide (relabel_event f e) = projection_session_wide e"
  "retained_session_wide (relabel_event f e) = retained_session_wide e"
  "stands_for_the_session (relabel_event f e) = stands_for_the_session e"
  "event_images (relabel_event f e) = event_images e"
  by (cases e; simp add: relabel_event_def is_memory_def event_images_def)+

locale seq_embedding =
  fixes f :: "seq_no \<Rightarrow> seq_no"
  assumes mono: "strict_mono f" and zero: "f 0 = 0"
begin

lemma f_le [simp]: "f a \<le> f b \<longleftrightarrow> a \<le> b"
  by (rule strict_mono_less_eq [OF mono])

lemma f_less [simp]: "f a < f b \<longleftrightarrow> a < b"
  by (rule strict_mono_less [OF mono])

lemma f_inj [simp]: "f a = f b \<longleftrightarrow> a = b"
  by (rule strict_mono_eq [OF mono])

lemma f_max: "f (max a b) = max (f a) (f b)"
  by (simp add: max_def)

lemma f_pos [simp]: "0 < f a \<longleftrightarrow> 0 < a"
  using f_less [of 0 a] zero by simp

lemma f_zero [simp]: "f 0 = 0"
  by (rule zero)

lemma relabel_from: "(if from' \<noteq> 0 then f from' else from') = f from'"
  by simp

lemma rewound_ranges_relabel:
  "rewound_ranges (relabel f events) = map (map_prod f f) (rewound_ranges events)"
  unfolding rewound_ranges_def map_filter_map map_filter_fuse [symmetric]
  by (rule arg_cong [of _ _ "\<lambda>g. List.map_filter g events"])
    (auto simp: fun_eq_iff relabel_event_def split: session_event.splits)

lemma taken_back_relabel [simp]: "taken_back (relabel f events) (f s) = taken_back events s"
proof -
  have "list_ex (\<lambda>(to', at'). to' \<le> f s \<and> f s < at') (map (map_prod f f) rs)
      = list_ex (\<lambda>(to', at'). to' \<le> s \<and> s < at') rs" for rs
    by (induction rs) auto
  then show ?thesis by (simp add: taken_back_def rewound_ranges_relabel)
qed

lemma standing_relabel: "standing (relabel f events) = relabel f (standing events)"
  unfolding standing_def by (rule filter_relabel) simp

lemma folded_ranges_relabel:
  "folded_ranges (relabel f events) = map (map_prod f f) (folded_ranges events)"
proof -
  have eq: "filter (\<lambda>l. \<not> taken_back (relabel f events) (le_seq l)) (relabel f events)
      = relabel f (filter (\<lambda>l. \<not> taken_back events (le_seq l)) events)"
    by (rule filter_relabel) simp
  show ?thesis
    unfolding folded_ranges_def eq map_filter_map map_filter_fuse [symmetric]
    by (rule arg_cong [of _ _ "\<lambda>g. List.map_filter g _"])
      (auto simp: fun_eq_iff relabel_event_def split: session_event.splits)
qed

lemma in_ranges_relabel [simp]: "in_ranges (map (map_prod f f) rs) (f s) = in_ranges rs s"
  unfolding in_ranges_def by (induction rs) auto

lemma undone_relabel [simp]: "undone_by_interruption (relabel f events) = undone_by_interruption events"
  unfolding undone_by_interruption_def map_filter_map
  by (rule arg_cong [of _ _ "\<lambda>g. set (List.map_filter g events)"])
    (auto simp: fun_eq_iff relabel_event_def split: session_event.splits)

lemma retained_events_relabel: "retained_events (relabel f events) = relabel f (retained_events events)"
  unfolding retained_events_def Let_def by (rule filter_relabel) simp

lemma retention_decisions_relabel:
  "retention_decisions (relabel f events) = map (map_prod f (\<lambda>d. d)) (retention_decisions events)"
  unfolding retention_decisions_def retained_events_relabel map_filter_map map_filter_fuse [symmetric]
  by (rule arg_cong [of _ _ "\<lambda>g. List.map_filter g _"])
    (auto simp: fun_eq_iff retention_decision_def relabel_event_def split: session_event.splits)

lemma map_of_relabel: "map_of (map (map_prod f (\<lambda>d. d)) xs) (f s) = map_of xs s"
  by (induction xs) auto

lemma is_pinned_relabel [simp]: "is_pinned (relabel f events) (f s) = is_pinned events s"
  by (simp add: is_pinned_def lookup_active_sources retention_decisions_relabel rev_map map_of_relabel)

lemma last_summary_relabel: "last_summary (relabel f events) = map_option (map_prod f (\<lambda>t. t)) (last_summary events)"
  unfolding last_summary_def standing_relabel
  by (subst foldl_relabel [where h = "map_option (map_prod f (\<lambda>t. t))" and f = f])
    (auto simp: relabel_event_def split: session_event.splits)

lemma stubbed_through_relabel: "stubbed_through (relabel f events) = f (stubbed_through events)"
  unfolding stubbed_through_def standing_relabel
  by (subst foldl_relabel [where h = f and f = f])
    (auto simp: relabel_event_def f_max split: session_event.splits)

lemma rewritten_texts_relabel: "rewritten_texts (relabel f events) (f s) = rewritten_texts events s"
proof -
  let ?h = "\<lambda>m. m \<circ> f :: seq_no \<rightharpoonup> string"
  let ?g = "\<lambda>acc l. case le_event l of
      MessagesRewritten _ texts \<Rightarrow> foldl (\<lambda>acc r. acc(rt_seq r \<mapsto> rt_text r)) acc texts | _ \<Rightarrow> acc"
  have upd: "(m(f k \<mapsto> v)) \<circ> f = (m \<circ> f)(k \<mapsto> v)" for m k and v :: string by (auto simp: fun_eq_iff)
  have inner: "(foldl (\<lambda>acc r. acc(rt_seq r \<mapsto> rt_text r)) m (map (\<lambda>r. r\<lparr>rt_seq := f (rt_seq r)\<rparr>) rs)) \<circ> f
      = foldl (\<lambda>acc r. acc(rt_seq r \<mapsto> rt_text r)) (m \<circ> f) rs" for m rs
    by (induction rs arbitrary: m) (simp_all add: upd)
  have step: "?g m (relabel_logged f l) \<circ> f = ?g (m \<circ> f) l" for m l
    by (cases "le_event l") (simp_all add: relabel_event_def inner)
  have "(foldl ?g m (relabel f ls)) \<circ> f = foldl ?g (m \<circ> f) ls" for m ls
    by (rule foldl_relabel' [where h = ?h]) (rule step)
  from this [of Map.empty "standing events"] show ?thesis
    by (auto simp: rewritten_texts_def standing_relabel fun_eq_iff comp_def)
qed

lemma tool_names_relabel [simp]: "tool_names (relabel f events) = tool_names events"
  unfolding tool_names_def foldl_map
  by (rule arg_cong [of _ _ "\<lambda>g. foldl g _ _"])
    (auto simp: fun_eq_iff relabel_event_def split: session_event.splits)

lemma latest_memory_relabel: "latest_memory (relabel f events) = map_option f (latest_memory events)"
proof -
  let ?g = "\<lambda>acc s. case acc of None \<Rightarrow> Some s | Some m \<Rightarrow> Some (max m (s :: nat))"
  have "foldl ?g (map_option f a) (map f ss) = map_option f (foldl ?g a ss)" for a ss
  proof (induction ss arbitrary: a)
    case (Cons s ss)
    have "?g (map_option f a) (f s) = map_option f (?g a s)" by (cases a) (simp_all add: f_max)
    with Cons show ?case by (simp only: list.map foldl_Cons)
  qed simp
  from this [of None "map le_seq (filter (\<lambda>l. is_memory (le_event l)) events)"] show ?thesis
    by (simp add: latest_memory_def filter_map comp_def)
qed

lemma answered_calls_relabel [simp]: "answered_calls (relabel f events) = answered_calls events"
  unfolding answered_calls_def map_filter_map
  by (rule arg_cong [of _ _ "\<lambda>g. set (List.map_filter g events)"])
    (auto simp: fun_eq_iff relabel_event_def split: session_event.splits)

lemma calls_of_turn_relabel [simp]: "calls_of_turn t (relabel f events) = calls_of_turn t events"
proof -
  have "(case relabel_event f e of AssistantMessage _ _ _ _ calls _ _ \<Rightarrow> calls | _ \<Rightarrow> [])
      = (case e of AssistantMessage _ _ _ _ calls _ _ \<Rightarrow> calls | _ \<Rightarrow> [])" for e
    by (cases e) (simp_all add: relabel_event_def)
  then show ?thesis
    unfolding calls_of_turn_def by (induction events) (simp_all del: session_event.case)
qed

lemma kept_relabel [simp]: "kept (relabel f events) (relabel_logged f l) = kept events l"
  by (simp add: kept_def)

lemma unfolded_relabel [simp]: "unfolded (relabel f events) (relabel_logged f l) = unfolded events l"
proof -
  have "Some (f s) = map_option f m \<longleftrightarrow> Some s = m" for s m by (cases m) auto
  then show ?thesis by (simp add: unfolded_def latest_memory_relabel folded_ranges_relabel)
qed

lemma user_event_relabel [simp]:
  "user_event_message (relabel f events) w (f s) t imgs = user_event_message events w s t imgs"
proof -
  have "list_ex (\<lambda>(from', _). 0 < from' \<and> f s \<le> from') (map (map_prod f f) rs)
      = list_ex (\<lambda>(from', _). 0 < from' \<and> s \<le> from') rs" for rs :: "(seq_no \<times> seq_no) list"
    by (induction rs) auto
  then show ?thesis
    by (simp add: user_event_message_def Let_def rewritten_texts_relabel folded_ranges_relabel)
qed

lemma shown_result_relabel [simp]:
  "shown_result (relabel f events) (f s) i c e = shown_result events s i c e"
  by (simp add: shown_result_def rewritten_texts_relabel stubbed_through_relabel split: option.split)

lemma event_messages_relabel:
  "event_messages (relabel f events) w (relabel_logged f l) =
   map (\<lambda>tm. tm\<lparr>tm_source := relabel_source f (tm_source tm)\<rparr>) (event_messages events w l)"
proof (cases "le_event l")
  case (Injected t own origin)
  have "f s < (case map_option (map_prod f (\<lambda>t. t)) o' of Some (at', _) \<Rightarrow> at' | None \<Rightarrow> 0) \<longleftrightarrow>
      s < (case o' of Some (at', _) \<Rightarrow> at' | None \<Rightarrow> 0)" for s and o' :: "(seq_no \<times> string) option"
    by (auto split: option.splits)
  with Injected show ?thesis
    by (simp add: event_messages_def Let_def relabel_event_def last_summary_relabel)
qed (simp_all add: event_messages_def Let_def relabel_event_def rewritten_texts_relabel)

lemma project_relabel: "list_all2 (relabelled f) (project events w) (project (relabel f events) w)"
proof (rule relabelling.project_related)
  have "relabelled f (traced m (Summary s)) (traced m (Summary (f s)))" for m s
    by (simp add: relabelled_def)
  then show "relabelling.sim f (project_start events) (project_start (relabel f events))"
    by (auto simp: project_start_def last_summary_relabel relabelling.sim_new relabelling.sim_push split: option.splits)
  have "relabelling.corresponds f events w (relabel f events) w l (relabel_logged f l)" for l
    by (simp add: relabelling.corresponds_def event_messages_relabel list_all2_map2 list_all2_same relabelled_def)
  then show "list_all2 (relabelling.corresponds f events w (relabel f events) w)
      (filter (unfolded events) events) (filter (unfolded (relabel f events)) (relabel f events))"
    by (simp add: filter_relabel [where P = "unfolded events"] list_all2_map2 list_all2_same)
qed

lemma derive_messages_relabel: "derive_messages (relabel f events) = derive_messages events"
proof -
  have "map tm_message as = map tm_message bs" if "list_all2 (relabelled f) as bs" for as bs
    using that by (induction rule: list_all2_induct) (auto simp: relabelled_def)
  from this [OF project_relabel] show ?thesis by (simp add: derive_messages_def)
qed

end

lemma strict_mono_shift: "old \<le> first \<Longrightarrow> strict_mono (shift_seq old first)"
  by (auto simp: strict_mono_def shift_seq_def)

interpretation shifted: seq_embedding "shift_seq (Suc a) (Suc a + d)" for a d
  by unfold_locales (auto intro: strict_mono_shift simp: shift_seq_def)

lemma renumber_relabel:
  "\<forall>l\<in>set events. \<not> is_rewound (le_event l) \<Longrightarrow> events \<noteq> [] \<Longrightarrow>
   renumber events first = relabel (shift_seq (le_seq (hd events)) first) events"
proof -
  assume *: "\<forall>l\<in>set events. \<not> is_rewound (le_event l)" "events \<noteq> []"
  have "relabel_event g e = renumber_event g e" if "\<not> is_rewound e" for g e
    using that by (cases e) (simp_all add: relabel_event_def)
  with * show ?thesis by (cases events) (auto simp: renumber_def relabel_logged_def Let_def)
qed

lemma derive_messages_renumber:
  assumes "\<forall>l\<in>set events. \<not> is_rewound (le_event l)"
    and "events \<noteq> [] \<Longrightarrow> 0 < le_seq (hd events) \<and> le_seq (hd events) \<le> first"
  shows "derive_messages (renumber events first) = derive_messages events"
proof (cases "events = []")
  case False
  with assms(2) obtain a d where "le_seq (hd events) = Suc a" "first = Suc a + d"
    by (metis gr0_implies_Suc le_Suc_ex)
  with False renumber_relabel [OF assms(1)] shifted.derive_messages_relabel [of a d events] show ?thesis
    by simp
qed (simp add: renumber_def)

section \<open>Pinned texts reach the request\<close>

definition laid :: "projection \<Rightarrow> traced_message multiset" where
  "laid p = mset (p_messages p) + mset (p_held p)"

lemma laid_push: "add_mset tm (laid p) \<subseteq># laid (proj_push p tm)"
  by (rule role_trichotomy [of "tm_message tm"])
    (auto simp: laid_def proj_push_cases project_simps Let_def)

lemma laid_foldl: "laid p + mset tms \<subseteq># laid (foldl proj_push p tms)"
proof (induction tms arbitrary: p)
  case (Cons tm tms)
  have "laid p + mset (tm # tms) \<subseteq># laid (proj_push p tm) + mset tms"
    using laid_push [of tm p] by (simp add: subset_mset.add_mono)
  also have "\<dots> \<subseteq># laid (foldl proj_push p (tm # tms))" using Cons [of "proj_push p tm"] by simp
  finally show ?case .
qed simp

lemma laid_take_images [simp]: "laid (take_images p s imgs) = laid p"
  by (simp add: laid_def take_images_def Let_def)

definition emitted :: "logged_event list \<Rightarrow> bool \<Rightarrow> logged_event \<Rightarrow> traced_message list" where
  "emitted events w l = (if kept events l \<and> unfolded events l then event_messages events w l else [])"

lemma laid_events:
  "(\<forall>l\<in>set ls. unfolded events l) \<Longrightarrow>
   laid p + mset (concat (map (emitted events w) ls)) \<subseteq># laid (foldl (project_event events w) p ls)"
proof (induction ls arbitrary: p)
  case (Cons l ls)
  let ?p = "project_event events w p l"
  have "laid p + mset (emitted events w l) \<subseteq># laid ?p"
    using Cons.prems laid_foldl [of "take_images p (le_seq l) (event_images (le_event l))" "event_messages events w l"]
    by (auto simp: project_event_def emitted_def)
  then have "laid p + mset (concat (map (emitted events w) (l # ls)))
      \<subseteq># laid ?p + mset (concat (map (emitted events w) ls))"
    by (simp add: subset_mset.add_right_mono flip: add.assoc)
  also have "\<dots> \<subseteq># laid (foldl (project_event events w) ?p ls)" using Cons by simp
  finally show ?case by simp
qed simp

lemma concat_emitted_filter:
  "concat (map (emitted events w) (filter (unfolded events) ls)) = concat (map (emitted events w) ls)"
  by (induction ls) (auto simp: emitted_def)

lemma emitted_in_project: "mset (concat (map (emitted events w) events)) \<subseteq># mset (project events w)"
proof -
  define p where "p = foldl (project_event events w) (project_start events) (filter (unfolded events) events)"
  have "mset (concat (map (emitted events w) (filter (unfolded events) events))) \<subseteq># laid p"
    using laid_events [of "filter (unfolded events) events" events "project_start events" w]
    unfolding p_def by (auto intro: subset_mset.order_trans [OF mset_subset_eq_add_right])
  also have "laid p \<subseteq># mset (project events w)"
    by (auto simp: project_def p_def [symmetric] finish_def release_eq laid_def)
  finally show ?thesis by (simp only: concat_emitted_filter)
qed

lemma mset_concat_map: "mset (concat (map g xs)) = sum_mset (image_mset (\<lambda>x. mset (g x)) (mset xs))"
  by (induction xs) auto

lemma mset_concat_mono:
  assumes "mset xs \<subseteq># mset ys"
  shows "mset (concat (map g xs)) \<subseteq># mset (concat (map g ys))"
proof -
  obtain zs where "mset ys = mset xs + zs" using assms by (metis subset_mset.less_eqE)
  then show ?thesis by (simp add: mset_concat_map)
qed

lemma map_filter_concat: "List.map_filter g xs = concat (map (\<lambda>x. case g x of Some y \<Rightarrow> [y] | None \<Rightarrow> []) xs)"
  by (induction xs) (auto simp: List.map_filter_simps split: option.splits)

lemma pinned_texts_mono:
  "mset xs \<subseteq># mset ys \<Longrightarrow> mset (pinned_texts (map tm_message xs)) \<subseteq># mset (pinned_texts (map tm_message ys))"
  unfolding pinned_texts_def map_filter_concat by (intro mset_concat_mono) (simp add: image_mset_subseteq_mono)

lemma distinct_subset_mset: "distinct xs \<Longrightarrow> set xs \<subseteq> set ys \<Longrightarrow> mset xs \<subseteq># mset ys"
proof (rule mset_subset_eqI)
  fix a assume "distinct xs" "set xs \<subseteq> set ys"
  then show "count (mset xs) a \<le> count (mset ys) a"
    by (cases "a \<in> set xs") (auto simp: distinct_count_atmost_1 count_mset_0_iff Suc_le_eq dest!: subsetD)
qed

lemma user_text_at_event:
  "user_text_at s ls = Some t \<Longrightarrow> \<exists>l\<in>set ls. le_seq l = s \<and> (\<exists>tn imgs. le_event l = UserMessage tn t imgs)"
  unfolding user_text_at_def
  by (induction ls) (auto simp: List.map_filter_simps split: option.splits session_event.splits if_splits)

lemma pinned_event_emitted:
  assumes "l \<in> set (retained_events events)" "le_event l = UserMessage tn t imgs" "is_pinned events (le_seq l)"
  shows "pinned_texts (map tm_message (emitted events False l)) = [t]"
proof -
  have "kept events l" "unfolded events l"
    using assms by (auto simp: retained_events_def Let_def kept_def unfolded_def is_memory_def split: if_splits)
  then have "emitted events False l = [traced (user_event_message events False (le_seq l) t imgs) (Event (le_seq l))]"
    using assms(2) by (simp add: emitted_def event_messages_def Let_def)
  moreover have "pinned_text (user_event_message events False (le_seq l) t imgs) = Some t"
    using assms(3)
    by (simp add: user_event_message_def Let_def pinned_text_def message_user_def user_with_images_def)
  ultimately show ?thesis by (simp add: pinned_texts_def List.map_filter_simps)
qed

lemma pinned_texts_append: "pinned_texts (xs @ ys) = pinned_texts xs @ pinned_texts ys"
  by (simp add: pinned_texts_def map_filter_append)

lemma pinned_in_request:
  assumes ok: "list_all (source_ok digest events) (active_sources events)"
  shows "mset (map (snd \<circ> source_text events) (active_sources events))
    \<subseteq># mset (pinned_texts (derive_messages events))"
proof -
  let ?srcs = "active_sources events"
  have "\<forall>src\<in>set ?srcs. \<exists>l. l \<in> set (retained_events events) \<and> le_seq l = fst src
      \<and> (\<exists>tn imgs. le_event l = UserMessage tn (snd (source_text events src)) imgs)"
  proof
    fix src assume "src \<in> set ?srcs"
    with ok have "source_ok digest events src" unfolding list_all_iff by blast
    then obtain t where t: "user_text_at (fst src) (retained_events events) = Some t"
      by (cases src) (auto simp: source_ok_def split: option.splits)
    with user_text_at_event [OF t] show "\<exists>l. l \<in> set (retained_events events) \<and> le_seq l = fst src
      \<and> (\<exists>tn imgs. le_event l = UserMessage tn (snd (source_text events src)) imgs)"
      by (auto simp: source_text_def)
  qed
  then obtain pick where pick: "\<And>src. src \<in> set ?srcs \<Longrightarrow> pick src \<in> set (retained_events events)
      \<and> le_seq (pick src) = fst src \<and> (\<exists>tn imgs. le_event (pick src) = UserMessage tn (snd (source_text events src)) imgs)"
    by metis
  have pinned: "is_pinned events (fst src)" if "src \<in> set ?srcs" for src
    using that by (auto simp: is_pinned_def map_of_eq_None_iff)
  have texts: "pinned_texts (map tm_message (concat (map (emitted events False) (map pick xs))))
      = map (snd \<circ> source_text events) xs" if "set xs \<subseteq> set ?srcs" for xs
    using that
  proof (induction xs)
    case (Cons x xs)
    from Cons.prems have x: "x \<in> set ?srcs" by simp
    then obtain tn imgs where "le_event (pick x) = UserMessage tn (snd (source_text events x)) imgs"
      using pick by blast
    with x pick [OF x] pinned [OF x] have "pinned_texts (map tm_message (emitted events False (pick x)))
        = [snd (source_text events x)]" by (intro pinned_event_emitted) auto
    with Cons show ?case by (simp add: pinned_texts_append)
  qed (simp add: pinned_texts_def List.map_filter_simps)
  have "map fst ?srcs = map le_seq (map pick ?srcs)" using pick by simp
  moreover have "distinct (map fst ?srcs)"
    using bt.sorted_entries [OF bt_invar_active_sources] by (metis strict_sorted_iff)
  ultimately have "distinct (map pick ?srcs)" by (metis distinct_map)
  moreover have "set (map pick ?srcs) \<subseteq> set events"
    using pick by (auto simp: retained_events_def Let_def)
  ultimately have "mset (map pick ?srcs) \<subseteq># mset events" by (rule distinct_subset_mset)
  then have "mset (concat (map (emitted events False) (map pick ?srcs))) \<subseteq># mset (project events False)"
    using mset_concat_mono emitted_in_project subset_mset.order_trans by blast
  from pinned_texts_mono [OF this] show ?thesis
    unfolding derive_messages_def texts [OF subset_refl] .
qed

lemma validate_request_of_projection:
  "validate digest events = Inr texts \<Longrightarrow>
   \<exists>n. validate_request digest events (derive_messages events) = Inr n"
  using pinned_in_request [of digest events] by (simp add: validate_request_Inr validate_Inr)

section \<open>A rewind gives back the projection from before\<close>

definition call_ids_of :: "session_event \<Rightarrow> string set" where
  "call_ids_of e = (case e of AssistantMessage _ _ _ _ calls _ _ \<Rightarrow> tc_id ` set calls
     | ToolResultLogged _ _ i _ _ _ \<Rightarrow> {i} | _ \<Rightarrow> {})"

definition call_ids_in :: "logged_event list \<Rightarrow> string set" where
  "call_ids_in ls = (\<Union>l\<in>set ls. call_ids_of (le_event l))"

definition turns_in :: "logged_event list \<Rightarrow> turn_no set" where
  "turns_in ls = (\<lambda>l. turn (le_event l)) ` set ls"

text \<open>
  \<open>r\<close> rewinds the conversation over exactly the stretch \<open>mid\<close> behind \<open>pre\<close>: the stretch holds
  turns and tool calls of its own, no fact that stands for the session, and no rewind that reaches
  back further.
\<close>

definition undoes :: "logged_event list \<Rightarrow> logged_event list \<Rightarrow> logged_event \<Rightarrow> bool" where
  "undoes pre mid r \<longleftrightarrow>
     (case le_event r of
        Rewound _ to' scope \<Rightarrow>
          takes_back_conversation scope
          \<and> (\<forall>l\<in>set pre. le_seq l < to')
          \<and> (\<forall>l\<in>set mid. to' \<le> le_seq l \<and> le_seq l < le_seq r
               \<and> (case le_event l of Rewound _ to2 _ \<Rightarrow> to' \<le> to2 | _ \<Rightarrow> True))
      | _ \<Rightarrow> False)
     \<and> (\<forall>l\<in>set mid. \<not> stands_for_the_session (le_event l))
     \<and> turns_in mid \<inter> turns_in pre = {} \<and> call_ids_in mid \<inter> call_ids_in pre = {}"

lemma undoesE:
  assumes "undoes pre mid r"
  obtains tn to' scope where "le_event r = Rewound tn to' scope" "takes_back_conversation scope"
    "\<forall>l\<in>set pre. le_seq l < to'" "\<forall>l\<in>set mid. to' \<le> le_seq l \<and> le_seq l < le_seq r"
    "\<forall>l\<in>set mid. \<forall>t2 to2 sc. le_event l = Rewound t2 to2 sc \<longrightarrow> to' \<le> to2"
proof -
  from assms obtain tn to' scope where r: "le_event r = Rewound tn to' scope"
    unfolding undoes_def by (auto split: session_event.splits)
  then show thesis using assms by (intro that [of tn to' scope]) (auto simp: undoes_def)
qed

lemma undoesD:
  assumes "undoes pre mid r"
  shows "l \<in> set mid \<Longrightarrow> \<not> stands_for_the_session (le_event l)"
    and "turns_in mid \<inter> turns_in pre = {}" and "call_ids_in mid \<inter> call_ids_in pre = {}"
  using assms by (auto simp: undoes_def)

lemma rewound_ranges_append [simp]: "rewound_ranges (a @ b) = rewound_ranges a @ rewound_ranges b"
  by (simp add: rewound_ranges_def map_filter_append)

lemma in_rewound_ranges:
  "(a, b) \<in> set (rewound_ranges ls) \<longleftrightarrow>
     (\<exists>l\<in>set ls. b = le_seq l \<and> (\<exists>t sc. le_event l = Rewound t a sc \<and> takes_back_conversation sc))"
  by (induction ls)
    (auto simp: rewound_ranges_def List.map_filter_simps split: option.splits session_event.splits if_splits)

lemma undo_taken_back:
  assumes "undoes pre mid r"
  shows "l \<in> set pre \<Longrightarrow> taken_back (pre @ mid @ [r]) (le_seq l) = taken_back pre (le_seq l)"
    and "l \<in> set mid \<Longrightarrow> taken_back (pre @ mid @ [r]) (le_seq l)"
proof -
  from assms obtain tn to' scope where r: "le_event r = Rewound tn to' scope" "takes_back_conversation scope"
    "\<forall>l\<in>set pre. le_seq l < to'" "\<forall>l\<in>set mid. to' \<le> le_seq l \<and> le_seq l < le_seq r"
    "\<forall>l\<in>set mid. \<forall>t2 to2 sc. le_event l = Rewound t2 to2 sc \<longrightarrow> to' \<le> to2"
    by (rule undoesE) (rule that)
  have late: "to' \<le> a" if "(a, b) \<in> set (rewound_ranges (mid @ [r]))" for a b
    using that r(1,5) unfolding in_rewound_ranges by auto
  show "taken_back (pre @ mid @ [r]) (le_seq l) = taken_back pre (le_seq l)" if "l \<in> set pre"
  proof -
    have "\<not> (a \<le> le_seq l \<and> le_seq l < b)" if "(a, b) \<in> set (rewound_ranges (mid @ [r]))" for a b
      using late [OF that] r(3) \<open>l \<in> set pre\<close> by fastforce
    then have "\<not> list_ex (\<lambda>(a, b). a \<le> le_seq l \<and> le_seq l < b) (rewound_ranges (mid @ [r]))"
      by (auto simp: list_ex_iff)
    then show ?thesis unfolding taken_back_def rewound_ranges_append list_ex_append by simp
  qed
  show "taken_back (pre @ mid @ [r]) (le_seq l)" if "l \<in> set mid"
  proof -
    have "(to', le_seq r) \<in> set (rewound_ranges (pre @ mid @ [r]))"
      using r(1,2) unfolding in_rewound_ranges by auto
    then show ?thesis using r(4) that unfolding taken_back_def list_ex_iff by fastforce
  qed
qed

lemma filter_log:
  assumes "\<And>l. l \<in> set pre \<Longrightarrow> P l = Q l" "\<And>l. l \<in> set mid \<Longrightarrow> \<not> P l"
  shows "filter P (pre @ mid @ [r]) = filter Q pre @ (if P r then [r] else [])"
  using assms filter_cong [OF refl, of pre P Q] by (simp add: filter_empty_conv)

lemma undo_standing:
  "undoes pre mid r \<Longrightarrow> standing (pre @ mid @ [r]) =
     standing pre @ (if taken_back (pre @ mid @ [r]) (le_seq r) then [] else [r])"
  unfolding standing_def by (subst filter_log) (auto simp: undo_taken_back)

lemma undo_rewound: "undoes pre mid r \<Longrightarrow> is_rewound (le_event r)"
  by (erule undoesE) simp

lemma foldl_rewound:
  assumes "undoes pre mid r" "\<And>a. g a r = a"
  shows "foldl g a (standing (pre @ mid @ [r])) = foldl g a (standing pre)"
  using assms by (simp add: undo_standing)

lemma undo_summary:
  assumes "undoes pre mid r"
  shows "last_summary (pre @ mid @ [r]) = last_summary pre"
    and "stubbed_through (pre @ mid @ [r]) = stubbed_through pre"
    and "rewritten_texts (pre @ mid @ [r]) = rewritten_texts pre"
    and "folded_ranges (pre @ mid @ [r]) = folded_ranges pre"
proof -
  from undo_rewound [OF assms] obtain t a sc where r: "le_event r = Rewound t a sc"
    by (cases "le_event r") auto
  show "last_summary (pre @ mid @ [r]) = last_summary pre"
    "stubbed_through (pre @ mid @ [r]) = stubbed_through pre"
    "rewritten_texts (pre @ mid @ [r]) = rewritten_texts pre"
    unfolding last_summary_def stubbed_through_def rewritten_texts_def
    by (rule foldl_rewound [OF assms], simp add: r)+
  show "folded_ranges (pre @ mid @ [r]) = folded_ranges pre"
    unfolding folded_ranges_def
    by (subst filter_log [where Q = "\<lambda>l. \<not> taken_back pre (le_seq l)"])
      (auto simp: undo_taken_back [OF assms] map_filter_append List.map_filter_simps r)
qed

lemma undone_append: "undone_by_interruption (a @ b) = undone_by_interruption a \<union> undone_by_interruption b"
  by (simp add: undone_by_interruption_def map_filter_append)

lemma undone_in_turns: "undone_by_interruption ls \<subseteq> turns_in ls"
  by (induction ls)
    (auto simp: undone_by_interruption_def turns_in_def List.map_filter_simps
      split: option.splits session_event.splits bool.splits)

lemma undo_undone:
  assumes "undoes pre mid r" "l \<in> set pre"
  shows "turn (le_event l) \<in> undone_by_interruption (pre @ mid @ [r]) \<longleftrightarrow>
    turn (le_event l) \<in> undone_by_interruption pre"
proof -
  have "turn (le_event l) \<in> turns_in pre" using assms(2) by (auto simp: turns_in_def)
  then have "turn (le_event l) \<notin> undone_by_interruption mid"
    using undone_in_turns [of mid] undoesD(2) [OF assms(1)] by blast
  moreover have "undone_by_interruption [r] = {}"
    using undo_rewound [OF assms(1)]
    by (cases "le_event r") (auto simp: undone_by_interruption_def List.map_filter_simps)
  ultimately show ?thesis by (simp add: undone_append del: append_assoc)
qed

lemma undo_pinned:
  assumes "undoes pre mid r"
  shows "is_pinned (pre @ mid @ [r]) = is_pinned pre"
proof -
  let ?Q = "\<lambda>l. if taken_back pre (le_seq l) then False
      else retained_session_wide (le_event l) \<or> turn (le_event l) \<notin> undone_by_interruption pre"
  have inert: "apply_retention r m = m" for m
    using undo_rewound [OF assms] by (cases "le_event r") (auto simp: apply_retention_def)
  have "\<exists>rs. set rs \<subseteq> {r} \<and> retained_events (pre @ mid @ [r]) = filter ?Q pre @ rs"
    unfolding retained_events_def Let_def
    by (subst filter_log [where Q = ?Q]) (auto simp: undo_taken_back [OF assms] undo_undone [OF assms])
  then obtain rs where rs: "set rs \<subseteq> {r}" "retained_events (pre @ mid @ [r]) = retained_events pre @ rs"
    by (auto simp: retained_events_def Let_def)
  have "fold apply_retention rs m = m" for m
    using rs(1) by (induction rs arbitrary: m) (auto simp: inert)
  then have "active_sources (pre @ mid @ [r]) = active_sources pre"
    by (simp add: active_sources_def rs(2))
  then show ?thesis by (simp add: fun_eq_iff is_pinned_def)
qed

lemma undo_memory:
  assumes "undoes pre mid r"
  shows "latest_memory (pre @ mid @ [r]) = latest_memory pre"
proof -
  have "\<not> is_memory (le_event l)" if "l \<in> set (mid @ [r])" for l
    using that undoesD(1) [OF assms, of l] undo_rewound [OF assms]
    by (cases "le_event l") (auto simp: is_memory_def split: injection_origin.splits)
  then have "filter (\<lambda>l. is_memory (le_event l)) (mid @ [r]) = []" by (simp add: filter_empty_conv)
  then show ?thesis by (simp add: latest_memory_def split: if_splits)
qed

lemma undo_answered:
  assumes "undoes pre mid r" "i \<in> call_ids_in pre"
  shows "i \<in> answered_calls (pre @ mid @ [r]) \<longleftrightarrow> i \<in> answered_calls pre"
proof -
  have "answered_calls ls \<subseteq> call_ids_in ls" for ls
    by (induction ls) (auto simp: answered_calls_def call_ids_in_def call_ids_of_def List.map_filter_simps
        split: option.splits session_event.splits)
  then have "i \<notin> answered_calls mid" using assms(2) undoesD(3) [OF assms(1)] by blast
  moreover have "answered_calls [r] = {}"
    using undo_rewound [OF assms(1)] by (cases "le_event r") (auto simp: answered_calls_def List.map_filter_simps)
  moreover have "answered_calls (a @ b) = answered_calls a \<union> answered_calls b" for a b
    by (simp add: answered_calls_def map_filter_append)
  ultimately show ?thesis by simp
qed

lemma undo_calls_of_turn:
  assumes "undoes pre mid r" "t \<in> turns_in pre"
  shows "calls_of_turn t (pre @ mid @ [r]) = calls_of_turn t pre"
proof -
  have "filter (\<lambda>l. turn (le_event l) = t) mid = []"
    using assms(2) undoesD(2) [OF assms(1)] by (auto simp: filter_empty_conv turns_in_def)
  then show ?thesis
    using undo_rewound [OF assms(1)] by (cases "le_event r") (auto simp: calls_of_turn_def)
qed

lemma foldl_skip_at: "(\<And>m l. l \<in> set ls \<Longrightarrow> g m l i = m i) \<Longrightarrow> foldl g m ls i = m i"
proof (induction ls arbitrary: m)
  case (Cons l ls)
  then have "foldl g (g m l) ls i = g m l i" by simp
  with Cons.prems show ?case by simp
qed simp

lemma undo_tool_names:
  assumes "undoes pre mid r" "i \<in> call_ids_in pre"
  shows "tool_names (pre @ mid @ [r]) i = tool_names pre i"
proof -
  let ?g = "\<lambda>acc l. case le_event l of
      AssistantMessage _ _ _ _ calls _ _ \<Rightarrow> foldl (\<lambda>acc c. acc(tc_id c \<mapsto> tc_name c)) acc calls | _ \<Rightarrow> acc"
  have calls: "foldl (\<lambda>acc c. acc(tc_id c \<mapsto> tc_name c)) m cs i = m i" if "i \<notin> tc_id ` set cs" for m cs
    using that by (induction cs arbitrary: m) auto
  have "?g m l i = m i" if "i \<notin> call_ids_of (le_event l)" for m l
    using that by (cases "le_event l") (simp_all add: call_ids_of_def calls)
  then have skip: "foldl ?g m ls i = m i" if "i \<notin> call_ids_in ls" for m ls
    using that by (intro foldl_skip_at) (auto simp: call_ids_in_def)
  have "i \<notin> call_ids_in (mid @ [r])"
    using assms(2) undoesD(3) [OF assms(1)] undo_rewound [OF assms(1)]
    by (cases "le_event r") (auto simp: call_ids_in_def call_ids_of_def)
  from skip [OF this] show ?thesis by (simp only: tool_names_def foldl_append)
qed

lemma call_in_log: "c \<in> set (calls_of_turn t ls) \<Longrightarrow> tc_id c \<in> call_ids_in ls"
proof -
  have "tc_id ` set (case e of AssistantMessage _ _ _ _ calls _ _ \<Rightarrow> calls | _ \<Rightarrow> []) \<subseteq> call_ids_of e" for e
    by (cases e) (auto simp: call_ids_of_def)
  moreover assume "c \<in> set (calls_of_turn t ls)"
  ultimately show ?thesis unfolding calls_of_turn_def call_ids_in_def by fastforce
qed

lemma undo_event_messages:
  assumes "undoes pre mid r" "l \<in> set pre"
  shows "event_messages (pre @ mid @ [r]) w l = event_messages pre w l"
proof -
  have t: "turn (le_event l) \<in> turns_in pre" using assms(2) by (auto simp: turns_in_def)
  show ?thesis
  proof (cases "le_event l")
    case (Interrupted t undone)
    then have "t \<in> turns_in pre" using t by simp
    then have "calls_of_turn t (pre @ mid @ [r]) = calls_of_turn t pre"
      by (rule undo_calls_of_turn [OF assms(1)])
    moreover have "filter (\<lambda>c. tc_id c \<notin> answered_calls (pre @ mid @ [r])) (calls_of_turn t pre)
        = filter (\<lambda>c. tc_id c \<notin> answered_calls pre) (calls_of_turn t pre)"
      using undo_answered [OF assms(1) call_in_log] by (intro filter_cong) auto
    ultimately show ?thesis using Interrupted by (simp add: event_messages_def Let_def)
  next
    case (ToolResultLogged t rd i content err imgs)
    then have "i \<in> call_ids_in pre" using assms(2) by (force simp: call_ids_in_def call_ids_of_def)
    then show ?thesis
      using ToolResultLogged undo_summary [OF assms(1)] undo_tool_names [OF assms(1)]
      by (simp add: event_messages_def Let_def shown_result_def split: option.split)
  qed (simp_all add: event_messages_def Let_def user_event_message_def undo_summary [OF assms(1)] undo_pinned [OF assms(1)])
qed

lemma project_undo:
  assumes "undoes pre mid r"
  shows "project (pre @ mid @ [r]) w = project pre w"
proof -
  let ?ev = "pre @ mid @ [r]"
  have kept_pre: "kept ?ev l = kept pre l" if "l \<in> set pre" for l
    using that by (simp add: kept_def undo_taken_back [OF assms] undo_undone [OF assms])
  have unf: "unfolded ?ev = unfolded pre"
    by (simp add: fun_eq_iff unfolded_def undo_memory [OF assms] undo_pinned [OF assms] undo_summary [OF assms])
  have pre: "foldl (project_event ?ev w) p ls = foldl (project_event pre w) p ls" if "set ls \<subseteq> set pre" for p ls
    using that
    by (intro foldl_cong) (auto simp: project_event_def kept_pre undo_event_messages [OF assms] subset_iff)
  have skip: "project_event ?ev w p l = p" if "l \<in> set (mid @ [r])" for p l
  proof (cases "l \<in> set mid")
    case True
    then have "\<not> kept ?ev l" using undo_taken_back(2) [OF assms] undoesD(1) [OF assms] by (simp add: kept_def)
    then show ?thesis by (simp add: project_event_def)
  next
    case False
    with that undo_rewound [OF assms] show ?thesis
      by (cases "le_event l") (auto simp: project_event_def event_messages_def event_images_def take_images_def)
  qed
  have rest: "foldl (project_event ?ev w) p ls = p" if "set ls \<subseteq> set (mid @ [r])" for p ls
    using that by (induction ls) (auto simp: skip)
  have "foldl (project_event ?ev w) (project_start ?ev) (filter (unfolded ?ev) ?ev)
      = foldl (project_event ?ev w) (foldl (project_event ?ev w) (project_start ?ev) (filter (unfolded pre) pre))
          (filter (unfolded pre) (mid @ [r]))"
    by (simp only: unf filter_append foldl_append)
  also have "\<dots> = foldl (project_event pre w) (project_start pre) (filter (unfolded pre) pre)"
  proof -
    have "project_start ?ev = project_start pre" by (simp add: project_start_def undo_summary [OF assms])
    moreover have "foldl (project_event ?ev w) q (filter (unfolded pre) (mid @ [r])) = q" for q
      by (rule rest) auto
    moreover have "foldl (project_event ?ev w) q (filter (unfolded pre) pre)
        = foldl (project_event pre w) q (filter (unfolded pre) pre)" for q
      by (rule pre) auto
    ultimately show ?thesis by (simp only:)
  qed
  finally show ?thesis by (simp add: project_def)
qed

end
