(* ===== verification/Realm.thy ===== *)
theory Realm
  imports Prelude
begin

text \<open>
  Realms (\<open>crates/atomcode-plexus/src/realm.rs\<close>): a forest of scopes, each layered over the one
  it was forked from. A \<open>HashMap\<close> that is only looked up and inserted into is an association list,
  newest entry first. Two walks up the tree occur in the sources: \<open>ancestry\<close>, which guards against
  a cycle, and the bare loop of the service table (\<open>find_up\<close>), which does not; the second is a
  partial function whose outer \<open>None\<close> is not returning. The lemmas show that a tree built by
  \<open>fork\<close> has no cycle, that the bare loop therefore returns and agrees with the guarded walk, and
  that visibility is a one-way order with the root at the top.
\<close>

type_synonym realm_id = nat

definition ROOT_REALM :: realm_id where
  "ROOT_REALM = 0"

record realm_tree =
  parents :: "(realm_id \<times> realm_id) list"
  next_realm :: realm_id

definition realm_tree_new :: realm_tree where
  "realm_tree_new = \<lparr>parents = [], next_realm = 1\<rparr>"

definition fork :: "realm_tree \<Rightarrow> realm_id \<Rightarrow> realm_id \<times> realm_tree" where
  "fork t p = (next_realm t, t\<lparr>parents := (next_realm t, p) # parents t, next_realm := next_realm t + 1\<rparr>)"

definition parent_of :: "realm_tree \<Rightarrow> realm_id \<Rightarrow> realm_id option" where
  "parent_of t r = map_of (parents t) r"

function ancestry_from :: "realm_tree \<Rightarrow> realm_id list \<Rightarrow> realm_id \<Rightarrow> realm_id list" where
  "ancestry_from t chain current =
     (case parent_of t current of
        None \<Rightarrow> chain
      | Some p \<Rightarrow> if p \<in> set chain then chain else ancestry_from t (chain @ [p]) p)"
  by pat_completeness auto
termination
proof (relation "measure (\<lambda>(t, chain, current). card (snd ` set (parents t) - set chain))")
  fix t :: realm_tree and chain current p
  assume p: "parent_of t current = Some p" "p \<notin> set chain"
  then have "p \<in> snd ` set (parents t)" by (force simp: parent_of_def dest: map_of_SomeD)
  with p(2) have "snd ` set (parents t) - set (chain @ [p]) \<subset> snd ` set (parents t) - set chain" by auto
  then have "card (snd ` set (parents t) - set (chain @ [p])) < card (snd ` set (parents t) - set chain)"
    by (intro psubset_card_mono) auto
  then show "((t, chain @ [p], p), t, chain, current)
      \<in> measure (\<lambda>(t, chain, current). card (snd ` set (parents t) - set chain))" by simp
qed simp

declare ancestry_from.simps [simp del]

definition ancestry :: "realm_tree \<Rightarrow> realm_id \<Rightarrow> realm_id list" where
  "ancestry t r = ancestry_from t [r] r"

definition visible_from :: "realm_tree \<Rightarrow> realm_id \<Rightarrow> realm_id \<Rightarrow> bool" where
  "visible_from t owner viewer =
     (if owner = viewer \<or> owner = ROOT_REALM then True else owner \<in> set (ancestry t viewer))"

text \<open>The loop of \<open>get\<close> and \<open>has_named\<close>: the first realm at or above \<open>r\<close> where \<open>P\<close> holds.\<close>

partial_function (option) find_up :: "realm_tree \<Rightarrow> (realm_id \<Rightarrow> bool) \<Rightarrow> realm_id \<Rightarrow> realm_id option option" where
  "find_up t P r =
     (if P r then Some (Some r)
      else (case parent_of t r of None \<Rightarrow> Some None | Some p \<Rightarrow> find_up t P p))"

text \<open>The realms such a loop passes when nothing stops it.\<close>

partial_function (option) walk_up :: "realm_tree \<Rightarrow> realm_id \<Rightarrow> realm_id list option" where
  "walk_up t r =
     (case parent_of t r of None \<Rightarrow> Some [r] | Some p \<Rightarrow> Option.bind (walk_up t p) (\<lambda>c. Some (r # c)))"

section \<open>Trees built by forking\<close>

definition realm_inv :: "realm_tree \<Rightarrow> bool" where
  "realm_inv t \<longleftrightarrow> 1 \<le> next_realm t \<and> (\<forall>(c, p)\<in>set (parents t). p < c \<and> c < next_realm t)"

lemma realm_inv_new: "realm_inv realm_tree_new"
  by (simp add: realm_inv_def realm_tree_new_def)

lemma realm_inv_fork: "realm_inv t \<Longrightarrow> p < next_realm t \<Longrightarrow> realm_inv (snd (fork t p))"
  by (fastforce simp: realm_inv_def fork_def)

lemma parent_less: "realm_inv t \<Longrightarrow> parent_of t r = Some p \<Longrightarrow> p < r \<and> r < next_realm t"
  by (auto simp: realm_inv_def parent_of_def dest!: map_of_SomeD)

text \<open>The chain of a realm, without the guard.\<close>

inductive chain_of :: "realm_tree \<Rightarrow> realm_id \<Rightarrow> realm_id list \<Rightarrow> bool" for t where
  chain_top: "parent_of t r = None \<Longrightarrow> chain_of t r [r]"
| chain_up: "parent_of t r = Some p \<Longrightarrow> chain_of t p c \<Longrightarrow> chain_of t r (r # c)"

inductive_cases chain_ofE: "chain_of t r c"

lemma chain_of_exists: "realm_inv t \<Longrightarrow> \<exists>c. chain_of t r c"
proof (induction r rule: less_induct)
  case (less r)
  show ?case
  proof (cases "parent_of t r")
    case (Some p)
    with less obtain c where "chain_of t p c" using parent_less by blast
    with Some show ?thesis using chain_up by blast
  qed (use chain_top in blast)
qed

lemma chain_of_below: "chain_of t r c \<Longrightarrow> realm_inv t \<Longrightarrow> (\<forall>x\<in>set c. x \<le> r) \<and> r \<in> set c"
proof (induction rule: chain_of.induct)
  case (chain_up r p c)
  then have "p < r" using parent_less by blast
  with chain_up show ?case by (auto intro: less_imp_le order_trans)
qed simp

lemma ancestry_from_chain:
  "chain_of t r c \<Longrightarrow> realm_inv t \<Longrightarrow> \<forall>x\<in>set pre. r < x \<Longrightarrow> ancestry_from t (pre @ [r]) r = pre @ c"
proof (induction arbitrary: pre rule: chain_of.induct)
  case (chain_top r)
  then show ?case by (simp add: ancestry_from.simps)
next
  case (chain_up r p c)
  have p: "p < r" using chain_up.hyps(1) chain_up.prems(1) parent_less by blast
  then have "p \<notin> set (pre @ [r])" using chain_up.prems(2) by auto
  moreover have "ancestry_from t ((pre @ [r]) @ [p]) p = (pre @ [r]) @ c"
    using chain_up.IH chain_up.prems p by (intro chain_up.IH) auto
  ultimately show ?case using chain_up.hyps(1) by (simp add: ancestry_from.simps [of t "pre @ [r]" r])
qed

lemma ancestry_chain: "realm_inv t \<Longrightarrow> chain_of t r (ancestry t r)"
  using ancestry_from_chain [of t r _ "[]"] chain_of_exists [of t r] by (auto simp: ancestry_def)

lemma chain_of_unique: "chain_of t x c \<Longrightarrow> chain_of t x d \<Longrightarrow> c = d"
proof (induction arbitrary: d rule: chain_of.induct)
  case (chain_top r)
  from chain_top.prems show ?case by (rule chain_ofE) (use chain_top.hyps in auto)
next
  case (chain_up r p c)
  from chain_up.prems chain_up.hyps(1) obtain d' where "d = r # d'" "chain_of t p d'"
    by (auto elim: chain_ofE)
  with chain_up.IH show ?case by blast
qed

lemma ancestry_unfold:
  "realm_inv t \<Longrightarrow> ancestry t r = r # (case parent_of t r of None \<Rightarrow> [] | Some p \<Rightarrow> ancestry t p)"
proof -
  assume inv: "realm_inv t"
  have "chain_of t r (r # (case parent_of t r of None \<Rightarrow> [] | Some p \<Rightarrow> ancestry t p))"
    using ancestry_chain [OF inv] by (auto split: option.splits intro: chain_of.intros)
  with chain_of_unique ancestry_chain [OF inv] show ?thesis by blast
qed

lemma ancestry_cases:
  "realm_inv t \<Longrightarrow> x \<in> set (ancestry t r) \<longleftrightarrow> x = r \<or> (\<exists>p. parent_of t r = Some p \<and> x \<in> set (ancestry t p))"
  by (drule ancestry_unfold [of t r]) (auto split: option.splits)

lemma find_up_eq: "realm_inv t \<Longrightarrow> find_up t P r = Some (find P (ancestry t r))"
proof (induction r rule: less_induct)
  case (less r)
  then show ?case
    using parent_less [OF less.prems]
    by (subst find_up.simps, subst ancestry_unfold [OF less.prems]) (auto split: option.splits)
qed

lemma walk_up_eq: "realm_inv t \<Longrightarrow> walk_up t r = Some (ancestry t r)"
proof (induction r rule: less_induct)
  case (less r)
  then show ?case
    using parent_less [OF less.prems]
    by (subst walk_up.simps, subst ancestry_unfold [OF less.prems]) (auto split: option.splits)
qed

lemma ancestry_self: "realm_inv t \<Longrightarrow> r \<in> set (ancestry t r)"
  by (simp add: ancestry_cases [of t r r])

lemma ancestry_le: "realm_inv t \<Longrightarrow> x \<in> set (ancestry t r) \<Longrightarrow> x \<le> r"
  using chain_of_below ancestry_chain by blast

lemma ancestry_trans:
  "realm_inv t \<Longrightarrow> a \<in> set (ancestry t b) \<Longrightarrow> b \<in> set (ancestry t c) \<Longrightarrow> a \<in> set (ancestry t c)"
proof (induction c rule: less_induct)
  case (less c)
  show ?case
  proof (cases "b = c")
    case False
    with less.prems(3) obtain p where p: "parent_of t c = Some p" "b \<in> set (ancestry t p)"
      using ancestry_cases [OF less.prems(1), of b c] by blast
    with less have "a \<in> set (ancestry t p)" using parent_less by blast
    with p(1) show ?thesis using ancestry_cases [OF less.prems(1)] by blast
  qed (use less in simp)
qed

section \<open>Visibility\<close>

lemma visible_from_refl: "visible_from t r r"
  by (simp add: visible_from_def)

lemma visible_from_root: "visible_from t ROOT_REALM r"
  by (simp add: visible_from_def)

lemma visible_from_le: "realm_inv t \<Longrightarrow> visible_from t owner viewer \<Longrightarrow> owner \<le> viewer"
  by (auto simp: visible_from_def ROOT_REALM_def dest: ancestry_le split: if_splits)

lemma visible_from_trans:
  "realm_inv t \<Longrightarrow> visible_from t a b \<Longrightarrow> visible_from t b c \<Longrightarrow> visible_from t a c"
proof -
  assume inv: "realm_inv t" and ab: "visible_from t a b" and bc: "visible_from t b c"
  have root: "b = 0 \<Longrightarrow> a = 0" using visible_from_le [OF inv ab] by simp
  from ab bc root show ?thesis
    by (auto simp: visible_from_def ROOT_REALM_def ancestry_self [OF inv] split: if_splits
        intro: ancestry_trans [OF inv])
qed

lemma visible_from_one_way: "realm_inv t \<Longrightarrow> visible_from t a b \<Longrightarrow> visible_from t b a \<Longrightarrow> a = b"
  using visible_from_le by (meson le_antisym)

lemma parent_of_fork:
  "parent_of (snd (fork t p)) r = (if r = next_realm t then Some p else parent_of t r)"
  by (simp add: parent_of_def fork_def)

lemma ancestry_fork_old:
  assumes "realm_inv t" "p < next_realm t"
  shows "r < next_realm t \<Longrightarrow> ancestry (snd (fork t p)) r = ancestry t r"
proof (induction r rule: less_induct)
  case (less r)
  have pf: "parent_of (snd (fork t p)) r = parent_of t r" using less.prems by (simp add: parent_of_fork)
  have "ancestry (snd (fork t p)) q = ancestry t q" if "parent_of t r = Some q" for q
    using less.IH [of q] less.prems parent_less [OF assms(1) that] by simp
  then show ?case
    by (subst ancestry_unfold [OF realm_inv_fork [OF assms]], subst ancestry_unfold [OF assms(1)])
      (simp add: pf split: option.split)
qed

lemma ancestry_fork_new:
  assumes "realm_inv t" "p < next_realm t"
  shows "ancestry (snd (fork t p)) (next_realm t) = next_realm t # ancestry t p"
  by (subst ancestry_unfold [OF realm_inv_fork [OF assms]])
    (simp add: parent_of_fork ancestry_fork_old [OF assms assms(2)])

lemma ancestry_root: "realm_inv t \<Longrightarrow> ancestry t ROOT_REALM = [ROOT_REALM]"
  using ancestry_unfold [of t ROOT_REALM] parent_less [of t ROOT_REALM]
  by (auto simp: ROOT_REALM_def split: option.splits)

text \<open>A fork sees what its parent sees, and nobody else sees the fork.\<close>

lemma visible_from_fork:
  assumes "realm_inv t" "p < next_realm t" "owner < next_realm t"
  shows "visible_from (snd (fork t p)) owner (next_realm t) \<longleftrightarrow> visible_from t owner p"
  using assms ancestry_self [OF assms(1), of p]
  by (auto simp: visible_from_def ancestry_fork_new)

lemma fork_unseen:
  assumes "realm_inv t" "p < next_realm t" "viewer < next_realm t"
  shows "\<not> visible_from (snd (fork t p)) (next_realm t) viewer"
  using assms visible_from_le [OF realm_inv_fork [OF assms(1,2)], of "next_realm t" viewer] by auto

section \<open>Scopes, for the tables that resolve through the tree\<close>

text \<open>
  What the service table and the event bus rely on: seeing is reflexive, transitive and one-way,
  and everybody sees the root. What is registered for a realm is an item with that realm; the
  lemmas compare what two viewers are shown.
\<close>

locale scope =
  fixes inv :: "'t \<Rightarrow> bool"
    and sees :: "'t \<Rightarrow> 'r \<Rightarrow> 'r \<Rightarrow> bool"
    and top :: 'r
  assumes sees_refl: "sees t r r"
    and sees_trans: "inv t \<Longrightarrow> sees t a b \<Longrightarrow> sees t b c \<Longrightarrow> sees t a c"
    and sees_one_way: "inv t \<Longrightarrow> sees t a b \<Longrightarrow> sees t b a \<Longrightarrow> a = b"
    and sees_top: "sees t top r"
begin

definition shown :: "'t \<Rightarrow> ('i \<Rightarrow> 'r) \<Rightarrow> 'i list \<Rightarrow> 'r \<Rightarrow> 'i list" where
  "shown t realm_of items viewer = filter (\<lambda>i. sees t (realm_of i) viewer) items"

lemma shown_grows_downwards:
  "inv t \<Longrightarrow> sees t up down \<Longrightarrow> subseq (shown t f items up) (shown t f items down)"
proof -
  assume *: "inv t" "sees t up down"
  have "filter (\<lambda>i. sees t (f i) up) items = filter (\<lambda>i. sees t (f i) up) (filter (\<lambda>i. sees t (f i) down) items)"
    using sees_trans [OF *(1) _ *(2)] by (auto intro: filter_cong)
  then show ?thesis unfolding shown_def by (metis subseq_filter_left)
qed

lemma own_item_stays: "inv t \<Longrightarrow> i \<in> set (shown t f items viewer) \<Longrightarrow> f i \<noteq> viewer \<Longrightarrow> \<not> sees t viewer (f i)"
  unfolding shown_def using sees_one_way by auto

lemma top_item_shown: "i \<in> set items \<Longrightarrow> f i = top \<Longrightarrow> i \<in> set (shown t f items viewer)"
  unfolding shown_def using sees_top by auto

end

interpretation realm: scope realm_inv visible_from ROOT_REALM
  by unfold_locales
    (auto intro: visible_from_refl visible_from_trans visible_from_one_way visible_from_root)

end
