(* ===== verification/Service.thy ===== *)
theory Service
  imports Realm "HOL-Library.List_Lexorder" "HOL-Library.Char_ord"
begin

text \<open>
  Errors of the plugin runtime (\<open>crates/atomcode-plexus/src/error.rs\<close>) and the service table
  (\<open>service.rs\<close>). A marker type is the number \<open>sk_type\<close> that stands for its \<open>TypeId\<close>, with the
  constants of its \<open>ServiceKey\<close> implementation; the face behind a slot is a value of any type. The
  slots are an association list with one entry per key: the only iterations over the hash map sort
  their result. The lemmas show that a slot is never overwritten, that the owner alone empties it,
  and that a lookup finds the nearest realm that fills the slot.
\<close>

section \<open>Errors\<close>

datatype plexus_error =
    UnknownPlugin string string
  | ServiceConflict string string string
  | ServiceMissing string
  | Deadlock "(string \<times> string list) list"
  | Apply string string
  | Config string

fun join :: "string \<Rightarrow> string list \<Rightarrow> string" where
  "join sep [] = []"
| "join sep [s] = s"
| "join sep (s # t # ss) = s @ sep @ join sep (t # ss)"

fun plexus_error_text :: "plexus_error \<Rightarrow> string" where
  "plexus_error_text (UnknownPlugin entry plugin) =
     ''entry `'' @ entry @ ''` names plugin `'' @ plugin @ ''`, which is not in the registry''"
| "plexus_error_text (ServiceConflict name held_by claimed_by) =
     ''service `'' @ name @ ''` is already provided by `'' @ held_by @ ''`; `'' @ claimed_by
     @ ''` cannot claim it (unload the incumbent or isolate a realm)''"
| "plexus_error_text (ServiceMissing name) = ''service `'' @ name @ ''` is not provided''"
| "plexus_error_text (Deadlock pending) =
     ''mounting stalled with unsatisfied dependencies:''
     @ concat (map (\<lambda>(entry, missing).
         [newline] @ ''  - `'' @ entry @ ''` waits for: '' @ join '', '' missing) pending)"
| "plexus_error_text (Apply entry message) = ''entry `'' @ entry @ ''` failed to apply: '' @ message"
| "plexus_error_text (Config m) = ''config error: '' @ m"

section \<open>The table\<close>

datatype seam_mode = Core | Seam | Bundle

record service_key =
  sk_type :: nat
  sk_name :: string
  sk_mode :: seam_mode
  sk_title :: string

type_synonym fiber_id = nat

record 'v slot =
  slot_name :: string
  slot_value :: 'v
  slot_owner :: fiber_id
  owner_label :: string

type_synonym slot_key = "realm_id \<times> nat"

record 'v service_table =
  slots :: "(slot_key \<times> 'v slot) list"
  by_name :: "(string \<times> nat) list"

definition service_table_new :: "'v service_table" where
  "service_table_new = \<lparr>slots = [], by_name = []\<rparr>"

definition table_provide ::
  "'v service_table \<Rightarrow> service_key \<Rightarrow> realm_id \<Rightarrow> 'v \<Rightarrow> fiber_id \<Rightarrow> string \<Rightarrow> plexus_error + 'v service_table" where
  "table_provide tb k r v owner label =
     (case map_of (slots tb) (r, sk_type k) of
        Some existing \<Rightarrow> Inl (ServiceConflict (sk_name k) (owner_label existing) label)
      | None \<Rightarrow>
          Inr (tb\<lparr>slots := ((r, sk_type k),
                 \<lparr>slot_name = sk_name k, slot_value = v, slot_owner = owner, owner_label = label\<rparr>) # slots tb,
               by_name := (sk_name k, sk_type k) # by_name tb\<rparr>))"

definition table_revoke :: "'v service_table \<Rightarrow> nat \<Rightarrow> realm_id \<Rightarrow> fiber_id \<Rightarrow> 'v service_table" where
  "table_revoke tb ty r owner =
     (case map_of (slots tb) (r, ty) of
        Some s \<Rightarrow> if slot_owner s = owner then tb\<lparr>slots := filter (\<lambda>e. fst e \<noteq> (r, ty)) (slots tb)\<rparr> else tb
      | None \<Rightarrow> tb)"

text \<open>Outer \<open>None\<close>: the walk up the realms does not return.\<close>

definition table_get :: "realm_tree \<Rightarrow> 'v service_table \<Rightarrow> nat \<Rightarrow> realm_id \<Rightarrow> 'v option option" where
  "table_get t tb ty r =
     map_option (\<lambda>found. case found of Some r' \<Rightarrow> map_option slot_value (map_of (slots tb) (r', ty)) | None \<Rightarrow> None)
       (find_up t (\<lambda>r'. map_of (slots tb) (r', ty) \<noteq> None) r)"

definition has_named :: "realm_tree \<Rightarrow> 'v service_table \<Rightarrow> realm_id \<Rightarrow> string \<Rightarrow> bool option" where
  "has_named t tb r name =
     (case map_of (by_name tb) name of
        None \<Rightarrow> Some False
      | Some ty \<Rightarrow> map_option (\<lambda>found. found \<noteq> None) (find_up t (\<lambda>r'. map_of (slots tb) (r', ty) \<noteq> None) r))"

definition owned_by_in :: "'v service_table \<Rightarrow> fiber_id \<Rightarrow> realm_id \<Rightarrow> string list" where
  "owned_by_in tb owner r =
     sort (map (slot_name \<circ> snd) (filter (\<lambda>e. fst (fst e) = r \<and> slot_owner (snd e) = owner) (slots tb)))"

definition visible_names :: "realm_tree \<Rightarrow> 'v service_table \<Rightarrow> realm_id \<Rightarrow> string list option" where
  "visible_names t tb r =
     map_option (\<lambda>rs. sort (foldl (\<lambda>names r'.
         foldl (\<lambda>names e. if fst (fst e) = r' \<and> slot_name (snd e) \<notin> set names
                          then names @ [slot_name (snd e)] else names) names (slots tb))
       [] rs)) (walk_up t r)"

section \<open>Invariant and laws\<close>

definition table_inv :: "'v service_table \<Rightarrow> bool" where
  "table_inv tb \<longleftrightarrow> distinct (map fst (slots tb))"

lemma table_inv_new: "table_inv service_table_new"
  by (simp add: table_inv_def service_table_new_def)

lemma table_inv_provide: "table_provide tb k r v f l = Inr tb' \<Longrightarrow> table_inv tb \<Longrightarrow> table_inv tb'"
  by (auto simp: table_provide_def table_inv_def map_of_eq_None_iff split: option.splits)

lemma table_inv_filter: "table_inv tb \<Longrightarrow> table_inv (tb\<lparr>slots := filter P (slots tb)\<rparr>)"
  by (simp add: table_inv_def distinct_map_filter)

text \<open>Under the invariant a revocation is a filter on key and owner.\<close>

definition revoked_by :: "nat \<Rightarrow> realm_id \<Rightarrow> fiber_id \<Rightarrow> slot_key \<times> 'v slot \<Rightarrow> bool" where
  "revoked_by ty r owner e \<longleftrightarrow> fst e = (r, ty) \<and> slot_owner (snd e) = owner"

lemma table_revoke_filter:
  assumes "table_inv tb"
  shows "table_revoke tb ty r owner = tb\<lparr>slots := filter (\<lambda>e. \<not> revoked_by ty r owner e) (slots tb)\<rparr>"
proof -
  have d: "distinct (map fst (slots tb))" using assms by (simp add: table_inv_def)
  have mem: "snd e = s" if "e \<in> set (slots tb)" "fst e = (r, ty)" "map_of (slots tb) (r, ty) = Some s" for e s
    using that d by (metis map_of_is_SomeI option.inject prod.collapse)
  show ?thesis
  proof (cases "\<exists>s. map_of (slots tb) (r, ty) = Some s \<and> slot_owner s = owner")
    case True
    then obtain s where s: "map_of (slots tb) (r, ty) = Some s" "slot_owner s = owner" by blast
    have "filter (\<lambda>e. fst e \<noteq> (r, ty)) (slots tb) = filter (\<lambda>e. \<not> revoked_by ty r owner e) (slots tb)"
      using mem [OF _ _ s(1)] s(2) by (intro filter_cong) (auto simp: revoked_by_def)
    with s show ?thesis by (simp add: table_revoke_def)
  next
    case False
    have "\<not> revoked_by ty r owner e" if "e \<in> set (slots tb)" for e
      using map_of_is_SomeI [OF d, of "fst e" "snd e"] that False by (auto simp: revoked_by_def)
    then have "filter (\<lambda>e. \<not> revoked_by ty r owner e) (slots tb) = slots tb" by (simp add: filter_id_conv)
    with False show ?thesis by (auto simp: table_revoke_def split: option.splits)
  qed
qed

lemma provide_conflict_iff:
  "(\<exists>e. table_provide tb k r v f l = Inl e) \<longleftrightarrow> map_of (slots tb) (r, sk_type k) \<noteq> None"
  by (auto simp: table_provide_def split: option.splits)

lemma get_nearest:
  assumes "realm_inv t"
  shows "table_get t tb ty r =
    Some (case find (\<lambda>r'. map_of (slots tb) (r', ty) \<noteq> None) (ancestry t r) of
            Some r' \<Rightarrow> map_option slot_value (map_of (slots tb) (r', ty)) | None \<Rightarrow> None)"
  by (simp add: table_get_def find_up_eq [OF assms])

lemma get_own_slot:
  assumes "realm_inv t" "table_provide tb k r v f l = Inr tb'"
  shows "table_get t tb' (sk_type k) r = Some (Some v)"
proof -
  have "map_of (slots tb') (r, sk_type k) =
      Some \<lparr>slot_name = sk_name k, slot_value = v, slot_owner = f, owner_label = l\<rparr>"
    using assms(2) by (auto simp: table_provide_def split: option.splits)
  then show ?thesis
    by (simp add: get_nearest [OF assms(1)] ancestry_unfold [OF assms(1), of r])
qed

text \<open>Filling a slot in one realm changes no lookup from a realm that does not see it.\<close>

lemma get_other_realm:
  assumes "realm_inv t" "table_provide tb k r v f l = Inr tb'" "r \<notin> set (ancestry t viewer)"
  shows "table_get t tb' ty viewer = table_get t tb ty viewer"
proof -
  have same: "map_of (slots tb') (r', ty) = map_of (slots tb) (r', ty)" if "r' \<in> set (ancestry t viewer)" for r'
    using assms(2,3) that by (auto simp: table_provide_def split: option.splits)
  have f: "find (\<lambda>r'. map_of (slots tb') (r', ty) \<noteq> None) (ancestry t viewer)
      = find (\<lambda>r'. map_of (slots tb) (r', ty) \<noteq> None) (ancestry t viewer)"
    by (rule find_cong) (auto simp: same)
  show ?thesis
    unfolding get_nearest [OF assms(1)] f
    by (auto split: option.splits simp: same dest!: find_Some_split)
qed

lemma get_from_child:
  assumes "realm_inv t" "table_provide tb k r v f l = Inr tb'"
    "r \<in> set (ancestry t viewer)" "\<forall>r'\<in>set (takeWhile (\<lambda>x. x \<noteq> r) (ancestry t viewer)). map_of (slots tb) (r', sk_type k) = None"
  shows "table_get t tb' (sk_type k) viewer = Some (Some v)"
proof -
  let ?P = "\<lambda>r'. map_of (slots tb') (r', sk_type k) \<noteq> None"
  have other: "map_of (slots tb') (r', sk_type k) = map_of (slots tb) (r', sk_type k)" if "r' \<noteq> r" for r'
    using assms(2) that by (auto simp: table_provide_def split: option.splits)
  have own: "map_of (slots tb') (r, sk_type k) =
      Some \<lparr>slot_name = sk_name k, slot_value = v, slot_owner = f, owner_label = l\<rparr>"
    using assms(2) by (auto simp: table_provide_def split: option.splits)
  have "find ?P xs = Some r" if "r \<in> set xs" "\<forall>r'\<in>set (takeWhile (\<lambda>x. x \<noteq> r) xs). map_of (slots tb) (r', sk_type k) = None" for xs
    using that
  proof (induction xs)
    case (Cons x xs)
    then show ?case by (cases "x = r") (auto simp: own other)
  qed simp
  from this [OF assms(3,4)] own show ?thesis by (simp add: get_nearest [OF assms(1)])
qed

lemma get_from_fork:
  assumes "realm_inv t" "p < next_realm t" "table_inv tb" "\<forall>e\<in>set (slots tb). fst (fst e) < next_realm t"
  shows "table_get (snd (fork t p)) tb ty (next_realm t) = table_get t tb ty p"
proof -
  have "map_of (slots tb) (next_realm t, ty) = None"
    using assms(4) by (force simp: map_of_eq_None_iff)
  then show ?thesis
    by (simp add: get_nearest realm_inv_fork assms(1,2) ancestry_fork_new)
qed

lemma has_named_iff:
  assumes "realm_inv t"
  shows "has_named t tb r name = Some (case map_of (by_name tb) name of
    None \<Rightarrow> False | Some ty \<Rightarrow> \<exists>r'\<in>set (ancestry t r). map_of (slots tb) (r', ty) \<noteq> None)"
proof -
  have "find P xs \<noteq> None \<longleftrightarrow> (\<exists>x\<in>set xs. P x)" for P and xs :: "realm_id list"
    by (simp add: find_None_iff Bex_def)
  then show ?thesis
    unfolding has_named_def find_up_eq [OF assms] option.map by (simp split: option.split)
qed

lemma set_visible_names:
  assumes "realm_inv t"
  shows "\<exists>ns. visible_names t tb r = Some ns \<and> sorted ns \<and> distinct ns
    \<and> set ns = (\<lambda>e. slot_name (snd e)) ` {e \<in> set (slots tb). fst (fst e) \<in> set (ancestry t r)}"
proof -
  let ?in = "\<lambda>r' names e. if fst (fst e) = r' \<and> slot_name (snd e) \<notin> set names then names @ [slot_name (snd e)] else names"
  have inner: "distinct names \<Longrightarrow> distinct (foldl (?in r') names es) \<and>
      set (foldl (?in r') names es) = set names \<union> (\<lambda>e. slot_name (snd e)) ` {e \<in> set es. fst (fst e) = r'}" for r' names es
    by (induction es arbitrary: names) (auto split: if_splits)
  have outer: "distinct names \<Longrightarrow> distinct (foldl (\<lambda>names r'. foldl (?in r') names (slots tb)) names rs) \<and>
      set (foldl (\<lambda>names r'. foldl (?in r') names (slots tb)) names rs)
        = set names \<union> (\<lambda>e. slot_name (snd e)) ` {e \<in> set (slots tb). fst (fst e) \<in> set rs}" for names rs
  proof (induction rs arbitrary: names)
    case (Cons r' rs)
    with inner [OF Cons.prems, of r' "slots tb"] show ?case by auto
  qed simp
  from outer [of "[]" "ancestry t r"] show ?thesis
    by (simp add: visible_names_def walk_up_eq [OF assms])
qed

end
