(* ===== verification/Fiber.thy ===== *)
theory Fiber
  imports Service
begin

text \<open>
  Fibers (\<open>crates/atomcode-plexus/src/fiber.rs\<close>): the life of one mounted plugin and the ledger of
  the effects it installed. The effect type is a parameter here; \<open>Context\<close> fixes it and runs
  effects. The table is an association list by fiber id. A \<open>Disposable\<close> is the fiber's id and the
  slot: its weak reference upgrades as long as the table holds the fiber.
\<close>

definition ROOT_FIBER :: fiber_id where
  "ROOT_FIBER = 0"

datatype fiber_status = Pending | Active | Disposed

record 'e fiber_state =
  f_id :: fiber_id
  f_entry :: string
  f_plugin :: string
  f_parent :: fiber_id
  f_ledger :: "'e option list"
  f_status :: fiber_status

record disposable =
  d_fiber :: fiber_id
  d_slot :: nat

definition fiber_state_new :: "fiber_id \<Rightarrow> string \<Rightarrow> string \<Rightarrow> fiber_id \<Rightarrow> 'e fiber_state" where
  "fiber_state_new i entry plugin p =
     \<lparr>f_id = i, f_entry = entry, f_plugin = plugin, f_parent = p, f_ledger = [], f_status = Pending\<rparr>"

definition state_record :: "'e fiber_state \<Rightarrow> 'e \<Rightarrow> nat \<times> 'e fiber_state" where
  "state_record f e = (length (f_ledger f), f\<lparr>f_ledger := f_ledger f @ [Some e]\<rparr>)"

text \<open>The part of \<open>run_slot\<close> under the lock: take the effect out of its slot.\<close>

definition take_slot :: "'e fiber_state \<Rightarrow> nat \<Rightarrow> 'e option \<times> 'e fiber_state" where
  "take_slot f slot =
     (if slot < length (f_ledger f)
      then (f_ledger f ! slot, f\<lparr>f_ledger := (f_ledger f)[slot := None]\<rparr>) else (None, f))"

definition live_effects :: "'e fiber_state \<Rightarrow> 'e list" where
  "live_effects f = List.map_filter (\<lambda>e. e) (f_ledger f)"

definition label :: "'e fiber_state \<Rightarrow> string" where
  "label f = (if f_entry f = f_plugin f then f_entry f else f_entry f @ '' ('' @ f_plugin f @ '')'')"

record 'e fiber_table =
  next_fiber :: fiber_id
  fibers :: "(fiber_id \<times> 'e fiber_state) list"

definition fiber_table_new :: "'e fiber_table" where
  "fiber_table_new =
     \<lparr>next_fiber = 1,
      fibers = [(ROOT_FIBER, (fiber_state_new ROOT_FIBER ''<root>'' ''<root>'' ROOT_FIBER)\<lparr>f_status := Active\<rparr>)]\<rparr>"

definition fiber_create :: "'e fiber_table \<Rightarrow> string \<Rightarrow> string \<Rightarrow> fiber_id \<Rightarrow> fiber_id \<times> 'e fiber_table" where
  "fiber_create t entry plugin p =
     (next_fiber t,
      t\<lparr>next_fiber := next_fiber t + 1,
        fibers := (next_fiber t, fiber_state_new (next_fiber t) entry plugin p) # fibers t\<rparr>)"

definition fiber_get :: "'e fiber_table \<Rightarrow> fiber_id \<Rightarrow> 'e fiber_state option" where
  "fiber_get t i = map_of (fibers t) i"

definition fiber_update :: "'e fiber_table \<Rightarrow> fiber_id \<Rightarrow> ('e fiber_state \<Rightarrow> 'e fiber_state) \<Rightarrow> 'e fiber_table" where
  "fiber_update t i g = t\<lparr>fibers := map (\<lambda>(j, f). if j = i then (j, g f) else (j, f)) (fibers t)\<rparr>"

definition set_status :: "'e fiber_table \<Rightarrow> fiber_id \<Rightarrow> fiber_status \<Rightarrow> 'e fiber_table" where
  "set_status t i st = fiber_update t i (\<lambda>f. f\<lparr>f_status := st\<rparr>)"

definition fiber_record :: "'e fiber_table \<Rightarrow> fiber_id \<Rightarrow> 'e \<Rightarrow> (disposable \<times> 'e fiber_table) option" where
  "fiber_record t i e =
     (case fiber_get t i of
        None \<Rightarrow> None
      | Some f \<Rightarrow> Some (\<lparr>d_fiber = i, d_slot = fst (state_record f e)\<rparr>,
                          fiber_update t i (\<lambda>f. snd (state_record f e))))"

definition fiber_remove :: "'e fiber_table \<Rightarrow> fiber_id \<Rightarrow> 'e fiber_table" where
  "fiber_remove t i = t\<lparr>fibers := filter (\<lambda>x. fst x \<noteq> i) (fibers t)\<rparr>"

definition children_of :: "'e fiber_table \<Rightarrow> fiber_id \<Rightarrow> fiber_id list" where
  "children_of t i = map (f_id \<circ> snd) (filter (\<lambda>x. f_parent (snd x) = i) (fibers t))"

definition fiber_snapshot :: "'e fiber_table \<Rightarrow> (fiber_id \<times> string \<times> string \<times> fiber_status) list" where
  "fiber_snapshot t =
     sort_key fst (map (\<lambda>(i, f). (f_id f, f_entry f, f_plugin f, f_status f))
       (filter (\<lambda>x. f_id (snd x) \<noteq> ROOT_FIBER) (fibers t)))"

section \<open>Invariant\<close>

text \<open>Ids are unique and below the next one, and a fiber is younger than the one that mounted it.\<close>

definition fiber_inv :: "'e fiber_table \<Rightarrow> bool" where
  "fiber_inv t \<longleftrightarrow>
     distinct (map fst (fibers t)) \<and> 1 \<le> next_fiber t \<and> ROOT_FIBER \<in> fst ` set (fibers t)
     \<and> (\<forall>(i, f)\<in>set (fibers t). f_id f = i \<and> i < next_fiber t \<and> f_parent f \<le> i \<and> (i \<noteq> ROOT_FIBER \<longrightarrow> f_parent f < i))"

lemma fiber_inv_new: "fiber_inv fiber_table_new"
  by (simp add: fiber_inv_def fiber_table_new_def fiber_state_new_def ROOT_FIBER_def)

lemma fiber_inv_create: "fiber_inv t \<Longrightarrow> p < next_fiber t \<Longrightarrow> fiber_inv (snd (fiber_create t e n p))"
  by (fastforce simp: fiber_inv_def fiber_create_def fiber_state_new_def)

lemma map_fst_update: "map fst (map (\<lambda>(j, f). if j = i then (j, g f) else (j, f)) xs) = map fst xs"
  by (induction xs) auto

lemma map_of_update:
  "map_of (map (\<lambda>(j, f). if j = i then (j, g f) else (j, f)) xs) j =
     (if j = i then map_option g (map_of xs i) else map_of xs j)"
  by (induction xs) auto

lemma fiber_inv_update:
  assumes "fiber_inv t" "\<And>f. f_id (g f) = f_id f \<and> f_parent (g f) = f_parent f"
  shows "fiber_inv (fiber_update t i g)"
proof -
  have "fst ` set (map (\<lambda>(j, f). if j = i then (j, g f) else (j, f)) xs) = fst ` set xs" for xs
    by (metis (no_types) map_fst_update set_map)
  then show ?thesis
    using assms map_fst_update [of i g "fibers t"]
    unfolding fiber_inv_def fiber_update_def by (auto split: if_splits simp del: map_map)
qed

lemma fiber_get_update: "fiber_get (fiber_update t i g) j = (if j = i then map_option g (fiber_get t i) else fiber_get t j)"
  by (simp add: fiber_get_def fiber_update_def map_of_update)

lemma fiber_get_inv:
  "fiber_inv t \<Longrightarrow> fiber_get t i = Some f \<Longrightarrow>
   f_id f = i \<and> i < next_fiber t \<and> f_parent f \<le> i \<and> (i \<noteq> ROOT_FIBER \<longrightarrow> f_parent f < i)"
  by (auto simp: fiber_inv_def fiber_get_def dest!: map_of_SomeD)

lemma in_fibers_iff: "fiber_inv t \<Longrightarrow> (i, f) \<in> set (fibers t) \<longleftrightarrow> fiber_get t i = Some f"
  by (auto simp: fiber_inv_def fiber_get_def dest: map_of_SomeD)

lemma set_children:
  "fiber_inv t \<Longrightarrow> set (children_of t i) = {c. \<exists>f. fiber_get t c = Some f \<and> f_parent f = i}"
proof -
  assume inv: "fiber_inv t"
  have "f_id f = c" if "(c, f) \<in> set (fibers t)" for c f using inv that by (auto simp: fiber_inv_def)
  then show ?thesis
    unfolding children_of_def in_fibers_iff [OF inv, symmetric] by force
qed

end
