(* ===== verification/Event_Bus.thy ===== *)
theory Event_Bus
  imports Realm "HOL-Library.Product_Lexorder"
begin

text \<open>
  The event bus (\<open>crates/atomcode-plexus/src/event.rs\<close>). A listener is a function on the world it
  can act on (\<open>'w\<close>): a sync or async one may answer or have no opinion, a waterfall one receives the
  rest of the chain as a function it may call any number of times. An \<open>assert\<close> on the event's mode
  that fails is \<open>None\<close> (the panic). \<open>parallel\<close> polls its futures concurrently: the model has the
  futures it starts, in the order it starts them, and leaves their interleaving to the executor.

  The lemmas show that listeners are kept with the prepended ones first and registration order
  within each group, that a dispatch reaches exactly the listeners visible from its realm, that a
  removal takes out one listener, that \<open>bail\<close> and \<open>serial\<close> stop at the first answer, and that a
  listener that only delegates is neutral in a waterfall.
\<close>

datatype mode = Emit | Parallel | Serial | Bail | WaterfallMode

record event_key =
  ek_type :: nat
  ek_name :: string
  ek_mode :: mode

type_synonym ('a, 'o, 'w) continuation = "'a \<times> 'w \<Rightarrow> 'o \<times> 'a \<times> 'w"
type_synonym ('a, 'o, 'w) waterfall = "('a, 'o, 'w) continuation \<Rightarrow> ('a, 'o, 'w) continuation"
type_synonym ('a, 'o, 'w) observer = "'a \<Rightarrow> 'w \<Rightarrow> 'o option \<times> 'w"

datatype ('a, 'o, 'w) handler =
    WaterfallHandler "('a, 'o, 'w) waterfall"
  | AsyncHandler "('a, 'o, 'w) observer"
  | SyncHandler "('a, 'o, 'w) observer"

record 'h registration =
  reg_id :: nat
  reg_realm :: realm_id
  reg_prepend :: bool
  reg_seq :: nat
  reg_handler :: 'h

record 'h event_bus =
  listeners :: "(nat \<times> 'h registration list) list"
  next_listener :: nat

definition event_bus_new :: "'h event_bus" where
  "event_bus_new = \<lparr>listeners = [], next_listener = 1\<rparr>"

definition listeners_of :: "'h event_bus \<Rightarrow> nat \<Rightarrow> 'h registration list" where
  "listeners_of b ty = (case map_of (listeners b) ty of Some s \<Rightarrow> s | None \<Rightarrow> [])"

definition dispatch_key :: "'h registration \<Rightarrow> bool \<times> nat" where
  "dispatch_key r = (\<not> reg_prepend r, reg_seq r)"

fun set_listeners :: "nat \<Rightarrow> 'l \<Rightarrow> (nat \<times> 'l) list \<Rightarrow> (nat \<times> 'l) list" where
  "set_listeners ty rs [] = [(ty, rs)]"
| "set_listeners ty rs ((t, s) # m) = (if t = ty then (t, rs) # m else (t, s) # set_listeners ty rs m)"

definition bus_insert :: "'h event_bus \<Rightarrow> nat \<Rightarrow> realm_id \<Rightarrow> bool \<Rightarrow> 'h \<Rightarrow> nat \<times> 'h event_bus" where
  "bus_insert b ty r prepend h =
     (let i = next_listener b;
          reg = \<lparr>reg_id = i, reg_realm = r, reg_prepend = prepend, reg_seq = i, reg_handler = h\<rparr>;
          slot = sort_key dispatch_key (listeners_of b ty @ [reg])
      in (i, b\<lparr>listeners := set_listeners ty slot (listeners b), next_listener := i + 1\<rparr>))"

definition bus_remove :: "'h event_bus \<Rightarrow> nat \<Rightarrow> nat \<Rightarrow> 'h event_bus" where
  "bus_remove b ty i =
     b\<lparr>listeners := map (\<lambda>(t, s). if t = ty then (t, filter (\<lambda>r. reg_id r \<noteq> i) s) else (t, s)) (listeners b)\<rparr>"

type_synonym ('a, 'o, 'w) bus = "('a, 'o, 'w) handler event_bus"

definition bus_on_waterfall ::
  "('a, 'o, 'w) bus \<Rightarrow> event_key \<Rightarrow> ('a, 'o, 'w) waterfall \<Rightarrow> realm_id \<Rightarrow> bool \<Rightarrow> (nat \<times> ('a, 'o, 'w) bus) option" where
  "bus_on_waterfall b e l r prepend =
     (if ek_mode e = WaterfallMode then Some (bus_insert b (ek_type e) r prepend (WaterfallHandler l)) else None)"

definition bus_on_async ::
  "('a, 'o, 'w) bus \<Rightarrow> event_key \<Rightarrow> ('a, 'o, 'w) observer \<Rightarrow> realm_id \<Rightarrow> bool \<Rightarrow> (nat \<times> ('a, 'o, 'w) bus) option" where
  "bus_on_async b e l r prepend =
     (if ek_mode e \<in> {Parallel, Serial} then Some (bus_insert b (ek_type e) r prepend (AsyncHandler l)) else None)"

definition bus_on_sync ::
  "('a, 'o, 'w) bus \<Rightarrow> event_key \<Rightarrow> ('a, 'o, 'w) observer \<Rightarrow> realm_id \<Rightarrow> bool \<Rightarrow> (nat \<times> ('a, 'o, 'w) bus) option" where
  "bus_on_sync b e l r prepend =
     (if ek_mode e \<in> {Emit, Bail} then Some (bus_insert b (ek_type e) r prepend (SyncHandler l)) else None)"

section \<open>Dispatch\<close>

definition collect :: "realm_tree \<Rightarrow> 'h event_bus \<Rightarrow> ('h \<Rightarrow> 'f option) \<Rightarrow> nat \<Rightarrow> realm_id \<Rightarrow> 'f list" where
  "collect t b cast ty r =
     List.map_filter (\<lambda>reg. cast (reg_handler reg))
       (filter (\<lambda>reg. visible_from t (reg_realm reg) r) (listeners_of b ty))"

fun as_sync :: "('a, 'o, 'w) handler \<Rightarrow> ('a, 'o, 'w) observer option" where
  "as_sync (SyncHandler l) = Some l"
| "as_sync _ = None"

fun as_async :: "('a, 'o, 'w) handler \<Rightarrow> ('a, 'o, 'w) observer option" where
  "as_async (AsyncHandler l) = Some l"
| "as_async _ = None"

fun as_waterfall :: "('a, 'o, 'w) handler \<Rightarrow> ('a, 'o, 'w) waterfall option" where
  "as_waterfall (WaterfallHandler l) = Some l"
| "as_waterfall _ = None"

fun call_all :: "('a, 'o, 'w) observer list \<Rightarrow> 'a \<Rightarrow> 'w \<Rightarrow> 'w" where
  "call_all [] args w = w"
| "call_all (l # ls) args w = call_all ls args (snd (l args w))"

fun first_answer :: "('a, 'o, 'w) observer list \<Rightarrow> 'a \<Rightarrow> 'w \<Rightarrow> 'o option \<times> 'w" where
  "first_answer [] args w = (None, w)"
| "first_answer (l # ls) args w =
     (case l args w of (Some out, w') \<Rightarrow> (Some out, w') | (None, w') \<Rightarrow> first_answer ls args w')"

fun next_run :: "('a, 'o, 'w) waterfall list \<Rightarrow> ('a, 'o, 'w) continuation \<Rightarrow> ('a, 'o, 'w) continuation" where
  "next_run [] terminal s = terminal s"
| "next_run (h # rest) terminal s = h (next_run rest terminal) s"

definition bus_emit :: "realm_tree \<Rightarrow> ('a, 'o, 'w) bus \<Rightarrow> event_key \<Rightarrow> 'a \<Rightarrow> realm_id \<Rightarrow> 'w \<Rightarrow> 'w" where
  "bus_emit t b e args r w = call_all (collect t b as_sync (ek_type e) r) args w"

definition bus_bail :: "realm_tree \<Rightarrow> ('a, 'o, 'w) bus \<Rightarrow> event_key \<Rightarrow> 'a \<Rightarrow> realm_id \<Rightarrow> 'w \<Rightarrow> 'o option \<times> 'w" where
  "bus_bail t b e args r w = first_answer (collect t b as_sync (ek_type e) r) args w"

definition bus_parallel_started :: "realm_tree \<Rightarrow> ('a, 'o, 'w) bus \<Rightarrow> event_key \<Rightarrow> realm_id \<Rightarrow> ('a, 'o, 'w) observer list" where
  "bus_parallel_started t b e r = collect t b as_async (ek_type e) r"

definition bus_serial :: "realm_tree \<Rightarrow> ('a, 'o, 'w) bus \<Rightarrow> event_key \<Rightarrow> 'a \<Rightarrow> realm_id \<Rightarrow> 'w \<Rightarrow> 'o option \<times> 'w" where
  "bus_serial t b e args r w = first_answer (collect t b as_async (ek_type e) r) args w"

definition bus_waterfall ::
  "realm_tree \<Rightarrow> ('a, 'o, 'w) bus \<Rightarrow> event_key \<Rightarrow> 'a \<Rightarrow> realm_id \<Rightarrow> ('a, 'o, 'w) continuation \<Rightarrow> 'w \<Rightarrow> 'o \<times> 'a \<times> 'w" where
  "bus_waterfall t b e args r terminal w = next_run (collect t b as_waterfall (ek_type e) r) terminal (args, w)"

definition listener_count :: "realm_tree \<Rightarrow> 'h event_bus \<Rightarrow> nat \<Rightarrow> realm_id \<Rightarrow> nat" where
  "listener_count t b ty r = length (filter (\<lambda>reg. visible_from t (reg_realm reg) r) (listeners_of b ty))"

section \<open>Order of registrations\<close>

definition bus_inv :: "'h event_bus \<Rightarrow> bool" where
  "bus_inv b \<longleftrightarrow>
     distinct (map fst (listeners b))
     \<and> (\<forall>(t, s)\<in>set (listeners b).
          sorted (map dispatch_key s) \<and> distinct (map reg_id s)
          \<and> (\<forall>r\<in>set s. reg_seq r = reg_id r \<and> reg_id r < next_listener b))"

lemma bus_inv_new: "bus_inv event_bus_new"
  by (simp add: bus_inv_def event_bus_new_def)

lemma fst_set_listeners: "fst ` set (set_listeners ty s m) = insert ty (fst ` set m)"
  by (induction ty s m rule: set_listeners.induct) auto

lemma distinct_set_listeners: "distinct (map fst m) \<Longrightarrow> distinct (map fst (set_listeners ty s m))"
proof (induction ty s m rule: set_listeners.induct)
  case (2 ty rs t s m)
  then show ?case using fst_set_listeners [of ty rs m] by auto
qed simp

lemma in_set_listeners: "e \<in> set (set_listeners ty s m) \<Longrightarrow> e = (ty, s) \<or> e \<in> set m"
  by (induction ty s m rule: set_listeners.induct) (auto split: if_splits)

lemma map_of_set_listeners: "map_of (set_listeners ty s m) = (map_of m)(ty \<mapsto> s)"
  by (induction ty s m rule: set_listeners.induct) (auto simp: fun_eq_iff)

lemma listeners_of_inv:
  assumes "bus_inv b"
  shows "sorted (map dispatch_key (listeners_of b ty))" "distinct (map reg_id (listeners_of b ty))"
    "r \<in> set (listeners_of b ty) \<Longrightarrow> reg_seq r = reg_id r \<and> reg_id r < next_listener b"
  using assms by (auto simp: bus_inv_def listeners_of_def split: option.splits dest!: map_of_SomeD)

lemma bus_inv_insert: "bus_inv b \<Longrightarrow> bus_inv (snd (bus_insert b ty r p h))"
proof -
  assume inv: "bus_inv b"
  define reg where "reg = \<lparr>reg_id = next_listener b, reg_realm = r, reg_prepend = p, reg_seq = next_listener b, reg_handler = h\<rparr>"
  define slot where "slot = sort_key dispatch_key (listeners_of b ty @ [reg])"
  note L = listeners_of_inv [OF inv, where ty = ty]
  have "sorted (map dispatch_key slot)" by (simp add: slot_def)
  moreover have "distinct (map reg_id slot)"
  proof -
    have "distinct (map reg_id (listeners_of b ty @ [reg]))" using L(2,3) by (fastforce simp: reg_def)
    moreover have "mset (map reg_id slot) = mset (map reg_id (listeners_of b ty @ [reg]))"
      by (simp add: slot_def)
    ultimately show ?thesis by (metis mset_eq_imp_distinct_iff)
  qed
  moreover have "\<forall>x\<in>set slot. reg_seq x = reg_id x \<and> reg_id x < next_listener b + 1"
    using L(3) by (auto simp: slot_def reg_def less_Suc_eq)
  moreover have "snd (bus_insert b ty r p h) =
      b\<lparr>listeners := set_listeners ty slot (listeners b), next_listener := next_listener b + 1\<rparr>"
    by (simp add: bus_insert_def Let_def slot_def reg_def)
  ultimately show ?thesis
    using inv distinct_set_listeners [of "listeners b"] unfolding bus_inv_def
    by (fastforce dest!: in_set_listeners)
qed

lemma fst_prune: "fst \<circ> (\<lambda>(t, s). if t = ty then (t, f s) else (t, s)) = fst"
  by auto

lemma bus_inv_remove: "bus_inv b \<Longrightarrow> bus_inv (bus_remove b ty i)"
  unfolding bus_inv_def bus_remove_def
  by (auto simp: fst_prune sorted_filter distinct_map_filter split: if_splits)

lemma listeners_of_insert:
  assumes "bus_inv b" "bus_insert b ty r p h = (i, b')"
  shows "listeners_of b' ty' = (if ty' = ty then
      filter reg_prepend (listeners_of b ty)
      @ (if p then [\<lparr>reg_id = i, reg_realm = r, reg_prepend = p, reg_seq = i, reg_handler = h\<rparr>] else [])
      @ filter (\<lambda>x. \<not> reg_prepend x) (listeners_of b ty)
      @ (if p then [] else [\<lparr>reg_id = i, reg_realm = r, reg_prepend = p, reg_seq = i, reg_handler = h\<rparr>])
    else listeners_of b ty')"
proof -
  let ?L = "listeners_of b ty"
  let ?reg = "\<lparr>reg_id = i, reg_realm = r, reg_prepend = p, reg_seq = i, reg_handler = h\<rparr>"
  let ?M = "filter reg_prepend ?L @ (if p then [?reg] else []) @ filter (\<lambda>x. \<not> reg_prepend x) ?L @ (if p then [] else [?reg])"
  have i: "i = next_listener b" using assms(2) by (simp add: bus_insert_def Let_def)
  note L = listeners_of_inv [OF assms(1), where ty = ty]
  have d: "distinct (map reg_id (?L @ [?reg]))" using L(2,3) by (fastforce simp: i)
  have inj: "inj_on dispatch_key (set (?L @ [?reg]))"
  proof (rule inj_onI)
    fix x y assume xy: "x \<in> set (?L @ [?reg])" "y \<in> set (?L @ [?reg])" "dispatch_key x = dispatch_key y"
    then have "reg_id x = reg_id y" using L(3) by (auto simp: dispatch_key_def i)
    with xy d show "x = y" by (metis distinct_map inj_onD)
  qed
  have "sorted (map dispatch_key ?M)"
  proof -
    have seqs: "sorted (map dispatch_key (filter P ?L))" for P using L(1) by (rule sorted_filter)
    show ?thesis
      using seqs [of reg_prepend] seqs [of "\<lambda>x. \<not> reg_prepend x"] L(3)
      by (auto simp: sorted_append dispatch_key_def i less_eq_prod_def less_imp_le)
  qed
  moreover have "mset ?M = mset (?L @ [?reg])"
    by (auto simp: union_commute)
  ultimately have "sort_key dispatch_key (?L @ [?reg]) = ?M"
    using inj by (intro sort_key_inj_key_eq) simp_all
  then show ?thesis
    using assms(2) by (auto simp: bus_insert_def Let_def listeners_of_def map_of_set_listeners)
qed

lemma map_of_prune:
  "map_of (map (\<lambda>(t, s). if t = ty then (t, g s) else (t, s)) m) ty'
     = (if ty' = ty then map_option g (map_of m ty) else map_of m ty')"
  by (induction m) auto

lemma listeners_of_remove:
  "listeners_of (bus_remove b ty i) ty' =
     (if ty' = ty then filter (\<lambda>r. reg_id r \<noteq> i) (listeners_of b ty) else listeners_of b ty')"
  by (simp add: listeners_of_def bus_remove_def map_of_prune split: option.split)

lemma prepended_first:
  assumes "bus_inv b"
  shows "filter reg_prepend (listeners_of b ty) @ filter (\<lambda>x. \<not> reg_prepend x) (listeners_of b ty) = listeners_of b ty"
proof -
  have "sorted (map dispatch_key xs) \<Longrightarrow> filter reg_prepend xs @ filter (\<lambda>x. \<not> reg_prepend x) xs = xs"
    for xs :: "'a registration list"
  proof (induction xs)
    case (Cons x xs)
    show ?case
    proof (cases "reg_prepend x")
      case False
      then have "\<forall>y\<in>set xs. \<not> reg_prepend y"
        using Cons.prems by (fastforce simp: dispatch_key_def less_eq_prod_def)
      with False show ?thesis by (simp add: filter_empty_conv filter_id_conv)
    qed (use Cons in simp)
  qed simp
  from this [OF listeners_of_inv(1) [OF assms]] show ?thesis .
qed

text \<open>Taking a listener out again leaves every list of listeners as it was.\<close>

lemma remove_insert:
  assumes "bus_inv b" "bus_insert b ty r p h = (i, b')"
  shows "listeners_of (bus_remove b' ty i) ty' = listeners_of b ty'"
proof -
  have i: "i = next_listener b" using assms(2) by (simp add: bus_insert_def Let_def)
  have fresh: "\<forall>x\<in>set (listeners_of b ty). reg_id x \<noteq> i"
    using listeners_of_inv(3) [OF assms(1)] by (fastforce simp: i)
  have keep: "filter (\<lambda>r. reg_id r \<noteq> i) (filter Q (listeners_of b ty)) = filter Q (listeners_of b ty)" for Q
    using fresh by (auto intro: filter_cong)
  show ?thesis
    unfolding listeners_of_remove listeners_of_insert [OF assms]
    by (simp add: keep prepended_first [OF assms(1)] del: filter_filter)
qed

section \<open>Who is reached\<close>

lemma collect_shown:
  "collect t b cast ty r =
     List.map_filter (\<lambda>reg. cast (reg_handler reg)) (realm.shown t reg_realm (listeners_of b ty) r)"
  by (simp add: collect_def realm.shown_def)

lemma subseq_map_filter: "subseq xs ys \<Longrightarrow> subseq (List.map_filter g xs) (List.map_filter g ys)"
  unfolding map_filter_def by (intro subseq_map subseq_filter)

lemma collect_grows_downwards:
  "realm_inv t \<Longrightarrow> visible_from t up down \<Longrightarrow> subseq (collect t b cast ty up) (collect t b cast ty down)"
  unfolding collect_shown by (intro subseq_map_filter realm.shown_grows_downwards)

lemma collect_unseen:
  assumes "bus_inv b" "bus_insert b ty r p h = (i, b')" "\<not> visible_from t r viewer"
  shows "collect t b' cast ty' viewer = collect t b cast ty' viewer"
proof -
  let ?v = "\<lambda>x. visible_from t (reg_realm x) viewer"
  have "filter ?v (listeners_of b' ty) = filter ?v (filter reg_prepend (listeners_of b ty)
      @ filter (\<lambda>x. \<not> reg_prepend x) (listeners_of b ty))"
    unfolding listeners_of_insert [OF assms(1,2)] using assms(3) by simp
  then have "filter ?v (listeners_of b' ty) = filter ?v (listeners_of b ty)"
    by (simp only: prepended_first [OF assms(1)])
  moreover have "ty' \<noteq> ty \<Longrightarrow> listeners_of b' ty' = listeners_of b ty'"
    unfolding listeners_of_insert [OF assms(1,2)] by simp
  ultimately show ?thesis by (cases "ty' = ty") (simp_all add: collect_def)
qed

section \<open>What a dispatch does\<close>

lemma first_answer_append:
  "first_answer (as @ bs) args w =
     (case first_answer as args w of
        (Some out, w') \<Rightarrow> (Some out, w')
      | (None, w') \<Rightarrow> first_answer bs args w')"
  by (induction as arbitrary: w) (auto split: prod.splits option.splits)

lemma next_run_Nil: "next_run [] terminal = terminal"
  by (rule ext) simp

lemma next_run_Cons: "next_run (h # rest) terminal = h (next_run rest terminal)"
  by (rule ext) simp

lemma next_run_append: "next_run (as @ bs) terminal = next_run as (next_run bs terminal)"
  by (induction as) (simp_all only: append.simps next_run_Nil next_run_Cons)

lemma next_run_neutral: "next_run (as @ (\<lambda>k. k) # bs) terminal = next_run (as @ bs) terminal"
  by (simp only: next_run_append next_run_Cons)

lemma next_run_short_circuit: "next_run (as @ (\<lambda>_. g) # bs) terminal = next_run as g"
  by (simp only: next_run_append next_run_Cons)

end
