(* ===== verification/Plexus_Laws.thy ===== *)
theory Plexus_Laws
  imports Plexus_Context
begin

text \<open>
  What unloading does (\<open>unload_spec\<close>): the fiber and everything mounted below it leave the table,
  and what their ledgers name leaves the service table and the event bus, in whatever order the
  children are visited.
\<close>

definition root_inv :: "('v, 'h) root \<Rightarrow> bool" where
  "root_inv r \<longleftrightarrow> table_inv (services r) \<and> bus_inv (events r) \<and> fiber_inv (fiber_table r) \<and> realm_inv (realms r)
     \<and> (\<forall>s\<in>set (slots (services r)). slot_owner (snd s) < next_fiber (fiber_table r))"

lemma root_inv_new: "root_inv root_new"
  using table_inv_new
  by (simp add: root_inv_def root_new_def bus_inv_new fiber_inv_new realm_inv_new service_table_new_def)

section \<open>Effects as prunings\<close>

fun kills_slot :: "undo \<Rightarrow> slot_key \<times> 'v slot \<Rightarrow> bool" where
  "kills_slot (RevokeService ty rl f) s = revoked_by ty rl f s"
| "kills_slot _ s = False"

fun kills_listener :: "undo \<Rightarrow> nat \<Rightarrow> 'h registration \<Rightarrow> bool" where
  "kills_listener (RemoveListener ty i) t reg = (t = ty \<and> reg_id reg = i)"
| "kills_listener _ t reg = False"

definition pruned :: "undo set \<Rightarrow> ('v, 'h) root \<Rightarrow> ('v, 'h) root \<Rightarrow> bool" where
  "pruned U r r' \<longleftrightarrow>
     services r' = (services r)\<lparr>slots := filter (\<lambda>s. \<forall>u\<in>U. \<not> kills_slot u s) (slots (services r))\<rparr>
     \<and> events r' = (events r)\<lparr>listeners :=
          map (\<lambda>(t, regs). (t, filter (\<lambda>x. \<forall>u\<in>U. \<not> kills_listener u t x) regs)) (listeners (events r))\<rparr>"

lemma pruned_refl: "services r' = services r \<Longrightarrow> events r' = events r \<Longrightarrow> pruned {} r r'"
  by (simp add: pruned_def case_prod_beta')

lemma map_filter_filter:
  "map (\<lambda>(t, regs). (t, filter (P' t) regs)) (map (\<lambda>(t, regs). (t, filter (P t) regs)) l)
   = map (\<lambda>(t, regs). (t, filter (\<lambda>x. P t x \<and> P' t x) regs)) l"
  by (induction l) (auto simp: filter_filter conj_commute)

lemma pruned_trans:
  assumes "pruned U r r'" "pruned U' r' r''"
  shows "pruned (U \<union> U') r r''"
  using assms
    map_filter_filter [of "\<lambda>t x. \<forall>u\<in>U'. \<not> kills_listener u t x" "\<lambda>t x. \<forall>u\<in>U. \<not> kills_listener u t x" "listeners (events r)"]
  by (simp add: pruned_def ball_Un conj_commute)

lemma bus_remove_prune:
  "bus_remove b ty i =
     b\<lparr>listeners := map (\<lambda>(t, regs). (t, filter (\<lambda>x. \<not> kills_listener (RemoveListener ty i) t x) regs)) (listeners b)\<rparr>"
  by (auto simp: bus_remove_def intro!: arg_cong [of _ _ "\<lambda>l. b\<lparr>listeners := l\<rparr>"])

lemma run_undo_pruned:
  assumes "table_inv (services r)"
  shows "pruned {u} r (run_undo u r) \<and> fiber_table (run_undo u r) = fiber_table r \<and> realms (run_undo u r) = realms r"
proof (cases u)
  case (RevokeService ty rl f)
  then show ?thesis
    by (simp add: run_undo_def pruned_def table_revoke_filter [OF assms] case_prod_beta')
next
  case (RemoveListener ty i)
  then show ?thesis by (simp add: run_undo_def pruned_def bus_remove_prune)
qed (simp_all add: run_undo_def pruned_def case_prod_beta')

lemma pruned_table_inv: "pruned U r r' \<Longrightarrow> table_inv (services r) \<Longrightarrow> table_inv (services r')"
  by (simp add: pruned_def table_inv_filter)

lemma fold_run_undo:
  "table_inv (services r) \<Longrightarrow>
   pruned (set us) r (fold run_undo us r)
   \<and> fiber_table (fold run_undo us r) = fiber_table r \<and> realms (fold run_undo us r) = realms r"
proof (induction us arbitrary: r)
  case Nil
  then show ?case by (simp add: pruned_refl)
next
  case (Cons u us)
  note first = run_undo_pruned [OF Cons.prems, of u]
  have inv: "table_inv (services (run_undo u r))" using first pruned_table_inv Cons.prems by blast
  have "pruned ({u} \<union> set us) r (fold run_undo us (run_undo u r))"
    using pruned_trans first Cons.IH [OF inv] by blast
  with first Cons.IH [OF inv] show ?case by simp
qed

lemma dispose_all_pruned:
  "table_inv (services r) \<Longrightarrow>
   pruned (set (live_effects f)) r (dispose_all f r)
   \<and> fiber_table (dispose_all f r) = fiber_table r \<and> realms (dispose_all f r) = realms r"
  using fold_run_undo [of r "rev (live_effects f)"] by (simp add: dispose_all_def)

section \<open>Unloading\<close>

inductive_set below :: "'e fiber_table \<Rightarrow> fiber_id \<Rightarrow> fiber_id set" for t i where
  below_self: "i \<in> below t i"
| below_child: "fiber_get t g = Some f \<Longrightarrow> f_parent f \<in> below t i \<Longrightarrow> g \<in> below t i"

text \<open>What the ledgers of a set of fibers would undo, and the state after those fibers were unloaded.\<close>

definition effects_of :: "undo fiber_table \<Rightarrow> fiber_id set \<Rightarrow> undo set" where
  "effects_of t R = {u. \<exists>g\<in>R. \<exists>f. fiber_get t g = Some f \<and> u \<in> set (live_effects f)}"

definition without :: "fiber_id set \<Rightarrow> ('v, 'h) root \<Rightarrow> ('v, 'h) root \<Rightarrow> bool" where
  "without R r0 r \<longleftrightarrow>
     pruned (effects_of (fiber_table r0) R) r0 r
     \<and> fiber_table r = (fiber_table r0)\<lparr>fibers := filter (\<lambda>x. fst x \<notin> R) (fibers (fiber_table r0))\<rparr>
     \<and> realms r = realms r0"

lemma effects_of_insert:
  "effects_of t (insert i R)
   = effects_of t R \<union> (case fiber_get t i of Some f \<Rightarrow> set (live_effects f) | None \<Rightarrow> {})"
  by (auto simp: effects_of_def split: option.splits)

lemma effects_of_absorb: "i \<in> R \<Longrightarrow> fiber_get t i = Some f \<Longrightarrow> set (live_effects f) \<subseteq> effects_of t R"
  by (auto simp: effects_of_def)

definition family_closed :: "'e fiber_table \<Rightarrow> fiber_id set \<Rightarrow> bool" where
  "family_closed t R \<longleftrightarrow> (\<forall>g f. fiber_get t g = Some f \<longrightarrow> f_parent f \<in> R \<longrightarrow> g \<in> R)"

lemma below_closed: "family_closed t (below t i)"
  by (auto simp: family_closed_def intro: below_child)

lemma family_closed_Un: "family_closed t R \<Longrightarrow> family_closed t R' \<Longrightarrow> family_closed t (R \<union> R')"
  by (auto simp: family_closed_def)

lemma below_trans: "g \<in> below t c \<Longrightarrow> c \<in> below t i \<Longrightarrow> g \<in> below t i"
  by (induction rule: below.induct) (auto intro: below_child)

lemma below_ge: "g \<in> below t i \<Longrightarrow> fiber_inv t \<Longrightarrow> i \<le> g"
proof (induction rule: below.induct)
  case (below_child g f)
  then show ?case using fiber_get_inv [OF below_child.prems below_child.hyps(1)] by simp
qed simp

lemma map_of_filter_keys: "map_of (filter (\<lambda>x. fst x \<notin> R) xs) k = (if k \<in> R then None else map_of xs k)"
  by (induction xs) auto

lemma without_get: "without R r0 r \<Longrightarrow> fiber_get (fiber_table r) g = (if g \<in> R then None else fiber_get (fiber_table r0) g)"
  by (simp add: without_def fiber_get_def map_of_filter_keys)

lemma without_fiber_inv:
  "without R r0 r \<Longrightarrow> fiber_inv (fiber_table r0) \<Longrightarrow> ROOT_FIBER \<notin> R \<Longrightarrow> fiber_inv (fiber_table r)"
  by (force simp: without_def fiber_inv_def distinct_map_filter)

lemma without_children:
  assumes "without R r0 r" "fiber_inv (fiber_table r0)" "ROOT_FIBER \<notin> R"
  shows "set (children_of (fiber_table r) i)
    = {c. c \<notin> R \<and> (\<exists>f. fiber_get (fiber_table r0) c = Some f \<and> f_parent f = i)}"
  using set_children [OF without_fiber_inv [OF assms]] by (auto simp: without_get [OF assms(1)])

lemma without_table_inv: "without R r0 r \<Longrightarrow> table_inv (services r0) \<Longrightarrow> table_inv (services r)"
  unfolding without_def using pruned_table_inv by blast

lemma without_remove:
  assumes "without R r0 r" "table_inv (services r0)"
  shows "\<exists>r'. (let r'' = r\<lparr>fiber_table := fiber_remove (fiber_table r) i\<rparr> in
            case fiber_get (fiber_table r) i of Some f \<Rightarrow> Some (dispose_all f r'') | None \<Rightarrow> Some r'') = Some r'
    \<and> without (insert i R) r0 r'"
proof -
  define r'' where "r'' = r\<lparr>fiber_table := fiber_remove (fiber_table r) i\<rparr>"
  have tab: "fiber_table r'' = (fiber_table r0)\<lparr>fibers := filter (\<lambda>x. fst x \<notin> insert i R) (fibers (fiber_table r0))\<rparr>"
    using assms(1) by (simp add: r''_def without_def fiber_remove_def filter_filter conj_commute)
  have realms'': "realms r'' = realms r0" using assms(1) by (simp add: r''_def without_def)
  have pr: "pruned (effects_of (fiber_table r0) R) r0 r''"
    using assms(1) by (simp add: r''_def without_def pruned_def)
  show ?thesis
  proof (cases "fiber_get (fiber_table r) i")
    case None
    have "effects_of (fiber_table r0) (insert i R) = effects_of (fiber_table r0) R"
      using None without_get [OF assms(1), of i] effects_of_absorb [of i R "fiber_table r0"]
      by (auto simp: effects_of_insert insert_absorb split: if_splits option.splits)
    then have "without (insert i R) r0 r''" using pr tab realms'' by (simp add: without_def)
    with None show ?thesis by (simp add: r''_def)
  next
    case (Some f)
    then have f: "fiber_get (fiber_table r0) i = Some f"
      using without_get [OF assms(1), of i] by (auto split: if_splits)
    have inv: "table_inv (services r'')" using without_table_inv [OF assms] by (simp add: r''_def)
    note d = dispose_all_pruned [OF inv, of f]
    have "pruned (effects_of (fiber_table r0) (insert i R)) r0 (dispose_all f r'')"
      using pruned_trans [OF pr conjunct1 [OF d]] by (simp add: effects_of_insert f)
    then have "without (insert i R) r0 (dispose_all f r'')" using d tab realms'' by (simp add: without_def)
    with Some show ?thesis by (simp add: r''_def)
  qed
qed

lemma foldl_unload:
  assumes step: "\<And>c R r. c \<in> set cs \<Longrightarrow> without R r0 r \<Longrightarrow> family_closed t0 R \<Longrightarrow> ROOT_FIBER \<notin> R \<Longrightarrow>
      \<exists>r'. unload ord n c r = Some r' \<and> without (R \<union> below t0 c) r0 r'"
    and root: "\<And>c. c \<in> set cs \<Longrightarrow> ROOT_FIBER \<notin> below t0 c"
    and start: "without R r0 r" "family_closed t0 R" "ROOT_FIBER \<notin> R"
  shows "\<exists>r'. foldl (\<lambda>acc c. Option.bind acc (unload ord n c)) (Some r) cs = Some r'
    \<and> without (R \<union> \<Union> (below t0 ` set cs)) r0 r'"
  using assms
proof (induction cs arbitrary: R r)
  case (Cons c cs)
  obtain r1 where r1: "unload ord n c r = Some r1" "without (R \<union> below t0 c) r0 r1"
    using Cons.prems(1) [of c, OF _ Cons.prems(3-5)] by auto
  have "\<exists>r'. foldl (\<lambda>acc c. Option.bind acc (unload ord n c)) (Some r1) cs = Some r'
      \<and> without (R \<union> below t0 c \<union> \<Union> (below t0 ` set cs)) r0 r'"
    using Cons.prems(2,5)
    by (intro Cons.IH Cons.prems(1) r1(2) family_closed_Un [OF Cons.prems(4) below_closed]) auto
  then show ?case by (simp add: r1(1) Un_assoc)
qed simp

lemma below_unfold:
  assumes "family_closed t R" "\<And>c f. fiber_get t c = Some f \<Longrightarrow> f_parent f = i \<Longrightarrow> c \<notin> R \<Longrightarrow> c \<in> C"
    and "\<And>c. c \<in> C \<Longrightarrow> \<exists>f. fiber_get t c = Some f \<and> f_parent f = i"
  shows "R \<union> below t i = insert i (R \<union> \<Union> (below t ` C))"
proof (intro set_eqI iffI)
  fix g assume g: "g \<in> R \<union> below t i"
  have "g \<in> below t i \<Longrightarrow> g \<in> insert i (R \<union> \<Union> (below t ` C))"
  proof (induction rule: below.induct)
    case (below_child g f)
    then show ?case using assms(1,2) by (auto simp: family_closed_def intro: below.intros)
  qed simp
  with g show "g \<in> insert i (R \<union> \<Union> (below t ` C))" by blast
next
  fix g assume "g \<in> insert i (R \<union> \<Union> (below t ` C))"
  then consider "g = i \<or> g \<in> R" | c where "c \<in> C" "g \<in> below t c" by blast
  then show "g \<in> R \<union> below t i"
  proof cases
    case 2
    have "c \<in> below t i" using assms(3) [OF 2(1)] below_child below_self by metis
    then show ?thesis using below_trans [OF 2(2)] by blast
  qed (auto intro: below_self)
qed

lemma unload_without:
  assumes ord: "\<forall>xs. set (ord xs) = set xs" and inv: "root_inv r0" and t0: "t0 = fiber_table r0"
  shows "without R r0 r \<Longrightarrow> family_closed t0 R \<Longrightarrow> ROOT_FIBER \<notin> R \<Longrightarrow> i \<noteq> ROOT_FIBER \<Longrightarrow>
    next_fiber t0 + 1 \<le> n + i \<Longrightarrow> 1 \<le> n \<Longrightarrow>
    \<exists>r'. unload ord n i r = Some r' \<and> without (R \<union> below t0 i) r0 r'"
proof (induction n arbitrary: i r R)
  case (Suc n)
  have finv: "fiber_inv t0" and tinv: "table_inv (services r0)" using inv by (simp_all add: root_inv_def t0)
  let ?cs = "ord (children_of (fiber_table r) i)"
  have cs: "c \<in> set ?cs \<longleftrightarrow> c \<notin> R \<and> (\<exists>f. fiber_get t0 c = Some f \<and> f_parent f = i)" for c
    using without_children [OF Suc.prems(1) _ Suc.prems(3), of i] finv ord by (simp add: t0)
  have later: "i < c \<and> c < next_fiber t0" if c: "c \<in> set ?cs" for c
  proof -
    obtain f where f: "fiber_get t0 c = Some f" "f_parent f = i" using iffD1 [OF cs c] by auto
    show ?thesis using fiber_get_inv [OF finv f(1)] f(2) Suc.prems(4)
      by (cases "c = ROOT_FIBER") (auto simp: ROOT_FIBER_def)
  qed
  have root: "ROOT_FIBER \<notin> below t0 c" if "c \<in> set ?cs" for c
    using below_ge [of ROOT_FIBER t0 c] finv later [OF that] by (auto simp: ROOT_FIBER_def)
  have "\<exists>r'. foldl (\<lambda>acc c. Option.bind acc (unload ord n c)) (Some r) ?cs = Some r'
      \<and> without (R \<union> \<Union> (below t0 ` set ?cs)) r0 r'"
  proof (rule foldl_unload [OF _ root Suc.prems(1-3)])
    fix c R' r' assume c: "c \<in> set ?cs" and w: "without R' r0 r'" "family_closed t0 R'" "ROOT_FIBER \<notin> R'"
    show "\<exists>r''. unload ord n c r' = Some r'' \<and> without (R' \<union> below t0 c) r0 r''"
      using later [OF c] Suc.prems(5) by (intro Suc.IH w) (auto simp: ROOT_FIBER_def)
  qed
  then obtain r1 where r1: "foldl (\<lambda>acc c. Option.bind acc (unload ord n c)) (Some r) ?cs = Some r1"
    "without (R \<union> \<Union> (below t0 ` set ?cs)) r0 r1" by blast
  have "R \<union> below t0 i = insert i (R \<union> \<Union> (below t0 ` set ?cs))"
    using cs by (intro below_unfold [OF Suc.prems(2)]) auto
  then show ?case using without_remove [OF r1(2) tinv, of i] Suc.prems(4) by (simp add: r1(1))
qed simp

lemma without_self: "without {} r r"
  by (simp add: without_def effects_of_def pruned_refl)

lemma unload_spec:
  assumes "\<forall>xs. set (ord xs) = set xs" "root_inv r" "i \<noteq> ROOT_FIBER"
  shows "\<exists>r'. ctx_unload ord i r = Some r' \<and> without (below (fiber_table r) i) r r'"
  using unload_without [OF assms(1,2) refl without_self _ _ assms(3), of "next_fiber (fiber_table r) + 1"]
  by (simp add: ctx_unload_def family_closed_def)

end
