(* ===== verification/Reversibility.thy ===== *)
theory Reversibility
  imports Plexus_Laws
begin

text \<open>
  A plugin can be taken out again. \<open>acts f\<close> is what the code of a plugin mounted as fiber \<open>f\<close> and of
  everything it mounts can do through live contexts: provide, register listeners of the five kinds,
  file effects, isolate a realm, mount, change a status, dispose and unload. \<open>footprint\<close> is what
  such steps keep, relative to the root before \<open>f\<close> was created: all they added is named by a ledger
  that unloading \<open>f\<close> runs, and those ledgers name nothing else. It follows that unloading \<open>f\<close> gives
  back the slots, the listeners and the fibers there were (\<open>unload_reverts\<close>).
\<close>

section \<open>Operations on ledgers\<close>

lemma set_live_effects: "set (live_effects f) = {u. Some u \<in> set (f_ledger f)}"
  by (force simp: live_effects_def map_filter_def)

lemma effects_of_empty: "effects_of t {} = {}"
  by (simp add: effects_of_def)

lemma effects_of_split:
  "g \<in> R \<Longrightarrow> fiber_get t g = Some F \<Longrightarrow> effects_of t R = {u. Some u \<in> set (f_ledger F)} \<union> effects_of t (R - {g})"
  by (auto simp: effects_of_def set_live_effects)

lemma effects_of_update:
  assumes "g \<in> R" "fiber_get t g = Some F"
  shows "effects_of (fiber_update t g h) R = {u. Some u \<in> set (f_ledger (h F))} \<union> effects_of t (R - {g})"
proof -
  have "effects_of (fiber_update t g h) (R - {g}) = effects_of t (R - {g})"
    by (auto simp: effects_of_def fiber_get_update split: if_splits)
  then show ?thesis using assms effects_of_split [of g R "fiber_update t g h" "h F"] by (simp add: fiber_get_update)
qed

lemma effects_of_append:
  assumes "fiber_get t g \<noteq> None" "g \<in> R"
  shows "effects_of (fiber_update t g (\<lambda>f. snd (state_record f u))) R = insert u (effects_of t R)"
proof -
  obtain F where F: "fiber_get t g = Some F" using assms(1) by blast
  show ?thesis unfolding effects_of_update [OF assms(2) F] effects_of_split [OF assms(2) F]
    by (auto simp: state_record_def)
qed

lemma fibers_update_other:
  "f \<le> g \<Longrightarrow> filter (\<lambda>x. fst x < f) (fibers (fiber_update t g h)) = filter (\<lambda>x. fst x < f) (fibers t)"
proof -
  assume g: "f \<le> g"
  have "filter (\<lambda>x. fst x < f) (map (\<lambda>(j, F). if j = g then (j, h F) else (j, F)) xs)
      = filter (\<lambda>x. fst x < f) xs" for xs
    using g by (induction xs) (auto split: if_splits)
  then show ?thesis by (simp add: fiber_update_def)
qed

lemma next_fiber_update: "next_fiber (fiber_update t g h) = next_fiber t"
  by (simp add: fiber_update_def)

lemma ctx_record_live:
  "fiber_get (fiber_table r) (ctx_fiber c) \<noteq> None \<Longrightarrow>
   snd (ctx_record r c u) = r\<lparr>fiber_table := fiber_update (fiber_table r) (ctx_fiber c) (\<lambda>f. snd (state_record f u))\<rparr>"
  by (auto simp: ctx_record_def fiber_record_def)

lemma take_slot_ledger:
  "{u. Some u \<in> set (f_ledger (snd (take_slot F j)))} \<subseteq> {u. Some u \<in> set (f_ledger F)}"
  "{u. Some u \<in> set (f_ledger F)} \<subseteq> set_option (fst (take_slot F j)) \<union> {u. Some u \<in> set (f_ledger (snd (take_slot F j)))}"
  "set_option (fst (take_slot F j)) \<subseteq> {u. Some u \<in> set (f_ledger F)}"
proof -
  have "Some u \<in> set (f_ledger F)" if "Some u \<in> set ((f_ledger F)[j := None])" for u
    using that set_update_subset_insert [of "f_ledger F" j None] by blast
  then show "{u. Some u \<in> set (f_ledger (snd (take_slot F j)))} \<subseteq> {u. Some u \<in> set (f_ledger F)}"
    by (auto simp: take_slot_def)
  have "Some u \<in> set ((f_ledger F)[j := None])" if "Some u \<in> set (f_ledger F)" "f_ledger F ! j \<noteq> Some u" for u
    using that by (metis in_set_conv_nth length_list_update nth_list_update_neq)
  then show "{u. Some u \<in> set (f_ledger F)} \<subseteq> set_option (fst (take_slot F j)) \<union> {u. Some u \<in> set (f_ledger (snd (take_slot F j)))}"
    by (auto simp: take_slot_def)
  show "set_option (fst (take_slot F j)) \<subseteq> {u. Some u \<in> set (f_ledger F)}"
    by (auto simp: take_slot_def in_set_conv_nth)
qed

lemma effects_of_take:
  assumes g: "g \<in> R" and F: "fiber_get t g = Some F"
  shows "effects_of (fiber_update t g (\<lambda>f. snd (take_slot f j))) R \<subseteq> effects_of t R"
    and "effects_of t R \<subseteq> set_option (fst (take_slot F j)) \<union> effects_of (fiber_update t g (\<lambda>f. snd (take_slot f j))) R"
    and "set_option (fst (take_slot F j)) \<subseteq> effects_of t R"
  unfolding effects_of_update [OF g F] effects_of_split [OF g F] using take_slot_ledger [of F j] by blast+

section \<open>The two tables\<close>

fun own :: "fiber_id \<Rightarrow> nat \<Rightarrow> undo \<Rightarrow> bool" where
  "own f n (RevokeService ty rl g) = (f \<le> g)"
| "own f n (RemoveListener ty i) = (n \<le> i)"
| "own f n _ = True"

text \<open>\<open>E\<close> is what the ledgers of the plugin hold; \<open>f\<close> and \<open>n\<close> were the next fiber and listener.\<close>

definition tables_ok :: "('v, 'h) root \<Rightarrow> fiber_id \<Rightarrow> nat \<Rightarrow> undo set \<Rightarrow> ('v, 'h) root \<Rightarrow> bool" where
  "tables_ok r0 f n E r \<longleftrightarrow>
     filter (\<lambda>s. slot_owner (snd s) < f) (slots (services r)) = slots (services r0)
     \<and> (\<forall>s\<in>set (slots (services r)). f \<le> slot_owner (snd s) \<longrightarrow> (\<exists>u\<in>E. kills_slot u s))
     \<and> (\<forall>ty. filter (\<lambda>x. reg_id x < n) (listeners_of (events r) ty) = listeners_of (events r0) ty)
     \<and> (\<forall>ty. \<forall>x\<in>set (listeners_of (events r) ty). n \<le> reg_id x \<longrightarrow> (\<exists>u\<in>E. kills_listener u ty x))
     \<and> (\<forall>u\<in>E. own f n u)"

lemma own_spares_slot: "own f n u \<Longrightarrow> kills_slot u s \<Longrightarrow> f \<le> slot_owner (snd s)"
  by (cases u) (auto simp: revoked_by_def)

lemma own_spares_listener: "own f n u \<Longrightarrow> kills_listener u ty x \<Longrightarrow> n \<le> reg_id x"
  by (cases u) auto

lemma map_of_map_filter:
  "map_of (map (\<lambda>(t, regs). (t, filter (P t) regs)) l) ty = map_option (filter (P ty)) (map_of l ty)"
  by (induction l) auto

lemma pruned_listeners:
  "pruned U r r' \<Longrightarrow> listeners_of (events r') ty
     = filter (\<lambda>x. \<forall>u\<in>U. \<not> kills_listener u ty x) (listeners_of (events r) ty)"
  by (simp add: pruned_def listeners_of_def map_of_map_filter [of "\<lambda>t x. \<forall>u\<in>U. \<not> kills_listener u t x"] split: option.split)

lemma pruned_slots:
  "pruned U r r' \<Longrightarrow> slots (services r') = filter (\<lambda>s. \<forall>u\<in>U. \<not> kills_slot u s) (slots (services r))"
  by (simp add: pruned_def)

lemma tables_ok_pruned:
  assumes ok: "tables_ok r0 f n E r" and p: "pruned U r r'" and U: "U \<subseteq> E" "E \<subseteq> U \<union> E'" "E' \<subseteq> E"
  shows "tables_ok r0 f n E' r'"
proof -
  have own: "own f n u" if "u \<in> E" for u using ok that by (auto simp: tables_ok_def)
  have "(\<forall>u\<in>U. \<not> kills_slot u s) \<and> slot_owner (snd s) < f \<longleftrightarrow> slot_owner (snd s) < f" for s :: "slot_key \<times> 'a slot"
    using own_spares_slot [OF own, of _ s] U(1) by (meson in_mono leD)
  then have s: "filter (\<lambda>s. slot_owner (snd s) < f) (slots (services r')) = slots (services r0)"
    using ok unfolding pruned_slots [OF p] filter_filter tables_ok_def by simp
  have "(\<forall>u\<in>U. \<not> kills_listener u ty x) \<and> reg_id x < n \<longleftrightarrow> reg_id x < n" for ty and x :: "'b registration"
    using own_spares_listener [OF own, of _ ty x] U(1) by (meson in_mono leD)
  then have l: "filter (\<lambda>x. reg_id x < n) (listeners_of (events r') ty) = listeners_of (events r0) ty" for ty
    using ok unfolding pruned_listeners [OF p] filter_filter tables_ok_def by simp
  have ks: "\<exists>u\<in>E'. kills_slot u s" if s: "s \<in> set (slots (services r'))" "f \<le> slot_owner (snd s)" for s
  proof -
    obtain u where "u \<in> E" "kills_slot u s" using s ok by (auto simp: pruned_slots [OF p] tables_ok_def)
    then show ?thesis using that(1) U(2) by (auto simp: pruned_slots [OF p])
  qed
  have kl: "\<exists>u\<in>E'. kills_listener u ty x" if x: "x \<in> set (listeners_of (events r') ty)" "n \<le> reg_id x" for ty x
  proof -
    have "\<exists>u\<in>E. kills_listener u ty x" using x ok unfolding tables_ok_def pruned_listeners [OF p] by simp
    then show ?thesis using that(1) U(2) by (auto simp: pruned_listeners [OF p])
  qed
  show ?thesis using s l ks kl own U(3) by (auto simp: tables_ok_def)
qed

lemma tables_ok_effect:
  assumes "tables_ok r0 f n E r" "own f n u" "services r' = services r" "events r' = events r"
  shows "tables_ok r0 f n (insert u E) r'"
  using assms by (auto simp: tables_ok_def)

lemma tables_ok_slot:
  assumes "tables_ok r0 f n E r" "slots (services r') = s # slots (services r)" "events r' = events r"
    "own f n u" "kills_slot u s"
  shows "tables_ok r0 f n (insert u E) r'"
  using assms own_spares_slot [OF assms(4,5)] by (auto simp: tables_ok_def)

lemma filter_prepend:
  assumes "bus_inv b"
  shows "filter P (filter reg_prepend (listeners_of b ty)) @ filter P (filter (\<lambda>x. \<not> reg_prepend x) (listeners_of b ty))
    = filter P (listeners_of b ty)"
  using arg_cong [OF prepended_first [OF assms, of ty], of "filter P"] by simp

lemma tables_ok_listener:
  assumes ok: "tables_ok r0 f n E r" and inv: "bus_inv (events r)" and n: "n \<le> next_listener (events r)"
    and ins: "bus_insert (events r) ty rl p h = (i, b)" and r': "events r' = b" "services r' = services r"
  shows "tables_ok r0 f n (insert (RemoveListener ty i) E) r'"
proof -
  have i: "i = next_listener (events r)" using ins by (simp add: bus_insert_def Let_def)
  note L = listeners_of_insert [OF inv ins]
  have "filter (\<lambda>x. reg_id x < n) (listeners_of b ty') = filter (\<lambda>x. reg_id x < n) (listeners_of (events r) ty')" for ty'
    unfolding L using n i filter_prepend [OF inv, of "\<lambda>x. reg_id x < n" ty'] by (auto simp del: filter_filter)
  moreover have "\<exists>u\<in>insert (RemoveListener ty i) E. kills_listener u ty' x"
    if "x \<in> set (listeners_of b ty')" "n \<le> reg_id x" for ty' x
    using that ok unfolding L by (auto simp: tables_ok_def split: if_splits)
  ultimately show ?thesis using ok n by (auto simp: tables_ok_def r' i)
qed

section \<open>The invariant of the root\<close>

lemma bus_inv_filter:
  assumes "bus_inv b"
  shows "bus_inv (b\<lparr>listeners := map (\<lambda>(t, regs). (t, filter (P t) regs)) (listeners b)\<rparr>)"
proof -
  have "map fst (map (\<lambda>(t, regs). (t, filter (P t) regs)) l) = map fst l" for l :: "(nat \<times> 'a registration list) list"
    by (induction l) auto
  then show ?thesis
    using assms unfolding bus_inv_def by (auto simp: sorted_filter distinct_map_filter simp del: map_map)
qed

lemma root_inv_pruned:
  assumes "root_inv r" "pruned U r r'" "fiber_inv (fiber_table r')" "realm_inv (realms r')"
    "next_fiber (fiber_table r) \<le> next_fiber (fiber_table r')"
  shows "root_inv r'"
proof -
  have "bus_inv (events r')"
    using assms(1,2) bus_inv_filter [of "events r" "\<lambda>t x. \<forall>u\<in>U. \<not> kills_listener u t x"]
    by (simp add: root_inv_def pruned_def)
  then show ?thesis
    using assms pruned_table_inv [OF assms(2)] pruned_slots [OF assms(2)]
    by (auto simp: root_inv_def intro: order_less_le_trans)
qed

lemma root_inv_fibers:
  assumes "root_inv r" "fiber_inv t" "next_fiber (fiber_table r) \<le> next_fiber t"
  shows "root_inv (r\<lparr>fiber_table := t\<rparr>)"
  using assms by (auto simp: root_inv_def intro: order_less_le_trans)

lemma fiber_inv_append: "fiber_inv t \<Longrightarrow> fiber_inv (fiber_update t g (\<lambda>f. snd (state_record f u)))"
  by (rule fiber_inv_update) (simp_all add: state_record_def)

lemma fiber_inv_take: "fiber_inv t \<Longrightarrow> fiber_inv (fiber_update t g (\<lambda>f. snd (take_slot f j)))"
  by (rule fiber_inv_update) (simp_all add: take_slot_def)

lemma fiber_inv_status: "fiber_inv t \<Longrightarrow> fiber_inv (set_status t g st)"
  unfolding set_status_def by (rule fiber_inv_update) simp_all

lemma pruned_fibers: "pruned U (r\<lparr>fiber_table := t\<rparr>) r' = pruned U r r'"
  by (simp add: pruned_def)

text \<open>A disposal takes one effect off a ledger and runs it.\<close>

lemma dispose_live:
  assumes "root_inv r" "fiber_get (fiber_table r) (d_fiber d) = Some F"
  defines "t' \<equiv> fiber_update (fiber_table r) (d_fiber d) (\<lambda>f. snd (take_slot f (d_slot d)))"
  shows "pruned (set_option (fst (take_slot F (d_slot d)))) r (dispose d r)
    \<and> fiber_table (dispose d r) = t' \<and> realms (dispose d r) = realms r"
proof (cases "fst (take_slot F (d_slot d))")
  case None
  then show ?thesis using assms by (simp add: dispose_def pruned_refl)
next
  case (Some u)
  then have "dispose d r = run_undo u (r\<lparr>fiber_table := t'\<rparr>)" using assms by (simp add: dispose_def)
  then show ?thesis
    using run_undo_pruned [of "r\<lparr>fiber_table := t'\<rparr>" u] assms(1) Some by (simp add: root_inv_def pruned_fibers)
qed

lemma dispose_dead: "fiber_get (fiber_table r) (d_fiber d) = None \<Longrightarrow> dispose d r = r"
  by (simp add: dispose_def)

lemma root_inv_dispose: "root_inv r \<Longrightarrow> root_inv (dispose d r)"
proof (cases "fiber_get (fiber_table r) (d_fiber d)")
  case (Some F)
  assume inv: "root_inv r"
  note d = dispose_live [OF inv Some]
  have "fiber_inv (fiber_table (dispose d r))" using d inv by (simp add: root_inv_def fiber_inv_take)
  then show ?thesis using d inv by (intro root_inv_pruned [OF inv conjunct1 [OF d]]) (simp_all add: next_fiber_update root_inv_def)
qed (simp add: dispose_dead)

lemma root_inv_without:
  assumes "root_inv r" "without R r r'" "ROOT_FIBER \<notin> R"
  shows "root_inv r'"
  using assms without_fiber_inv [OF assms(2) _ assms(3)]
  by (intro root_inv_pruned [OF assms(1)]) (auto simp: without_def root_inv_def)

section \<open>Footprints\<close>

definition footprint :: "('v, 'h) root \<Rightarrow> ('v, 'h) root \<Rightarrow> bool" where
  "footprint r0 r \<longleftrightarrow>
     (let f = next_fiber (fiber_table r0); t = fiber_table r in
      root_inv r \<and> 1 \<le> f \<and> f \<le> next_fiber t \<and> next_listener (events r0) \<le> next_listener (events r)
      \<and> tables_ok r0 f (next_listener (events r0)) (effects_of t {f..}) r
      \<and> filter (\<lambda>x. fst x < f) (fibers t) = fibers (fiber_table r0)
      \<and> (\<forall>g F. fiber_get t g = Some F \<longrightarrow> f < g \<longrightarrow> f \<le> f_parent F \<and> fiber_get t (f_parent F) \<noteq> None))"

definition live :: "('v, 'h) root \<Rightarrow> fiber_id \<Rightarrow> ctx \<Rightarrow> bool" where
  "live r f c \<longleftrightarrow> f \<le> ctx_fiber c \<and> fiber_get (fiber_table r) (ctx_fiber c) \<noteq> None"

text \<open>Filing the undo of something just added.\<close>

lemma footprint_record:
  assumes fp: "footprint r0 r" and lv: "live r (next_fiber (fiber_table r0)) c"
    and r1: "fiber_table r1 = fiber_table r" "root_inv r1" "next_listener (events r) \<le> next_listener (events r1)"
    and ok: "\<And>E r2. tables_ok r0 (next_fiber (fiber_table r0)) (next_listener (events r0)) E r \<Longrightarrow>
      services r2 = services r1 \<Longrightarrow> events r2 = events r1 \<Longrightarrow>
      tables_ok r0 (next_fiber (fiber_table r0)) (next_listener (events r0)) (insert u E) r2"
  shows "footprint r0 (snd (ctx_record r1 c u))"
proof -
  let ?t = "fiber_update (fiber_table r) (ctx_fiber c) (\<lambda>f. snd (state_record f u))"
  have lv': "fiber_get (fiber_table r) (ctx_fiber c) \<noteq> None" "next_fiber (fiber_table r0) \<le> ctx_fiber c"
    using lv by (simp_all add: live_def)
  have eq: "snd (ctx_record r1 c u) = r1\<lparr>fiber_table := ?t\<rparr>" using ctx_record_live lv'(1) r1(1) by metis
  have "root_inv (r1\<lparr>fiber_table := ?t\<rparr>)"
    using r1(2) fiber_inv_append by (intro root_inv_fibers) (auto simp: next_fiber_update r1(1) root_inv_def)
  moreover have "tables_ok r0 (next_fiber (fiber_table r0)) (next_listener (events r0)) (effects_of ?t {next_fiber (fiber_table r0)..}) (r1\<lparr>fiber_table := ?t\<rparr>)"
    unfolding effects_of_append [OF lv'(1), of "{next_fiber (fiber_table r0)..}", simplified, OF lv'(2)]
    using fp by (intro ok) (auto simp: footprint_def Let_def)
  moreover have "next_fiber (fiber_table r0) \<le> f_parent F \<and> fiber_get ?t (f_parent F) \<noteq> None"
    if g: "fiber_get ?t g = Some F" "next_fiber (fiber_table r0) < g" for g F
  proof -
    obtain F0 where "fiber_get (fiber_table r) g = Some F0" "f_parent F = f_parent F0"
      using g(1) by (auto simp: fiber_get_update state_record_def split: if_splits)
    then show ?thesis using fp g(2) lv'(1) by (auto simp: footprint_def Let_def fiber_get_update)
  qed
  moreover have "filter (\<lambda>x. fst x < next_fiber (fiber_table r0)) (fibers ?t) = fibers (fiber_table r0)"
    unfolding fibers_update_other [OF lv'(2)] using fp by (simp add: footprint_def Let_def)
  moreover have "1 \<le> next_fiber (fiber_table r0) \<and> next_fiber (fiber_table r0) \<le> next_fiber ?t
      \<and> next_listener (events r0) \<le> next_listener (events r1)"
    using fp r1(3) by (simp add: footprint_def Let_def next_fiber_update)
  ultimately show ?thesis unfolding footprint_def Let_def eq by simp
qed

lemma footprint_effect: "footprint r0 r \<Longrightarrow> live r (next_fiber (fiber_table r0)) c \<Longrightarrow> footprint r0 (snd (ctx_effect r c n))"
  unfolding ctx_effect_def
  by (rule footprint_record) (auto simp: footprint_def Let_def intro: tables_ok_effect)

lemma footprint_provide:
  assumes "footprint r0 r" "live r (next_fiber (fiber_table r0)) c"
  shows "footprint r0 (snd (ctx_provide r c k v))"
proof (cases "table_provide (services r) k (ctx_realm c) v (ctx_fiber c) (ctx_label r c)")
  case (Inl e)
  then show ?thesis using assms by (simp add: ctx_provide_def)
next
  case (Inr tb)
  have inv: "root_inv r" using assms(1) by (simp add: footprint_def Let_def)
  have tb: "slots tb = ((ctx_realm c, sk_type k), \<lparr>slot_name = sk_name k, slot_value = v, slot_owner = ctx_fiber c, owner_label = ctx_label r c\<rparr>) # slots (services r)"
    using Inr by (auto simp: table_provide_def split: option.splits)
  have "ctx_fiber c < next_fiber (fiber_table r)"
    using assms(2) inv fiber_get_inv [of "fiber_table r" "ctx_fiber c"] by (auto simp: live_def root_inv_def)
  then have "root_inv (r\<lparr>services := tb\<rparr>)"
    using inv table_inv_provide [OF Inr] by (auto simp: root_inv_def tb)
  then have "footprint r0 (snd (ctx_record (r\<lparr>services := tb\<rparr>) c (RevokeService (sk_type k) (ctx_realm c) (ctx_fiber c))))"
  proof (rule footprint_record [OF assms, rotated])
    fix E and r2 :: "('a, 'b) root"
    assume "tables_ok r0 (next_fiber (fiber_table r0)) (next_listener (events r0)) E r"
      "services r2 = services (r\<lparr>services := tb\<rparr>)" "events r2 = events (r\<lparr>services := tb\<rparr>)"
    then show "tables_ok r0 (next_fiber (fiber_table r0)) (next_listener (events r0))
        (insert (RevokeService (sk_type k) (ctx_realm c) (ctx_fiber c)) E) r2"
      using tb assms(2) by (intro tables_ok_slot) (auto simp: live_def revoked_by_def)
  qed simp_all
  then show ?thesis using Inr by (simp add: ctx_provide_def case_prod_beta')
qed

lemma footprint_listen:
  assumes fp: "footprint r0 r" and lv: "live r (next_fiber (fiber_table r0)) c"
    and ins: "bus_insert (events r) (ek_type e) rl p h = (i, b)"
  shows "footprint r0 (snd (record_listener (r\<lparr>events := b\<rparr>) c e i))"
proof -
  have inv: "root_inv r" "next_listener (events r0) \<le> next_listener (events r)" using fp by (simp_all add: footprint_def Let_def)
  have "next_listener b = next_listener (events r) + 1" using ins by (auto simp: bus_insert_def Let_def)
  moreover have "root_inv (r\<lparr>events := b\<rparr>)"
    using inv(1) bus_inv_insert [of "events r" "ek_type e" rl p h] ins by (simp add: root_inv_def)
  ultimately show ?thesis
    unfolding record_listener_def using inv ins
    by (intro footprint_record [OF fp lv]) (auto simp: root_inv_def intro!: tables_ok_listener)
qed

lemma footprint_pruned:
  assumes fp: "footprint r0 r" and f: "f = next_fiber (fiber_table r0)" and p: "pruned U r r'"
    and U: "U \<subseteq> effects_of (fiber_table r) {f..}"
      "effects_of (fiber_table r) {f..} \<subseteq> U \<union> effects_of (fiber_table r') {f..}"
      "effects_of (fiber_table r') {f..} \<subseteq> effects_of (fiber_table r) {f..}"
    and t: "fiber_inv (fiber_table r')" "next_fiber (fiber_table r) \<le> next_fiber (fiber_table r')"
      "filter (\<lambda>x. fst x < f) (fibers (fiber_table r')) = filter (\<lambda>x. fst x < f) (fibers (fiber_table r))"
      "realm_inv (realms r')"
    and par: "\<And>g F. fiber_get (fiber_table r') g = Some F \<Longrightarrow> f < g \<Longrightarrow> f \<le> f_parent F \<and> fiber_get (fiber_table r') (f_parent F) \<noteq> None"
  shows "footprint r0 r'"
proof -
  have F: "root_inv r" "tables_ok r0 f (next_listener (events r0)) (effects_of (fiber_table r) {f..}) r"
      "1 \<le> f" "f \<le> next_fiber (fiber_table r)" "next_listener (events r0) \<le> next_listener (events r)"
      "filter (\<lambda>x. fst x < f) (fibers (fiber_table r)) = fibers (fiber_table r0)"
    using fp by (simp_all add: footprint_def Let_def f)
  have "root_inv r'" using root_inv_pruned [OF F(1) p t(1,4,2)] .
  moreover have "tables_ok r0 f (next_listener (events r0)) (effects_of (fiber_table r') {f..}) r'"
    by (rule tables_ok_pruned [OF F(2) p U])
  moreover have "next_listener (events r') = next_listener (events r)" using p by (simp add: pruned_def)
  ultimately show ?thesis using F t par unfolding footprint_def Let_def f [symmetric] by simp
qed

lemma footprint_parent:
  "footprint r0 r \<Longrightarrow> fiber_get (fiber_table r) g = Some F \<Longrightarrow> next_fiber (fiber_table r0) < g \<Longrightarrow>
   next_fiber (fiber_table r0) \<le> f_parent F \<and> fiber_get (fiber_table r) (f_parent F) \<noteq> None"
  by (simp add: footprint_def Let_def)

lemma footprint_root_inv: "footprint r0 r \<Longrightarrow> root_inv r"
  by (simp add: footprint_def Let_def)

lemma footprint_isolate:
  assumes "footprint r0 r" "ctx_realm c < next_realm (realms r)"
  shows "footprint r0 (snd (isolate r c))"
proof -
  have inv: "root_inv r" using footprint_root_inv [OF assms(1)] .
  have "snd (isolate r c) = r\<lparr>realms := snd (fork (realms r) (ctx_realm c))\<rparr>"
    by (simp add: isolate_def case_prod_beta')
  then show ?thesis
    using inv assms footprint_parent [OF assms(1)]
    by (intro footprint_pruned [OF assms(1) refl, of "{}"]) (auto simp: root_inv_def pruned_refl realm_inv_fork)
qed

text \<open>A change of fibers that leaves the ledgers alone.\<close>

lemma effects_of_same:
  assumes "\<And>g u. (\<exists>F. fiber_get t' g = Some F \<and> u \<in> set (live_effects F)) \<longleftrightarrow> (\<exists>F. fiber_get t g = Some F \<and> u \<in> set (live_effects F))"
  shows "effects_of t' R = effects_of t R"
  by (simp add: effects_of_def assms)

lemma footprint_fibers:
  assumes fp: "footprint r0 r" and f: "f = next_fiber (fiber_table r0)"
    and eff: "\<And>R. effects_of t' R = effects_of (fiber_table r) R"
    and t: "fiber_inv t'" "next_fiber (fiber_table r) \<le> next_fiber t'"
      "filter (\<lambda>x. fst x < f) (fibers t') = filter (\<lambda>x. fst x < f) (fibers (fiber_table r))"
    and par: "\<And>g F. fiber_get t' g = Some F \<Longrightarrow> f < g \<Longrightarrow> f \<le> f_parent F \<and> fiber_get t' (f_parent F) \<noteq> None"
  shows "footprint r0 (r\<lparr>fiber_table := t'\<rparr>)"
  using footprint_root_inv [OF fp] t par
  by (intro footprint_pruned [OF fp f, of "{}"]) (simp_all add: eff root_inv_def pruned_refl)

lemma footprint_status:
  assumes "footprint r0 r" "next_fiber (fiber_table r0) \<le> g"
  shows "footprint r0 (r\<lparr>fiber_table := set_status (fiber_table r) g st\<rparr>)"
proof (rule footprint_fibers [OF assms(1) refl])
  let ?t = "fiber_table r" and ?t' = "set_status (fiber_table r) g st"
  have get: "fiber_get ?t' h
      = (if h = g then map_option (\<lambda>f. f\<lparr>f_status := st\<rparr>) (fiber_get ?t h) else fiber_get ?t h)" for h
    by (simp add: set_status_def fiber_get_update)
  show "effects_of ?t' R = effects_of ?t R" for R
    by (rule effects_of_same) (auto simp: get set_live_effects)
  show "fiber_inv ?t'" using footprint_root_inv [OF assms(1)] by (simp add: root_inv_def fiber_inv_status)
  show "next_fiber ?t \<le> next_fiber ?t'" by (simp add: set_status_def next_fiber_update)
  show "filter (\<lambda>x. fst x < next_fiber (fiber_table r0)) (fibers ?t') = filter (\<lambda>x. fst x < next_fiber (fiber_table r0)) (fibers ?t)"
    unfolding set_status_def by (rule fibers_update_other [OF assms(2)])
  fix h F assume h: "fiber_get ?t' h = Some F" "next_fiber (fiber_table r0) < h"
  obtain F0 where "fiber_get ?t h = Some F0" "f_parent F0 = f_parent F" using h(1) by (auto simp: get split: if_splits)
  then show "next_fiber (fiber_table r0) \<le> f_parent F \<and> fiber_get ?t' (f_parent F) \<noteq> None"
    using footprint_parent [OF assms(1) _ h(2), of F0] by (auto simp: get)
qed

lemma footprint_mount:
  assumes "footprint r0 r" "live r (next_fiber (fiber_table r0)) c"
  shows "footprint r0 (r\<lparr>fiber_table := snd (fiber_create (fiber_table r) e n (ctx_fiber c))\<rparr>)"
proof -
  let ?t = "fiber_table r" and ?t' = "snd (fiber_create (fiber_table r) e n (ctx_fiber c))"
  have inv: "root_inv r" using footprint_root_inv [OF assms(1)] .
  have f: "next_fiber (fiber_table r0) \<le> next_fiber ?t" using assms(1) by (simp add: footprint_def Let_def)
  have c: "ctx_fiber c < next_fiber ?t" "next_fiber (fiber_table r0) \<le> ctx_fiber c" "fiber_get ?t (ctx_fiber c) \<noteq> None"
    using assms(2) inv fiber_get_inv [of ?t "ctx_fiber c"] by (auto simp: live_def root_inv_def)
  have get: "fiber_get ?t' h = (if h = next_fiber ?t then Some (fiber_state_new (next_fiber ?t) e n (ctx_fiber c)) else fiber_get ?t h)" for h
    by (simp add: fiber_create_def fiber_get_def)
  have fresh: "fiber_get ?t (next_fiber ?t) = None"
    using inv fiber_get_inv [of ?t "next_fiber ?t"] by (cases "fiber_get ?t (next_fiber ?t)") (auto simp: root_inv_def)
  have new: "live_effects (fiber_state_new i e n p) = []" for i p
    by (simp add: live_effects_def fiber_state_new_def map_filter_def)
  show ?thesis
  proof (rule footprint_fibers [OF assms(1) refl])
    show "effects_of ?t' R = effects_of ?t R" for R
      by (rule effects_of_same) (auto simp: get new fresh)
    show "fiber_inv ?t'" using inv c(1) by (simp add: root_inv_def fiber_inv_create)
    show "next_fiber ?t \<le> next_fiber ?t'" by (simp add: fiber_create_def)
    show "filter (\<lambda>x. fst x < next_fiber (fiber_table r0)) (fibers ?t') = filter (\<lambda>x. fst x < next_fiber (fiber_table r0)) (fibers ?t)"
      using f by (simp add: fiber_create_def)
    show "next_fiber (fiber_table r0) \<le> f_parent F \<and> fiber_get ?t' (f_parent F) \<noteq> None"
      if "fiber_get ?t' g = Some F" "next_fiber (fiber_table r0) < g" for g F
      using that c footprint_parent [OF assms(1), of g F] by (auto simp: get fiber_state_new_def split: if_splits)
  qed
qed

lemma take_slot_parent: "f_parent (snd (take_slot F j)) = f_parent F"
  by (simp add: take_slot_def)

lemma footprint_dispose:
  assumes "footprint r0 r" "next_fiber (fiber_table r0) \<le> d_fiber d"
  shows "footprint r0 (dispose d r)"
proof (cases "fiber_get (fiber_table r) (d_fiber d)")
  case (Some F)
  have inv: "root_inv r" using footprint_root_inv [OF assms(1)] .
  let ?t = "fiber_table r" and ?t' = "fiber_update (fiber_table r) (d_fiber d) (\<lambda>f. snd (take_slot f (d_slot d)))"
  note d = dispose_live [OF inv Some]
  have get: "fiber_get ?t' h
      = (if h = d_fiber d then map_option (\<lambda>f. snd (take_slot f (d_slot d))) (fiber_get ?t h) else fiber_get ?t h)" for h
    by (simp add: fiber_get_update)
  have par: "next_fiber (fiber_table r0) \<le> f_parent G \<and> fiber_get ?t' (f_parent G) \<noteq> None"
    if h: "fiber_get ?t' h = Some G" "next_fiber (fiber_table r0) < h" for h G
  proof -
    obtain G0 where "fiber_get ?t h = Some G0" "f_parent G0 = f_parent G"
      using h(1) by (auto simp: get take_slot_parent split: if_splits)
    then show ?thesis using footprint_parent [OF assms(1) _ h(2), of G0] by (auto simp: get)
  qed
  have E: "effects_of ?t' {next_fiber (fiber_table r0)..} \<subseteq> effects_of ?t {next_fiber (fiber_table r0)..}"
    "effects_of ?t {next_fiber (fiber_table r0)..} \<subseteq> set_option (fst (take_slot F (d_slot d))) \<union> effects_of ?t' {next_fiber (fiber_table r0)..}"
    "set_option (fst (take_slot F (d_slot d))) \<subseteq> effects_of ?t {next_fiber (fiber_table r0)..}"
    using effects_of_take [OF _ Some, of "{next_fiber (fiber_table r0)..}" "d_slot d"] assms(2) by auto
  have t: "fiber_table (dispose d r) = ?t'" "realms (dispose d r) = realms r" using d by simp_all
  show ?thesis
  proof (rule footprint_pruned [OF assms(1) refl conjunct1 [OF d]], unfold t)
    show "fiber_inv ?t'" "realm_inv (realms r)" using inv by (simp_all add: root_inv_def fiber_inv_take)
    show "filter (\<lambda>x. fst x < next_fiber (fiber_table r0)) (fibers ?t') = filter (\<lambda>x. fst x < next_fiber (fiber_table r0)) (fibers ?t)"
      by (rule fibers_update_other [OF assms(2)])
  qed (use E par in \<open>auto simp: next_fiber_update\<close>)
qed (use assms in \<open>simp add: dispose_dead\<close>)

lemma footprint_unload:
  assumes fp: "footprint r0 r" and g: "next_fiber (fiber_table r0) \<le> g" and ord: "\<forall>xs. set (ord xs) = set xs"
    and un: "ctx_unload ord g r = Some r'"
  shows "footprint r0 r'"
proof -
  let ?f = "next_fiber (fiber_table r0)" and ?t = "fiber_table r" and ?B = "below (fiber_table r) g"
  have inv: "root_inv r" "fiber_inv ?t" and f: "1 \<le> ?f"
    using fp by (simp_all add: footprint_def Let_def root_inv_def)
  have "g \<noteq> ROOT_FIBER" using f g by (simp add: ROOT_FIBER_def)
  then have w: "without ?B r r'" using unload_spec [OF ord inv(1), of g] un by auto
  have B: "?B \<subseteq> {?f..}" using below_ge [OF _ inv(2)] g by (fastforce intro: order_trans)
  have root: "ROOT_FIBER \<notin> ?B" using B f by (auto simp: ROOT_FIBER_def)
  note get = without_get [OF w]
  show ?thesis
  proof (rule footprint_pruned [OF fp refl])
    show "pruned (effects_of ?t ?B) r r'" using w by (simp add: without_def)
    show "effects_of ?t ?B \<subseteq> effects_of ?t {?f..}" using B by (auto simp: effects_of_def)
    show "effects_of ?t {?f..} \<subseteq> effects_of ?t ?B \<union> effects_of (fiber_table r') {?f..}"
    proof
      fix u assume "u \<in> effects_of ?t {?f..}"
      then obtain h F where "?f \<le> h" "fiber_get ?t h = Some F" "u \<in> set (live_effects F)" by (auto simp: effects_of_def)
      then show "u \<in> effects_of ?t ?B \<union> effects_of (fiber_table r') {?f..}"
        by (cases "h \<in> ?B") (auto simp: effects_of_def get)
    qed
    show "effects_of (fiber_table r') {?f..} \<subseteq> effects_of ?t {?f..}"
      by (auto simp: effects_of_def get split: if_splits)
    show "fiber_inv (fiber_table r')" using without_fiber_inv [OF w inv(2) root] .
    show "next_fiber ?t \<le> next_fiber (fiber_table r')" "realm_inv (realms r')"
      using w inv(1) by (simp_all add: without_def root_inv_def)
    have "x \<notin> ?B \<and> x < ?f \<longleftrightarrow> x < ?f" for x using B by auto
    then show "filter (\<lambda>x. fst x < ?f) (fibers (fiber_table r')) = filter (\<lambda>x. fst x < ?f) (fibers ?t)"
      using w by (simp add: without_def)
    fix h F assume h: "fiber_get (fiber_table r') h = Some F" "?f < h"
    then have "h \<notin> ?B" "fiber_get ?t h = Some F" by (simp_all add: get split: if_splits)
    moreover from this have "f_parent F \<notin> ?B" using below_child by metis
    ultimately show "?f \<le> f_parent F \<and> fiber_get (fiber_table r') (f_parent F) \<noteq> None"
      using footprint_parent [OF fp _ h(2)] by (simp add: get)
  qed
qed

section \<open>Steps of a plugin\<close>

inductive acts :: "fiber_id \<Rightarrow> ('v, 'a, 'o, 'w) app_root \<Rightarrow> ('v, 'a, 'o, 'w) app_root \<Rightarrow> bool" for f where
  act_provide: "live r f c \<Longrightarrow> acts f r (snd (ctx_provide r c k v))"
| act_effect: "live r f c \<Longrightarrow> acts f r (snd (ctx_effect r c n))"
| act_on_emit: "live r f c \<Longrightarrow> on_emit r c e l = Some (d, r') \<Longrightarrow> acts f r r'"
| act_on_bail: "live r f c \<Longrightarrow> on_bail r c e b = Some (d, r') \<Longrightarrow> acts f r r'"
| act_on_parallel: "live r f c \<Longrightarrow> on_parallel r c e b = Some (d, r') \<Longrightarrow> acts f r r'"
| act_on_serial: "live r f c \<Longrightarrow> on_serial r c e b = Some (d, r') \<Longrightarrow> acts f r r'"
| act_on_waterfall: "live r f c \<Longrightarrow> on_waterfall r c e w p = Some (d, r') \<Longrightarrow> acts f r r'"
| act_isolate: "ctx_realm c < next_realm (realms r) \<Longrightarrow> acts f r (snd (isolate r c))"
| act_mount: "live r f c \<Longrightarrow> acts f r (r\<lparr>fiber_table := snd (fiber_create (fiber_table r) entry plugin (ctx_fiber c))\<rparr>)"
| act_status: "f \<le> g \<Longrightarrow> acts f r (r\<lparr>fiber_table := set_status (fiber_table r) g st\<rparr>)"
| act_dispose: "f \<le> d_fiber d \<Longrightarrow> acts f r (dispose d r)"
| act_unload: "f \<le> g \<Longrightarrow> \<forall>xs. set (ord xs) = set xs \<Longrightarrow> ctx_unload ord g r = Some r' \<Longrightarrow> acts f r r'"

inductive_cases actsE: "acts f r r'"

lemmas listen_defs = on_emit_def on_bail_def on_parallel_def on_serial_def on_waterfall_def
  bus_on_sync_def bus_on_async_def bus_on_waterfall_def

lemma footprint_acts: "acts (next_fiber (fiber_table r0)) r r' \<Longrightarrow> footprint r0 r \<Longrightarrow> footprint r0 r'"
proof (induction rule: acts.induct)
  case (act_unload g ord r r')
  then show ?case by (blast intro: footprint_unload)
qed (auto simp: listen_defs footprint_provide footprint_effect footprint_isolate footprint_mount
    footprint_status footprint_dispose split: if_splits prod.splits dest: footprint_listen)

definition plugin_start :: "('v, 'a, 'o, 'w) app_root \<times> ('v, 'a, 'o, 'w) app_root \<Rightarrow> bool" where
  "plugin_start s \<longleftrightarrow>
     (case s of (r0, r) \<Rightarrow>
        root_inv r0 \<and> (\<exists>entry plugin p. p < next_fiber (fiber_table r0)
          \<and> r = r0\<lparr>fiber_table := snd (fiber_create (fiber_table r0) entry plugin p)\<rparr>))"

definition plugin_step :: "('v, 'a, 'o, 'w) app_root \<times> ('v, 'a, 'o, 'w) app_root \<Rightarrow> ('v, 'a, 'o, 'w) app_root \<times> ('v, 'a, 'o, 'w) app_root \<Rightarrow> bool" where
  "plugin_step s s' \<longleftrightarrow> fst s' = fst s \<and> acts (next_fiber (fiber_table (fst s))) (snd s) (snd s')"

lemma footprint_start:
  assumes inv: "root_inv r0" and p: "p < next_fiber (fiber_table r0)"
  shows "footprint r0 (r0\<lparr>fiber_table := snd (fiber_create (fiber_table r0) e n p)\<rparr>)"
proof -
  let ?f = "next_fiber (fiber_table r0)" and ?t' = "snd (fiber_create (fiber_table r0) e n p)"
  have t: "fiber_inv (fiber_table r0)" using inv by (simp add: root_inv_def)
  have get: "fiber_get ?t' h = (if h = ?f then Some (fiber_state_new ?f e n p) else fiber_get (fiber_table r0) h)" for h
    by (simp add: fiber_create_def fiber_get_def)
  have old: "h < ?f" if "fiber_get (fiber_table r0) h = Some F" for h F using fiber_get_inv [OF t that] by simp
  have "effects_of ?t' {?f..} = {}"
    by (auto simp: effects_of_def get live_effects_def fiber_state_new_def map_filter_def split: if_splits dest: old)
  moreover have "tables_ok r0 ?f (next_listener (events r0)) {} (r0\<lparr>fiber_table := ?t'\<rparr>)"
    using inv listeners_of_inv(3) [of "events r0"] by (fastforce simp: tables_ok_def root_inv_def filter_id_conv)
  moreover have "filter (\<lambda>x. fst x < ?f) (fibers ?t') = fibers (fiber_table r0)"
    using t by (auto simp: fiber_create_def fiber_inv_def filter_id_conv)
  moreover have "root_inv (r0\<lparr>fiber_table := ?t'\<rparr>)"
    using fiber_inv_create [OF t p, of e n] by (intro root_inv_fibers [OF inv]) (simp_all add: fiber_create_def)
  moreover have "\<not> ?f < h" if "fiber_get ?t' h = Some F" for h F
    using that old [of h F] by (auto simp: get split: if_splits)
  moreover have "1 \<le> ?f \<and> ?f \<le> next_fiber ?t'" using t by (simp add: fiber_inv_def fiber_create_def)
  ultimately show ?thesis by (auto simp: footprint_def Let_def)
qed

interpretation plugin_life: step_system plugin_start plugin_step "\<lambda>s. footprint (fst s) (snd s)"
  by unfold_locales (auto simp: plugin_start_def plugin_step_def footprint_start intro: footprint_acts)

lemma footprint_below:
  assumes "footprint r0 r" "next_fiber (fiber_table r0) \<le> g" "fiber_get (fiber_table r) g = Some F"
  shows "g \<in> below (fiber_table r) (next_fiber (fiber_table r0))"
  using assms(2,3)
proof (induction g arbitrary: F rule: less_induct)
  case (less g)
  show ?case
  proof (cases "g = next_fiber (fiber_table r0)")
    case False
    have "g \<noteq> ROOT_FIBER" using False less.prems(1) by (simp add: ROOT_FIBER_def)
    then have "f_parent F < g"
      using fiber_get_inv [OF _ less.prems(2)] footprint_root_inv [OF assms(1)] by (simp add: root_inv_def)
    moreover obtain G where "next_fiber (fiber_table r0) \<le> f_parent F" "fiber_get (fiber_table r) (f_parent F) = Some G"
      using footprint_parent [OF assms(1) less.prems(2)] False less.prems(1) by auto
    ultimately show ?thesis using less.IH below_child [OF less.prems(2)] by blast
  qed (simp add: below_self)
qed

lemma unload_reverts:
  assumes fp: "footprint r0 r" and ord: "\<forall>xs. set (ord xs) = set xs"
  shows "\<exists>r'. ctx_unload ord (next_fiber (fiber_table r0)) r = Some r'
    \<and> slots (services r') = slots (services r0)
    \<and> (\<forall>ty. listeners_of (events r') ty = listeners_of (events r0) ty)
    \<and> fibers (fiber_table r') = fibers (fiber_table r0)"
proof -
  let ?f = "next_fiber (fiber_table r0)" and ?t = "fiber_table r" and ?B = "below (fiber_table r) (next_fiber (fiber_table r0))"
  have inv: "root_inv r" "fiber_inv ?t" and f: "?f \<noteq> ROOT_FIBER"
    using fp by (simp_all add: footprint_def Let_def root_inv_def ROOT_FIBER_def)
  obtain r' where r': "ctx_unload ord ?f r = Some r'" "without ?B r r'" using unload_spec [OF ord inv(1) f] by blast
  have dead: "h \<notin> {?f..}" if "fiber_get (fiber_table r') h = Some F" for h F
    using that footprint_below [OF fp, of h F] without_get [OF r'(2), of h] by (auto split: if_splits)
  then have E: "effects_of (fiber_table r') {?f..} = {}" by (auto simp: effects_of_def)
  have fp': "footprint r0 r'" by (rule footprint_unload [OF fp order_refl ord r'(1)])
  then have ok: "tables_ok r0 ?f (next_listener (events r0)) {} r'"
    and fs: "filter (\<lambda>x. fst x < ?f) (fibers (fiber_table r')) = fibers (fiber_table r0)" and inv': "fiber_inv (fiber_table r')"
    using E by (simp_all add: footprint_def Let_def root_inv_def)
  have "\<forall>x\<in>set (fibers (fiber_table r')). fst x < ?f"
    using dead in_fibers_iff [OF inv'] by force
  then have "fibers (fiber_table r') = fibers (fiber_table r0)" using fs by (metis filter_True)
  moreover have "slots (services r') = slots (services r0)"
    using ok by (auto simp: tables_ok_def not_less [symmetric])
  moreover have "listeners_of (events r') ty = listeners_of (events r0) ty" for ty
    using ok by (auto simp: tables_ok_def not_less [symmetric])
  ultimately show ?thesis using r'(1) by blast
qed

end
