(* ===== verification/Loader.thy ===== *)
theory Loader
  imports Service
begin

text \<open>
  The config tree (\<open>crates/atomcode-plexus/src/loader.rs\<close>): rows with a stable id, and the layers
  of edits that are stacked on them. A row's \<open>config\<close> is opaque to the runtime: its type is a
  parameter, and so are the JSON \<open>null\<close>, the empty JSON object, the conversions into JSON and the
  TOML parser, which the source takes from other packages. \<open>apply\<close> edits the tree in place, so it
  returns the edited tree on an error too.

  The lemmas show that ids stay unique, that applying a layer refines edits of a map from ids to
  rows, that stacking layers and concatenating their edits agree, and that the builder methods mean
  the edits they are named after.
\<close>

record 'c entry =
  e_id :: string
  e_name :: string
  e_disabled :: bool
  e_config :: 'c

definition entry_named :: "'c \<Rightarrow> string \<Rightarrow> 'c entry" where
  "entry_named null name = \<lparr>e_id = name, e_name = name, e_disabled = False, e_config = null\<rparr>"

definition entry_with_id :: "'c \<Rightarrow> string \<Rightarrow> string \<Rightarrow> 'c entry" where
  "entry_with_id null i name = \<lparr>e_id = i, e_name = name, e_disabled = False, e_config = null\<rparr>"

definition entry_with :: "('s \<Rightarrow> string + 'c) \<Rightarrow> 'c entry \<Rightarrow> 's \<Rightarrow> plexus_error + 'c entry" where
  "entry_with to_value e config =
     (case to_value config of
        Inl m \<Rightarrow> Inl (Config (''row `'' @ e_id e @ ''`: '' @ m))
      | Inr c \<Rightarrow> Inr (e\<lparr>e_config := c\<rparr>))"

definition entry_disabled :: "'c entry \<Rightarrow> 'c entry" where
  "entry_disabled e = e\<lparr>e_disabled := True\<rparr>"

datatype 'c op =
    Insert "'c entry list"
  | Patch string "'c option" "bool option" "string option"
  | Remove string

record 'c layer =
  ops :: "'c op list"

section \<open>Building layers\<close>

definition layer_new :: "'c layer" where
  "layer_new = \<lparr>ops = []\<rparr>"

definition layer_push :: "'c layer \<Rightarrow> 'c op \<Rightarrow> 'c layer" where
  "layer_push l p = l\<lparr>ops := ops l @ [p]\<rparr>"

fun insert_last :: "'c op list \<Rightarrow> 'c entry \<Rightarrow> 'c op list" where
  "insert_last [] e = [Insert [e]]"
| "insert_last [p] e = (case p of Insert es \<Rightarrow> [Insert (es @ [e])] | _ \<Rightarrow> [p, Insert [e]])"
| "insert_last (p # q # ps) e = p # insert_last (q # ps) e"

definition layer_insert :: "'c layer \<Rightarrow> 'c entry \<Rightarrow> 'c layer" where
  "layer_insert l e = l\<lparr>ops := insert_last (ops l) e\<rparr>"

definition layer_patch :: "('s \<Rightarrow> string + 'c) \<Rightarrow> 'c layer \<Rightarrow> string \<Rightarrow> 's \<Rightarrow> plexus_error + 'c layer" where
  "layer_patch to_value l i config =
     (case to_value config of
        Inl m \<Rightarrow> Inl (Config (''patch `'' @ i @ ''`: '' @ m))
      | Inr c \<Rightarrow> Inr (layer_push l (Patch i (Some c) None None)))"

definition layer_swap :: "'c layer \<Rightarrow> string \<Rightarrow> string \<Rightarrow> 'c layer" where
  "layer_swap l i name = layer_push l (Patch i None None (Some name))"

definition set_disabled :: "'c layer \<Rightarrow> string \<Rightarrow> bool \<Rightarrow> 'c layer" where
  "set_disabled l i disabled = layer_push l (Patch i None (Some disabled) None)"

definition layer_disable :: "'c layer \<Rightarrow> string \<Rightarrow> 'c layer" where
  "layer_disable l i = set_disabled l i True"

definition layer_enable :: "'c layer \<Rightarrow> string \<Rightarrow> 'c layer" where
  "layer_enable l i = set_disabled l i False"

definition layer_remove :: "'c layer \<Rightarrow> string \<Rightarrow> 'c layer" where
  "layer_remove l i = layer_push l (Remove i)"

definition layer_then :: "'c layer \<Rightarrow> 'c layer \<Rightarrow> 'c layer" where
  "layer_then l other = l\<lparr>ops := ops l @ ops other\<rparr>"

definition layer_maybe :: "'c layer \<Rightarrow> 'c layer option \<Rightarrow> 'c layer" where
  "layer_maybe l other = (case other of Some o' \<Rightarrow> layer_then l o' | None \<Rightarrow> l)"

definition layer_when :: "'c layer \<Rightarrow> bool \<Rightarrow> ('c layer \<Rightarrow> 'c layer) \<Rightarrow> 'c layer" where
  "layer_when l condition piece = (if condition then piece l else l)"

section \<open>Layers from a file\<close>

record 't raw_entry =
  raw_id :: "string option"
  raw_name :: string
  raw_disabled :: bool
  raw_config :: "'t option"

record 't raw_patch =
  rp_id :: string
  rp_config :: "'t option"
  rp_disabled :: "bool option"
  rp_name :: "string option"

record 't raw_layer =
  raw_insert :: "'t raw_entry list"
  raw_patches :: "'t raw_patch list"
  raw_remove :: "string list"

definition to_json :: "('t \<Rightarrow> string + 'c) \<Rightarrow> 't \<Rightarrow> plexus_error + 'c" where
  "to_json to_value v = (case to_value v of Inl m \<Rightarrow> Inl (Config m) | Inr c \<Rightarrow> Inr c)"

fun collect_results :: "('e + 'a) list \<Rightarrow> 'e + 'a list" where
  "collect_results [] = Inr []"
| "collect_results (Inl e # rs) = Inl e"
| "collect_results (Inr a # rs) = (case collect_results rs of Inl e \<Rightarrow> Inl e | Inr as \<Rightarrow> Inr (a # as))"

definition transpose_option :: "('e + 'a) option \<Rightarrow> 'e + 'a option" where
  "transpose_option r = (case r of None \<Rightarrow> Inr None | Some (Inl e) \<Rightarrow> Inl e | Some (Inr a) \<Rightarrow> Inr (Some a))"

definition entry_of_raw :: "('t \<Rightarrow> string + 'c) \<Rightarrow> 'c \<Rightarrow> 't raw_entry \<Rightarrow> plexus_error + 'c entry" where
  "entry_of_raw to_value empty_object e =
     (case transpose_option (map_option (to_json to_value) (raw_config e)) of
        Inl err \<Rightarrow> Inl err
      | Inr c \<Rightarrow> Inr \<lparr>e_id = (case raw_id e of Some i \<Rightarrow> i | None \<Rightarrow> raw_name e), e_name = raw_name e,
                        e_disabled = raw_disabled e, e_config = (case c of Some v \<Rightarrow> v | None \<Rightarrow> empty_object)\<rparr>)"

definition patch_of_raw :: "('t \<Rightarrow> string + 'c) \<Rightarrow> 't raw_patch \<Rightarrow> plexus_error + 'c op" where
  "patch_of_raw to_value p =
     (case transpose_option (map_option (to_json to_value) (rp_config p)) of
        Inl err \<Rightarrow> Inl err
      | Inr c \<Rightarrow> Inr (Patch (rp_id p) c (rp_disabled p) (rp_name p)))"

definition from_toml ::
  "(string \<Rightarrow> string + 't raw_layer) \<Rightarrow> ('t \<Rightarrow> string + 'c) \<Rightarrow> 'c \<Rightarrow> string \<Rightarrow> plexus_error + 'c layer" where
  "from_toml parse to_value empty_object src =
     (case parse src of
        Inl m \<Rightarrow> Inl (Config m)
      | Inr raw \<Rightarrow>
          (case collect_results (map (entry_of_raw to_value empty_object) (raw_insert raw)) of
             Inl err \<Rightarrow> Inl err
           | Inr es \<Rightarrow>
               (case collect_results (map (patch_of_raw to_value) (raw_patches raw)) of
                  Inl err \<Rightarrow> Inl err
                | Inr ps \<Rightarrow> Inr \<lparr>ops = (if raw_insert raw = [] then [] else [Insert es]) @ ps @ map Remove (raw_remove raw)\<rparr>)))"

section \<open>The tree\<close>

type_synonym 'c config_tree = "'c entry list"

fun insert_row :: "'c entry \<Rightarrow> 'c config_tree \<Rightarrow> 'c config_tree" where
  "insert_row e [] = [e]"
| "insert_row e (x # xs) = (if e_id x = e_id e then e # xs else x # insert_row e xs)"

definition patch_fields :: "'c option \<Rightarrow> bool option \<Rightarrow> string option \<Rightarrow> 'c entry \<Rightarrow> 'c entry" where
  "patch_fields config disabled name row =
     (let row = (case config of Some c \<Rightarrow> row\<lparr>e_config := c\<rparr> | None \<Rightarrow> row);
          row = (case disabled of Some d \<Rightarrow> row\<lparr>e_disabled := d\<rparr> | None \<Rightarrow> row)
      in (case name of Some n \<Rightarrow> row\<lparr>e_name := n\<rparr> | None \<Rightarrow> row))"

fun update_row :: "string \<Rightarrow> ('c entry \<Rightarrow> 'c entry) \<Rightarrow> 'c config_tree \<Rightarrow> 'c config_tree option" where
  "update_row i g [] = None"
| "update_row i g (x # xs) = (if e_id x = i then Some (g x # xs) else map_option ((#) x) (update_row i g xs))"

definition remove_row :: "string \<Rightarrow> 'c config_tree \<Rightarrow> 'c config_tree" where
  "remove_row i t = filter (\<lambda>e. e_id e \<noteq> i) t"

definition no_row :: "string \<Rightarrow> plexus_error" where
  "no_row i = Config (''patch targets row `'' @ i @ ''`, which no earlier layer inserted'')"

definition apply_op :: "'c op \<Rightarrow> 'c config_tree \<Rightarrow> plexus_error + 'c config_tree" where
  "apply_op p t =
     (case p of
        Insert es \<Rightarrow> Inr (fold insert_row es t)
      | Patch i config disabled name \<Rightarrow>
          (case update_row i (patch_fields config disabled name) t of None \<Rightarrow> Inl (no_row i) | Some t' \<Rightarrow> Inr t')
      | Remove i \<Rightarrow> Inr (remove_row i t))"

fun apply_ops :: "'c op list \<Rightarrow> 'c config_tree \<Rightarrow> (plexus_error + unit) \<times> 'c config_tree" where
  "apply_ops [] t = (Inr (), t)"
| "apply_ops (p # ps) t = (case apply_op p t of Inl e \<Rightarrow> (Inl e, t) | Inr t' \<Rightarrow> apply_ops ps t')"

definition tree_apply :: "'c layer \<Rightarrow> 'c config_tree \<Rightarrow> (plexus_error + unit) \<times> 'c config_tree" where
  "tree_apply l t = apply_ops (ops l) t"

fun stack_layers :: "'c layer list \<Rightarrow> 'c config_tree \<Rightarrow> plexus_error + 'c config_tree" where
  "stack_layers [] t = Inr t"
| "stack_layers (l # ls) t = (case tree_apply l t of (Inl e, _) \<Rightarrow> Inl e | (Inr _, t') \<Rightarrow> stack_layers ls t')"

definition from_layers :: "'c layer list \<Rightarrow> plexus_error + 'c config_tree" where
  "from_layers ls = stack_layers ls []"

definition active :: "'c config_tree \<Rightarrow> 'c entry list" where
  "active t = filter (\<lambda>e. \<not> e_disabled e) t"

section \<open>Rows as a map\<close>

definition body :: "'c entry \<Rightarrow> string \<times> bool \<times> 'c" where
  "body e = (e_name e, e_disabled e, e_config e)"

definition row :: "string \<Rightarrow> string \<times> bool \<times> 'c \<Rightarrow> 'c entry" where
  "row i b = \<lparr>e_id = i, e_name = fst b, e_disabled = fst (snd b), e_config = snd (snd b)\<rparr>"

definition rows :: "'c config_tree \<Rightarrow> string \<Rightarrow> (string \<times> bool \<times> 'c) option" where
  "rows t i = map_option body (find (\<lambda>e. e_id e = i) t)"

definition tree_inv :: "'c config_tree \<Rightarrow> bool" where
  "tree_inv t \<longleftrightarrow> distinct (map e_id t)"

lemma row_body [simp]: "row (e_id e) (body e) = e" "e_id (row i b) = i" "body (row i b) = b"
  by (simp_all add: row_def body_def)

lemma ids_insert_row:
  "map e_id (insert_row e t) = map e_id t @ (if e_id e \<in> set (map e_id t) then [] else [e_id e])"
  by (induction e t rule: insert_row.induct) auto

lemma tree_inv_insert: "tree_inv t \<Longrightarrow> tree_inv (insert_row e t)"
  by (simp add: tree_inv_def ids_insert_row)

lemma rows_insert: "rows (insert_row e t) = (rows t)(e_id e \<mapsto> body e)"
  by (induction e t rule: insert_row.induct) (auto simp: rows_def fun_eq_iff)

lemma tree_inv_remove: "tree_inv t \<Longrightarrow> tree_inv (remove_row i t)"
  by (simp add: tree_inv_def remove_row_def distinct_map_filter)

lemma rows_remove: "rows (remove_row i t) = (rows t)(i := None)"
  by (induction t) (auto simp: rows_def remove_row_def fun_eq_iff)

interpretation config_rows: map_store rows "[]" "\<lambda>i b. insert_row (row i b)" remove_row tree_inv
  by unfold_locales
    (auto simp: rows_insert rows_remove tree_inv_insert tree_inv_remove, auto simp: rows_def tree_inv_def)

lemma rows_Cons: "rows (x # xs) = (rows xs)(e_id x \<mapsto> body x)"
  by (auto simp: rows_def fun_eq_iff)

lemma update_row_None: "update_row i g t = None \<longleftrightarrow> rows t i = None"
  by (induction t) (auto simp: rows_def)

lemma update_row_Some:
  assumes "\<And>e. e_id (g e) = e_id e"
  shows "update_row i g t = Some t' \<Longrightarrow>
    map e_id t' = map e_id t \<and> (\<exists>e. find (\<lambda>e. e_id e = i) t = Some e \<and> rows t' = (rows t)(i \<mapsto> body (g e)))"
proof (induction t arbitrary: t')
  case (Cons x xs)
  show ?case
  proof (cases "e_id x = i")
    case True
    with Cons.prems assms show ?thesis by (auto simp: rows_def fun_eq_iff)
  next
    case False
    then obtain t0 where t0: "update_row i g xs = Some t0" "t' = x # t0" using Cons.prems by auto
    then obtain e where e: "map e_id t0 = map e_id xs" "find (\<lambda>e. e_id e = i) xs = Some e" "rows t0 = (rows xs)(i \<mapsto> body (g e))"
      using Cons.IH by blast
    have "rows t' = (rows (x # xs))(i \<mapsto> body (g e))"
      unfolding t0(2) rows_Cons e(3) using False by (rule fun_upd_twist [OF not_sym])
    then show ?thesis using e(1,2) t0(2) False by simp
  qed
qed simp

lemma patch_fields_id [simp]: "e_id (patch_fields c d n e) = e_id e"
  by (simp add: patch_fields_def Let_def split: option.split)

definition replaced :: "'a \<Rightarrow> 'a option \<Rightarrow> 'a" where
  "replaced x y = (case y of Some v \<Rightarrow> v | None \<Rightarrow> x)"

lemma body_patch_fields:
  "body (patch_fields c d n e) = (replaced (e_name e) n, replaced (e_disabled e) d, replaced (e_config e) c)"
  by (simp add: patch_fields_def Let_def body_def replaced_def split: option.split)

text \<open>What a layer means: edits of a map from ids to rows.\<close>

definition spec_op :: "'c op \<Rightarrow> (string \<rightharpoonup> string \<times> bool \<times> 'c) \<Rightarrow> plexus_error + (string \<rightharpoonup> string \<times> bool \<times> 'c)" where
  "spec_op p m =
     (case p of
        Insert es \<Rightarrow> Inr (fold (\<lambda>e m. m(e_id e \<mapsto> body e)) es m)
      | Patch i c d n \<Rightarrow>
          (case m i of
             None \<Rightarrow> Inl (no_row i)
           | Some (n0, d0, c0) \<Rightarrow> Inr (m(i \<mapsto> (replaced n0 n, replaced d0 d, replaced c0 c))))
      | Remove i \<Rightarrow> Inr (m(i := None)))"

lemma rows_fold_insert: "rows (fold insert_row es t) = fold (\<lambda>e m. m(e_id e \<mapsto> body e)) es (rows t)"
  by (induction es arbitrary: t) (simp_all add: rows_insert)

lemma tree_inv_fold_insert: "tree_inv t \<Longrightarrow> tree_inv (fold insert_row es t)"
  by (induction es arbitrary: t) (simp_all add: tree_inv_insert)

lemma apply_op_refines: "map_sum id rows (apply_op p t) = spec_op p (rows t)"
proof (cases p)
  case (Patch i c d n)
  show ?thesis
  proof (cases "update_row i (patch_fields c d n) t")
    case None
    then show ?thesis using update_row_None [of i _ t] by (simp add: Patch apply_op_def spec_op_def)
  next
    case (Some t')
    from update_row_Some [OF patch_fields_id Some] show ?thesis
      by (auto simp: Patch Some apply_op_def spec_op_def rows_def [of t i] body_def [of _] body_patch_fields [unfolded body_def])
  qed
qed (simp_all add: apply_op_def spec_op_def rows_fold_insert rows_remove)

lemma tree_inv_update: "update_row i (patch_fields c d n) t = Some t' \<Longrightarrow> tree_inv t \<Longrightarrow> tree_inv t'"
  by (auto simp: tree_inv_def dest!: update_row_Some [OF patch_fields_id])

lemma tree_inv_apply_op: "apply_op p t = Inr t' \<Longrightarrow> tree_inv t \<Longrightarrow> tree_inv t'"
  by (auto simp: apply_op_def tree_inv_fold_insert tree_inv_remove split: op.splits option.splits dest: tree_inv_update)

lemma tree_inv_apply_ops: "tree_inv t \<Longrightarrow> tree_inv (snd (apply_ops ps t))"
  by (induction ps t rule: apply_ops.induct) (auto split: sum.split dest: tree_inv_apply_op)

fun spec_ops :: "'c op list \<Rightarrow> (string \<rightharpoonup> string \<times> bool \<times> 'c) \<Rightarrow> (plexus_error + unit) \<times> (string \<rightharpoonup> string \<times> bool \<times> 'c)" where
  "spec_ops [] m = (Inr (), m)"
| "spec_ops (p # ps) m = (case spec_op p m of Inl e \<Rightarrow> (Inl e, m) | Inr m' \<Rightarrow> spec_ops ps m')"

lemma apply_ops_refines: "map_prod id rows (apply_ops ps t) = spec_ops ps (rows t)"
proof (induction ps t rule: apply_ops.induct)
  case (2 p ps t)
  then show ?case
    using apply_op_refines [of p t] by (cases "apply_op p t") (auto split: sum.split)
qed simp

section \<open>Stacking\<close>

lemma apply_ops_append:
  "apply_ops (ps @ qs) t = (case apply_ops ps t of (Inl e, t') \<Rightarrow> (Inl e, t') | (Inr _, t') \<Rightarrow> apply_ops qs t')"
  by (induction ps t rule: apply_ops.induct) (auto split: sum.split)

lemma apply_insert_last:
  "apply_ops (insert_last ps e) t = apply_ops (ps @ [Insert [e]]) t"
proof (induction ps e arbitrary: t rule: insert_last.induct)
  case (2 p e)
  then show ?case by (cases p) (simp_all add: apply_op_def)
next
  case (3 p q ps e)
  then show ?case by (cases "apply_op p t") simp_all
qed simp

lemma stack_layers_concat:
  "stack_layers ls t = (case apply_ops (concat (map ops ls)) t of (Inl e, _) \<Rightarrow> Inl e | (Inr _, t') \<Rightarrow> Inr t')"
proof (induction ls t rule: stack_layers.induct)
  case (2 l ls t)
  then show ?case by (cases "tree_apply l t") (auto simp: tree_apply_def apply_ops_append split: sum.splits)
qed simp

lemma insert_last_Insert: "insert_last (ps @ [Insert es]) e = ps @ [Insert (es @ [e])]"
proof (induction ps)
  case (Cons p ps)
  then show ?case by (cases ps) simp_all
qed simp

lemma inserts_in_one_op:
  "ops (foldl layer_insert layer_new es) = (if es = [] then [] else [Insert es])"
proof (induction es rule: rev_induct)
  case (snoc e es)
  then show ?case
    using insert_last_Insert [of "[]" es e] by (cases "es = []") (simp_all add: layer_insert_def layer_new_def)
qed (simp add: layer_new_def)

end
