(* ===== verification/App.thy ===== *)
theory App
  imports Reversibility Loader "HOL-Library.Monad_Syntax"
begin

text \<open>
  The runtime (\<open>crates/atomcode-plexus/src/app.rs\<close>), with the plugin contract and registry
  (\<open>plugin.rs\<close>) and the mounting of sub-plugins (\<open>context.rs\<close>). A plugin is the record of what it
  declares and its \<open>apply\<close>, a function of its context, its config and the root. \<open>None\<close> is an
  operation that does not return or panics: the definitions show where that could come from (a
  walk up the realms, an unload), the lemmas of \<open>App_Laws\<close> that it does not. The order in which
  hash maps are iterated is a parameter (\<open>ord\<close> for fibers, \<open>perm\<close> for row ids).
\<close>

section \<open>Plugins\<close>

record ('v, 'h, 'c) plugin =
  p_name :: string
  p_inject :: "string list"
  p_uses :: "string list"
  p_provides :: "string list"
  p_description :: string
  p_apply :: "ctx \<Rightarrow> 'c \<Rightarrow> ('v, 'h) root \<Rightarrow> (string + unit) \<times> ('v, 'h) root"

type_synonym ('v, 'h, 'c) registry = "(string \<times> ('v, 'h, 'c) plugin) list"

definition registry_new :: "('v, 'h, 'c) registry" where
  "registry_new = []"

definition register :: "('v, 'h, 'c) registry \<Rightarrow> ('v, 'h, 'c) plugin \<Rightarrow> ('v, 'h, 'c) registry option" where
  "register reg p = (if map_of reg (p_name p) = None then Some ((p_name p, p) # reg) else None)"

definition registry_get :: "('v, 'h, 'c) registry \<Rightarrow> string \<Rightarrow> ('v, 'h, 'c) plugin option" where
  "registry_get reg name = map_of reg name"

definition registry_names :: "('v, 'h, 'c) registry \<Rightarrow> string list" where
  "registry_names reg = sort (map fst reg)"

section \<open>Readiness\<close>

fun all_services :: "('v, 'h) root \<Rightarrow> ctx \<Rightarrow> string list \<Rightarrow> bool option" where
  "all_services r c [] = Some True"
| "all_services r c (n # ns) =
     do { here \<leftarrow> has_service r c n; if here then all_services r c ns else Some False }"

fun missing_services :: "('v, 'h) root \<Rightarrow> ctx \<Rightarrow> string list \<Rightarrow> string list option" where
  "missing_services r c [] = Some []"
| "missing_services r c (n # ns) =
     do { here \<leftarrow> has_service r c n; rest \<leftarrow> missing_services r c ns; Some (if here then rest else n # rest) }"

section \<open>Sub-plugins\<close>

definition ctx_plugin ::
  "('v, 'h, 'c) registry \<Rightarrow> ('v, 'h) root \<Rightarrow> ctx \<Rightarrow> string \<Rightarrow> 'c \<Rightarrow> ((plexus_error + fiber_id) \<times> ('v, 'h) root) option" where
  "ctx_plugin reg r c name config =
     (case registry_get reg name of
        None \<Rightarrow> Some (Inl (UnknownPlugin (ctx_entry r c) name), r)
      | Some p \<Rightarrow>
          do {
            missing \<leftarrow> missing_services r c (p_inject p);
            if missing \<noteq> [] then Some (Inl (Deadlock [(ctx_entry r c @ '':'' @ name, missing)]), r)
            else (case fiber_create (fiber_table r) name name (ctx_fiber c) of
                    (child, t) \<Rightarrow>
                      (case p_apply p (for_fiber c child) config (r\<lparr>fiber_table := t\<rparr>) of
                         (Inl m, r') \<Rightarrow> Some (Inl (Apply name m), r')
                       | (Inr _, r') \<Rightarrow> Some (Inr child, r'\<lparr>fiber_table := set_status (fiber_table r') child Active\<rparr>)))
          })"

definition plugin_isolated ::
  "('v, 'h, 'c) registry \<Rightarrow> ('v, 'h) root \<Rightarrow> ctx \<Rightarrow> string \<Rightarrow> 'c \<Rightarrow> ((plexus_error + fiber_id \<times> ctx) \<times> ('v, 'h) root) option" where
  "plugin_isolated reg r c name config =
     (case isolate r c of
        (scoped, r1) \<Rightarrow>
          do {
            out \<leftarrow> ctx_plugin reg r1 scoped name config;
            Some (case out of
                    (Inl e, r2) \<Rightarrow> (Inl e, r2)
                  | (Inr fiber, r2) \<Rightarrow> (Inr (fiber, scoped), r2))
          })"

section \<open>The app\<close>

record ('v, 'h, 'c) app =
  app_root :: "('v, 'h) root"
  app_tree :: "'c config_tree"
  app_mounted :: "(string \<times> fiber_id) list"
  app_pending :: "'c entry list"

definition app_new :: "'c config_tree \<Rightarrow> ('v, 'h, 'c) app" where
  "app_new tree = \<lparr>app_root = root_new, app_tree = tree, app_mounted = [], app_pending = []\<rparr>"

definition put :: "string \<Rightarrow> fiber_id \<Rightarrow> (string \<times> fiber_id) list \<Rightarrow> (string \<times> fiber_id) list" where
  "put i f m = (i, f) # filter (\<lambda>x. fst x \<noteq> i) m"

text \<open>The body of the inner loop of \<open>mount_all\<close>: whether the row came up.\<close>

definition mount_row ::
  "('v, 'h, 'c) registry \<Rightarrow> (fiber_id list \<Rightarrow> fiber_id list) \<Rightarrow> 'c entry \<Rightarrow> ('v, 'h, 'c) app
     \<Rightarrow> ((plexus_error + bool) \<times> ('v, 'h, 'c) app) option" where
  "mount_row reg ord e a =
     do {
       p \<leftarrow> registry_get reg (e_name e);
       ready \<leftarrow> all_services (app_root a) root_ctx (p_inject p);
       if \<not> ready then Some (Inr False, a)
       else (case fiber_create (fiber_table (app_root a)) (e_id e) (e_name e) ROOT_FIBER of
               (fiber, t) \<Rightarrow>
                 (case p_apply p (for_fiber root_ctx fiber) (e_config e) ((app_root a)\<lparr>fiber_table := t\<rparr>) of
                    (Inr _, r) \<Rightarrow>
                      Some (Inr True,
                        a\<lparr>app_root := r\<lparr>fiber_table := set_status (fiber_table r) fiber Active\<rparr>,
                          app_mounted := put (e_id e) fiber (app_mounted a)\<rparr>)
                  | (Inl m, r) \<Rightarrow>
                      do {
                        r' \<leftarrow> ctx_unload ord fiber r;
                        Some (Inl (Apply (e_id e) m), a\<lparr>app_root := r'\<rparr>)
                      }))
     }"

text \<open>One round: whether it progressed, and the rows still pending.\<close>

fun mount_pass ::
  "('v, 'h, 'c) registry \<Rightarrow> (fiber_id list \<Rightarrow> fiber_id list) \<Rightarrow> 'c entry list \<Rightarrow> ('v, 'h, 'c) app
     \<Rightarrow> ((plexus_error + bool \<times> 'c entry list) \<times> ('v, 'h, 'c) app) option" where
  "mount_pass reg ord [] a = Some (Inr (False, []), a)"
| "mount_pass reg ord (e # es) a =
     (case mount_row reg ord e a of
        None \<Rightarrow> None
      | Some (Inl err, a1) \<Rightarrow> Some (Inl err, a1)
      | Some (Inr up, a1) \<Rightarrow>
          (case mount_pass reg ord es a1 of
             None \<Rightarrow> None
           | Some (Inl err, a2) \<Rightarrow> Some (Inl err, a2)
           | Some (Inr (progressed, still), a2) \<Rightarrow>
               Some (Inr (up \<or> progressed, if up then still else e # still), a2)))"

lemma mount_pass_ConsE:
  assumes "mount_pass reg ord (e # es) a = Some (Inr (progressed, still), a')"
  obtains up a1 progressed' still' where "mount_row reg ord e a = Some (Inr up, a1)"
    "mount_pass reg ord es a1 = Some (Inr (progressed', still'), a')"
    "progressed = (up \<or> progressed')" "still = (if up then still' else e # still')"
  using assms by (auto split: option.splits prod.splits sum.splits)

lemma mount_pass_length:
  "mount_pass reg ord es a = Some (Inr (progressed, still), a') \<Longrightarrow>
   length still \<le> length es \<and> (progressed \<longrightarrow> length still < length es)"
proof (induction es arbitrary: progressed still a)
  case (Cons e es)
  from Cons.prems show ?case
    by (elim mount_pass_ConsE) (auto dest!: Cons.IH split: if_splits)
qed simp

function mount_loop ::
  "('v, 'h, 'c) registry \<Rightarrow> (fiber_id list \<Rightarrow> fiber_id list) \<Rightarrow> 'c entry list \<Rightarrow> ('v, 'h, 'c) app
     \<Rightarrow> ((plexus_error + 'c entry list) \<times> ('v, 'h, 'c) app) option" where
  "mount_loop reg ord pending a =
     (case mount_pass reg ord pending a of
        None \<Rightarrow> None
      | Some (Inl err, a') \<Rightarrow> Some (Inl err, a')
      | Some (Inr (progressed, still), a') \<Rightarrow>
          if still = [] \<or> \<not> progressed then Some (Inr still, a') else mount_loop reg ord still a')"
  by pat_completeness auto
termination
  by (relation "measure (\<lambda>(reg, ord, pending, a). length pending)") (auto dest: mount_pass_length)

declare mount_loop.simps [simp del]

definition mount_all ::
  "('v, 'h, 'c) registry \<Rightarrow> (fiber_id list \<Rightarrow> fiber_id list) \<Rightarrow> 'c entry list \<Rightarrow> ('v, 'h, 'c) app
     \<Rightarrow> ((plexus_error + unit) \<times> ('v, 'h, 'c) app) option" where
  "mount_all reg ord pending a =
     (case find (\<lambda>e. registry_get reg (e_name e) = None) pending of
        Some e \<Rightarrow> Some (Inl (UnknownPlugin (e_id e) (e_name e)), a)
      | None \<Rightarrow>
          do {
            out \<leftarrow> mount_loop reg ord pending a;
            Some (case out of
                    (Inl err, a') \<Rightarrow> (Inl err, a')
                  | (Inr still, a') \<Rightarrow> (Inr (), a'\<lparr>app_pending := still\<rparr>))
          })"

fun pending_rows ::
  "('v, 'h, 'c) registry \<Rightarrow> ('v, 'h) root \<Rightarrow> 'c entry list \<Rightarrow> (string \<times> string list) list option" where
  "pending_rows reg r [] = Some []"
| "pending_rows reg r (e # es) =
     do {
       missing \<leftarrow> (case registry_get reg (e_name e) of
                     Some p \<Rightarrow> missing_services r root_ctx (p_inject p) | None \<Rightarrow> Some []);
       rest \<leftarrow> pending_rows reg r es;
       Some ((e_id e, missing) # rest)
     }"

definition app_pending_report :: "('v, 'h, 'c) registry \<Rightarrow> ('v, 'h, 'c) app \<Rightarrow> (string \<times> string list) list option" where
  "app_pending_report reg a = pending_rows reg (app_root a) (app_pending a)"

definition fail_on_pending :: "('v, 'h, 'c) registry \<Rightarrow> ('v, 'h, 'c) app \<Rightarrow> (plexus_error + unit) option" where
  "fail_on_pending reg a =
     (if app_pending a = [] then Some (Inr ()) else map_option (\<lambda>ps. Inl (Deadlock ps)) (app_pending_report reg a))"

definition start_lenient ::
  "('v, 'h, 'c) registry \<Rightarrow> (fiber_id list \<Rightarrow> fiber_id list) \<Rightarrow> ('v, 'h, 'c) app \<Rightarrow> ((plexus_error + unit) \<times> ('v, 'h, 'c) app) option" where
  "start_lenient reg ord a = mount_all reg ord (active (app_tree a)) a"

definition start ::
  "('v, 'h, 'c) registry \<Rightarrow> (fiber_id list \<Rightarrow> fiber_id list) \<Rightarrow> ('v, 'h, 'c) app \<Rightarrow> ((plexus_error + unit) \<times> ('v, 'h, 'c) app) option" where
  "start reg ord a =
     do {
       out \<leftarrow> mount_all reg ord (active (app_tree a)) a;
       (case out of
          (Inl err, a') \<Rightarrow> Some (Inl err, a')
        | (Inr _, a') \<Rightarrow> do { res \<leftarrow> fail_on_pending reg a'; Some (res, a') })
     }"

section \<open>Patching and stopping\<close>

definition unload_row ::
  "(fiber_id list \<Rightarrow> fiber_id list) \<Rightarrow> string \<Rightarrow> ('v, 'h, 'c) app \<Rightarrow> ('v, 'h, 'c) app option" where
  "unload_row ord i a =
     (case map_of (app_mounted a) i of
        None \<Rightarrow> Some a
      | Some fiber \<Rightarrow>
          do {
            r \<leftarrow> ctx_unload ord fiber (app_root a);
            Some (a\<lparr>app_mounted := filter (\<lambda>x. fst x \<noteq> i) (app_mounted a), app_root := r\<rparr>)
          })"

text \<open>A hash map collected from the rows: the last row of an id counts.\<close>

definition last_row :: "'c config_tree \<Rightarrow> string \<Rightarrow> 'c entry option" where
  "last_row t i = find (\<lambda>e. e_id e = i) (rev t)"

definition row_ids :: "'c config_tree \<Rightarrow> string list" where
  "row_ids t = remdups (map e_id t)"

fun compare_rows ::
  "(fiber_id list \<Rightarrow> fiber_id list) \<Rightarrow> 'c config_tree \<Rightarrow> 'c config_tree \<Rightarrow> string list \<Rightarrow> ('v, 'h, 'c) app
     \<Rightarrow> ('c entry list \<times> ('v, 'h, 'c) app) option" where
  "compare_rows ord old new [] a = Some ([], a)"
| "compare_rows ord old new (i # is) a =
     (case last_row old i of
        None \<Rightarrow> compare_rows ord old new is a
      | Some before \<Rightarrow>
          (case last_row new i of
             None \<Rightarrow> do { a' \<leftarrow> unload_row ord i a; compare_rows ord old new is a' }
           | Some after \<Rightarrow>
               if e_disabled after
               then (if \<not> e_disabled before
                     then do { a' \<leftarrow> unload_row ord i a; compare_rows ord old new is a' }
                     else compare_rows ord old new is a)
               else if e_name after \<noteq> e_name before \<or> e_config after \<noteq> e_config before \<or> e_disabled before
               then do {
                 a' \<leftarrow> unload_row ord i a;
                 (mount, a'') \<leftarrow> compare_rows ord old new is a';
                 Some (after # mount, a'')
               }
               else compare_rows ord old new is a))"

definition new_rows :: "'c config_tree \<Rightarrow> 'c config_tree \<Rightarrow> string list \<Rightarrow> 'c entry list" where
  "new_rows old new ids =
     List.map_filter (\<lambda>i. case last_row new i of
         Some e \<Rightarrow> if last_row old i = None \<and> \<not> e_disabled e then Some e else None
       | None \<Rightarrow> None) ids"

definition retry_row :: "'c config_tree \<Rightarrow> 'c entry list \<Rightarrow> 'c entry \<Rightarrow> 'c entry list" where
  "retry_row new to_mount e =
     (if \<exists>x\<in>set to_mount. e_id x = e_id e then to_mount
      else (case last_row new (e_id e) of
              Some current \<Rightarrow> if e_disabled current then to_mount else to_mount @ [current]
            | None \<Rightarrow> to_mount))"

definition tree_index :: "'c config_tree \<Rightarrow> string \<Rightarrow> nat" where
  "tree_index t i =
     (case find (\<lambda>(k, e). e_id e = i) (rev (List.enumerate 0 t)) of Some (k, e) \<Rightarrow> k | None \<Rightarrow> 2 ^ 64 - 1)"

definition app_patch ::
  "('v, 'h, 'c) registry \<Rightarrow> (fiber_id list \<Rightarrow> fiber_id list) \<Rightarrow> (string list \<Rightarrow> string list) \<Rightarrow> 'c layer \<Rightarrow> ('v, 'h, 'c) app
     \<Rightarrow> ((plexus_error + unit) \<times> ('v, 'h, 'c) app) option" where
  "app_patch reg ord perm layer a =
     (let old = app_tree a in
      (case tree_apply layer old of
         (Inl err, new) \<Rightarrow> Some (Inl err, a\<lparr>app_tree := new\<rparr>)
       | (Inr _, new) \<Rightarrow>
           do {
             (changed, a1) \<leftarrow> compare_rows ord old new (perm (row_ids old)) (a\<lparr>app_tree := new\<rparr>);
             let to_mount = changed @ new_rows old new (perm (row_ids new));
             let to_mount = foldl (retry_row new) to_mount (app_pending a1);
             mount_all reg ord (sort_key (\<lambda>e. tree_index new (e_id e)) to_mount) (a1\<lparr>app_pending := []\<rparr>)
           }))"

fun unload_all :: "(fiber_id list \<Rightarrow> fiber_id list) \<Rightarrow> fiber_id list \<Rightarrow> ('v, 'h) root \<Rightarrow> ('v, 'h) root option" where
  "unload_all ord [] r = Some r"
| "unload_all ord (f # fs) r = do { r' \<leftarrow> ctx_unload ord f r; unload_all ord fs r' }"

definition stop :: "(fiber_id list \<Rightarrow> fiber_id list) \<Rightarrow> ('v, 'h, 'c) app \<Rightarrow> ('v, 'h, 'c) app option" where
  "stop ord a =
     do {
       r \<leftarrow> unload_all ord (rev (sort (map snd (app_mounted a)))) (app_root a);
       Some (a\<lparr>app_root := r, app_mounted := []\<rparr>)
     }"

end
