(* ===== verification/App_Laws.thy ===== *)
theory App_Laws
  imports App
begin

text \<open>
  What mounting does. It always returns, if the plugins act through their contexts only (\<open>tame\<close>); a
  row whose \<open>apply\<close> fails leaves no trace; what is left waiting lacks a service; every row is up or
  waiting; and, for plugins that provide what they declare, which rows come up is the least fixed
  point of the declarations, whatever the order of the rows (\<open>mount_loop_exact\<close>).
\<close>

section \<open>Readiness\<close>

definition offered :: "('v, 'h) root \<Rightarrow> ctx \<Rightarrow> string \<Rightarrow> bool" where
  "offered r c n \<longleftrightarrow> has_service r c n = Some True"

lemma has_service_total: "realm_inv (realms r) \<Longrightarrow> has_service r c n = Some (offered r c n)"
  by (simp add: offered_def has_service_def has_named_iff)

lemma all_services_eq:
  "realm_inv (realms r) \<Longrightarrow> all_services r c ns = Some (\<forall>n\<in>set ns. offered r c n)"
  by (induction ns) (simp_all add: has_service_total)

lemma all_services_True: "all_services r c ns = Some True \<longleftrightarrow> (\<forall>n\<in>set ns. offered r c n)"
  by (induction ns) (auto simp: offered_def bind_eq_Some_conv)

lemma all_services_False: "all_services r c ns = Some False \<Longrightarrow> \<exists>n\<in>set ns. has_service r c n = Some False"
proof (induction ns)
  case (Cons n ns)
  then show ?case by (cases "has_service r c n") (auto split: if_splits)
qed simp

lemma missing_services_eq:
  "realm_inv (realms r) \<Longrightarrow> missing_services r c ns = Some (filter (\<lambda>n. \<not> offered r c n) ns)"
  by (induction ns) (simp_all add: has_service_total)

section \<open>Plugins that act through their contexts\<close>

definition tame :: "('v, ('a, 'o, 'w) handler, 'c) plugin \<Rightarrow> bool" where
  "tame p \<longleftrightarrow> (\<forall>c config r res r'. live r (ctx_fiber c) c \<longrightarrow> p_apply p c config r = (res, r') \<longrightarrow> (acts (ctx_fiber c))\<^sup>*\<^sup>* r r')"

definition tame_registry :: "('v, ('a, 'o, 'w) handler, 'c) registry \<Rightarrow> bool" where
  "tame_registry reg \<longleftrightarrow> (\<forall>(n, p)\<in>set reg. tame p)"

lemma tame_registry_get: "tame_registry reg \<Longrightarrow> registry_get reg n = Some p \<Longrightarrow> tame p"
  by (auto simp: tame_registry_def registry_get_def dest!: map_of_SomeD)

lemma footprint_acts_star: "(acts (next_fiber (fiber_table r0)))\<^sup>*\<^sup>* r r' \<Longrightarrow> footprint r0 r \<Longrightarrow> footprint r0 r'"
  by (induction rule: rtranclp_induct) (auto intro: footprint_acts)

lemma apply_footprint:
  assumes inv: "root_inv r" and t: "tame p" and f: "fiber_create (fiber_table r) entry plugin ROOT_FIBER = (f, t')"
    and ap: "p_apply p (for_fiber root_ctx f) config (r\<lparr>fiber_table := t'\<rparr>) = (res, r')"
  shows "footprint r r' \<and> f = next_fiber (fiber_table r)"
proof -
  have f': "f = next_fiber (fiber_table r)" "t' = snd (fiber_create (fiber_table r) entry plugin ROOT_FIBER)"
    using f by (simp add: fiber_create_def, simp)
  have "ROOT_FIBER < next_fiber (fiber_table r)" using inv by (auto simp: root_inv_def fiber_inv_def ROOT_FIBER_def)
  then have "footprint r (r\<lparr>fiber_table := t'\<rparr>)" unfolding f'(2) by (rule footprint_start [OF inv])
  moreover have "live (r\<lparr>fiber_table := t'\<rparr>) f (for_fiber root_ctx f)"
    using f' by (simp add: live_def for_fiber_def fiber_create_def fiber_get_def)
  then have "(acts (next_fiber (fiber_table r)))\<^sup>*\<^sup>* (r\<lparr>fiber_table := t'\<rparr>) r'"
    using t ap f'(1) unfolding tame_def by (metis for_fiber_def ctx.select_convs(1) ctx.surjective ctx.update_convs(1))
  ultimately show ?thesis using footprint_acts_star f'(1) by blast
qed

lemma root_inv_status: "root_inv r \<Longrightarrow> root_inv (r\<lparr>fiber_table := set_status (fiber_table r) f st\<rparr>)"
  using fiber_inv_status [of "fiber_table r" f st]
  by (intro root_inv_fibers) (simp_all add: root_inv_def, simp add: set_status_def next_fiber_update)

lemma root_inv_realms: "root_inv r \<Longrightarrow> realm_inv (realms r)"
  by (simp add: root_inv_def)

text \<open>The three ways a row can go.\<close>

lemma mount_row_cases:
  assumes inv: "root_inv (app_root a)" and reg: "tame_registry reg" and p: "registry_get reg (e_name e) = Some p"
    and ord: "\<forall>xs. set (ord xs) = set xs"
  obtains
    (waits) "mount_row reg ord e a = Some (Inr False, a)" "\<not> (\<forall>n\<in>set (p_inject p). offered (app_root a) root_ctx n)"
  | (up) r where "mount_row reg ord e a = Some (Inr True,
        a\<lparr>app_root := r\<lparr>fiber_table := set_status (fiber_table r) (next_fiber (fiber_table (app_root a))) Active\<rparr>,
          app_mounted := put (e_id e) (next_fiber (fiber_table (app_root a))) (app_mounted a)\<rparr>)"
      "footprint (app_root a) r" "\<forall>n\<in>set (p_inject p). offered (app_root a) root_ctx n"
  | (failed) m r' where "mount_row reg ord e a = Some (Inl (Apply (e_id e) m), a\<lparr>app_root := r'\<rparr>)" "root_inv r'"
      "slots (services r') = slots (services (app_root a))"
      "\<forall>ty. listeners_of (events r') ty = listeners_of (events (app_root a)) ty"
      "fibers (fiber_table r') = fibers (fiber_table (app_root a))"
proof (cases "\<forall>n\<in>set (p_inject p). offered (app_root a) root_ctx n")
  case False
  then show ?thesis
    using waits all_services_eq [OF root_inv_realms [OF inv]] by (simp add: mount_row_def p)
next
  case True
  then have ready: "all_services (app_root a) root_ctx (p_inject p) = Some True"
    by (simp add: all_services_True)
  obtain f t' where f: "fiber_create (fiber_table (app_root a)) (e_id e) (e_name e) ROOT_FIBER = (f, t')" by fastforce
  obtain res r where ap: "p_apply p (for_fiber root_ctx f) (e_config e) ((app_root a)\<lparr>fiber_table := t'\<rparr>) = (res, r)" by fastforce
  note fp = apply_footprint [OF inv tame_registry_get [OF reg p] f ap]
  show ?thesis
  proof (cases res)
    case (Inr u)
    have "mount_row reg ord e a = Some (Inr True, a\<lparr>app_root := r\<lparr>fiber_table := set_status (fiber_table r) f Active\<rparr>,
        app_mounted := put (e_id e) f (app_mounted a)\<rparr>)"
      by (simp add: mount_row_def p ready f ap Inr)
    then show ?thesis using up [of r] fp True by simp
  next
    case (Inl m)
    obtain r' where r': "ctx_unload ord f r = Some r'" "slots (services r') = slots (services (app_root a))"
      "\<forall>ty. listeners_of (events r') ty = listeners_of (events (app_root a)) ty"
      "fibers (fiber_table r') = fibers (fiber_table (app_root a))"
      using unload_reverts [OF conjunct1 [OF fp] ord] fp by blast
    have "footprint (app_root a) r'" using footprint_unload [OF conjunct1 [OF fp] _ ord r'(1)] fp by simp
    then show ?thesis
      using failed [of m r'] r' footprint_root_inv by (auto simp: mount_row_def p ready f ap Inl)
  qed
qed

lemma mount_row_total:
  assumes "root_inv (app_root a)" "tame_registry reg" "registry_get reg (e_name e) \<noteq> None" "\<forall>xs. set (ord xs) = set xs"
  shows "\<exists>res a'. mount_row reg ord e a = Some (res, a') \<and> root_inv (app_root a')"
proof -
  obtain p where p: "registry_get reg (e_name e) = Some p" using assms(3) by blast
  from assms(1,2) p assms(4) show ?thesis
    by (cases rule: mount_row_cases) (auto intro: root_inv_status footprint_root_inv simp: assms(1))
qed

lemma mount_pass_total:
  assumes "tame_registry reg" "\<forall>xs. set (ord xs) = set xs"
  shows "root_inv (app_root a) \<Longrightarrow> \<forall>e\<in>set es. registry_get reg (e_name e) \<noteq> None \<Longrightarrow>
    \<exists>res a'. mount_pass reg ord es a = Some (res, a') \<and> root_inv (app_root a')"
proof (induction es arbitrary: a)
  case (Cons e es)
  obtain res a1 where r: "mount_row reg ord e a = Some (res, a1)" "root_inv (app_root a1)"
    using mount_row_total [OF Cons.prems(1) assms(1) _ assms(2), of e] Cons.prems(2) by auto
  obtain res2 a2 where "mount_pass reg ord es a1 = Some (res2, a2)" "root_inv (app_root a2)"
    using Cons.IH [OF r(2)] Cons.prems(2) by auto
  with r show ?case by (cases res; cases res2) (auto split: prod.split)
qed simp

lemma mount_pass_still: "mount_pass reg ord es a = Some (Inr (progressed, still), a') \<Longrightarrow> set still \<subseteq> set es"
proof (induction es arbitrary: progressed still a)
  case (Cons e es)
  from Cons.prems show ?case by (elim mount_pass_ConsE) (auto dest!: Cons.IH split: if_splits)
qed simp

lemma mount_loop_total:
  assumes "tame_registry reg" "\<forall>xs. set (ord xs) = set xs"
  shows "root_inv (app_root a) \<Longrightarrow> \<forall>e\<in>set es. registry_get reg (e_name e) \<noteq> None \<Longrightarrow>
    \<exists>res a'. mount_loop reg ord es a = Some (res, a') \<and> root_inv (app_root a')"
proof (induction es arbitrary: a rule: length_induct)
  case (1 es)
  obtain res a1 where r: "mount_pass reg ord es a = Some (res, a1)" "root_inv (app_root a1)"
    using mount_pass_total [OF assms 1(2,3)] by blast
  show ?case
  proof (cases res)
    case (Inr ps)
    obtain progressed still where ps: "ps = (progressed, still)" by fastforce
    have s: "progressed \<longrightarrow> length still < length es" "set still \<subseteq> set es"
      using mount_pass_length [of reg ord es a] mount_pass_still [of reg ord es a] r(1) Inr ps by blast+
    have loop: "mount_loop reg ord es a = (if still = [] \<or> \<not> progressed then Some (Inr still, a1) else mount_loop reg ord still a1)"
      using r(1) by (simp add: mount_loop.simps [of reg ord es a] Inr ps)
    have "progressed \<longrightarrow> (\<exists>res a'. mount_loop reg ord still a1 = Some (res, a') \<and> root_inv (app_root a'))"
      using s 1(1,3) r(2) by blast
    with loop r(2) show ?thesis by auto
  qed (use r in \<open>simp add: mount_loop.simps [of reg ord es a]\<close>)
qed

lemma mount_all_total:
  assumes "tame_registry reg" "\<forall>xs. set (ord xs) = set xs" "root_inv (app_root a)"
  shows "\<exists>res a'. mount_all reg ord es a = Some (res, a') \<and> root_inv (app_root a')"
proof (cases "find (\<lambda>e. registry_get reg (e_name e) = None) es")
  case None
  then have "\<forall>e\<in>set es. registry_get reg (e_name e) \<noteq> None" by (auto simp: find_None_iff)
  from mount_loop_total [OF assms this] None show ?thesis
    by (auto simp: mount_all_def split: sum.split)
qed (use assms in \<open>simp add: mount_all_def\<close>)

section \<open>Waiting rows\<close>

lemma mount_row_waits:
  "mount_row reg ord e a = Some (Inr False, a') \<Longrightarrow>
   a' = a \<and> (\<exists>p. registry_get reg (e_name e) = Some p \<and> (\<exists>n\<in>set (p_inject p). has_service (app_root a) root_ctx n = Some False))"
  by (auto simp: mount_row_def bind_eq_Some_conv split: if_splits prod.splits sum.splits dest: all_services_False)

lemma mount_pass_stalled:
  "mount_pass reg ord es a = Some (Inr (False, still), a') \<Longrightarrow> a' = a \<and> still = es \<and>
   (\<forall>e\<in>set es. \<exists>p. registry_get reg (e_name e) = Some p \<and> (\<exists>n\<in>set (p_inject p). has_service (app_root a) root_ctx n = Some False))"
proof (induction es arbitrary: still a)
  case (Cons e es)
  from Cons.prems obtain a1 still' where s: "mount_row reg ord e a = Some (Inr False, a1)"
    "mount_pass reg ord es a1 = Some (Inr (False, still'), a')" "still = e # still'"
    by (elim mount_pass_ConsE) auto
  from mount_row_waits [OF s(1)] Cons.IH [OF s(2)] s(3) show ?case by auto
qed simp

lemma mount_loop_waiting:
  "mount_loop reg ord es a = Some (Inr still, a') \<Longrightarrow> e \<in> set still \<Longrightarrow>
   \<exists>p. registry_get reg (e_name e) = Some p \<and> (\<exists>n\<in>set (p_inject p). has_service (app_root a') root_ctx n = Some False)"
proof (induction reg ord es a rule: mount_loop.induct)
  case (1 reg ord es a)
  from 1(2) obtain progressed still' a1 where pass: "mount_pass reg ord es a = Some (Inr (progressed, still'), a1)"
    by (subst (asm) mount_loop.simps) (auto split: option.splits prod.splits sum.splits)
  show ?case
  proof (cases "still' = [] \<or> \<not> progressed")
    case True
    then have "still = still'" "a' = a1" using 1(2) pass by (simp_all add: mount_loop.simps [of reg ord es a])
    with True 1(3) pass mount_pass_stalled [of reg ord es a still' a1] show ?thesis by auto
  next
    case False
    with 1(2) pass have "mount_loop reg ord still' a1 = Some (Inr still, a')"
      by (simp add: mount_loop.simps [of reg ord es a])
    with 1(1) [OF pass _ _ _ False] 1(3) show ?thesis by blast
  qed
qed

section \<open>Every row is up or waiting\<close>

lemma mount_row_mounted:
  "mount_row reg ord e a = Some (res, a') \<Longrightarrow>
   fst ` set (app_mounted a) \<subseteq> fst ` set (app_mounted a') \<and> (res = Inr True \<longrightarrow> e_id e \<in> fst ` set (app_mounted a'))
   \<and> app_tree a' = app_tree a \<and> app_pending a' = app_pending a"
  by (force simp: mount_row_def bind_eq_Some_conv put_def split: if_splits prod.splits sum.splits)

lemma mount_pass_mounted:
  "mount_pass reg ord es a = Some (Inr (progressed, still), a') \<Longrightarrow>
   fst ` set (app_mounted a) \<subseteq> fst ` set (app_mounted a') \<and> (\<forall>e\<in>set es. e \<in> set still \<or> e_id e \<in> fst ` set (app_mounted a'))"
proof (induction es arbitrary: progressed still a)
  case (Cons e es)
  from Cons.prems obtain up a1 progressed' still' where c: "mount_row reg ord e a = Some (Inr up, a1)"
    "mount_pass reg ord es a1 = Some (Inr (progressed', still'), a')" "still = (if up then still' else e # still')"
    by (elim mount_pass_ConsE) blast
  from mount_row_mounted [OF c(1)] Cons.IH [OF c(2)] c(3) show ?case by auto
qed simp

lemma mount_loop_unfold:
  assumes "mount_loop reg ord es a = Some (Inr still, a')"
  obtains (last) progressed where "mount_pass reg ord es a = Some (Inr (progressed, still), a')" "still = [] \<or> \<not> progressed"
  | (again) still' a1 where "mount_pass reg ord es a = Some (Inr (True, still'), a1)" "mount_loop reg ord still' a1 = Some (Inr still, a')"
  using assms by (subst (asm) mount_loop.simps) (auto split: option.splits prod.splits sum.splits if_splits)

lemma mount_loop_mounted:
  "mount_loop reg ord es a = Some (Inr still, a') \<Longrightarrow>
   fst ` set (app_mounted a) \<subseteq> fst ` set (app_mounted a') \<and> (\<forall>e\<in>set es. e \<in> set still \<or> e_id e \<in> fst ` set (app_mounted a'))"
proof (induction es arbitrary: a rule: length_induct)
  case (1 es)
  from 1(2) show ?case
  proof (cases rule: mount_loop_unfold)
    case (last progressed)
    from mount_pass_mounted [OF last(1)] show ?thesis .
  next
    case (again still' a1)
    have "length still' < length es" using mount_pass_length [OF again(1)] by simp
    then have "fst ` set (app_mounted a1) \<subseteq> fst ` set (app_mounted a')
        \<and> (\<forall>e\<in>set still'. e \<in> set still \<or> e_id e \<in> fst ` set (app_mounted a'))"
      using 1(1) again(2) by simp
    with mount_pass_mounted [OF again(1)] show ?thesis by (meson subsetD subset_trans)
  qed
qed

lemma mount_all_Inr:
  assumes "mount_all reg ord es a = Some (Inr u, a')"
  shows "\<exists>still a1. mount_loop reg ord es a = Some (Inr still, a1) \<and> a' = a1\<lparr>app_pending := still\<rparr>"
proof (cases "mount_loop reg ord es a")
  case None
  with assms show ?thesis by (auto simp: mount_all_def split: option.splits)
next
  case (Some out)
  with assms show ?thesis by (cases out; cases "fst out") (auto simp: mount_all_def split: option.splits)
qed

section \<open>The fixed point\<close>

text \<open>Plugins whose \<open>apply\<close> succeeds and fills the slots they declare, on the roots in \<open>I\<close>.\<close>

definition dependable ::
  "(('v, 'h) root \<Rightarrow> bool) \<Rightarrow> ('v, 'h, 'c) registry \<Rightarrow> 'c entry list \<Rightarrow> bool" where
  "dependable I reg es \<longleftrightarrow>
     (\<forall>r. I r \<longrightarrow> realm_inv (realms r)) \<and>
     (\<forall>e\<in>set es. \<exists>p. registry_get reg (e_name e) = Some p \<and>
        (\<forall>r f t. I r \<longrightarrow> fiber_create (fiber_table r) (e_id e) (e_name e) ROOT_FIBER = (f, t) \<longrightarrow>
           (\<exists>r'. p_apply p (for_fiber root_ctx f) (e_config e) (r\<lparr>fiber_table := t\<rparr>) = (Inr (), r')
              \<and> I (r'\<lparr>fiber_table := set_status (fiber_table r') f Active\<rparr>)
              \<and> (\<forall>n. offered r' root_ctx n \<longleftrightarrow> offered r root_ctx n \<or> n \<in> set (p_provides p)))))"

definition injects :: "('v, 'h, 'c) registry \<Rightarrow> 'c entry \<Rightarrow> string set" where
  "injects reg e = (case registry_get reg (e_name e) of Some p \<Rightarrow> set (p_inject p) | None \<Rightarrow> {})"

definition declares :: "('v, 'h, 'c) registry \<Rightarrow> 'c entry \<Rightarrow> string set" where
  "declares reg e = (case registry_get reg (e_name e) of Some p \<Rightarrow> set (p_provides p) | None \<Rightarrow> {})"

inductive_set obtainable :: "('v, 'h, 'c) registry \<Rightarrow> 'c entry set \<Rightarrow> string set \<Rightarrow> string set" for reg E N where
  obtainable_there: "n \<in> N \<Longrightarrow> n \<in> obtainable reg E N"
| obtainable_row: "e \<in> E \<Longrightarrow> \<forall>m\<in>injects reg e. m \<in> obtainable reg E N \<Longrightarrow> n \<in> declares reg e \<Longrightarrow> n \<in> obtainable reg E N"

definition offers :: "('v, 'h, 'c) app \<Rightarrow> string set" where
  "offers a = {n. offered (app_root a) root_ctx n}"

lemma mount_row_dependable:
  assumes d: "dependable I reg es" and e: "e \<in> set es" and I: "I (app_root a)"
  shows "\<exists>a1. mount_row reg ord e a = Some (Inr (injects reg e \<subseteq> offers a), a1) \<and> I (app_root a1)
    \<and> offers a1 = offers a
        \<union> (if injects reg e \<subseteq> offers a then declares reg e else {})"
proof -
  obtain p where p: "registry_get reg (e_name e) = Some p" and
    ap: "\<And>r f t. I r \<Longrightarrow> fiber_create (fiber_table r) (e_id e) (e_name e) ROOT_FIBER = (f, t) \<Longrightarrow>
      \<exists>r'. p_apply p (for_fiber root_ctx f) (e_config e) (r\<lparr>fiber_table := t\<rparr>) = (Inr (), r')
        \<and> I (r'\<lparr>fiber_table := set_status (fiber_table r') f Active\<rparr>)
        \<and> (\<forall>n. offered r' root_ctx n \<longleftrightarrow> offered r root_ctx n \<or> n \<in> set (p_provides p))"
    using d e unfolding dependable_def by blast
  have inj: "injects reg e = set (p_inject p)" "declares reg e = set (p_provides p)" by (simp_all add: injects_def declares_def p)
  have realm: "realm_inv (realms (app_root a))" using d I by (simp add: dependable_def)
  obtain f t where f: "fiber_create (fiber_table (app_root a)) (e_id e) (e_name e) ROOT_FIBER = (f, t)" by fastforce
  obtain r' where r': "p_apply p (for_fiber root_ctx f) (e_config e) ((app_root a)\<lparr>fiber_table := t\<rparr>) = (Inr (), r')"
      "I (r'\<lparr>fiber_table := set_status (fiber_table r') f Active\<rparr>)"
      "\<forall>n. offered r' root_ctx n \<longleftrightarrow> offered (app_root a) root_ctx n \<or> n \<in> set (p_provides p)"
    using ap [OF I f] by blast
  have same: "offered (r'\<lparr>fiber_table := t'\<rparr>) root_ctx n = offered r' root_ctx n" for t' n
    by (simp add: offered_def has_service_def)
  show ?thesis
    using all_services_eq [OF realm, of root_ctx "p_inject p"] I r'
    by (auto simp: mount_row_def p f r' inj same offers_def subset_eq)
qed

lemma mount_pass_dependable:
  assumes d: "dependable I reg es"
  shows "set us \<subseteq> set es \<Longrightarrow> I (app_root a) \<Longrightarrow> offers a \<subseteq> obtainable reg E N \<Longrightarrow> set es \<subseteq> E \<Longrightarrow>
    \<exists>progressed still a'. mount_pass reg ord us a = Some (Inr (progressed, still), a') \<and> I (app_root a')
      \<and> offers a \<subseteq> offers a'
      \<and> offers a' \<subseteq> obtainable reg E N
      \<and> (\<forall>e\<in>set us. e \<in> set still \<or> declares reg e \<subseteq> offers a')
      \<and> filter (\<lambda>e. \<not> injects reg e \<subseteq> obtainable reg E N) still = filter (\<lambda>e. \<not> injects reg e \<subseteq> obtainable reg E N) us"
proof (induction us arbitrary: a)
  case (Cons e us)
  define up where "up = (injects reg e \<subseteq> offers a)"
  obtain a1 where a1: "mount_row reg ord e a = Some (Inr up, a1)" "I (app_root a1)"
      "offers a1 = offers a \<union> (if up then declares reg e else {})"
    using mount_row_dependable [OF d _ Cons.prems(2), of e ord] Cons.prems(1) up_def by auto
  have "e \<in> E" using Cons.prems(1,4) by auto
  have "up \<Longrightarrow> injects reg e \<subseteq> obtainable reg E N" using Cons.prems(3) by (auto simp: up_def)
  then have new: "up \<Longrightarrow> declares reg e \<subseteq> obtainable reg E N"
    using obtainable_row [OF \<open>e \<in> E\<close>] by blast
  have "offers a1 \<subseteq> obtainable reg E N" using a1(3) Cons.prems(3) new by (auto split: if_splits)
  then obtain progressed still a' where s: "mount_pass reg ord us a1 = Some (Inr (progressed, still), a')" "I (app_root a')"
      "offers a1 \<subseteq> offers a'" "offers a' \<subseteq> obtainable reg E N"
      "\<forall>e\<in>set us. e \<in> set still \<or> declares reg e \<subseteq> offers a'"
      "filter (\<lambda>e. \<not> injects reg e \<subseteq> obtainable reg E N) still = filter (\<lambda>e. \<not> injects reg e \<subseteq> obtainable reg E N) us"
    using Cons.IH [of a1] a1(2) Cons.prems(1,4) by (meson set_subset_Cons subset_trans)
  have pass: "mount_pass reg ord (e # us) a = Some (Inr (up \<or> progressed, if up then still else e # still), a')"
    using a1(1) s(1) by simp
  have old: "offers a \<subseteq> offers a'" "up \<Longrightarrow> declares reg e \<subseteq> offers a'" using s(3) a1(3) by auto
  show ?case
    using s(2,4,5,6) old \<open>up \<Longrightarrow> injects reg e \<subseteq> obtainable reg E N\<close> unfolding pass
    by (cases up) auto
qed auto

lemma obtainable_least:
  assumes "N \<subseteq> S" "\<And>e. e \<in> E \<Longrightarrow> injects reg e \<subseteq> S \<Longrightarrow> declares reg e \<subseteq> S"
  shows "obtainable reg E N \<subseteq> S"
proof
  fix n assume "n \<in> obtainable reg E N"
  then show "n \<in> S" by induction (use assms in blast)+
qed

text \<open>
  \<open>E\<close> are all rows, \<open>us\<close> those still to come; the others have been mounted and what they declare
  is offered.
\<close>

lemma mount_loop_dependable:
  assumes d: "dependable I reg es"
  shows "set us \<subseteq> set es \<Longrightarrow> I (app_root a) \<Longrightarrow> N \<subseteq> offers a \<Longrightarrow> offers a \<subseteq> obtainable reg (set es) N \<Longrightarrow>
    \<forall>e\<in>set es. e \<in> set us \<or> declares reg e \<subseteq> offers a \<Longrightarrow>
    \<exists>a'. mount_loop reg ord us a = Some (Inr (filter (\<lambda>e. \<not> injects reg e \<subseteq> obtainable reg (set es) N) us), a')
      \<and> offers a' = obtainable reg (set es) N"
proof (induction us arbitrary: a rule: length_induct)
  case (1 us)
  let ?Q = "\<lambda>e. \<not> injects reg e \<subseteq> obtainable reg (set es) N"
  obtain progressed still a1 where s: "mount_pass reg ord us a = Some (Inr (progressed, still), a1)" "I (app_root a1)"
      "offers a \<subseteq> offers a1" "offers a1 \<subseteq> obtainable reg (set es) N"
      "\<forall>e\<in>set us. e \<in> set still \<or> declares reg e \<subseteq> offers a1" "filter ?Q still = filter ?Q us"
    using mount_pass_dependable [OF d 1(2,3,5) order_refl, of ord] by blast
  have decl: "\<forall>e\<in>set es. e \<in> set still \<or> declares reg e \<subseteq> offers a1" using 1(6) s(3,5) by (meson subset_trans)
  show ?case
  proof (cases "still = [] \<or> \<not> progressed")
    case True
    have loop: "mount_loop reg ord us a = Some (Inr still, a1)" using s(1) True by (simp add: mount_loop.simps [of reg ord us a])
    have waiting: "\<not> injects reg e \<subseteq> offers a1" if "e \<in> set still" for e
      using mount_loop_waiting [OF loop that] by (auto simp: injects_def offers_def offered_def)
    have "obtainable reg (set es) N \<subseteq> offers a1"
      using 1(4) s(3) decl waiting by (intro obtainable_least) auto
    then have "offers a1 = obtainable reg (set es) N" using s(4) by blast
    moreover from this have "filter ?Q still = still" using waiting by (simp add: filter_id_conv)
    ultimately show ?thesis using loop s(6) by simp
  next
    case False
    have "length still < length us" "set still \<subseteq> set es"
      using mount_pass_length [OF s(1)] mount_pass_still [OF s(1)] False 1(2) by auto
    then obtain a' where "mount_loop reg ord still a1 = Some (Inr (filter ?Q still), a')" "offers a' = obtainable reg (set es) N"
      using 1(1) s(2,4) decl 1(4) s(3) by (meson subset_trans)
    then show ?thesis using s(1,6) False by (simp add: mount_loop.simps [of reg ord us a])
  qed
qed

lemma mount_all_exact:
  assumes d: "dependable I reg es" and I: "I (app_root a)"
  shows "\<exists>a'. mount_all reg ord es a = Some (Inr (), a')
    \<and> app_pending a' = filter (\<lambda>e. \<not> injects reg e \<subseteq> obtainable reg (set es) (offers a)) es
    \<and> offers a' = obtainable reg (set es) (offers a)"
proof -
  have "find (\<lambda>e. registry_get reg (e_name e) = None) es = None"
    using d by (auto simp: find_None_iff dependable_def)
  moreover have "\<exists>a'. mount_loop reg ord es a = Some (Inr (filter (\<lambda>e. \<not> injects reg e \<subseteq> obtainable reg (set es) (offers a)) es), a')
      \<and> offers a' = obtainable reg (set es) (offers a)"
    by (rule mount_loop_dependable [OF d order_refl I order_refl]) (auto intro: obtainable_there)
  ultimately show ?thesis by (auto simp: mount_all_def offers_def)
qed

end
