(* ===== verification/Samples.thy ===== *)
theory Samples
  imports Compaction Recovery_Budget Reasoning_Loop Log_Laws App_Laws
begin

text \<open>
  Concrete values at which the theorems of \<open>Spec2Isabelle\<close> are applied: a conversation with a
  cancelled batch, log entries, and a registry of three plugins, with the lemmas that these plugins
  meet the hypotheses on plugins (\<open>tame\<close>, \<open>dependable\<close>).
\<close>

section \<open>Values\<close>

definition sample_call :: "string \<Rightarrow> tool_call" where
  "sample_call i = \<lparr>tc_id = i, tc_name = ''read'', tc_arguments = ''{}''\<rparr>"

definition cancelled_batch :: conversation where
  "cancelled_batch = \<lparr>c_messages = [message_user ''go'', message_assistant [] [sample_call ''a'', sample_call ''b''],
     tool_result ''a'' ''ok'' False], cache_epoch = 0\<rparr>"

definition said :: "seq_no \<Rightarrow> turn_no \<Rightarrow> string \<Rightarrow> logged_event" where
  "said s t words = \<lparr>le_seq = s, le_at = 0, le_event = UserMessage t words []\<rparr>"

definition rewound_to :: "seq_no \<Rightarrow> turn_no \<Rightarrow> seq_no \<Rightarrow> logged_event" where
  "rewound_to s t to' = \<lparr>le_seq = s, le_at = 0, le_event = Rewound t to' ScopeConversation\<rparr>"

definition pin :: "seq_no \<Rightarrow> turn_no \<Rightarrow> seq_no \<Rightarrow> nat \<Rightarrow> string \<Rightarrow> logged_event" where
  "pin s t source bytes sha = \<lparr>le_seq = s, le_at = 0, le_event = ContextRetention t source True bytes sha\<rparr>"

definition sample_meta :: message_meta where
  "sample_meta = \<lparr>tokens = token_usage_default, elapsed_ms = 0, reasoning_elapsed_ms = 0, ctx_window = 1000,
     used_tokens = 900, utilization = 1 / 2, round_no = 1, turn_id = 1, request_id = 1, provider_response_id = None,
     provider_model = None, session_id = None, finish_reason = ''stop''\<rparr>"

definition sample_key :: service_key where
  "sample_key = \<lparr>sk_type = 0, sk_name = ''a'', sk_mode = Seam, sk_title = ''A''\<rparr>"

definition sample_mounted :: "(nat, nat, nat, nat) app_root" where
  "sample_mounted =
     (let r = root_new :: (nat, nat, nat, nat) app_root in r\<lparr>fiber_table := snd (fiber_create (fiber_table r) ''row'' ''p'' 0)\<rparr>)"

definition sample_dead :: "(nat, nat) root" where
  "sample_dead = (root_new :: (nat, nat) root)\<lparr>fiber_table := fiber_table_new\<lparr>next_fiber := 2\<rparr>\<rparr>"

type_synonym sample_plugin = "(nat, (nat, nat, nat) handler, nat) plugin"

definition sample_plugin_named ::
  "string \<Rightarrow> string list \<Rightarrow> string list
     \<Rightarrow> (ctx \<Rightarrow> nat \<Rightarrow> (nat, nat, nat, nat) app_root \<Rightarrow> (string + unit) \<times> (nat, nat, nat, nat) app_root) \<Rightarrow> sample_plugin" where
  "sample_plugin_named n needs gives ap =
     \<lparr>p_name = n, p_inject = needs, p_uses = [], p_provides = gives, p_description = [], p_apply = ap\<rparr>"

text \<open>A provider of \<open>a\<close>, a consumer of \<open>a\<close>, and a plugin that provides \<open>a\<close> and then fails.\<close>

definition sample_registry :: "(nat, (nat, nat, nat) handler, nat) registry" where
  "sample_registry =
     [(''p'', sample_plugin_named ''p'' [] [''a''] (\<lambda>c config r. (Inr (), snd (ctx_provide r c sample_key 7)))),
      (''q'', sample_plugin_named ''q'' [''a''] [] (\<lambda>c config r. (Inr (), r))),
      (''b'', sample_plugin_named ''b'' [] [''a''] (\<lambda>c config r. (Inl ''no'', snd (ctx_provide r c sample_key 7))))]"

definition sample_app :: "string list \<Rightarrow> (nat, (nat, nat, nat) handler, nat) app" where
  "sample_app names = app_new (map (entry_named 0) names)"

definition sample_ok :: "(nat, nat, nat, nat) app_root \<Rightarrow> bool" where
  "sample_ok r \<longleftrightarrow> realm_inv (realms r)
     \<and> (\<forall>n ty. map_of (by_name (services r)) n = Some ty \<longrightarrow> (ty = 0 \<longleftrightarrow> n = ''a''))
     \<and> (map_of (slots (services r)) (ROOT_REALM, 0) \<noteq> None \<longrightarrow> map_of (by_name (services r)) ''a'' = Some 0)"

section \<open>The sample plugins\<close>

lemma ctx_record_tables: "services (snd (ctx_record r c u)) = services r \<and> realms (snd (ctx_record r c u)) = realms r"
  by (simp add: ctx_record_def split: option.split prod.split)

lemma offered_root:
  "realm_inv (realms r) \<Longrightarrow> offered r root_ctx n \<longleftrightarrow>
     (\<exists>ty. map_of (by_name (services r)) n = Some ty \<and> map_of (slots (services r)) (ROOT_REALM, ty) \<noteq> None)"
  by (simp add: offered_def has_service_def has_named_iff ancestry_root root_ctx_def split: option.split)

lemma sample_provide:
  assumes "sample_ok r"
  shows "sample_ok (snd (ctx_provide r (c\<lparr>ctx_realm := ROOT_REALM\<rparr>) sample_key 7))
    \<and> (\<forall>n. offered (snd (ctx_provide r (c\<lparr>ctx_realm := ROOT_REALM\<rparr>) sample_key 7)) root_ctx n \<longleftrightarrow> offered r root_ctx n \<or> n = ''a'')"
proof (cases "map_of (slots (services r)) (ROOT_REALM, 0)")
  case None
  let ?r = "snd (ctx_provide r (c\<lparr>ctx_realm := ROOT_REALM\<rparr>) sample_key 7)"
  let ?s = "\<lparr>slot_name = ''a'', slot_value = 7, slot_owner = ctx_fiber c, owner_label = ctx_label r (c\<lparr>ctx_realm := ROOT_REALM\<rparr>)\<rparr>"
  have "services ?r = (services r)\<lparr>slots := ((ROOT_REALM, 0), ?s) # slots (services r), by_name := (''a'', 0) # by_name (services r)\<rparr>"
    "realms ?r = realms r"
    using None by (simp_all add: ctx_provide_def table_provide_def sample_key_def case_prod_beta' ctx_record_tables)
  then show ?thesis using assms by (auto simp: sample_ok_def offered_root)
next
  case (Some s)
  then have "snd (ctx_provide r (c\<lparr>ctx_realm := ROOT_REALM\<rparr>) sample_key 7) = r"
    by (simp add: ctx_provide_def table_provide_def sample_key_def)
  then show ?thesis using assms Some by (auto simp: sample_ok_def offered_root)
qed

lemma sample_ok_fibers: "sample_ok (r\<lparr>fiber_table := t\<rparr>) = sample_ok r" "offered (r\<lparr>fiber_table := t\<rparr>) c n = offered r c n"
  by (simp_all add: sample_ok_def offered_def has_service_def)

lemma sample_dependable: "set names \<subseteq> {''p'', ''q''} \<Longrightarrow> dependable sample_ok sample_registry (map (entry_named 0) names)"
proof -
  assume names: "set names \<subseteq> {''p'', ''q''}"
  have c: "for_fiber root_ctx f = (for_fiber root_ctx f)\<lparr>ctx_realm := ROOT_REALM\<rparr>" for f
    by (simp add: for_fiber_def root_ctx_def)
  show ?thesis
    using names sample_provide [of _ "for_fiber root_ctx _"]
    unfolding dependable_def c [symmetric]
    by (auto simp: sample_registry_def registry_get_def sample_plugin_named_def entry_named_def sample_ok_fibers
        sample_ok_def [THEN iffD1, THEN conjunct1] c [symmetric])
qed

lemma sample_tame: "tame_registry sample_registry"
  by (auto simp: tame_registry_def sample_registry_def tame_def sample_plugin_named_def
      intro!: r_into_rtranclp act_provide)

end
