(* ===== verification/Str_Ops.thy ===== *)
theory Str_Ops
  imports Prelude
begin

text \<open>
  The operations of \<open>str\<close> that the tools of the capabilities crate call, over the UTF-8 bytes of the
  string: splitting at a separator, trimming, splitting into words, reading a decimal \<open>usize\<close>, and the
  laws of \<open>split_inclusive\<close>: the pieces are lines, they concatenate to the string, and a list of lines
  is what its concatenation splits into.
\<close>

section \<open>Separators and trimming\<close>

text \<open>\<open>s.split(c)\<close>: never empty.\<close>

fun split_char :: "char \<Rightarrow> string \<Rightarrow> string list" where
  "split_char sep [] = [[]]"
| "split_char sep (c # cs) =
     (if c = sep then [] # split_char sep cs
      else (case split_char sep cs of [] \<Rightarrow> [[c]] | p # ps \<Rightarrow> (c # p) # ps))"

text \<open>\<open>s.split_once(c)\<close>\<close>

definition split_once :: "char \<Rightarrow> string \<Rightarrow> (string \<times> string) option" where
  "split_once sep s =
     (if sep \<in> set s then Some (takeWhile (\<lambda>c. c \<noteq> sep) s, tl (dropWhile (\<lambda>c. c \<noteq> sep) s)) else None)"

text \<open>\<open>s.trim_end_matches(['\r', '\n'])\<close>\<close>

definition trim_eol :: "string \<Rightarrow> string" where
  "trim_eol s = rev (dropWhile (\<lambda>c. c = carriage_return \<or> c = newline) (rev s))"

definition ends_newline :: "string \<Rightarrow> bool" where
  "ends_newline s \<longleftrightarrow> s \<noteq> [] \<and> last s = newline"

text \<open>The characters of a string, each as its bytes.\<close>

fun char_pieces :: "string \<Rightarrow> string list" where
  "char_pieces [] = []"
| "char_pieces (c # cs) =
     (case char_pieces cs of
        p # ps \<Rightarrow> (if is_continuation (hd p) then (c # p) # ps else [c] # p # ps)
      | [] \<Rightarrow> [[c]])"

definition is_space :: "string \<Rightarrow> bool" where
  "is_space p = list_all is_whitespace (utf8_decode p)"

text \<open>\<open>s.trim()\<close> and \<open>s.split_whitespace()\<close>\<close>

definition str_trim :: "string \<Rightarrow> string" where
  "str_trim s = concat (rev (dropWhile is_space (rev (dropWhile is_space (char_pieces s)))))"

fun words_from :: "string \<Rightarrow> string list \<Rightarrow> string list" where
  "words_from w [] = (if w = [] then [] else [w])"
| "words_from w (p # ps) =
     (if is_space p then (if w = [] then words_from [] ps else w # words_from [] ps)
      else words_from (w @ p) ps)"

definition split_whitespace :: "string \<Rightarrow> string list" where
  "split_whitespace s = words_from [] (char_pieces s)"

text \<open>\<open>s.parse::<usize>()\<close>: an optional plus sign, then digits, below \<open>2 ^ 64\<close>.\<close>

definition is_digit :: "char \<Rightarrow> bool" where
  "is_digit c \<longleftrightarrow> 48 \<le> byte_of c \<and> byte_of c \<le> 57"

definition digits_value :: "string \<Rightarrow> nat" where
  "digits_value s = foldl (\<lambda>n c. 10 * n + (byte_of c - 48)) 0 s"

definition parse_usize :: "string \<Rightarrow> nat option" where
  "parse_usize s =
     (let d = (case s of c # cs \<Rightarrow> if c = CHR ''+'' then cs else s | [] \<Rightarrow> [])
      in if d \<noteq> [] \<and> list_all is_digit d \<and> digits_value d < 2 ^ 64 then Some (digits_value d) else None)"

section \<open>Laws\<close>

lemma split_char_not_Nil [simp]: "split_char sep s \<noteq> []"
  by (cases s) (auto split: list.splits)

lemma in_split_char: "p \<in> set (split_char sep s) \<Longrightarrow> sep \<notin> set p"
  by (induction s arbitrary: p) (auto split: list.splits if_splits)

text \<open>A list of lines: no piece is empty, a newline ends each but possibly the last and occurs
  nowhere else.\<close>

definition is_line :: "string \<Rightarrow> bool" where
  "is_line l \<longleftrightarrow> l \<noteq> [] \<and> newline \<notin> set (butlast l)"

fun line_list :: "string list \<Rightarrow> bool" where
  "line_list [] = True"
| "line_list [l] = is_line l"
| "line_list (l # ls) = (is_line l \<and> ends_newline l \<and> line_list ls)"

lemma line_list_Cons:
  "line_list (l # ls) \<longleftrightarrow> is_line l \<and> (ls \<noteq> [] \<longrightarrow> ends_newline l) \<and> line_list ls"
  by (cases ls) auto

lemma line_list_append:
  "line_list (xs @ ys) \<longleftrightarrow>
     line_list xs \<and> line_list ys \<and> (xs \<noteq> [] \<and> ys \<noteq> [] \<longrightarrow> ends_newline (last xs))"
proof (induction xs)
  case Nil
  then show ?case by simp
next
  case (Cons x xs)
  then show ?case by (cases xs) (auto simp: line_list_Cons)
qed

lemma concat_split_inclusive [simp]: "concat (split_inclusive_newline s) = s"
  by (induction s) (auto split: list.splits)

lemma split_inclusive_Nil [simp]: "split_inclusive_newline s = [] \<longleftrightarrow> s = []"
  by (cases s) (auto split: list.splits)

lemma line_list_split_inclusive: "line_list (split_inclusive_newline s)"
proof (induction s)
  case Nil
  then show ?case by simp
next
  case (Cons c cs)
  then show ?case
    by (auto simp: line_list_Cons is_line_def ends_newline_def split: list.splits)
qed

lemma split_inclusive_line: "is_line l \<Longrightarrow> \<not> ends_newline l \<Longrightarrow> split_inclusive_newline l = [l]"
proof (induction l)
  case Nil
  then show ?case by (simp add: is_line_def)
next
  case (Cons c cs)
  then show ?case
    by (cases cs) (auto simp: is_line_def ends_newline_def)
qed

lemma split_inclusive_terminated:
  "is_line l \<Longrightarrow> ends_newline l \<Longrightarrow> split_inclusive_newline (l @ s) = l # split_inclusive_newline s"
proof (induction l)
  case Nil
  then show ?case by (simp add: is_line_def)
next
  case (Cons c cs)
  then show ?case
    by (cases cs) (auto simp: is_line_def ends_newline_def)
qed

lemma split_inclusive_concat: "line_list ls \<Longrightarrow> split_inclusive_newline (concat ls) = ls"
proof (induction ls)
  case Nil
  then show ?case by simp
next
  case (Cons l ls)
  show ?case
  proof (cases "ends_newline l")
    case True
    then show ?thesis using Cons by (simp add: line_list_Cons split_inclusive_terminated)
  next
    case False
    then have "ls = []" using Cons.prems by (auto simp: line_list_Cons)
    then show ?thesis using Cons.prems False by (simp add: split_inclusive_line)
  qed
qed

end
