(* ===== verification/Patch_Laws.thy ===== *)
theory Patch_Laws
  imports Unified_Patch
begin

text \<open>
  What a parsed patch guarantees, what applying it means, and that it can be taken back.
\<close>

section \<open>What the parser guarantees\<close>

text \<open>
  The lines of a hunk hold no newline but at their end, only the last of a side may lack one, and a
  side that has lines starts at line one or later, so that \<open>old - 1\<close> and \<open>new - 1\<close> do not underflow.
\<close>

definition single_line :: "string \<Rightarrow> bool" where
  "single_line l \<longleftrightarrow> newline \<notin> set (butlast l)"

definition side_wf :: "string list \<Rightarrow> nat \<Rightarrow> bool" where
  "side_wf ls start \<longleftrightarrow>
     list_all single_line ls \<and> \<not> early_unterminated ls \<and> (ls \<noteq> [] \<longrightarrow> 0 < start)"

definition hunk_wf :: "hunk \<Rightarrow> bool" where
  "hunk_wf h \<longleftrightarrow> side_wf (h_before h) (h_old h) \<and> side_wf (h_after h) (h_new h)"

definition patch_wf :: "file_patch \<Rightarrow> bool" where
  "patch_wf f \<longleftrightarrow> \<not> unsafe_path (fp_path f) \<and> fp_hunks f \<noteq> [] \<and> length (fp_hunks f) \<le> 20000
     \<and> list_all hunk_wf (fp_hunks f)"

lemma single_line_butlast: "single_line l \<Longrightarrow> single_line (butlast l)"
  by (auto simp: single_line_def dest: in_set_butlastD)

lemma single_line_tl: "single_line (c # l) \<Longrightarrow> single_line l"
  by (cases l) (auto simp: single_line_def)

lemma single_line_split: "list_all single_line (split_inclusive_newline s)"
proof -
  have "line_list ls \<Longrightarrow> list_all single_line ls" for ls
    by (induction ls) (auto simp: line_list_Cons is_line_def single_line_def)
  then show ?thesis using line_list_split_inclusive by blast
qed

lemma drop_last_newline_single:
  assumes "drop_last_newline ls = Inr ls'" "list_all single_line ls"
  shows "list_all single_line ls'"
proof -
  have "ls \<noteq> []" and ls': "ls' = butlast ls @ [butlast (last ls)]"
    using assms(1) by (auto simp: drop_last_newline_def split: if_splits)
  have "list_all single_line (butlast ls @ [last ls])"
    using assms(2) \<open>ls \<noteq> []\<close> by simp
  then show ?thesis by (simp add: ls' single_line_butlast)
qed

lemma hunk_body_single:
  assumes "hunk_body path old oc nc b a t lines = Inr (b', a', rest)"
    and "list_all single_line lines" "list_all single_line b" "list_all single_line a"
  shows "list_all single_line b' \<and> list_all single_line a' \<and> list_all single_line rest"
  using assms
proof (induction path old oc nc b a t lines rule: hunk_body.induct)
  case (1 path old oc nc b a t)
  then show ?case by simp
next
  case (2 path old oc nc b a t line lines)
  show ?case
  proof (cases "trim_eol line = NO_NEWLINE")
    case True
    then obtain tag b1 a1 where t: "t = Some tag"
      and B: "(if tag \<noteq> CHR ''+'' then drop_last_newline b else Inr b) = Inr b1"
      and A: "(if tag \<noteq> CHR ''-'' then drop_last_newline a else Inr a) = Inr a1"
      and rec: "hunk_body path old oc nc b1 a1 None lines = Inr (b', a', rest)"
      using "2.prems"(1) by (auto split: option.splits sum.splits)
    have "list_all single_line b1"
      using B "2.prems"(3) by (cases "tag = CHR ''+''") (auto dest: drop_last_newline_single)
    moreover have "list_all single_line a1"
      using A "2.prems"(4) by (cases "tag = CHR ''-''") (auto dest: drop_last_newline_single)
    moreover have "list_all single_line lines" using "2.prems"(2) by simp
    ultimately show ?thesis using "2.IH"(1) [OF True t B A rec] by blast
  next
    case marker: False
    show ?thesis
    proof (cases "length b = oc \<and> length a = nc")
      case True
      with marker 2 show ?thesis by auto
    next
      case False
      let ?b = "\<lambda>tag body. if tag \<noteq> CHR ''+'' then b @ [body] else b"
      let ?a = "\<lambda>tag body. if tag \<noteq> CHR ''-'' then a @ [body] else a"
      obtain tag body where l: "line = tag # body"
        and tag: "\<not> tag \<notin> {CHR '' '', CHR ''-'', CHR ''+''}" and nl: "\<not> \<not> ends_newline body"
        and fits: "\<not> (length (?b tag body) > oc \<or> length (?a tag body) > nc)"
        and rec: "hunk_body path old oc nc (?b tag body) (?a tag body) (Some tag) lines = Inr (b', a', rest)"
        using "2.prems"(1) marker False
        by (cases line) (simp_all add: Let_def del: not_not split: if_split_asm)
      have "single_line body" using "2.prems"(2) l by (auto dest: single_line_tl)
      then have "list_all single_line (?b tag body)" "list_all single_line (?a tag body)"
        using "2.prems"(3,4) by auto
      moreover have "list_all single_line lines" using "2.prems"(2) by simp
      ultimately show ?thesis
        using "2.IH"(2) [OF marker False l tag nl refl refl fits rec] by blast
    qed
  qed
qed

lemma hunk_range_start: "hunk_range v sign = Inr (start, n) \<Longrightarrow> 0 < n \<Longrightarrow> 0 < start"
  by (auto simp: hunk_range_def split: option.splits prod.splits if_splits)

lemma parse_hunk_wf:
  assumes "parse_hunk path n header lines = Inr (h, rest)" "list_all single_line lines"
  shows "hunk_wf h \<and> list_all single_line rest"
  using hunk_body_single [OF parse_hunk_Inr(1) [OF assms(1)] assms(2)] parse_hunk_Inr(4,5) [OF assms(1)]
    hunk_range_start [OF parse_hunk_Inr(2) [OF assms(1)]]
    hunk_range_start [OF parse_hunk_Inr(3) [OF assms(1)]]
  by (simp add: hunk_wf_def side_wf_def)

lemma parse_hunk_bound: "parse_hunk path n header lines = Inr (h, rest) \<Longrightarrow> n < 20000"
  by (auto simp: parse_hunk_def Let_def split: if_splits sum.splits)

lemma parse_hunks_wf:
  "parse_hunks path hs lines = Inr (hs', rest) \<Longrightarrow> list_all single_line lines \<Longrightarrow> list_all hunk_wf hs
     \<Longrightarrow> length hs \<le> 20000
     \<Longrightarrow> list_all hunk_wf hs' \<and> length hs' \<le> 20000 \<and> list_all single_line rest"
proof (induction path hs lines rule: parse_hunks.induct)
  case (1 path hunks)
  then show ?case by simp
next
  case (2 path hs line lines)
  show ?case
  proof (cases "prefix ''@@ '' line")
    case True
    then obtain h rest' where h: "parse_hunk path (length hs) line lines = Inr (h, rest')"
      and "parse_hunks path (hs @ [h]) rest' = Inr (hs', rest)"
      using "2.prems"(1) by (auto split: sum.splits)
    then show ?thesis
      using "2.IH" [OF True h refl] "2.prems" parse_hunk_wf [OF h] parse_hunk_bound [OF h] by auto
  next
    case False
    then show ?thesis using "2.prems" by auto
  qed
qed

lemma patch_path_safe: "patch_path header pre = Inr v \<Longrightarrow> \<not> unsafe_path v"
  by (auto simp: patch_path_def Let_def split: option.splits if_splits)

lemma parse_file_Inr:
  assumes "parse_file seen n header lines = Inr (f, rest)"
  shows "\<exists>line tail. lines = line # tail \<and> patch_path header ''--- '' = Inr (fp_path f)
    \<and> fp_path f \<notin> set seen \<and> n < 256 \<and> fp_hunks f \<noteq> []
    \<and> parse_hunks (fp_path f) [] tail = Inr (fp_hunks f, rest)"
  using assms unfolding parse_file_def by (auto split: sum.splits list.splits if_split_asm)

lemma parse_file_wf:
  assumes "parse_file seen n header lines = Inr (f, rest)" "list_all single_line lines"
  shows "patch_wf f \<and> fp_path f \<notin> set seen \<and> n < 256 \<and> list_all single_line rest"
proof -
  obtain line tail where l: "lines = line # tail"
    and p: "patch_path header ''--- '' = Inr (fp_path f)" "fp_path f \<notin> set seen" "n < 256" "fp_hunks f \<noteq> []"
    and h: "parse_hunks (fp_path f) [] tail = Inr (fp_hunks f, rest)"
    using parse_file_Inr [OF assms(1)] by blast
  then show ?thesis
    using parse_hunks_wf [OF h] patch_path_safe [OF p(1)] assms(2) by (simp add: patch_wf_def)
qed

lemma parse_files_wf:
  "parse_files fs lines = Inr fs' \<Longrightarrow> list_all single_line lines \<Longrightarrow> list_all patch_wf fs
     \<Longrightarrow> distinct (map fp_path fs) \<Longrightarrow> length fs \<le> 256
     \<Longrightarrow> list_all patch_wf fs' \<and> distinct (map fp_path fs') \<and> length fs' \<le> 256"
proof (induction fs lines rule: parse_files.induct)
  case (1 files)
  then show ?case by simp
next
  case (2 fs line lines)
  show ?case
  proof (cases "prefix ''diff --git '' line \<or> prefix ''index '' line")
    case True
    then show ?thesis using 2 by auto
  next
    case False
    then obtain f rest where f: "parse_file (map fp_path fs) (length fs) line lines = Inr (f, rest)"
      and "parse_files (fs @ [f]) rest = Inr fs'"
      using "2.prems"(1) by (auto split: sum.splits)
    then show ?thesis
      using "2.IH"(2) [OF False f refl] "2.prems" parse_file_wf [OF f] by auto
  qed
qed

lemma parse_patch_wf:
  assumes "parse_patch source = Inr fs"
  shows "list_all patch_wf fs \<and> distinct (map fp_path fs) \<and> fs \<noteq> [] \<and> length fs \<le> 256"
  using assms parse_files_wf [of "[]" "split_inclusive_newline source"] single_line_split [of source]
  by (auto simp: parse_patch_def split: sum.splits if_splits)

subsection \<open>Paths stay below the root\<close>

text \<open>Lexical resolution of the components of a path against a directory.\<close>

fun resolve_parts :: "string list \<Rightarrow> string list \<Rightarrow> string list" where
  "resolve_parts dir [] = dir"
| "resolve_parts dir (p # ps) =
     resolve_parts (if p = [] \<or> p = ''.'' then dir else if p = ''..'' then butlast dir else dir @ [p]) ps"

lemma resolve_parts_plain:
  "list_all (\<lambda>p. \<not> forbidden_part p) ps \<Longrightarrow> resolve_parts dir ps = dir @ ps"
  by (induction ps arbitrary: dir) (auto simp: forbidden_part_def)

lemma safe_path_confined:
  "\<not> unsafe_path v \<Longrightarrow>
     resolve_parts dir (split_char (CHR ''/'') v) = dir @ split_char (CHR ''/'') v
     \<and> (\<forall>p\<in>set (split_char (CHR ''/'') v). to_ascii_lowercase p \<noteq> ''.git'')"
proof -
  assume "\<not> unsafe_path v"
  then have "\<not> list_ex forbidden_part (split_char (CHR ''/'') v)" by (simp add: unsafe_path_def)
  then have *: "list_all (\<lambda>p. \<not> forbidden_part p) (split_char (CHR ''/'') v)"
    unfolding list_ex_iff list_all_iff by blast
  then have "\<forall>p\<in>set (split_char (CHR ''/'') v). to_ascii_lowercase p \<noteq> ''.git''"
    unfolding list_all_iff forbidden_part_def by blast
  with resolve_parts_plain [OF *] show ?thesis by blast
qed

section \<open>What applying means\<close>

text \<open>
  \<open>patched hs i j s t\<close>: from line \<open>i\<close> of the source and line \<open>j\<close> of the result on, \<open>t\<close> is \<open>s\<close> with each
  hunk's lines exchanged where its header says and nothing else changed.
\<close>

fun patched :: "hunk list \<Rightarrow> nat \<Rightarrow> nat \<Rightarrow> string list \<Rightarrow> string list \<Rightarrow> bool" where
  "patched [] i j s t \<longleftrightarrow> s = t"
| "patched (h # hs) i j s t \<longleftrightarrow>
     (\<exists>gap s' t'. s = gap @ h_before h @ s' \<and> t = gap @ h_after h @ t'
        \<and> old_start h = i + length gap \<and> new_start h = j + length gap
        \<and> patched hs (old_start h + length (h_before h)) (new_start h + length (h_after h)) s' t')"

fun markers_final :: "nat \<Rightarrow> hunk list \<Rightarrow> bool" where
  "markers_final n [] = True"
| "markers_final n (h # hs) =
     ((unterminated_end (h_after h) \<longrightarrow> hs = [] \<and> old_start h + length (h_before h) = n)
      \<and> markers_final n hs)"

lemma take_drop_split:
  assumes "c \<le> i" "i \<le> length xs" "n \<le> length xs - i" "take n (drop i xs) = b"
  shows "drop c xs = take (i - c) (drop c xs) @ b @ drop (i + n) xs"
proof -
  have "drop c xs = take (i - c) (drop c xs) @ drop (i - c) (drop c xs)"
    by (simp only: append_take_drop_id)
  also have "drop (i - c) (drop c xs) = drop i xs" using assms(1) by (simp add: drop_drop)
  also have "drop i xs = take n (drop i xs) @ drop n (drop i xs)"
    by (simp only: append_take_drop_id)
  also have "drop n (drop i xs) = drop (i + n) xs" by (simp add: add.commute)
  finally show ?thesis using assms(4) by simp
qed

lemma drop_eq_split:
  assumes "drop c xs = gap @ b @ s'" "c \<le> length xs"
  shows "take (length gap) (drop c xs) = gap" and "drop (c + length gap + length b) xs = s'"
    and "take (length b) (drop (c + length gap) xs) = b"
    and "c + length gap + length b \<le> length xs"
proof -
  show "take (length gap) (drop c xs) = gap" by (simp add: assms(1))
  have d: "drop (c + length gap) xs = b @ s'"
    using arg_cong [OF assms(1), of "drop (length gap)"] by (simp add: add.commute)
  show "take (length b) (drop (c + length gap) xs) = b" by (simp add: d)
  show "drop (c + length gap + length b) xs = s'"
    using arg_cong [OF d, of "drop (length b)"] by (simp add: add.commute)
  show "c + length gap + length b \<le> length xs"
    using arg_cong [OF assms(1), of length] assms(2) by simp
qed

lemma apply_hunks_exact:
  "cursor \<le> length lines \<Longrightarrow>
     apply_hunks path lines index cursor out m hs = Inr r \<longleftrightarrow>
     markers_final (length lines) hs
     \<and> (\<exists>t. patched hs cursor m (drop cursor lines) t \<and> r = out @ concat t)"
proof (induction hs arbitrary: index cursor out m)
  case Nil
  then show ?case by auto
next
  case (Cons h hs)
  let ?i = "old_start h" and ?n = "length (h_before h)"
  show ?case
  proof (cases "cursor \<le> ?i \<and> ?i \<le> length lines \<and> ?n \<le> length lines - ?i
      \<and> take ?n (drop ?i lines) = h_before h")
    case False
    have "\<not> patched (h # hs) cursor m (drop cursor lines) t" for t
    proof
      assume "patched (h # hs) cursor m (drop cursor lines) t"
      then obtain gap s' where s: "drop cursor lines = gap @ h_before h @ s'"
        and i: "?i = cursor + length gap"
        by auto
      show False using drop_eq_split [OF s Cons.prems] False i by auto
    qed
    then show ?thesis using False by (auto simp: Let_def not_le)
  next
    case True
    let ?gap = "take (?i - cursor) (drop cursor lines)"
    have split: "drop cursor lines = ?gap @ h_before h @ drop (?i + ?n) lines"
      using True by (intro take_drop_split) auto
    have "length lines - cursor \<ge> ?i - cursor" using True by (intro diff_le_mono) blast
    then have len: "length ?gap = ?i - cursor" by simp
    have fits: "?i + ?n \<le> length lines" using True by linarith
    have P: "patched (h # hs) cursor m (drop cursor lines) t \<longleftrightarrow>
        m + (?i - cursor) = new_start h \<and>
        (\<exists>t'. t = ?gap @ h_after h @ t' \<and>
              patched hs (?i + ?n) (new_start h + length (h_after h)) (drop (?i + ?n) lines) t')" for t
    proof
      assume "patched (h # hs) cursor m (drop cursor lines) t"
      then obtain gap s' t' where s: "drop cursor lines = gap @ h_before h @ s'"
        and t: "t = gap @ h_after h @ t'" and i: "?i = cursor + length gap"
        and j: "new_start h = m + length gap"
        and rest: "patched hs (?i + ?n) (new_start h + length (h_after h)) s' t'"
        by auto
      note D = drop_eq_split [OF s Cons.prems]
      have gap: "?gap = gap" using D(1) i by simp
      have s': "s' = drop (?i + ?n) lines" using D(2) i by simp
      have pos: "m + (?i - cursor) = new_start h" using i j by simp
      have t_eq: "t = ?gap @ h_after h @ t'" by (simp only: t gap)
      show "m + (?i - cursor) = new_start h \<and> (\<exists>t'. t = ?gap @ h_after h @ t' \<and>
              patched hs (?i + ?n) (new_start h + length (h_after h)) (drop (?i + ?n) lines) t')"
        using pos t_eq rest s' by blast
    next
      assume A: "m + (?i - cursor) = new_start h \<and> (\<exists>t'. t = ?gap @ h_after h @ t' \<and>
              patched hs (?i + ?n) (new_start h + length (h_after h)) (drop (?i + ?n) lines) t')"
      then obtain t' where t: "t = ?gap @ h_after h @ t'"
        and rest: "patched hs (?i + ?n) (new_start h + length (h_after h)) (drop (?i + ?n) lines) t'"
        by blast
      have i: "?i = cursor + length ?gap" using len True by simp
      have j: "new_start h = m + length ?gap" using A len by simp
      show "patched (h # hs) cursor m (drop cursor lines) t"
        unfolding patched.simps using split t i j rest by blast
    qed
    show ?thesis
      using True fits unfolding P markers_final.simps apply_hunks.simps Let_def
      by (auto simp: Cons.IH)
  qed
qed

lemma apply_patch_exact:
  "apply_patch_to f s = Inr r \<longleftrightarrow>
     markers_final (length (split_inclusive_newline s)) (fp_hunks f)
     \<and> (\<exists>t. patched (fp_hunks f) 0 0 (split_inclusive_newline s) t \<and> r = concat t)"
  by (simp add: apply_patch_to_def apply_hunks_exact)

section \<open>Taking a patch back\<close>

definition flip_hunk :: "hunk \<Rightarrow> hunk" where
  "flip_hunk h = \<lparr>h_old = h_new h, h_new = h_old h, h_before = h_after h, h_after = h_before h\<rparr>"

definition flip_patch :: "file_patch \<Rightarrow> file_patch" where
  "flip_patch f = f\<lparr>fp_hunks := map flip_hunk (fp_hunks f)\<rparr>"

lemma flip_hunk_simps [simp]:
  "h_before (flip_hunk h) = h_after h" "h_after (flip_hunk h) = h_before h"
  "old_start (flip_hunk h) = new_start h" "new_start (flip_hunk h) = old_start h"
  by (simp_all add: flip_hunk_def old_start_def new_start_def)

lemma patched_flip: "patched (map flip_hunk hs) j i t s \<longleftrightarrow> patched hs i j s t"
proof (induction hs arbitrary: i j s t)
  case Nil
  then show ?case by auto
next
  case (Cons h hs)
  show ?case unfolding list.map patched.simps flip_hunk_simps Cons.IH by blast
qed

lemma patched_before:
  "patched hs i j s t \<Longrightarrow> h \<in> set hs \<Longrightarrow> set (h_before h) \<subseteq> set s"
  by (induction hs i j s t rule: patched.induct) fastforce+

lemma markers_final_terminated:
  "\<forall>h\<in>set hs. \<not> unterminated_end (h_after h) \<Longrightarrow> markers_final n hs"
  by (induction hs) auto

text \<open>A side without empty lines is a list of lines.\<close>

lemma side_line_list:
  assumes "side_wf ls start" "[] \<notin> set ls"
  shows "line_list ls"
  using assms
proof (induction ls)
  case Nil
  then show ?case by simp
next
  case (Cons l ls)
  have "line_list ls"
  proof (cases "ls = []")
    case False
    then have "take (length ls) (l # ls) = l # take (length ls - 1) ls" by (cases ls) auto
    then have "\<not> early_unterminated ls"
      using Cons.prems(1) False by (auto simp: side_wf_def early_unterminated_def)
    then show ?thesis using Cons by (auto simp: side_wf_def)
  qed simp
  moreover have "ls \<noteq> [] \<longrightarrow> ends_newline l"
    using Cons.prems(1) by (cases ls) (auto simp: side_wf_def early_unterminated_def)
  ultimately show ?case
    using Cons.prems by (auto simp: line_list_Cons is_line_def side_wf_def single_line_def)
qed

lemma patched_line_list:
  assumes "patched hs i j s t" "line_list s" "list_all ends_newline s"
    and "list_all hunk_wf hs" "\<forall>h\<in>set hs. [] \<notin> set (h_after h)"
    and "markers_final (i + length s) hs"
  shows "line_list t"
  using assms
proof (induction hs i j s t rule: patched.induct)
  case (1 i j s t)
  then show ?case by simp
next
  case (2 h hs i j s t)
  then obtain gap s' t' where s: "s = gap @ h_before h @ s'" and t: "t = gap @ h_after h @ t'"
    and i: "old_start h = i + length gap"
    and rest: "patched hs (old_start h + length (h_before h)) (new_start h + length (h_after h)) s' t'"
    by auto
  have n: "i + length s = old_start h + length (h_before h) + length s'"
    using s i by simp
  have s': "line_list s'" "list_all ends_newline s'" using 2 s by (auto simp: line_list_append)
  have t': "line_list t'"
    using "2.IH" [OF rest s'] "2.prems"(4,5,6) n by simp
  have a: "line_list (h_after h)"
    using "2.prems"(4,5) by (auto simp: hunk_wf_def intro: side_line_list)
  have end_after: "t' \<noteq> [] \<longrightarrow> \<not> unterminated_end (h_after h)"
  proof (intro impI notI)
    assume "t' \<noteq> []" and "unterminated_end (h_after h)"
    then have "hs = []" "s' = []" using "2.prems"(6) n by auto
    then show False using rest \<open>t' \<noteq> []\<close> by simp
  qed
  have gap: "line_list gap" "list_all ends_newline gap"
    using "2.prems"(2,3) s by (auto simp: line_list_append)
  then have "gap \<noteq> [] \<longrightarrow> ends_newline (last gap)" by (auto simp: list_all_iff)
  then show ?case
    using t gap(1) a t' end_after by (auto simp: line_list_append unterminated_end_def)
qed

lemma terminated_lines:
  assumes "s = [] \<or> last s = newline"
  shows "list_all ends_newline (split_inclusive_newline s)"
proof -
  have L: "line_list ls \<Longrightarrow> concat ls = [] \<or> last (concat ls) = newline \<Longrightarrow> list_all ends_newline ls" for ls
  proof (induction ls)
    case Nil
    then show ?case by simp
  next
    case (Cons l ls)
    then show ?case
      by (cases ls) (auto simp: line_list_Cons is_line_def ends_newline_def)
  qed
  show ?thesis using L [OF line_list_split_inclusive] assms by simp
qed

lemma apply_flip:
  assumes f: "patch_wf f" and ne: "\<forall>h\<in>set (fp_hunks f). [] \<notin> set (h_after h)"
    and s: "s = [] \<or> last s = newline" and r: "apply_patch_to f s = Inr r"
  shows "apply_patch_to (flip_patch f) r = Inr s"
proof -
  obtain t where t: "patched (fp_hunks f) 0 0 (split_inclusive_newline s) t" and rt: "r = concat t"
    and m: "markers_final (length (split_inclusive_newline s)) (fp_hunks f)"
    using r by (auto simp: apply_patch_exact)
  have "line_list t"
    using patched_line_list [OF t line_list_split_inclusive terminated_lines [OF s] _ ne] f m
    by (simp add: patch_wf_def)
  then have lines: "split_inclusive_newline r = t" by (simp add: rt split_inclusive_concat)
  have "\<not> unterminated_end (h_before h)" if "h \<in> set (fp_hunks f)" for h
    using patched_before [OF t that] terminated_lines [OF s] last_in_set [of "h_before h"]
    unfolding unterminated_end_def list_all_iff by blast
  then have "markers_final (length t) (map flip_hunk (fp_hunks f))"
    by (intro markers_final_terminated) auto
  then show ?thesis
    using t by (auto simp: apply_patch_exact flip_patch_def lines patched_flip)
qed

end
