(* ===== verification/Apply_Patch.thy ===== *)
theory Apply_Patch
  imports Patch_Laws
begin

text \<open>
  Importing a patch and applying it to several files (\<open>capabilities/src/tools/apply_patch.rs\<close>).

  The tools act on a \<open>FileSystem\<close>, a trait object in the code and a record of operations here. Each
  operation takes the state of the world and returns its result with the new state, so that a failing
  read, a torn write or a cancellation between two steps is a value. \<open>disk_ops\<close> is a local disk
  (\<open>LocalFs\<close> of \<open>world.rs\<close>) whose operations go wrong in any way a script says. Paths are lists of
  components, as \<open>PathBuf\<close> compares them. A file's bytes are a string.
\<close>

section \<open>Worlds\<close>

type_synonym path = "string list"

datatype outcome = Fine | Fails string | Leaves string "string option"

record 'w fs_ops =
  read_op :: "path \<Rightarrow> 'w \<Rightarrow> (string + string) \<times> 'w"
  write_op :: "path \<Rightarrow> string \<Rightarrow> 'w \<Rightarrow> (string + unit) \<times> 'w"
  canon_op :: "path \<Rightarrow> 'w \<Rightarrow> (string + path) \<times> 'w"
  info_op :: "path \<Rightarrow> 'w \<Rightarrow> (string + nat) \<times> 'w"
  cancel_op :: "'w \<Rightarrow> bool \<times> 'w"

text \<open>
  A disk: the files, where each existing path really lies (its links resolved), and what the next
  operations will meet. \<open>Leaves b\<close> is a write that leaves \<open>b\<close> in the file, and reports success or an
  error. For the cancellation token anything but \<open>Fine\<close> is a request to stop.
\<close>

record disk =
  files :: "path \<Rightarrow> string option"
  links :: "path \<Rightarrow> path option"
  script :: "outcome list"

definition next_outcome :: "disk \<Rightarrow> outcome \<times> disk" where
  "next_outcome d = (case script d of [] \<Rightarrow> (Fine, d) | x # xs \<Rightarrow> (x, d\<lparr>script := xs\<rparr>))"

definition disk_read :: "path \<Rightarrow> disk \<Rightarrow> (string + string) \<times> disk" where
  "disk_read p d =
     (case next_outcome d of
        (Fails e, d) \<Rightarrow> (Inl e, d)
      | (_, d) \<Rightarrow> (case files d p of Some b \<Rightarrow> (Inr b, d) | None \<Rightarrow> (Inl ''does not exist'', d)))"

definition disk_write :: "path \<Rightarrow> string \<Rightarrow> disk \<Rightarrow> (string + unit) \<times> disk" where
  "disk_write p b d =
     (case next_outcome d of
        (Fine, d) \<Rightarrow> (Inr (), d\<lparr>files := (files d)(p \<mapsto> b)\<rparr>)
      | (Fails e, d) \<Rightarrow> (Inl e, d)
      | (Leaves c r, d) \<Rightarrow>
          (case r of None \<Rightarrow> Inr () | Some e \<Rightarrow> Inl e, d\<lparr>files := (files d)(p \<mapsto> c)\<rparr>))"

definition disk_canonicalize :: "path \<Rightarrow> disk \<Rightarrow> (string + path) \<times> disk" where
  "disk_canonicalize p d =
     (case next_outcome d of
        (Fails e, d) \<Rightarrow> (Inl e, d)
      | (_, d) \<Rightarrow> (case links d p of Some q \<Rightarrow> (Inr q, d) | None \<Rightarrow> (Inl ''does not exist'', d)))"

definition disk_info :: "path \<Rightarrow> disk \<Rightarrow> (string + nat) \<times> disk" where
  "disk_info p d =
     (case next_outcome d of
        (Fails e, d) \<Rightarrow> (Inl e, d)
      | (_, d) \<Rightarrow> (case files d p of Some b \<Rightarrow> (Inr (length b), d) | None \<Rightarrow> (Inr 0, d)))"

definition disk_cancelled :: "disk \<Rightarrow> bool \<times> disk" where
  "disk_cancelled d = (case next_outcome d of (x, d) \<Rightarrow> (x \<noteq> Fine, d))"

definition disk_ops :: "disk fs_ops" where
  "disk_ops = \<lparr>read_op = disk_read, write_op = disk_write, canon_op = disk_canonicalize,
     info_op = disk_info, cancel_op = disk_cancelled\<rparr>"

section \<open>Errors and sequencing\<close>

datatype apply_error =
    Fs_Error string
  | Store_Error string
  | Cancelled_Early
  | Too_Big
  | Binary_Content
  | Not_Utf8
  | Bad_Patch patch_error
  | Path_Escape string
  | Sensitive_Target string
  | Images_Too_Big
  | Different_Workspace
  | Manifest_Mismatch
  | Invalid_Plan
  | Plan_Mismatch
  | Duplicate_Canonical
  | Changed_Before_Write
  | Verification_Failed
  | Conflict "patch_error option list" "string list" "string list"
  | Failed string apply_error "string list" "string list" "string list"

type_synonym ('w, 'a) act = "'w \<Rightarrow> (apply_error + 'a) \<times> 'w"

text \<open>The question mark operator between two actions, and the ends of a chain.\<close>

definition and_then :: "('w, 'a) act \<Rightarrow> ('a \<Rightarrow> ('w, 'b) act) \<Rightarrow> ('w, 'b) act" where
  "and_then m f w = (case m w of (Inl e, w) \<Rightarrow> (Inl e, w) | (Inr x, w) \<Rightarrow> f x w)"

definition give :: "'a \<Rightarrow> ('w, 'a) act" where
  "give x w = (Inr x, w)"

definition throw :: "apply_error \<Rightarrow> ('w, 'a) act" where
  "throw e w = (Inl e, w)"

definition lift_fs :: "('w \<Rightarrow> (string + 'a) \<times> 'w) \<Rightarrow> ('w, 'a) act" where
  "lift_fs m w = (case m w of (Inl e, w) \<Rightarrow> (Inl (Fs_Error e), w) | (Inr x, w) \<Rightarrow> (Inr x, w))"

definition lift_patch :: "patch_error + 'a \<Rightarrow> ('w, 'a) act" where
  "lift_patch r w = (case r of Inl e \<Rightarrow> (Inl (Bad_Patch e), w) | Inr x \<Rightarrow> (Inr x, w))"

section \<open>Records and paths\<close>

record target =
  t_path :: string
  t_before :: string
  t_after :: string

record artifact =
  r_version :: nat
  r_root :: path
  r_patch :: string
  r_targets :: "target list"

text \<open>\<open>PathBuf::join\<close> on components: an absolute path replaces, \<open>.\<close> and empty parts vanish.\<close>

definition parts_of :: "string \<Rightarrow> path" where
  "parts_of s = filter (\<lambda>p. p \<noteq> [] \<and> p \<noteq> ''.'') (split_char (CHR ''/'') s)"

definition join_path :: "path \<Rightarrow> string \<Rightarrow> path" where
  "join_path dir s = (if prefix ''/'' s then parts_of s else dir @ parts_of s)"

definition target_path :: "'w fs_ops \<Rightarrow> path \<Rightarrow> string \<Rightarrow> ('w, path) act" where
  "target_path fs dir rel =
     (let p = join_path dir rel in
      and_then (lift_fs (canon_op fs p)) (\<lambda>canonical.
        if canonical \<noteq> p \<or> \<not> prefix dir canonical then throw (Path_Escape rel) else give p))"

definition cancelled :: "'w fs_ops \<Rightarrow> ('w, unit) act" where
  "cancelled fs w = (case cancel_op fs w of (c, w) \<Rightarrow> (if c then Inl Cancelled_Early else Inr (), w))"

text \<open>\<open>std::str::from_utf8\<close>: well-formed UTF-8.\<close>

definition cont :: "nat \<Rightarrow> bool" where
  "cont b \<longleftrightarrow> 128 \<le> b \<and> b < 192"

fun utf8_bytes :: "nat list \<Rightarrow> bool" where
  "utf8_bytes [] = True"
| "utf8_bytes (a # s) =
     (if a < 128 then utf8_bytes s
      else if 194 \<le> a \<and> a < 224 then
        (case s of b # s' \<Rightarrow> cont b \<and> utf8_bytes s' | _ \<Rightarrow> False)
      else if 224 \<le> a \<and> a < 240 then
        (case s of b # c # s' \<Rightarrow>
             cont b \<and> cont c \<and> (a = 224 \<longrightarrow> 160 \<le> b) \<and> (a = 237 \<longrightarrow> b < 160) \<and> utf8_bytes s'
         | _ \<Rightarrow> False)
      else if 240 \<le> a \<and> a < 245 then
        (case s of b # c # d # s' \<Rightarrow>
             cont b \<and> cont c \<and> cont d \<and> (a = 240 \<longrightarrow> 144 \<le> b) \<and> (a = 244 \<longrightarrow> b < 144) \<and> utf8_bytes s'
         | _ \<Rightarrow> False)
      else False)"

definition from_utf8 :: "string \<Rightarrow> ('w, string) act" where
  "from_utf8 s = (if utf8_bytes (map byte_of s) then give s else throw Not_Utf8)"

section \<open>Importing\<close>

definition MIB :: nat where
  "MIB = 1024 * 1024"

text \<open>
  One target: where it lies, that it may be captured, its bytes, and what the patch makes of them.
  \<open>sensitive\<close> answers for \<open>SensitivePaths::references_in\<close>.
\<close>

definition import_target ::
  "'w fs_ops \<Rightarrow> (string \<Rightarrow> bool) \<Rightarrow> path \<Rightarrow> nat \<Rightarrow> file_patch \<Rightarrow> ('w, target \<times> nat) act" where
  "import_target fs sensitive dir so_far f =
     and_then (cancelled fs) (\<lambda>_.
     and_then (target_path fs dir (fp_path f)) (\<lambda>p.
     if sensitive (fp_path f) then throw (Sensitive_Target (fp_path f))
     else
       and_then (lift_fs (info_op fs p)) (\<lambda>len.
       if len > 8 * MIB then throw Too_Big
       else
         and_then (lift_fs (read_op fs p)) (\<lambda>before.
         if CHR 0x00 \<in> set before then throw Binary_Content
         else
           and_then (from_utf8 before) (\<lambda>text'.
           and_then (lift_patch (apply_patch_to f text')) (\<lambda>after.
           let so_far = so_far + length before + length after in
           if so_far > 16 * MIB then throw Images_Too_Big
           else give (\<lparr>t_path = fp_path f, t_before = before, t_after = after\<rparr>, so_far)))))))"

fun import_targets ::
  "'w fs_ops \<Rightarrow> (string \<Rightarrow> bool) \<Rightarrow> path \<Rightarrow> nat \<Rightarrow> file_patch list \<Rightarrow> ('w, target list) act" where
  "import_targets fs sensitive dir so_far [] = give []"
| "import_targets fs sensitive dir so_far (f # fs') =
     and_then (import_target fs sensitive dir so_far f) (\<lambda>(t, so_far).
     and_then (import_targets fs sensitive dir so_far fs') (\<lambda>ts. give (t # ts)))"

text \<open>
  \<open>import_bytes\<close> up to storing the record: \<open>encode\<close> is its JSON form, whose length is bounded, and \<open>store\<close>
  the artifact store if the session has one; it answers with the id.
\<close>

definition import_bytes ::
  "'w fs_ops \<Rightarrow> (string \<Rightarrow> bool) \<Rightarrow> (artifact \<Rightarrow> string) \<Rightarrow> (string \<Rightarrow> string + string) option \<Rightarrow> path \<Rightarrow> string
     \<Rightarrow> ('w, string \<times> artifact) act" where
  "import_bytes fs sensitive encode store cwd bytes =
     and_then (case store of None \<Rightarrow> throw (Store_Error ''unavailable'') | Some put \<Rightarrow> give put) (\<lambda>put.
     and_then (cancelled fs) (\<lambda>_.
     if length bytes > 8 * MIB then throw Too_Big
     else if CHR 0x00 \<in> set bytes then throw Binary_Content
     else
       and_then (from_utf8 bytes) (\<lambda>patch.
       and_then (lift_patch (parse_patch patch)) (\<lambda>parsed.
       if length parsed > 256 then throw Too_Big
       else
         and_then (lift_fs (canon_op fs cwd)) (\<lambda>dir.
         and_then (import_targets fs sensitive dir 0 parsed) (\<lambda>targets.
         let r = \<lparr>r_version = 1, r_root = dir, r_patch = bytes, r_targets = targets\<rparr> in
         if length (encode r) > 64 * MIB then throw Too_Big
         else (case put (encode r) of Inl e \<Rightarrow> throw (Store_Error e) | Inr i \<Rightarrow> give (i, r))))))))"

section \<open>Applying\<close>

text \<open>The stored plan is checked against the patch it came from.\<close>

fun check_plan :: "file_patch list \<Rightarrow> target list \<Rightarrow> ('w, unit) act" where
  "check_plan (f # fs) (t # ts) =
     (if fp_path f \<noteq> t_path t then throw Plan_Mismatch
      else
        and_then (from_utf8 (t_before t)) (\<lambda>before.
        and_then (lift_patch (apply_patch_to f before)) (\<lambda>after.
        if after \<noteq> t_after t then throw Plan_Mismatch else check_plan fs ts)))"
| "check_plan _ _ = give ()"

fun target_paths :: "'w fs_ops \<Rightarrow> path \<Rightarrow> target list \<Rightarrow> ('w, path list) act" where
  "target_paths fs dir [] = give []"
| "target_paths fs dir (t # ts) =
     and_then (target_path fs dir (t_path t)) (\<lambda>p.
     and_then (target_paths fs dir ts) (\<lambda>ps. give (p # ps)))"

text \<open>Waiting for the per-path locks: each wait may be cut off by a cancellation.\<close>

fun take_locks :: "'w fs_ops \<Rightarrow> path list \<Rightarrow> ('w, unit) act" where
  "take_locks fs [] = give ()"
| "take_locks fs (p # ps) = and_then (cancelled fs) (\<lambda>_. take_locks fs ps)"

text \<open>What the targets hold now.\<close>

record survey =
  all_after :: bool
  all_before :: bool
  conflicts :: "patch_error option list"
  already_applied :: "string list"
  unchanged :: "string list"

definition survey_start :: survey where
  "survey_start = \<lparr>all_after = True, all_before = True, conflicts = [], already_applied = [], unchanged = []\<rparr>"

text \<open>The diagnostic of a conflict: why the patch does not fit, or that the contents differ.\<close>

definition diagnose :: "file_patch list \<Rightarrow> target \<Rightarrow> string \<Rightarrow> patch_error option" where
  "diagnose patch t current =
     (case find (\<lambda>f. fp_path f = t_path t) patch of
        None \<Rightarrow> None
      | Some f \<Rightarrow>
          if utf8_bytes (map byte_of current)
          then (case apply_patch_to f current of Inl e \<Rightarrow> Some e | Inr _ \<Rightarrow> None) else None)"

definition survey_target :: "file_patch list \<Rightarrow> target \<Rightarrow> string \<Rightarrow> survey \<Rightarrow> survey" where
  "survey_target patch t current v =
     (let v = v\<lparr>all_before := (all_before v \<and> current = t_before t),
                all_after := (all_after v \<and> current = t_after t)\<rparr>;
          v = (if current = t_after t \<and> current \<noteq> t_before t
               then v\<lparr>already_applied := already_applied v @ [t_path t]\<rparr>
               else if current = t_before t then v\<lparr>unchanged := unchanged v @ [t_path t]\<rparr> else v)
      in if current \<noteq> t_before t \<and> current \<noteq> t_after t
         then v\<lparr>conflicts := conflicts v @ [diagnose patch t current]\<rparr> else v)"

fun survey_all :: "'w fs_ops \<Rightarrow> file_patch list \<Rightarrow> (target \<times> path) list \<Rightarrow> survey \<Rightarrow> ('w, survey) act" where
  "survey_all fs patch [] v = give v"
| "survey_all fs patch ((t, p) # tps) v =
     and_then (cancelled fs) (\<lambda>_.
     and_then (lift_fs (read_op fs p)) (\<lambda>current.
     survey_all fs patch tps (survey_target patch t current v)))"

definition commit_one :: "'w fs_ops \<Rightarrow> path \<Rightarrow> target \<Rightarrow> path \<Rightarrow> ('w, unit) act" where
  "commit_one fs dir t p =
     and_then (cancelled fs) (\<lambda>_.
     and_then (target_path fs dir (t_path t)) (\<lambda>_.
     and_then (lift_fs (read_op fs p)) (\<lambda>current.
     if current \<noteq> t_before t then throw Changed_Before_Write
     else
       and_then (lift_fs (write_op fs p (t_after t))) (\<lambda>_.
       and_then (lift_fs (read_op fs p)) (\<lambda>current.
       if current \<noteq> t_after t then throw Verification_Failed else give ())))))"

text \<open>One step of the rollback: whether the file holds its old bytes again.\<close>

definition restore_one :: "'w fs_ops \<Rightarrow> path \<Rightarrow> target \<Rightarrow> path \<Rightarrow> 'w \<Rightarrow> bool \<times> 'w" where
  "restore_one fs dir t p w =
     (case target_path fs dir (t_path t) w of
        (Inl _, w) \<Rightarrow> (False, w)
      | (Inr _, w) \<Rightarrow>
          (case read_op fs p w of
             (current, w) \<Rightarrow>
               if current = Inr (t_before t) then (True, w)
               else if current = Inr (t_after t) then
                 (case write_op fs p (t_before t) w of
                    (Inl _, w) \<Rightarrow> (False, w)
                  | (Inr _, w) \<Rightarrow> (case read_op fs p w of (again, w) \<Rightarrow> (again = Inr (t_before t), w)))
               else (False, w)))"

fun roll_back ::
  "'w fs_ops \<Rightarrow> path \<Rightarrow> (target \<times> path) list \<Rightarrow> string list \<Rightarrow> string list \<Rightarrow> 'w
     \<Rightarrow> (string list \<times> string list) \<times> 'w" where
  "roll_back fs dir [] restored uncertain w = ((restored, uncertain), w)"
| "roll_back fs dir ((t, p) # tps) restored uncertain w =
     (case restore_one fs dir t p w of
        (True, w) \<Rightarrow> roll_back fs dir tps (restored @ [t_path t]) uncertain w
      | (False, w) \<Rightarrow> roll_back fs dir tps restored (uncertain @ [t_path t]) w)"

text \<open>The writes in order; the first that fails rolls back itself and those before it, last first.\<close>

fun commit_all :: "'w fs_ops \<Rightarrow> path \<Rightarrow> (target \<times> path) list \<Rightarrow> (target \<times> path) list \<Rightarrow> ('w, unit) act" where
  "commit_all fs dir written [] w = (Inr (), w)"
| "commit_all fs dir written ((t, p) # tps) w =
     (case commit_one fs dir t p w of
        (Inr _, w) \<Rightarrow> commit_all fs dir ((t, p) # written) tps w
      | (Inl e, w) \<Rightarrow>
          (case roll_back fs dir ((t, p) # written) [] [] w of
             ((restored, uncertain), w) \<Rightarrow>
               (Inl (Failed (t_path t) e restored uncertain (map (t_path \<circ> fst) tps)), w)))"

datatype apply_status = Already_Applied | Validated | Applied

text \<open>Everything \<open>apply\<close> checks before it looks at the files: workspace, manifest, plan, paths, locks.\<close>

definition prepare_targets ::
  "'w fs_ops \<Rightarrow> artifact \<Rightarrow> path \<Rightarrow> string list \<Rightarrow> ('w, file_patch list \<times> path list) act" where
  "prepare_targets fs r dir file_paths =
     (if r_version r \<noteq> 1 \<or> r_root r \<noteq> dir then throw Different_Workspace
      else if file_paths \<noteq> map t_path (r_targets r) then throw Manifest_Mismatch
      else
        and_then (from_utf8 (r_patch r)) (\<lambda>source.
        and_then (lift_patch (parse_patch source)) (\<lambda>patch.
        if length patch \<noteq> length (r_targets r) then throw Invalid_Plan
        else
          and_then (check_plan patch (r_targets r)) (\<lambda>_.
          and_then (target_paths fs dir (r_targets r)) (\<lambda>paths.
          if \<not> distinct paths then throw Duplicate_Canonical
          else and_then (take_locks fs paths) (\<lambda>_. give (patch, paths)))))))"

text \<open>What it does once the locks are held.\<close>

definition apply_locked ::
  "'w fs_ops \<Rightarrow> path \<Rightarrow> bool \<Rightarrow> file_patch list \<Rightarrow> (target \<times> path) list \<Rightarrow> ('w, apply_status) act" where
  "apply_locked fs dir dry_run patch tps =
     and_then (survey_all fs patch tps survey_start) (\<lambda>v.
     if all_after v then give Already_Applied
     else if \<not> all_before v then throw (Conflict (conflicts v) (already_applied v) (unchanged v))
     else if dry_run then give Validated
     else and_then (commit_all fs dir [] tps) (\<lambda>_. give Applied))"

text \<open>\<open>fetch\<close> is the artifact store together with the decoding of the record.\<close>

definition apply_artifact ::
  "'w fs_ops \<Rightarrow> (string \<Rightarrow> string + artifact) \<Rightarrow> path \<Rightarrow> string \<Rightarrow> string list \<Rightarrow> bool
     \<Rightarrow> ('w, apply_status) act" where
  "apply_artifact fs fetch cwd artifact_id file_paths dry_run =
     and_then (case fetch artifact_id of Inl e \<Rightarrow> throw (Store_Error e) | Inr r \<Rightarrow> give r) (\<lambda>r.
     and_then (lift_fs (canon_op fs cwd)) (\<lambda>dir.
     and_then (prepare_targets fs r dir file_paths) (\<lambda>(patch, paths).
     apply_locked fs dir dry_run patch (zip (r_targets r) paths))))"

end
