(* ===== verification/Apply_Laws.thy ===== *)
theory Apply_Laws
  imports Apply_Patch
begin

text \<open>
  What the patch tools promise on any file system that reads without writing and writes only where it
  is told to. The promises are proved in the locale \<open>file_system\<close> and the faulty disk is an instance of it:
  no law says that a write that reports success has written.
\<close>

section \<open>Chains of actions\<close>

lemma and_then_Inr:
  "and_then m f w = (Inr y, w') \<longleftrightarrow> (\<exists>x w1. m w = (Inr x, w1) \<and> f x w1 = (Inr y, w'))"
  by (auto simp: and_then_def split: prod.splits sum.splits)

lemma lift_fs_Inr: "lift_fs m w = (Inr x, w') \<longleftrightarrow> m w = (Inr x, w')"
  by (auto simp: lift_fs_def split: prod.splits sum.splits)

lemma snd_lift_fs [simp]: "snd (lift_fs m w) = snd (m w)"
  by (auto simp: lift_fs_def split: prod.splits sum.splits)

lemma give_throw_simps [simp]:
  "give x w = (Inr y, w') \<longleftrightarrow> x = y \<and> w = w'" "throw e w \<noteq> (Inr y, w')"
  by (auto simp: give_def throw_def)

lemma target_path_Inr: "target_path fs dir rel w = (Inr p, w') \<Longrightarrow> p = join_path dir rel"
  by (auto simp: target_path_def Let_def and_then_Inr split: if_splits)

lemma target_paths_Inr:
  "target_paths fs dir ts w = (Inr ps, w') \<Longrightarrow> ps = map (\<lambda>t. join_path dir (t_path t)) ts"
  by (induction ts arbitrary: w ps) (auto simp: and_then_Inr dest: target_path_Inr)

text \<open>Actions that never report a failed commit.\<close>

definition is_Failed :: "apply_error \<Rightarrow> bool" where
  "is_Failed e \<longleftrightarrow> (case e of Failed _ _ _ _ _ \<Rightarrow> True | _ \<Rightarrow> False)"

definition plain :: "('w, 'a) act \<Rightarrow> bool" where
  "plain m \<longleftrightarrow> (\<forall>w e w'. m w = (Inl e, w') \<longrightarrow> \<not> is_Failed e)"

lemma plainD: "plain m \<Longrightarrow> m w = (Inl e, w') \<Longrightarrow> \<not> is_Failed e"
  unfolding plain_def by blast

lemma plain_and_then: "plain m \<Longrightarrow> (\<And>x. plain (f x)) \<Longrightarrow> plain (and_then m f)"
  unfolding plain_def and_then_def by (auto split: prod.splits sum.splits)

lemma is_Failed_simps [simp]: "\<not> is_Failed (Fs_Error e)" "\<not> is_Failed (Bad_Patch b)" "\<not> is_Failed Not_Utf8"
  "\<not> is_Failed Cancelled_Early" "\<not> is_Failed (Path_Escape q)" "\<not> is_Failed Plan_Mismatch"
  "\<not> is_Failed Different_Workspace" "\<not> is_Failed Manifest_Mismatch" "\<not> is_Failed Invalid_Plan"
  "\<not> is_Failed Duplicate_Canonical" "\<not> is_Failed (Store_Error e)" "\<not> is_Failed (Conflict a b' c)"
  by (simp_all add: is_Failed_def)

lemma plain_basic [simp]: "plain (give x)" "\<not> is_Failed e \<Longrightarrow> plain (throw e)" "plain (lift_fs m)"
  "plain (lift_patch r)" "plain (from_utf8 s)" "plain (cancelled fs)"
  by (auto simp: plain_def give_def throw_def lift_fs_def lift_patch_def from_utf8_def cancelled_def
      split: prod.splits sum.splits if_splits)

lemma plain_check_plan [simp]: "plain (check_plan patch ts)"
  by (induction patch ts rule: check_plan.induct) (auto intro!: plain_and_then)

lemma plain_target_path [simp]: "plain (target_path fs dir rel)"
  unfolding target_path_def Let_def by (auto intro!: plain_and_then)

lemma plain_target_paths [simp]: "plain (target_paths fs dir ts)"
  by (induction ts) (auto intro!: plain_and_then)

lemma plain_take_locks [simp]: "plain (take_locks fs ps)"
  by (induction ps) (auto intro!: plain_and_then)

lemma plain_survey_all [simp]: "plain (survey_all fs patch tps v)"
  by (induction tps arbitrary: v) (auto intro!: plain_and_then)

lemma plain_prepare [simp]: "plain (prepare_targets fs r dir names)"
  unfolding prepare_targets_def by (auto intro!: plain_and_then)

text \<open>The files an action may change.\<close>

definition touches :: "('w \<Rightarrow> path \<Rightarrow> string option) \<Rightarrow> path set \<Rightarrow> ('w, 'a) act \<Rightarrow> bool" where
  "touches content S m \<longleftrightarrow> (\<forall>w. \<forall>q. q \<notin> S \<longrightarrow> content (snd (m w)) q = content w q)"

lemma touchesD: "touches content S m \<Longrightarrow> m w = (x, w') \<Longrightarrow> q \<notin> S \<Longrightarrow> content w' q = content w q"
  unfolding touches_def by (metis snd_conv)

lemma touches_none: "touches content {} m \<Longrightarrow> m w = (x, w') \<Longrightarrow> content w' = content w"
  by (rule ext) (simp add: touchesD)

lemma touches_mono: "touches content {} m \<Longrightarrow> touches content S m"
  by (simp add: touches_def)

lemma touches_and_then:
  assumes "touches content S m" "\<And>x. touches content S (f x)"
  shows "touches content S (and_then m f)"
  unfolding touches_def
proof (intro allI impI)
  fix w q
  assume q: "q \<notin> S"
  obtain x w' where m: "m w = (x, w')" by fastforce
  have "content w' q = content w q" using touchesD [OF assms(1) m q] .
  moreover have "content (snd (f y w')) q = content w' q" for y
    using assms(2) q unfolding touches_def by blast
  ultimately show "content (snd (and_then m f w)) q = content w q"
    by (cases x) (simp_all add: and_then_def m)
qed

lemma touches_plain [simp]:
  "touches content S (give x)" "touches content S (throw e)" "touches content S (lift_patch r)"
  "touches content S (from_utf8 s)"
  by (simp_all add: touches_def give_def throw_def lift_patch_def from_utf8_def split: sum.splits)

lemma touches_check_plan [simp]: "touches content S (check_plan patch ts)"
  by (induction patch ts rule: check_plan.induct) (auto intro!: touches_and_then)

section \<open>The contract\<close>

text \<open>After a failed commit every target is restored, uncertain or was never attempted, and those that
  are not uncertain hold their old bytes.\<close>

definition settled :: "(path \<Rightarrow> string option) \<Rightarrow> (target \<times> path) list \<Rightarrow> apply_error \<Rightarrow> bool" where
  "settled now tps e \<longleftrightarrow> (\<exists>file cause good bad rest.
     e = Failed file cause (map (t_path \<circ> fst) good) (map (t_path \<circ> fst) bad) (map (t_path \<circ> fst) rest)
     \<and> mset good + mset bad + mset rest = mset tps
     \<and> (\<forall>(t, p)\<in>set good \<union> set rest. now p = Some (t_before t)))"

definition target_at :: "artifact \<Rightarrow> target \<Rightarrow> path" where
  "target_at r t = join_path (r_root r) (t_path t)"

text \<open>
  What a call of the tool may have done to the files, given its answer: all targets written, or a
  failure that names every target once and whose restored and untouched ones hold their old bytes, or
  nothing at all. Files that are no targets never change.
\<close>

definition apply_contract ::
  "artifact \<Rightarrow> (path \<Rightarrow> string option) \<Rightarrow> (path \<Rightarrow> string option) \<Rightarrow> apply_error + apply_status \<Rightarrow> bool" where
  "apply_contract r was now answer \<longleftrightarrow>
     (\<forall>q. q \<notin> target_at r ` set (r_targets r) \<longrightarrow> now q = was q)
     \<and> (case answer of
          Inr Applied \<Rightarrow> \<forall>t\<in>set (r_targets r). now (target_at r t) = Some (t_after t)
        | Inl (Failed file cause restored uncertain untouched) \<Rightarrow>
            mset (restored @ uncertain @ untouched) = mset (map t_path (r_targets r))
            \<and> (\<forall>t\<in>set (r_targets r). t_path t \<in> set restored \<union> set untouched
                 \<longrightarrow> now (target_at r t) = Some (t_before t))
        | _ \<Rightarrow> now = was)"

lemma apply_contract_nothing:
  "(\<And>e. answer = Inl e \<Longrightarrow> \<not> is_Failed e) \<Longrightarrow> answer \<noteq> Inr Applied
     \<Longrightarrow> apply_contract r was was answer"
  by (auto simp: apply_contract_def is_Failed_def split: sum.splits apply_status.splits apply_error.splits)

lemma apply_contract_error: "\<not> is_Failed e \<Longrightarrow> apply_contract r was was (Inl e)"
  by (rule apply_contract_nothing) auto

lemma apply_contract_settled:
  assumes "settled now tps e" "tps = map (\<lambda>t. (t, target_at r t)) (r_targets r)"
    and "distinct (map (target_at r) (r_targets r))"
    and "\<forall>q. q \<notin> target_at r ` set (r_targets r) \<longrightarrow> now q = was q"
  shows "apply_contract r was now (Inl e)"
proof -
  obtain target cause good bad rest
    where e: "e = Failed target cause (map (t_path \<circ> fst) good) (map (t_path \<circ> fst) bad) (map (t_path \<circ> fst) rest)"
    and m: "mset good + mset bad + mset rest = mset tps"
    and b: "\<forall>(t, p)\<in>set good \<union> set rest. now p = Some (t_before t)"
    using assms(1) unfolding settled_def by blast
  have sub: "set good \<union> set rest \<subseteq> set tps"
    using arg_cong [OF m, of set_mset] by auto
  have "mset (map (t_path \<circ> fst) (good @ bad @ rest)) = image_mset (t_path \<circ> fst) (mset tps)"
    unfolding mset_map m [symmetric] by (simp add: union_assoc)
  also have "\<dots> = mset (map t_path (r_targets r))"
    by (simp add: assms(2) flip: mset_map) (simp add: comp_def)
  finally have names: "mset (map (t_path \<circ> fst) good @ map (t_path \<circ> fst) bad @ map (t_path \<circ> fst) rest)
      = mset (map t_path (r_targets r))" by simp
  have "now (target_at r t) = Some (t_before t)"
    if t: "t \<in> set (r_targets r)" and n: "t_path t \<in> t_path ` fst ` (set good \<union> set rest)" for t
  proof -
    obtain t' p' where t': "(t', p') \<in> set good \<union> set rest" "t_path t = t_path t'" using n by force
    then have "(t', p') \<in> set tps" using sub by blast
    then have "t' \<in> set (r_targets r)" "p' = target_at r t'" using assms(2) by auto
    moreover have "target_at r t = target_at r t'" using t'(2) by (simp add: target_at_def)
    ultimately have "t = t'" "p' = target_at r t"
      using t assms(3) by (auto simp: distinct_map inj_on_def)
    then show ?thesis using b t'(1) by auto
  qed
  then show ?thesis using names assms(4) by (auto simp: apply_contract_def e image_Un image_comp)
qed

section \<open>The interface\<close>

locale file_system =
  fixes fs :: "'w fs_ops" and content :: "'w \<Rightarrow> path \<Rightarrow> string option"
  assumes read_content: "content (snd (read_op fs p w)) = content w"
    and read_ok: "fst (read_op fs p w) = Inr b \<Longrightarrow> content w p = Some b"
    and write_other: "q \<noteq> p \<Longrightarrow> content (snd (write_op fs p b w)) q = content w q"
    and canon_content: "content (snd (canon_op fs p w)) = content w"
    and info_content: "content (snd (info_op fs p w)) = content w"
    and cancel_content: "content (snd (cancel_op fs w)) = content w"
begin

lemma touches_ops [simp]:
  "touches content S (lift_fs (read_op fs p))" "touches content S (lift_fs (canon_op fs p))"
  "touches content S (lift_fs (info_op fs p))" "touches content S (cancelled fs)"
  using read_content canon_content info_content cancel_content
  by (auto simp: touches_def cancelled_def case_prod_unfold)

lemma touches_write [simp]: "p \<in> S \<Longrightarrow> touches content S (lift_fs (write_op fs p b))"
  unfolding touches_def snd_lift_fs using write_other by metis

lemma touches_target_path [simp]: "touches content S (target_path fs dir rel)"
  unfolding target_path_def Let_def by (auto intro!: touches_and_then)

lemma touches_target_paths [simp]: "touches content S (target_paths fs dir ts)"
  by (induction ts) (auto intro!: touches_and_then)

lemma touches_take_locks [simp]: "touches content S (take_locks fs ps)"
  by (induction ps) (auto intro!: touches_and_then)

lemma touches_survey_all [simp]: "touches content S (survey_all fs patch tps v)"
  by (induction tps arbitrary: v) (auto intro!: touches_and_then)

lemma touches_import_targets [simp]: "touches content S (import_targets fs sensitive dir n ps)"
  by (induction ps arbitrary: n)
    (auto simp: import_target_def Let_def split: prod.splits intro!: touches_and_then)

lemma touches_commit_one [simp]: "touches content {p} (commit_one fs dir t p)"
  unfolding commit_one_def by (auto intro!: touches_and_then)

lemma read_Inr:
  assumes "read_op fs p w = (Inr b, w')"
  shows "content w p = Some b \<and> content w' = content w"
  using read_ok [of p w b] read_content [of p w] assms by simp

subsection \<open>The survey\<close>

lemma survey_target_before:
  "all_before (survey_target patch t b v) \<longleftrightarrow> all_before v \<and> b = t_before t"
  by (auto simp: survey_target_def Let_def)

lemma survey_sound:
  assumes "survey_all fs patch tps v w = (Inr v', w')" "all_before v'"
  shows "all_before v \<and> (\<forall>(t, p)\<in>set tps. content w p = Some (t_before t))"
  using assms
proof (induction tps arbitrary: v w)
  case Nil
  then show ?case by simp
next
  case (Cons tp tps)
  obtain t p where tp: "tp = (t, p)" by fastforce
  obtain w1 b w2 where c: "cancelled fs w = (Inr (), w1)"
    and r: "read_op fs p w1 = (Inr b, w2)"
    and rest: "survey_all fs patch tps (survey_target patch t b v) w2 = (Inr v', w')"
    using Cons.prems(1) by (auto simp: tp and_then_Inr lift_fs_Inr)
  have "content w1 = content w" using touches_none [OF touches_ops(4) c] .
  then show ?case
    using Cons.IH [OF rest Cons.prems(2)] read_Inr [OF r] by (simp add: tp survey_target_before)
qed

subsection \<open>Writing and rolling back\<close>

lemma commit_one_Inr:
  assumes "commit_one fs dir t p w = (Inr (), w')"
  shows "content w' p = Some (t_after t)"
proof -
  obtain w1 b w2 where "read_op fs p w1 = (Inr b, w2)" "b = t_after t" "w2 = w'"
    using assms by (auto simp: commit_one_def and_then_Inr lift_fs_Inr split: if_splits)
  then show ?thesis using read_Inr [of p w1 b w2] by simp
qed

lemma restore_one_other:
  assumes "restore_one fs dir t p w = (b, w')" "q \<noteq> p"
  shows "content w' q = content w q"
proof -
  obtain x w1 where m: "target_path fs dir (t_path t) w = (x, w1)" by fastforce
  obtain c w2 where r: "read_op fs p w1 = (c, w2)" by fastforce
  obtain y w3 where k: "write_op fs p (t_before t) w2 = (y, w3)" by fastforce
  obtain a w4 where g: "read_op fs p w3 = (a, w4)" by fastforce
  have w1: "content w1 = content w" using touches_none [OF touches_target_path m] .
  have w2: "content w2 = content w1" using read_content [of p w1] r by simp
  have w3: "content w3 q = content w2 q" using write_other [OF assms(2), of "t_before t" w2] k by simp
  have w4: "content w4 = content w3" using read_content [of p w3] g by simp
  have "w' \<in> {w1, w2, w3, w4}"
    using assms(1) m r k g by (auto simp: restore_one_def split: sum.splits if_splits)
  then show ?thesis using w1 w2 w3 w4 by auto
qed

lemma restore_one_True:
  assumes "restore_one fs dir t p w = (True, w')"
  shows "content w' p = Some (t_before t)"
proof -
  obtain v where "read_op fs p v = (Inr (t_before t), w')"
    using assms by (auto simp: restore_one_def split: prod.splits sum.splits if_splits)
  then show ?thesis using read_Inr [of p v "t_before t" w'] by simp
qed

lemma roll_back_other:
  "roll_back fs dir tps rs us w = (x, w') \<Longrightarrow> q \<notin> snd ` set tps \<Longrightarrow> content w' q = content w q"
proof (induction tps arbitrary: rs us w)
  case Nil
  then show ?case by simp
next
  case (Cons tp tps)
  obtain t p where tp: "tp = (t, p)" by fastforce
  obtain b w1 where r: "restore_one fs dir t p w = (b, w1)" by fastforce
  have "content w1 q = content w q" using restore_one_other [OF r] Cons.prems(2) tp by auto
  moreover have "content w' q = content w1 q"
    using Cons.IH Cons.prems r by (cases b) (auto simp: tp)
  ultimately show ?case by simp
qed

lemma roll_back_sound:
  assumes "roll_back fs dir tps rs us w = ((rs', us'), w')" "distinct (map snd tps)"
  shows "\<exists>good bad. rs' = rs @ map (t_path \<circ> fst) good \<and> us' = us @ map (t_path \<circ> fst) bad
    \<and> mset good + mset bad = mset tps \<and> (\<forall>(t, p)\<in>set good. content w' p = Some (t_before t))"
  using assms
proof (induction tps arbitrary: rs us w)
  case Nil
  then show ?case by auto
next
  case (Cons tp tps)
  obtain t p where tp: "tp = (t, p)" by fastforce
  obtain b w1 where r: "restore_one fs dir t p w = (b, w1)" by fastforce
  have d: "distinct (map snd tps)" "p \<notin> snd ` set tps" using Cons.prems(2) by (auto simp: tp)
  show ?case
  proof (cases b)
    case True
    then have rest: "roll_back fs dir tps (rs @ [t_path t]) us w1 = ((rs', us'), w')"
      using Cons.prems(1) r by (simp add: tp)
    obtain good bad where G: "rs' = (rs @ [t_path t]) @ map (t_path \<circ> fst) good"
      "us' = us @ map (t_path \<circ> fst) bad" "mset good + mset bad = mset tps"
      "\<forall>(t, p)\<in>set good. content w' p = Some (t_before t)"
      using Cons.IH [OF rest d(1)] by blast
    have "content w' p = Some (t_before t)"
      using roll_back_other [OF rest d(2)] restore_one_True r True by simp
    then show ?thesis
      using G by (intro exI [of _ "(t, p) # good"] exI [of _ bad]) (simp add: tp)
  next
    case False
    then have rest: "roll_back fs dir tps rs (us @ [t_path t]) w1 = ((rs', us'), w')"
      using Cons.prems(1) r by (simp add: tp)
    obtain good bad where G: "rs' = rs @ map (t_path \<circ> fst) good"
      "us' = (us @ [t_path t]) @ map (t_path \<circ> fst) bad" "mset good + mset bad = mset tps"
      "\<forall>(t, p)\<in>set good. content w' p = Some (t_before t)"
      using Cons.IH [OF rest d(1)] by blast
    then show ?thesis
      by (intro exI [of _ good] exI [of _ "(t, p) # bad"]) (simp add: tp)
  qed
qed

lemma commit_all_Inr:
  assumes "commit_all fs dir written tps w = (Inr (), w')" "distinct (map snd tps)"
  shows "(\<forall>(t, p)\<in>set tps. content w' p = Some (t_after t))
    \<and> (\<forall>q. q \<notin> snd ` set tps \<longrightarrow> content w' q = content w q)"
  using assms
proof (induction tps arbitrary: written w)
  case Nil
  then show ?case by simp
next
  case (Cons tp tps)
  obtain t p where tp: "tp = (t, p)" by fastforce
  obtain w1 where c: "commit_one fs dir t p w = (Inr (), w1)"
    and rest: "commit_all fs dir ((t, p) # written) tps w1 = (Inr (), w')"
    using Cons.prems(1) by (auto simp: tp split: prod.splits sum.splits)
  have d: "distinct (map snd tps)" "p \<notin> snd ` set tps" using Cons.prems(2) by (auto simp: tp)
  note IH = Cons.IH [OF rest d(1)]
  have "content w1 p = Some (t_after t)" using commit_one_Inr [OF c] .
  moreover have "content w1 q = content w q" if "q \<noteq> p" for q
    using touchesD [OF touches_commit_one c] that by simp
  ultimately show ?case using IH d(2) by (auto simp: tp)
qed

lemma commit_all_Inl:
  assumes "commit_all fs dir written tps w = (Inl e, w')" "distinct (map snd (written @ tps))"
    and "\<forall>(t, p)\<in>set tps. content w p = Some (t_before t)"
  shows "settled (content w') (written @ tps) e
    \<and> (\<forall>q. q \<notin> snd ` set (written @ tps) \<longrightarrow> content w' q = content w q)"
  using assms
proof (induction tps arbitrary: written w)
  case Nil
  then show ?case by simp
next
  case (Cons tp tps)
  obtain t p where tp: "tp = (t, p)" by fastforce
  obtain x w1 where c: "commit_one fs dir t p w = (x, w1)" by fastforce
  have other: "content w1 q = content w q" if "q \<noteq> p" for q
    using touchesD [OF touches_commit_one c] that by simp
  have d: "distinct (map snd ((t, p) # written))" "distinct (map snd (((t, p) # written) @ tps))"
    "p \<notin> snd ` set tps" "snd ` set ((t, p) # written) \<inter> snd ` set tps = {}"
    using Cons.prems(2) by (auto simp: tp)
  have before: "content w1 p' = Some (t_before t')" if "(t', p') \<in> set tps" for t' p'
  proof -
    have "p' \<noteq> p" using that d(3) by force
    then show ?thesis using Cons.prems(3) that other [of p'] by (auto simp: tp)
  qed
  show ?case
  proof (cases x)
    case (Inr y)
    then have rest: "commit_all fs dir ((t, p) # written) tps w1 = (Inl e, w')"
      using Cons.prems(1) c by (simp add: tp)
    have m: "mset (((t, p) # written) @ tps) = mset (written @ tp # tps)" by (simp add: tp)
    have "settled (content w') (((t, p) # written) @ tps) e
        \<and> (\<forall>q. q \<notin> snd ` set (((t, p) # written) @ tps) \<longrightarrow> content w' q = content w1 q)"
      using Cons.IH [OF rest d(2)] before by blast
    then show ?thesis using other unfolding settled_def m by (auto simp: tp)
  next
    case (Inl cause)
    obtain rs us w2 where r: "roll_back fs dir ((t, p) # written) [] [] w1 = ((rs, us), w2)"
      by (metis prod.exhaust)
    have e: "e = Failed (t_path t) cause rs us (map (t_path \<circ> fst) tps)" and w2: "w2 = w'"
      using Cons.prems(1) c Inl r by (auto simp: tp)
    obtain good bad where G: "rs = [] @ map (t_path \<circ> fst) good" "us = [] @ map (t_path \<circ> fst) bad"
      "mset good + mset bad = mset ((t, p) # written)"
      "\<forall>(t, p)\<in>set good. content w' p = Some (t_before t)"
      using roll_back_sound [OF r d(1)] unfolding w2 by blast
    have o: "content w' q = content w1 q" if "q \<notin> snd ` set ((t, p) # written)" for q
      using roll_back_other [OF r that] unfolding w2 .
    have "content w' p' = Some (t_before t')" if "(t', p') \<in> set tps" for t' p'
    proof -
      have "p' \<notin> snd ` set ((t, p) # written)" using d(4) that by force
      then show ?thesis using o before [OF that] by simp
    qed
    then have "\<forall>(t, p)\<in>set good \<union> set tps. content w' p = Some (t_before t)" using G(4) by auto
    moreover have "mset good + mset bad + mset tps = mset (written @ tp # tps)"
      using G(3) by (simp add: tp)
    ultimately have "settled (content w') (written @ tp # tps) e"
      unfolding settled_def using e G(1,2) by (metis append_Nil)
    moreover have "content w' q = content w q" if "q \<notin> snd ` set (written @ tp # tps)" for q
    proof -
      have "q \<notin> snd ` set ((t, p) # written)" "q \<noteq> p" using that by (auto simp: tp)
      then show ?thesis using o other by simp
    qed
    ultimately show ?thesis by blast
  qed
qed

subsection \<open>The tool\<close>

lemma touches_prepare [simp]: "touches content S (prepare_targets fs r dir names)"
  unfolding prepare_targets_def by (auto intro!: touches_and_then)

lemma prepare_targets_Inr:
  assumes "prepare_targets fs r dir names w = (Inr (patch, paths), w')"
  shows "r_root r = dir \<and> paths = map (target_at r) (r_targets r) \<and> distinct paths"
  using assms
  by (auto simp: prepare_targets_def and_then_Inr target_at_def split: if_splits dest!: target_paths_Inr)

lemma apply_locked_contract:
  assumes call: "apply_locked fs dir dry patch tps w = (answer, w')"
    and tps: "tps = map (\<lambda>t. (t, target_at r t)) (r_targets r)"
    and d: "distinct (map (target_at r) (r_targets r))"
  shows "apply_contract r (content w) (content w') answer"
proof -
  have d': "distinct (map snd tps)" and snd_tps: "snd ` set tps = target_at r ` set (r_targets r)"
    using d by (simp_all add: tps comp_def image_image)
  obtain x w1 where s: "survey_all fs patch tps survey_start w = (x, w1)" by fastforce
  have w1: "content w1 = content w" using touches_none [OF touches_survey_all s] .
  show ?thesis
  proof (cases x)
    case (Inl e)
    then have "answer = Inl e" "w' = w1" using call s by (auto simp: apply_locked_def and_then_def)
    moreover have "\<not> is_Failed e"
      using plainD [OF plain_survey_all s [unfolded Inl]] .
    ultimately show ?thesis using w1 apply_contract_error by simp
  next
    case (Inr v)
    let ?rest = "if all_after v then give Already_Applied
     else if \<not> all_before v then throw (Conflict (conflicts v) (already_applied v) (unchanged v))
     else if dry then give Validated
     else and_then (commit_all fs dir [] tps) (\<lambda>_. give Applied)"
    have R: "?rest w1 = (answer, w')" using call s Inr by (simp add: apply_locked_def and_then_def)
    show ?thesis
    proof (cases "all_after v \<or> \<not> all_before v \<or> dry")
      case True
      then show ?thesis
        using R w1 by (auto simp: give_def throw_def intro!: apply_contract_nothing split: if_splits)
    next
      case False
      then have C: "and_then (commit_all fs dir [] tps) (\<lambda>_. give Applied) w1 = (answer, w')"
        using R by simp
      have b: "\<forall>(t, p)\<in>set tps. content w1 p = Some (t_before t)"
        using survey_sound [OF s [unfolded Inr]] False w1 by simp
      obtain y w2 where c: "commit_all fs dir [] tps w1 = (y, w2)" by fastforce
      show ?thesis
      proof (cases y)
        case (Inl e)
        then have ans: "answer = Inl e" "w' = w2" using C c by (auto simp: and_then_def)
        have "settled (content w2) ([] @ tps) e
            \<and> (\<forall>q. q \<notin> snd ` set ([] @ tps) \<longrightarrow> content w2 q = content w1 q)"
          using commit_all_Inl [OF c [unfolded Inl] _ b] d' by simp
        then show ?thesis
          using apply_contract_settled [OF _ tps d] snd_tps w1 ans by simp
      next
        case (Inr u)
        then have ans: "answer = Inr Applied" "w' = w2" using C c by (auto simp: and_then_def give_def)
        have "commit_all fs dir [] tps w1 = (Inr (), w2)" using c Inr by simp
        from commit_all_Inr [OF this d'] show ?thesis
          using ans w1 snd_tps by (auto simp: apply_contract_def tps)
      qed
    qed
  qed
qed

lemma apply_artifact_contract:
  assumes call: "apply_artifact fs fetch cwd i names dry w = (answer, w')" and r: "fetch i = Inr r"
  shows "apply_contract r (content w) (content w') answer"
proof -
  obtain x w1 where c: "lift_fs (canon_op fs cwd) w = (x, w1)" by fastforce
  have w1: "content w1 = content w" using touches_none [OF touches_ops(2) c] .
  show ?thesis
  proof (cases x)
    case (Inl e)
    then have "answer = Inl e" "w' = w1" "\<not> is_Failed e"
      using call r c plainD [OF plain_basic(3) c [unfolded Inl]]
      by (auto simp: apply_artifact_def and_then_def give_def)
    then show ?thesis using w1 apply_contract_error by simp
  next
    case (Inr dir)
    obtain y w2 where p: "prepare_targets fs r dir names w1 = (y, w2)" by fastforce
    have w2: "content w2 = content w1" using touches_none [OF touches_prepare p] .
    show ?thesis
    proof (cases y)
      case (Inl e)
      then have "answer = Inl e" "w' = w2" "\<not> is_Failed e"
        using call r c \<open>x = Inr dir\<close> p plainD [OF plain_prepare p [unfolded Inl]]
        by (auto simp: apply_artifact_def and_then_def give_def)
      then show ?thesis using w1 w2 apply_contract_error by simp
    next
      case (Inr z)
      obtain patch paths where z: "z = (patch, paths)" by fastforce
      have P: "r_root r = dir" "paths = map (target_at r) (r_targets r)" "distinct paths"
        using prepare_targets_Inr p Inr z by auto
      have "apply_locked fs dir dry patch (zip (r_targets r) paths) w2 = (answer, w')"
        using call r c \<open>x = Inr dir\<close> p Inr z by (simp add: apply_artifact_def and_then_def give_def)
      moreover have "zip (r_targets r) paths = map (\<lambda>t. (t, target_at r t)) (r_targets r)"
        by (simp add: P(2) zip_map2 zip_same_conv_map)
      ultimately show ?thesis
        using apply_locked_contract P(2,3) w1 w2 by metis
    qed
  qed
qed

end

section \<open>The disk is such a file system\<close>

interpretation local_disk: file_system disk_ops files
proof
  show "files (snd (read_op disk_ops p w)) = files w" for p w
    by (auto simp: disk_ops_def disk_read_def next_outcome_def split: list.splits outcome.splits option.splits)
  show "fst (read_op disk_ops p w) = Inr b \<Longrightarrow> files w p = Some b" for p w b
    by (auto simp: disk_ops_def disk_read_def next_outcome_def split: list.splits outcome.splits option.splits)
  show "q \<noteq> p \<Longrightarrow> files (snd (write_op disk_ops p b w)) q = files w q" for p q b w
    by (auto simp: disk_ops_def disk_write_def next_outcome_def split: list.splits outcome.splits option.splits)
  show "files (snd (canon_op disk_ops p w)) = files w" for p w
    by (auto simp: disk_ops_def disk_canonicalize_def next_outcome_def split: list.splits outcome.splits option.splits)
  show "files (snd (info_op disk_ops p w)) = files w" for p w
    by (auto simp: disk_ops_def disk_info_def next_outcome_def split: list.splits outcome.splits option.splits)
  show "files (snd (cancel_op disk_ops w)) = files w" for w
    by (auto simp: disk_ops_def disk_cancelled_def next_outcome_def split: list.splits)
qed

end
