(* ===== verification/Import_Apply.thy ===== *)
theory Import_Apply
  imports Apply_Laws
begin

text \<open>
  The two tools together: on a disk on which nothing goes wrong, a patch that was imported applies, and
  afterwards every target holds what the patch makes of its old contents.
\<close>

section \<open>A disk on which nothing goes wrong\<close>

definition quiet :: "disk \<Rightarrow> bool" where
  "quiet d \<longleftrightarrow> script d = []"

text \<open>A target that lies where its path says.\<close>

definition plain_at :: "disk \<Rightarrow> path \<Rightarrow> string \<Rightarrow> bool" where
  "plain_at d dir rel \<longleftrightarrow>
     links d (join_path dir rel) = Some (join_path dir rel) \<and> prefix dir (join_path dir rel)"

lemma quiet_write [simp]: "quiet d \<Longrightarrow> quiet (d\<lparr>files := g\<rparr>)"
  by (simp add: quiet_def)

lemma plain_at_write [simp]: "plain_at (d\<lparr>files := g\<rparr>) = plain_at d"
  by (intro ext) (simp add: plain_at_def)

lemma quiet_read: "quiet d \<Longrightarrow> files d p = Some b \<Longrightarrow> lift_fs (read_op disk_ops p) d = (Inr b, d)"
  by (simp add: lift_fs_def disk_ops_def disk_read_def next_outcome_def quiet_def)

lemma quiet_write_op:
  "quiet d \<Longrightarrow> lift_fs (write_op disk_ops p b) d = (Inr (), d\<lparr>files := (files d)(p \<mapsto> b)\<rparr>)"
  by (simp add: lift_fs_def disk_ops_def disk_write_def next_outcome_def quiet_def)

lemma quiet_canon: "quiet d \<Longrightarrow> links d p = Some q \<Longrightarrow> lift_fs (canon_op disk_ops p) d = (Inr q, d)"
  by (simp add: lift_fs_def disk_ops_def disk_canonicalize_def next_outcome_def quiet_def)

lemma quiet_cancelled: "quiet d \<Longrightarrow> cancelled disk_ops d = (Inr (), d)"
  by (simp add: cancelled_def disk_ops_def disk_cancelled_def next_outcome_def quiet_def)

lemma lift_patch_Inr: "lift_patch r w = (Inr x, w') \<longleftrightarrow> r = Inr x \<and> w' = w"
  by (auto simp: lift_patch_def split: sum.splits)

lemma store_Inr:
  "(case x of Inl e \<Rightarrow> throw (f e) | Inr i \<Rightarrow> give (g i)) w = (Inr y, w') \<longleftrightarrow> (\<exists>i. x = Inr i \<and> y = g i \<and> w' = w)"
  by (auto split: sum.splits)

lemma from_utf8_Inr: "from_utf8 s w = (Inr x, w') \<longleftrightarrow> utf8_bytes (map byte_of s) \<and> x = s \<and> w' = w"
  by (auto simp: from_utf8_def)

lemma quiet_target_path:
  "quiet d \<Longrightarrow> plain_at d dir rel \<Longrightarrow> target_path disk_ops dir rel d = (Inr (join_path dir rel), d)"
  unfolding target_path_def Let_def
  by (simp add: and_then_def quiet_canon plain_at_def give_def)

text \<open>What an action on a quiet disk that succeeded tells about the disk.\<close>

lemma quiet_read_Inr:
  "quiet d \<Longrightarrow> lift_fs (read_op disk_ops p) d = (Inr b, d') \<Longrightarrow> d' = d \<and> files d p = Some b"
  by (auto simp: lift_fs_def disk_ops_def disk_read_def next_outcome_def quiet_def split: option.splits)

lemma quiet_canon_Inr:
  "quiet d \<Longrightarrow> lift_fs (canon_op disk_ops p) d = (Inr q, d') \<Longrightarrow> d' = d \<and> links d p = Some q"
  by (auto simp: lift_fs_def disk_ops_def disk_canonicalize_def next_outcome_def quiet_def split: option.splits)

lemma quiet_info_Inr: "quiet d \<Longrightarrow> lift_fs (info_op disk_ops p) d = (Inr n, d') \<Longrightarrow> d' = d"
  by (auto simp: lift_fs_def disk_ops_def disk_info_def next_outcome_def quiet_def split: option.splits)

lemma quiet_target_path_Inr:
  assumes "quiet d" "target_path disk_ops dir rel d = (Inr p, d')"
  shows "d' = d \<and> p = join_path dir rel \<and> plain_at d dir rel"
proof -
  obtain q d1 where c: "lift_fs (canon_op disk_ops (join_path dir rel)) d = (Inr q, d1)"
    and k: "(if q \<noteq> join_path dir rel \<or> \<not> prefix dir q then throw (Path_Escape rel)
       else give (join_path dir rel)) d1 = (Inr p, d')"
    using assms(2) unfolding target_path_def Let_def and_then_Inr by blast
  have q: "q = join_path dir rel" "prefix dir q" and p: "p = join_path dir rel" "d' = d1"
    using k by (simp_all split: if_splits)
  have "d1 = d \<and> links d (join_path dir rel) = Some q" by (rule quiet_canon_Inr [OF assms(1) c])
  then show ?thesis using q p by (simp add: plain_at_def)
qed

section \<open>What importing records\<close>

definition recorded :: "disk \<Rightarrow> path \<Rightarrow> file_patch \<Rightarrow> target \<Rightarrow> bool" where
  "recorded d dir f t \<longleftrightarrow> t_path t = fp_path f \<and> plain_at d dir (fp_path f)
     \<and> files d (join_path dir (fp_path f)) = Some (t_before t) \<and> utf8_bytes (map byte_of (t_before t))
     \<and> apply_patch_to f (t_before t) = Inr (t_after t)"

lemma import_target_Inr:
  assumes "quiet d" "import_target disk_ops sensitive dir n f d = (Inr (t, m), d')"
  shows "d' = d \<and> recorded d dir f t"
proof -
  obtain d1 p d2 where c: "cancelled disk_ops d = (Inr (), d1)"
    and p: "target_path disk_ops dir (fp_path f) d1 = (Inr p, d2)"
    and rest: "\<exists>len d3 b d4. lift_fs (info_op disk_ops p) d2 = (Inr len, d3)
      \<and> lift_fs (read_op disk_ops p) d3 = (Inr b, d4) \<and> utf8_bytes (map byte_of b)
      \<and> (\<exists>a. apply_patch_to f b = Inr a \<and> t = \<lparr>t_path = fp_path f, t_before = b, t_after = a\<rparr>) \<and> d' = d4"
    using assms(2)
    by (auto simp: import_target_def Let_def and_then_Inr from_utf8_Inr lift_patch_Inr split: if_splits)
  have d1: "d1 = d" using c quiet_cancelled [OF assms(1)] by simp
  have d2: "d2 = d" "p = join_path dir (fp_path f)" "plain_at d dir (fp_path f)"
    using quiet_target_path_Inr [OF assms(1)] p d1 by auto
  obtain len d3 b d4 a where i: "lift_fs (info_op disk_ops p) d2 = (Inr len, d3)"
    and r: "lift_fs (read_op disk_ops p) d3 = (Inr b, d4)" and u: "utf8_bytes (map byte_of b)"
    and a: "apply_patch_to f b = Inr a" "t = \<lparr>t_path = fp_path f, t_before = b, t_after = a\<rparr>" "d' = d4"
    using rest by blast
  have "d3 = d" using quiet_info_Inr [OF assms(1)] i d2(1) by simp
  then show ?thesis
    using quiet_read_Inr [OF assms(1)] r u a d2 by (auto simp: recorded_def)
qed

lemma import_targets_Inr:
  assumes "quiet d" "import_targets disk_ops sensitive dir n fs d = (Inr ts, d')"
  shows "d' = d \<and> list_all2 (recorded d dir) fs ts"
  using assms
proof (induction fs arbitrary: n ts)
  case Nil
  then show ?case by simp
next
  case (Cons f fs)
  obtain t m d1 ts' d2 where t: "import_target disk_ops sensitive dir n f d = (Inr (t, m), d1)"
    and ts': "import_targets disk_ops sensitive dir m fs d1 = (Inr ts', d2)"
    and eq: "ts = t # ts'" "d' = d2"
    using Cons.prems(2) by (auto simp: and_then_Inr split: prod.splits)
  show ?case
    using import_target_Inr [OF Cons.prems(1) t] Cons.IH [OF Cons.prems(1)] ts' eq by auto
qed

section \<open>Applying what was recorded\<close>

lemma check_plan_recorded:
  "list_all2 (recorded d dir) fs ts \<Longrightarrow> check_plan fs ts w = (Inr (), w)"
  by (induction rule: list_all2_induct)
    (auto simp: recorded_def give_def and_then_def from_utf8_def lift_patch_def)

lemma target_paths_recorded:
  "list_all2 (recorded d dir) fs ts \<Longrightarrow> quiet d \<Longrightarrow>
     target_paths disk_ops dir ts d = (Inr (map (\<lambda>t. join_path dir (t_path t)) ts), d)"
proof (induction rule: list_all2_induct)
  case Nil
  then show ?case by (simp add: give_def)
next
  case (Cons f fs t ts)
  have "target_path disk_ops dir (t_path t) d = (Inr (join_path dir (t_path t)), d)"
    using Cons.hyps(1) Cons.prems by (auto simp: recorded_def intro: quiet_target_path)
  then show ?case using Cons by (simp add: and_then_def give_def)
qed

lemma take_locks_quiet: "quiet d \<Longrightarrow> take_locks disk_ops ps d = (Inr (), d)"
  by (induction ps) (simp_all add: give_def and_then_def quiet_cancelled)

lemma survey_target_after:
  "all_after (survey_target patch t b v) \<longleftrightarrow> all_after v \<and> b = t_after t"
  by (auto simp: survey_target_def Let_def)

lemma survey_all_after:
  "survey_all fs patch tps v w = (Inr v', w') \<Longrightarrow> all_after v' \<Longrightarrow> all_after v"
proof (induction tps arbitrary: v w)
  case Nil
  then show ?case by simp
next
  case (Cons tp tps)
  obtain t p where tp: "tp = (t, p)" by fastforce
  obtain b w1 where "survey_all fs patch tps (survey_target patch t b v) w1 = (Inr v', w')"
    using Cons.prems(1) by (auto simp: tp and_then_Inr)
  then show ?case using Cons.IH Cons.prems(2) survey_target_after by blast
qed

lemma survey_all_quiet:
  assumes "quiet d" "\<forall>(t, p)\<in>set tps. files d p = Some (t_before t)" "all_before v"
  shows "\<exists>v'. survey_all disk_ops patch tps v d = (Inr v', d) \<and> all_before v'
    \<and> (all_after v' \<longrightarrow> (\<forall>(t, p)\<in>set tps. t_before t = t_after t))"
  using assms
proof (induction tps arbitrary: v)
  case Nil
  then show ?case by (simp add: give_def)
next
  case (Cons tp tps)
  obtain t p where tp: "tp = (t, p)" by fastforce
  have b: "files d p = Some (t_before t)" using Cons.prems(2) by (simp add: tp)
  let ?v = "survey_target patch t (t_before t) v"
  have "all_before ?v" using Cons.prems(3) by (simp add: survey_target_def Let_def)
  moreover have "\<forall>(t, p)\<in>set tps. files d p = Some (t_before t)" using Cons.prems(2) by simp
  ultimately obtain v' where v': "survey_all disk_ops patch tps ?v d = (Inr v', d)" "all_before v'"
    "all_after v' \<longrightarrow> (\<forall>(t, p)\<in>set tps. t_before t = t_after t)"
    using Cons.IH [OF Cons.prems(1)] by blast
  have after: "all_after v' \<longrightarrow> all_after ?v" using survey_all_after [OF v'(1)] by blast
  have "all_after ?v \<longrightarrow> t_before t = t_after t" by (simp add: survey_target_after)
  moreover have "survey_all disk_ops patch (tp # tps) v d = survey_all disk_ops patch tps ?v d"
    by (simp add: tp and_then_def quiet_cancelled [OF Cons.prems(1)] quiet_read [OF Cons.prems(1) b])
  ultimately show ?case using v' after by (auto simp: tp)
qed

lemma commit_one_quiet:
  assumes "quiet d" "plain_at d dir (t_path t)" "files d p = Some (t_before t)"
  shows "commit_one disk_ops dir t p d = (Inr (), d\<lparr>files := (files d)(p \<mapsto> t_after t)\<rparr>)"
proof -
  let ?d = "d\<lparr>files := (files d)(p \<mapsto> t_after t)\<rparr>"
  have r: "lift_fs (read_op disk_ops p) ?d = (Inr (t_after t), ?d)"
    by (rule quiet_read) (simp_all add: assms(1))
  show ?thesis
    by (simp add: commit_one_def and_then_def quiet_cancelled [OF assms(1)]
        quiet_target_path [OF assms(1,2)] quiet_read [OF assms(1,3)] quiet_write_op [OF assms(1)] r give_def)
qed

lemma commit_all_quiet:
  assumes "quiet d" "\<forall>(t, p)\<in>set tps. plain_at d dir (t_path t) \<and> files d p = Some (t_before t)"
    and "distinct (map snd tps)"
  shows "\<exists>d'. commit_all disk_ops dir written tps d = (Inr (), d')"
  using assms
proof (induction tps arbitrary: d written)
  case Nil
  then show ?case by simp
next
  case (Cons tp tps)
  obtain t p where tp: "tp = (t, p)" by fastforce
  let ?d = "d\<lparr>files := (files d)(p \<mapsto> t_after t)\<rparr>"
  have c: "commit_one disk_ops dir t p d = (Inr (), ?d)"
    using Cons.prems by (intro commit_one_quiet) (auto simp: tp)
  have "\<forall>(t', p')\<in>set tps. plain_at ?d dir (t_path t') \<and> files ?d p' = Some (t_before t')"
    using Cons.prems(2,3) by (force simp: tp)
  then obtain d' where "commit_all disk_ops dir ((t, p) # written) tps ?d = (Inr (), d')"
    using Cons.IH [of ?d "(t, p) # written"] Cons.prems by (simp add: tp) blast
  then show ?case by (simp add: tp c)
qed

section \<open>Distinct names lie at distinct paths\<close>

fun join_parts :: "string list \<Rightarrow> string" where
  "join_parts [] = []"
| "join_parts [p] = p"
| "join_parts (p # ps) = p @ CHR ''/'' # join_parts ps"

lemma join_parts_Cons: "ps \<noteq> [] \<Longrightarrow> join_parts (p # ps) = p @ CHR ''/'' # join_parts ps"
  by (cases ps) auto

lemma join_split: "join_parts (split_char (CHR ''/'') s) = s"
proof (induction s)
  case Nil
  then show ?case by simp
next
  case (Cons c cs)
  obtain p ps where ps: "split_char (CHR ''/'') cs = p # ps"
    by (cases "split_char (CHR ''/'') cs") auto
  then show ?case using Cons by (cases ps) (auto simp: join_parts_Cons)
qed

lemma safe_path_parts: "\<not> unsafe_path v \<Longrightarrow> join_path dir v = dir @ split_char (CHR ''/'') v"
  by (auto simp: join_path_def parts_of_def unsafe_path_def forbidden_part_def list_ex_iff
      intro!: filter_True)

lemma safe_paths_distinct:
  assumes "distinct ns" "\<forall>n\<in>set ns. \<not> unsafe_path n"
  shows "distinct (map (join_path dir) ns)"
proof -
  have "inj_on (join_path dir) (set ns)"
  proof (rule inj_onI)
    fix x y
    assume "x \<in> set ns" "y \<in> set ns" "join_path dir x = join_path dir y"
    then have "split_char (CHR ''/'') x = split_char (CHR ''/'') y"
      using assms(2) by (simp add: safe_path_parts)
    then show "x = y" by (metis join_split)
  qed
  then show ?thesis using assms(1) by (simp add: distinct_map)
qed

section \<open>Import, then apply\<close>

lemma prepare_recorded:
  assumes "quiet d" "list_all2 (recorded d dir) fs (r_targets r)" "list_all patch_wf fs"
    and "distinct (map fp_path fs)" "r_version r = 1" "r_root r = dir"
    and "utf8_bytes (map byte_of (r_patch r))" "parse_patch (r_patch r) = Inr fs"
  shows "prepare_targets disk_ops r dir (map t_path (r_targets r)) d
           = (Inr (fs, map (target_at r) (r_targets r)), d)"
proof -
  have names: "map t_path (r_targets r) = map fp_path fs"
    using assms(2) by (induction rule: list_all2_induct) (auto simp: recorded_def)
  have "distinct (map (join_path dir) (map fp_path fs))"
    using assms(3,4) by (intro safe_paths_distinct) (auto simp: list_all_iff patch_wf_def)
  then have d: "distinct (map (\<lambda>t. join_path dir (t_path t)) (r_targets r))"
    unfolding names [symmetric] by (simp add: comp_def)
  have len: "length fs = length (r_targets r)" using assms(2) by (rule list_all2_lengthD)
  have at: "map (\<lambda>t. join_path dir (t_path t)) (r_targets r) = map (target_at r) (r_targets r)"
    by (simp add: target_at_def assms(6))
  show ?thesis
    unfolding prepare_targets_def
    using assms d len
    by (simp add: and_then_def from_utf8_def lift_patch_def give_def check_plan_recorded
        target_paths_recorded take_locks_quiet at)
qed

lemma apply_recorded:
  assumes "quiet d" "list_all2 (recorded d dir) fs (r_targets r)" "r_root r = dir"
    and "distinct (map (target_at r) (r_targets r))"
  shows "\<exists>s d'. apply_locked disk_ops dir False fs (map (\<lambda>t. (t, target_at r t)) (r_targets r)) d = (Inr s, d')
    \<and> (s = Applied \<or> s = Already_Applied)
    \<and> (\<forall>t\<in>set (r_targets r). files d' (target_at r t) = Some (t_after t))"
proof -
  let ?tps = "map (\<lambda>t. (t, target_at r t)) (r_targets r)"
  have rec: "plain_at d dir (t_path t) \<and> files d (target_at r t) = Some (t_before t)"
    if "t \<in> set (r_targets r)" for t
    using assms(2) that assms(3)
    by (induction rule: list_all2_induct) (auto simp: recorded_def target_at_def)
  then have b: "\<forall>(t, p)\<in>set ?tps. files d p = Some (t_before t)" by auto
  obtain v where v: "survey_all disk_ops fs ?tps survey_start d = (Inr v, d)" "all_before v"
    "all_after v \<longrightarrow> (\<forall>(t, p)\<in>set ?tps. t_before t = t_after t)"
    using survey_all_quiet [OF assms(1) b, of survey_start fs] by (auto simp: survey_start_def)
  show ?thesis
  proof (cases "all_after v")
    case True
    then have "t_before t = t_after t" if "t \<in> set (r_targets r)" for t using v(3) that by auto
    moreover have "apply_locked disk_ops dir False fs ?tps d = (Inr Already_Applied, d)"
      using v True by (simp add: apply_locked_def and_then_def give_def)
    ultimately show ?thesis using rec by auto
  next
    case False
    have d: "distinct (map snd ?tps)" using assms(4) by (simp add: comp_def)
    obtain d' where c: "commit_all disk_ops dir [] ?tps d = (Inr (), d')"
      using commit_all_quiet [OF assms(1) _ d, of dir "[]"] rec by auto
    then have "apply_locked disk_ops dir False fs ?tps d = (Inr Applied, d')"
      using v False by (simp add: apply_locked_def and_then_def give_def)
    moreover have "\<forall>t\<in>set (r_targets r). files d' (target_at r t) = Some (t_after t)"
      using local_disk.commit_all_Inr [OF c d] by auto
    ultimately show ?thesis by auto
  qed
qed

lemma import_bytes_Inr:
  assumes "quiet d" "import_bytes disk_ops sensitive encode store cwd bytes d = (Inr (i, r), d')"
  shows "\<exists>fs. d' = d \<and> parse_patch bytes = Inr fs \<and> links d cwd = Some (r_root r) \<and> r_version r = 1
    \<and> r_patch r = bytes \<and> utf8_bytes (map byte_of bytes) \<and> list_all2 (recorded d (r_root r)) fs (r_targets r)"
proof -
  obtain d0 put d1 fs dir d2 ts d3 where c: "cancelled disk_ops d0 = (Inr (), d1)"
    and d0: "(case store of None \<Rightarrow> throw (Store_Error ''unavailable'') | Some put \<Rightarrow> give put) d = (Inr put, d0)"
    and u: "utf8_bytes (map byte_of bytes)" and fs: "parse_patch bytes = Inr fs"
    and k: "lift_fs (canon_op disk_ops cwd) d1 = (Inr dir, d2)"
    and t: "import_targets disk_ops sensitive dir 0 fs d2 = (Inr ts, d3)"
    and r: "r = \<lparr>r_version = 1, r_root = dir, r_patch = bytes, r_targets = ts\<rparr>" "d' = d3"
    using assms(2)
    by (auto simp: import_bytes_def Let_def and_then_Inr from_utf8_Inr lift_patch_Inr store_Inr
        split: if_splits)
  have "d0 = d" using d0 by (cases store) auto
  then have d1: "d1 = d" using c quiet_cancelled [OF assms(1)] by simp
  have "d2 = d \<and> links d cwd = Some dir" using quiet_canon_Inr [OF assms(1)] k d1 by simp
  then show ?thesis using import_targets_Inr [OF assms(1)] t r u fs by auto
qed

end
