(* ===== verification/Wildcard.thy ===== *)
theory Wildcard
  imports Str_Ops
begin

text \<open>
  The pattern matcher of permission rules (\<open>wildcard_match\<close> of
  \<open>capabilities/src/tools/permission_rules.rs\<close>): one loop with a remembered star to fall back to, over
  the characters of pattern and text, each character as its bytes. The reference \<open>glob\<close> is the meaning
  the comment gives: a star stands for any run of characters, a question mark for exactly one,
  everything else for itself.
\<close>

section \<open>The loop\<close>

abbreviation star_char :: string where "star_char \<equiv> ''*''"
abbreviation any_char :: string where "any_char \<equiv> ''?''"

definition skip_stars :: "string list \<Rightarrow> nat \<Rightarrow> nat" where
  "skip_stars p pi = pi + length (takeWhile (\<lambda>c. c = star_char) (drop pi p))"

lemma skip_stars_gt: "pi < length p \<Longrightarrow> p ! pi = star_char \<Longrightarrow> pi < skip_stars p pi"
  by (simp add: skip_stars_def Cons_nth_drop_Suc [symmetric])

lemma skip_stars_le: "pi \<le> length p \<Longrightarrow> skip_stars p pi \<le> length p"
  using length_takeWhile_le [of "\<lambda>c. c = star_char" "drop pi p"] by (simp add: skip_stars_def)

text \<open>
  A state is ahead of its star when the positions to fall back to are not beyond the current ones;
  after the first star or fallback every state is. From then on the star only moves forward, for a fixed
  star the text position to resume from does, and for a fixed one of those the current position does.
\<close>

definition ahead :: "nat \<Rightarrow> nat \<Rightarrow> nat option \<Rightarrow> nat \<Rightarrow> bool" where
  "ahead pi ti star resume \<longleftrightarrow> (case star of None \<Rightarrow> True | Some s \<Rightarrow> s \<le> pi \<and> resume \<le> ti)"

definition stars_left :: "string list \<Rightarrow> nat option \<Rightarrow> nat" where
  "stars_left p star = (case star of None \<Rightarrow> length p + 1 | Some s \<Rightarrow> length p - s)"

text \<open>\<open>star = usize::MAX\<close> of the code is \<open>None\<close>.\<close>

function wild_loop :: "string list \<Rightarrow> string list \<Rightarrow> nat \<Rightarrow> nat \<Rightarrow> nat option \<Rightarrow> nat \<Rightarrow> bool" where
  "wild_loop p t pi ti star resume =
     (if ti < length t then
        if pi < length p \<and> (p ! pi = any_char \<or> p ! pi = t ! ti) then
          wild_loop p t (pi + 1) (ti + 1) star resume
        else if pi < length p \<and> p ! pi = star_char then
          (if skip_stars p pi = length p then True
           else wild_loop p t (skip_stars p pi) ti (Some (skip_stars p pi)) ti)
        else
          (case star of
             Some s \<Rightarrow> wild_loop p t s (resume + 1) star (resume + 1)
           | None \<Rightarrow> False)
      else list_all (\<lambda>c. c = star_char) (drop pi p))"
  by pat_completeness auto
termination
proof (relation "measures
    [\<lambda>(p, t, pi, ti, star, resume). if ahead pi ti star resume then 0 else 1,
     \<lambda>(p, t, pi, ti, star, resume). if ahead pi ti star resume then stars_left p star else 0,
     \<lambda>(p, t, pi, ti, star, resume). if ahead pi ti star resume then length t - resume else 0,
     \<lambda>(p, t, pi, ti, star, resume). length t - ti]", goal_cases)
  case 1
  then show ?case by simp
next
  case (2 p t pi ti star resume)
  then show ?case by (auto simp: ahead_def split: option.splits)
next
  case (3 p t pi ti star resume)
  then show ?case
    using skip_stars_gt [of pi p] skip_stars_le [of pi p]
    by (auto simp: ahead_def stars_left_def split: option.splits)
next
  case (4 p t pi ti star resume s)
  then show ?case by (auto simp: ahead_def split: option.splits)
qed

declare wild_loop.simps [simp del]

definition wildcard_match :: "string \<Rightarrow> string \<Rightarrow> bool" where
  "wildcard_match pattern text' = wild_loop (char_pieces pattern) (char_pieces text') 0 0 None 0"

section \<open>The reference\<close>

fun glob :: "string list \<Rightarrow> string list \<Rightarrow> bool" where
  "glob [] t = (t = [])"
| "glob (c # p) [] = (c = star_char \<and> glob p [])"
| "glob (c # p) (x # t) =
     (if c = star_char then glob p (x # t) \<or> glob (c # p) t
      else (c = any_char \<or> c = x) \<and> glob p t)"

lemma glob_star: "glob (star_char # p) t \<longleftrightarrow> (\<exists>k\<le>length t. glob p (drop k t))"
proof (induction t)
  case Nil
  then show ?case by simp
next
  case (Cons x t)
  have "(\<exists>k\<le>length (x # t). glob p (drop k (x # t))) \<longleftrightarrow>
      glob p (x # t) \<or> (\<exists>k\<le>length t. glob p (drop k t))" (is "?l \<longleftrightarrow> ?r")
  proof
    assume ?l
    then obtain k where k: "k \<le> length (x # t)" "glob p (drop k (x # t))" by blast
    then show ?r by (cases k) auto
  next
    assume ?r
    then show ?l by (metis drop0 drop_Suc_Cons le0 length_Cons not_less_eq_eq)
  qed
  then show ?case using Cons by simp
qed

lemma glob_star_any: "glob (star_char # p) t \<longleftrightarrow> (\<exists>k. glob p (drop k t))"
proof
  assume "\<exists>k. glob p (drop k t)"
  then obtain k where "glob p (drop k t)" by blast
  then have "glob p (drop (min k (length t)) t)" by (cases "k \<le> length t") (auto simp: min_def)
  then show "glob (star_char # p) t" unfolding glob_star by (metis min.cobounded2)
qed (auto simp: glob_star)

lemma glob_Nil_iff: "glob p [] \<longleftrightarrow> list_all (\<lambda>c. c = star_char) p"
  by (induction p) auto

lemma glob_stars: "list_all (\<lambda>c. c = star_char) ss \<Longrightarrow> ss \<noteq> [] \<Longrightarrow> glob (ss @ p) t \<longleftrightarrow> glob (star_char # p) t"
proof (induction ss arbitrary: t)
  case Nil
  then show ?case by simp
next
  case (Cons s ss)
  show ?case
  proof (cases "ss = []")
    case True
    then show ?thesis using Cons.prems by simp
  next
    case False
    then have IH: "glob (ss @ p) u \<longleftrightarrow> glob (star_char # p) u" for u using Cons by simp
    have "glob ((s # ss) @ p) t \<longleftrightarrow> (\<exists>k. glob (ss @ p) (drop k t))"
      using Cons.prems by (simp add: glob_star_any)
    also have "\<dots> \<longleftrightarrow> (\<exists>k j. glob p (drop j (drop k t)))" unfolding IH glob_star_any ..
    also have "\<dots> \<longleftrightarrow> (\<exists>k. glob p (drop k t))" by (metis drop0 drop_drop)
    also have "\<dots> \<longleftrightarrow> glob (star_char # p) t" unfolding glob_star_any ..
    finally show ?thesis .
  qed
qed

lemma glob_skip_stars:
  assumes "pi < length p" "p ! pi = star_char"
  shows "glob (drop pi p) u \<longleftrightarrow> (\<exists>k. glob (drop (skip_stars p pi) p) (drop k u))"
proof -
  let ?ss = "takeWhile (\<lambda>c. c = star_char) (drop pi p)"
  have "drop pi p = ?ss @ dropWhile (\<lambda>c. c = star_char) (drop pi p)" by simp
  moreover have "dropWhile (\<lambda>c. c = star_char) (drop pi p) = drop (skip_stars p pi) p"
    by (simp add: skip_stars_def dropWhile_eq_drop add.commute)
  moreover have "?ss \<noteq> []" using assms by (simp add: Cons_nth_drop_Suc [symmetric])
  moreover have "list_all (\<lambda>c. c = star_char) ?ss" by (auto simp: list_all_iff dest: set_takeWhileD)
  ultimately show ?thesis using glob_stars [of ?ss] glob_star_any by metis
qed

lemma glob_step:
  assumes "pi < length p" "ti < length t" "p ! pi = any_char \<or> p ! pi = t ! ti"
  shows "glob (drop (pi + 1) p) (drop (ti + 1) t) \<Longrightarrow> glob (drop pi p) (drop ti t)"
    and "p ! pi \<noteq> star_char \<Longrightarrow> glob (drop pi p) (drop ti t) \<longleftrightarrow> glob (drop (pi + 1) p) (drop (ti + 1) t)"
proof -
  have d: "drop pi p = p ! pi # drop (pi + 1) p" "drop ti t = t ! ti # drop (ti + 1) t"
    using assms by (simp_all add: Cons_nth_drop_Suc)
  show "p ! pi \<noteq> star_char \<Longrightarrow> glob (drop pi p) (drop ti t) \<longleftrightarrow> glob (drop (pi + 1) p) (drop (ti + 1) t)"
    unfolding d using assms(3) by simp
  show "glob (drop (pi + 1) p) (drop (ti + 1) t) \<Longrightarrow> glob (drop pi p) (drop ti t)"
  proof (cases "p ! pi = star_char")
    case True
    assume "glob (drop (pi + 1) p) (drop (ti + 1) t)"
    then show ?thesis unfolding d True glob_star_any by (metis drop_Suc_Cons drop0)
  next
    case False
    assume "glob (drop (pi + 1) p) (drop (ti + 1) t)"
    then show ?thesis unfolding d using assms(3) False by simp
  qed
qed

lemma glob_mismatch:
  assumes "ti < length t" "\<not> (pi < length p \<and> (p ! pi = any_char \<or> p ! pi = t ! ti))"
    and "\<not> (pi < length p \<and> p ! pi = star_char)"
  shows "\<not> glob (drop pi p) (drop ti t)"
proof (cases "pi < length p")
  case True
  then have "drop pi p = p ! pi # drop (pi + 1) p" "drop ti t = t ! ti # drop (ti + 1) t"
    using assms(1) by (simp_all add: Cons_nth_drop_Suc)
  then show ?thesis using assms True by simp
next
  case False
  then show ?thesis using assms(1) by simp
qed

section \<open>What the loop accepts\<close>

text \<open>A match it reports is one, whatever the text holds.\<close>

lemma wild_loop_sound:
  assumes "wild_loop p t pi ti star resume" "ti \<le> length t"
    and "glob (drop pi p) (drop ti t) \<Longrightarrow> G"
    and "\<And>s k. star = Some s \<Longrightarrow> glob (drop s p) (drop k t) \<Longrightarrow> resume \<le> k \<Longrightarrow> G"
    and "star \<noteq> None \<Longrightarrow> resume \<le> ti"
  shows G
  using assms
proof (induction p t pi ti star resume rule: wild_loop.induct)
  case (1 p t pi ti star resume)
  show ?case
  proof (cases "ti < length t")
    case False
    then have "list_all (\<lambda>c. c = star_char) (drop pi p)" using "1.prems"(1) by (subst (asm) wild_loop.simps) simp
    then show ?thesis using False "1.prems"(3) by (simp add: glob_Nil_iff)
  next
    case ti: True
    show ?thesis
    proof (cases "pi < length p \<and> (p ! pi = any_char \<or> p ! pi = t ! ti)")
      case True
      then have "wild_loop p t (pi + 1) (ti + 1) star resume"
        using "1.prems"(1) ti by (subst (asm) wild_loop.simps) simp
      then show ?thesis
        using "1.IH"(1) [OF ti True] ti True "1.prems" glob_step(1) [of pi p ti t]
        by (metis Suc_eq_plus1 Suc_leI le_SucI)
    next
      case lit: False
      show ?thesis
      proof (cases "pi < length p \<and> p ! pi = star_char")
        case star: True
        note G = glob_skip_stars [of pi p]
        show ?thesis
        proof (cases "skip_stars p pi = length p")
          case True
          have "glob (drop pi p) (drop ti t)"
            using G star True by (metis drop_all drop_eq_Nil glob.simps(1) order_refl)
          then show ?thesis using "1.prems"(3) by blast
        next
          case False
          have k: "G" if "glob (drop (skip_stars p pi) p) (drop k t)" "ti \<le> k" for k
          proof -
            have "drop k t = drop (k - ti) (drop ti t)" using that(2) by simp
            then have "glob (drop pi p) (drop ti t)" using G star that(1) by metis
            then show ?thesis using "1.prems"(3) by blast
          qed
          have "wild_loop p t (skip_stars p pi) ti (Some (skip_stars p pi)) ti"
            using "1.prems"(1) ti lit star False by (subst (asm) wild_loop.simps) auto
          then show ?thesis using "1.IH"(2) [OF ti lit star False] "1.prems"(2) k by auto
        qed
      next
        case False
        then obtain s where s: "star = Some s"
          and rec: "wild_loop p t s (resume + 1) star (resume + 1)"
          using "1.prems"(1) ti lit by (subst (asm) wild_loop.simps) (auto split: option.splits)
        have "resume \<le> ti" using "1.prems"(5) s by simp
        then show ?thesis
          using "1.IH"(3) [OF ti lit False s] rec s "1.prems"(4) ti by (auto simp: Suc_le_eq)
      qed
    qed
  qed
qed

lemma wild_loop_glob: "wild_loop p t 0 0 None 0 \<Longrightarrow> glob p t"
  by (rule wild_loop_sound [of p t 0 0 None 0 "glob p t"]) auto

text \<open>
  On a text without a star it misses none. The characters since the last star match the text since the
  position to resume from; \<open>chance\<close> is that some position from there on still gives a match.
\<close>

definition no_stars :: "string list \<Rightarrow> nat \<Rightarrow> nat \<Rightarrow> bool" where
  "no_stars p s m \<longleftrightarrow> (\<forall>i<m. s + i < length p \<and> p ! (s + i) \<noteq> star_char)"

definition run_matches :: "string list \<Rightarrow> string list \<Rightarrow> nat \<Rightarrow> nat \<Rightarrow> nat \<Rightarrow> bool" where
  "run_matches p t s r m \<longleftrightarrow>
     no_stars p s m \<and> r + m \<le> length t \<and> (\<forall>i<m. p ! (s + i) = any_char \<or> p ! (s + i) = t ! (r + i))"

lemma run_matches_Suc:
  "run_matches p t s r (Suc m) \<longleftrightarrow> run_matches p t s r m \<and> s + m < length p \<and> p ! (s + m) \<noteq> star_char
     \<and> r + m < length t \<and> (p ! (s + m) = any_char \<or> p ! (s + m) = t ! (r + m))"
  by (auto simp: run_matches_def no_stars_def less_Suc_eq)

lemma run_glob:
  "run_matches p t s r m \<Longrightarrow> glob (drop s p) (drop r t) \<longleftrightarrow> glob (drop (s + m) p) (drop (r + m) t)"
  by (induction m) (simp_all add: run_matches_Suc glob_step(2))

lemma shift_glob:
  "no_stars p s m \<Longrightarrow> glob (drop s p) u \<Longrightarrow> m \<le> length u \<and> glob (drop (s + m) p) (drop m u)"
proof (induction m)
  case 0
  then show ?case by simp
next
  case (Suc m)
  have sm: "s + m < length p" "p ! (s + m) \<noteq> star_char" and "no_stars p s m"
    using Suc.prems(1) by (auto simp: no_stars_def)
  then have m: "m \<le> length u" and g: "glob (p ! (s + m) # drop (s + Suc m) p) (drop m u)"
    using Suc by (simp_all add: Cons_nth_drop_Suc)
  have "drop m u \<noteq> []" using g sm(2) by (cases "drop m u") auto
  then have "m < length u" by simp
  then have "drop m u = u ! m # drop (Suc m) u" by (simp add: Cons_nth_drop_Suc)
  then show ?case using g sm(2) \<open>m < length u\<close> by simp
qed

definition tracked :: "string list \<Rightarrow> string list \<Rightarrow> nat \<Rightarrow> nat \<Rightarrow> nat option \<Rightarrow> nat \<Rightarrow> bool" where
  "tracked p t pi ti star resume \<longleftrightarrow> ti \<le> length t \<and>
     (case star of
        None \<Rightarrow> True
      | Some s \<Rightarrow> \<exists>m. pi = s + m \<and> ti = resume + m \<and> run_matches p t s resume m)"

definition chance :: "string list \<Rightarrow> string list \<Rightarrow> nat \<Rightarrow> nat \<Rightarrow> nat option \<Rightarrow> nat \<Rightarrow> bool" where
  "chance p t pi ti star resume \<longleftrightarrow>
     (case star of
        None \<Rightarrow> glob (drop pi p) (drop ti t)
      | Some s \<Rightarrow> \<exists>k\<ge>resume. glob (drop s p) (drop k t))"

lemma tracked_step:
  assumes "tracked p t pi ti star resume" "ti < length t" "pi < length p" "p ! pi \<noteq> star_char"
    and "p ! pi = any_char \<or> p ! pi = t ! ti"
  shows "tracked p t (pi + 1) (ti + 1) star resume"
proof (cases star)
  case None
  then show ?thesis using assms(2) by (simp add: tracked_def)
next
  case (Some s)
  then obtain m where m: "pi = s + m" "ti = resume + m" "run_matches p t s resume m"
    using assms(1) by (auto simp: tracked_def)
  have "run_matches p t s resume (Suc m)" using m assms by (simp add: run_matches_Suc)
  then show ?thesis using m Some assms(2) by (auto simp: tracked_def intro!: exI [of _ "Suc m"])
qed

text \<open>What is true at the current position, of a run that began at the star.\<close>

lemma chance_later:
  assumes "tracked p t pi ti star resume" "chance p t pi ti star resume"
  shows "\<exists>k\<ge>ti. glob (drop pi p) (drop k t)"
proof (cases star)
  case None
  then show ?thesis using assms(2) by (auto simp: chance_def)
next
  case (Some s)
  then obtain m k where m: "pi = s + m" "ti = resume + m" "run_matches p t s resume m"
    and k: "k \<ge> resume" "glob (drop s p) (drop k t)"
    using assms by (auto simp: tracked_def chance_def)
  have "glob (drop pi p) (drop (k + m) t)"
    using shift_glob [of p s m "drop k t"] k(2) m(1,3) by (simp add: run_matches_def add.commute)
  then show ?thesis using k(1) m(2) by (intro exI [of _ "k + m"]) simp
qed

lemma chance_end:
  assumes "tracked p t pi ti star resume" "chance p t pi ti star resume" "ti = length t"
  shows "glob (drop pi p) []"
  using chance_later [OF assms(1,2)] assms(3) by auto

lemma chance_after_mismatch:
  assumes "tracked p t pi ti (Some s) resume" "chance p t pi ti (Some s) resume"
    and "\<not> glob (drop pi p) (drop ti t)"
  shows "chance p t s (resume + 1) (Some s) (resume + 1)"
proof -
  obtain m where m: "pi = s + m" "ti = resume + m" "run_matches p t s resume m"
    using assms(1) by (auto simp: tracked_def)
  obtain k where k: "k \<ge> resume" "glob (drop s p) (drop k t)" using assms(2) by (auto simp: chance_def)
  have "\<not> glob (drop s p) (drop resume t)" using run_glob [OF m(3)] assms(3) m(1,2) by simp
  then have "k \<noteq> resume" using k(2) by blast
  then show ?thesis using k by (auto simp: chance_def intro!: exI [of _ k])
qed

lemma wild_loop_complete:
  assumes "star_char \<notin> set t" "tracked p t pi ti star resume" "chance p t pi ti star resume"
  shows "wild_loop p t pi ti star resume"
  using assms
proof (induction p t pi ti star resume rule: wild_loop.induct)
  case (1 p t pi ti star resume)
  note tr = "1.prems"(2) and ch = "1.prems"(3)
  show ?case
  proof (cases "ti < length t")
    case False
    then have "glob (drop pi p) []" using chance_end [OF tr ch] tr by (simp add: tracked_def)
    then show ?thesis using False by (subst wild_loop.simps) (simp add: glob_Nil_iff)
  next
    case ti: True
    show ?thesis
    proof (cases "pi < length p \<and> (p ! pi = any_char \<or> p ! pi = t ! ti)")
      case True
      have "t ! ti \<noteq> star_char" using nth_mem [OF ti] "1.prems"(1) by metis
      then have ns: "p ! pi \<noteq> star_char" using True by auto
      have "tracked p t (pi + 1) (ti + 1) star resume"
        using tracked_step [OF tr] ti True ns by blast
      moreover have "chance p t (pi + 1) (ti + 1) star resume"
        using ch glob_step(2) [of pi p ti t] True ti ns by (auto simp: chance_def split: option.splits)
      ultimately have "wild_loop p t (pi + 1) (ti + 1) star resume"
        using "1.IH"(1) [OF ti True "1.prems"(1)] by blast
      then show ?thesis using ti True by (subst wild_loop.simps) simp
    next
      case lit: False
      show ?thesis
      proof (cases "pi < length p \<and> p ! pi = star_char")
        case star: True
        show ?thesis
        proof (cases "skip_stars p pi = length p")
          case True
          then show ?thesis using ti lit star by (subst wild_loop.simps) simp
        next
          case False
          obtain k where k: "k \<ge> ti" "glob (drop pi p) (drop k t)" using chance_later [OF tr ch] by blast
          then obtain j where "glob (drop (skip_stars p pi) p) (drop j (drop k t))"
            using glob_skip_stars [of pi p] star by blast
          then have "chance p t (skip_stars p pi) ti (Some (skip_stars p pi)) ti"
            using k(1) by (auto simp: chance_def intro!: exI [of _ "j + k"])
          moreover have "tracked p t (skip_stars p pi) ti (Some (skip_stars p pi)) ti"
            using ti by (auto simp: tracked_def run_matches_def no_stars_def)
          ultimately have "wild_loop p t (skip_stars p pi) ti (Some (skip_stars p pi)) ti"
            using "1.IH"(2) [OF ti lit star False "1.prems"(1)] by blast
          then show ?thesis using ti lit star False by (subst wild_loop.simps) simp
        qed
      next
        case False
        have no: "\<not> glob (drop pi p) (drop ti t)" using glob_mismatch [OF ti lit False] .
        then obtain s where s: "star = Some s" using ch by (auto simp: chance_def split: option.splits)
        have "resume < length t" using tr ti by (auto simp: tracked_def s)
        then have "tracked p t s (resume + 1) (Some s) (resume + 1)"
          by (auto simp: tracked_def run_matches_def no_stars_def)
        moreover have "chance p t s (resume + 1) (Some s) (resume + 1)"
          using chance_after_mismatch tr ch no s by blast
        ultimately have "wild_loop p t s (resume + 1) (Some s) (resume + 1)"
          using "1.IH"(3) [OF ti lit False s "1.prems"(1)] s by simp
        then show ?thesis using ti s unfolding wild_loop.simps [of p t pi] if_not_P [OF lit] if_not_P [OF False] by simp
      qed
    qed
  qed
qed

lemma wildcard_match_glob:
  "wildcard_match pattern text' \<Longrightarrow> glob (char_pieces pattern) (char_pieces text')"
  by (simp add: wildcard_match_def wild_loop_glob)

lemma wildcard_match_iff:
  "star_char \<notin> set (char_pieces text') \<Longrightarrow>
     wildcard_match pattern text' \<longleftrightarrow> glob (char_pieces pattern) (char_pieces text')"
  using wild_loop_complete [of "char_pieces text'" "char_pieces pattern" 0 0 None 0]
  by (auto simp: wildcard_match_def tracked_def chance_def dest: wild_loop_glob)

end
