(* ===== verification/Json.thy ===== *)
theory Json
  imports Str_Ops Floats "HOL-Library.List_Lexorder" "HOL-Library.Char_ord"
begin

text \<open>
  JSON values and the identity of a tool call
  (\<open>crates/atomcode-kernel/src/agent/engine.rs\<close>, \<open>canonicalize_tool_args\<close> and
  \<open>sort_json_object_keys\<close>).

  An object is the list of its entries in iteration order. The parser and the printer are the record
  \<open>serde\<close>; nothing is assumed of them here. The lemmas show that sorting the keys of every object
  decides equality of JSON values up to the order of object keys, which the relation \<open>same_json\<close>
  states without sorting anything.
\<close>

datatype json_number = PosInt u64 | NegInt int | Float f64

datatype json =
    JNull
  | JBool bool
  | JNumber json_number
  | JString string
  | JArray "json list"
  | JObject "(string \<times> json) list"

fun json_get :: "json \<Rightarrow> string \<Rightarrow> json option" where
  "json_get (JObject fields) k = map_of fields k"
| "json_get _ k = None"

fun as_str :: "json \<Rightarrow> string option" where
  "as_str (JString s) = Some s"
| "as_str _ = None"

fun as_array :: "json \<Rightarrow> json list option" where
  "as_array (JArray xs) = Some xs"
| "as_array _ = None"

fun as_bool :: "json \<Rightarrow> bool option" where
  "as_bool (JBool b) = Some b"
| "as_bool _ = None"

record serde =
  from_str :: "string \<Rightarrow> json option"
  to_string :: "json \<Rightarrow> string option"

section \<open>Canonical arguments\<close>

lemma entry_size [termination_simp]: "(k, v) \<in> set kvs \<Longrightarrow> size v < Suc (size_list (size_prod (\<lambda>_. 0) size) kvs)"
  by (induction kvs) auto

fun sort_json_object_keys :: "json \<Rightarrow> json" where
  "sort_json_object_keys (JObject kvs) =
     JObject (foldl (\<lambda>sorted (k, v). bt_insert k v sorted) []
       (sort_key fst (map (\<lambda>(k, v). (k, sort_json_object_keys v)) kvs)))"
| "sort_json_object_keys (JArray vs) = JArray (map sort_json_object_keys vs)"
| "sort_json_object_keys scalar = scalar"

definition canonicalize_tool_args :: "serde \<Rightarrow> string \<Rightarrow> string" where
  "canonicalize_tool_args sd arguments =
     (case from_str sd arguments of
        Some v \<Rightarrow>
          (case to_string sd (sort_json_object_keys v) of Some s \<Rightarrow> s | None \<Rightarrow> arguments)
      | None \<Rightarrow> arguments)"

section \<open>Equality up to the order of keys\<close>

text \<open>No object, at any depth, has a key twice.\<close>

fun json_ok :: "json \<Rightarrow> bool" where
  "json_ok (JObject kvs) \<longleftrightarrow> distinct (map fst kvs) \<and> list_all (\<lambda>(k, v). json_ok v) kvs"
| "json_ok (JArray vs) \<longleftrightarrow> list_all json_ok vs"
| "json_ok _ \<longleftrightarrow> True"

fun json_scalar :: "json \<Rightarrow> bool" where
  "json_scalar (JObject kvs) \<longleftrightarrow> False"
| "json_scalar (JArray vs) \<longleftrightarrow> False"
| "json_scalar _ \<longleftrightarrow> True"

text \<open>Arrays agree position by position, objects as the maps they are.\<close>

inductive same_json :: "json \<Rightarrow> json \<Rightarrow> bool" where
  same_scalar: "json_scalar v \<Longrightarrow> same_json v v"
| same_array: "list_all2 same_json vs ws \<Longrightarrow> same_json (JArray vs) (JArray ws)"
| same_object: "fst ` set kvs = fst ` set kws \<Longrightarrow>
    (\<And>k v w. (k, v) \<in> set kvs \<Longrightarrow> (k, w) \<in> set kws \<Longrightarrow> same_json v w) \<Longrightarrow>
    same_json (JObject kvs) (JObject kws)"

inductive_cases same_objectE: "same_json (JObject kvs) w"
inductive_cases same_arrayE: "same_json (JArray vs) w"

subsection \<open>Sorting\<close>

lemma foldl_bt_insert_sorted:
  "sorted_wrt (<) (map fst (m @ kvs)) \<Longrightarrow>
   foldl (\<lambda>sorted (k, v). bt_insert k v sorted) m kvs = m @ kvs"
proof (induction kvs arbitrary: m)
  case (Cons e kvs)
  obtain k v where e: "e = (k, v)" by (cases e)
  from Cons.prems have "\<forall>k'\<in>fst ` set m. k' < k" by (auto simp: sorted_wrt_append e)
  then have "bt_insert k v m = m @ [e]" by (simp add: bt_insert_last e)
  with Cons show ?case by (simp add: e)
qed simp

lemma sort_object:
  assumes "distinct (map fst kvs)"
  shows "sort_json_object_keys (JObject kvs) =
    JObject (sort_key fst (map (\<lambda>(k, v). (k, sort_json_object_keys v)) kvs))"
proof -
  let ?xs = "map (\<lambda>(k, v). (k, sort_json_object_keys v)) kvs"
  have keys: "map fst ?xs = map fst kvs" by (induction kvs) auto
  have "mset (map fst (sort_key fst ?xs)) = mset (map fst kvs)"
    by (simp only: mset_map mset_sort) (simp add: keys [symmetric] flip: mset_map)
  then have "distinct (map fst (sort_key fst ?xs))"
    using assms by (metis mset_eq_imp_distinct_iff)
  moreover have "sorted (map fst (sort_key fst ?xs))" by simp
  ultimately have "sorted_wrt (<) (map fst ([] @ sort_key fst ?xs))"
    by (simp add: strict_sorted_iff)
  from foldl_bt_insert_sorted [OF this] show ?thesis by simp
qed

lemma sorted_entries_unique:
  assumes "distinct (map fst xs)" "distinct (map fst ys)" "set xs = set ys"
  shows "sort_key fst xs = sort_key fst (ys :: (string \<times> 'b) list)"
proof -
  have "mset xs = mset ys"
    using assms by (metis distinct_map set_eq_iff_mset_eq_distinct)
  moreover have "inj_on fst (set xs)" using assms(1) by (simp add: distinct_map)
  ultimately show ?thesis
    by (intro sort_key_inj_key_eq) simp_all
qed

lemma sorted_entries:
  "set (map (\<lambda>(k, v). (k, f v)) kvs) = (\<lambda>(k, v). (k, f v)) ` set kvs"
  "map fst (map (\<lambda>(k, v). (k, f v)) kvs) = map fst kvs"
  by (auto simp: comp_def split_beta)

text \<open>Values that are the same up to key order sort to the same value.\<close>

lemma same_json_sort:
  "same_json v w \<Longrightarrow> json_ok v \<Longrightarrow> json_ok w \<Longrightarrow> sort_json_object_keys v = sort_json_object_keys w"
proof (induction rule: same_json.induct)
  case (same_array vs ws)
  then show ?case by (auto simp: list_all2_conv_all_nth list_all_length intro: nth_equalityI)
next
  case (same_object kvs kws)
  let ?f = "\<lambda>(k, v). (k, sort_json_object_keys v)"
  have ok: "distinct (map fst kvs)" "distinct (map fst kws)" using same_object.prems by auto
  have eq: "sort_json_object_keys v = sort_json_object_keys w"
    if "(k, v) \<in> set kvs" "(k, w) \<in> set kws" for k v w
    using same_object.IH [OF that] same_object.prems that by (auto simp: list_all_iff)
  have "?f ` set kvs = ?f ` set kws"
  proof (intro equalityI subsetI; clarify)
    fix k v assume kv: "(k, v) \<in> set kvs"
    then obtain w where kw: "(k, w) \<in> set kws" using same_object.hyps(1) by force
    show "(k, sort_json_object_keys v) \<in> ?f ` set kws" using eq [OF kv kw] kw by force
  next
    fix k w assume kw: "(k, w) \<in> set kws"
    then obtain v where kv: "(k, v) \<in> set kvs" using same_object.hyps(1) by force
    show "(k, sort_json_object_keys w) \<in> ?f ` set kvs" using eq [OF kv kw] kv by force
  qed
  then show ?case
    using ok by (simp only: sort_object json.inject) (intro sorted_entries_unique; simp only: sorted_entries)
qed simp

text \<open>And only those.\<close>

lemma sort_same_json:
  "sort_json_object_keys v = sort_json_object_keys w \<Longrightarrow> json_ok v \<Longrightarrow> json_ok w \<Longrightarrow> same_json v w"
proof (induction v arbitrary: w)
  case (JArray vs)
  from JArray.prems(1) obtain ws where w: "w = JArray ws" by (cases w) auto
  with JArray.prems have eq: "map sort_json_object_keys vs = map sort_json_object_keys ws"
    and ok: "list_all json_ok vs" "list_all json_ok ws" by auto
  have "list_all2 same_json vs ws"
  proof (intro list_all2_all_nthI)
    show "length vs = length ws" using eq by (rule map_eq_imp_length_eq)
    fix i assume "i < length vs"
    moreover from this eq have "i < length ws" "sort_json_object_keys (vs ! i) = sort_json_object_keys (ws ! i)"
      by (metis map_eq_imp_length_eq, metis length_map nth_map)
    ultimately show "same_json (vs ! i) (ws ! i)"
      using ok by (intro JArray.IH) (auto simp: list_all_length)
  qed
  then show ?case by (simp add: w same_array)
next
  case (JObject kvs)
  from JObject.prems(1) obtain kws where w: "w = JObject kws" by (cases w) auto
  let ?f = "\<lambda>(k, v). (k, sort_json_object_keys v)"
  have ok: "distinct (map fst kvs)" "distinct (map fst kws)" using JObject.prems w by auto
  have "sort_key fst (map ?f kvs) = sort_key fst (map ?f kws)"
    using JObject.prems(1) ok by (simp only: w sort_object json.inject)
  then have "set (sort_key fst (map ?f kvs)) = set (sort_key fst (map ?f kws))" by simp
  then have same: "?f ` set kvs = ?f ` set kws" by simp
  have keys: "fst ` set kvs = fst ` set kws"
  proof -
    have "fst ` ?f ` set kvs = fst ` ?f ` set kws" using same by simp
    then show ?thesis by (simp add: image_image split_beta)
  qed
  have "same_json v u" if kv: "(k, v) \<in> set kvs" and ku: "(k, u) \<in> set kws" for k v u
  proof -
    have "?f (k, v) \<in> ?f ` set kws" using imageI [OF kv, of ?f] same by simp
    then obtain u' where u': "(k, u') \<in> set kws" "sort_json_object_keys v = sort_json_object_keys u'"
      by (auto simp: image_iff)
    have "u' = u" using ok(2) ku u'(1) by (meson eq_key_imp_eq_value)
    with u'(2) have eq: "sort_json_object_keys v = sort_json_object_keys u" by simp
    have "list_all (\<lambda>(k, v). json_ok v) kvs" "list_all (\<lambda>(k, v). json_ok v) kws"
      using JObject.prems(2,3) w by simp_all
    with kv ku have "json_ok v" "json_ok u" by (auto simp only: list_all_iff split: prod.splits)
    with eq show ?thesis by (intro JObject.IH [OF kv]) simp_all
  qed
  then show ?case unfolding w by (intro same_object keys)
qed (case_tac w; force intro: same_scalar)+

lemma sort_json_exact:
  "json_ok v \<Longrightarrow> json_ok w \<Longrightarrow>
   sort_json_object_keys v = sort_json_object_keys w \<longleftrightarrow> same_json v w"
  using same_json_sort sort_same_json by blast

end
