(* ===== verification/Permission_Rules.thy ===== *)
theory Permission_Rules
  imports Wildcard Json
begin

text \<open>
  User-declared permission rules (\<open>capabilities/src/tools/permission_rules.rs\<close>) and the helpers they
  call: comment stripping and normal form of a command (\<open>tools/bash.rs\<close>), the target arguments of a
  call and path resolution (\<open>tools/mod.rs\<close>, \<open>pathutil.rs\<close>; on Unix).

  What the rules ask of other parts is the record \<open>surroundings\<close>: the JSON parser, Unicode lower case, the
  analysis of a shell command (which rests on a parser that is not in the repository), the list of
  sensitive paths, and the home directory. Nothing is assumed of them. A JSON value printed and parsed
  again is taken as the value itself.
\<close>

section \<open>Helpers\<close>

record surroundings =
  parse_json :: "string \<Rightarrow> json option"
  to_lowercase :: "string \<Rightarrow> string"
  bash_invocations :: "string \<Rightarrow> (string \<times> string list) list option"
  bash_permission_segments :: "string \<Rightarrow> string list option"
  is_read_only_bash :: "string \<Rightarrow> bool"
  references :: "string \<Rightarrow> bool"
  home_dir :: "string option"

text \<open>\<open>strip_bash_comments\<close>, over characters. The loop's state is the open quote and whether the last
  character ended a word.\<close>

definition is_boundary :: "string \<Rightarrow> bool" where
  "is_boundary c \<longleftrightarrow> is_space c \<or> c \<in> {'';'', ''&'', ''|'', ''(''}"

definition to_eol :: "string list \<Rightarrow> string list" where
  "to_eol cs = dropWhile (\<lambda>c. c \<noteq> [newline]) cs"

lemma to_eol_length: "length (to_eol cs) \<le> length cs"
  by (simp add: to_eol_def length_dropWhile_le)

lemma to_eol_less: "to_eol cs = n # cs' \<Longrightarrow> length cs' < Suc (length cs)"
  using to_eol_length [of cs] by simp

function strip_comments :: "string option \<Rightarrow> bool \<Rightarrow> string list \<Rightarrow> string list" where
  "strip_comments quote boundary [] = []"
| "strip_comments quote boundary (c # cs) =
     (case quote of
        Some q \<Rightarrow>
          (if q = [CHR 0x22] \<and> c = [CHR 0x5C] then
             (case cs of [] \<Rightarrow> [c] | n # cs' \<Rightarrow> c # n # strip_comments quote False cs')
           else c # strip_comments (if c = q then None else quote) False cs)
      | None \<Rightarrow>
          (if c = [CHR 0x5C] then
             (case cs of [] \<Rightarrow> [c] | n # cs' \<Rightarrow> c # n # strip_comments None False cs')
           else if c = [CHR 0x27] \<or> c = [CHR 0x22] then c # strip_comments (Some c) False cs
           else if c = ''#'' \<and> boundary then
             (case to_eol cs of [] \<Rightarrow> [] | n # cs' \<Rightarrow> n # strip_comments None True cs')
           else c # strip_comments None (is_boundary c) cs))"
  by pat_completeness auto
termination
  by (relation "measure (\<lambda>(_, _, cs). length cs)") (auto dest: to_eol_less)

definition strip_bash_comments :: "string \<Rightarrow> string" where
  "strip_bash_comments cmd = concat (strip_comments None True (char_pieces cmd))"

fun join_words :: "string list \<Rightarrow> string" where
  "join_words [] = []"
| "join_words [w] = w"
| "join_words (w # ws) = w @ CHR '' '' # join_words ws"

definition normalize_command_for_grant :: "string \<Rightarrow> string" where
  "normalize_command_for_grant command = join_words (split_whitespace (strip_bash_comments command))"

definition is_powershell_tool :: "string \<Rightarrow> bool" where
  "is_powershell_tool name \<longleftrightarrow> name \<in> {''pwsh'', ''pwsh_start''}"

definition TARGET_ARG_KEYS :: "string list" where
  "TARGET_ARG_KEYS = [''file_path'', ''path'', ''pattern'', ''url'', ''query'']"

definition str_field :: "json \<Rightarrow> string \<Rightarrow> string option" where
  "str_field v k = Option.bind (json_get v k) as_str"

definition target_arg_values :: "json option \<Rightarrow> string list" where
  "target_arg_values parsed =
     (case parsed of
        None \<Rightarrow> []
      | Some v \<Rightarrow>
          List.map_filter (str_field v) TARGET_ARG_KEYS
          @ (case Option.bind (json_get v ''file_paths'') as_array of
               Some ps \<Rightarrow> List.map_filter as_str ps
             | None \<Rightarrow> []))"

definition tilde_rest :: "string \<Rightarrow> string option" where
  "tilde_rest raw = (if raw = ''~'' then Some [] else strip_prefix ''~/'' raw)"

definition join_str :: "string \<Rightarrow> string \<Rightarrow> string" where
  "join_str dir s =
     (if prefix ''/'' s \<or> dir = [] then s
      else if last dir = CHR ''/'' then dir @ s else dir @ CHR ''/'' # s)"

definition expand_tilde_with_home :: "string \<Rightarrow> string option \<Rightarrow> string option" where
  "expand_tilde_with_home raw home =
     (case tilde_rest raw of
        None \<Rightarrow> None
      | Some rest \<Rightarrow>
          (case home of
             None \<Rightarrow> None
           | Some h \<Rightarrow>
               if rest = [] then Some h
               else Some (join_str h (dropWhile (\<lambda>c. c = CHR ''/'') rest))))"

definition is_alpha :: "char \<Rightarrow> bool" where
  "is_alpha c \<longleftrightarrow> (65 \<le> byte_of c \<and> byte_of c \<le> 90) \<or> (97 \<le> byte_of c \<and> byte_of c \<le> 122)"

definition is_absolute_path :: "string \<Rightarrow> bool" where
  "is_absolute_path raw \<longleftrightarrow>
     prefix ''/'' raw
     \<or> (3 \<le> length raw \<and> is_alpha (raw ! 0) \<and> raw ! 1 = CHR '':'' \<and> raw ! 2 \<in> {CHR 0x5C, CHR ''/''})
     \<or> (2 \<le> length raw \<and> raw ! 0 = CHR 0x5C \<and> raw ! 1 = CHR 0x5C)"

definition resolve_path :: "string option \<Rightarrow> string \<Rightarrow> string \<Rightarrow> string" where
  "resolve_path home raw cwd =
     (case expand_tilde_with_home raw home of
        Some p \<Rightarrow> p
      | None \<Rightarrow> if is_absolute_path raw then raw else join_str cwd raw)"

section \<open>Rules\<close>

datatype rule_decision = Deny | Allow | NoMatch

record permission_rule =
  pr_raw :: string
  pr_source :: "string option"
  pr_tool :: string
  pr_pattern :: "string option"

record permission_rules =
  pr_allow :: "permission_rule list"
  pr_deny :: "permission_rule list"

definition canonical_tool :: "surroundings \<Rightarrow> string \<Rightarrow> string" where
  "canonical_tool env name =
     (let squashed = concat (map (to_lowercase env) (filter (\<lambda>c. c \<noteq> ''_'') (char_pieces name))) in
      if squashed = ''read'' then ''readfile''
      else if squashed = ''write'' then ''writefile''
      else if squashed = ''edit'' then ''editfile''
      else if squashed = ''ls'' \<or> squashed = ''list'' then ''listdirectory''
      else if squashed = ''multiedit'' \<or> squashed = ''paralleledit'' then ''paralleleditfiles''
      else if squashed = ''shell'' \<or> squashed = ''terminal'' then ''bash''
      else if squashed = ''powershell'' then ''pwsh''
      else if squashed = ''todo'' then ''todowrite''
      else squashed)"

definition rule_parse :: "surroundings \<Rightarrow> string \<Rightarrow> permission_rule option" where
  "rule_parse env raw =
     (let raw = str_trim raw in
      if raw = [] then None
      else if CHR ''('' \<notin> set raw then
        (if CHR '')'' \<in> set raw then None
         else Some \<lparr>pr_raw = raw, pr_source = None, pr_tool = canonical_tool env raw, pr_pattern = None\<rparr>)
      else if last raw \<noteq> CHR '')'' then None
      else
        (let tool = str_trim (takeWhile (\<lambda>c. c \<noteq> CHR ''('') raw) in
         if tool = [] then None
         else
           (let pattern = str_trim (butlast (tl (dropWhile (\<lambda>c. c \<noteq> CHR ''('') raw))) in
            if pattern = [] then None
            else Some \<lparr>pr_raw = raw, pr_source = None, pr_tool = canonical_tool env tool,
                       pr_pattern = Some pattern\<rparr>)))"

text \<open>A trailing \<open>:*\<close> is Claude Code's spelling of a prefix rule.\<close>

definition rule_pattern :: "string \<Rightarrow> string" where
  "rule_pattern pattern = (if suffix '':*'' pattern then take (length pattern - 2) pattern @ ''*'' else pattern)"

definition rule_matches :: "surroundings \<Rightarrow> permission_rule \<Rightarrow> string \<Rightarrow> string list \<Rightarrow> bool" where
  "rule_matches env r tool targets \<longleftrightarrow>
     (if pr_tool r \<noteq> ''*'' \<and> pr_tool r \<noteq> canonical_tool env tool then False
      else (case pr_pattern r of
              None \<Rightarrow> True
            | Some p \<Rightarrow> list_ex (wildcard_match (rule_pattern p)) targets))"

section \<open>Rule sets\<close>

definition with_source :: "permission_rules \<Rightarrow> string \<Rightarrow> permission_rules" where
  "with_source rs source =
     \<lparr>pr_allow = map (\<lambda>r. r\<lparr>pr_source := Some source\<rparr>) (pr_allow rs),
      pr_deny = map (\<lambda>r. r\<lparr>pr_source := Some source\<rparr>) (pr_deny rs)\<rparr>"

definition extend_rules :: "permission_rules \<Rightarrow> permission_rules \<Rightarrow> permission_rules" where
  "extend_rules rs other = \<lparr>pr_allow = pr_allow rs @ pr_allow other, pr_deny = pr_deny rs @ pr_deny other\<rparr>"

definition denies_tool :: "surroundings \<Rightarrow> permission_rules \<Rightarrow> string \<Rightarrow> bool" where
  "denies_tool env rs tool = list_ex (\<lambda>r. pr_pattern r = None \<and> rule_matches env r tool []) (pr_deny rs)"

definition has_tool_denies :: "permission_rules \<Rightarrow> bool" where
  "has_tool_denies rs = list_ex (\<lambda>r. pr_pattern r = None) (pr_deny rs)"

definition parse_list :: "surroundings \<Rightarrow> string list \<Rightarrow> permission_rule list \<times> string list" where
  "parse_list env xs = (List.map_filter (rule_parse env) xs, filter (\<lambda>x. rule_parse env x = None) xs)"

definition rules_parse :: "surroundings \<Rightarrow> string list \<Rightarrow> string list \<Rightarrow> permission_rules \<times> string list" where
  "rules_parse env allow deny =
     (let d = parse_list env deny; a = parse_list env allow
      in (\<lparr>pr_allow = fst a, pr_deny = fst d\<rparr>, snd d @ snd a))"

definition rules_empty :: "permission_rules \<Rightarrow> bool" where
  "rules_empty rs \<longleftrightarrow> pr_allow rs = [] \<and> pr_deny rs = []"

section \<open>Deciding\<close>

definition is_bash :: "surroundings \<Rightarrow> string \<Rightarrow> bool" where
  "is_bash env tool \<longleftrightarrow> canonical_tool env tool \<in> {''bash'', ''bashstart''}"

definition match_targets :: "surroundings \<Rightarrow> string \<Rightarrow> json option \<Rightarrow> string \<Rightarrow> string list" where
  "match_targets env tool parsed cwd =
     (case parsed of
        None \<Rightarrow> []
      | Some v \<Rightarrow>
          if canonical_tool env tool \<in> {''bash'', ''bashstart'', ''pwsh'', ''pwshstart''} then
            (case str_field v ''command'' of
               None \<Rightarrow> []
             | Some c \<Rightarrow>
                 if is_powershell_tool tool then [str_trim c] else [normalize_command_for_grant c])
          else
            concat (map (\<lambda>raw. let resolved = resolve_path (home_dir env) raw cwd in
                            if resolved \<noteq> raw then [resolved, raw] else [raw])
                      (target_arg_values parsed)))"

definition command_of :: "surroundings \<Rightarrow> string \<Rightarrow> string option" where
  "command_of env args = Option.bind (parse_json env args) (\<lambda>v. str_field v ''command'')"

text \<open>What a deny rule is held against: the targets and every nested invocation of a shell command.\<close>

definition deny_targets :: "surroundings \<Rightarrow> string \<Rightarrow> string \<Rightarrow> string \<Rightarrow> string list" where
  "deny_targets env tool args cwd =
     match_targets env tool (parse_json env args) cwd
     @ (if is_bash env tool then
          (case Option.bind (command_of env args) (bash_invocations env) of
             Some is' \<Rightarrow> map (\<lambda>(c, as). normalize_command_for_grant (join_words (c # as))) is'
           | None \<Rightarrow> [])
        else [])"

definition rule_denies :: "surroundings \<Rightarrow> string \<Rightarrow> string \<Rightarrow> string \<Rightarrow> permission_rule \<Rightarrow> bool" where
  "rule_denies env tool args cwd r \<longleftrightarrow>
     rule_matches env r tool (deny_targets env tool args cwd)
     \<or> (is_powershell_tool tool
        \<and> (let targets = match_targets env tool (parse_json env args) cwd in
           rule_matches env r ''bash'' targets
           \<or> (tool = ''pwsh_start'' \<and> rule_matches env r ''bash_start'' targets)))"

text \<open>The loop over the segments of a script: whether each is covered and some explicitly.\<close>

fun segments_covered ::
  "surroundings \<Rightarrow> permission_rules \<Rightarrow> string \<Rightarrow> bool \<Rightarrow> bool \<Rightarrow> string list \<Rightarrow> rule_decision" where
  "segments_covered env rs tool exact authorized [] = (if authorized then Allow else NoMatch)"
| "segments_covered env rs tool exact authorized (s # ss) =
     (let allowed = (exact \<or> list_ex (\<lambda>r. rule_matches env r tool [s]) (pr_allow rs)) in
      if \<not> allowed \<and> \<not> is_read_only_bash env s then NoMatch
      else segments_covered env rs tool exact (authorized \<or> allowed) ss)"

definition exact_script :: "surroundings \<Rightarrow> permission_rules \<Rightarrow> string \<Rightarrow> string list \<Rightarrow> bool" where
  "exact_script env rs tool targets =
     list_ex (\<lambda>r. (case pr_pattern r of Some p \<Rightarrow> CHR ''*'' \<notin> set p \<and> CHR ''?'' \<notin> set p | None \<Rightarrow> False)
                  \<and> rule_matches env r tool targets) (pr_allow rs)"

definition decide_bash :: "surroundings \<Rightarrow> permission_rules \<Rightarrow> string \<Rightarrow> string \<Rightarrow> string list \<Rightarrow> rule_decision" where
  "decide_bash env rs tool args targets =
     (if references env args then NoMatch
      else
        (case Option.bind (command_of env args) (bash_permission_segments env) of
           None \<Rightarrow> NoMatch
         | Some segments \<Rightarrow>
             (let exact = exact_script env rs tool targets
              in segments_covered env rs tool exact exact segments)))"

definition path_allowed :: "surroundings \<Rightarrow> permission_rules \<Rightarrow> string \<Rightarrow> string \<Rightarrow> json \<Rightarrow> bool" where
  "path_allowed env rs tool cwd path =
     (case as_str path of
        Some p \<Rightarrow>
          (let targets = match_targets env tool (Some (JObject [(''file_path'', JString p)])) cwd
           in list_ex (\<lambda>r. rule_matches env r tool targets) (pr_allow rs))
      | None \<Rightarrow> False)"

definition decide_patch :: "surroundings \<Rightarrow> permission_rules \<Rightarrow> string \<Rightarrow> string \<Rightarrow> string \<Rightarrow> rule_decision" where
  "decide_patch env rs tool args cwd =
     (case Option.bind (parse_json env args) (\<lambda>v. Option.bind (json_get v ''file_paths'') as_array) of
        None \<Rightarrow> NoMatch
      | Some paths \<Rightarrow>
          if paths = [] \<or> references env args then NoMatch
          else if list_all (path_allowed env rs tool cwd) paths then Allow else NoMatch)"

definition rules_decide :: "surroundings \<Rightarrow> permission_rules \<Rightarrow> string \<Rightarrow> string \<Rightarrow> string \<Rightarrow> rule_decision" where
  "rules_decide env rs tool args cwd =
     (if rules_empty rs then NoMatch
      else
        (let targets = match_targets env tool (parse_json env args) cwd in
         if list_ex (rule_denies env tool args cwd) (pr_deny rs) then Deny
         else if is_bash env tool then decide_bash env rs tool args targets
         else if tool = ''apply_patch'' then decide_patch env rs tool args cwd
         else if list_ex (\<lambda>r. rule_matches env r tool targets) (pr_allow rs) then
           (if references env args \<or> is_powershell_tool tool then NoMatch else Allow)
         else NoMatch))"

section \<open>What a decision means\<close>

text \<open>An allow rule covers the segment of a script.\<close>

definition covered :: "surroundings \<Rightarrow> permission_rules \<Rightarrow> string \<Rightarrow> string \<Rightarrow> bool" where
  "covered env rs tool s \<longleftrightarrow> (\<exists>r\<in>set (pr_allow rs). rule_matches env r tool [s])"

lemma segments_covered_Allow:
  "segments_covered env rs tool exact authorized ss = Allow \<longleftrightarrow>
     (\<forall>s\<in>set ss. exact \<or> covered env rs tool s \<or> is_read_only_bash env s)
     \<and> (authorized \<or> (\<exists>s\<in>set ss. exact \<or> covered env rs tool s))"
  by (induction ss arbitrary: authorized) (auto simp: Let_def covered_def list_ex_iff)

lemma segments_covered_not_Deny: "segments_covered env rs tool exact authorized ss \<noteq> Deny"
  by (induction ss arbitrary: authorized) (auto simp: Let_def)

lemma decide_bash_not_Deny: "decide_bash env rs tool args targets \<noteq> Deny"
  by (auto simp: decide_bash_def Let_def segments_covered_not_Deny split: option.splits)

lemma decide_patch_not_Deny: "decide_patch env rs tool args cwd \<noteq> Deny"
  by (auto simp: decide_patch_def split: option.splits)

lemma decide_Deny:
  "rules_decide env rs tool args cwd = Deny \<longleftrightarrow> (\<exists>r\<in>set (pr_deny rs). rule_denies env tool args cwd r)"
  by (auto simp: rules_decide_def Let_def rules_empty_def list_ex_iff decide_bash_not_Deny decide_patch_not_Deny)

lemma decide_Allow:
  assumes "rules_decide env rs tool args cwd = Allow"
  shows "\<not> references env args" and "\<not> is_powershell_tool tool \<or> is_bash env tool"
    and "\<not> (\<exists>r\<in>set (pr_deny rs). rule_denies env tool args cwd r)"
    and "is_bash env tool \<Longrightarrow>
      decide_bash env rs tool args (match_targets env tool (parse_json env args) cwd) = Allow"
  using assms
  by (auto simp: rules_decide_def Let_def list_ex_iff decide_bash_def decide_patch_def is_powershell_tool_def
      split: if_splits option.splits)

lemma decide_bash_Allow:
  assumes "decide_bash env rs tool args targets = Allow"
  shows "\<exists>c segs. command_of env args = Some c \<and> bash_permission_segments env c = Some segs
    \<and> (exact_script env rs tool targets
       \<or> (\<forall>s\<in>set segs. covered env rs tool s \<or> is_read_only_bash env s) \<and> (\<exists>s\<in>set segs. covered env rs tool s))"
  using assms
  by (auto simp: decide_bash_def Let_def segments_covered_Allow Option.bind_eq_Some_conv
      split: if_splits option.splits)

text \<open>More allow rules and no new denial keep a call allowed.\<close>

lemma covered_mono: "set (pr_allow a) \<subseteq> set (pr_allow c) \<Longrightarrow> covered env a tool s \<Longrightarrow> covered env c tool s"
  by (auto simp: covered_def)

lemma exact_script_mono:
  "set (pr_allow a) \<subseteq> set (pr_allow c) \<Longrightarrow> exact_script env a tool ts \<Longrightarrow> exact_script env c tool ts"
  by (auto simp: exact_script_def list_ex_iff)

lemma decide_bash_mono:
  assumes sub: "set (pr_allow a) \<subseteq> set (pr_allow c)" and allow: "decide_bash env a tool args ts = Allow"
  shows "decide_bash env c tool args ts = Allow"
proof -
  obtain k segs where s: "command_of env args = Some k" "bash_permission_segments env k = Some segs"
    and "exact_script env a tool ts
       \<or> (\<forall>s\<in>set segs. covered env a tool s \<or> is_read_only_bash env s) \<and> (\<exists>s\<in>set segs. covered env a tool s)"
    using decide_bash_Allow [OF allow] by blast
  then have "exact_script env c tool ts
       \<or> (\<forall>s\<in>set segs. covered env c tool s \<or> is_read_only_bash env s) \<and> (\<exists>s\<in>set segs. covered env c tool s)"
    using exact_script_mono [OF sub] covered_mono [OF sub] by blast
  moreover have "\<not> references env args" using allow by (auto simp: decide_bash_def)
  ultimately show ?thesis using s by (auto simp: decide_bash_def Let_def segments_covered_Allow)
qed

lemma path_allowed_mono:
  "set (pr_allow a) \<subseteq> set (pr_allow c) \<Longrightarrow> path_allowed env a tool cwd p \<Longrightarrow> path_allowed env c tool cwd p"
  by (auto simp: path_allowed_def list_ex_iff Let_def split: option.splits)

lemma decide_patch_Allow:
  "decide_patch env rs tool args cwd = Allow \<longleftrightarrow>
     (\<exists>ps. Option.bind (parse_json env args) (\<lambda>v. Option.bind (json_get v ''file_paths'') as_array) = Some ps
        \<and> ps \<noteq> [] \<and> \<not> references env args \<and> (\<forall>p\<in>set ps. path_allowed env rs tool cwd p))"
  by (auto simp: decide_patch_def list_all_iff split: option.splits)

lemma decide_patch_mono:
  assumes sub: "set (pr_allow a) \<subseteq> set (pr_allow c)" and allow: "decide_patch env a tool args cwd = Allow"
  shows "decide_patch env c tool args cwd = Allow"
  using allow path_allowed_mono [OF sub] unfolding decide_patch_Allow by blast

lemma no_allow_rules:
  assumes "pr_allow a = []"
  shows "rules_decide env a tool args cwd \<noteq> Allow"
proof -
  have "decide_bash env a tool args ts \<noteq> Allow" for ts
    using decide_bash_Allow [of env a tool args ts] assms by (auto simp: exact_script_def covered_def)
  moreover have "decide_patch env a tool args cwd \<noteq> Allow"
  proof
    assume "decide_patch env a tool args cwd = Allow"
    then obtain ps where "ps \<noteq> []" "\<forall>p\<in>set ps. path_allowed env a tool cwd p"
      unfolding decide_patch_Allow by blast
    then show False using assms by (cases ps) (auto simp: path_allowed_def Let_def split: option.splits)
  qed
  ultimately show ?thesis using assms by (auto simp: rules_decide_def Let_def)
qed

lemma decide_mono:
  assumes sub: "set (pr_allow a) \<subseteq> set (pr_allow c)" and allow: "rules_decide env a tool args cwd = Allow"
    and deny: "rules_decide env c tool args cwd \<noteq> Deny"
  shows "rules_decide env c tool args cwd = Allow"
proof -
  have nd: "\<not> list_ex (rule_denies env tool args cwd) (pr_deny c)"
    using deny by (simp add: decide_Deny list_ex_iff)
  have na: "\<not> list_ex (rule_denies env tool args cwd) (pr_deny a)"
    using decide_Allow(3) [OF allow] by (simp add: list_ex_iff)
  have "pr_allow a \<noteq> []" using no_allow_rules allow by blast
  then have ne: "\<not> rules_empty c" "\<not> rules_empty a" using sub by (auto simp: rules_empty_def)
  let ?t = "match_targets env tool (parse_json env args) cwd"
  have step: "rules_decide env rs tool args cwd =
      (if is_bash env tool then decide_bash env rs tool args ?t
       else if tool = ''apply_patch'' then decide_patch env rs tool args cwd
       else if list_ex (\<lambda>r. rule_matches env r tool ?t) (pr_allow rs) then
           (if references env args \<or> is_powershell_tool tool then NoMatch else Allow)
       else NoMatch)"
    if "\<not> rules_empty rs" "\<not> list_ex (rule_denies env tool args cwd) (pr_deny rs)" for rs
    using that by (simp add: rules_decide_def Let_def)
  have ex: "list_ex (\<lambda>r. rule_matches env r tool ?t) (pr_allow a)
      \<Longrightarrow> list_ex (\<lambda>r. rule_matches env r tool ?t) (pr_allow c)"
    using sub by (auto simp: list_ex_iff)
  show ?thesis
    using allow ex decide_bash_mono [OF sub] decide_patch_mono [OF sub]
    unfolding step [OF ne(1) nd] step [OF ne(2) na] by (auto split: if_splits)
qed

lemma decide_extend:
  "rules_decide env (extend_rules a b) tool args cwd = Deny \<longleftrightarrow>
     rules_decide env a tool args cwd = Deny \<or> rules_decide env b tool args cwd = Deny"
  by (auto simp: decide_Deny extend_rules_def)

end
