(* ===== verification/Tool_Properties.thy ===== *)
theory Tool_Properties
  imports Import_Apply Permission_Rules
begin

text \<open>
  The properties of the tools that change files and of the rules that say which calls may run, each
  with the concrete input at which its hypotheses hold.
\<close>

section \<open>Values\<close>

abbreviation nl :: string where "nl \<equiv> [newline]"

definition sample_patch :: string where
  "sample_patch = concat [''--- a/d/f'', nl, ''+++ b/d/f'', nl, ''@@ -1,2 +1,2 @@'', nl, '' a'', nl, ''-b'', nl, ''+c'', nl]"

definition sample_file_patch :: file_patch where
  "sample_file_patch = \<lparr>fp_path = ''d/f'', fp_hunks =
     [\<lparr>h_old = 1, h_new = 1, h_before = [''a'' @ nl, ''b'' @ nl], h_after = [''a'' @ nl, ''c'' @ nl]\<rparr>]\<rparr>"

definition sample_old :: string where "sample_old = concat [''a'', nl, ''b'', nl, ''z'', nl]"
definition sample_new :: string where "sample_new = concat [''a'', nl, ''c'', nl, ''z'', nl]"

named_theorems patch_eval "definitions that evaluate a patch"

lemmas patch_eval_defs [patch_eval] =
  parse_patch_def parse_file_def parse_hunk_def patch_path_def hunk_range_def unsafe_path_def
  forbidden_part_def strip_prefix_def trim_eol_def split_once_def split_whitespace_def is_space_def
  is_continuation_def is_whitespace_def byte_of_def parse_usize_def is_digit_def digits_value_def
  to_ascii_lowercase_def ascii_lower_def NO_NEWLINE_def drop_last_newline_def ends_newline_def
  early_unterminated_def apply_patch_to_def old_start_def new_start_def unterminated_end_def

lemma sample_parse: "parse_patch sample_patch = Inr [sample_file_patch]"
  by (simp add: patch_eval sample_patch_def sample_file_patch_def)

lemma sample_apply: "apply_patch_to sample_file_patch sample_old = Inr sample_new"
  by (simp add: patch_eval sample_file_patch_def sample_old_def sample_new_def)

definition sample_target :: target where
  "sample_target = \<lparr>t_path = ''d/f'', t_before = sample_old, t_after = sample_new\<rparr>"

definition sample_artifact :: artifact where
  "sample_artifact = \<lparr>r_version = 1, r_root = [''w''], r_patch = sample_patch, r_targets = [sample_target]\<rparr>"

definition sample_disk :: "outcome list \<Rightarrow> disk" where
  "sample_disk xs = \<lparr>files = [[''w'', ''d'', ''f''] \<mapsto> sample_old],
     links = [[''w''] \<mapsto> [''w''], [''w'', ''d'', ''f''] \<mapsto> [''w'', ''d'', ''f'']], script = xs\<rparr>"

definition sample_fetch :: "string \<Rightarrow> string + artifact" where
  "sample_fetch i = Inr sample_artifact"

text \<open>The first write leaves half the file behind and reports an error.\<close>

definition torn_write :: "outcome list" where
  "torn_write = [Fine, Fine, Fine, Fine, Fine, Fine, Fine, Fine, Leaves (''a'' @ nl) (Some ''disk full'')]"

lemma sample_utf8: "utf8_bytes (map byte_of sample_patch)" "utf8_bytes (map byte_of sample_old)"
  by (simp_all add: sample_patch_def sample_old_def byte_of_def)

lemma sample_join: "join_path [''w''] ''d/f'' = [''w'', ''d'', ''f'']"
  by (simp add: join_path_def parts_of_def)

lemmas disk_eval =
  and_then_def give_def throw_def lift_fs_def disk_ops_def disk_read_def disk_write_def
  disk_canonicalize_def disk_cancelled_def disk_info_def next_outcome_def cancelled_def target_path_def Let_def

lemma sample_differ [simp]: "sample_old \<noteq> sample_new" "sample_new \<noteq> sample_old"
  "[CHR ''a'', newline] \<noteq> sample_old" "[CHR ''a'', newline] \<noteq> sample_new"
  by (simp_all add: sample_old_def sample_new_def)

lemma sample_prepare:
  "prepare_targets disk_ops sample_artifact [''w''] [''d/f''] (sample_disk (Fine # Fine # xs))
     = (Inr ([sample_file_patch], [[''w'', ''d'', ''f'']]), sample_disk xs)"
proof -
  have "check_plan [sample_file_patch] [sample_target] w = (Inr (), w)" for w :: disk
    by (simp add: sample_target_def from_utf8_def sample_utf8 and_then_def lift_patch_def sample_apply give_def)
      (simp add: sample_file_patch_def)
  moreover have "target_paths disk_ops [''w''] [sample_target] (sample_disk (Fine # xs))
      = (Inr [[''w'', ''d'', ''f'']], sample_disk xs)" for xs
    by (simp add: sample_target_def sample_disk_def disk_eval sample_join)
  moreover have "take_locks disk_ops [p] (sample_disk (Fine # xs)) = (Inr (), sample_disk xs)" for xs p
    by (simp add: sample_disk_def disk_eval)
  ultimately show ?thesis
    by (simp add: prepare_targets_def sample_artifact_def and_then_def from_utf8_def sample_utf8 lift_patch_def
        sample_parse give_def del: take_locks.simps target_paths.simps check_plan.simps)
      (simp add: sample_target_def)
qed

lemma sample_torn:
  "fst (apply_artifact disk_ops sample_fetch [''w''] ''id'' [''d/f''] False (sample_disk torn_write))
     = Inl (Failed ''d/f'' (Fs_Error ''disk full'') [] [''d/f''] [])"
proof -
  let ?rest = "[Fine, Fine, Fine, Fine, Fine, Leaves (''a'' @ nl) (Some ''disk full'')]"
  have "lift_fs (canon_op disk_ops [''w'']) (sample_disk torn_write) = (Inr [''w''], sample_disk (Fine # Fine # ?rest))"
    by (simp add: sample_disk_def torn_write_def disk_eval)
  then have A: "apply_artifact disk_ops sample_fetch [''w''] ''id'' [''d/f''] False (sample_disk torn_write)
      = apply_locked disk_ops [''w''] False [sample_file_patch] [(sample_target, [''w'', ''d'', ''f''])] (sample_disk ?rest)"
    by (simp add: apply_artifact_def sample_fetch_def and_then_def give_def sample_prepare)
      (simp add: sample_artifact_def)
  have B: "fst (apply_locked disk_ops [''w''] False [sample_file_patch] [(sample_target, [''w'', ''d'', ''f''])]
      (sample_disk ?rest)) = Inl (Failed ''d/f'' (Fs_Error ''disk full'') [] [''d/f''] [])"
    by (simp add: apply_locked_def sample_target_def sample_disk_def disk_eval sample_join survey_start_def
        survey_target_def commit_one_def restore_one_def)
  show ?thesis unfolding A by (rule B)
qed

section \<open>Patches\<close>

text \<open>
  C35. A patch that parses touches at most 256 files, each once, none of them outside the directory it
  is applied to or in a \<open>.git\<close> directory: resolving a path of the patch, component by component,
  never leaves that directory. Its hunks are well formed; in particular the line numbers the code
  subtracts one from are positive.
\<close>

theorem parsed_patch_confined:
  assumes "parse_patch source = Inr fs"
  shows "fs \<noteq> [] \<and> length fs \<le> 256 \<and> distinct (map fp_path fs)
    \<and> (\<forall>f\<in>set fs. fp_hunks f \<noteq> [] \<and> list_all hunk_wf (fp_hunks f)
         \<and> resolve_parts dir (split_char (CHR ''/'') (fp_path f)) = dir @ split_char (CHR ''/'') (fp_path f)
         \<and> (\<forall>p\<in>set (split_char (CHR ''/'') (fp_path f)). to_ascii_lowercase p \<noteq> ''.git''))"
  using parse_patch_wf [OF assms] safe_path_confined by (auto simp: list_all_iff patch_wf_def)

theorem parsed_patch_confined_witness:
  "resolve_parts [''w''] (split_char (CHR ''/'') (fp_path sample_file_patch)) = [''w'', ''d'', ''f'']"
  using parsed_patch_confined [OF sample_parse, of "[''w'']"] by (simp add: sample_file_patch_def)

text \<open>
  C36. Applying a patch is exact on the pieces of the source, which are its lines with their newlines and at the end
  perhaps one without: it succeeds iff every hunk's old lines are the pieces where its header says,
  in the source and in the result, and a marker for a missing newline is only at the end; the result
  is the source with exactly those pieces exchanged. (What is inserted behind a last line without newline is joined to
  it, see \<open>insertion_joins_last_line\<close>.) And it can be taken back: on a source that is empty or ends with
  a newline, a well-formed patch none of whose new pieces is empty is undone by the patch with the sides of its hunks
  exchanged.
\<close>

theorem patch_exact_and_reversible:
  "(apply_patch_to f s = Inr r \<longleftrightarrow>
      markers_final (length (split_inclusive_newline s)) (fp_hunks f)
      \<and> (\<exists>t. patched (fp_hunks f) 0 0 (split_inclusive_newline s) t \<and> r = concat t))
   \<and> (patch_wf f \<and> (\<forall>h\<in>set (fp_hunks f). [] \<notin> set (h_after h)) \<and> (s = [] \<or> last s = newline)
      \<and> apply_patch_to f s = Inr r \<longrightarrow> apply_patch_to (flip_patch f) r = Inr s)"
  using apply_patch_exact apply_flip by blast

lemma sample_wf: "patch_wf sample_file_patch"
  using parse_patch_wf [OF sample_parse] by simp

theorem patch_exact_and_reversible_witness:
  "apply_patch_to (flip_patch sample_file_patch) sample_new = Inr sample_old"
proof -
  have "(\<forall>h\<in>set (fp_hunks sample_file_patch). [] \<notin> set (h_after h)) \<and> last sample_old = newline"
    by (simp add: sample_file_patch_def sample_old_def)
  then show ?thesis
    using patch_exact_and_reversible [of sample_file_patch sample_old sample_new] sample_wf sample_apply by blast
qed

text \<open>
  An insertion after a last line without newline passes every check and glues the new line to the old
  one: the header says the new text is line two, the result has one line.
\<close>

lemma insertion_joins_last_line:
  "parse_patch (concat [''--- a/f'', nl, ''+++ b/f'', nl, ''@@ -1,0 +2 @@'', nl, ''+b'', nl])
     = Inr [\<lparr>fp_path = ''f'', fp_hunks = [\<lparr>h_old = 1, h_new = 2, h_before = [], h_after = [''b'' @ nl]\<rparr>]\<rparr>]
   \<and> apply_patch_to \<lparr>fp_path = ''f'', fp_hunks = [\<lparr>h_old = 1, h_new = 2, h_before = [], h_after = [''b'' @ nl]\<rparr>]\<rparr> ''a''
     = Inr (''ab'' @ nl)"
  by (simp add: patch_eval)

text \<open>
  C37. \<open>apply_patch\<close> is a transaction as far as a file system lets it be. Whatever reads and writes fail,
  tear or silently write something else, and whenever it is cancelled: if it reports success every
  target holds its new bytes; if it reports a failed commit every target is named once, and those
  listed as restored or not attempted hold their old bytes; in every other case nothing was written.
  Files that are no targets never change.
\<close>

theorem apply_patch_transaction:
  assumes "fetch i = Inr r"
  shows "apply_contract r (files d)
     (files (snd (apply_artifact disk_ops fetch cwd i file_paths dry_run d)))
     (fst (apply_artifact disk_ops fetch cwd i file_paths dry_run d))"
  by (rule local_disk.apply_artifact_contract [where i = i and fetch = fetch, OF _ assms]) simp

theorem apply_patch_transaction_witness:
  "apply_contract sample_artifact (files (sample_disk torn_write))
     (files (snd (apply_artifact disk_ops sample_fetch [''w''] ''id'' [''d/f''] False (sample_disk torn_write))))
     (Inl (Failed ''d/f'' (Fs_Error ''disk full'') [] [''d/f''] []))"
  using apply_patch_transaction [of sample_fetch "''id''" sample_artifact "sample_disk torn_write" "[''w'']" "[''d/f'']" False]
  by (simp add: sample_torn sample_fetch_def)

text \<open>
  C38. On a disk on which nothing goes wrong, a patch that was imported applies when it is called with
  the stored record and its file list, and afterwards every file of the patch holds what the patch makes
  of what it held before.
\<close>

theorem import_then_apply:
  assumes q: "quiet d"
    and imp: "import_bytes disk_ops sensitive encode store cwd bytes d = (Inr (i, r), d1)"
    and fetch: "fetch i = Inr r"
  shows "\<exists>fs s d2. parse_patch bytes = Inr fs
    \<and> apply_artifact disk_ops fetch cwd i (map t_path (r_targets r)) False d1 = (Inr s, d2)
    \<and> s \<in> {Applied, Already_Applied}
    \<and> (\<forall>f\<in>set fs. \<exists>old new. files d (join_path (r_root r) (fp_path f)) = Some old
         \<and> apply_patch_to f old = Inr new \<and> files d2 (join_path (r_root r) (fp_path f)) = Some new)"
proof -
  obtain fs where d1: "d1 = d" and fs: "parse_patch bytes = Inr fs" and root: "links d cwd = Some (r_root r)"
    and r: "r_version r = 1" "r_patch r = bytes" "utf8_bytes (map byte_of bytes)"
    and rec: "list_all2 (recorded d (r_root r)) fs (r_targets r)"
    using import_bytes_Inr [OF q imp] by blast
  have wf: "list_all patch_wf fs" "distinct (map fp_path fs)" using parse_patch_wf [OF fs] by auto
  have prep: "prepare_targets disk_ops r (r_root r) (map t_path (r_targets r)) d
      = (Inr (fs, map (target_at r) (r_targets r)), d)"
    using prepare_recorded [OF q rec wf r(1) refl] r fs by simp
  then have dist: "distinct (map (target_at r) (r_targets r))"
    using local_disk.prepare_targets_Inr by blast
  obtain s d2 where s: "apply_locked disk_ops (r_root r) False fs
        (map (\<lambda>t. (t, target_at r t)) (r_targets r)) d = (Inr s, d2)"
    and ok: "s = Applied \<or> s = Already_Applied"
    and new: "\<forall>t\<in>set (r_targets r). files d2 (target_at r t) = Some (t_after t)"
    using apply_recorded [OF q rec refl dist] by blast
  have "apply_artifact disk_ops fetch cwd i (map t_path (r_targets r)) False d1 = (Inr s, d2)"
    using fetch quiet_canon [OF q root] prep s
    by (simp add: d1 apply_artifact_def and_then_def give_def zip_map2 zip_same_conv_map comp_def)
  moreover have "\<exists>old new. files d (join_path (r_root r) (fp_path f)) = Some old
      \<and> apply_patch_to f old = Inr new \<and> files d2 (join_path (r_root r) (fp_path f)) = Some new"
    if f: "f \<in> set fs" for f
  proof -
    obtain n where n: "n < length fs" "f = fs ! n" using f by (auto simp: in_set_conv_nth)
    then have "recorded d (r_root r) f (r_targets r ! n)" using list_all2_nthD [OF rec n(1)] by simp
    moreover have "r_targets r ! n \<in> set (r_targets r)" using n(1) list_all2_lengthD [OF rec] by simp
    ultimately show ?thesis using new by (auto simp: recorded_def target_at_def)
  qed
  ultimately show ?thesis using fs ok by blast
qed

lemma sample_import:
  "import_bytes disk_ops (\<lambda>_. False) (\<lambda>_. []) (Some (\<lambda>_. Inr ''id'')) [''w''] sample_patch (sample_disk [])
     = (Inr (''id'', sample_artifact), sample_disk [])"
proof -
  have "import_targets disk_ops (\<lambda>_. False) [''w''] 0 [sample_file_patch] (sample_disk [])
      = (Inr [sample_target], sample_disk [])"
  proof -
    have p: "fp_path sample_file_patch = ''d/f''" by (simp add: sample_file_patch_def)
    have n: "CHR 0x00 \<notin> set sample_old" "length sample_old = 6" "length sample_new = 6"
      by (simp_all add: sample_old_def sample_new_def)
    show ?thesis
      by (simp add: import_target_def p disk_eval sample_disk_def sample_join n MIB_def from_utf8_def
          sample_utf8 lift_patch_def sample_apply sample_target_def)
  qed
  moreover have "CHR 0x00 \<notin> set sample_patch" "length sample_patch = 45"
    by (simp_all add: sample_patch_def)
  ultimately show ?thesis
    by (simp add: import_bytes_def and_then_def give_def MIB_def from_utf8_def sample_utf8 lift_patch_def
        sample_parse sample_artifact_def quiet_cancelled quiet_canon quiet_def sample_disk_def Let_def
        del: import_targets.simps)
qed

theorem import_then_apply_witness:
  "\<exists>s d2. apply_artifact disk_ops sample_fetch [''w''] ''id'' [''d/f''] False (sample_disk []) = (Inr s, d2)
     \<and> files d2 [''w'', ''d'', ''f''] = Some sample_new"
proof -
  have q: "quiet (sample_disk [])" by (simp add: quiet_def sample_disk_def)
  have f: "sample_fetch ''id'' = Inr sample_artifact" by (simp add: sample_fetch_def)
  have n: "map t_path (r_targets sample_artifact) = [''d/f'']" "r_root sample_artifact = [''w'']"
    by (simp_all add: sample_artifact_def sample_target_def)
  obtain fs s d2 where fs: "parse_patch sample_patch = Inr fs"
    and a: "apply_artifact disk_ops sample_fetch [''w''] ''id'' [''d/f''] False (sample_disk []) = (Inr s, d2)"
    and x: "\<forall>f\<in>set fs. \<exists>old new. files (sample_disk []) (join_path [''w''] (fp_path f)) = Some old
         \<and> apply_patch_to f old = Inr new \<and> files d2 (join_path [''w''] (fp_path f)) = Some new"
    using import_then_apply [where fetch = sample_fetch and i = "''id''", OF q sample_import f] unfolding n by blast
  have "fs = [sample_file_patch]" using fs sample_parse by simp
  moreover have "fp_path sample_file_patch = ''d/f''" by (simp add: sample_file_patch_def)
  moreover have "files (sample_disk []) [''w'', ''d'', ''f''] = Some sample_old" by (simp add: sample_disk_def)
  ultimately have "files d2 [''w'', ''d'', ''f''] = Some sample_new"
    using x sample_apply by (simp add: sample_join)
  then show ?thesis using a by blast
qed

section \<open>Permission rules\<close>

text \<open>
  C39. The matcher of rule patterns returns on every input, and what it accepts is a match in the sense
  of its comment: a star spans any characters, a question mark exactly one. On a text without a star it
  accepts every such match.
\<close>

theorem wildcard_exact:
  "(wildcard_match pattern text' \<longrightarrow> glob (char_pieces pattern) (char_pieces text'))
   \<and> (''*'' \<notin> set (char_pieces text') \<longrightarrow>
        (wildcard_match pattern text' \<longleftrightarrow> glob (char_pieces pattern) (char_pieces text')))"
  using wildcard_match_glob wildcard_match_iff by blast

lemmas char_eval = is_continuation_def byte_of_def

theorem wildcard_exact_witness:
  "wildcard_match ''git *x?'' ''git a/bxxy'' \<longleftrightarrow> glob (char_pieces ''git *x?'') (char_pieces ''git a/bxxy'')"
proof -
  have "''*'' \<notin> set (char_pieces ''git a/bxxy'')" by (simp add: char_eval)
  then show ?thesis using wildcard_exact [of "''git *x?''" "''git a/bxxy''"] by blast
qed

text \<open>
  What a rule means for a text, by the reference \<open>glob\<close> and not by the matcher: it is for this tool or for every
  tool, and it has no pattern or its pattern, read as a glob, matches the text.
\<close>

definition rule_means :: "surroundings \<Rightarrow> permission_rule \<Rightarrow> string \<Rightarrow> string \<Rightarrow> bool" where
  "rule_means env r tool t \<longleftrightarrow>
     pr_tool r \<in> {''*'', canonical_tool env tool}
     \<and> (case pr_pattern r of None \<Rightarrow> True | Some p \<Rightarrow> glob (char_pieces (rule_pattern p)) (char_pieces t))"

lemma matched_means: "rule_matches env r tool [t] \<Longrightarrow> rule_means env r tool t"
  using wildcard_match_glob by (auto simp: rule_matches_def rule_means_def split: if_split_asm option.splits)

lemma means_matched:
  assumes "rule_means env r tool t" "''*'' \<notin> set (char_pieces t)" "t \<in> set ts"
  shows "rule_matches env r tool ts"
  using assms wildcard_match_iff [of t] by (auto simp: rule_matches_def rule_means_def list_ex_iff split: option.splits)

lemma pieces_concat_id: "concat (char_pieces s) = s"
  by (induction s) (auto split: list.splits)

lemma glob_plain: "list_all (\<lambda>c. c \<noteq> star_char \<and> c \<noteq> any_char) p \<Longrightarrow> glob p t \<longleftrightarrow> p = t"
  by (induction p t rule: glob.induct) auto

text \<open>A rule without wildcards names one text.\<close>

lemma exact_rule:
  assumes "CHR ''*'' \<notin> set p" "CHR ''?'' \<notin> set p" "glob (char_pieces (rule_pattern p)) (char_pieces t)"
  shows "p = t"
proof -
  have "rule_pattern p = p" using assms(1) by (auto simp: rule_pattern_def suffix_def)
  moreover have "q \<noteq> star_char \<and> q \<noteq> any_char" if "q \<in> set (char_pieces p)" for q
    using that assms(1,2) pieces_concat_id [of p] by (metis UN_I list.set_intros(1) set_concat)
  then have "list_all (\<lambda>c. c \<noteq> star_char \<and> c \<noteq> any_char) (char_pieces p)" by (simp add: list_all_iff)
  ultimately show ?thesis using assms(3) glob_plain pieces_concat_id by metis
qed

text \<open>
  C40. A shell command that the rules allow has earned it. Its arguments name no sensitive path. Of the command as a
  whole and of every invocation the shell parser finds in it, in normal form and so far as the text has no star of
  its own, there is no deny rule whose pattern, read as a glob, matches it. And either an allow rule without
  wildcards is, letter by letter, the normal form of the whole command, or every segment of the script is matched by
  an allow rule or reads only, and at least one is matched by an allow rule. (For a text with a star of its own the
  matcher is not complete, see \<open>deny_rule_misses_star\<close>. The shell parser, the list of reading commands and the
  list of sensitive paths are parameters.)
\<close>

theorem allow_is_earned:
  assumes "rules_decide env rs tool args cwd = Allow" "is_bash env tool" "\<not> is_powershell_tool tool"
  shows "\<exists>c segs. command_of env args = Some c \<and> bash_permission_segments env c = Some segs \<and> \<not> references env args
    \<and> (\<forall>t. (t = normalize_command_for_grant c
          \<or> (\<exists>found name words. bash_invocations env c = Some found \<and> (name, words) \<in> set found
               \<and> t = normalize_command_for_grant (join_words (name # words))))
        \<longrightarrow> ''*'' \<notin> set (char_pieces t) \<longrightarrow> (\<forall>r\<in>set (pr_deny rs). \<not> rule_means env r tool t))
    \<and> ((\<exists>r\<in>set (pr_allow rs). pr_pattern r = Some (normalize_command_for_grant c) \<and> pr_tool r \<in> {''*'', canonical_tool env tool})
       \<or> (\<forall>s\<in>set segs. (\<exists>r\<in>set (pr_allow rs). rule_means env r tool s) \<or> is_read_only_bash env s)
         \<and> (\<exists>s\<in>set segs. \<exists>r\<in>set (pr_allow rs). rule_means env r tool s))"
proof -
  let ?ts = "match_targets env tool (parse_json env args) cwd"
  obtain c segs where c: "command_of env args = Some c" "bash_permission_segments env c = Some segs"
    and why: "exact_script env rs tool ?ts
       \<or> (\<forall>s\<in>set segs. covered env rs tool s \<or> is_read_only_bash env s) \<and> (\<exists>s\<in>set segs. covered env rs tool s)"
    using decide_bash_Allow [OF decide_Allow(4) [OF assms(1,2)]] by blast
  have ts: "?ts = [normalize_command_for_grant c]"
    using c(1) assms(2,3) by (auto simp: match_targets_def command_of_def is_bash_def bind_eq_Some_conv)
  have denied: "\<not> rule_means env r tool t" if "r \<in> set (pr_deny rs)" "''*'' \<notin> set (char_pieces t)"
      "t \<in> set (deny_targets env tool args cwd)" for r t
    using decide_Allow(3) [OF assms(1)] means_matched [OF _ that(2,3)] that(1) by (auto simp: rule_denies_def)
  have reached: "t \<in> set (deny_targets env tool args cwd)"
    if "t = normalize_command_for_grant c \<or> (\<exists>found name words. bash_invocations env c = Some found \<and> (name, words) \<in> set found
          \<and> t = normalize_command_for_grant (join_words (name # words)))" for t
    using that assms(2) ts c(1) by (force simp: deny_targets_def simp del: join_words.simps)
  have "exact_script env rs tool ?ts \<Longrightarrow>
      \<exists>r\<in>set (pr_allow rs). pr_pattern r = Some (normalize_command_for_grant c) \<and> pr_tool r \<in> {''*'', canonical_tool env tool}"
    unfolding ts exact_script_def list_ex_iff
    using matched_means exact_rule by (fastforce simp: rule_means_def split: option.splits)
  moreover have "covered env rs tool s \<Longrightarrow> \<exists>r\<in>set (pr_allow rs). rule_means env r tool s" for s
    unfolding covered_def using matched_means by blast
  ultimately have "(\<exists>r\<in>set (pr_allow rs). pr_pattern r = Some (normalize_command_for_grant c) \<and> pr_tool r \<in> {''*'', canonical_tool env tool})
       \<or> (\<forall>s\<in>set segs. (\<exists>r\<in>set (pr_allow rs). rule_means env r tool s) \<or> is_read_only_bash env s)
         \<and> (\<exists>s\<in>set segs. \<exists>r\<in>set (pr_allow rs). rule_means env r tool s)" using why by meson
  then show ?thesis using c denied reached decide_Allow(1) [OF assms(1)] by (intro exI [of _ c] exI [of _ segs] conjI allI impI ballI) simp_all
qed

text \<open>A setting in which the arguments of a call are the command itself and a script is one segment.\<close>

definition shell_env :: surroundings where
  "shell_env = \<lparr>parse_json = (\<lambda>s. Some (JObject [(''command'', JString s)])),
     to_lowercase = to_ascii_lowercase,
     bash_invocations = (\<lambda>s. Some [(s, [])]),
     bash_permission_segments = (\<lambda>s. Some [normalize_command_for_grant s]),
     is_read_only_bash = (\<lambda>s. False), references = (\<lambda>s. False), home_dir = None\<rparr>"

lemmas rule_eval =
  rules_parse_def parse_list_def rule_parse_def canonical_tool_def str_trim_def is_space_def
  is_whitespace_def char_eval to_ascii_lowercase_def ascii_lower_def map_filter_def Let_def

lemma char_of_b [simp]: "char_of (98 :: nat) = CHR ''b''"
  by code_simp

lemma shell_parse:
  "fst (rules_parse shell_env [''Bash(git *)''] [''Bash(rm *)'']) =
     \<lparr>pr_allow = [\<lparr>pr_raw = ''Bash(git *)'', pr_source = None, pr_tool = ''bash'', pr_pattern = Some ''git *''\<rparr>],
      pr_deny = [\<lparr>pr_raw = ''Bash(rm *)'', pr_source = None, pr_tool = ''bash'', pr_pattern = Some ''rm *''\<rparr>]\<rparr>"
  by (simp add: rule_eval shell_env_def)

text \<open>Deciding a shell call in that setting.\<close>

lemma shell_env_simps [simp]:
  "parse_json shell_env s = Some (JObject [(''command'', JString s)])"
  "bash_invocations shell_env s = Some [(s, [])]"
  "bash_permission_segments shell_env s = Some [normalize_command_for_grant s]"
  "is_read_only_bash shell_env s = False" "references shell_env s = False"
  by (simp_all add: shell_env_def)

lemma shell_canonical [simp]: "canonical_tool shell_env ''bash'' = ''bash''"
  by (simp add: canonical_tool_def shell_env_def char_eval to_ascii_lowercase_def ascii_lower_def)

lemma shell_targets [simp]:
  "match_targets shell_env ''bash'' (Some (JObject [(''command'', JString s)])) cwd = [normalize_command_for_grant s]"
  "command_of shell_env s = Some s" "is_bash shell_env ''bash''" "\<not> is_powershell_tool ''bash''"
  by (simp_all add: match_targets_def str_field_def is_powershell_tool_def command_of_def is_bash_def)

lemma shell_decide:
  assumes "normalize_command_for_grant cmd = n"
  shows "rules_decide shell_env rs ''bash'' cmd cwd =
     (if rules_empty rs then NoMatch
      else if list_ex (\<lambda>r. rule_matches shell_env r ''bash'' [n, n]) (pr_deny rs) then Deny
      else if exact_script shell_env rs ''bash'' [n] \<or> list_ex (\<lambda>r. rule_matches shell_env r ''bash'' [n]) (pr_allow rs)
      then Allow else NoMatch)"
proof -
  have d: "rule_denies shell_env ''bash'' cmd cwd = (\<lambda>r. rule_matches shell_env r ''bash'' [n, n])"
    by (intro ext) (simp add: rule_denies_def deny_targets_def assms)
  show ?thesis by (simp add: rules_decide_def d decide_bash_def assms Let_def)
qed

definition rm_rules :: permission_rules where
  "rm_rules = fst (rules_parse shell_env [''Bash(git *)''] [''Bash(rm *)''])"

lemmas normalize_eval = normalize_command_for_grant_def strip_bash_comments_def is_boundary_def split_whitespace_def
  is_space_def is_whitespace_def char_eval

lemmas match_eval = rm_rules_def shell_parse rules_empty_def rule_matches_def exact_script_def rule_pattern_def
  wildcard_match_def wild_loop.simps skip_stars_def char_eval suffix_def

lemma normal_forms:
  "normalize_command_for_grant ''rm a.txt'' = ''rm a.txt''"
  "normalize_command_for_grant ''rm *.txt'' = ''rm *.txt''"
  "normalize_command_for_grant ''git log'' = ''git log''"
  by (simp_all add: normalize_eval)

theorem allow_is_earned_witness:
  "rules_decide shell_env rm_rules ''bash'' ''git log'' ''/w'' = Allow
   \<and> \<not> rule_means shell_env (hd (pr_deny rm_rules)) ''bash'' ''git log''
   \<and> (\<exists>r\<in>set (pr_allow rm_rules). rule_means shell_env r ''bash'' ''git log'')"
proof -
  have allow: "rules_decide shell_env rm_rules ''bash'' ''git log'' ''/w'' = Allow"
    by (simp add: shell_decide [OF normal_forms(3)] match_eval)
  have "hd (pr_deny rm_rules) \<in> set (pr_deny rm_rules)" "''*'' \<notin> set (char_pieces ''git log'')"
    "\<not> (\<exists>r\<in>set (pr_allow rm_rules). pr_pattern r = Some ''git log'')"
    by (simp_all add: rm_rules_def shell_parse char_eval)
  with allow_is_earned [OF allow] show ?thesis using allow by (simp add: normal_forms(3))
qed

text \<open>
  Scopes merge as documented: a call is denied by two scopes together iff one of them denies it,
  and what one scope allows stays allowed unless the other denies it.
\<close>

lemma scopes_merge:
  "(rules_decide env (extend_rules a b) tool args cwd = Deny \<longleftrightarrow>
      rules_decide env a tool args cwd = Deny \<or> rules_decide env b tool args cwd = Deny)
   \<and> (rules_decide env a tool args cwd = Allow \<and> rules_decide env b tool args cwd \<noteq> Deny \<longrightarrow>
        rules_decide env (extend_rules a b) tool args cwd = Allow \<and>
        rules_decide env (extend_rules b a) tool args cwd = Allow)"
proof -
  have sub: "set (pr_allow a) \<subseteq> set (pr_allow (extend_rules a b))"
    "set (pr_allow a) \<subseteq> set (pr_allow (extend_rules b a))"
    by (auto simp: extend_rules_def)
  have "rules_decide env (extend_rules a b) tool args cwd = Allow \<and>
        rules_decide env (extend_rules b a) tool args cwd = Allow"
    if "rules_decide env a tool args cwd = Allow" "rules_decide env b tool args cwd \<noteq> Deny"
    using decide_mono [OF sub(1) that(1)] decide_mono [OF sub(2) that(1)] that
    by (simp add: decide_extend)
  then show ?thesis using decide_extend by blast
qed

text \<open>
  A deny rule can be walked past. The matcher compares characters before it looks for a star, so a
  star in the text uses up the star of the pattern: the rule \<open>Bash(rm *)\<close> denies \<open>rm a.txt\<close> but says
  nothing about \<open>rm *.txt\<close>, which the pattern means to cover.
\<close>

lemma deny_rule_misses_star:
  "rules_decide shell_env rm_rules ''bash'' ''rm a.txt'' ''/w'' = Deny
   \<and> rules_decide shell_env rm_rules ''bash'' ''rm *.txt'' ''/w'' = NoMatch
   \<and> glob (char_pieces ''rm *'') (char_pieces ''rm *.txt'')"
proof (intro conjI)
  show "rules_decide shell_env rm_rules ''bash'' ''rm a.txt'' ''/w'' = Deny"
    by (simp add: shell_decide [OF normal_forms(1)] match_eval)
  show "rules_decide shell_env rm_rules ''bash'' ''rm *.txt'' ''/w'' = NoMatch"
    by (simp add: shell_decide [OF normal_forms(2)] match_eval)
  show "glob (char_pieces ''rm *'') (char_pieces ''rm *.txt'')"
    by (simp add: char_eval)
qed

end
