(* ===== verification/Engine_Policy.thy ===== *)
theory Engine_Policy
  imports Json Compaction
begin

text \<open>
  The decisions of the agent loop that are functions of their arguments
  (\<open>crates/atomcode-kernel/src/agent/engine.rs\<close>, lines 50 to 870, and the rate-limit verdict of
  \<open>hook.rs\<close>): the budgets, the retry backoff, the reading of a rate-limited response, the input
  budget and the compaction pressure, the cleaning of reasoning text, the exact tool-loop guard, the
  identity of a call and of a round, and the cap on a tool result.

  Texts shown to a person are values of a datatype that holds what they are formatted from; texts the
  model receives are spelled out.
\<close>

section \<open>Budgets\<close>

definition MAX_OVERFLOW_ATTEMPTS :: nat where "MAX_OVERFLOW_ATTEMPTS = 3"
definition IMAGE_SEND_BUDGET_BYTES :: nat where "IMAGE_SEND_BUDGET_BYTES = 14 * 1024 * 1024"
definition MAX_STREAM_RETRIES :: nat where "MAX_STREAM_RETRIES = 5"
definition MAX_PARTIAL_STREAM_RECOVERIES :: nat where "MAX_PARTIAL_STREAM_RECOVERIES = 1"
definition MAX_RECOVERY_TOOL_RECEIPTS :: nat where "MAX_RECOVERY_TOOL_RECEIPTS = 128"
definition MAX_RECOVERY_RECEIPT_BYTES :: nat where "MAX_RECOVERY_RECEIPT_BYTES = 8 * 1024 * 1024"
definition MAX_RATE_LIMIT_WAITS :: nat where "MAX_RATE_LIMIT_WAITS = 5"
definition EMPTY_RESPONSE_MAX_RETRIES :: nat where "EMPTY_RESPONSE_MAX_RETRIES = 5"
definition MAX_TRUNCATION_CONTINUATIONS :: nat where "MAX_TRUNCATION_CONTINUATIONS = 4"
definition DEFAULT_MAX_OUTPUT_TOKENS :: u32 where "DEFAULT_MAX_OUTPUT_TOKENS = 16384"
definition MAX_REPEAT_ROUNDS :: nat where "MAX_REPEAT_ROUNDS = 6"
definition REPEAT_NUDGE_AT :: nat where "REPEAT_NUDGE_AT = 3"
definition MAX_PARALLEL_TOOLS_CEILING :: nat where "MAX_PARALLEL_TOOLS_CEILING = 256"
definition DEFAULT_MAX_TOOL_RESULT_BYTES :: nat where "DEFAULT_MAX_TOOL_RESULT_BYTES = 64 * 1024"

lemmas engine_budgets =
  MAX_OVERFLOW_ATTEMPTS_def MAX_STREAM_RETRIES_def MAX_PARTIAL_STREAM_RECOVERIES_def
  MAX_RATE_LIMIT_WAITS_def EMPTY_RESPONSE_MAX_RETRIES_def MAX_TRUNCATION_CONTINUATIONS_def

text \<open>\<open>env_max_parallel_tools\<close> on the value of the variable, and the clamp of its caller.\<close>

definition env_max_parallel_tools :: "string option \<Rightarrow> nat" where
  "env_max_parallel_tools var =
     (case Option.bind var parse_usize of Some n \<Rightarrow> (if 1 \<le> n then n else 4) | None \<Rightarrow> 4)"

definition parallel_cap :: "nat option \<Rightarrow> string option \<Rightarrow> nat" where
  "parallel_cap configured var =
     min (max (case configured of Some n \<Rightarrow> n | None \<Rightarrow> env_max_parallel_tools var) 1) MAX_PARALLEL_TOOLS_CEILING"

section \<open>Texts the model receives\<close>

definition ellipsis :: string where "ellipsis = [CHR 0xE2, CHR 0x80, CHR 0xA6]"

definition PARTIAL_STREAM_RESUME_NUDGE :: string where
  "PARTIAL_STREAM_RESUME_NUDGE =
     ''[The previous assistant stream was interrupted. The preserved assistant messages and paired tool results above are authoritative. Continue from that saved progress. Do not repeat completed tool calls or restart the task.]''"

definition REPEAT_LOOP_NUDGE :: string where
  "REPEAT_LOOP_NUDGE =
     ''You have issued the SAME tool call with the SAME arguments several rounds in a row. Stop repeating it and change your approach. If you are trying to ask the user something, do not print it with a shell command; end your turn with a plain-text question, or use a request-user-input tool when available. If the task is done, reply with a short summary and no tool calls. If you are blocked, explain what you need.''"

definition TRUNCATION_RESUME_NUDGE :: string where
  "TRUNCATION_RESUME_NUDGE =
     ''Output limit hit '' @ em_dash @ '' your last response was cut off before finishing. If the task is already complete, reply with a short summary and stop (no tool calls). Otherwise resume where you left off, writing the remaining content INCREMENTALLY to a file (append the next section with edit_file) rather than re-emitting it all in one response.''"

definition TRUNCATED_TOOLCALL_COACH :: string where
  "TRUNCATED_TOOLCALL_COACH =
     ''Tool call not executed: the assistant hit its output-token limit (finish_reason=length) before the arguments finished streaming, so the recorded arguments are truncated and unsafe to run. Do NOT retry by re-emitting the same large payload '' @ em_dash @ '' split the work into smaller calls (for write_file/edit_file: write the first chunk, then append the rest with successive edit_file calls; for a large file, create it then grow it section by section).''"

section \<open>The exact tool-loop guard\<close>

record tool_loop_policy =
  warning_threshold :: u32
  stop_threshold :: u32

definition tool_loop_policy_new :: "u32 \<Rightarrow> u32 \<Rightarrow> string + tool_loop_policy" where
  "tool_loop_policy_new w s =
     (if w < 2 then Inl ''tool-loop warning threshold must be at least 2''
      else if s \<le> w then Inl ''tool-loop warning threshold must be lower than stop threshold''
      else Inr \<lparr>warning_threshold = w, stop_threshold = s\<rparr>)"

definition tool_loop_policy_default :: tool_loop_policy where
  "tool_loop_policy_default = \<lparr>warning_threshold = 3, stop_threshold = 5\<rparr>"

definition tool_loop_course_correction :: "tool_loop_policy \<Rightarrow> string" where
  "tool_loop_course_correction p =
     ''[Tool-loop guard] The same tool call or read-only batch has returned the same result(s) ''
     @ show_nat (unat (warning_threshold p))
     @ '' times. Do not repeat it unchanged. Reassess the task, use a different action, or explain why no further progress is possible. If repetition is intentional, make the progress observable instead of issuing the identical call again.''"

record call_fingerprint =
  fp_tool_name :: string
  fp_arguments :: string
  fp_cwd :: string
  fp_content :: string
  fp_error :: bool

datatype tool_loop_decision = Loop_Continue | Loop_Warn | Loop_Stop

record 'fp tool_loop_state =
  tl_policy :: tool_loop_policy
  tl_last :: "'fp option"
  tl_consecutive :: u32

definition tool_loop_state_new :: "tool_loop_policy \<Rightarrow> 'fp tool_loop_state" where
  "tool_loop_state_new p = \<lparr>tl_policy = p, tl_last = None, tl_consecutive = 0\<rparr>"

definition tool_loop_reset :: "'fp tool_loop_state \<Rightarrow> 'fp tool_loop_state" where
  "tool_loop_reset st = st\<lparr>tl_last := None, tl_consecutive := 0\<rparr>"

definition saturating_succ :: "'a::len word \<Rightarrow> 'a word" where
  "saturating_succ n = (if n = - 1 then n else n + 1)"

definition tool_loop_observe :: "'fp \<Rightarrow> 'fp tool_loop_state \<Rightarrow> 'fp tool_loop_state \<times> tool_loop_decision" where
  "tool_loop_observe fp st =
     (let st' = (if tl_last st = Some fp then st\<lparr>tl_consecutive := saturating_succ (tl_consecutive st)\<rparr>
                 else st\<lparr>tl_last := Some fp, tl_consecutive := 1\<rparr>)
      in (st', if stop_threshold (tl_policy st) \<le> tl_consecutive st' then Loop_Stop
               else if tl_consecutive st' = warning_threshold (tl_policy st) then Loop_Warn
               else Loop_Continue))"

section \<open>Identity of calls and rounds\<close>

definition tool_call_dedup_key :: "serde \<Rightarrow> tool_call \<Rightarrow> string \<times> string" where
  "tool_call_dedup_key sd call = (tc_name call, canonicalize_tool_args sd (tc_arguments call))"

definition distinct_tool_call_count :: "serde \<Rightarrow> tool_call list \<Rightarrow> nat" where
  "distinct_tool_call_count sd calls = length (remdups (map (tool_call_dedup_key sd) calls))"

fun join_with :: "char \<Rightarrow> string list \<Rightarrow> string" where
  "join_with sep [] = []"
| "join_with sep [p] = p"
| "join_with sep (p # ps) = p @ sep # join_with sep ps"

definition round_tool_signature :: "tool_call list \<Rightarrow> string" where
  "round_tool_signature calls =
     join_with (CHR 0x01) (sort (map (\<lambda>c. tc_name c @ CHR 0x00 # tc_arguments c) calls))"

definition trim_start :: "string \<Rightarrow> string" where
  "trim_start s = concat (dropWhile is_space (char_pieces s))"

definition truncation_is_redump :: "string \<Rightarrow> string \<Rightarrow> bool" where
  "truncation_is_redump prev cur =
     (let p = char_pieces (trim_start prev); c = char_pieces (trim_start cur)
      in if length (take 64 p) < 64 \<or> length (take 64 c) < 64 then False
         else take 400 p = take 400 c)"

section \<open>Cleaning reasoning text\<close>

fun find_str :: "string \<Rightarrow> string \<Rightarrow> nat option" where
  "find_str pat [] = (if pat = [] then Some 0 else None)"
| "find_str pat (c # cs) = (if prefix pat (c # cs) then Some 0 else map_option Suc (find_str pat cs))"

lemma find_str_bound: "find_str pat s = Some i \<Longrightarrow> i + length pat \<le> length s"
  by (induction pat s arbitrary: i rule: find_str.induct)
    (fastforce split: if_splits dest: prefix_length_le)+

text \<open>\<open>s.replace(pat, "")\<close> for a pattern that is not empty.\<close>

function remove_all :: "string \<Rightarrow> string \<Rightarrow> string" where
  "remove_all pat s =
     (if pat = [] then s
      else case find_str pat s of
        None \<Rightarrow> s
      | Some i \<Rightarrow> take i s @ remove_all pat (drop (i + length pat) s))"
  by pat_completeness auto
termination
  by (relation "measure (\<lambda>(pat, s). length s)") (auto dest!: find_str_bound simp: neq_Nil_conv)

declare remove_all.simps [simp del]

definition REASONING_FILLER_MARKERS :: "string list" where
  "REASONING_FILLER_MARKERS =
     [[CHR 0xC2, CHR 0xB7], ''(no reasoning detected)'', ''(no reasoning recorded)'',
      ''no reasoning detected'', ''no reasoning recorded'']"

fun rfind_char :: "char \<Rightarrow> string \<Rightarrow> nat option" where
  "rfind_char c [] = None"
| "rfind_char c (d # ds) =
     (case rfind_char c ds of Some i \<Rightarrow> Some (Suc i) | None \<Rightarrow> (if c = d then Some 0 else None))"

definition find_char :: "char \<Rightarrow> string \<Rightarrow> nat option" where
  "find_char c s = position (\<lambda>d. d = c) s"

function strip_dsml :: "string \<Rightarrow> string \<Rightarrow> bool \<Rightarrow> string \<times> bool" where
  "strip_dsml rest out changed =
     (case find_str ''DSML'' rest of
        None \<Rightarrow> (out @ rest, changed)
      | Some d \<Rightarrow>
          (let cut = (case (rfind_char (CHR ''<'') (take d rest), find_char (CHR ''>'') (drop d rest)) of
                        (Some start, Some e) \<Rightarrow>
                          (if contains_str (to_ascii_lowercase (drop start (take (d + e + 1) rest))) ''parameter''
                           then Some (start, d + e + 1) else None)
                      | _ \<Rightarrow> None)
           in case cut of
                Some (start, stop) \<Rightarrow> strip_dsml (drop stop rest) (out @ take start rest) True
              | None \<Rightarrow> strip_dsml (drop (d + 4) rest) (out @ take (d + 4) rest) changed))"
  by pat_completeness auto
termination
  by (relation "measure (\<lambda>(rest, out, changed). length rest)")
    (auto dest!: find_str_bound split: option.splits if_splits)

declare strip_dsml.simps [simp del]

definition strip_dsml_parameter_fragments :: "string \<Rightarrow> string \<times> bool" where
  "strip_dsml_parameter_fragments input = strip_dsml input [] False"

definition strip_leading_parameter_tail :: "string \<Rightarrow> string \<times> bool" where
  "strip_leading_parameter_tail input =
     (let trimmed = trim_start input
      in if 12 \<le> length trimmed \<and> to_ascii_lowercase (take 12 trimmed) = ''</parameter>''
         then (drop (length input - length trimmed + 12) input, True)
         else (input, False))"

fun strip_markers :: "string list \<Rightarrow> string \<times> bool \<Rightarrow> string \<times> bool" where
  "strip_markers [] st = st"
| "strip_markers (marker # ms) (cleaned, changed) =
     strip_markers ms (if contains_str cleaned marker then (remove_all marker cleaned, True) else (cleaned, changed))"

definition strip_reasoning_filler :: "string \<Rightarrow> string" where
  "strip_reasoning_filler reasoning =
     (let (cleaned, changed) = strip_markers REASONING_FILLER_MARKERS (strip_dsml_parameter_fragments reasoning);
          cleaned = (if changed \<and> snd (strip_leading_parameter_tail cleaned)
                     then fst (strip_leading_parameter_tail cleaned) else cleaned)
      in if changed then str_trim cleaned else cleaned)"

section \<open>Retries\<close>

datatype retry_cause = Throttled | Upstream_Unavailable | Model_Timeout | Connection_Failed

definition retry_reason :: "provider_error \<Rightarrow> retry_cause" where
  "retry_reason e =
     (if http_status e = Some 429 then Throttled
      else if http_status e \<in> {Some 500, Some 502, Some 503, Some 504, Some 529} then Upstream_Unavailable
      else
        (let m = to_ascii_lowercase (pe_message e)
         in if pe_code e = Some OPEN_TIMEOUT_CODE \<or> contains_str m ''timeout'' \<or> contains_str m ''timed out''
            then Model_Timeout else Connection_Failed))"

definition provider_retry_backoff_secs :: "u32 \<Rightarrow> u64 option \<Rightarrow> u64" where
  "provider_retry_backoff_secs n hint =
     (case hint of
        Some ra \<Rightarrow> min (max ra 1) 60
      | None \<Rightarrow>
          (let shift = min (n - (if n = 0 then 0 else 1)) 20;
               product = 3 * 2 ^ unat shift
           in min (if product < 2 ^ 64 then word_of_nat product else - 1) 30))"

definition parse_retry_after_secs :: "string \<Rightarrow> u64 option" where
  "parse_retry_after_secs msg =
     (let lower = to_ascii_lowercase msg
      in case find_str ''try again in '' lower of
           None \<Rightarrow> None
         | Some i \<Rightarrow> map_option word_of_nat (parse_usize (takeWhile is_digit (drop (i + 13) lower))))"

definition effective_retry_after :: "provider_error \<Rightarrow> u64 option" where
  "effective_retry_after e =
     (case retry_after_secs e of Some s \<Rightarrow> Some s | None \<Rightarrow> parse_retry_after_secs (pe_message e))"

definition rate_limit_server_message :: "provider_error \<Rightarrow> string option" where
  "rate_limit_server_message e =
     (let status = (case http_status e of Some n \<Rightarrow> n | None \<Rightarrow> 429);
          detail = str_trim (case strip_prefix (''HTTP '' @ show_nat status @ '': '') (pe_message e) of
                               Some d \<Rightarrow> d | None \<Rightarrow> pe_message e)
      in if detail = [] then None else Some detail)"

text \<open>The last three needles are Chinese: balance insufficient, no resource pack available, please recharge.\<close>

definition terminal_needles :: "string list" where
  "terminal_needles =
     [''insufficient quota'', ''insufficient balance'', ''billing hard limit'', ''payment required'', ''credit balance'',
      [CHR 0xE4, CHR 0xBD, CHR 0x99, CHR 0xE9, CHR 0xA2, CHR 0x9D, CHR 0xE4, CHR 0xB8, CHR 0x8D, CHR 0xE8, CHR 0xB6, CHR 0xB3],
      [CHR 0xE6, CHR 0x97, CHR 0xA0, CHR 0xE5, CHR 0x8F, CHR 0xAF, CHR 0xE7, CHR 0x94, CHR 0xA8, CHR 0xE8, CHR 0xB5, CHR 0x84, CHR 0xE6, CHR 0xBA, CHR 0x90, CHR 0xE5, CHR 0x8C, CHR 0x85],
      [CHR 0xE8, CHR 0xAF, CHR 0xB7, CHR 0xE5, CHR 0x85, CHR 0x85, CHR 0xE5, CHR 0x80, CHR 0xBC]]"

definition is_terminal_rate_limit :: "provider_error \<Rightarrow> bool" where
  "is_terminal_rate_limit e \<longleftrightarrow>
     to_ascii_lowercase (case pe_code e of Some c \<Rightarrow> c | None \<Rightarrow> [])
       \<in> {''insufficient_quota'', ''billing_hard_limit_reached'', ''payment_required'', ''insufficient_balance'', ''1113''}
     \<or> list_ex (contains_str (to_ascii_lowercase (pe_message e))) terminal_needles"

record rate_limit_hint =
  rl_http_status :: "nat option"
  rl_retry_after :: "u64 option"
  rl_terminal :: bool
  rl_attempt :: u32

datatype rate_limit_decision =
    WaitAndRetry (rl_secs: u64)
  | Pause (reset_at_display: string) (reset_label: string) (secs_until_reset: "u64 option")

definition RATE_LIMIT_AUTO_WAIT_SECS :: u64 where "RATE_LIMIT_AUTO_WAIT_SECS = 120"

definition hint_from_provider_error :: "provider_error \<Rightarrow> u32 \<Rightarrow> rate_limit_hint" where
  "hint_from_provider_error e n =
     \<lparr>rl_http_status = http_status e, rl_retry_after = effective_retry_after e,
      rl_terminal = is_terminal_rate_limit e, rl_attempt = n\<rparr>"

text \<open>The delay without a hint from the server, in double precision: the base, scaled by 0.75 to 1.25.\<close>

definition jittered_secs :: "u32 \<Rightarrow> f64 \<Rightarrow> u64" where
  "jittered_secs n jitter =
     (let shift = min (n - (if n = 0 then 0 else 1)) 4;
          base = 3 * 2 ^ unat shift :: nat;
          factor = to_f64 (3/4 + to_f64 (1/2 * max 0 (min jitter 1)));
          r = max (f64_round (to_f64 (of_nat base * factor))) 1
      in word_of_int r)"

definition from_hint_with_jitter :: "rate_limit_hint \<Rightarrow> f64 \<Rightarrow> rate_limit_decision" where
  "from_hint_with_jitter hint jitter =
     (if rl_terminal hint then Pause [] [] (rl_retry_after hint)
      else case rl_retry_after hint of
        Some s \<Rightarrow> (if s \<le> RATE_LIMIT_AUTO_WAIT_SECS then WaitAndRetry s else Pause [] [] (rl_retry_after hint))
      | None \<Rightarrow> WaitAndRetry (jittered_secs (rl_attempt hint) jitter))"

datatype exhaustion_notice =
    Unparseable_Responses nat
  | Empty_After_Advice nat
  | Empty_Near_Window nat u32 u32
  | Empty_Upstream nat

definition near_or_over_window :: "u32 \<Rightarrow> u32 \<Rightarrow> bool" where
  "near_or_over_window est window \<longleftrightarrow> 0 < window \<and> unat window * 9 \<le> unat est * 10"

definition empty_exhaustion_message :: "bool \<Rightarrow> u32 \<Rightarrow> u32 \<Rightarrow> nat \<Rightarrow> bool \<Rightarrow> exhaustion_notice" where
  "empty_exhaustion_message saw_malformed est window retries already_advised =
     (if saw_malformed then Unparseable_Responses retries
      else if near_or_over_window est window \<and> already_advised then Empty_After_Advice retries
      else if near_or_over_window est window then Empty_Near_Window retries (est div 1000) (window div 1000)
      else Empty_Upstream retries)"

section \<open>Windows\<close>

definition saturating_add :: "'a::len word \<Rightarrow> 'a word \<Rightarrow> 'a word" where
  "saturating_add a b = (if unat a + unat b < 2 ^ LENGTH('a) then a + b else - 1)"

definition effective_input_limit :: "u32 \<Rightarrow> u32 option \<Rightarrow> u32" where
  "effective_input_limit window max_tokens =
     (let output_reserve = (case max_tokens of Some n \<Rightarrow> n | None \<Rightarrow> DEFAULT_MAX_OUTPUT_TOKENS);
          margin = min (max (window div 8) 16000) 128000;
          reserve = saturating_add output_reserve margin
      in if window \<le> reserve then window else window - reserve)"

definition over_window_advisory :: "u32 \<Rightarrow> u32 \<Rightarrow> u32 \<Rightarrow> (u32 \<times> u32) option" where
  "over_window_advisory est window trigger =
     (if window = 0 \<or> est < trigger then None else Some (est div 1000, window div 1000))"

definition f32_ratio :: "u32 \<Rightarrow> u32 \<Rightarrow> f32" where
  "f32_ratio a b = to_f32 (to_f32 (of_nat (unat a)) / to_f32 (of_nat (unat b)))"

definition auto_compact_trigger :: "u32 \<Rightarrow> u32 \<Rightarrow> f32 \<Rightarrow> compact_trigger option" where
  "auto_compact_trigger used window threshold =
     (if window = 0 then None
      else if threshold \<le> f32_ratio used window then Some (Auto (f32_ratio used window)) else None)"

definition UNKNOWN_WINDOW_SAFE_FLOOR :: u32 where "UNKNOWN_WINDOW_SAFE_FLOOR = 128000"

definition effective_compact_window :: "u32 \<Rightarrow> u32 \<Rightarrow> u32" where
  "effective_compact_window live recorded =
     (if 0 < live then live else if 0 < recorded then min recorded UNKNOWN_WINDOW_SAFE_FLOOR else 0)"

section \<open>The cap on a tool result\<close>

record tool_output =
  to_call_id :: string
  to_content :: string
  to_is_error :: bool
  to_images :: "image_content list"

definition is_char_boundary :: "string \<Rightarrow> nat \<Rightarrow> bool" where
  "is_char_boundary s i \<longleftrightarrow> i = 0 \<or> i = length s \<or> (i < length s \<and> \<not> is_continuation (s ! i))"

fun head_boundary :: "string \<Rightarrow> nat \<Rightarrow> nat" where
  "head_boundary s 0 = 0"
| "head_boundary s (Suc h) = (if is_char_boundary s (Suc h) then Suc h else head_boundary s h)"

function tail_boundary :: "string \<Rightarrow> nat \<Rightarrow> nat" where
  "tail_boundary s t = (if t < length s \<and> \<not> is_char_boundary s t then tail_boundary s (Suc t) else t)"
  by pat_completeness auto
termination
  by (relation "measure (\<lambda>(s, t). length s - t)") auto

declare tail_boundary.simps [simp del]

definition elision_counts :: "nat \<Rightarrow> nat \<Rightarrow> string" where
  "elision_counts elided whole =
     newline # ellipsis @ ''[truncated: '' @ show_nat elided @ '' of '' @ show_nat whole @ '' bytes elided by kernel cap]''"

definition cap_tool_result :: "tool_output \<Rightarrow> nat \<Rightarrow> tool_output" where
  "cap_tool_result result limit =
     (let content = to_content result; whole = length content; half = limit div 2;
          h = head_boundary content half; t = tail_boundary content (whole - half)
      in if limit = 0 then result
         else if whole \<le> limit then result
         else if t \<le> h then result\<lparr>to_content := take h content @ elision_counts (whole - h) whole\<rparr>
         else result\<lparr>to_content :=
                take h content @ elision_counts (t - h) whole @ ellipsis @ newline # drop t content\<rparr>)"

end
