(* ===== verification/Tools.thy ===== *)
theory Tools
  imports Engine_Policy Session
begin

text \<open>
  Tools, the catalogue they are mounted from and the wrappers around their execution
  (\<open>crates/atomcode-kernel/src/tool.rs\<close>, \<open>middleware.rs\<close>).

  A mounted tool is seen by the agent loop through its name, through \<open>parallel_safe\<close> and through the
  identity of the shared pointer it is held by; what its execution returns is a choice of the
  environment (theory \<open>Batch_Exec\<close>). A middleware is a pair of functions on a state of the
  environment, which stands for whatever an implementation reads or asks the driver.
\<close>

record tool =
  t_ident :: nat
  t_name :: string
  t_parallel_safe :: "string \<Rightarrow> bool"

section \<open>The catalogue\<close>

type_synonym tool_registry = "(string, tool) btree"

definition registry_register :: "tool \<Rightarrow> tool_registry \<Rightarrow> tool_registry" where
  "registry_register t reg = bt_insert (t_name t) t reg"

definition registry_select :: "string list \<Rightarrow> tool_registry \<Rightarrow> (string, tool) btree" where
  "registry_select names reg =
     fold (\<lambda>n m. case map_of reg n of Some t \<Rightarrow> bt_insert n t m | None \<Rightarrow> m) names []"

record mounted_snapshot =
  ms_revision :: u64
  ms_selected :: "(string, tool) btree"

definition registry_mount :: "string list \<Rightarrow> tool_registry \<Rightarrow> mounted_snapshot" where
  "registry_mount names reg = \<lparr>ms_revision = 0, ms_selected = registry_select names reg\<rparr>"

definition snapshot_get :: "mounted_snapshot \<Rightarrow> string \<Rightarrow> tool option" where
  "snapshot_get s n = map_of (ms_selected s) n"

definition snapshot_def_names :: "mounted_snapshot \<Rightarrow> string list" where
  "snapshot_def_names s = map (t_name \<circ> snd) (ms_selected s)"

definition publish :: "tool_registry \<Rightarrow> string list \<Rightarrow> mounted_snapshot \<Rightarrow> mounted_snapshot" where
  "publish reg names cur =
     \<lparr>ms_revision = saturating_succ (ms_revision cur), ms_selected = registry_select names reg\<rparr>"

section \<open>Middleware\<close>

datatype before_outcome =
    Before_Proceed
  | Before_Allow "string option"
  | Before_Ask "string option"
  | Before_Deny string
  | Before_DenyTurn string
  | Before_DenyTurnWithIntervention string policy_intervention

fun is_deny :: "before_outcome \<Rightarrow> bool" where
  "is_deny (Before_Deny _) \<longleftrightarrow> True"
| "is_deny (Before_DenyTurn _) \<longleftrightarrow> True"
| "is_deny (Before_DenyTurnWithIntervention _ _) \<longleftrightarrow> True"
| "is_deny _ \<longleftrightarrow> False"

fun deny_reason :: "before_outcome \<Rightarrow> string option" where
  "deny_reason (Before_Deny r) = Some r"
| "deny_reason (Before_DenyTurn r) = Some r"
| "deny_reason (Before_DenyTurnWithIntervention r _) = Some r"
| "deny_reason _ = None"

datatype after_outcome = After_Proceed | After_Block string

record 's middleware =
  mw_before :: "'s \<Rightarrow> tool_call \<Rightarrow> tool \<Rightarrow> 's \<times> tool_call \<times> before_outcome"
  mw_after :: "'s \<Rightarrow> tool_output \<Rightarrow> tool option \<Rightarrow> 's \<times> tool_output \<times> after_outcome"

text \<open>
  The before-chain of the loop, with the running figure for the policy intervention: the call as
  rewritten, and why it is blocked (the flag says that the turn ends).
\<close>

fun before_chain ::
  "'s middleware list \<Rightarrow> tool \<Rightarrow> 's \<Rightarrow> tool_call \<Rightarrow> policy_intervention option
   \<Rightarrow> 's \<times> tool_call \<times> (string \<times> bool) option \<times> policy_intervention option" where
  "before_chain [] t s call pint = (s, call, None, pint)"
| "before_chain (mw # mws) t s call pint =
     (let (s', call', outcome) = mw_before mw s call t
      in case outcome of
           Before_Proceed \<Rightarrow> before_chain mws t s' call' pint
         | Before_Ask _ \<Rightarrow> before_chain mws t s' call' pint
         | Before_Allow _ \<Rightarrow> (s', call', None, pint)
         | Before_Deny r \<Rightarrow> (s', call', Some (r, False), pint)
         | Before_DenyTurn r \<Rightarrow> (s', call', Some (r, True), pint)
         | Before_DenyTurnWithIntervention r i \<Rightarrow> (s', call', Some (r, True), Some i))"

text \<open>The after-chain: every middleware runs, and the first reason to block is kept.\<close>

fun after_chain ::
  "'s middleware list \<Rightarrow> tool option \<Rightarrow> 's \<Rightarrow> tool_output \<Rightarrow> string option \<Rightarrow> 's \<times> tool_output \<times> string option" where
  "after_chain [] t s r blocked = (s, r, blocked)"
| "after_chain (mw # mws) t s r blocked =
     (let (s', r', outcome) = mw_after mw s r t
      in after_chain mws t s' r'
           (case outcome of
              After_Block reason \<Rightarrow> (case blocked of None \<Rightarrow> Some reason | Some b \<Rightarrow> Some b)
            | After_Proceed \<Rightarrow> blocked))"

subsection \<open>Laws\<close>

text \<open>A middleware may rewrite the arguments of a call and the text of a result, never the id they carry.\<close>

definition keeps_ids :: "'s middleware \<Rightarrow> bool" where
  "keeps_ids mw \<longleftrightarrow>
     (\<forall>s call t. tc_id (fst (snd (mw_before mw s call t))) = tc_id call)
     \<and> (\<forall>s r t. to_call_id (fst (snd (mw_after mw s r t))) = to_call_id r)"

definition never_blocks :: "'s middleware \<Rightarrow> bool" where
  "never_blocks mw \<longleftrightarrow> (\<forall>s r t. snd (snd (mw_after mw s r t)) = After_Proceed)"

lemma before_chain_id:
  "\<forall>mw\<in>set mws. keeps_ids mw \<Longrightarrow> tc_id (fst (snd (before_chain mws t s call pint))) = tc_id call"
proof (induction mws t s call pint rule: before_chain.induct)
  case (2 mw mws t s call pint)
  obtain s' call' outcome where mw: "mw_before mw s call t = (s', call', outcome)" by (cases "mw_before mw s call t")
  have "tc_id call' = tc_id call" using 2(3) mw by (auto simp: keeps_ids_def) (metis fst_conv snd_conv)
  then show ?case using 2 mw by (cases outcome) simp_all
qed simp

lemma after_chain_id:
  "\<forall>mw\<in>set mws. keeps_ids mw \<Longrightarrow> to_call_id (fst (snd (after_chain mws t s r b))) = to_call_id r"
proof (induction mws t s r b rule: after_chain.induct)
  case (2 mw mws t s r b)
  obtain s' r' outcome where mw: "mw_after mw s r t = (s', r', outcome)" by (cases "mw_after mw s r t")
  have "to_call_id r' = to_call_id r" using 2(2) mw by (auto simp: keeps_ids_def) (metis fst_conv snd_conv)
  then show ?case using 2 mw by (cases outcome) simp_all
qed simp

lemma after_chain_never_blocks:
  "\<forall>mw\<in>set mws. never_blocks mw \<Longrightarrow> snd (snd (after_chain mws t s r b)) = b"
proof (induction mws t s r b rule: after_chain.induct)
  case (2 mw mws t s r b)
  obtain s' r' outcome where mw: "mw_after mw s r t = (s', r', outcome)" by (cases "mw_after mw s r t")
  have "outcome = After_Proceed" using 2(2) mw by (auto simp: never_blocks_def) (metis snd_conv)
  then show ?case using 2 mw by simp
qed simp

text \<open>What a mount exposes is what was asked for and is registered, under the name it was asked by.\<close>

lemma registry_select_aux:
  "bt_invar m \<Longrightarrow>
   map_of (fold (\<lambda>n m. case map_of reg n of Some t \<Rightarrow> bt_insert n t m | None \<Rightarrow> m) names m) n =
   (if n \<in> set names \<and> map_of reg n \<noteq> None then map_of reg n else map_of m n)"
proof (induction names arbitrary: m)
  case (Cons a names)
  then show ?case by (auto simp: bt_invar_insert map_of_bt_insert split: option.splits)
qed simp

lemma registry_select_get:
  "map_of (registry_select names reg) n = (if n \<in> set names then map_of reg n else None)"
  by (auto simp: registry_select_def registry_select_aux)

lemma publish_get:
  "snapshot_get (publish reg names cur) n = (if n \<in> set names then map_of reg n else None)"
  by (simp add: snapshot_get_def publish_def registry_select_get)

end
