(* ===== verification/Policy_Laws.thy ===== *)
theory Policy_Laws
  imports Engine_Policy
begin

text \<open>
  What the decisions of \<open>Engine_Policy\<close> come to: the exact guard warns and stops at exactly the configured
  length of a run of equal fingerprints; a capped tool result is the head and the tail of the text, cut
  between characters, with the count of the bytes left out; the waits are bounded.
\<close>

section \<open>The exact guard\<close>

text \<open>
  A round gives the guard a fingerprint, or resets it (a round that is not comparable, a steer, a reply
  without tool calls).
\<close>

definition guard_step :: "'fp option \<Rightarrow> 'fp tool_loop_state \<Rightarrow> 'fp tool_loop_state" where
  "guard_step ev st =
     (case ev of Some fp \<Rightarrow> fst (tool_loop_observe fp st) | None \<Rightarrow> tool_loop_reset st)"

definition guard_after :: "tool_loop_policy \<Rightarrow> 'fp option list \<Rightarrow> 'fp tool_loop_state" where
  "guard_after p evs = fold guard_step evs (tool_loop_state_new p)"

text \<open>The rounds at the end of the history that gave this very fingerprint.\<close>

definition run_length :: "'fp \<Rightarrow> 'fp option list \<Rightarrow> nat" where
  "run_length fp evs = length (takeWhile (\<lambda>ev. ev = Some fp) (rev evs))"

lemma run_length_snoc [simp]:
  "run_length fp (evs @ [ev]) = (if ev = Some fp then Suc (run_length fp evs) else 0)"
  by (simp add: run_length_def)

lemma run_length_Nil [simp]: "run_length fp [] = 0"
  by (simp add: run_length_def)

lemma run_length_le: "run_length fp evs \<le> length evs"
  by (metis run_length_def length_rev length_takeWhile_le)

lemma unat_saturating_succ: "unat (saturating_succ w) = min (Suc (unat w)) (2 ^ LENGTH('a) - 1)"
  for w :: "'a::len word"
proof (cases "w = - 1")
  case True
  then show ?thesis by (simp add: saturating_succ_def unsigned_minus_1_eq_mask mask_eq_exp_minus_1)
next
  case False
  then have "unat (w + 1) = Suc (unat w)" by (metis add.commute add.inverse_inverse add_eq_0_iff unatSuc)
  moreover have "unat (w + 1) \<le> 2 ^ LENGTH('a) - 1" using unsigned_less [of "w + 1", where ?'a = nat] by linarith
  ultimately show ?thesis using False by (simp add: saturating_succ_def)
qed

lemma guard_after_state:
  "length evs < 2 ^ 32 \<Longrightarrow>
   tl_policy (guard_after p evs) = p
   \<and> (\<forall>fp. (if tl_last (guard_after p evs) = Some fp then unat (tl_consecutive (guard_after p evs)) else 0)
            = run_length fp evs)
   \<and> (tl_last (guard_after p evs) = None \<longrightarrow> tl_consecutive (guard_after p evs) = 0)"
proof (induction evs rule: rev_induct)
  case Nil
  show ?case by (simp add: guard_after_def tool_loop_state_new_def)
next
  case (snoc ev evs)
  let ?st = "guard_after p evs"
  from snoc.prems have len: "length evs < 2 ^ 32" by simp
  note IH = snoc.IH [OF len]
  have step: "guard_after p (evs @ [ev]) = guard_step ev ?st" by (simp add: guard_after_def)
  show ?case
  proof (cases ev)
    case None
    then show ?thesis using IH unfolding step by (simp add: guard_step_def tool_loop_reset_def)
  next
    case (Some fp)
    have bound: "run_length fp evs < 2 ^ 32 - 1"
      using run_length_le [of fp evs] snoc.prems by simp
    show ?thesis
      using IH bound unfolding step
      by (cases "tl_last ?st = Some fp")
        (auto simp: guard_step_def Some tool_loop_observe_def Let_def unat_saturating_succ split: if_splits)
  qed
qed

lemma guard_decision:
  assumes "length evs < 2 ^ 32 - 1"
  shows "snd (tool_loop_observe fp (guard_after p evs)) =
    (let n = Suc (run_length fp evs)
     in if unat (stop_threshold p) \<le> n then Loop_Stop
        else if n = unat (warning_threshold p) then Loop_Warn else Loop_Continue)"
proof -
  let ?st = "guard_after p evs" and ?st' = "guard_after p (evs @ [Some fp])"
  have st': "fst (tool_loop_observe fp ?st) = ?st'" by (simp add: guard_after_def guard_step_def)
  have "tl_policy ?st = p" using guard_after_state [of evs p] assms by simp
  moreover have "unat (tl_consecutive ?st') = Suc (run_length fp evs)"
    using guard_after_state [of "evs @ [Some fp]" p] assms
    by (simp split: if_splits) (metis run_length_snoc)
  ultimately show ?thesis
    using st' by (auto simp: tool_loop_observe_def Let_def word_le_nat_alt word_unat_eq_iff split: if_splits)
qed

section \<open>The cap\<close>

lemma head_boundary_le: "head_boundary s h \<le> h"
  by (induction h) auto

lemma head_boundary_boundary: "is_char_boundary s (head_boundary s h)"
  by (induction h) (auto simp: is_char_boundary_def)

lemma head_boundary_greatest: "is_char_boundary s i \<Longrightarrow> i \<le> h \<Longrightarrow> i \<le> head_boundary s h"
  by (induction h) (auto simp: le_Suc_eq)

lemma tail_boundary_ge: "t \<le> tail_boundary s t"
  by (induction s t rule: tail_boundary.induct) (subst tail_boundary.simps, auto)

lemma tail_boundary_le: "t \<le> length s \<Longrightarrow> tail_boundary s t \<le> length s"
  by (induction s t rule: tail_boundary.induct) (subst tail_boundary.simps, auto)

lemma tail_boundary_boundary: "t \<le> length s \<Longrightarrow> is_char_boundary s (tail_boundary s t)"
  by (induction s t rule: tail_boundary.induct) (subst tail_boundary.simps, auto simp: is_char_boundary_def)

lemma tail_boundary_least:
  "is_char_boundary s i \<Longrightarrow> t \<le> i \<Longrightarrow> tail_boundary s t \<le> i"
proof (induction s t rule: tail_boundary.induct)
  case (1 s t)
  show ?case
  proof (cases "t < length s \<and> \<not> is_char_boundary s t")
    case True
    with 1(2,3) have "Suc t \<le> i" by (metis Suc_leI le_neq_implies_less)
    from 1(1) [OF True 1(2) this] show ?thesis using True by (subst tail_boundary.simps) simp
  next
    case False
    then have "tail_boundary s t = t" by (subst tail_boundary.simps) auto
    with 1(3) show ?thesis by simp
  qed
qed

text \<open>The text is over the cap: the two kept halves cannot meet, so the fallback is never taken.\<close>

lemma halves_apart:
  assumes "limit < length s"
  shows "head_boundary s (limit div 2) < tail_boundary s (length s - limit div 2)"
  using assms head_boundary_le [of s "limit div 2"] tail_boundary_ge [of "length s - limit div 2" s]
  by linarith

lemma cap_tool_result_over:
  assumes "0 < limit" "limit < length (to_content r)"
  obtains front middle rear where
    "to_content r = front @ middle @ rear"
    "to_content (cap_tool_result r limit) =
       front @ elision_counts (length middle) (length (to_content r)) @ ellipsis @ newline # rear"
    "is_char_boundary (to_content r) (length front)"
    "is_char_boundary (to_content r) (length front + length middle)"
    "length front \<le> limit div 2" "length rear \<le> limit div 2"
proof -
  let ?s = "to_content r"
  let ?h = "head_boundary ?s (limit div 2)" and ?t = "tail_boundary ?s (length ?s - limit div 2)"
  have apart: "?h < ?t" and le: "?t \<le> length ?s"
    using halves_apart [OF assms(2)] tail_boundary_le [of "length ?s - limit div 2" ?s] by auto
  show thesis
  proof
    show "?s = take ?h ?s @ drop ?h (take ?t ?s) @ drop ?t ?s"
      using apart le by (metis append_assoc append_take_drop_id less_imp_le min.absorb1 take_take)
    show "to_content (cap_tool_result r limit) =
        take ?h ?s @ elision_counts (length (drop ?h (take ?t ?s))) (length ?s) @ ellipsis @ newline # drop ?t ?s"
      using apart le assms by (simp add: cap_tool_result_def Let_def min.absorb1)
    show "is_char_boundary ?s (length (take ?h ?s))"
      using apart le by (simp add: min.absorb2 head_boundary_boundary)
    show "is_char_boundary ?s (length (take ?h ?s) + length (drop ?h (take ?t ?s)))"
      using apart le by (simp add: min.absorb2 tail_boundary_boundary)
    show "length (take ?h ?s) \<le> limit div 2" using head_boundary_le [of ?s "limit div 2"] by simp
    show "length (drop ?t ?s) \<le> limit div 2" using tail_boundary_ge [of "length ?s - limit div 2" ?s] by simp
  qed
qed

lemma cap_tool_result_under:
  "limit = 0 \<or> length (to_content r) \<le> limit \<Longrightarrow> cap_tool_result r limit = r"
  by (auto simp: cap_tool_result_def Let_def)

lemma cap_tool_result_other [simp]:
  "to_call_id (cap_tool_result r limit) = to_call_id r"
  "to_is_error (cap_tool_result r limit) = to_is_error r"
  "to_images (cap_tool_result r limit) = to_images r"
  by (simp_all add: cap_tool_result_def Let_def)

section \<open>Waits\<close>

lemma provider_retry_backoff_hint:
  "provider_retry_backoff_secs n (Some ra) = min (max ra 1) 60"
  by (simp add: provider_retry_backoff_secs_def)

lemma unat_numeral_30: "unat (30 :: u64) = 30"
  by simp

lemma provider_retry_backoff_doubles:
  assumes "0 < n"
  shows "unat (provider_retry_backoff_secs n None) = min (3 * 2 ^ (unat n - 1)) 30"
proof -
  define k where "k = min (unat n - 1) 20"
  have n1: "unat (n - 1) = unat n - 1" using assms by (simp add: unat_minus_one word_neq_0_conv)
  have shift: "unat (min (n - (if n = 0 then 0 else 1)) 20) = k"
    using assms n1 by (auto simp: k_def min_def word_le_nat_alt)
  have "(2::nat) ^ k \<le> 2 ^ 20" by (intro power_increasing) (simp_all add: k_def)
  then have small: "3 * 2 ^ k < (2 ^ 64 :: nat)" by simp
  have eq: "provider_retry_backoff_secs n None = min (word_of_nat (3 * 2 ^ k)) 30"
    using small by (simp only: provider_retry_backoff_secs_def option.case Let_def shift if_True)
  have wide: "unat (word_of_nat (3 * 2 ^ k) :: u64) = 3 * 2 ^ k"
    using small by (simp only: unat_of_nat) simp
  have "unat (provider_retry_backoff_secs n None) = min (3 * 2 ^ k) 30"
    unfolding eq by (cases "word_of_nat (3 * 2 ^ k) \<le> (30 :: u64)")
      (simp_all only: min_def word_le_nat_alt wide if_True if_False unat_numeral_30)
  also have "\<dots> = min (3 * 2 ^ (unat n - 1)) 30"
  proof (cases "unat n - 1 \<le> 20")
    case False
    then have "(2::nat) ^ 20 \<le> 2 ^ (unat n - 1)" by (intro power_increasing) simp_all
    with False show ?thesis by (simp add: k_def)
  qed (simp add: k_def)
  finally show ?thesis .
qed

lemma provider_retry_backoff_bounds:
  "1 \<le> unat (provider_retry_backoff_secs n hint) \<and> unat (provider_retry_backoff_secs n hint) \<le> 60"
proof (cases hint)
  case None
  then show ?thesis
  proof (cases "n = 0")
    case True
    with None show ?thesis by (simp add: provider_retry_backoff_secs_def)
  next
    case False
    with None show ?thesis using provider_retry_backoff_doubles [of n] by (simp add: word_neq_0_conv min_def)
  qed
next
  case (Some ra)
  then show ?thesis by (simp add: provider_retry_backoff_hint min_def max_def word_le_nat_alt)
qed

lemma unat_saturating_add: "unat (saturating_add a b) = min (unat a + unat b) (2 ^ LENGTH('a) - 1)"
  for a b :: "'a::len word"
proof (cases "unat a + unat b < 2 ^ LENGTH('a)")
  case True
  then show ?thesis by (simp add: saturating_add_def unat_word_ariths)
next
  case False
  then show ?thesis by (simp add: saturating_add_def unsigned_minus_1_eq_mask mask_eq_exp_minus_1)
qed

text \<open>The input budget leaves room for the reply and the margin, or is the raw window when they do not fit.\<close>

lemma effective_input_limit_room:
  fixes window :: u32 and mt :: "u32 option"
  defines "reserve \<equiv> unat (case mt of Some n \<Rightarrow> n | None \<Rightarrow> DEFAULT_MAX_OUTPUT_TOKENS)
                     + min (max (unat window div 8) 16000) 128000"
  shows "unat (effective_input_limit window mt) = (if unat window \<le> reserve then unat window else unat window - reserve)"
proof -
  let ?m = "min (max (window div 8) 16000) 128000"
  have m: "unat ?m = min (max (unat window div 8) 16000) 128000"
    by (simp add: min_def max_def word_le_nat_alt unat_div)
  let ?r = "saturating_add (case mt of Some n \<Rightarrow> n | None \<Rightarrow> DEFAULT_MAX_OUTPUT_TOKENS) ?m"
  have r: "unat ?r = min reserve (2 ^ 32 - 1)" by (simp add: unat_saturating_add reserve_def m)
  have w: "unat window \<le> 2 ^ 32 - 1" using unsigned_less [of window, where ?'a = nat] by simp
  show ?thesis
    using r w by (auto simp: effective_input_limit_def Let_def word_le_nat_alt unat_sub min_def split: if_splits)
qed

end
