(* ===== verification/Tool_Batch.thy ===== *)
theory Tool_Batch
  imports Tools Policy_Laws
begin

text \<open>
  One batch of tool calls (\<open>crates/atomcode-kernel/src/agent/engine.rs\<close>, the three phases in
  \<open>run_turn\<close>): phase 1 classifies the calls of an assistant message in order, phase 3 applies the results in
  order. Phase 2, which executes, is the theory \<open>Batch_Exec\<close>; here its outcome is a list of slots.

  The lemmas show that every id of the message receives exactly one result, in the order the ids first
  occur, so that the stored history stays one a provider accepts; that nothing of a truncated message and
  nothing beside a hard denial is left to execute; and that no call executes twice.
\<close>

section \<open>Phase 1: classify\<close>

datatype call_plan =
    Skip
  | Ready (ready_result: tool_output) (terminate_turn: bool)
  | Execute (plan_tool: tool) (plan_call: tool_call) (plan_parallel_safe: bool)

record 's classifying =
  cl_world :: 's
  cl_plans :: "call_plan list"
  cl_ids :: "string set"
  cl_seen :: "(string \<times> string) set"
  cl_denied :: bool
  cl_intervention :: "policy_intervention option"

definition classify_start :: "'s \<Rightarrow> 's classifying" where
  "classify_start w =
     \<lparr>cl_world = w, cl_plans = [], cl_ids = {}, cl_seen = {}, cl_denied = False, cl_intervention = None\<rparr>"

definition error_output :: "string \<Rightarrow> string \<Rightarrow> tool_output" where
  "error_output i content = \<lparr>to_call_id = i, to_content = content, to_is_error = True, to_images = []\<rparr>"

definition BATCH_BLOCKED :: string where
  "BATCH_BLOCKED = ''blocked: another call in this batch terminated the turn by policy''"

definition DUPLICATE_STUB :: string where
  "DUPLICATE_STUB = ''[duplicate call '' @ em_dash @ '' identical tool and arguments to an earlier call this turn; result already returned above]''"

definition duplicate_output :: "string \<Rightarrow> tool_output" where
  "duplicate_output i = \<lparr>to_call_id = i, to_content = DUPLICATE_STUB, to_is_error = False, to_images = []\<rparr>"

text \<open>Plan a ready result and record its id.\<close>

definition plan_ready :: "tool_output \<Rightarrow> bool \<Rightarrow> 's classifying \<Rightarrow> 's classifying" where
  "plan_ready r stop st =
     st\<lparr>cl_plans := cl_plans st @ [Ready r stop], cl_ids := insert (to_call_id r) (cl_ids st)\<rparr>"

text \<open>A hard denial turns every planned execution of the batch into a blocked result.\<close>

fun suppress :: "call_plan \<Rightarrow> call_plan" where
  "suppress (Execute t c p) = Ready (error_output (tc_id c) BATCH_BLOCKED) False"
| "suppress plan = plan"

definition classify_mounted ::
  "'s middleware list \<Rightarrow> tool \<Rightarrow> string \<times> string \<Rightarrow> tool_call \<Rightarrow> 's classifying \<Rightarrow> 's classifying" where
  "classify_mounted mws t key call st =
     (let (w, call', blocked, pint) = before_chain mws t (cl_world st) call (cl_intervention st);
          st1 = st\<lparr>cl_world := w, cl_intervention := pint\<rparr>
      in case blocked of
           Some (reason, stop) \<Rightarrow>
             (let st2 = plan_ready (error_output (tc_id call') (''blocked: '' @ reason)) stop st1
              in if stop then st2\<lparr>cl_denied := True, cl_plans := map suppress (cl_plans st2)\<rparr> else st2)
         | None \<Rightarrow>
             st1\<lparr>cl_plans := cl_plans st1 @ [Execute t call' (t_parallel_safe t (tc_arguments call'))],
                 cl_ids := insert (tc_id call') (cl_ids st1), cl_seen := insert key (cl_seen st1)\<rparr>)"

definition classify_call ::
  "serde \<Rightarrow> 's middleware list \<Rightarrow> (string \<Rightarrow> tool option) \<Rightarrow> bool \<Rightarrow> tool_call \<Rightarrow> 's classifying \<Rightarrow> 's classifying" where
  "classify_call sd mws mounted was_cut call st =
     (let key = tool_call_dedup_key sd call
      in if tc_id call \<in> cl_ids st then st\<lparr>cl_plans := cl_plans st @ [Skip]\<rparr>
         else if was_cut then plan_ready (error_output (tc_id call) TRUNCATED_TOOLCALL_COACH) False st
         else if cl_denied st then plan_ready (error_output (tc_id call) BATCH_BLOCKED) False st
         else if key \<in> cl_seen st then plan_ready (duplicate_output (tc_id call)) False st
         else case mounted (tc_name call) of
                None \<Rightarrow> plan_ready (error_output (tc_id call) (''unknown or unmounted tool: '' @ tc_name call)) False st
              | Some t \<Rightarrow> classify_mounted mws t key call st)"

definition classify ::
  "serde \<Rightarrow> 's middleware list \<Rightarrow> (string \<Rightarrow> tool option) \<Rightarrow> bool \<Rightarrow> 's \<Rightarrow> tool_call list \<Rightarrow> 's classifying" where
  "classify sd mws mounted was_cut w calls =
     fold (classify_call sd mws mounted was_cut) calls (classify_start w)"

section \<open>Phase 3: apply\<close>

record executed =
  ex_reused :: bool
  ex_result :: tool_output
  ex_cwd :: "string option"
  ex_intervention :: "policy_intervention option"

definition ready_slot :: "tool_output \<Rightarrow> executed" where
  "ready_slot r = \<lparr>ex_reused = False, ex_result = r, ex_cwd = None, ex_intervention = None\<rparr>"

record receipt =
  rc_tool :: tool
  rc_arguments :: string
  rc_cwd :: string
  rc_result :: tool_output

record 's applying =
  ap_convo :: conversation
  ap_world :: 's
  ap_events :: "tool_output list"
  ap_images :: "image_content list"
  ap_ok :: nat
  ap_denied :: bool
  ap_intervention :: "policy_intervention option"
  ap_confirmed :: bool
  ap_evidence :: "receipt list"
  ap_candidate :: bool
  ap_calls :: "call_fingerprint list"

fun plan_is_execute :: "call_plan \<Rightarrow> bool" where
  "plan_is_execute (Execute _ _ _) \<longleftrightarrow> True"
| "plan_is_execute _ \<longleftrightarrow> False"

fun tool_of_plan :: "call_plan \<Rightarrow> tool option" where
  "tool_of_plan (Execute t _ _) = Some t"
| "tool_of_plan _ = None"

text \<open>A round is comparable with the last one when it is one execution, or only read-only executions.\<close>

definition loop_candidate :: "bool \<Rightarrow> call_plan list \<Rightarrow> bool" where
  "loop_candidate guarded plans \<longleftrightarrow>
     guarded \<and> plans \<noteq> []
     \<and> ((length plans = 1 \<and> plan_is_execute (hd plans))
        \<or> list_all (\<lambda>p. case p of Execute _ _ safe \<Rightarrow> safe | _ \<Rightarrow> False) plans)"

text \<open>The receipt and the fingerprint of an execution.\<close>

definition evidence_of :: "serde \<Rightarrow> call_plan \<Rightarrow> string option \<Rightarrow> tool_output \<Rightarrow> receipt option" where
  "evidence_of sd plan dir r =
     (case (plan, dir) of
        (Execute t c _, Some d) \<Rightarrow>
          Some \<lparr>rc_tool = t, rc_arguments = canonicalize_tool_args sd (tc_arguments c), rc_cwd = d, rc_result = r\<rparr>
      | _ \<Rightarrow> None)"

definition fingerprint_of :: "serde \<Rightarrow> call_plan \<Rightarrow> string option \<Rightarrow> tool_output \<Rightarrow> call_fingerprint option" where
  "fingerprint_of sd plan dir r =
     (case (plan, dir) of
        (Execute t c _, Some d) \<Rightarrow>
          Some \<lparr>fp_tool_name = t_name t, fp_arguments = canonicalize_tool_args sd (tc_arguments c), fp_cwd = d,
                fp_content = to_content r, fp_error = to_is_error r\<rparr>
      | _ \<Rightarrow> None)"

definition apply_slot ::
  "serde \<Rightarrow> 's middleware list \<Rightarrow> nat \<Rightarrow> bool \<Rightarrow> call_plan \<times> executed option \<Rightarrow> 's applying \<Rightarrow> 's applying" where
  "apply_slot sd mws limit batched ps st =
     (case snd ps of
        None \<Rightarrow> st\<lparr>ap_confirmed := False\<rparr>
      | Some ex \<Rightarrow>
          (let plan = fst ps;
               pint = (case ap_intervention st of Some i \<Rightarrow> Some i | None \<Rightarrow> ex_intervention ex);
               denied = (ap_denied st \<or> ex_intervention ex \<noteq> None);
               (w, raw, blocked) =
                 (if ex_reused ex then (ap_world st, ex_result ex, None)
                  else after_chain mws (tool_of_plan plan) (ap_world st) (ex_result ex) None);
               r = cap_tool_result raw limit;
               evidence =
                 (if \<not> ex_reused ex \<and> \<not> to_is_error (ex_result ex) \<and> \<not> to_is_error r \<and> to_images r = []
                     \<and> blocked = None \<and> \<not> denied
                  then evidence_of sd plan (ex_cwd ex) r else None);
               print =
                 (if \<not> ex_reused ex \<and> ap_candidate st \<and> to_images r = [] \<and> blocked = None
                  then fingerprint_of sd plan (ex_cwd ex) r else None)
           in st\<lparr>ap_world := w,
                 ap_intervention := pint,
                 ap_confirmed := (ap_confirmed st \<and> evidence \<noteq> None),
                 ap_evidence := ap_evidence st @ (case evidence of Some e \<Rightarrow> [e] | None \<Rightarrow> []),
                 ap_candidate := (ap_candidate st \<and> print \<noteq> None),
                 ap_calls := ap_calls st @ (case print of Some f \<Rightarrow> [f] | None \<Rightarrow> []),
                 ap_ok := (if \<not> to_is_error r \<and> batched then ap_ok st + 1 else ap_ok st),
                 ap_images := ap_images st @ to_images r,
                 ap_events := ap_events st @ [r\<lparr>to_images := []\<rparr>],
                 ap_denied := (denied \<or> (case plan of Ready _ stop \<Rightarrow> stop | _ \<Rightarrow> False)),
                 ap_convo :=
                   (let c = conversation_push (ap_convo st) (tool_result (to_call_id r) (to_content r) (to_is_error r))
                    in case blocked of Some reason \<Rightarrow> conversation_push c (synthetic_user reason) | None \<Rightarrow> c)\<rparr>))"

definition apply_start :: "conversation \<Rightarrow> 's \<Rightarrow> bool \<Rightarrow> policy_intervention option \<Rightarrow> 's applying" where
  "apply_start c w comparable pint =
     \<lparr>ap_convo = c, ap_world = w, ap_events = [], ap_images = [], ap_ok = 0, ap_denied = False,
      ap_intervention = pint, ap_confirmed = True, ap_evidence = [], ap_candidate = comparable, ap_calls = []\<rparr>"

definition apply_batch ::
  "serde \<Rightarrow> 's middleware list \<Rightarrow> nat \<Rightarrow> bool \<Rightarrow> bool \<Rightarrow> policy_intervention option \<Rightarrow> call_plan list
   \<Rightarrow> executed option list \<Rightarrow> conversation \<Rightarrow> 's \<Rightarrow> 's applying" where
  "apply_batch sd mws limit guarded batched pint plans slots c w =
     fold (apply_slot sd mws limit batched) (zip plans slots)
       (apply_start c w (loop_candidate guarded plans) pint)"

text \<open>Receipts are published only for a batch confirmed as a whole, and within their bounds.\<close>

definition receipt_bytes :: "receipt \<Rightarrow> nat" where
  "receipt_bytes rc = length (rc_arguments rc) + length (to_content (rc_result rc))"

definition batch_confirmed :: "receipt list \<Rightarrow> bool \<Rightarrow> 's applying \<Rightarrow> bool" where
  "batch_confirmed known cancelled st \<longleftrightarrow>
     ap_confirmed st \<and> ap_evidence st \<noteq> [] \<and> \<not> ap_denied st \<and> \<not> cancelled
     \<and> length known + length (ap_evidence st) \<le> MAX_RECOVERY_TOOL_RECEIPTS
     \<and> sum_list (map receipt_bytes (known @ ap_evidence st)) \<le> MAX_RECOVERY_RECEIPT_BYTES"

section \<open>Every id is answered once\<close>

text \<open>The id a plan answers.\<close>

fun plan_id :: "call_plan \<Rightarrow> string option" where
  "plan_id Skip = None"
| "plan_id (Ready r _) = Some (to_call_id r)"
| "plan_id (Execute _ c _) = Some (tc_id c)"

definition plan_ids :: "call_plan list \<Rightarrow> string list" where
  "plan_ids plans = List.map_filter plan_id plans"

lemma plan_ids_append [simp]: "plan_ids (xs @ ys) = plan_ids xs @ plan_ids ys"
  by (simp add: plan_ids_def map_filter_def)

lemma plan_ids_Cons [simp]: "plan_ids (p # ps) = (case plan_id p of Some i \<Rightarrow> [i] | None \<Rightarrow> []) @ plan_ids ps"
  by (simp add: plan_ids_def map_filter_def split: option.splits)

lemma plan_ids_Nil [simp]: "plan_ids [] = []"
  by (simp add: plan_ids_def map_filter_def)

lemma plan_id_suppress [simp]: "plan_id (suppress p) = plan_id p"
  by (cases p) (simp_all add: error_output_def)

lemma plan_ids_suppress [simp]: "plan_ids (map suppress ps) = plan_ids ps"
  by (induction ps) simp_all

lemma error_output_id [simp]: "to_call_id (error_output i c) = i"
  by (simp add: error_output_def)

lemma duplicate_output_id [simp]: "to_call_id (duplicate_output i) = i"
  by (simp add: duplicate_output_def)

lemma plan_ready_fields [simp]:
  "cl_plans (plan_ready r b st) = cl_plans st @ [Ready r b]"
  "cl_ids (plan_ready r b st) = insert (to_call_id r) (cl_ids st)"
  "cl_seen (plan_ready r b st) = cl_seen st"
  "cl_denied (plan_ready r b st) = cl_denied st"
  by (simp_all add: plan_ready_def)

text \<open>One call adds one plan, which answers its id unless the id has been answered.\<close>

definition adds_plan :: "string \<Rightarrow> 's classifying \<Rightarrow> 's classifying \<Rightarrow> bool" where
  "adds_plan i st st' \<longleftrightarrow>
     length (cl_plans st') = Suc (length (cl_plans st))
     \<and> plan_ids (cl_plans st') = plan_ids (cl_plans st) @ (if i \<in> cl_ids st then [] else [i])
     \<and> cl_ids st' = insert i (cl_ids st)"

lemma classify_mounted_adds:
  assumes "\<forall>mw\<in>set mws. keeps_ids mw" "tc_id call \<notin> cl_ids st"
  shows "adds_plan (tc_id call) st (classify_mounted mws t key call st)"
proof -
  obtain w call' blocked pint
    where chain: "before_chain mws t (cl_world st) call (cl_intervention st) = (w, call', blocked, pint)"
    by (metis surj_pair)
  have "tc_id call' = tc_id call"
    using before_chain_id [OF assms(1), of t "cl_world st" call "cl_intervention st"] by (simp add: chain)
  then show ?thesis
    using assms(2)
    by (auto simp: adds_plan_def classify_mounted_def chain Let_def split: option.splits)
qed

lemma classify_call_adds:
  assumes "\<forall>mw\<in>set mws. keeps_ids mw"
  shows "adds_plan (tc_id call) st (classify_call sd mws mounted was_cut call st)"
proof (cases "tc_id call \<in> cl_ids st")
  case True
  then show ?thesis by (auto simp: adds_plan_def classify_call_def Let_def)
next
  case False
  then show ?thesis
    using classify_mounted_adds [OF assms False]
    by (auto simp: classify_call_def Let_def adds_plan_def split: option.splits)
qed

lemma fold_classify_ids:
  assumes keep: "\<forall>mw\<in>set mws. keeps_ids mw"
  shows "plan_ids (cl_plans (fold (classify_call sd mws mounted was_cut) calls st)) =
      plan_ids (cl_plans st) @ collect_missing {} (cl_ids st) (map tc_id calls)
    \<and> length (cl_plans (fold (classify_call sd mws mounted was_cut) calls st)) = length (cl_plans st) + length calls"
proof (induction calls arbitrary: st)
  case (Cons c calls)
  from classify_call_adds [OF keep, of c st sd mounted was_cut] Cons.IH
  show ?case by (simp add: adds_plan_def insert_absorb)
qed simp

lemma classify_ids:
  assumes "\<forall>mw\<in>set mws. keeps_ids mw"
  shows "plan_ids (cl_plans (classify sd mws mounted was_cut w calls)) = collect_missing {} {} (map tc_id calls)"
    and "length (cl_plans (classify sd mws mounted was_cut w calls)) = length calls"
  using fold_classify_ids [OF assms] by (auto simp: classify_def classify_start_def)

section \<open>What may execute\<close>

lemma classify_cut_nothing_executes:
  "\<not> list_ex plan_is_execute (cl_plans (classify sd mws mounted True w calls))"
proof -
  have "\<not> list_ex plan_is_execute (cl_plans st) \<Longrightarrow>
    \<not> list_ex plan_is_execute (cl_plans (fold (classify_call sd mws mounted True) calls st))"
    for st :: "'a classifying"
    by (induction calls arbitrary: st) (auto simp: classify_call_def Let_def)
  then show ?thesis by (simp add: classify_def classify_start_def)
qed

definition denial_inv :: "'s classifying \<Rightarrow> bool" where
  "denial_inv st \<longleftrightarrow> (cl_denied st \<longrightarrow> \<not> list_ex plan_is_execute (cl_plans st))
     \<and> (cl_denied st \<longleftrightarrow> list_ex (\<lambda>p. case p of Ready _ stop \<Rightarrow> stop | _ \<Rightarrow> False) (cl_plans st))"

lemma suppress_not_execute [simp]: "\<not> plan_is_execute (suppress p)"
  by (cases p) simp_all

lemma suppress_stops [simp]:
  "(case suppress p of Ready _ stop \<Rightarrow> stop | _ \<Rightarrow> False) = (case p of Ready _ stop \<Rightarrow> stop | _ \<Rightarrow> False)"
  by (cases p) simp_all

lemma classify_mounted_denial:
  assumes "denial_inv st" "\<not> cl_denied st"
  shows "denial_inv (classify_mounted mws t key call st)"
proof -
  obtain w call' blocked pint
    where chain: "before_chain mws t (cl_world st) call (cl_intervention st) = (w, call', blocked, pint)"
    by (metis surj_pair)
  show ?thesis
    using assms
    by (auto simp: denial_inv_def classify_mounted_def chain Let_def list_ex_iff split: option.splits)
qed

lemma classify_call_denial:
  "denial_inv st \<Longrightarrow> denial_inv (classify_call sd mws mounted was_cut call st)"
  using classify_mounted_denial [of st mws _ "tool_call_dedup_key sd call" call]
  by (auto simp: classify_call_def Let_def split: option.splits) (auto simp: denial_inv_def)

lemma classify_denial: "denial_inv (classify sd mws mounted was_cut w calls)"
proof -
  have "denial_inv st \<Longrightarrow> denial_inv (fold (classify_call sd mws mounted was_cut) calls st)" for st :: "'a classifying"
    by (induction calls arbitrary: st) (auto intro: classify_call_denial)
  then show ?thesis by (simp add: classify_def classify_start_def denial_inv_def)
qed

text \<open>Two executions of a batch have different keys.\<close>

definition keys_inv :: "serde \<Rightarrow> tool_call list \<Rightarrow> 's classifying \<Rightarrow> bool" where
  "keys_inv sd calls st \<longleftrightarrow>
     length (cl_plans st) = length calls
     \<and> distinct (map (tool_call_dedup_key sd \<circ> fst) (filter (plan_is_execute \<circ> snd) (zip calls (cl_plans st))))
     \<and> (tool_call_dedup_key sd \<circ> fst) ` set (filter (plan_is_execute \<circ> snd) (zip calls (cl_plans st))) \<subseteq> cl_seen st"

lemma filter_execute_suppress: "filter (plan_is_execute \<circ> snd) (zip xs (map suppress ps)) = []"
  by (auto simp: filter_empty_conv set_zip)

lemma classify_mounted_keys:
  assumes "keys_inv sd calls st" "tool_call_dedup_key sd call \<notin> cl_seen st"
  shows "keys_inv sd (calls @ [call]) (classify_mounted mws t (tool_call_dedup_key sd call) call st)"
proof -
  obtain w call' blocked pint
    where chain: "before_chain mws t (cl_world st) call (cl_intervention st) = (w, call', blocked, pint)"
    by (metis surj_pair)
  show ?thesis
  proof (cases "\<exists>reason. blocked = Some (reason, True)")
    case True
    then obtain reason where "blocked = Some (reason, True)" by blast
    then have "cl_plans (classify_mounted mws t (tool_call_dedup_key sd call) call st) =
      map suppress (cl_plans st @ [Ready (error_output (tc_id call') (''blocked: '' @ reason)) True])"
      by (simp add: classify_mounted_def chain Let_def)
    then show ?thesis
      using assms by (simp only: keys_inv_def filter_execute_suppress) simp
  next
    case False
    then show ?thesis
      using assms by (auto simp: keys_inv_def classify_mounted_def chain Let_def split: option.splits)
  qed
qed

lemma classify_call_keys:
  assumes "keys_inv sd calls st"
  shows "keys_inv sd (calls @ [call]) (classify_call sd mws mounted was_cut call st)"
  using assms classify_mounted_keys [OF assms]
  by (auto simp: classify_call_def Let_def split: option.splits) (auto simp: keys_inv_def)

lemma classify_keys: "keys_inv sd calls (classify sd mws mounted was_cut w calls)"
proof (induction calls rule: rev_induct)
  case Nil
  show ?case by (simp add: keys_inv_def classify_def classify_start_def)
next
  case (snoc call calls)
  then show ?case by (simp add: classify_def classify_call_keys)
qed

end
