(* ===== verification/Batch_Laws.thy ===== *)
theory Batch_Laws
  imports Tool_Batch
begin

text \<open>
  Phase 3 over the outcome of phase 2: which tool messages the conversation gains, that it stays well
  paired, and what a cancel leaves. A middleware that blocks after an execution is the exception; what the next
  request then carries is said in \<open>Engine_Properties\<close>.
\<close>

section \<open>Slots\<close>

text \<open>
  What phase 2 leaves in a slot: nothing for a skipped call, the ready result, and for an execution a
  result under the id of the call or, after a cancel, nothing.
\<close>

fun slot_ok :: "call_plan \<Rightarrow> executed option \<Rightarrow> bool" where
  "slot_ok Skip slot \<longleftrightarrow> slot = None"
| "slot_ok (Ready r _) slot \<longleftrightarrow> slot = Some (ready_slot r)"
| "slot_ok (Execute t c p) slot \<longleftrightarrow>
     (case slot of None \<Rightarrow> True | Some ex \<Rightarrow> to_call_id (ex_result ex) = tc_id c)"

definition slot_full :: "call_plan \<Rightarrow> executed option \<Rightarrow> bool" where
  "slot_full plan slot \<longleftrightarrow> slot_ok plan slot \<and> (plan \<noteq> Skip \<longrightarrow> slot \<noteq> None)"

fun slot_id :: "call_plan \<times> executed option \<Rightarrow> string option" where
  "slot_id (plan, Some ex) = plan_id plan"
| "slot_id (plan, None) = None"

definition slot_ids :: "call_plan list \<Rightarrow> executed option list \<Rightarrow> string list" where
  "slot_ids plans slots = List.map_filter slot_id (zip plans slots)"

lemma slot_ids_Cons [simp]:
  "slot_ids (p # ps) (s # ss) = (case slot_id (p, s) of Some i \<Rightarrow> [i] | None \<Rightarrow> []) @ slot_ids ps ss"
  by (simp add: slot_ids_def map_filter_def split: option.splits)

lemma slot_ids_Nil [simp]: "slot_ids [] ss = []" "slot_ids ps [] = []"
  by (simp_all add: slot_ids_def map_filter_def)

lemma slot_ids_full: "list_all2 slot_full plans slots \<Longrightarrow> slot_ids plans slots = plan_ids plans"
proof (induction rule: list_all2_induct)
  case (Cons p ps s ss)
  then show ?case by (cases p; cases s) (auto simp: slot_full_def)
qed simp

lemma slot_ids_subseq: "length plans = length slots \<Longrightarrow> subseq (slot_ids plans slots) (plan_ids plans)"
proof (induction plans slots rule: list_induct2)
  case (Cons p ps s ss)
  then show ?case by (cases s; cases "plan_id p") auto
qed simp

lemma subseq_distinct_list: "subseq xs ys \<Longrightarrow> distinct ys \<Longrightarrow> distinct xs"
  by (metis distinct_nthsI subseq_conv_nths)

lemma subseq_set: "subseq xs ys \<Longrightarrow> set xs \<subseteq> set ys"
  by (metis set_nths_subset subseq_conv_nths)

section \<open>The messages a batch adds\<close>

lemma apply_slot_messages:
  assumes "\<forall>mw\<in>set mws. keeps_ids mw" "\<forall>mw\<in>set mws. never_blocks mw" "slot_ok p s"
  shows "\<exists>rs. c_messages (ap_convo (apply_slot sd mws limit batched (p, s) st)) = c_messages (ap_convo st) @ rs
    \<and> (\<forall>r\<in>set rs. is_tool r) \<and> map tool_call_id rs = (case slot_id (p, s) of Some i \<Rightarrow> [Some i] | None \<Rightarrow> [])"
proof (cases s)
  case None
  then show ?thesis by (simp add: apply_slot_def)
next
  case (Some ex)
  obtain w r blocked
    where run: "(if ex_reused ex then (ap_world st, ex_result ex, None)
      else after_chain mws (tool_of_plan p) (ap_world st) (ex_result ex) None) = (w, r, blocked)"
    by (metis surj_pair)
  have id: "to_call_id r = to_call_id (ex_result ex)" and quiet: "blocked = None"
    using run after_chain_id [OF assms(1), of "tool_of_plan p" "ap_world st" "ex_result ex" None]
      after_chain_never_blocks [OF assms(2), of "tool_of_plan p" "ap_world st" "ex_result ex" None]
    by (auto split: if_splits)
  have "plan_id p = Some (to_call_id (ex_result ex))"
    using assms(3) Some by (cases p) (auto simp: ready_slot_def)
  then show ?thesis
    by (auto simp: apply_slot_def Some run Let_def id quiet conversation_push_def tool_result_def)
qed

lemma fold_apply_slot_messages:
  assumes "\<forall>mw\<in>set mws. keeps_ids mw" "\<forall>mw\<in>set mws. never_blocks mw" "list_all2 slot_ok plans slots"
  shows "\<exists>rs. c_messages (ap_convo (fold (apply_slot sd mws limit batched) (zip plans slots) st)) = c_messages (ap_convo st) @ rs
    \<and> (\<forall>r\<in>set rs. is_tool r) \<and> map tool_call_id rs = map Some (slot_ids plans slots)"
  using assms(3)
proof (induction plans slots arbitrary: st rule: list_all2_induct)
  case (Cons p ps s ss)
  from apply_slot_messages [OF assms(1,2) Cons.hyps(1), of sd limit batched st]
  obtain rs where rs: "c_messages (ap_convo (apply_slot sd mws limit batched (p, s) st)) = c_messages (ap_convo st) @ rs"
      "\<forall>r\<in>set rs. is_tool r" "map tool_call_id rs = (case slot_id (p, s) of Some i \<Rightarrow> [Some i] | None \<Rightarrow> [])"
    by blast
  from Cons.IH [of "apply_slot sd mws limit batched (p, s) st"] rs(1)
  obtain rs' where "c_messages (ap_convo (fold (apply_slot sd mws limit batched) (zip ps ss)
        (apply_slot sd mws limit batched (p, s) st))) = c_messages (ap_convo st) @ rs @ rs'"
      "\<forall>r\<in>set rs'. is_tool r" "map tool_call_id rs' = map Some (slot_ids ps ss)"
    by auto
  then show ?case
    using rs(2,3) by (intro exI [of _ "rs @ rs'"]) (auto split: option.splits)
qed simp

lemma apply_batch_messages:
  assumes "\<forall>mw\<in>set mws. keeps_ids mw" "\<forall>mw\<in>set mws. never_blocks mw" "list_all2 slot_ok plans slots"
  obtains rs where
    "c_messages (ap_convo (apply_batch sd mws limit guarded batched pint plans slots c w)) = c_messages c @ rs"
    "\<forall>r\<in>set rs. is_tool r" "map tool_call_id rs = map Some (slot_ids plans slots)"
  using fold_apply_slot_messages [OF assms, of sd limit batched "apply_start c w (loop_candidate guarded plans) pint"]
    that by (auto simp: apply_batch_def apply_start_def)

text \<open>A batch run to its end leaves a history that a provider accepts.\<close>

lemma batch_answers:
  assumes "opens_batch m" "\<forall>r\<in>set rs. is_tool r"
    "map tool_call_id rs = map Some (collect_missing {} {} (map tc_id (tool_calls m)))"
  shows "well_paired (ms @ m # rs) \<longleftrightarrow> well_paired ms"
proof -
  have runs: "takeWhile is_tool rs = rs" "dropWhile is_tool rs = []" using assms(2) by simp_all
  have "answers rs m"
    unfolding answers_def assms(3)
    by (simp add: distinct_map collect_missing_distinct collect_missing_set)
  then have "well_paired (m # rs)" using assms(1) by (simp add: pairing_simps runs)
  moreover have "well_paired (ms @ m # rs) \<longleftrightarrow> well_paired ms \<and> well_paired (m # rs)"
    using assms(1) by (intro well_paired_append) simp
  ultimately show ?thesis by simp
qed

lemma batch_keeps_pairing:
  assumes keep: "\<forall>mw\<in>set mws. keeps_ids mw" and quiet: "\<forall>mw\<in>set mws. never_blocks mw"
    and c: "c_messages c = ms @ [m]" "well_paired ms" "opens_batch m"
    and plans: "plans = cl_plans (classify sd mws mounted was_cut w0 (tool_calls m))"
    and slots: "list_all2 slot_full plans slots"
  shows "well_paired (c_messages (ap_convo (apply_batch sd mws limit guarded batched pint plans slots c w)))"
proof -
  have "list_all2 slot_ok plans slots"
    using slots by (rule list_all2_mono) (simp add: slot_full_def)
  from apply_batch_messages [OF keep quiet this, of sd limit guarded batched pint c w]
  obtain rs where rs: "c_messages (ap_convo (apply_batch sd mws limit guarded batched pint plans slots c w)) = c_messages c @ rs"
      "\<forall>r\<in>set rs. is_tool r" "map tool_call_id rs = map Some (slot_ids plans slots)" .
  have "slot_ids plans slots = collect_missing {} {} (map tc_id (tool_calls m))"
    using slot_ids_full [OF slots] classify_ids(1) [OF keep] plans by simp
  with rs batch_answers [OF c(3) rs(2)] c(1,2) show ?thesis by simp
qed

text \<open>
  A cancel leaves the results of the calls that finished; the append-only backfill then gives what the
  full repair gives, so the history is accepted again.
\<close>

lemma cancelled_batch_backfilled:
  assumes keep: "\<forall>mw\<in>set mws. keeps_ids mw" and quiet: "\<forall>mw\<in>set mws. never_blocks mw"
    and c: "c_messages c = ms @ [m]" "well_paired ms" "opens_batch m" "tool_call_id m = None"
    and fresh: "result_ids ms \<inter> tc_id ` set (tool_calls m) = {}"
    and plans: "plans = cl_plans (classify sd mws mounted was_cut w0 (tool_calls m))"
    and slots: "list_all2 slot_ok plans slots"
  shows "well_paired (c_messages (backfill_cancelled_tool_results
           (ap_convo (apply_batch sd mws limit guarded batched pint plans slots c w))))"
proof -
  let ?c = "ap_convo (apply_batch sd mws limit guarded batched pint plans slots c w)"
  from apply_batch_messages [OF keep quiet slots, of sd limit guarded batched pint c w]
  obtain rs where rs: "c_messages ?c = c_messages c @ rs"
      "\<forall>r\<in>set rs. is_tool r" "map tool_call_id rs = map Some (slot_ids plans slots)" .
  have ids: "plan_ids plans = collect_missing {} {} (map tc_id (tool_calls m))"
    using classify_ids(1) [OF keep] plans by simp
  have sub: "subseq (slot_ids plans slots) (plan_ids plans)"
    using slots by (intro slot_ids_subseq) (rule list_all2_lengthD)
  have dist: "distinct (map tool_call_id rs)"
    unfolding rs(3) using subseq_distinct_list [OF sub] collect_missing_distinct ids by (simp add: distinct_map)
  have sub_ids: "set (map tool_call_id rs) \<subseteq> Some ` tc_id ` set (tool_calls m)"
    unfolding rs(3) using subseq_set [OF sub] by (auto simp: ids collect_missing_set)
  have "c_messages (backfill_cancelled_tool_results ?c) = repair_pairing (c_messages ?c)"
    using rs c fresh dist sub_ids by (intro backfill_eq_repair [of _ ms m rs]) simp_all
  then show ?thesis by (simp add: well_paired_repair_pairing)
qed

end
