(* ===== verification/Batch_Exec.thy ===== *)
theory Batch_Exec
  imports Batch_Laws
begin

text \<open>
  Phase 2 of a tool batch (\<open>crates/atomcode-kernel/src/agent/engine.rs\<close>): the planned executions run
  concurrently, as futures polled on one task. Each takes a permit of a semaphore, then the batch lock, for
  reading when the call is parallel-safe and for writing otherwise, and between two of its suspension
  points nothing else runs. One future is one entry of a list; one step moves one future from a suspension
  point to the next, or cancels the turn. Which future moves, what a tool returns, and what it does to the
  shared working directory are free.

  Of \<open>tokio\<close> the model uses what its documentation states: a semaphore and a lock serve their waiters
  first come, first served; the lock has any number of readers or one writer.
\<close>

section \<open>State\<close>

datatype fut =
    Absent
  | Queued
  | Permitted
  | At_Gate
  | Running string
  | Finished "executed option"

record exec_env =
  xe_serde :: serde
  xe_plans :: "call_plan list"
  xe_cap :: nat
  xe_receipts :: "receipt list"
  xe_lift :: "tool \<Rightarrow> tool_output \<Rightarrow> tool_output \<times> policy_intervention option"

record exec_state =
  xs_futs :: "fut list"
  xs_sem :: "nat list"
  xs_gate :: "nat list"
  xs_cwd :: string
  xs_cancelled :: bool
  xs_stop :: bool
  xs_started :: "nat list"

definition exec_indices :: "call_plan list \<Rightarrow> nat list" where
  "exec_indices plans = filter (\<lambda>i. plan_is_execute (plans ! i)) [0..<length plans]"

definition exec_initial :: "exec_env \<Rightarrow> string \<Rightarrow> bool \<Rightarrow> exec_state" where
  "exec_initial env dir cancelled =
     \<lparr>xs_futs = map (\<lambda>p. if plan_is_execute p then Queued else Absent) (xe_plans env),
      xs_sem = exec_indices (xe_plans env), xs_gate = [], xs_cwd = dir, xs_cancelled = cancelled,
      xs_stop = False, xs_started = []\<rparr>"

fun is_running :: "fut \<Rightarrow> bool" where
  "is_running (Running _) \<longleftrightarrow> True"
| "is_running _ \<longleftrightarrow> False"

fun holds_permit :: "fut \<Rightarrow> bool" where
  "holds_permit Permitted \<longleftrightarrow> True"
| "holds_permit At_Gate \<longleftrightarrow> True"
| "holds_permit (Running _) \<longleftrightarrow> True"
| "holds_permit _ \<longleftrightarrow> False"

definition permits_used :: "exec_state \<Rightarrow> nat" where
  "permits_used s = length (filter holds_permit (xs_futs s))"

definition safe_at :: "exec_env \<Rightarrow> nat \<Rightarrow> bool" where
  "safe_at env i \<longleftrightarrow> (case xe_plans env ! i of Execute _ _ safe \<Rightarrow> safe | _ \<Rightarrow> False)"

definition running_at :: "exec_state \<Rightarrow> nat \<Rightarrow> bool" where
  "running_at s i \<longleftrightarrow> i < length (xs_futs s) \<and> is_running (xs_futs s ! i)"

text \<open>The lock can be granted: to a reader while no writer holds it, to a writer while nobody does.\<close>

definition lock_free :: "exec_env \<Rightarrow> exec_state \<Rightarrow> nat \<Rightarrow> bool" where
  "lock_free env s i \<longleftrightarrow>
     (\<forall>j<length (xs_futs s). running_at s j \<longrightarrow> safe_at env i \<and> safe_at env j)"

section \<open>One future past its lock\<close>

definition REUSED_PREFIX :: string where
  "REUSED_PREFIX = ''[Recovery: confirmed result reused; tool not executed again]'' @ [newline]"

definition CANCELLED_UNKNOWN :: string where
  "CANCELLED_UNKNOWN = ''(cancelled '' @ em_dash @ '' side effects unknown)''"

text \<open>
  A receipt of this turn for the same call: only for a call that is not parallel-safe, with the same tool
  object, the same arguments and the same working directory; the latest first.
\<close>

definition receipt_for :: "exec_env \<Rightarrow> tool \<Rightarrow> tool_call \<Rightarrow> bool \<Rightarrow> string \<Rightarrow> receipt option" where
  "receipt_for env t c safe dir =
     find (\<lambda>rc. \<not> safe \<and> t_ident (rc_tool rc) = t_ident t
                \<and> rc_arguments rc = canonicalize_tool_args (xe_serde env) (tc_arguments c)
                \<and> rc_cwd rc = dir)
       (rev (xe_receipts env))"

definition reused_slot :: "tool_call \<Rightarrow> string \<Rightarrow> receipt \<Rightarrow> executed" where
  "reused_slot c dir rc =
     \<lparr>ex_reused = True,
      ex_result = (rc_result rc)\<lparr>to_call_id := tc_id c, to_content := REUSED_PREFIX @ to_content (rc_result rc)\<rparr>,
      ex_cwd = Some dir, ex_intervention = None\<rparr>"

definition enter_gate :: "exec_env \<Rightarrow> exec_state \<Rightarrow> nat \<Rightarrow> fut" where
  "enter_gate env s i =
     (case xe_plans env ! i of
        Execute t c safe \<Rightarrow>
          (if xs_cancelled s then Finished None
           else if xs_stop s then Finished (Some (ready_slot (error_output (tc_id c) BATCH_BLOCKED)))
           else case receipt_for env t c safe (xs_cwd s) of
                  Some rc \<Rightarrow> Finished (Some (reused_slot c (xs_cwd s) rc))
                | None \<Rightarrow> Running (xs_cwd s))
      | _ \<Rightarrow> Absent)"

text \<open>The tool returned \<open>r\<close>: the id is set, an intervention of a child is lifted out.\<close>

definition executed_slot :: "exec_env \<Rightarrow> nat \<Rightarrow> string \<Rightarrow> tool_output \<Rightarrow> executed" where
  "executed_slot env i dir r =
     (case xe_plans env ! i of
        Execute t c _ \<Rightarrow>
          (let (r', pint) = xe_lift env t (r\<lparr>to_call_id := tc_id c\<rparr>)
           in \<lparr>ex_reused = False, ex_result = r', ex_cwd = Some dir, ex_intervention = pint\<rparr>)
      | _ \<Rightarrow> ready_slot r)"

definition finish_running :: "exec_env \<Rightarrow> exec_state \<Rightarrow> nat \<Rightarrow> string \<Rightarrow> tool_output \<Rightarrow> string \<Rightarrow> exec_state" where
  "finish_running env s i dir r dir' =
     s\<lparr>xs_futs := (xs_futs s)[i := Finished (Some (executed_slot env i dir r))],
       xs_stop := (xs_stop s \<or> ex_intervention (executed_slot env i dir r) \<noteq> None),
       xs_cwd := dir'\<rparr>"

section \<open>Steps\<close>

text \<open>
  \<open>exec_step\<close> is a step of a future; \<open>exec_cancel\<close> is the turn being cancelled, which a tool or the driver
  may do at any time.
\<close>

inductive exec_step :: "exec_env \<Rightarrow> exec_state \<Rightarrow> exec_state \<Rightarrow> bool" for env where
  take_permit:
    "xs_sem s = i # q \<Longrightarrow> permits_used s < xe_cap env \<Longrightarrow>
     exec_step env s (s\<lparr>xs_futs := (xs_futs s)[i := Permitted], xs_sem := q\<rparr>)"
| reach_gate:
    "i < length (xs_futs s) \<Longrightarrow> xs_futs s ! i = Permitted \<Longrightarrow>
     exec_step env s (s\<lparr>xs_futs := (xs_futs s)[i := At_Gate], xs_gate := xs_gate s @ [i]\<rparr>)"
| pass_gate:
    "xs_gate s = i # q \<Longrightarrow> lock_free env s i \<Longrightarrow>
     exec_step env s (s\<lparr>xs_futs := (xs_futs s)[i := enter_gate env s i], xs_gate := q,
                        xs_started := (if is_running (enter_gate env s i) then xs_started s @ [i] else xs_started s)\<rparr>)"
| tool_returns:
    "i < length (xs_futs s) \<Longrightarrow> xs_futs s ! i = Running dir \<Longrightarrow>
     exec_step env s (finish_running env s i dir r dir')"
| tool_interrupted:
    "i < length (xs_futs s) \<Longrightarrow> xs_futs s ! i = Running dir \<Longrightarrow> xs_cancelled s \<Longrightarrow>
     exec_step env s (finish_running env s i dir (error_output [] CANCELLED_UNKNOWN) (xs_cwd s))"

inductive exec_cancel :: "exec_state \<Rightarrow> exec_state \<Rightarrow> bool" where
  cancel_now: "\<not> xs_cancelled s \<Longrightarrow> exec_cancel s (s\<lparr>xs_cancelled := True\<rparr>)"

definition exec_move :: "exec_env \<Rightarrow> exec_state \<Rightarrow> exec_state \<Rightarrow> bool" where
  "exec_move env s t \<longleftrightarrow> exec_step env s t \<or> exec_cancel s t"

fun fut_done :: "fut \<Rightarrow> bool" where
  "fut_done Absent \<longleftrightarrow> True"
| "fut_done (Finished _) \<longleftrightarrow> True"
| "fut_done _ \<longleftrightarrow> False"

definition exec_done :: "exec_state \<Rightarrow> bool" where
  "exec_done s \<longleftrightarrow> list_all fut_done (xs_futs s)"

text \<open>What phase 3 is given.\<close>

definition slot_at :: "call_plan \<Rightarrow> fut \<Rightarrow> executed option" where
  "slot_at p f =
     (case p of Skip \<Rightarrow> None
      | Ready r _ \<Rightarrow> Some (ready_slot r)
      | Execute _ _ _ \<Rightarrow> (case f of Finished res \<Rightarrow> res | _ \<Rightarrow> None))"

definition exec_slots :: "exec_env \<Rightarrow> exec_state \<Rightarrow> executed option list" where
  "exec_slots env s = map2 slot_at (xe_plans env) (xs_futs s)"

section \<open>The invariant\<close>

definition lift_keeps_ids :: "exec_env \<Rightarrow> bool" where
  "lift_keeps_ids env \<longleftrightarrow> (\<forall>t r. to_call_id (fst (xe_lift env t r)) = to_call_id r)"

text \<open>Nobody runs beside a call that is not parallel-safe.\<close>

definition exclusive :: "exec_env \<Rightarrow> exec_state \<Rightarrow> bool" where
  "exclusive env s \<longleftrightarrow>
     (\<forall>i j. running_at s i \<longrightarrow> running_at s j \<longrightarrow> i \<noteq> j \<longrightarrow> safe_at env i \<and> safe_at env j)"

definition at_fut :: "exec_state \<Rightarrow> fut \<Rightarrow> nat set" where
  "at_fut s f = {i. i < length (xs_futs s) \<and> xs_futs s ! i = f}"

definition fut_ok :: "exec_env \<Rightarrow> exec_state \<Rightarrow> nat \<Rightarrow> bool" where
  "fut_ok env s i \<longleftrightarrow>
     (case xe_plans env ! i of
        Execute t c safe \<Rightarrow>
          xs_futs s ! i \<noteq> Absent
          \<and> (case xs_futs s ! i of
               Finished (Some ex) \<Rightarrow> to_call_id (ex_result ex) = tc_id c
             | Finished None \<Rightarrow> xs_cancelled s
             | _ \<Rightarrow> True)
      | _ \<Rightarrow> xs_futs s ! i = Absent)"

definition exec_inv :: "exec_env \<Rightarrow> exec_state \<Rightarrow> bool" where
  "exec_inv env s \<longleftrightarrow>
     length (xs_futs s) = length (xe_plans env)
     \<and> (\<forall>i<length (xs_futs s). fut_ok env s i)
     \<and> distinct (xs_sem s) \<and> set (xs_sem s) = at_fut s Queued
     \<and> distinct (xs_gate s) \<and> set (xs_gate s) = at_fut s At_Gate
     \<and> permits_used s \<le> xe_cap env
     \<and> exclusive env s
     \<and> distinct (xs_started s)
     \<and> (\<forall>i\<in>set (xs_started s). i < length (xs_futs s) \<and> xs_futs s ! i \<notin> {Queued, Permitted, At_Gate})"

lemma length_filter_update:
  "i < length xs \<Longrightarrow>
   length (filter P (xs[i := y])) + (if P (xs ! i) then 1 else 0) = length (filter P xs) + (if P y then 1 else 0)"
proof (induction xs arbitrary: i)
  case (Cons x xs)
  then show ?case by (cases i) auto
qed simp

lemma at_fut_update:
  "i < length (xs_futs s) \<Longrightarrow> xs_futs t = (xs_futs s)[i := f] \<Longrightarrow>
   at_fut t g = (if f = g then insert i (at_fut s g) else at_fut s g - {i})"
  by (auto simp: at_fut_def nth_list_update)

lemma permits_used_update:
  "i < length (xs_futs s) \<Longrightarrow> xs_futs t = (xs_futs s)[i := f] \<Longrightarrow>
   permits_used t + (if holds_permit (xs_futs s ! i) then 1 else 0)
     = permits_used s + (if holds_permit f then 1 else 0)"
  by (simp add: permits_used_def length_filter_update)

lemma running_at_update:
  "i < length (xs_futs s) \<Longrightarrow> xs_futs t = (xs_futs s)[i := f] \<Longrightarrow>
   running_at t j \<longleftrightarrow> (if j = i then is_running f else running_at s j)"
  by (auto simp: running_at_def nth_list_update)

lemma fut_ok_update:
  assumes "\<forall>j<length (xs_futs s). fut_ok env s j" "i < length (xs_futs s)"
    and "xs_futs t = (xs_futs s)[i := f]" "xs_cancelled s \<longrightarrow> xs_cancelled t" "fut_ok env t i"
  shows "\<forall>j<length (xs_futs t). fut_ok env t j"
proof (intro allI impI)
  fix j assume j: "j < length (xs_futs t)"
  then have old: "fut_ok env s j" using assms(1,3) by simp
  show "fut_ok env t j"
  proof (cases "j = i")
    case False
    then have "xs_futs t ! j = xs_futs s ! j" by (simp add: assms(3))
    then show ?thesis
      using old assms(4) by (auto simp: fut_ok_def split: call_plan.splits fut.splits option.splits)
  qed (simp add: assms(5))
qed

text \<open>A step replaces one entry; what else it may change is stated here once.\<close>

definition fut_moves :: "exec_state \<Rightarrow> exec_state \<Rightarrow> nat \<Rightarrow> fut \<Rightarrow> fut \<Rightarrow> bool" where
  "fut_moves s t i f g \<longleftrightarrow>
     i < length (xs_futs s) \<and> xs_futs s ! i = f \<and> xs_futs t = (xs_futs s)[i := g]"

lemma exec_inv_plan:
  assumes "exec_inv env s" "i < length (xs_futs s)" "xs_futs s ! i \<noteq> Absent"
  obtains t c safe where "xe_plans env ! i = Execute t c safe"
  using assms by (cases "xe_plans env ! i") (auto simp: exec_inv_def fut_ok_def)

lemma receipt_slot_id [simp]: "to_call_id (ex_result (reused_slot c dir rc)) = tc_id c"
  by (simp add: reused_slot_def)

lemma executed_slot_id:
  "lift_keeps_ids env \<Longrightarrow> xe_plans env ! i = Execute t c safe \<Longrightarrow>
   to_call_id (ex_result (executed_slot env i dir r)) = tc_id c"
  by (simp add: executed_slot_def lift_keeps_ids_def split_beta)

lemma enter_gate_cases:
  assumes "xe_plans env ! i = Execute t c safe"
  shows "(\<exists>ex. enter_gate env s i = Finished (Some ex) \<and> to_call_id (ex_result ex) = tc_id c)
    \<or> (enter_gate env s i = Finished None \<and> xs_cancelled s)
    \<or> (enter_gate env s i = Running (xs_cwd s) \<and> \<not> xs_cancelled s \<and> \<not> xs_stop s)"
  by (simp add: enter_gate_def assms ready_slot_def split: option.splits)

lemma inv_take_permit:
  assumes inv: "exec_inv env s" and sem: "xs_sem s = i # q" and room: "permits_used s < xe_cap env"
  shows "exec_inv env (s\<lparr>xs_futs := (xs_futs s)[i := Permitted], xs_sem := q\<rparr>)" (is "exec_inv env ?t")
proof -
  have i: "i < length (xs_futs s)" "xs_futs s ! i = Queued"
    using inv sem by (auto simp: exec_inv_def at_fut_def)
  obtain t c safe where plan: "xe_plans env ! i = Execute t c safe"
    using exec_inv_plan [OF inv i(1)] i(2) by auto
  have futs: "xs_futs ?t = (xs_futs s)[i := Permitted]" by simp
  have "\<forall>j<length (xs_futs ?t). fut_ok env ?t j"
    using inv i by (intro fut_ok_update [OF _ i(1) futs]) (auto simp: exec_inv_def fut_ok_def plan)
  moreover have "permits_used ?t \<le> xe_cap env"
    using permits_used_update [OF i(1) futs] i(2) room by simp
  moreover have "exclusive env ?t"
    using inv by (auto simp: exec_inv_def exclusive_def running_at_update [OF i(1) futs])
  ultimately show ?thesis
    using inv sem i by (auto simp: exec_inv_def at_fut_update [OF i(1) futs] nth_list_update) (auto simp: at_fut_def)
qed

lemma inv_reach_gate:
  assumes inv: "exec_inv env s" and i: "i < length (xs_futs s)" "xs_futs s ! i = Permitted"
  shows "exec_inv env (s\<lparr>xs_futs := (xs_futs s)[i := At_Gate], xs_gate := xs_gate s @ [i]\<rparr>)" (is "exec_inv env ?t")
proof -
  obtain t c safe where plan: "xe_plans env ! i = Execute t c safe"
    using exec_inv_plan [OF inv i(1)] i(2) by auto
  have futs: "xs_futs ?t = (xs_futs s)[i := At_Gate]" by simp
  have "\<forall>j<length (xs_futs ?t). fut_ok env ?t j"
    using inv i by (intro fut_ok_update [OF _ i(1) futs]) (auto simp: exec_inv_def fut_ok_def plan)
  moreover have "permits_used ?t \<le> xe_cap env"
    using permits_used_update [OF i(1) futs] i(2) inv by (simp add: exec_inv_def)
  moreover have "exclusive env ?t"
    using inv by (auto simp: exec_inv_def exclusive_def running_at_update [OF i(1) futs])
  ultimately show ?thesis
    using inv i by (auto simp: exec_inv_def at_fut_update [OF i(1) futs] nth_list_update) (auto simp: at_fut_def)
qed

lemma inv_pass_gate:
  assumes inv: "exec_inv env s" and gate: "xs_gate s = i # q" and free: "lock_free env s i"
  shows "exec_inv env (s\<lparr>xs_futs := (xs_futs s)[i := enter_gate env s i], xs_gate := q,
      xs_started := (if is_running (enter_gate env s i) then xs_started s @ [i] else xs_started s)\<rparr>)" (is "exec_inv env ?t")
proof -
  have i: "i < length (xs_futs s)" "xs_futs s ! i = At_Gate"
    using inv gate by (auto simp: exec_inv_def at_fut_def)
  obtain t c safe where plan: "xe_plans env ! i = Execute t c safe"
    using exec_inv_plan [OF inv i(1)] i(2) by auto
  note entered = enter_gate_cases [OF plan, of s]
  have past: "enter_gate env s i \<notin> {Queued, Permitted, At_Gate}" using entered by auto
  have futs: "xs_futs ?t = (xs_futs s)[i := enter_gate env s i]" by simp
  have "fut_ok env ?t i" using entered i(1) by (auto simp: fut_ok_def plan)
  then have "\<forall>j<length (xs_futs ?t). fut_ok env ?t j"
    using inv by (intro fut_ok_update [OF _ i(1) futs]) (auto simp: exec_inv_def)
  moreover have "permits_used ?t \<le> xe_cap env"
    using permits_used_update [OF i(1) futs] i(2) inv by (auto simp: exec_inv_def split: if_splits)
  moreover have "exclusive env ?t"
    using inv free
    by (auto simp: exec_inv_def exclusive_def lock_free_def running_at_update [OF i(1) futs])
      (auto simp: running_at_def)
  moreover have "set (xs_sem ?t) = at_fut ?t Queued" "set (xs_gate ?t) = at_fut ?t At_Gate"
    using inv gate past i by (auto simp: exec_inv_def at_fut_update [OF i(1) futs]) (auto simp: at_fut_def)
  moreover have "distinct (xs_started ?t)" using inv i by (auto simp: exec_inv_def)
  moreover have "\<forall>j\<in>set (xs_started ?t). j < length (xs_futs ?t) \<and> xs_futs ?t ! j \<notin> {Queued, Permitted, At_Gate}"
    using inv past i(1) by (auto simp: exec_inv_def nth_list_update)
  ultimately show ?thesis
    using inv gate by (simp add: exec_inv_def)
qed

lemma inv_finish_running:
  assumes inv: "exec_inv env s" and keep: "lift_keeps_ids env"
    and i: "i < length (xs_futs s)" "xs_futs s ! i = Running dir"
  shows "exec_inv env (finish_running env s i dir r dir')" (is "exec_inv env ?t")
proof -
  obtain t c safe where plan: "xe_plans env ! i = Execute t c safe"
    using exec_inv_plan [OF inv i(1)] i(2) by auto
  have futs: "xs_futs ?t = (xs_futs s)[i := Finished (Some (executed_slot env i dir r))]"
    by (simp add: finish_running_def)
  have "fut_ok env ?t i" using i(1) executed_slot_id [OF keep plan] by (simp add: fut_ok_def plan futs)
  then have "\<forall>j<length (xs_futs ?t). fut_ok env ?t j"
    using inv by (intro fut_ok_update [OF _ i(1) futs]) (auto simp: exec_inv_def finish_running_def)
  moreover have "permits_used ?t \<le> xe_cap env"
    using permits_used_update [OF i(1) futs] i(2) inv by (simp add: exec_inv_def)
  moreover have "exclusive env ?t"
    using inv by (auto simp: exec_inv_def exclusive_def running_at_update [OF i(1) futs])
  moreover have "xs_sem ?t = xs_sem s" "xs_gate ?t = xs_gate s" "xs_started ?t = xs_started s"
    by (simp_all add: finish_running_def)
  ultimately show ?thesis
    using inv i by (auto simp: exec_inv_def at_fut_update [OF i(1) futs] futs nth_list_update) (auto simp: at_fut_def)
qed

lemma exec_step_inv:
  "exec_step env s t \<Longrightarrow> lift_keeps_ids env \<Longrightarrow> exec_inv env s \<Longrightarrow> exec_inv env t"
  by (induction rule: exec_step.induct)
    (simp_all only: inv_take_permit inv_reach_gate inv_pass_gate inv_finish_running)

lemma exec_cancel_inv: "exec_cancel s t \<Longrightarrow> exec_inv env s \<Longrightarrow> exec_inv env t"
proof (induction rule: exec_cancel.induct)
  case (cancel_now s)
  have "fut_ok env s i \<Longrightarrow> fut_ok env (s\<lparr>xs_cancelled := True\<rparr>) i" for i
    by (auto simp: fut_ok_def split: call_plan.splits fut.splits option.splits)
  with cancel_now show ?case
    by (auto simp: exec_inv_def at_fut_def permits_used_def exclusive_def running_at_def)
qed

lemma exec_initial_inv: "exec_inv env (exec_initial env dir cancelled)"
proof -
  have "permits_used (exec_initial env dir cancelled) = 0"
    by (simp add: permits_used_def exec_initial_def filter_empty_conv)
  then show ?thesis
    by (auto simp: exec_inv_def exec_initial_def exec_indices_def at_fut_def fut_ok_def exclusive_def running_at_def
        split: call_plan.splits if_splits)
qed

definition exec_start :: "exec_env \<Rightarrow> exec_state \<Rightarrow> bool" where
  "exec_start env s \<longleftrightarrow> (\<exists>dir cancelled. s = exec_initial env dir cancelled)"

interpretation exec: step_system "exec_start env" "\<lambda>s t. lift_keeps_ids env \<and> exec_move env s t" "exec_inv env" for env
  by unfold_locales (auto simp: exec_start_def exec_move_def exec_initial_inv intro: exec_step_inv exec_cancel_inv)

section \<open>Progress\<close>

lemma running_exists:
  "list_ex is_running (xs_futs s) \<longleftrightarrow> (\<exists>i. running_at s i)"
  by (auto simp: running_at_def list_ex_length)

text \<open>While a future is not finished, some future can move: the locks never leave the batch stuck.\<close>

lemma exec_progress:
  assumes inv: "exec_inv env s" and cap: "0 < xe_cap env" and undone: "\<not> exec_done s"
  shows "\<exists>t. exec_step env s t"
proof (cases "\<exists>i. running_at s i")
  case True
  then obtain i where i: "i < length (xs_futs s)" "is_running (xs_futs s ! i)" by (auto simp: running_at_def)
  then obtain dir where "xs_futs s ! i = Running dir" by (cases "xs_futs s ! i") auto
  with i(1) show ?thesis by (blast intro: tool_returns)
next
  case False
  then have free: "lock_free env s i" for i by (simp add: lock_free_def)
  show ?thesis
  proof (cases "xs_gate s")
    case (Cons i q)
    from pass_gate [OF this free] show ?thesis by blast
  next
    case Nil
    show ?thesis
    proof (cases "at_fut s Permitted = {}")
      case False
      then show ?thesis by (auto simp: at_fut_def intro: reach_gate)
    next
      case True
      have none: "\<not> holds_permit (xs_futs s ! i)" if "i < length (xs_futs s)" for i
        using that True Nil \<open>\<nexists>i. running_at s i\<close> inv
        by (cases "xs_futs s ! i") (auto simp: exec_inv_def at_fut_def running_at_def)
      then have "permits_used s = 0" by (auto simp: permits_used_def filter_empty_conv in_set_conv_nth)
      moreover obtain i where "i \<in> at_fut s Queued"
      proof -
        from undone obtain i where i: "i < length (xs_futs s)" "\<not> fut_done (xs_futs s ! i)"
          by (auto simp: exec_done_def list_all_length)
        with none [OF i(1)] have "xs_futs s ! i = Queued" by (cases "xs_futs s ! i") simp_all
        with i(1) show ?thesis by (intro that) (simp add: at_fut_def)
      qed
      moreover have "set (xs_sem s) = at_fut s Queued" using inv by (simp add: exec_inv_def)
      ultimately obtain j q where "xs_sem s = j # q" "permits_used s < xe_cap env"
        using cap by (cases "xs_sem s") auto
      then show ?thesis by (blast intro: take_permit)
    qed
  qed
qed

text \<open>A future moves at most four times.\<close>

fun fut_rank :: "fut \<Rightarrow> nat" where
  "fut_rank Queued = 4"
| "fut_rank Permitted = 3"
| "fut_rank At_Gate = 2"
| "fut_rank (Running _) = 1"
| "fut_rank _ = 0"

definition exec_measure :: "exec_state \<Rightarrow> nat" where
  "exec_measure s = sum_list (map fut_rank (xs_futs s))"

lemma sum_list_update:
  "i < length xs \<Longrightarrow> sum_list (map f (xs[i := y])) + f (xs ! i) = sum_list (map f xs) + (f y :: nat)"
proof (induction xs arbitrary: i)
  case (Cons x xs)
  then show ?case by (cases i) auto
qed simp

lemma exec_measure_update:
  "i < length (xs_futs s) \<Longrightarrow> xs_futs t = (xs_futs s)[i := f] \<Longrightarrow> fut_rank f < fut_rank (xs_futs s ! i) \<Longrightarrow>
   exec_measure t < exec_measure s"
  using sum_list_update [of i "xs_futs s" fut_rank f] by (simp add: exec_measure_def)

lemma exec_step_measure:
  "exec_step env s t \<Longrightarrow> exec_inv env s \<Longrightarrow> exec_measure t < exec_measure s"
proof (induction rule: exec_step.induct)
  case (take_permit s i q)
  then have "i < length (xs_futs s)" "xs_futs s ! i = Queued" by (auto simp: exec_inv_def at_fut_def)
  then show ?case by (intro exec_measure_update [of i s _ Permitted]) simp_all
next
  case (reach_gate i s)
  then show ?case by (intro exec_measure_update [of i s _ At_Gate]) simp_all
next
  case (pass_gate s i q)
  then have i: "i < length (xs_futs s)" "xs_futs s ! i = At_Gate" by (auto simp: exec_inv_def at_fut_def)
  obtain t c safe where "xe_plans env ! i = Execute t c safe"
    using exec_inv_plan [OF pass_gate.prems i(1)] i(2) by auto
  from enter_gate_cases [OF this, of s] have "fut_rank (enter_gate env s i) < 2" by auto
  with i show ?case by (intro exec_measure_update [of i s _ "enter_gate env s i"]) simp_all
qed (auto simp: finish_running_def intro!: exec_measure_update)

text \<open>Runs, with the number of steps the futures made.\<close>

inductive exec_run :: "exec_env \<Rightarrow> nat \<Rightarrow> exec_state \<Rightarrow> exec_state \<Rightarrow> bool" for env where
  run_here: "exec_run env 0 s s"
| run_step: "exec_run env n s t \<Longrightarrow> exec_step env t u \<Longrightarrow> exec_run env (Suc n) s u"
| run_cancel: "exec_run env n s t \<Longrightarrow> exec_cancel t u \<Longrightarrow> exec_run env n s u"

lemma exec_run_inv:
  "exec_run env n s t \<Longrightarrow> lift_keeps_ids env \<Longrightarrow> exec_inv env s \<Longrightarrow>
   exec_inv env t \<and> n + exec_measure t \<le> exec_measure s"
proof (induction rule: exec_run.induct)
  case (run_step n s t u)
  then show ?case using exec_step_measure [of env t u] by (auto intro: exec_step_inv)
next
  case (run_cancel n s t u)
  then have "exec_measure u = exec_measure t" by (auto simp: exec_measure_def elim!: exec_cancel.cases)
  with run_cancel show ?case by (auto intro: exec_cancel_inv)
qed simp

lemma exec_measure_initial: "exec_measure (exec_initial env dir cancelled) \<le> 4 * length (xe_plans env)"
proof -
  have "sum_list (map fut_rank (map (\<lambda>p. if plan_is_execute p then Queued else Absent) ps)) \<le> 4 * length ps" for ps
    by (induction ps) auto
  then show ?thesis by (simp add: exec_measure_def exec_initial_def)
qed

section \<open>What phase 3 receives\<close>

lemma exec_slots_ok:
  assumes inv: "exec_inv env s" and fin: "exec_done s"
  shows "list_all2 slot_ok (xe_plans env) (exec_slots env s)"
    and "\<not> xs_cancelled s \<Longrightarrow> list_all2 slot_full (xe_plans env) (exec_slots env s)"
proof -
  have len: "length (xs_futs s) = length (xe_plans env)" using inv by (simp add: exec_inv_def)
  have at: "slot_ok (xe_plans env ! i) (slot_at (xe_plans env ! i) (xs_futs s ! i))
      \<and> (\<not> xs_cancelled s \<longrightarrow> slot_full (xe_plans env ! i) (slot_at (xe_plans env ! i) (xs_futs s ! i)))"
    if i: "i < length (xe_plans env)" for i
  proof -
    have ok: "fut_ok env s i" using inv i len by (simp add: exec_inv_def)
    have "fut_done (xs_futs s ! i)" using fin i len by (simp add: exec_done_def list_all_length)
    with ok show ?thesis
      by (cases "xe_plans env ! i"; cases "xs_futs s ! i")
        (auto simp: slot_at_def slot_full_def fut_ok_def split: option.splits)
  qed
  show "list_all2 slot_ok (xe_plans env) (exec_slots env s)"
    using at len by (auto simp: exec_slots_def list_all2_conv_all_nth)
  show "list_all2 slot_full (xe_plans env) (exec_slots env s)" if "\<not> xs_cancelled s"
    using at len that by (auto simp: exec_slots_def list_all2_conv_all_nth)
qed

end
