(* ===== verification/Turn.thy ===== *)
theory Turn
  imports Batch_Exec Reasoning_Loop Recovery_Budget
begin

text \<open>
  One turn of the agent (\<open>RunningAgent::run_turn\<close> of \<open>crates/atomcode-kernel/src/agent/engine.rs\<close>, with the
  helpers it calls): the state of the turn and its pieces in the order of the loop's body. Theory
  \<open>Turn_Loop\<close> puts them together.

  A pass of the loop is given everything the code does not decide in a \<open>round_env\<close>: what hooks make of the
  data they are handed, the outcome of opening the stream and what arrives on it, whether a wait is cut short
  by a cancel, the answers of the driver, the plan of the compaction strategy, the clock, and what phase 2
  of the tool batch leaves. A chunk arrives with the text the output hook made of it.
\<close>

section \<open>What a turn emits\<close>

datatype notice =
    Overflow_Compacting nat nat
  | Near_Window u32 u32
  | Not_Append_Only nat
  | All_Images_Folded nat
  | Idle_Reconnecting nat bool
  | Reasoning_Loop_Retry
  | Empty_Retry bool nat nat
  | Output_Cut
  | Same_Action_Stop tool_loop_policy

datatype turn_failure =
    Max_Rounds_Reached nat
  | Max_Continuations_Reached nat
  | Repeated_Pattern nat
  | Provider_Failure provider_error
  | Timeout_After_Recovery
  | Timeout_After_Partial
  | Timeout_After_Reconnects
  | Empty_Exhausted exhaustion_notice
  | Budget_Exhausted recovery_exhausted
  | Reasoning_Loop_Stop

datatype agent_event =
    Turn_Started
  | Text_Out string
  | Reasoning_Out string
  | Reasoning_Discarded
  | Tool_Streaming u32 "string option" "string option" string
  | Batch_Started "tool_call list"
  | Batch_Completed nat nat
  | Tool_Result_Out tool_output
  | Intervention_Out policy_intervention
  | Usage_Out message_meta
  | Warning notice
  | Stream_Recovery nat bool
  | Provider_Retry nat nat u64 retry_cause
  | Truncation_Recovery nat
  | Rate_Limited string string "u64 option" bool "string option"
  | Steered_In "(string \<times> image_content list) list"
  | Compaction_Started compact_trigger
  | Compacted compact_trigger compact_report "session_snapshot option"
  | Compaction_Failed compact_trigger string
  | Error_Out turn_failure
  | Cancelled_Out
  | Turn_Complete stop_reason

datatype continuation_kind = Generic | VerifyCadence | TruncationResume

datatype continuation_visibility = Normal | InternalControl

record turn_continuation =
  ct_text :: string
  ct_kind :: continuation_kind
  ct_visibility :: continuation_visibility

section \<open>Configuration, environment, state\<close>

record 's turn_cfg =
  cf_serde :: serde
  cf_mws :: "'s middleware list"
  cf_tools :: mounted_snapshot
  cf_max_rounds :: "nat option"
  cf_round_cap_checkpoint :: bool
  cf_max_provider_retries :: nat
  cf_max_continuations :: "nat option"
  cf_max_tool_result_bytes :: nat
  cf_keep_interrupted :: bool
  cf_max_tokens :: "u32 option"
  cf_first_token_timeout :: bool
  cf_context_window :: u32
  cf_compact_threshold :: "f32 option"
  cf_session_id :: "string option"
  cf_alphabetic :: "nat \<Rightarrow> bool"
  cf_turn_id :: u64
  cf_rollback_len :: nat

datatype arrival = Arrived stream_event string | Idle | Cancel_Arrives | Closed

datatype open_outcome = Open_Ok | Open_Err provider_error | Open_Cancelled

record round_env =
  rd_internal_cancel :: bool
  rd_grant_rounds :: bool
  rd_cancelled_rounds :: bool
  rd_steered :: "(string \<times> image_content list) list"
  rd_project :: "nat \<Rightarrow> message list \<Rightarrow> message list"
  rd_plan :: "compaction_view \<Rightarrow> compaction_plan"
  rd_summarizes :: "compaction_view \<Rightarrow> bool"
  rd_guard :: reasoning_loop_config
  rd_attempt :: "recovery_result option"
  rd_open :: open_outcome
  rd_verdict :: "rate_limit_decision option"
  rd_jitter :: f64
  rd_wait_cancelled :: bool
  rd_arrivals :: "arrival list"
  rd_elapsed :: u64
  rd_reasoning_elapsed :: u64
  rd_promote :: "string \<Rightarrow> string"
  rd_response :: "message \<Rightarrow> message"
  rd_steer_pending :: bool
  rd_continuation :: "turn_continuation option"
  rd_grant_cut :: bool
  rd_cancelled_cut :: bool
  rd_batch_cancelled :: bool
  rd_execute :: "receipt list \<Rightarrow> call_plan list \<Rightarrow> executed option list \<times> bool"

record 's turn_state =
  tu_convo :: conversation
  tu_world :: 's
  tu_events :: "agent_event list"
  tu_round :: nat
  tu_request :: u64
  tu_round_cap :: "nat option"
  tu_continuations :: nat
  tu_internal :: "(continuation_kind \<times> continuation_visibility) option"
  tu_truncations :: nat
  tu_last_truncated :: "string option"
  tu_stages :: "bool \<times> bool"
  tu_overflow :: nat
  tu_provider_retry :: nat
  tu_stream_retry :: nat
  tu_partial :: nat
  tu_confirmed :: "receipt list"
  tu_last_confirmed :: bool
  tu_protect :: bool
  tu_rate_waits :: nat
  tu_empty :: nat
  tu_reasoning_retried :: bool
  tu_window_warned :: bool
  tu_images_warned :: bool
  tu_last_sig :: "string option"
  tu_repeat :: nat
  tu_nudged :: bool
  tu_guard :: "call_fingerprint list tool_loop_state option"

definition turn_begin ::
  "'s turn_cfg \<Rightarrow> conversation \<Rightarrow> 's \<Rightarrow> u64 \<Rightarrow> call_fingerprint list tool_loop_state option \<Rightarrow> 's turn_state" where
  "turn_begin cfg c w req guard =
     \<lparr>tu_convo = c, tu_world = w, tu_events = [Turn_Started], tu_round = 0, tu_request = req,
      tu_round_cap = cf_max_rounds cfg, tu_continuations = 0, tu_internal = None, tu_truncations = 0,
      tu_last_truncated = None, tu_stages = (False, False), tu_overflow = 0, tu_provider_retry = 0,
      tu_stream_retry = 0, tu_partial = 0, tu_confirmed = [], tu_last_confirmed = False, tu_protect = False,
      tu_rate_waits = 0, tu_empty = 0, tu_reasoning_retried = False, tu_window_warned = False,
      tu_images_warned = False, tu_last_sig = None, tu_repeat = 0, tu_nudged = False, tu_guard = guard\<rparr>"

text \<open>A piece of the loop's body goes on with a value, sends the loop around, or ends the turn.\<close>

datatype ('s, 'a) flow = Next 'a | Again "'s turn_state" | Ended stop_reason "'s turn_state"

fun bind_flow :: "('s, 'a) flow \<Rightarrow> ('a \<Rightarrow> ('s, 'b) flow) \<Rightarrow> ('s, 'b) flow" where
  "bind_flow (Next a) f = f a"
| "bind_flow (Again st) f = Again st"
| "bind_flow (Ended r st) f = Ended r st"

definition emit :: "agent_event list \<Rightarrow> 's turn_state \<Rightarrow> 's turn_state" where
  "emit evs st = st\<lparr>tu_events := tu_events st @ evs\<rparr>"

definition push_msg :: "message \<Rightarrow> 's turn_state \<Rightarrow> 's turn_state" where
  "push_msg m st = st\<lparr>tu_convo := conversation_push (tu_convo st) m\<rparr>"

text \<open>A retry of the same logical round: the count at the top of the loop is taken back.\<close>

definition replay :: "'s turn_state \<Rightarrow> ('s, 'a) flow" where
  "replay st = Again (st\<lparr>tu_round := tu_round st - 1\<rparr>)"

section \<open>Ending a turn\<close>

definition finish_turn :: "stop_reason \<Rightarrow> 's turn_state \<Rightarrow> ('s, 'a) flow" where
  "finish_turn reason st = Ended reason (emit [Turn_Complete reason] st)"

definition did_work :: "nat \<Rightarrow> message list \<Rightarrow> bool" where
  "did_work rollback_len msgs \<longleftrightarrow> list_ex (\<lambda>m. m_role m = Assistant \<or> m_role m = Tool) (drop rollback_len msgs)"

definition cancelled_convo :: "'s turn_cfg \<Rightarrow> bool \<Rightarrow> conversation \<Rightarrow> conversation" where
  "cancelled_convo cfg internal_cancel c =
     (let c1 = (if cf_keep_interrupted cfg \<and> did_work (cf_rollback_len cfg) (c_messages c)
                then backfill_cancelled_tool_results c
                else c\<lparr>c_messages := take (cf_rollback_len cfg) (c_messages c)\<rparr>)
      in if internal_cancel then c1 else conversation_push c1 user_interruption)"

definition finish_cancelled :: "'s turn_cfg \<Rightarrow> round_env \<Rightarrow> 's turn_state \<Rightarrow> ('s, 'a) flow" where
  "finish_cancelled cfg env st =
     finish_turn StopCancelled
       (emit [Cancelled_Out] (st\<lparr>tu_convo := cancelled_convo cfg (rd_internal_cancel env) (tu_convo st)\<rparr>))"

text \<open>A wait that a cancel may cut short.\<close>

definition wait_then :: "'s turn_cfg \<Rightarrow> round_env \<Rightarrow> 's turn_state \<Rightarrow> ('s, 'a) flow \<Rightarrow> ('s, 'a) flow" where
  "wait_then cfg env st k = (if rd_wait_cancelled env then finish_cancelled cfg env st else k)"

section \<open>The round cap and steering\<close>

definition begin_round :: "'s turn_cfg \<Rightarrow> round_env \<Rightarrow> 's turn_state \<Rightarrow> ('s, 's turn_state) flow" where
  "begin_round cfg env st0 =
     (let st = st0\<lparr>tu_round := tu_round st0 + 1, tu_request := tu_request st0 + 1\<rparr>
      in case tu_round_cap st of
           None \<Rightarrow> Next st
         | Some cap \<Rightarrow>
             (if tu_round st \<le> cap then Next st
              else if \<not> cf_round_cap_checkpoint cfg
              then finish_turn MaxRounds (emit [Error_Out (Max_Rounds_Reached cap)] st)
              else if rd_grant_rounds env
              then Next (st\<lparr>tu_round_cap :=
                     Some (min (cap + (case cf_max_rounds cfg of Some b \<Rightarrow> b | None \<Rightarrow> cap)) (2 ^ 32 - 1))\<rparr>)
              else if rd_cancelled_rounds env then finish_cancelled cfg env st
              else finish_turn MaxRounds st))"

definition clear_repeat :: "'s turn_state \<Rightarrow> 's turn_state" where
  "clear_repeat st = st\<lparr>tu_last_sig := None, tu_repeat := 0, tu_nudged := False\<rparr>"

definition fold_steered :: "round_env \<Rightarrow> 's turn_state \<Rightarrow> 's turn_state" where
  "fold_steered env st =
     (if rd_steered env = [] then st
      else emit [Steered_In (rd_steered env)]
        (fold (\<lambda>(t, imgs). push_msg (user_with_images t imgs)) (rd_steered env)
          (clear_repeat (st\<lparr>tu_confirmed := [], tu_last_confirmed := False, tu_protect := False,
                           tu_guard := map_option tool_loop_reset (tu_guard st)\<rparr>))))"

end
