(* ===== verification/Turn_Request.thy ===== *)
theory Turn_Request
  imports Turn
begin

text \<open>
  The first half of a pass of the agent loop (\<open>crates/atomcode-kernel/src/agent/engine.rs\<close>): compaction, the
  request that is built from the stored history, opening the stream, and consuming it.
\<close>

section \<open>Compaction\<close>

definition compaction_view_of :: "'s turn_cfg \<Rightarrow> compact_trigger \<Rightarrow> conversation \<Rightarrow> compaction_view" where
  "compaction_view_of cfg trigger c =
     (let (recorded, used, _) = last_pressure (c_messages c);
          window = effective_compact_window (cf_context_window cfg) recorded
      in \<lparr>cv_messages = c_messages c, cv_trigger = trigger, cv_ctx_window = window, cv_used_tokens = used,
          cv_utilization = (if 0 < window then f32_ratio used window else 0),
          cv_sacred_floor = sacred_floor (c_messages c)\<rparr>)"

definition capture_snapshot :: "u64 \<Rightarrow> u64 \<Rightarrow> conversation \<Rightarrow> session_snapshot" where
  "capture_snapshot turns requests c =
     (let snap = from_conversation c
      in snap\<lparr>turn_counter := max (turn_counter snap) turns, request_counter := max (request_counter snap) requests\<rparr>)"

text \<open>
  \<open>run_compaction\<close>. The checkpoint, when there is one, is a function from the snapshot to its error; a manual
  compaction that cannot be saved is not committed.
\<close>

definition run_compaction ::
  "'s turn_cfg \<Rightarrow> round_env \<Rightarrow> (session_snapshot \<Rightarrow> string option) option \<Rightarrow> compact_trigger \<Rightarrow> 's turn_state
   \<Rightarrow> 's turn_state" where
  "run_compaction cfg env checkpoint trigger st =
     (let c = tu_convo st;
          view = compaction_view_of cfg trigger c;
          st1 = (if rd_summarizes env view then emit [Compaction_Started trigger] st else st);
          prepared = prepare_plan c (rd_plan env view) (sacred_floor (c_messages c));
          manual = (case trigger of Manual _ \<Rightarrow> True | _ \<Rightarrow> False);
          snapshot = (if manual \<and> committed (report prepared)
                      then map_option (capture_snapshot (cf_turn_id cfg) (tu_request st)) (candidate prepared) else None);
          failure = (case (checkpoint, snapshot) of (Some save, Some snap) \<Rightarrow> save snap | _ \<Rightarrow> None)
      in case failure of
           Some err \<Rightarrow> emit [Compaction_Failed trigger err] st1
         | None \<Rightarrow>
             (let (c', rep) = commit_prepared c prepared
              in emit [Compacted trigger rep snapshot] (st1\<lparr>tu_convo := c'\<rparr>)))"

definition should_compact :: "'s turn_cfg \<Rightarrow> conversation \<Rightarrow> compact_trigger option" where
  "should_compact cfg c =
     (case cf_compact_threshold cfg of
        None \<Rightarrow> None
      | Some threshold \<Rightarrow>
          (case Option.bind (find (\<lambda>m. m_role m = Assistant) (rev (c_messages c))) m_meta of
             None \<Rightarrow> None
           | Some meta \<Rightarrow>
               auto_compact_trigger (used_tokens meta)
                 (effective_compact_window (cf_context_window cfg) (ctx_window meta)) threshold))"

definition compact_before_internal_continuation :: "'s turn_cfg \<Rightarrow> round_env \<Rightarrow> 's turn_state \<Rightarrow> 's turn_state" where
  "compact_before_internal_continuation cfg env st =
     (case should_compact cfg (tu_convo st) of
        None \<Rightarrow> st
      | Some trigger \<Rightarrow>
          (let slow = rd_summarizes env (compaction_view_of cfg trigger (tu_convo st));
               tried = (if slow then snd (tu_stages st) else fst (tu_stages st))
           in if tried then st
              else run_compaction cfg env None trigger
                     (st\<lparr>tu_stages := (if slow then (fst (tu_stages st), True) else (True, snd (tu_stages st)))\<rparr>)))"

section \<open>Building the request\<close>

definition estimated :: "message list \<Rightarrow> nat" where
  "estimated msgs = sum_list (map (\<lambda>m. unat (estimate_tokens m)) msgs)"

text \<open>The projection the hooks make of the stored history, whether it only appends, and its repair.\<close>

definition project_request :: "round_env \<Rightarrow> nat \<Rightarrow> message list \<Rightarrow> message list \<times> bool" where
  "project_request env k stored =
     (let msgs = rd_project env k stored
      in (repair_pairing msgs, length stored \<le> length msgs \<and> take (length stored) msgs = stored))"

fun emergency_compaction ::
  "'s turn_cfg \<Rightarrow> round_env \<Rightarrow> u32 \<Rightarrow> nat \<Rightarrow> nat \<Rightarrow> 's turn_state \<Rightarrow> message list \<times> bool
   \<Rightarrow> 's turn_state \<times> message list \<times> bool" where
  "emergency_compaction cfg env limit 0 k st (msgs, appended) = (st, msgs, appended)"
| "emergency_compaction cfg env limit (Suc left) k st (msgs, appended) =
     (if unat limit \<le> estimated msgs
      then (let st' = run_compaction cfg env None (Overflow (word_of_nat k)) st;
                (msgs', ok) = project_request env (Suc k) (c_messages (tu_convo st'))
            in emergency_compaction cfg env limit left (Suc k) st' (msgs', appended \<and> ok))
      else (st, msgs, appended))"

definition prepare_request :: "'s turn_cfg \<Rightarrow> round_env \<Rightarrow> 's turn_state \<Rightarrow> 's turn_state \<times> message list" where
  "prepare_request cfg env st0 =
     (let stored = c_messages (tu_convo st0);
          window = effective_compact_window (cf_context_window cfg) (fst (last_pressure stored));
          drainable = list_ex (\<lambda>m. m_role m = Assistant) stored;
          (st1, msgs, appended) =
            emergency_compaction cfg env (effective_input_limit window (cf_max_tokens cfg))
              (if drainable \<and> 0 < window then MAX_OVERFLOW_ATTEMPTS else 0) 0 st0 (project_request env 0 stored);
          live = cf_context_window cfg;
          advisory = over_window_advisory (word_of_nat (estimated msgs)) live (effective_input_limit live (cf_max_tokens cfg));
          st2 = (case (tu_window_warned st1, advisory) of
                   (False, Some (est, win)) \<Rightarrow> emit [Warning (Near_Window est win)] (st1\<lparr>tu_window_warned := True\<rparr>)
                 | _ \<Rightarrow> st1);
          st3 = (if appended then st2
                 else emit [Warning (Not_Append_Only (length (c_messages (tu_convo st2))))] st2);
          (msgs', folded, all_folded) = fold_oldest_images_to_budget msgs IMAGE_SEND_BUDGET_BYTES;
          st4 = (if all_folded \<and> \<not> tu_images_warned st3
                 then emit [Warning (All_Images_Folded folded)] (st3\<lparr>tu_images_warned := True\<rparr>) else st3)
      in (st4, msgs'))"

section \<open>Opening the stream\<close>

text \<open>A response that says the client is rate limited, before any content: wait and replay, or pause.\<close>

definition rate_decision :: "round_env \<Rightarrow> provider_error \<Rightarrow> nat \<Rightarrow> rate_limit_decision \<times> bool" where
  "rate_decision env e waits =
     (let hint = hint_from_provider_error e (word_of_nat (waits + 1));
          verdict = (if rl_terminal hint then None else rd_verdict env);
          quiet = (verdict = None \<and> rl_retry_after hint = None \<and> \<not> rl_terminal hint)
      in (case verdict of Some d \<Rightarrow> d | None \<Rightarrow> from_hint_with_jitter hint (rd_jitter env), quiet))"

definition rate_limited :: "'s turn_cfg \<Rightarrow> round_env \<Rightarrow> provider_error \<Rightarrow> 's turn_state \<Rightarrow> ('s, 'a) flow" where
  "rate_limited cfg env e st =
     (let (decision, quiet) = rate_decision env e (tu_rate_waits st);
          server = rate_limit_server_message e
      in case decision of
           WaitAndRetry secs \<Rightarrow>
             (let st1 = st\<lparr>tu_rate_waits := tu_rate_waits st + 1\<rparr>
              in if MAX_RATE_LIMIT_WAITS < tu_rate_waits st1
                 then finish_turn RateLimited (emit [Rate_Limited [] [] None False server] st1)
                 else (let st2 = (if quiet \<and> tu_rate_waits st1 = 1 then st1
                                  else emit [Rate_Limited [] [] (Some secs) True None] st1)
                       in wait_then cfg env st2 (replay (st2\<lparr>tu_provider_retry := 0\<rparr>))))
         | Pause display label secs \<Rightarrow>
             finish_turn RateLimited (emit [Rate_Limited display label secs False server] st))"

definition open_stream :: "'s turn_cfg \<Rightarrow> round_env \<Rightarrow> 's turn_state \<Rightarrow> ('s, 's turn_state) flow" where
  "open_stream cfg env st =
     (case rd_open env of
        Open_Cancelled \<Rightarrow> finish_cancelled cfg env st
      | Open_Ok \<Rightarrow> Next (st\<lparr>tu_overflow := 0, tu_provider_retry := 0\<rparr>)
      | Open_Err e \<Rightarrow>
          (if is_context_overflow e \<and> tu_overflow st < MAX_OVERFLOW_ATTEMPTS
           then (let st1 = run_compaction cfg env None (Overflow (word_of_nat (tu_overflow st)))
                             (emit [Warning (Overflow_Compacting (tu_round st) (tu_overflow st))] st)
                 in replay (st1\<lparr>tu_overflow := tu_overflow st1 + 1\<rparr>))
           else if http_status e = Some 429 then rate_limited cfg env e st
           else if pe_retryable e \<and> tu_provider_retry st < cf_max_provider_retries cfg
           then (let n = tu_provider_retry st + 1;
                     st1 = emit [Provider_Retry n (cf_max_provider_retries cfg)
                                   (provider_retry_backoff_secs (word_of_nat n) (retry_after_secs e)) (retry_reason e)]
                             (st\<lparr>tu_provider_retry := n\<rparr>)
                 in wait_then cfg env st1 (replay st1))
           else finish_turn StopProviderError (emit [Error_Out (Provider_Failure e)] st)))"

section \<open>Consuming the stream\<close>

record stream_acc =
  sa_text :: string
  sa_reasoning :: string
  sa_block :: string
  sa_blocks :: "reasoning_block list"
  sa_calls :: "tool_call list"
  sa_usage :: token_usage
  sa_cut :: bool
  sa_response_id :: "string option"
  sa_model :: "string option"
  sa_content :: bool
  sa_tool :: bool
  sa_filler :: bool
  sa_malformed :: bool
  sa_detector :: reasoning_loop_detector

definition acc_start :: "round_env \<Rightarrow> stream_acc" where
  "acc_start env =
     \<lparr>sa_text = [], sa_reasoning = [], sa_block = [], sa_blocks = [], sa_calls = [], sa_usage = token_usage_default,
      sa_cut = False, sa_response_id = None, sa_model = None, sa_content = False, sa_tool = False, sa_filler = False,
      sa_malformed = False, sa_detector = detector_new (rd_guard env)\<rparr>"

definition suppressed :: "'s turn_state \<Rightarrow> bool" where
  "suppressed st \<longleftrightarrow> (case tu_internal st of Some (_, InternalControl) \<Rightarrow> True | _ \<Rightarrow> False)"

text \<open>\<open>persist_partial_assistant\<close>: what a failed stream leaves is stored, its calls answered as interrupted.\<close>

fun first_by_id :: "string set \<Rightarrow> tool_call list \<Rightarrow> tool_call list" where
  "first_by_id seen [] = []"
| "first_by_id seen (c # cs) =
     (if tc_id c \<in> seen then first_by_id seen cs else c # first_by_id (insert (tc_id c) seen) cs)"

definition persist_partial :: "bool \<Rightarrow> stream_acc \<Rightarrow> conversation \<Rightarrow> conversation" where
  "persist_partial hidden acc c =
     (let partial_reasoning = strip_reasoning_filler (sa_reasoning acc)
      in if sa_text acc = [] \<and> partial_reasoning = [] \<and> sa_calls acc = [] then c
         else (let base = message_assistant (sa_text acc) (first_by_id {} (sa_calls acc));
                   m = (if hidden
                        then base\<lparr>internal_origin := Some ''verify_cadence'', m_text := [], m_reasoning := None,
                                  reasoning_blocks := []\<rparr>
                        else base\<lparr>m_reasoning := (if partial_reasoning = [] then None else Some partial_reasoning),
                                  reasoning_blocks := sa_blocks acc\<rparr>)
               in backfill_interrupted_tool_results (conversation_push c m)))"

definition persisted :: "stream_acc \<Rightarrow> 's turn_state \<Rightarrow> 's turn_state" where
  "persisted acc st = st\<lparr>tu_convo := persist_partial (suppressed st) acc (tu_convo st)\<rparr>"

text \<open>A new continuation from the saved progress: the round is not taken back.\<close>

definition recovered :: "'s turn_state \<Rightarrow> 's turn_state" where
  "recovered st =
     push_msg (synthetic_user PARTIAL_STREAM_RESUME_NUDGE)
       (emit [Stream_Recovery (tu_partial st + 1) False]
         (st\<lparr>tu_protect := tu_last_confirmed st, tu_partial := tu_partial st + 1, tu_stream_retry := 0\<rparr>))"

definition idle_timeout :: "'s turn_cfg \<Rightarrow> round_env \<Rightarrow> stream_acc \<Rightarrow> 's turn_state \<Rightarrow> ('s, 'a) flow" where
  "idle_timeout cfg env acc st =
     (if \<not> sa_content acc \<and> tu_stream_retry st < MAX_STREAM_RETRIES
      then (let n = tu_stream_retry st + 1;
                st1 = emit [Warning (Idle_Reconnecting n (cf_first_token_timeout cfg))] (st\<lparr>tu_stream_retry := n\<rparr>)
            in wait_then cfg env st1 (replay st1))
      else
        (let st1 = (if sa_content acc then persisted acc st else st)
         in if sa_content acc \<and> length (c_messages (tu_convo st)) < length (c_messages (tu_convo st1))
               \<and> tu_partial st1 < MAX_PARTIAL_STREAM_RECOVERIES
            then Again (recovered st1)
            else finish_turn StopTimeout
                   (emit [Error_Out (if MAX_PARTIAL_STREAM_RECOVERIES \<le> tu_partial st1 then Timeout_After_Recovery
                                     else if sa_content acc then Timeout_After_Partial
                                     else Timeout_After_Reconnects)] st1)))"

definition usage_meta :: "'s turn_cfg \<Rightarrow> 's turn_state \<Rightarrow> token_usage \<Rightarrow> message_meta" where
  "usage_meta cfg st usage =
     \<lparr>tokens = usage, elapsed_ms = 0, reasoning_elapsed_ms = 0, ctx_window = cf_context_window cfg,
      used_tokens = prompt usage, utilization = 0, round_no = word_of_nat (tu_round st), turn_id = cf_turn_id cfg,
      request_id = tu_request st, provider_response_id = None, provider_model = None,
      session_id = cf_session_id cfg, finish_reason = []\<rparr>"

definition reasoning_tripped :: "'s turn_cfg \<Rightarrow> round_env \<Rightarrow> stream_acc \<Rightarrow> 's turn_state \<Rightarrow> ('s, 'a) flow" where
  "reasoning_tripped cfg env acc st =
     (let st1 = emit (Reasoning_Discarded #
                  (if sa_usage acc \<noteq> token_usage_default then [Usage_Out (usage_meta cfg st (sa_usage acc))] else [])) st
      in if \<not> tu_reasoning_retried st1
         then (let st2 = st1\<lparr>tu_reasoning_retried := True\<rparr>
               in case rd_attempt env of
                    Some (Inl limit) \<Rightarrow> finish_turn StopProviderError (emit [Error_Out (Budget_Exhausted limit)] st2)
                  | _ \<Rightarrow> replay (emit [Warning Reasoning_Loop_Retry] st2))
         else finish_turn StopProviderError (emit [Error_Out Reasoning_Loop_Stop] st1))"

definition stream_error :: "'s turn_cfg \<Rightarrow> round_env \<Rightarrow> provider_error \<Rightarrow> stream_acc \<Rightarrow> 's turn_state \<Rightarrow> ('s, 'a) flow" where
  "stream_error cfg env e acc st =
     (let interrupted = pe_code e \<in> {Some STREAM_TRANSPORT_INTERRUPTED_CODE, Some STREAM_IDLE_TIMEOUT_CODE};
          continue_progress =
            (interrupted \<and> http_status e = None \<and> (\<not> trim_is_empty (sa_text acc) \<or> tu_last_confirmed st)
             \<and> \<not> sa_tool acc \<and> tu_partial st < MAX_PARTIAL_STREAM_RECOVERIES);
          st1 = (if sa_content acc then persisted acc st else st)
      in if continue_progress then Again (recovered st1)
         else finish_turn (if pe_code e = Some STREAM_IDLE_TIMEOUT_CODE then StopTimeout else StopProviderError)
                (emit [Error_Out (Provider_Failure e)] st1))"

text \<open>A rate limit after content has been shown is never retried: the progress is kept and the turn pauses.\<close>

definition stream_rate_limited :: "'s turn_cfg \<Rightarrow> round_env \<Rightarrow> provider_error \<Rightarrow> stream_acc \<Rightarrow> 's turn_state \<Rightarrow> ('s, 'a) flow" where
  "stream_rate_limited cfg env e acc st =
     (if sa_content acc
      then (let (display, label, secs) =
                  (case fst (rate_decision env e (tu_rate_waits st)) of
                     WaitAndRetry s \<Rightarrow> ([], [], Some s)
                   | Pause d l s \<Rightarrow> (d, l, s))
            in finish_turn RateLimited
                 (emit [Rate_Limited display label secs False (rate_limit_server_message e)] (persisted acc st)))
      else rate_limited cfg env e st)"

text \<open>An event that neither fails nor ends the stream: what it adds, and what is shown of it.\<close>

fun absorb :: "bool \<Rightarrow> stream_event \<Rightarrow> string \<Rightarrow> stream_acc \<Rightarrow> stream_acc \<times> agent_event list" where
  "absorb hidden (TextDelta _) hooked acc =
     (if hooked = [] \<or> hidden then (acc\<lparr>sa_content := True\<rparr>, [])
      else (acc\<lparr>sa_content := True, sa_text := sa_text acc @ hooked\<rparr>, [Text_Out hooked]))"
| "absorb hidden (Reasoning _) hooked acc =
     (let t = strip_reasoning_filler hooked
      in if hooked = [] then (acc\<lparr>sa_content := True\<rparr>, [])
         else if t = [] then (acc\<lparr>sa_content := True, sa_filler := True\<rparr>, [])
         else if hidden then (acc\<lparr>sa_content := True\<rparr>, [])
         else (acc\<lparr>sa_content := True, sa_reasoning := sa_reasoning acc @ t, sa_block := sa_block acc @ t\<rparr>,
               [Reasoning_Out t]))"
| "absorb hidden (ReasoningSignature opq prov) hooked acc =
     (if hidden then (acc\<lparr>sa_content := True\<rparr>, [])
      else (acc\<lparr>sa_content := True, sa_block := [],
                sa_blocks := sa_blocks acc @ [\<lparr>rb_text = sa_block acc, rb_opaque = Some opq, rb_provider = Some prov\<rparr>]\<rparr>, []))"
| "absorb hidden (ToolCallEvent c) hooked acc =
     (acc\<lparr>sa_content := True, sa_tool := True, sa_calls := sa_calls acc @ [c]\<rparr>, [])"
| "absorb hidden (ToolCallDelta i d n a) hooked acc =
     (acc\<lparr>sa_content := True, sa_tool := True\<rparr>, [Tool_Streaming i d n a])"
| "absorb hidden (UsageEvent u) hooked acc = (acc\<lparr>sa_usage := merge_max (sa_usage acc) u\<rparr>, [])"
| "absorb hidden (ResponseId i) hooked acc = (acc\<lparr>sa_response_id := Some i\<rparr>, [])"
| "absorb hidden (ResponseModel mo) hooked acc = (acc\<lparr>sa_model := Some mo\<rparr>, [])"
| "absorb hidden Malformed hooked acc = (acc\<lparr>sa_malformed := True\<rparr>, [])"
| "absorb hidden (StreamError e) hooked acc = (acc, [])"
| "absorb hidden (Done t) hooked acc = (acc, [])"

fun consume :: "'s turn_cfg \<Rightarrow> round_env \<Rightarrow> arrival list \<Rightarrow> 's turn_state \<Rightarrow> stream_acc \<Rightarrow> ('s, 's turn_state \<times> stream_acc) flow" where
  "consume cfg env [] st acc = Next (st, acc)"
| "consume cfg env (Closed # rest) st acc = Next (st, acc)"
| "consume cfg env (Cancel_Arrives # rest) st acc = finish_cancelled cfg env st"
| "consume cfg env (Idle # rest) st acc = idle_timeout cfg env acc st"
| "consume cfg env (Arrived ev hooked # rest) st acc =
     (let (det, tripped) = observe (cf_alphabetic cfg) (sa_detector acc) ev;
          acc1 = acc\<lparr>sa_detector := det\<rparr>
      in if tripped then reasoning_tripped cfg env acc1 st
         else case ev of
                Done t \<Rightarrow> Next (st, acc1\<lparr>sa_cut := t\<rparr>)
              | StreamError e \<Rightarrow>
                  (if http_status e = Some 429 then stream_rate_limited cfg env e acc1 st
                   else stream_error cfg env e acc1 st)
              | _ \<Rightarrow> (let (acc2, evs) = absorb (suppressed st) ev hooked acc1
                      in consume cfg env rest (emit evs st) acc2))"

end
