(* ===== verification/Turn_Loop.thy ===== *)
theory Turn_Loop
  imports Turn_Request "HOL-Library.Product_Lexorder"
begin

text \<open>
  The second half of a pass of the agent loop (\<open>crates/atomcode-kernel/src/agent/engine.rs\<close>), from the end of
  the stream on: the retry of an empty response, the stored assistant message, the round without tool calls,
  the tool batch with its guards; then the loop over a list of round environments.
\<close>

section \<open>The response\<close>

text \<open>A stream that ended by itself: an empty response is asked for again, within the turn's budget.\<close>

definition filler_only :: "stream_acc \<Rightarrow> bool" where
  "filler_only acc \<longleftrightarrow>
     sa_content acc \<and> trim_is_empty (sa_text acc) \<and> sa_calls acc = [] \<and> sa_blocks acc = []
     \<and> (sa_filler acc \<or> \<not> trim_is_empty (sa_reasoning acc))
     \<and> trim_is_empty (strip_reasoning_filler (sa_reasoning acc))"

definition empty_completion :: "stream_acc \<Rightarrow> bool" where
  "empty_completion acc \<longleftrightarrow> (\<not> sa_content acc \<or> filler_only acc) \<and> \<not> sa_cut acc"

definition settle :: "'s turn_cfg \<Rightarrow> round_env \<Rightarrow> message list \<Rightarrow> stream_acc \<Rightarrow> 's turn_state \<Rightarrow> ('s, 's turn_state) flow" where
  "settle cfg env msgs acc st =
     (let st1 = st\<lparr>tu_rate_waits := 0, tu_stream_retry := 0\<rparr>
      in if \<not> empty_completion acc then Next st1
         else if tu_empty st1 < EMPTY_RESPONSE_MAX_RETRIES
         then (let n = tu_empty st1 + 1;
                   st2 = emit [Warning (Empty_Retry (sa_malformed acc) (min ((n + 1) div 2) 3) n)] (st1\<lparr>tu_empty := n\<rparr>)
               in wait_then cfg env st2 (replay st2))
         else finish_turn StopProviderError
                (emit [Error_Out (Empty_Exhausted
                         (empty_exhaustion_message (sa_malformed acc) (word_of_nat (estimated msgs)) (cf_context_window cfg)
                           EMPTY_RESPONSE_MAX_RETRIES (tu_window_warned st1)))] st1))"

definition meta_default :: message_meta where
  "meta_default =
     \<lparr>tokens = token_usage_default, elapsed_ms = 0, reasoning_elapsed_ms = 0, ctx_window = 0, used_tokens = 0,
      utilization = 0, round_no = 0, turn_id = 0, request_id = 0, provider_response_id = None, provider_model = None,
      session_id = None, finish_reason = []\<rparr>"

definition response_meta :: "'s turn_cfg \<Rightarrow> round_env \<Rightarrow> message list \<Rightarrow> stream_acc \<Rightarrow> 's turn_state \<Rightarrow> message_meta" where
  "response_meta cfg env msgs acc st =
     (let used = (if 0 < prompt (sa_usage acc) then prompt (sa_usage acc) else word_of_nat (estimated msgs));
          window = cf_context_window cfg
      in \<lparr>tokens = sa_usage acc, elapsed_ms = rd_elapsed env, reasoning_elapsed_ms = rd_reasoning_elapsed env,
          ctx_window = window, used_tokens = used, utilization = (if 0 < window then f32_ratio used window else 0),
          round_no = word_of_nat (tu_round st), turn_id = cf_turn_id cfg, request_id = tu_request st,
          provider_response_id = sa_response_id acc, provider_model = sa_model acc, session_id = cf_session_id cfg,
          finish_reason = (if sa_cut acc then ''length'' else if sa_calls acc \<noteq> [] then ''tool_calls'' else ''stop'')\<rparr>)"

text \<open>The text and the reasoning that are stored: an answer that came in the reasoning channel is promoted.\<close>

definition promoted :: "round_env \<Rightarrow> stream_acc \<Rightarrow> string option" where
  "promoted env acc =
     (let cleaned = strip_reasoning_filler (sa_reasoning acc)
      in if trim_is_empty (sa_text acc) \<and> \<not> trim_is_empty cleaned \<and> sa_calls acc = [] \<and> \<not> sa_cut acc
            \<and> sa_blocks acc = [] \<and> rd_promote env cleaned \<noteq> []
         then Some (rd_promote env cleaned) else None)"

definition respond ::
  "'s turn_cfg \<Rightarrow> round_env \<Rightarrow> message list \<Rightarrow> stream_acc \<Rightarrow> 's turn_state \<Rightarrow> 's turn_state \<times> message \<times> string" where
  "respond cfg env msgs acc st =
     (let text = (case promoted env acc of Some p \<Rightarrow> p | None \<Rightarrow> sa_text acc);
          cleaned = (case promoted env acc of Some p \<Rightarrow> [] | None \<Rightarrow> strip_reasoning_filler (sa_reasoning acc));
          st1 = (if promoted env acc \<noteq> None \<and> \<not> suppressed st then emit [Text_Out text] st else st);
          base = message_assistant text (sa_calls acc);
          named = (case tu_internal st of
                     Some (VerifyCadence, _) \<Rightarrow> base\<lparr>internal_origin := Some ''verify_cadence'', m_text := []\<rparr>
                   | _ \<Rightarrow> base);
          m = rd_response env
                (named\<lparr>m_meta := Some (response_meta cfg env msgs acc st),
                       m_reasoning := (if cleaned = [] then None else Some cleaned), reasoning_blocks := sa_blocks acc\<rparr>)
      in (push_msg m (emit [Usage_Out (case m_meta m of Some u \<Rightarrow> u | None \<Rightarrow> meta_default)]
            (st1\<lparr>tu_internal := None\<rparr>)), m, text))"

section \<open>A round without tool calls\<close>

definition stop_turn :: "bool \<Rightarrow> 's turn_state \<Rightarrow> ('s, unit) flow" where
  "stop_turn was_cut st =
     finish_turn StopStopped
       (emit ((if was_cut then [Warning Output_Cut] else [])
              @ (if 0 < tu_partial st then [Stream_Recovery (tu_partial st) True] else [])) st)"

definition no_tools :: "'s turn_cfg \<Rightarrow> round_env \<Rightarrow> bool \<Rightarrow> string \<Rightarrow> 's turn_state \<Rightarrow> ('s, unit) flow" where
  "no_tools cfg env was_cut text st0 =
     (let st = clear_repeat (st0\<lparr>tu_guard := map_option tool_loop_reset (tu_guard st0)\<rparr>);
          redump = (case tu_last_truncated st of Some prev \<Rightarrow> truncation_is_redump prev text | None \<Rightarrow> False);
          nudged = (\<lambda>s. push_msg (synthetic_user TRUNCATION_RESUME_NUDGE) (compact_before_internal_continuation cfg env s))
      in if rd_steer_pending env then Again st
         else if was_cut \<and> \<not> redump \<and> tu_truncations st < MAX_TRUNCATION_CONTINUATIONS
         then Again (nudged (emit [Truncation_Recovery (tu_truncations st + 1)]
                (st\<lparr>tu_truncations := tu_truncations st + 1, tu_last_truncated := Some text\<rparr>)))
         else case rd_continuation env of
                Some ct \<Rightarrow>
                  (case cf_max_continuations cfg of
                     Some mx \<Rightarrow>
                       (if mx \<le> tu_continuations st
                        then finish_turn MaxContinuations (emit [Error_Out (Max_Continuations_Reached mx)] st)
                        else Again (push_msg (synthetic_user (ct_text ct))
                               ((compact_before_internal_continuation cfg env (st\<lparr>tu_continuations := tu_continuations st + 1\<rparr>))
                                  \<lparr>tu_internal := Some (ct_kind ct, ct_visibility ct)\<rparr>)))
                   | None \<Rightarrow>
                       Again (push_msg (synthetic_user (ct_text ct))
                         ((compact_before_internal_continuation cfg env (st\<lparr>tu_continuations := tu_continuations st + 1\<rparr>))
                            \<lparr>tu_internal := Some (ct_kind ct, ct_visibility ct)\<rparr>)))
              | None \<Rightarrow>
                  (if was_cut \<and> cf_round_cap_checkpoint cfg
                   then (if rd_grant_cut env then Again (nudged st)
                         else if rd_cancelled_cut env then finish_cancelled cfg env st
                         else stop_turn False st)
                   else stop_turn was_cut st))"

section \<open>A round with tool calls\<close>

definition fingerprint_key :: "call_fingerprint \<Rightarrow> string \<times> string \<times> string \<times> string \<times> bool" where
  "fingerprint_key f = (fp_tool_name f, fp_arguments f, fp_cwd f, fp_content f, fp_error f)"

text \<open>The always-on fuse on rounds whose calls are the same, whatever their results.\<close>

definition coarse_fuse :: "string \<Rightarrow> bool \<Rightarrow> 's turn_state \<Rightarrow> ('s, unit) flow" where
  "coarse_fuse sig streak st =
     (let st1 = (if tu_last_sig st = Some sig then st\<lparr>tu_repeat := tu_repeat st + 1\<rparr>
                 else st\<lparr>tu_last_sig := Some sig, tu_repeat := 1, tu_nudged := False\<rparr>)
      in if \<not> streak \<and> MAX_REPEAT_ROUNDS \<le> tu_repeat st1
         then finish_turn RepeatLoop (emit [Error_Out (Repeated_Pattern (tu_repeat st1))] st1)
         else if \<not> streak \<and> REPEAT_NUDGE_AT \<le> tu_repeat st1 \<and> \<not> tu_nudged st1
         then Again (push_msg (synthetic_user REPEAT_LOOP_NUDGE) (st1\<lparr>tu_nudged := True\<rparr>))
         else Again st1)"

definition TOOL_IMAGES_NOTE :: string where
  "TOOL_IMAGES_NOTE = ''[Images returned by the tool calls above are attached for you to view.]''"

text \<open>After the batch: the images of the tools, the exact guard, the fuse.\<close>

definition after_batch ::
  "bool \<Rightarrow> string \<Rightarrow> image_content list \<Rightarrow> call_fingerprint list option \<Rightarrow> 's turn_state \<Rightarrow> ('s, unit) flow" where
  "after_batch steer sig imgs print st0 =
     (let st = (if imgs = [] then st0 else push_msg (synthetic_user_with_images TOOL_IMAGES_NOTE imgs) st0);
          observed = (case tu_guard st of
                        None \<Rightarrow> None
                      | Some g \<Rightarrow> Some (case (steer, print) of
                                          (False, Some fp) \<Rightarrow> tool_loop_observe fp g
                                        | _ \<Rightarrow> (tool_loop_reset g, Loop_Continue)));
          st1 = st\<lparr>tu_guard := map_option fst observed\<rparr>;
          next_round = (\<lambda>streak s. if steer then Again (clear_repeat s) else coarse_fuse sig streak s)
      in case observed of
           None \<Rightarrow> next_round False st1
         | Some (g, decision) \<Rightarrow>
             (case decision of
                Loop_Stop \<Rightarrow> finish_turn ToolLoopDetected (emit [Warning (Same_Action_Stop (tl_policy g))] st1)
              | Loop_Warn \<Rightarrow>
                  next_round (1 < tl_consecutive g) (push_msg (synthetic_user (tool_loop_course_correction (tl_policy g))) st1)
              | Loop_Continue \<Rightarrow> next_round (1 < tl_consecutive g) st1))"

text \<open>Classify, execute, apply: whether a cancel cut the batch, what phase 3 left, the state behind it.\<close>

definition run_batch ::
  "'s turn_cfg \<Rightarrow> round_env \<Rightarrow> bool \<Rightarrow> bool \<Rightarrow> tool_call list \<Rightarrow> 's turn_state \<Rightarrow> bool \<times> 's applying \<times> 's turn_state" where
  "run_batch cfg env was_cut batched calls st =
     (let cl = classify (cf_serde cfg) (cf_mws cfg) (snapshot_get (cf_tools cfg)) was_cut (tu_world st) calls;
          (slots, cancelled) = rd_execute env (if tu_protect st then tu_confirmed st else []) (cl_plans cl);
          ap = apply_batch (cf_serde cfg) (cf_mws cfg) (cf_max_tool_result_bytes cfg) (tu_guard st \<noteq> None) batched
                 (cl_intervention cl) (cl_plans cl) slots (tu_convo st) (cl_world cl);
          confirmed = batch_confirmed (tu_confirmed st) cancelled ap
      in (cancelled, ap,
          emit (map Tool_Result_Out (ap_events ap))
            (st\<lparr>tu_convo := ap_convo ap, tu_world := ap_world ap, tu_last_confirmed := confirmed,
                tu_confirmed := (if confirmed then tu_confirmed st @ ap_evidence ap else tu_confirmed st)\<rparr>)))"

definition batch_closed :: "bool \<Rightarrow> nat \<Rightarrow> nat \<Rightarrow> 's turn_state \<Rightarrow> 's turn_state" where
  "batch_closed batched ok whole st = (if batched then emit [Batch_Completed ok whole] st else st)"

definition run_tools :: "'s turn_cfg \<Rightarrow> round_env \<Rightarrow> bool \<Rightarrow> tool_call list \<Rightarrow> 's turn_state \<Rightarrow> ('s, unit) flow" where
  "run_tools cfg env was_cut calls st0 =
     (let whole = distinct_tool_call_count (cf_serde cfg) calls;
          batched = (2 \<le> whole);
          st = (if batched then emit [Batch_Started calls] st0 else st0)
      in if rd_batch_cancelled env then finish_cancelled cfg env (batch_closed batched 0 whole st)
         else
           (let (cancelled, ap, st1) = run_batch cfg env was_cut batched calls st;
                st2 = batch_closed batched (ap_ok ap) whole st1
            in if cancelled then finish_cancelled cfg env st2
               else if ap_denied ap
               then finish_turn PolicyDenied
                      (emit (case ap_intervention ap of Some i \<Rightarrow> [Intervention_Out i] | None \<Rightarrow> []) st2)
               else after_batch (rd_steer_pending env) (round_tool_signature calls) (ap_images ap)
                      (if ap_candidate ap then Some (sort_key fingerprint_key (ap_calls ap)) else None) st2))"

section \<open>The loop\<close>

definition after_stream :: "'s turn_cfg \<Rightarrow> round_env \<Rightarrow> message list \<Rightarrow> 's turn_state \<times> stream_acc \<Rightarrow> ('s, unit) flow" where
  "after_stream cfg env msgs sa =
     bind_flow (settle cfg env msgs (snd sa) (fst sa))
       (\<lambda>st. let (st1, m, text) = respond cfg env msgs (snd sa) st
             in if tool_calls m = [] then no_tools cfg env (sa_cut (snd sa)) text st1
                else run_tools cfg env (sa_cut (snd sa)) (tool_calls m) st1)"

definition round_step :: "'s turn_cfg \<Rightarrow> round_env \<Rightarrow> 's turn_state \<Rightarrow> ('s, unit) flow" where
  "round_step cfg env st0 =
     bind_flow (begin_round cfg env st0)
       (\<lambda>st1. let (st2, msgs) = prepare_request cfg env (fold_steered env st1)
              in bind_flow (open_stream cfg env st2)
                   (\<lambda>st3. bind_flow (consume cfg env (rd_arrivals env) st3 (acc_start env))
                     (after_stream cfg env msgs)))"

text \<open>The turn over the environments of its passes: where it ended, or the state it waits in for the next one.\<close>

fun run_turn :: "'s turn_cfg \<Rightarrow> round_env list \<Rightarrow> 's turn_state \<Rightarrow> 's turn_state + stop_reason \<times> 's turn_state" where
  "run_turn cfg [] st = Inl st"
| "run_turn cfg (env # envs) st =
     (case round_step cfg env st of
        Again st' \<Rightarrow> run_turn cfg envs st'
      | Ended r st' \<Rightarrow> Inr (r, st')
      | Next _ \<Rightarrow> Inl st)"

end
