(* ===== verification/Turn_Laws.thy ===== *)
theory Turn_Laws
  imports Turn_Loop
begin

text \<open>
  The loop of a turn: which counters a piece of a pass can move, and the bound on the passes of a turn that
  follows. Every way around the loop that does not count a round consumes a budget, and the budgets are
  ordered: a counted round refills the retries, an empty response the reconnects, a stream that opened the
  retries of the open.
\<close>

named_theorems turn_frame "what a piece of a pass leaves alone"

text \<open>The counters that decide whether the loop goes around.\<close>

record counters =
  k_round :: nat
  k_cap :: "nat option"
  k_empty :: nat
  k_retried :: bool
  k_waits :: nat
  k_stream :: nat
  k_overflow :: nat
  k_provider :: nat
  k_partial :: nat

definition counters_of :: "'s turn_state \<Rightarrow> counters" where
  "counters_of st =
     \<lparr>k_round = tu_round st, k_cap = tu_round_cap st, k_empty = tu_empty st, k_retried = tu_reasoning_retried st,
      k_waits = tu_rate_waits st, k_stream = tu_stream_retry st, k_overflow = tu_overflow st,
      k_provider = tu_provider_retry st, k_partial = tu_partial st\<rparr>"

lemma counters_eq_iff:
  "counters_of s = counters_of t \<longleftrightarrow>
     tu_round s = tu_round t \<and> tu_round_cap s = tu_round_cap t \<and> tu_empty s = tu_empty t
     \<and> tu_reasoning_retried s = tu_reasoning_retried t \<and> tu_rate_waits s = tu_rate_waits t
     \<and> tu_stream_retry s = tu_stream_retry t \<and> tu_overflow s = tu_overflow t
     \<and> tu_provider_retry s = tu_provider_retry t \<and> tu_partial s = tu_partial t"
  by (simp add: counters_of_def)

lemma emit_fields [simp]:
  "tu_convo (emit evs st) = tu_convo st" "tu_world (emit evs st) = tu_world st"
  "tu_events (emit evs st) = tu_events st @ evs" "tu_round (emit evs st) = tu_round st"
  "tu_round_cap (emit evs st) = tu_round_cap st" "tu_overflow (emit evs st) = tu_overflow st"
  "tu_provider_retry (emit evs st) = tu_provider_retry st" "tu_stream_retry (emit evs st) = tu_stream_retry st"
  "tu_partial (emit evs st) = tu_partial st" "tu_rate_waits (emit evs st) = tu_rate_waits st"
  "tu_empty (emit evs st) = tu_empty st" "tu_reasoning_retried (emit evs st) = tu_reasoning_retried st"
  "tu_protect (emit evs st) = tu_protect st" "tu_confirmed (emit evs st) = tu_confirmed st"
  "tu_last_confirmed (emit evs st) = tu_last_confirmed st" "tu_internal (emit evs st) = tu_internal st"
  by (simp_all add: emit_def)

lemma push_msg_fields [simp]:
  "tu_convo (push_msg m st) = conversation_push (tu_convo st) m" "tu_world (push_msg m st) = tu_world st"
  "tu_events (push_msg m st) = tu_events st" "tu_round (push_msg m st) = tu_round st"
  "tu_round_cap (push_msg m st) = tu_round_cap st" "tu_overflow (push_msg m st) = tu_overflow st"
  "tu_provider_retry (push_msg m st) = tu_provider_retry st" "tu_stream_retry (push_msg m st) = tu_stream_retry st"
  "tu_partial (push_msg m st) = tu_partial st" "tu_rate_waits (push_msg m st) = tu_rate_waits st"
  "tu_empty (push_msg m st) = tu_empty st" "tu_reasoning_retried (push_msg m st) = tu_reasoning_retried st"
  "tu_protect (push_msg m st) = tu_protect st" "tu_confirmed (push_msg m st) = tu_confirmed st"
  "tu_last_confirmed (push_msg m st) = tu_last_confirmed st" "tu_internal (push_msg m st) = tu_internal st"
  by (simp_all add: push_msg_def)

lemma counters_emit [turn_frame]: "counters_of (emit evs st) = counters_of st"
  by (simp add: counters_of_def)

lemma counters_push [turn_frame]: "counters_of (push_msg m st) = counters_of st"
  by (simp add: counters_of_def)

lemma run_compaction_frame:
  "run_compaction cfg env cp trigger st =
     st\<lparr>tu_convo := tu_convo (run_compaction cfg env cp trigger st),
        tu_events := tu_events (run_compaction cfg env cp trigger st)\<rparr>"
  unfolding run_compaction_def Let_def split_beta emit_def
  by (split option.split) simp

lemma run_compaction_convo:
  "tu_convo (run_compaction cfg env cp trigger st) = tu_convo st
   \<or> tu_convo (run_compaction cfg env cp trigger st) =
        fst (apply_plan (tu_convo st) (rd_plan env (compaction_view_of cfg trigger (tu_convo st)))
          (sacred_floor (c_messages (tu_convo st))))"
  unfolding run_compaction_def Let_def split_beta emit_def apply_plan_def
  by (split option.split) simp

lemma counters_run_compaction [turn_frame]: "counters_of (run_compaction cfg env cp trigger st) = counters_of st"
  by (subst run_compaction_frame) (simp add: counters_of_def)

lemma counters_internal_compaction [turn_frame]:
  "counters_of (compact_before_internal_continuation cfg env st) = counters_of st"
proof -
  have "counters_of (st\<lparr>tu_stages := x\<rparr>) = counters_of st" for x by (simp add: counters_of_def)
  then show ?thesis
    by (simp add: compact_before_internal_continuation_def Let_def counters_run_compaction split: option.splits)
qed

lemma counters_fold_push: "counters_of (fold (\<lambda>(t, imgs). push_msg (user_with_images t imgs)) xs st) = counters_of st"
  by (induction xs arbitrary: st) (auto simp: counters_push)

lemma counters_steered [turn_frame]: "counters_of (fold_steered env st) = counters_of st"
  by (simp add: fold_steered_def counters_emit counters_fold_push clear_repeat_def) (simp add: counters_of_def)

lemma counters_emergency:
  "counters_of (fst (emergency_compaction cfg env limit left k st pm)) = counters_of st"
  by (induction cfg env limit left k st pm rule: emergency_compaction.induct)
    (simp_all add: Let_def split_beta counters_run_compaction)

lemma counters_prepare [turn_frame]: "counters_of (fst (prepare_request cfg env st)) = counters_of st"
proof -
  have "counters_of (st\<lparr>tu_window_warned := x\<rparr>) = counters_of st"
    "counters_of (st\<lparr>tu_images_warned := x\<rparr>) = counters_of st" for x and st :: "'a turn_state"
    by (simp_all add: counters_of_def)
  moreover obtain st1 msgs appended where em:
    "emergency_compaction cfg env (effective_input_limit
        (effective_compact_window (cf_context_window cfg) (fst (last_pressure (c_messages (tu_convo st))))) (cf_max_tokens cfg))
      (if list_ex (\<lambda>m. m_role m = Assistant) (c_messages (tu_convo st))
          \<and> 0 < effective_compact_window (cf_context_window cfg) (fst (last_pressure (c_messages (tu_convo st))))
       then MAX_OVERFLOW_ATTEMPTS else 0) 0 st (project_request env 0 (c_messages (tu_convo st))) = (st1, msgs, appended)"
    by (metis surj_pair)
  moreover from this have "counters_of st1 = counters_of st" using counters_emergency by (metis fst_conv)
  ultimately show ?thesis
    by (auto simp: prepare_request_def Let_def split_beta counters_emit split: option.splits bool.splits)
qed

section \<open>The counters of a pass\<close>

lemma finish_turn_ends [simp]: "finish_turn r st \<noteq> Again st'" "finish_turn r st \<noteq> Next x"
  by (simp_all add: finish_turn_def)

lemma finish_cancelled_ends [simp]: "finish_cancelled cfg env st \<noteq> Again st'" "finish_cancelled cfg env st \<noteq> Next x"
  by (simp_all add: finish_cancelled_def)

lemma replay_Again [simp]: "replay st = Again st' \<longleftrightarrow> st' = st\<lparr>tu_round := tu_round st - 1\<rparr>" "replay st \<noteq> Next x"
  by (auto simp: replay_def)

lemma wait_then_Again: "wait_then cfg env st k = Again st' \<longleftrightarrow> \<not> rd_wait_cancelled env \<and> k = Again st'"
  by (simp add: wait_then_def)

lemma wait_then_Next [simp]: "wait_then cfg env st k = Next x \<longleftrightarrow> \<not> rd_wait_cancelled env \<and> k = Next x"
  by (simp add: wait_then_def)

lemma bind_flow_Again:
  "bind_flow fl f = Again st' \<longleftrightarrow> fl = Again st' \<or> (\<exists>a. fl = Next a \<and> f a = Again st')"
  by (cases fl) auto

lemma bind_flow_Next: "bind_flow fl f = Next x \<longleftrightarrow> (\<exists>a. fl = Next a \<and> f a = Next x)"
  by (cases fl) auto

lemma begin_round_Next:
  "begin_round cfg env st = Next st' \<Longrightarrow> \<not> cf_round_cap_checkpoint cfg \<Longrightarrow>
   counters_of st' = (counters_of st)\<lparr>k_round := tu_round st + 1\<rparr>
   \<and> (\<forall>cap. tu_round_cap st = Some cap \<longrightarrow> tu_round st < cap)"
  by (auto simp: begin_round_def Let_def counters_of_def Suc_le_eq split: option.splits if_splits)

lemma begin_round_not_Again [simp]: "begin_round cfg env st \<noteq> Again st'"
  by (simp add: begin_round_def Let_def split: option.splits)

lemma rate_limited_Again:
  "rate_limited cfg env e st = Again st' \<Longrightarrow>
   counters_of st' = (counters_of st)\<lparr>k_round := tu_round st - 1, k_waits := tu_rate_waits st + 1, k_provider := 0\<rparr>
   \<and> tu_rate_waits st < 5"
  by (auto simp: rate_limited_def Let_def wait_then_Again counters_of_def MAX_RATE_LIMIT_WAITS_def
      split: prod.splits rate_limit_decision.splits if_splits)

lemma rate_limited_not_Next [simp]: "rate_limited cfg env e st \<noteq> Next x"
  by (auto simp: rate_limited_def Let_def split: prod.splits rate_limit_decision.splits)

lemma open_stream_Next:
  "open_stream cfg env st = Next st' \<Longrightarrow> st' = st\<lparr>tu_overflow := 0, tu_provider_retry := 0\<rparr>"
  by (auto simp: open_stream_def Let_def split: open_outcome.splits if_splits)

lemma open_stream_Again:
  fixes st :: "'s turn_state"
  assumes "open_stream cfg env st = Again st'"
  shows "(counters_of st' = (counters_of st)\<lparr>k_round := tu_round st - 1, k_overflow := tu_overflow st + 1\<rparr> \<and> tu_overflow st < 3)
    \<or> (counters_of st' = (counters_of st)\<lparr>k_round := tu_round st - 1, k_waits := tu_rate_waits st + 1, k_provider := 0\<rparr>
       \<and> tu_rate_waits st < 5)
    \<or> (counters_of st' = (counters_of st)\<lparr>k_round := tu_round st - 1, k_provider := tu_provider_retry st + 1\<rparr>
       \<and> tu_provider_retry st < cf_max_provider_retries cfg)"
proof -
  from assms obtain e where e: "rd_open env = Open_Err e" by (auto simp: open_stream_def split: open_outcome.splits)
  let ?c = "run_compaction cfg env None (Overflow (word_of_nat (tu_overflow st)))
                             (emit [Warning (Overflow_Compacting (tu_round st) (tu_overflow st))] st)"
  have c: "counters_of ?c = counters_of st" by (simp add: turn_frame)
  consider (overflow) "is_context_overflow e" "tu_overflow st < MAX_OVERFLOW_ATTEMPTS"
    | (throttled) "rate_limited cfg env e st = (Again st' :: ('s, 's turn_state) flow)"
    | (retry) "pe_retryable e" "tu_provider_retry st < cf_max_provider_retries cfg"
        "\<not> (is_context_overflow e \<and> tu_overflow st < MAX_OVERFLOW_ATTEMPTS)" "http_status e \<noteq> Some 429"
    using assms by (auto simp: open_stream_def e split: if_splits)
  then show ?thesis
  proof cases
    case overflow
    then have "st' = ?c\<lparr>tu_overflow := tu_overflow ?c + 1, tu_round := tu_round ?c - 1\<rparr>"
      using assms by (simp add: open_stream_def e Let_def)
    then show ?thesis using c overflow(2) by (simp add: counters_of_def MAX_OVERFLOW_ATTEMPTS_def)
  next
    case throttled
    then show ?thesis using rate_limited_Again by blast
  next
    case retry
    then obtain evs where "st' = (emit evs (st\<lparr>tu_provider_retry := tu_provider_retry st + 1\<rparr>))\<lparr>tu_round := tu_round st - 1\<rparr>"
      using assms by (auto simp: open_stream_def e Let_def wait_then_Again)
    then have "counters_of st' = (counters_of st)\<lparr>k_round := tu_round st - 1, k_provider := tu_provider_retry st + 1\<rparr>"
      by (simp add: counters_of_def)
    with retry(2) show ?thesis by blast
  qed
qed

text \<open>What sends the loop around while the stream is read.\<close>

definition stream_again :: "counters \<Rightarrow> counters \<Rightarrow> bool" where
  "stream_again k k' \<longleftrightarrow>
     (k' = k\<lparr>k_round := k_round k - 1, k_waits := k_waits k + 1, k_provider := 0\<rparr> \<and> k_waits k < 5)
     \<or> (k' = k\<lparr>k_round := k_round k - 1, k_stream := k_stream k + 1\<rparr> \<and> k_stream k < 5)
     \<or> (k' = k\<lparr>k_round := k_round k - 1, k_retried := True\<rparr> \<and> \<not> k_retried k)
     \<or> (k' = k\<lparr>k_partial := k_partial k + 1, k_stream := 0\<rparr> \<and> k_partial k < 1)"

lemma counters_persisted [turn_frame]: "counters_of (persisted acc st) = counters_of st"
  by (simp add: persisted_def counters_of_def)

lemma persisted_fields [simp]:
  "tu_partial (persisted acc st) = tu_partial st" "tu_world (persisted acc st) = tu_world st"
  "tu_events (persisted acc st) = tu_events st" "tu_round (persisted acc st) = tu_round st"
  "tu_protect (persisted acc st) = tu_protect st" "tu_last_confirmed (persisted acc st) = tu_last_confirmed st"
  "tu_confirmed (persisted acc st) = tu_confirmed st"
  by (simp_all add: persisted_def)

lemma recovered_counters:
  "counters_of (recovered (if b then persisted acc st else st)) =
     (counters_of st)\<lparr>k_partial := tu_partial st + 1, k_stream := 0\<rparr>"
proof -
  have "counters_of (recovered s) = (counters_of s)\<lparr>k_partial := tu_partial s + 1, k_stream := 0\<rparr>" for s :: "'a turn_state"
    by (simp add: recovered_def turn_frame) (simp add: counters_of_def)
  then show ?thesis by (simp add: counters_persisted)
qed

lemma idle_timeout_Again:
  assumes "idle_timeout cfg env acc st = Again st'"
  shows "stream_again (counters_of st) (counters_of st')"
proof (cases "\<not> sa_content acc \<and> tu_stream_retry st < MAX_STREAM_RETRIES")
  case True
  then show ?thesis
    using assms by (auto simp: idle_timeout_def Let_def wait_then_Again counters_of_def stream_again_def MAX_STREAM_RETRIES_def)
next
  case False
  then have "st' = recovered (if sa_content acc then persisted acc st else st)" "tu_partial st < 1"
    using assms by (simp_all add: idle_timeout_def Let_def MAX_PARTIAL_STREAM_RECOVERIES_def split: if_split_asm)
  then show ?thesis
    by (simp add: stream_again_def recovered_counters) (simp add: counters_of_def)
qed

lemma idle_timeout_not_Next [simp]: "idle_timeout cfg env acc st \<noteq> Next x"
  by (simp add: idle_timeout_def Let_def)

lemma reasoning_tripped_Again:
  "reasoning_tripped cfg env acc st = Again st' \<Longrightarrow> stream_again (counters_of st) (counters_of st')"
  by (auto simp: reasoning_tripped_def Let_def counters_of_def stream_again_def split: if_splits option.splits sum.splits)

lemma reasoning_tripped_not_Next [simp]: "reasoning_tripped cfg env acc st \<noteq> Next x"
  by (auto simp: reasoning_tripped_def Let_def split: option.splits sum.splits)

lemma stream_error_Again:
  assumes "stream_error cfg env e acc st = Again st'"
  shows "stream_again (counters_of st) (counters_of st')"
proof -
  from assms have "st' = recovered (if sa_content acc then persisted acc st else st)" "tu_partial st < 1"
    by (simp_all add: stream_error_def Let_def MAX_PARTIAL_STREAM_RECOVERIES_def split: if_split_asm)
  then show ?thesis
    by (simp add: stream_again_def recovered_counters) (simp add: counters_of_def)
qed

lemma stream_error_not_Next [simp]: "stream_error cfg env e acc st \<noteq> Next x"
  by (simp add: stream_error_def Let_def)

lemma stream_rate_limited_Again:
  fixes st :: "'s turn_state"
  assumes "stream_rate_limited cfg env e acc st = (Again st' :: ('s, 'b) flow)"
  shows "stream_again (counters_of st) (counters_of st')"
proof -
  have "rate_limited cfg env e st = (Again st' :: ('s, 'b) flow)"
    using assms by (simp add: stream_rate_limited_def split_beta split: if_split_asm)
  from rate_limited_Again [OF this] show ?thesis
    by (simp add: stream_again_def) (simp add: counters_of_def)
qed

lemma stream_rate_limited_not_Next [simp]: "stream_rate_limited cfg env e acc st \<noteq> Next x"
  by (auto simp: stream_rate_limited_def Let_def split: prod.splits)

lemma consume_tripped:
  "observe (cf_alphabetic cfg) (sa_detector acc) ev = (det, True) \<Longrightarrow>
   consume cfg env (Arrived ev hooked # rest) st acc = reasoning_tripped cfg env (acc\<lparr>sa_detector := det\<rparr>) st"
  by simp

lemma consume_Done:
  "observe (cf_alphabetic cfg) (sa_detector acc) (Done t) = (det, False) \<Longrightarrow>
   consume cfg env (Arrived (Done t) hooked # rest) st acc = Next (st, acc\<lparr>sa_detector := det, sa_cut := t\<rparr>)"
  by simp

lemma consume_Error:
  "observe (cf_alphabetic cfg) (sa_detector acc) (StreamError e) = (det, False) \<Longrightarrow>
   consume cfg env (Arrived (StreamError e) hooked # rest) st acc =
     (if http_status e = Some 429 then stream_rate_limited cfg env e (acc\<lparr>sa_detector := det\<rparr>) st
      else stream_error cfg env e (acc\<lparr>sa_detector := det\<rparr>) st)"
  by simp

fun ends_stream :: "stream_event \<Rightarrow> bool" where
  "ends_stream (Done _) \<longleftrightarrow> True"
| "ends_stream (StreamError _) \<longleftrightarrow> True"
| "ends_stream _ \<longleftrightarrow> False"

lemma consume_plain:
  "observe (cf_alphabetic cfg) (sa_detector acc) ev = (det, False) \<Longrightarrow> \<not> ends_stream ev \<Longrightarrow>
   consume cfg env (Arrived ev hooked # rest) st acc =
     consume cfg env rest (emit (snd (absorb (suppressed st) ev hooked (acc\<lparr>sa_detector := det\<rparr>))) st)
       (fst (absorb (suppressed st) ev hooked (acc\<lparr>sa_detector := det\<rparr>)))"
  by (cases ev) (simp_all add: split_beta Let_def del: absorb.simps)

declare consume.simps(5) [simp del]

text \<open>The shape of every induction on what arrives.\<close>

lemma consume_induct [case_names ran_out closed cancelled idle tripped completed failed plain]:
  assumes "\<And>st acc. P [] st acc" "\<And>rest st acc. P (Closed # rest) st acc"
    and "\<And>rest st acc. P (Cancel_Arrives # rest) st acc"
    and "\<And>rest st acc. P (Idle # rest) st acc"
    and "\<And>ev hooked rest st acc det. observe (cf_alphabetic cfg) (sa_detector acc) ev = (det, True) \<Longrightarrow>
      P (Arrived ev hooked # rest) st acc"
    and "\<And>t hooked rest st acc det. observe (cf_alphabetic cfg) (sa_detector acc) (Done t) = (det, False) \<Longrightarrow>
      P (Arrived (Done t) hooked # rest) st acc"
    and "\<And>e hooked rest st acc det. observe (cf_alphabetic cfg) (sa_detector acc) (StreamError e) = (det, False) \<Longrightarrow>
      P (Arrived (StreamError e) hooked # rest) st acc"
    and "\<And>ev hooked rest st acc det. observe (cf_alphabetic cfg) (sa_detector acc) ev = (det, False) \<Longrightarrow> \<not> ends_stream ev \<Longrightarrow>
      (\<And>st acc. P rest st acc) \<Longrightarrow> P (Arrived ev hooked # rest) st acc"
  shows "P arrs st acc"
proof (induction arrs arbitrary: st acc)
  case (Cons a arrs st acc)
  show ?case
  proof (cases a)
    case (Arrived ev hooked)
    obtain det tripped where ob: "observe (cf_alphabetic cfg) (sa_detector acc) ev = (det, tripped)" by fastforce
    show ?thesis
    proof (cases tripped)
      case True
      then show ?thesis using assms(5) [of acc ev det hooked arrs st] ob by (simp add: Arrived)
    next
      case False
      show ?thesis
      proof (cases "ends_stream ev")
        case True
        then consider t where "ev = Done t" | e where "ev = StreamError e" by (cases ev) auto
        then show ?thesis
          using ob False assms(6) [of acc _ det hooked arrs st] assms(7) [of acc _ det hooked arrs st]
          unfolding Arrived by cases auto
      next
        case plain: False
        then show ?thesis
          using ob False assms(8) [of acc ev det arrs hooked st] Cons unfolding Arrived by simp
      qed
    qed
  qed (use assms(2-4) in simp_all)
qed (rule assms(1))

lemma consume_Again:
  "consume cfg env arrs st acc = Again st' \<Longrightarrow> stream_again (counters_of st) (counters_of st')"
proof (induction arrs st acc rule: consume_induct [where cfg = cfg])
  case (failed e hooked rest st acc det)
  then show ?case
    by (auto simp: consume_Error split: if_split_asm intro: stream_error_Again stream_rate_limited_Again)
next
  case (plain ev hooked rest st acc det)
  then have "stream_again (counters_of (emit (snd (absorb (suppressed st) ev hooked (acc\<lparr>sa_detector := det\<rparr>))) st)) (counters_of st')"
    by (simp add: consume_plain)
  then show ?case by (simp add: turn_frame)
qed (simp_all add: consume_tripped consume_Done idle_timeout_Again reasoning_tripped_Again)

lemma consume_Next:
  "consume cfg env arrs st acc = Next (st', acc') \<Longrightarrow> \<exists>evs. st' = emit evs st"
proof (induction arrs st acc rule: consume_induct [where cfg = cfg])
  case (failed e hooked rest st acc det)
  then show ?case by (simp add: consume_Error split: if_split_asm)
next
  case (plain ev hooked rest st acc det)
  then obtain evs where "st' = emit evs (emit (snd (absorb (suppressed st) ev hooked (acc\<lparr>sa_detector := det\<rparr>))) st)"
    by (auto simp: consume_plain)
  then show ?case by (auto simp: emit_def)
qed (auto simp: consume_tripped consume_Done emit_def intro: exI [of _ "[]"])

lemma settle_Again:
  "settle cfg env msgs acc st = Again st' \<Longrightarrow>
   counters_of st' = (counters_of st)\<lparr>k_round := tu_round st - 1, k_empty := tu_empty st + 1, k_waits := 0, k_stream := 0\<rparr>
   \<and> tu_empty st < 5"
  by (simp add: settle_def Let_def wait_then_Again EMPTY_RESPONSE_MAX_RETRIES_def split: if_split_asm)
    (simp add: counters_of_def)

lemma settle_Next:
  "settle cfg env msgs acc st = Next st' \<Longrightarrow>
   st' = st\<lparr>tu_rate_waits := 0, tu_stream_retry := 0\<rparr> \<and> \<not> empty_completion acc"
  by (simp add: settle_def Let_def split: if_split_asm)

lemma counters_respond [turn_frame]: "counters_of (fst (respond cfg env msgs acc st)) = counters_of st"
proof -
  have "counters_of (st\<lparr>tu_internal := x\<rparr>) = counters_of st" for x and st :: "'a turn_state" by (simp add: counters_of_def)
  then show ?thesis by (simp add: respond_def Let_def counters_push counters_emit)
qed

lemma counters_simps [turn_frame]:
  "counters_of (st\<lparr>tu_guard := g\<rparr>) = counters_of st" "counters_of (clear_repeat st) = counters_of st"
  "counters_of (st\<lparr>tu_truncations := n, tu_last_truncated := t\<rparr>) = counters_of st"
  "counters_of (st\<lparr>tu_continuations := n\<rparr>) = counters_of st" "counters_of (st\<lparr>tu_internal := i\<rparr>) = counters_of st"
  "counters_of (st\<lparr>tu_nudged := b\<rparr>) = counters_of st" "counters_of (st\<lparr>tu_repeat := n\<rparr>) = counters_of st"
  "counters_of (st\<lparr>tu_last_sig := sg\<rparr>) = counters_of st"
  "counters_of (st\<lparr>tu_last_sig := sg, tu_repeat := n, tu_nudged := b\<rparr>) = counters_of st"
  "counters_of (st\<lparr>tu_convo := c, tu_world := w, tu_last_confirmed := b, tu_confirmed := rs\<rparr>) = counters_of st"
  by (simp_all add: counters_of_def clear_repeat_def)

lemma no_tools_Again: "no_tools cfg env was_cut t st = Again st' \<Longrightarrow> counters_of st' = counters_of st"
  by (auto simp: no_tools_def Let_def stop_turn_def turn_frame split: if_split_asm option.split_asm)

lemma coarse_fuse_Again: "coarse_fuse sig streak st = Again st' \<Longrightarrow> counters_of st' = counters_of st"
  by (auto simp: coarse_fuse_def Let_def turn_frame split: if_split_asm)

lemma after_batch_Again:
  "after_batch steer sig imgs print st = Again st' \<Longrightarrow> counters_of st' = counters_of st"
  by (auto simp: after_batch_def Let_def turn_frame split: if_split_asm option.split_asm prod.split_asm tool_loop_decision.split_asm
      dest!: coarse_fuse_Again)

lemma run_batch_frame:
  "counters_of (snd (snd (run_batch cfg env was_cut batched calls st))) = counters_of st"
  by (simp add: run_batch_def Let_def split_beta turn_frame)

lemma counters_batch_closed [turn_frame]: "counters_of (batch_closed batched ok whole st) = counters_of st"
  by (simp add: batch_closed_def turn_frame)

lemma run_tools_Again:
  fixes st :: "'s turn_state"
  assumes "run_tools cfg env was_cut calls st = Again st'"
  shows "counters_of st' = counters_of st"
proof -
  let ?whole = "distinct_tool_call_count (cf_serde cfg) calls"
  let ?st = "if 2 \<le> ?whole then emit [Batch_Started calls] st else st"
  obtain cancelled ap st1 where run: "run_batch cfg env was_cut (2 \<le> ?whole) calls ?st = (cancelled, ap, st1)"
    by (metis surj_pair)
  have "counters_of st1 = counters_of ?st"
    using run_batch_frame [of cfg env was_cut "2 \<le> ?whole" calls ?st] by (simp only: run fst_conv snd_conv)
  also have "\<dots> = counters_of st" by (simp add: turn_frame)
  finally have st1: "counters_of st1 = counters_of st" .
  have "after_batch (rd_steer_pending env) (round_tool_signature calls) (ap_images ap)
      (if ap_candidate ap then Some (sort_key fingerprint_key (ap_calls ap)) else None)
      (batch_closed (2 \<le> ?whole) (ap_ok ap) ?whole st1) = (Again st' :: ('s, unit) flow)"
    using assms by (simp add: run_tools_def Let_def run split: if_split_asm)
  from after_batch_Again [OF this] show ?thesis by (simp add: turn_frame st1)
qed

section \<open>A turn with a round cap ends\<close>

lemma no_tools_not_Next [simp]: "no_tools cfg env was_cut t st \<noteq> Next x"
  by (auto simp: no_tools_def Let_def stop_turn_def split: option.splits)

lemma coarse_fuse_not_Next [simp]: "coarse_fuse sig streak st \<noteq> Next x"
  by (simp add: coarse_fuse_def Let_def)

lemma after_batch_not_Next [simp]: "after_batch steer sig imgs print st \<noteq> Next x"
  by (simp add: after_batch_def Let_def split_beta split: option.splits tool_loop_decision.splits)

lemma run_tools_not_Next [simp]: "run_tools cfg env was_cut calls st \<noteq> Next x"
  by (simp add: run_tools_def Let_def split_beta)

lemma after_stream_not_Next [simp]: "after_stream cfg env msgs sa \<noteq> Next x"
  by (auto simp: after_stream_def bind_flow_Next Let_def split_beta)

lemma round_step_not_Next [simp]: "round_step cfg env st \<noteq> Next x"
  by (auto simp: round_step_def bind_flow_Next Let_def split_beta)

lemma after_stream_Again:
  assumes "after_stream cfg env msgs (st, acc) = Again st'"
  shows "(counters_of st' = (counters_of st)\<lparr>k_round := tu_round st - 1, k_empty := tu_empty st + 1, k_waits := 0, k_stream := 0\<rparr>
          \<and> tu_empty st < 5)
    \<or> counters_of st' = (counters_of st)\<lparr>k_waits := 0, k_stream := 0\<rparr>"
proof (cases "settle cfg env msgs acc st")
  case (Next st1)
  obtain st2 m t where r: "respond cfg env msgs acc st1 = (st2, m, t)" by (metis surj_pair)
  have "counters_of st1 = (counters_of st)\<lparr>k_waits := 0, k_stream := 0\<rparr>"
    using settle_Next [OF Next] by (simp add: counters_of_def)
  moreover have "counters_of st2 = counters_of st1" using counters_respond [of cfg env msgs acc st1] by (simp add: r)
  moreover have "counters_of st' = counters_of st2"
    using assms Next r by (auto simp: after_stream_def split: if_split_asm dest: no_tools_Again run_tools_Again)
  ultimately show ?thesis by simp
qed (use assms in \<open>auto simp: after_stream_def dest: settle_Again\<close>)

text \<open>The ways around the loop.\<close>

definition goes_around :: "nat \<Rightarrow> counters \<Rightarrow> counters \<Rightarrow> bool" where
  "goes_around retries k k' \<longleftrightarrow>
     (k' = k\<lparr>k_overflow := k_overflow k + 1\<rparr> \<and> k_overflow k < 3)
     \<or> (k' = k\<lparr>k_provider := k_provider k + 1\<rparr> \<and> k_provider k < retries)
     \<or> (\<exists>ov. k' = k\<lparr>k_waits := k_waits k + 1, k_provider := 0, k_overflow := ov\<rparr> \<and> k_waits k < 5)
     \<or> (k' = k\<lparr>k_stream := k_stream k + 1, k_overflow := 0, k_provider := 0\<rparr> \<and> k_stream k < 5)
     \<or> (k' = k\<lparr>k_retried := True, k_overflow := 0, k_provider := 0\<rparr> \<and> \<not> k_retried k)
     \<or> (k' = k\<lparr>k_empty := k_empty k + 1, k_waits := 0, k_stream := 0, k_overflow := 0, k_provider := 0\<rparr> \<and> k_empty k < 5)
     \<or> (\<exists>w p. k' = k\<lparr>k_round := k_round k + 1, k_waits := w, k_stream := 0, k_partial := p, k_overflow := 0, k_provider := 0\<rparr>)"

lemma round_step_Again:
  fixes st :: "'s turn_state"
  assumes step: "round_step cfg env st = Again st'" and free: "\<not> cf_round_cap_checkpoint cfg"
  shows "goes_around (cf_max_provider_retries cfg) (counters_of st) (counters_of st')
    \<and> (\<forall>cap. tu_round_cap st = Some cap \<longrightarrow> tu_round st < cap)"
proof -
  obtain st1 where begin_ok: "begin_round cfg env st = Next st1"
    using step by (auto simp: round_step_def bind_flow_Again)
  note k1 = begin_round_Next [OF begin_ok free]
  obtain st2 msgs where prep: "prepare_request cfg env (fold_steered env st1) = (st2, msgs)" by (metis surj_pair)
  have k2: "counters_of st2 = counters_of st1"
    using counters_prepare [of cfg env "fold_steered env st1"] by (simp add: prep counters_steered)
  let ?K = "(counters_of st)\<lparr>k_round := tu_round st + 1\<rparr>"
  have K: "counters_of st2 = ?K" using k1 k2 by simp
  consider (unopened) "open_stream cfg env st2 = (Again st' :: ('s, 's turn_state) flow)"
    | (reading) st3 where "open_stream cfg env st2 = Next st3"
        "consume cfg env (rd_arrivals env) st3 (acc_start env) = (Again st' :: ('s, 's turn_state \<times> stream_acc) flow)"
    | (behind) st3 st4 acc where "open_stream cfg env st2 = Next st3"
        "consume cfg env (rd_arrivals env) st3 (acc_start env) = Next (st4, acc)"
        "after_stream cfg env msgs (st4, acc) = Again st'"
    using step by (auto simp: round_step_def bind_flow_Again begin_ok prep)
  then have "goes_around (cf_max_provider_retries cfg) (counters_of st) (counters_of st')"
  proof cases
    case unopened
    have "tu_overflow st2 = tu_overflow st" "tu_rate_waits st2 = tu_rate_waits st" "tu_round st2 - 1 = tu_round st"
      "tu_provider_retry st2 = tu_provider_retry st"
      using K by (simp_all add: counters_of_def)
    with open_stream_Again [OF unopened] show ?thesis unfolding K goes_around_def
      by (elim disjE conjE) (simp_all add: counters_of_def)
  next
    case reading
    have K3: "counters_of st3 = ?K\<lparr>k_overflow := 0, k_provider := 0\<rparr>"
      using K open_stream_Next [OF reading(1)] by (simp add: counters_of_def)
    show ?thesis
      using consume_Again [OF reading(2)] unfolding K3 stream_again_def goes_around_def
      by (elim disjE conjE) (simp_all add: counters_of_def)
  next
    case behind
    have "counters_of st4 = counters_of st3" using consume_Next [OF behind(2)] by (auto simp: counters_emit)
    then have K4: "counters_of st4 = ?K\<lparr>k_overflow := 0, k_provider := 0\<rparr>"
      using K open_stream_Next [OF behind(1)] by (simp add: counters_of_def)
    then have "tu_round st4 - 1 = tu_round st" "tu_empty st4 = tu_empty st" by (simp_all add: counters_of_def)
    with after_stream_Again [OF behind(3)] show ?thesis unfolding K4 goes_around_def
      by (elim disjE conjE) (simp_all add: counters_of_def)
  qed
  with k1 show ?thesis by blast
qed

text \<open>The rank of the counters, digit by digit.\<close>

definition pass_major :: "nat \<Rightarrow> counters \<Rightarrow> nat" where
  "pass_major cap k =
     (((cap - k_round k) * 6 + (5 - k_empty k)) * 2 + (if k_retried k then 0 else 1)) * 11
        + ((5 - k_waits k) + (5 - k_stream k))"

definition pass_rank :: "nat \<Rightarrow> nat \<Rightarrow> counters \<Rightarrow> nat" where
  "pass_rank cap retries k =
     pass_major cap k * (retries + 4) + ((3 - k_overflow k) + (retries - k_provider k))"

lemma digit_less: "a < b \<Longrightarrow> x < m \<Longrightarrow> a * m + x < b * m + (y :: nat)"
proof -
  assume "a < b" "x < m"
  then have "a * m + x < Suc a * m" by simp
  also have "\<dots> \<le> b * m" using \<open>a < b\<close> by (intro mult_le_mono1) simp
  finally show ?thesis by simp
qed

lemma pass_rank_major:
  "pass_major cap k' < pass_major cap k \<Longrightarrow> pass_rank cap retries k' < pass_rank cap retries k"
  unfolding pass_rank_def by (rule digit_less) simp_all

lemma pass_rank_minor:
  "pass_major cap k' = pass_major cap k \<Longrightarrow>
   (3 - k_overflow k') + (retries - k_provider k') < (3 - k_overflow k) + (retries - k_provider k) \<Longrightarrow>
   pass_rank cap retries k' < pass_rank cap retries k"
  by (simp add: pass_rank_def)

lemma goes_around_rank:
  assumes "goes_around retries k k'" "k_round k < cap"
  shows "pass_rank cap retries k' < pass_rank cap retries k"
  using assms(1)[unfolded goes_around_def]
proof (elim disjE conjE exE)
  assume "k' = k\<lparr>k_overflow := k_overflow k + 1\<rparr>" "k_overflow k < 3"
  then show ?thesis by (intro pass_rank_minor) (simp_all add: pass_major_def)
next
  assume "k' = k\<lparr>k_provider := k_provider k + 1\<rparr>" "k_provider k < retries"
  then show ?thesis by (intro pass_rank_minor) (simp_all add: pass_major_def)
next
  fix ov assume "k' = k\<lparr>k_waits := k_waits k + 1, k_provider := 0, k_overflow := ov\<rparr>" "k_waits k < 5"
  then show ?thesis by (intro pass_rank_major) (simp add: pass_major_def)
next
  assume "k' = k\<lparr>k_stream := k_stream k + 1, k_overflow := 0, k_provider := 0\<rparr>" "k_stream k < 5"
  then show ?thesis by (intro pass_rank_major) (simp add: pass_major_def)
next
  assume "k' = k\<lparr>k_retried := True, k_overflow := 0, k_provider := 0\<rparr>" "\<not> k_retried k"
  then show ?thesis by (intro pass_rank_major) (simp add: pass_major_def)
next
  assume "k' = k\<lparr>k_empty := k_empty k + 1, k_waits := 0, k_stream := 0, k_overflow := 0, k_provider := 0\<rparr>" "k_empty k < 5"
  then show ?thesis by (intro pass_rank_major) (simp add: pass_major_def)
next
  fix w p assume "k' = k\<lparr>k_round := k_round k + 1, k_waits := w, k_stream := 0, k_partial := p, k_overflow := 0, k_provider := 0\<rparr>"
  then show ?thesis using assms(2) by (intro pass_rank_major) (simp add: pass_major_def)
qed

lemma run_turn_returns:
  assumes "\<not> cf_round_cap_checkpoint cfg" "tu_round_cap st = Some cap"
    and "pass_rank cap (cf_max_provider_retries cfg) (counters_of st) < length envs"
  shows "\<exists>r st'. run_turn cfg envs st = Inr (r, st')"
  using assms(2,3)
proof (induction envs arbitrary: st)
  case (Cons env envs)
  show ?case
  proof (cases "round_step cfg env st")
    case (Again st1)
    note step = round_step_Again [OF Again assms(1)]
    then have "k_cap (counters_of st1) = k_cap (counters_of st)" by (auto simp: goes_around_def)
    then have "tu_round_cap st1 = Some cap" using Cons.prems(1) by (simp add: counters_of_def)
    moreover have "pass_rank cap (cf_max_provider_retries cfg) (counters_of st1) < pass_rank cap (cf_max_provider_retries cfg) (counters_of st)"
      using step Cons.prems(1) by (intro goes_around_rank) (simp_all add: counters_of_def)
    ultimately show ?thesis using Cons.IH [of st1] Cons.prems(2) Again by simp
  qed simp_all
qed simp

end
