(* ===== verification/Turn_History.thy ===== *)
theory Turn_History
  imports Turn_Laws
begin

text \<open>
  How a turn changes the stored history. A law of histories that survives a pushed message and a committed
  plan survives every piece of a pass that does not store the answer of the model; the pieces that do are
  treated with what they store as a premise. The locale \<open>growth_law\<close> is for laws that survive any
  appended message: they hold over whole turns. Two of them are interpreted here, that a history whose cache
  epoch has not moved extends the one the turn started with, and that no retained message is lost.
\<close>

section \<open>Messages that neither open nor answer a call\<close>

definition plain_message :: "message \<Rightarrow> bool" where
  "plain_message m \<longleftrightarrow> \<not> is_tool m \<and> (m_role m = Assistant \<longrightarrow> tool_calls m = []) \<and> tool_call_id m = None"

lemma plain_messages [simp]:
  "plain_message (synthetic_user t)" "plain_message (user_with_images t imgs)"
  "plain_message (synthetic_user_with_images t imgs)" "plain_message user_interruption"
  by (simp_all add: plain_message_def message_ctors user_interruption_def)

section \<open>How a piece of a pass leaves the history\<close>

text \<open>
  Around the loop and at an end the history obeys the law, at the end of a cancelled turn the law for
  cancelled turns.
\<close>

type_synonym history_predicate = "conversation \<Rightarrow> agent_event list \<Rightarrow> bool"

abbreviation holds_in :: "history_predicate \<Rightarrow> 's turn_state \<Rightarrow> bool" where
  "holds_in law st \<equiv> law (tu_convo st) (tu_events st)"

definition exits :: "history_predicate \<Rightarrow> history_predicate \<Rightarrow> ('s, 'a) flow \<Rightarrow> bool" where
  "exits law claw fl \<longleftrightarrow>
     (\<forall>st. fl = Again st \<longrightarrow> holds_in law st)
     \<and> (\<forall>r st. fl = Ended r st \<longrightarrow> (if r = StopCancelled then holds_in claw st else holds_in law st))"

lemma exits_mono:
  "exits law claw fl \<Longrightarrow> (\<And>c es. law c es \<Longrightarrow> law' c es) \<Longrightarrow> (\<And>c es. claw c es \<Longrightarrow> claw' c es) \<Longrightarrow> exits law' claw' fl"
  by (auto simp: exits_def split: if_splits)

lemma exits_Next [simp]: "exits law claw (Next x)"
  by (simp add: exits_def)

lemma exits_Again [simp]: "exits law claw (Again st) \<longleftrightarrow> holds_in law st"
  by (simp add: exits_def)

lemma exits_finish [simp]: "r \<noteq> StopCancelled \<Longrightarrow> exits law claw (finish_turn r st) \<longleftrightarrow> law (tu_convo st) (tu_events st @ [Turn_Complete r])"
  by (simp add: exits_def finish_turn_def)

lemma exits_replay [simp]: "exits law claw (replay st) \<longleftrightarrow> holds_in law st"
  by (simp add: exits_def replay_def)

lemma exits_finish_cancelled:
  "exits law claw (finish_cancelled cfg env st) \<longleftrightarrow>
     claw (cancelled_convo cfg (rd_internal_cancel env) (tu_convo st))
       (tu_events st @ [Cancelled_Out, Turn_Complete StopCancelled])"
  by (simp add: exits_def finish_cancelled_def finish_turn_def)

lemma exits_bind:
  "exits law claw fl \<Longrightarrow> (\<And>a. fl = Next a \<Longrightarrow> exits law claw (f a)) \<Longrightarrow> exits law claw (bind_flow fl f)"
  by (cases fl) (simp_all add: exits_def)

lemma clear_repeat_convo [simp]: "tu_convo (clear_repeat st) = tu_convo st"
  by (simp add: clear_repeat_def)

lemma clear_repeat_events [simp]: "tu_events (clear_repeat st) = tu_events st"
  by (simp add: clear_repeat_def)

lemma batch_closed_convo [simp]: "tu_convo (batch_closed batched ok whole st) = tu_convo st"
  by (simp add: batch_closed_def)

lemma batch_closed_events [simp]:
  "tu_events (batch_closed batched ok whole st) = tu_events st @ (if batched then [Batch_Completed ok whole] else [])"
  by (simp add: batch_closed_def)

lemma recovered_convo [simp]:
  "tu_convo (recovered st) = conversation_push (tu_convo st) (synthetic_user PARTIAL_STREAM_RESUME_NUDGE)"
  by (simp add: recovered_def)

lemma recovered_events [simp]: "tu_events (recovered st) = tu_events st @ [Stream_Recovery (tu_partial st + 1) False]"
  by (simp add: recovered_def)

lemma run_compaction_cases:
  obtains (kept) fs where "tu_convo (run_compaction cfg env cp trigger st) = tu_convo st"
      "tu_events (run_compaction cfg env cp trigger st) = tu_events st @ fs"
  | (planned) plan sacred snap fs where
      "tu_convo (run_compaction cfg env cp trigger st) = fst (apply_plan (tu_convo st) plan sacred)"
      "tu_events (run_compaction cfg env cp trigger st)
         = (tu_events st @ fs) @ [Compacted trigger (snd (apply_plan (tu_convo st) plan sacred)) snap]"
proof -
  let ?view = "compaction_view_of cfg trigger (tu_convo st)"
  let ?floor = "sacred_floor (c_messages (tu_convo st))"
  let ?fs = "if rd_summarizes env ?view then [Compaction_Started trigger] else []"
  have "(tu_convo (run_compaction cfg env cp trigger st) = tu_convo st
      \<and> (\<exists>fs. tu_events (run_compaction cfg env cp trigger st) = tu_events st @ fs))
    \<or> (tu_convo (run_compaction cfg env cp trigger st) = fst (apply_plan (tu_convo st) (rd_plan env ?view) ?floor)
      \<and> (\<exists>snap. tu_events (run_compaction cfg env cp trigger st)
           = (tu_events st @ ?fs) @ [Compacted trigger (snd (apply_plan (tu_convo st) (rd_plan env ?view) ?floor)) snap]))"
    unfolding run_compaction_def Let_def split_beta emit_def apply_plan_def
    by (split option.split) simp
  then show thesis using kept planned by blast
qed

lemma persisted_convo [simp]: "tu_convo (persisted acc st) = persist_partial (suppressed st) acc (tu_convo st)"
  by (simp add: persisted_def)

lemma after_batch_images:
  "after_batch steer sig imgs print st =
     after_batch steer sig [] print (if imgs = [] then st else push_msg (synthetic_user_with_images TOOL_IMAGES_NOTE imgs) st)"
  by (simp add: after_batch_def)

text \<open>The ids of the calls that arrive.\<close>

definition call_ids :: "tool_call list \<Rightarrow> string set" where
  "call_ids calls = tc_id ` set calls"

fun arrival_ids :: "arrival list \<Rightarrow> string list" where
  "arrival_ids [] = []"
| "arrival_ids (Arrived (ToolCallEvent c) _ # rest) = tc_id c # arrival_ids rest"
| "arrival_ids (_ # rest) = arrival_ids rest"

lemma absorb_calls:
  "call_ids (sa_calls (fst (absorb hidden ev hooked acc))) =
     call_ids (sa_calls acc) \<union> set (arrival_ids [Arrived ev hooked])"
  by (cases ev) (auto simp: Let_def call_ids_def)

lemma arrival_ids_Arrived: "arrival_ids (Arrived ev hooked # rest) = arrival_ids [Arrived ev hooked] @ arrival_ids rest"
  by (cases ev) simp_all

section \<open>Laws that survive pushed messages and plans\<close>

locale history_law =
  fixes law :: history_predicate and cfg :: "'s turn_cfg" and claw :: history_predicate
  assumes law_push: "law c es \<Longrightarrow> plain_message m \<Longrightarrow> law (conversation_push c m) es"
    and law_emit: "law c es \<Longrightarrow> law c (es @ fs)"
    and law_plan: "law c es \<Longrightarrow> law (fst (apply_plan c plan sacred)) (es @ [Compacted trigger (snd (apply_plan c plan sacred)) snap])"
    and law_cancel: "law c es \<Longrightarrow> claw (cancelled_convo cfg internal c) es"
    and claw_emit: "claw c es \<Longrightarrow> claw c (es @ fs)"
begin

abbreviation leaves :: "('s, 'a) flow \<Rightarrow> bool" where "leaves \<equiv> exits law claw"

lemma leaves_cancelled: "holds_in law st \<Longrightarrow> leaves (finish_cancelled cfg env st)"
  by (simp add: exits_finish_cancelled law_cancel claw_emit)

lemma leaves_wait: "holds_in law st \<Longrightarrow> leaves k \<Longrightarrow> leaves (wait_then cfg env st k)"
  by (simp add: wait_then_def leaves_cancelled)

lemma law_run_compaction: "holds_in law st \<Longrightarrow> holds_in law (run_compaction cf env cp trigger st)"
  by (cases rule: run_compaction_cases [of cf env cp trigger st]) (simp_all only: law_emit law_plan)

lemma law_internal_compaction:
  "holds_in law st \<Longrightarrow> holds_in law (compact_before_internal_continuation cf env st)"
  by (cases "should_compact cf (tu_convo st)")
    (simp_all add: compact_before_internal_continuation_def Let_def law_run_compaction)

lemma law_fold_push:
  "holds_in law st \<Longrightarrow> holds_in law (fold (\<lambda>(t, imgs). push_msg (user_with_images t imgs)) xs st)"
proof (induction xs arbitrary: st)
  case (Cons x xs)
  show ?case by (cases x) (simp add: Cons.IH law_push Cons.prems)
qed simp

lemma law_steered: "holds_in law st \<Longrightarrow> holds_in law (fold_steered env st)"
  by (simp add: fold_steered_def law_fold_push law_emit)

lemma law_emergency:
  "holds_in law st \<Longrightarrow> holds_in law (fst (emergency_compaction cf env limit left k st pm))"
  by (induction cf env limit left k st pm rule: emergency_compaction.induct)
    (simp_all add: Let_def split_beta law_run_compaction)

lemma law_prepare:
  assumes "holds_in law st"
  shows "holds_in law (fst (prepare_request cf env st))"
proof -
  let ?stored = "c_messages (tu_convo st)"
  let ?window = "effective_compact_window (cf_context_window cf) (fst (last_pressure ?stored))"
  obtain st1 msgs appended where em:
    "emergency_compaction cf env (effective_input_limit ?window (cf_max_tokens cf))
      (if list_ex (\<lambda>m. m_role m = Assistant) ?stored \<and> 0 < ?window then MAX_OVERFLOW_ATTEMPTS else 0) 0 st
      (project_request env 0 ?stored) = (st1, msgs, appended)"
    by (metis surj_pair)
  then have "holds_in law st1" using law_emergency [OF assms] by (metis fst_conv)
  then show ?thesis
    unfolding prepare_request_def Let_def em prod.case by (simp add: split_beta law_emit split: option.split bool.split)
qed

lemma leaves_begin: "holds_in law st \<Longrightarrow> leaves (begin_round cfg env st)"
  by (simp add: begin_round_def Let_def leaves_cancelled law_emit split: option.split)

lemma leaves_rate_limited: "holds_in law st \<Longrightarrow> leaves (rate_limited cfg env e st)"
  by (simp add: rate_limited_def Let_def split_beta leaves_wait law_emit split: rate_limit_decision.split)

lemma leaves_open: "holds_in law st \<Longrightarrow> leaves (open_stream cfg env st)"
  by (simp add: open_stream_def Let_def leaves_cancelled leaves_rate_limited leaves_wait law_run_compaction law_emit
      split: open_outcome.split)

lemma leaves_idle:
  assumes "holds_in law st" "law (persist_partial (suppressed st) acc (tu_convo st)) (tu_events st)"
  shows "leaves (idle_timeout cfg env acc st)"
  using assms by (simp add: idle_timeout_def Let_def leaves_wait law_push law_emit)

lemma leaves_tripped: "holds_in law st \<Longrightarrow> leaves (reasoning_tripped cfg env acc st)"
  by (simp add: reasoning_tripped_def Let_def law_emit split: option.split sum.split)

lemma leaves_stream_error:
  assumes "holds_in law st" "law (persist_partial (suppressed st) acc (tu_convo st)) (tu_events st)"
  shows "leaves (stream_error cfg env e acc st)"
  using assms by (simp add: stream_error_def Let_def law_push law_emit)

lemma leaves_stream_limited:
  assumes "holds_in law st" "law (persist_partial (suppressed st) acc (tu_convo st)) (tu_events st)"
  shows "leaves (stream_rate_limited cfg env e acc st)"
  using assms by (simp add: stream_rate_limited_def split_beta leaves_rate_limited law_emit)

lemma leaves_settle: "holds_in law st \<Longrightarrow> leaves (settle cfg env msgs acc st)"
  by (simp add: settle_def Let_def leaves_wait law_emit)

lemma leaves_no_tools: "holds_in law st \<Longrightarrow> leaves (no_tools cfg env was_cut t st)"
  by (simp add: no_tools_def stop_turn_def Let_def leaves_cancelled law_push law_internal_compaction law_emit split: option.split)

lemma leaves_fuse: "holds_in law st \<Longrightarrow> leaves (coarse_fuse sig streak st)"
  by (simp add: coarse_fuse_def Let_def law_push law_emit)

lemma leaves_after_batch:
  assumes "holds_in law st"
  shows "leaves (after_batch steer sig imgs print st)"
proof -
  have "leaves (after_batch steer sig [] print s)" if "holds_in law s" for s :: "'s turn_state"
    using that unfolding after_batch_def Let_def
    by (auto simp: law_push law_emit split: option.split prod.split tool_loop_decision.split intro!: leaves_fuse)
  then show ?thesis using assms by (subst after_batch_images) (simp add: law_push)
qed

text \<open>Reading the stream: the history stands until a failure stores what has arrived.\<close>

lemma leaves_consume:
  assumes "holds_in law st"
    and "\<And>acc' hidden. call_ids (sa_calls acc') \<subseteq> call_ids (sa_calls acc) \<union> set (arrival_ids arrs) \<Longrightarrow>
          law (persist_partial hidden acc' (tu_convo st)) (tu_events st)"
  shows "leaves (consume cfg env arrs st acc)
    \<and> (\<forall>st' acc'. consume cfg env arrs st acc = Next (st', acc') \<longrightarrow>
        call_ids (sa_calls acc') \<subseteq> call_ids (sa_calls acc) \<union> set (arrival_ids arrs))"
  using assms
proof (induction arrs st acc rule: consume_induct [where cfg = cfg])
  case (idle rest st acc)
  have "law (persist_partial (suppressed st) acc (tu_convo st)) (tu_events st)" by (rule idle(2)) simp
  then show ?case by (simp add: leaves_idle idle(1))
next
  case (tripped ev hooked rest st acc det)
  show ?case unfolding consume_tripped [OF tripped(1)] by (simp add: leaves_tripped tripped(2))
next
  case (failed e hooked rest st acc det)
  have "law (persist_partial (suppressed st) (acc\<lparr>sa_detector := det\<rparr>) (tu_convo st)) (tu_events st)"
    by (rule failed(3)) simp
  then show ?case
    unfolding consume_Error [OF failed(1)] by (simp add: leaves_stream_limited leaves_stream_error failed(2))
next
  case (plain ev hooked rest st acc det)
  let ?ab = "absorb (suppressed st) ev hooked (acc\<lparr>sa_detector := det\<rparr>)"
  have ids: "call_ids (sa_calls (fst ?ab)) = call_ids (sa_calls acc) \<union> set (arrival_ids [Arrived ev hooked])"
    by (simp add: absorb_calls del: absorb.simps)
  have all: "call_ids (sa_calls (fst ?ab)) \<union> set (arrival_ids rest)
      = call_ids (sa_calls acc) \<union> set (arrival_ids (Arrived ev hooked # rest))"
    unfolding ids arrival_ids_Arrived [of ev hooked rest] set_append Un_assoc ..
  have "holds_in law (emit (snd ?ab) st)" using plain(4) by (simp add: law_emit)
  from plain(3) [OF this, of "fst ?ab", unfolded all emit_fields] plain(5) law_emit
  show ?case unfolding consume_plain [OF plain(1,2)] by blast
qed (simp_all add: consume_Done leaves_cancelled)

lemma leaves_run_tools:
  assumes "claw (cancelled_convo cfg (rd_internal_cancel env) (tu_convo st)) (tu_events st)"
    and "\<And>batched st' es cancelled ap st1. tu_convo st' = tu_convo st \<Longrightarrow> tu_events st' = tu_events st @ es \<Longrightarrow>
          run_batch cfg env was_cut batched calls st' = (cancelled, ap, st1) \<Longrightarrow>
          (if cancelled then claw (cancelled_convo cfg (rd_internal_cancel env) (tu_convo st1)) (tu_events st1)
           else holds_in law st1)"
  shows "leaves (run_tools cfg env was_cut calls st)"
proof -
  let ?whole = "distinct_tool_call_count (cf_serde cfg) calls"
  let ?st = "if 2 \<le> ?whole then emit [Batch_Started calls] st else st"
  obtain cancelled ap st1 where run: "run_batch cfg env was_cut (2 \<le> ?whole) calls ?st = (cancelled, ap, st1)"
    by (metis surj_pair)
  have "tu_convo ?st = tu_convo st" "tu_events ?st = tu_events st @ (if 2 \<le> ?whole then [Batch_Started calls] else [])"
    by simp_all
  from assms(2) [OF this run] show ?thesis
    using assms(1)
    by (cases cancelled)
      (simp_all add: run_tools_def Let_def run exits_finish_cancelled leaves_after_batch law_emit claw_emit)
qed

lemma leaves_after_stream:
  assumes "holds_in law st"
    and "\<And>st1 st2 m t. tu_convo st1 = tu_convo st \<Longrightarrow> tu_events st1 = tu_events st \<Longrightarrow>
          respond cfg env msgs acc st1 = (st2, m, t) \<Longrightarrow>
          (if tool_calls m = [] then holds_in law st2 else leaves (run_tools cfg env (sa_cut acc) (tool_calls m) st2))"
  shows "leaves (after_stream cfg env msgs (st, acc))"
  unfolding after_stream_def fst_conv snd_conv
proof (rule exits_bind)
  fix st1 assume "settle cfg env msgs acc st = Next st1"
  then have c: "tu_convo st1 = tu_convo st" "tu_events st1 = tu_events st" by (auto dest: settle_Next)
  obtain st2 m t where r: "respond cfg env msgs acc st1 = (st2, m, t)" by (metis surj_pair)
  from assms(2) [OF c r] show "leaves (let (st1, m, text) = respond cfg env msgs acc st1
      in if tool_calls m = [] then no_tools cfg env (sa_cut acc) text st1 else run_tools cfg env (sa_cut acc) (tool_calls m) st1)"
    by (simp add: r leaves_no_tools split: if_split_asm)
qed (rule leaves_settle [OF assms(1)])

text \<open>A pass up to the response: the law holds where the stream is read, whatever is stored from it later.\<close>

lemma exits_until_stream:
  assumes "holds_in law st" and weaker: "\<And>c es. law c es \<Longrightarrow> law' c es" "\<And>c es. claw c es \<Longrightarrow> claw' c es"
    and "\<And>st3 msgs. holds_in law st3 \<Longrightarrow>
          exits law' claw' (bind_flow (consume cfg env (rd_arrivals env) st3 (acc_start env)) (after_stream cfg env msgs))"
  shows "exits law' claw' (round_step cfg env st)"
  unfolding round_step_def
proof (rule exits_bind [OF exits_mono [OF leaves_begin [OF assms(1)] weaker]])
  fix st1 assume "begin_round cfg env st = Next st1"
  then have "holds_in law st1"
    using assms(1) by (auto simp: begin_round_def Let_def split: option.split_asm if_split_asm)
  note prepared = law_prepare [OF law_steered [OF this, of env], of cfg env]
  obtain st2 msgs where prep: "prepare_request cfg env (fold_steered env st1) = (st2, msgs)" by (metis surj_pair)
  then have st2: "holds_in law st2" using prepared by (metis fst_conv)
  have "exits law' claw' (bind_flow (open_stream cfg env st2)
      (\<lambda>st3. bind_flow (consume cfg env (rd_arrivals env) st3 (acc_start env)) (after_stream cfg env msgs)))"
  proof (rule exits_bind [OF exits_mono [OF leaves_open [OF st2] weaker]])
    fix st3 assume "open_stream cfg env st2 = Next st3"
    then have "holds_in law st3" using st2 by (auto dest: open_stream_Next)
    then show "exits law' claw' (bind_flow (consume cfg env (rd_arrivals env) st3 (acc_start env)) (after_stream cfg env msgs))"
      by (rule assms(4))
  qed
  then show "exits law' claw' (let (st2, msgs) = prepare_request cfg env (fold_steered env st1)
      in bind_flow (open_stream cfg env st2)
           (\<lambda>st3. bind_flow (consume cfg env (rd_arrivals env) st3 (acc_start env)) (after_stream cfg env msgs)))"
    by (simp add: prep)
qed

end

section \<open>Laws that survive any appended message\<close>

definition extends :: "conversation \<Rightarrow> conversation \<Rightarrow> bool" where
  "extends c c' \<longleftrightarrow> prefix (c_messages c) (c_messages c') \<and> cache_epoch c' = cache_epoch c"

lemma extends_refl [simp]: "extends c c"
  by (simp add: extends_def)

lemma extends_trans: "extends a b \<Longrightarrow> extends b c \<Longrightarrow> extends a c"
  by (auto simp: extends_def intro: prefix_order.trans)

lemma extends_push [simp]: "extends c (conversation_push c m)"
  by (simp add: extends_def conversation_push_def)

lemma extends_backfill [simp]: "extends c (backfill_missing_tool_results content c)"
  by (simp add: extends_def backfill_missing_tool_results_def Let_def)

lemma extends_persist: "extends c (persist_partial hidden acc c)"
  unfolding persist_partial_def Let_def backfill_interrupted_tool_results_def
  by (auto intro: extends_trans [OF extends_push extends_backfill])

lemma respond_convo: "respond cfg env msgs acc st = (st', m, t) \<Longrightarrow> tu_convo st' = conversation_push (tu_convo st) m"
  by (auto simp: respond_def Let_def)

lemma extends_apply_slot: "extends (ap_convo st) (ap_convo (apply_slot sd mws limit batched ps st))"
  by (auto simp: apply_slot_def Let_def split_beta intro: extends_trans [OF extends_push extends_push] split: option.split)

lemma extends_apply_batch: "extends c (ap_convo (apply_batch sd mws limit guarded batched pint plans slots c w))"
proof -
  have "extends (ap_convo st) (ap_convo (fold (apply_slot sd mws limit batched) xs st))" for xs and st :: "'a applying"
    by (induction xs arbitrary: st) (auto intro: extends_trans [OF extends_apply_slot])
  then show ?thesis by (metis (no_types, lifting) apply_batch_def apply_start_def applying.select_convs(1))
qed

lemma extends_run_batch:
  "run_batch cfg env was_cut batched calls st = (cancelled, ap, st1) \<Longrightarrow>
   extends (tu_convo st) (tu_convo st1) \<and> (\<exists>es. tu_events st1 = tu_events st @ es)"
  by (auto simp: run_batch_def Let_def split_beta extends_apply_batch)

lemma respond_events: "respond cfg env msgs acc st = (st', m, t) \<Longrightarrow> \<exists>es. tu_events st' = tu_events st @ es"
  by (auto simp: respond_def Let_def)

locale growth_law = history_law law cfg claw for law and cfg :: "'s turn_cfg" and claw +
  assumes law_extends: "law c es \<Longrightarrow> extends c c' \<Longrightarrow> law c' es"
begin

lemma law_grows: "holds_in law st \<Longrightarrow> extends (tu_convo st) (tu_convo st') \<Longrightarrow> tu_events st' = tu_events st @ es \<Longrightarrow> holds_in law st'"
  by (simp add: law_extends law_emit)

lemma leaves_batch:
  assumes "holds_in law st"
  shows "leaves (run_tools cfg env was_cut calls st)"
proof (rule leaves_run_tools)
  fix batched st' es cancelled ap st1
  assume st': "tu_convo st' = tu_convo st" "tu_events st' = tu_events st @ es"
    and run: "run_batch cfg env was_cut batched calls st' = (cancelled, ap, st1)"
  from st' have "holds_in law st'" using assms by (simp add: law_emit)
  then have "holds_in law st1" using extends_run_batch [OF run] law_grows by blast
  then show "if cancelled then claw (cancelled_convo cfg (rd_internal_cancel env) (tu_convo st1)) (tu_events st1)
      else holds_in law st1"
    by (simp add: law_cancel)
qed (simp add: law_cancel assms)

lemma leaves_round:
  assumes "holds_in law st"
  shows "leaves (round_step cfg env st)"
proof (rule exits_until_stream [OF assms])
  fix st3 :: "'s turn_state" and msgs assume st3: "holds_in law st3"
  have read: "leaves (consume cfg env (rd_arrivals env) st3 (acc_start env))"
    using leaves_consume [of st3 "acc_start env" "rd_arrivals env" env] st3 law_extends [OF st3 extends_persist] by blast
  show "leaves (bind_flow (consume cfg env (rd_arrivals env) st3 (acc_start env)) (after_stream cfg env msgs))"
  proof (rule exits_bind)
    fix sa assume sa: "consume cfg env (rd_arrivals env) st3 (acc_start env) = Next sa"
    obtain st4 acc where sa_eq: "sa = (st4, acc)" by fastforce
    obtain evs where "st4 = emit evs st3" using consume_Next sa sa_eq by blast
    then have "holds_in law st4" using st3 by (simp add: law_emit)
    then show "leaves (after_stream cfg env msgs sa)"
      unfolding sa_eq
    proof (rule leaves_after_stream)
      fix st5 st6 m t
      assume st5: "tu_convo st5 = tu_convo st4" "tu_events st5 = tu_events st4"
        and r: "respond cfg env msgs acc st5 = (st6, m, t)"
      have "holds_in law st5" using \<open>holds_in law st4\<close> st5 by simp
      then have "holds_in law st6"
        using respond_events [OF r] law_grows [of st5 st6] by (auto simp: respond_convo [OF r])
      then show "if tool_calls m = [] then holds_in law st6 else leaves (run_tools cfg env (sa_cut acc) (tool_calls m) st6)"
        by (simp add: leaves_batch)
    qed
  qed (rule read)
qed

text \<open>A whole turn.\<close>

lemma law_turn:
  assumes "holds_in law st"
  shows "run_turn cfg envs st = Inl st' \<Longrightarrow> holds_in law st'"
    and "run_turn cfg envs st = Inr (r, st') \<Longrightarrow> if r = StopCancelled then holds_in claw st' else holds_in law st'"
proof -
  have "(run_turn cfg envs st = Inl st' \<longrightarrow> holds_in law st')
    \<and> (run_turn cfg envs st = Inr (r, st') \<longrightarrow> (if r = StopCancelled then holds_in claw st' else holds_in law st'))"
    using assms
  proof (induction envs arbitrary: st)
    case (Cons env envs)
    show ?case using leaves_round [OF Cons.prems, of env] Cons.IH
      by (cases "round_step cfg env st") (auto simp: exits_def)
  qed auto
  then show "run_turn cfg envs st = Inl st' \<Longrightarrow> holds_in law st'"
    and "run_turn cfg envs st = Inr (r, st') \<Longrightarrow> if r = StopCancelled then holds_in claw st' else holds_in law st'"
    by blast+
qed

end

section \<open>Growth until the first compaction\<close>

text \<open>A turn reports every plan it commits; until then its history has only grown.\<close>

fun commits :: "agent_event \<Rightarrow> bool" where
  "commits (Compacted _ rep _) \<longleftrightarrow> committed rep"
| "commits _ \<longleftrightarrow> False"

definition compacted_in :: "agent_event list \<Rightarrow> bool" where
  "compacted_in es \<longleftrightarrow> list_ex commits es"

definition grown :: "conversation \<Rightarrow> conversation \<Rightarrow> agent_event list \<Rightarrow> bool" where
  "grown c0 c es \<longleftrightarrow> compacted_in es \<or> extends c0 c"

text \<open>What a cancelled turn leaves: what it had reached, with the open calls answered, or what it started from.\<close>

definition rolled_back :: "'s turn_cfg \<Rightarrow> conversation \<Rightarrow> conversation \<Rightarrow> agent_event list \<Rightarrow> bool" where
  "rolled_back cfg c0 c es \<longleftrightarrow>
     compacted_in es \<or> length (c_messages c0) < cf_rollback_len cfg \<or>
     (let start = take (cf_rollback_len cfg) (c_messages c0)
      in if cf_keep_interrupted cfg then prefix start (c_messages c)
         else c_messages c = start \<or> c_messages c = start @ [user_interruption])"

lemma take_extends: "extends c0 c \<Longrightarrow> n \<le> length (c_messages c0) \<Longrightarrow> take n (c_messages c) = take n (c_messages c0)"
  by (auto simp: extends_def elim!: prefixE)

lemma rolled_back_cancelled:
  assumes "grown c0 c es"
  shows "rolled_back cfg c0 (cancelled_convo cfg internal c) es"
proof (cases "compacted_in es \<or> length (c_messages c0) < cf_rollback_len cfg")
  case False
  then have start: "take (cf_rollback_len cfg) (c_messages c) = take (cf_rollback_len cfg) (c_messages c0)"
    using assms by (intro take_extends) (auto simp: grown_def)
  have kept: "prefix (take (cf_rollback_len cfg) (c_messages c)) (c_messages c)" by (rule take_is_prefix)
  have "prefix (c_messages c) (c_messages (backfill_cancelled_tool_results c))"
    by (simp add: backfill_cancelled_tool_results_def backfill_appends)
  with kept have "prefix (take (cf_rollback_len cfg) (c_messages c)) (c_messages (backfill_cancelled_tool_results c))"
    by (rule prefix_order.trans)
  then show ?thesis
    by (auto simp: rolled_back_def cancelled_convo_def Let_def conversation_push_def start [symmetric])
qed (auto simp: rolled_back_def)

interpretation growth: growth_law "grown c0" cfg "rolled_back cfg c0" for c0 and cfg :: "'s turn_cfg"
proof unfold_locales
  show "grown c0 (fst (apply_plan c plan sacred)) (es @ [Compacted trigger (snd (apply_plan c plan sacred)) snap])"
    if "grown c0 c es" for c es plan sacred trigger snap
    using that apply_plan_refused [of c plan sacred]
    by (cases "committed (snd (apply_plan c plan sacred))") (auto simp: grown_def compacted_in_def)
next
  show "rolled_back cfg c0 (cancelled_convo cfg internal c) es" if "grown c0 c es" for c es internal
    using that by (rule rolled_back_cancelled)
  show "rolled_back cfg c0 c (es @ fs)" if "rolled_back cfg c0 c es" for c es fs
    using that unfolding rolled_back_def compacted_in_def list_ex_append by blast
qed (auto simp: grown_def compacted_in_def intro: extends_trans extends_trans [OF _ extends_push])

section \<open>Retained messages\<close>

text \<open>The messages a compaction has to retain survive every turn that is not undone.\<close>

definition retains :: "conversation \<Rightarrow> conversation \<Rightarrow> bool" where
  "retains c0 c \<longleftrightarrow> prefix (pinned (c_messages c0)) (pinned (c_messages c))"

lemma pinned_prefix: "prefix xs ys \<Longrightarrow> prefix (pinned xs) (pinned ys)"
  by (auto elim!: prefixE)

lemma retains_extends: "retains c0 c \<Longrightarrow> extends c c' \<Longrightarrow> retains c0 c'"
  unfolding retains_def extends_def by (blast intro: prefix_order.trans pinned_prefix)

interpretation retention: growth_law "\<lambda>c es. retains c0 c" cfg "\<lambda>c es. True" for c0 and cfg :: "'s turn_cfg"
proof unfold_locales
  show "retains c0 (conversation_push c m)" if "retains c0 c" for c m
    using that extends_push by (rule retains_extends)
  show "retains c0 (fst (apply_plan c plan sacred))" if "retains c0 c" for c plan sacred
    using that by (simp add: retains_def pinned_apply_plan)
  show "retains c0 c'" if "retains c0 c" "extends c c'" for c c'
    using that by (rule retains_extends)
qed simp_all

end
