(* ===== verification/Turn_Pairing.thy ===== *)
theory Turn_Pairing
  imports Turn_History
begin

text \<open>
  The stored history over a turn. A provider refuses a history in which a tool call is not answered by
  exactly one result right behind its message; every way the loop changes the history keeps it accepted,
  compaction, steering, recovery from a broken stream and a cancel that keeps the work included. What the
  code relies on is stated as conditions on the environment: hooks and middleware keep the ids they
  are handed, a middleware does not block after an execution, phase 2 fills its slots (which theory
  \<open>Batch_Exec\<close> proves of it), and a provider does not reuse the id of an earlier call.
\<close>

section \<open>Histories and the ids they know\<close>

definition known_ids :: "message list \<Rightarrow> string set" where
  "known_ids ms = result_ids ms \<union> set (assistant_call_ids ms)"

definition sound_history :: "string set \<Rightarrow> conversation \<Rightarrow> bool" where
  "sound_history K c \<longleftrightarrow> well_paired (c_messages c) \<and> known_ids (c_messages c) \<subseteq> K"

lemma known_ids_append [simp]: "known_ids (xs @ ys) = known_ids xs \<union> known_ids ys"
  by (auto simp: known_ids_def)

lemma known_ids_Nil [simp]: "known_ids [] = {}"
  by (simp add: known_ids_def assistant_call_ids_def)

lemma result_ids_image: "Some ` result_ids ms = tool_call_id ` set ms - {None}"
  by (auto simp: result_ids_iff image_iff) (metis imageI option.exhaust result_ids_iff)

lemma known_ids_Cons:
  "known_ids (m # ms) =
     set_option (tool_call_id m) \<union> (if m_role m = Assistant then tc_id ` set (tool_calls m) else {}) \<union> known_ids ms"
  by (auto simp: known_ids_def)

lemma known_ids_plain [simp]: "plain_message m \<Longrightarrow> known_ids [m] = {}"
  by (auto simp: plain_message_def known_ids_Cons)

lemma known_ids_eq: "known_ids ms = (\<Union>m\<in>set ms. known_ids [m])"
  by (induction ms) (auto simp: known_ids_Cons)

lemma known_ids_mono: "set xs \<subseteq> set ys \<Longrightarrow> known_ids xs \<subseteq> known_ids ys"
  by (subst (1 2) known_ids_eq) blast

lemma known_ids_map:
  "(\<And>m. m \<in> set ms \<Longrightarrow> m_role (f m) = m_role m \<and> tool_calls (f m) = tool_calls m \<and> tool_call_id (f m) = tool_call_id m) \<Longrightarrow>
   known_ids (map f ms) = known_ids ms"
  by (induction ms) (simp_all add: known_ids_Cons)

lemma well_paired_push: "plain_message m \<Longrightarrow> well_paired (ms @ [m]) = well_paired ms"
  by (subst well_paired_append) (auto simp: plain_message_def pairing_simps)

lemma sound_push: "plain_message m \<Longrightarrow> sound_history K (conversation_push c m) = sound_history K c"
  by (simp add: sound_history_def conversation_push_def well_paired_push)

lemma sound_mono: "sound_history K c \<Longrightarrow> K \<subseteq> L \<Longrightarrow> sound_history L c"
  by (auto simp: sound_history_def)

section \<open>Compaction\<close>

lemma known_ids_repair: "known_ids (repair_pairing ms) \<subseteq> known_ids ms"
proof (induction ms rule: repair_pairing.induct)
  case (2 m ms)
  show ?case
  proof (cases "opens_batch m")
    case True
    let ?p = "map tc_id (tool_calls m)"
    let ?t = "take_results ?p {} ms"
    have kept: "known_ids (fst ?t) \<subseteq> known_ids ms"
      using take_results_subseq [of ?p "{}" ms] set_takeWhileD [of _ is_tool ms]
      by (intro known_ids_mono) (blast dest: subseq_set)
    have ids: "result_ids (cancel_unresolved ?p (fst (snd ?t))) \<subseteq> set ?p"
      using cancel_unresolved_ids [of ?p "fst (snd ?t)"] by (auto simp: result_ids_iff)
    have added: "known_ids (cancel_unresolved ?p (fst (snd ?t))) \<subseteq> set ?p"
      using ids assistant_call_ids_tools [of "cancel_unresolved ?p (fst (snd ?t))"] cancel_unresolved_tools
      by (auto simp: known_ids_def)
    have "known_ids (repair_pairing (dropWhile is_tool ms)) \<subseteq> known_ids ms"
      using "2.IH"(3) [of ?p ?t] True known_ids_mono [of "dropWhile is_tool ms" ms] set_dropWhileD [of _ is_tool ms]
      by (auto simp: take_results_rest)
    with True kept added show ?thesis by (simp add: pairing_simps) (simp add: known_ids_Cons, blast)
  next
    case False
    then show ?thesis using 2 by (auto simp: pairing_simps known_ids_Cons)
  qed
qed simp

lemma known_ids_bare: "known_ids (map bare ms) = known_ids ms"
  by (simp add: known_ids_map)

lemma known_ids_relieve: "known_ids (relieve_pressure b a ms) = known_ids ms"
  by (metis relieve_pressure_bare known_ids_bare)

lemma known_ids_survivors:
  assumes "b \<le> length msgs"
  shows "known_ids (survivors flr rs msgs a b) \<subseteq> known_ids msgs"
proof -
  have "known_ids [rewritten flr rs i (msgs ! i)] = known_ids [msgs ! i]" for i by (simp add: known_ids_Cons)
  then have all: "known_ids (survivors flr rs msgs a b) = (\<Union>i\<in>{a..<b}. known_ids [msgs ! i])"
    by (subst known_ids_eq) (simp add: survivors_def)
  have "known_ids [msgs ! i] \<subseteq> known_ids msgs" if "i \<in> {a..<b}" for i
    using that assms by (intro known_ids_mono) simp
  then show ?thesis unfolding all by (rule UN_least)
qed

lemma known_ids_candidate: "known_ids (build_candidate plan msgs sacred) \<subseteq> known_ids msgs"
proof -
  obtain a b where ab: "clamp_drain plan (min sacred (length msgs)) (length msgs) = (a, b)" by fastforce
  then have "b \<le> length msgs" "a \<le> b" using clamp_drain_bounds [OF ab] by simp_all
  moreover have "known_ids (summary_messages plan) = {}" "known_ids (resume_messages plan) = {}"
    by (simp_all add: summary_messages_def resume_messages_def split: option.splits)
  moreover have "known_ids (filter is_retained (drop a (take b msgs))) \<subseteq> known_ids msgs"
    by (intro known_ids_mono) (auto dest: in_set_dropD in_set_takeD)
  ultimately show ?thesis
    unfolding build_candidate_eq [OF ab]
    by (intro subset_trans [OF known_ids_repair]) (simp add: known_ids_survivors)
qed

lemma sound_apply_plan: "sound_history K c \<Longrightarrow> sound_history K (fst (apply_plan c plan sacred))"
  using apply_plan_well_paired [of c plan sacred] known_ids_candidate [of plan "c_messages c" sacred]
  by (cases "committed (snd (apply_plan c plan sacred))")
    (auto simp: sound_history_def apply_plan_committed apply_plan_refused known_ids_relieve)

section \<open>Backfill\<close>

text \<open>Whatever it says, the backfill closes the last batch of a history in which it alone is open.\<close>

lemma backfill_pairs:
  assumes c: "c_messages c = ms @ m # run" "well_paired ms" "m_role m = Assistant" "tool_call_id m = None"
    and run: "\<forall>x\<in>set run. is_tool x" "distinct (map tool_call_id run)"
      "set (map tool_call_id run) \<subseteq> Some ` tc_id ` set (tool_calls m)"
    and fresh: "result_ids ms \<inter> tc_id ` set (tool_calls m) = {}"
  shows "well_paired (c_messages (backfill_missing_tool_results content c))"
proof -
  let ?p = "map tc_id (tool_calls m)" and ?S = "result_ids (c_messages c)"
  let ?new = "collect_missing ?S {} ?p"
  have calls: "assistant_call_ids (c_messages c) = assistant_call_ids ms @ ?p"
    using c(1,3) assistant_call_ids_tools [OF run(1)] by (simp add: assistant_call_ids_def)
  have "set (assistant_call_ids ms) \<subseteq> ?S" using well_paired_answered [OF c(2)] c(1) by auto
  have filled: "c_messages (backfill_missing_tool_results content c)
      = ms @ m # run @ map (\<lambda>i. tool_result i content True) ?new"
    unfolding backfill_appends calls collect_missing_append [OF \<open>set (assistant_call_ids ms) \<subseteq> ?S\<close>] by (simp add: c(1))
  let ?rs = "run @ map (\<lambda>i. tool_result i content True) ?new"
  have tools: "\<forall>x\<in>set ?rs. is_tool x" using run(1) by (auto simp: tool_result_def)
  show ?thesis
  proof (cases "tool_calls m = []")
    case True
    then have "run = []" using run(3) by (cases run) simp_all
    with True filled c show ?thesis by (simp add: well_paired_append pairing_simps)
  next
    case False
    then have opens: "opens_batch m" using c(3) by simp
    have new: "set ?new = set ?p - result_ids run" using fresh c(1,4) by (auto simp: collect_missing_set)
    have run_ids: "set (map tool_call_id run) = Some ` result_ids run"
      using run(3) by (auto simp: result_ids_image)
    have "Some ` result_ids run \<subseteq> Some ` tc_id ` set (tool_calls m)"
      using run(3) unfolding result_ids_image by auto
    then have sub: "result_ids run \<subseteq> set ?p" by (simp add: inj_image_subset_iff)
    have ids: "map tool_call_id ?rs = map tool_call_id run @ map Some ?new"
      by (simp add: tool_result_def)
    have added: "set (map Some ?new) = Some ` (set ?p - result_ids run)" by (simp only: set_map new)
    have "distinct (map Some ?new)"
      using collect_missing_distinct [of ?S "{}" ?p] by (simp add: distinct_map)
    then have "distinct (map tool_call_id ?rs)"
      unfolding ids distinct_append run_ids added using run(2) by auto
    moreover have "set (map tool_call_id ?rs) = Some ` set ?p"
      unfolding ids set_append run_ids added using sub by auto
    ultimately have "answers ?rs m" unfolding answers_def by (simp only: set_map simp_thms)
    moreover have "takeWhile is_tool ?rs = ?rs" "dropWhile is_tool ?rs = []"
      using tools by (simp_all only: takeWhile_eq_all_conv dropWhile_eq_Nil_conv)
    ultimately have "well_paired (m # ?rs)"
      by (simp only: well_paired_batch [OF opens] well_paired.simps(1) simp_thms)
    then show ?thesis using filled c(2) opens well_paired_append [of "m # ?rs" ms] by simp
  qed
qed

lemma known_ids_backfill: "known_ids (c_messages (backfill_missing_tool_results content c)) = known_ids (c_messages c)"
proof -
  have "known_ids (map (\<lambda>i. tool_result i content True) xs) = set xs" for xs
    by (induction xs) (auto simp: known_ids_Cons tool_result_def)
  then show ?thesis
    unfolding backfill_appends known_ids_append by (auto simp: collect_missing_set known_ids_def)
qed

lemma backfill_noop:
  assumes "well_paired (c_messages c)"
  shows "c_messages (backfill_missing_tool_results content c) = c_messages c"
proof -
  have "set (collect_missing (result_ids (c_messages c)) {} (assistant_call_ids (c_messages c))) = {}"
    using well_paired_answered [OF assms] by (auto simp: collect_missing_set)
  then show ?thesis by (simp add: backfill_appends)
qed

section \<open>The environment\<close>

text \<open>
  The conditions on a pass: the response hook keeps the calls of the message it is handed, and phase 2
  fills its slots, all of them when the turn is not cancelled.
\<close>

definition keeps_calls :: "(message \<Rightarrow> message) \<Rightarrow> bool" where
  "keeps_calls f \<longleftrightarrow>
     (\<forall>m. m_role (f m) = m_role m \<and> tool_calls (f m) = tool_calls m \<and> tool_call_id (f m) = tool_call_id m)"

definition executes_ok :: "(receipt list \<Rightarrow> call_plan list \<Rightarrow> executed option list \<times> bool) \<Rightarrow> bool" where
  "executes_ok f \<longleftrightarrow>
     (\<forall>rcs plans. list_all2 slot_ok plans (fst (f rcs plans))
        \<and> (\<not> snd (f rcs plans) \<longrightarrow> list_all2 slot_full plans (fst (f rcs plans))))"

definition env_ok :: "round_env \<Rightarrow> bool" where
  "env_ok env \<longleftrightarrow> keeps_calls (rd_response env) \<and> executes_ok (rd_execute env)"

definition mws_ok :: "'s middleware list \<Rightarrow> bool" where
  "mws_ok mws \<longleftrightarrow> (\<forall>mw\<in>set mws. keeps_ids mw \<and> never_blocks mw)"

text \<open>A provider does not reuse the id of an earlier call.\<close>

fun fresh_rounds :: "string set \<Rightarrow> round_env list \<Rightarrow> bool" where
  "fresh_rounds K [] \<longleftrightarrow> True"
| "fresh_rounds K (env # envs) \<longleftrightarrow>
     set (arrival_ids (rd_arrivals env)) \<inter> K = {} \<and> fresh_rounds (K \<union> set (arrival_ids (rd_arrivals env))) envs"

section \<open>Closing what is open\<close>

text \<open>What a cancel that keeps the work leaves, when at most the last batch is open.\<close>

definition closable :: "string set \<Rightarrow> conversation \<Rightarrow> bool" where
  "closable K c \<longleftrightarrow> known_ids (c_messages c) \<subseteq> K
     \<and> (\<forall>content. well_paired (c_messages (backfill_missing_tool_results content c)))"

lemma sound_closable: "sound_history K c \<Longrightarrow> closable K c"
  by (simp add: closable_def sound_history_def backfill_noop)

lemma well_paired_take_idle:
  assumes "well_paired ms" "\<not> did_work n ms"
  shows "well_paired (take n ms)"
proof (cases "drop n ms")
  case (Cons m rest)
  then have "\<not> is_tool m" using assms(2) by (simp add: did_work_def)
  then show ?thesis
    using assms(1) well_paired_append [of "m # rest" "take n ms"] append_take_drop_id [of n ms] Cons by simp
qed (use assms(1) in \<open>metis append_Nil2 append_take_drop_id\<close>)

lemma sound_cancelled:
  assumes "closable K c" "cf_keep_interrupted cfg" "did_work (cf_rollback_len cfg) (c_messages c) \<or> sound_history K c"
  shows "sound_history K (cancelled_convo cfg internal c)"
proof (cases "did_work (cf_rollback_len cfg) (c_messages c)")
  case True
  then have "sound_history K (backfill_cancelled_tool_results c)"
    using assms(1) by (simp add: sound_history_def closable_def backfill_cancelled_tool_results_def known_ids_backfill)
  then show ?thesis using True assms(2) by (simp add: cancelled_convo_def Let_def sound_push)
next
  case False
  then have "sound_history K c" using assms(3) by simp
  then have "sound_history K (c\<lparr>c_messages := take (cf_rollback_len cfg) (c_messages c)\<rparr>)"
    using False well_paired_take_idle known_ids_mono [OF set_take_subset, of "cf_rollback_len cfg" "c_messages c"]
    by (auto simp: sound_history_def)
  then show ?thesis using False by (simp add: cancelled_convo_def Let_def sound_push)
qed

lemma first_by_id_ids: "tc_id ` set (first_by_id seen cs) \<subseteq> tc_id ` set cs"
  by (induction seen cs rule: first_by_id.induct) auto

text \<open>The message of a broken stream: its calls are closed as soon as it is stored.\<close>

lemma sound_persist:
  assumes "sound_history K c" "call_ids (sa_calls acc) \<inter> K = {}"
  shows "sound_history (K \<union> call_ids (sa_calls acc)) (persist_partial hidden acc c)"
proof (cases "sa_text acc = [] \<and> strip_reasoning_filler (sa_reasoning acc) = [] \<and> sa_calls acc = []")
  case True
  then show ?thesis using assms(1) by (auto simp: persist_partial_def Let_def intro: sound_mono)
next
  case False
  obtain m where m: "persist_partial hidden acc c = backfill_interrupted_tool_results (conversation_push c m)"
      "m_role m = Assistant" "tool_call_id m = None" "tool_calls m = first_by_id {} (sa_calls acc)"
    using False by (simp add: persist_partial_def Let_def message_assistant_def split: if_split_asm)
  have ids: "tc_id ` set (tool_calls m) \<subseteq> call_ids (sa_calls acc)"
    using first_by_id_ids [of "{}" "sa_calls acc"] by (simp add: m(4) call_ids_def)
  have "result_ids (c_messages c) \<inter> tc_id ` set (tool_calls m) = {}"
    using assms ids by (auto simp: sound_history_def known_ids_def)
  then have "well_paired (c_messages (persist_partial hidden acc c))"
    using assms(1) m(2,3) unfolding m(1) backfill_interrupted_tool_results_def
    by (intro backfill_pairs [of _ "c_messages c" m "[]"]) (simp_all add: conversation_push_def sound_history_def)
  moreover have "known_ids (c_messages (persist_partial hidden acc c)) \<subseteq> K \<union> call_ids (sa_calls acc)"
    using assms(1) ids m(2,3) unfolding m(1) backfill_interrupted_tool_results_def known_ids_backfill
    by (auto simp: conversation_push_def sound_history_def known_ids_Cons)
  ultimately show ?thesis by (simp add: sound_history_def)
qed

text \<open>The batch: the message that opened it stands last, the history before it is sound.\<close>

lemma run_batch_cases:
  assumes "run_batch cfg env was_cut batched calls st = (cancelled, ap, st1)"
  obtains plans slots pint w where
    "plans = cl_plans (classify (cf_serde cfg) (cf_mws cfg) (snapshot_get (cf_tools cfg)) was_cut (tu_world st) calls)"
    "rd_execute env (if tu_protect st then tu_confirmed st else []) plans = (slots, cancelled)"
    "ap = apply_batch (cf_serde cfg) (cf_mws cfg) (cf_max_tool_result_bytes cfg) (tu_guard st \<noteq> None) batched pint plans slots
       (tu_convo st) w"
    "tu_convo st1 = ap_convo ap"
proof -
  let ?cl = "classify (cf_serde cfg) (cf_mws cfg) (snapshot_get (cf_tools cfg)) was_cut (tu_world st) calls"
  obtain slots c where "rd_execute env (if tu_protect st then tu_confirmed st else []) (cl_plans ?cl) = (slots, c)"
    by fastforce
  then show thesis
    using assms by (intro that [of "cl_plans ?cl" slots "cl_intervention ?cl" "cl_world ?cl"]) (auto simp: run_batch_def Let_def)
qed

lemma tools_known: "\<forall>r\<in>set rs. is_tool r \<Longrightarrow> map tool_call_id rs = map Some ids \<Longrightarrow> known_ids rs = set ids"
proof (induction rs arbitrary: ids)
  case (Cons r rs)
  then obtain i ids' where "ids = i # ids'" by (cases ids) auto
  with Cons show ?case by (auto simp: known_ids_Cons)
qed simp

lemma mws_split: "mws_ok mws \<Longrightarrow> (\<forall>mw\<in>set mws. keeps_ids mw) \<and> (\<forall>mw\<in>set mws. never_blocks mw)"
  by (auto simp: mws_ok_def)

text \<open>
  A batch that has been started leaves either a sound history or, after a cancel, one whose last batch is
  open and will be closed.
\<close>

lemma batch_history:
  assumes mws: "mws_ok (cf_mws cfg)" and ok: "env_ok env"
    and c: "c_messages (tu_convo st) = ms @ [m]" "well_paired ms" "known_ids (ms @ [m]) \<subseteq> K"
    and m: "opens_batch m" "tool_call_id m = None" "result_ids ms \<inter> tc_id ` set (tool_calls m) = {}"
    and run: "run_batch cfg env was_cut batched (tool_calls m) st = (cancelled, ap, st1)"
  shows "closable K (tu_convo st1) \<and> prefix (ms @ [m]) (c_messages (tu_convo st1))
    \<and> (\<not> cancelled \<longrightarrow> sound_history K (tu_convo st1))"
proof -
  obtain plans slots pint w where
    plans: "plans = cl_plans (classify (cf_serde cfg) (cf_mws cfg) (snapshot_get (cf_tools cfg)) was_cut (tu_world st) (tool_calls m))"
    and exec: "rd_execute env (if tu_protect st then tu_confirmed st else []) plans = (slots, cancelled)"
    and ap: "ap = apply_batch (cf_serde cfg) (cf_mws cfg) (cf_max_tool_result_bytes cfg) (tu_guard st \<noteq> None) batched pint
       plans slots (tu_convo st) w"
    and st1: "tu_convo st1 = ap_convo ap"
    using run by (rule run_batch_cases)
  note mw = mws_split [OF mws, THEN conjunct1] mws_split [OF mws, THEN conjunct2]
  have slots: "list_all2 slot_ok plans slots" "\<not> cancelled \<Longrightarrow> list_all2 slot_full plans slots"
    using ok exec unfolding env_ok_def executes_ok_def by (metis fst_conv snd_conv)+
  obtain rs where rs: "c_messages (tu_convo st1) = ms @ m # rs" "\<forall>r\<in>set rs. is_tool r"
      "map tool_call_id rs = map Some (slot_ids plans slots)"
    using apply_batch_messages [OF mw slots(1), of "cf_serde cfg" "cf_max_tool_result_bytes cfg" "tu_guard st \<noteq> None" batched pint
        "tu_convo st" w] by (auto simp: st1 ap c(1))
  have ids: "plan_ids plans = collect_missing {} {} (map tc_id (tool_calls m))"
    using classify_ids(1) [OF mw(1)] plans by simp
  have sub: "subseq (slot_ids plans slots) (plan_ids plans)"
    using slots(1) by (intro slot_ids_subseq) (rule list_all2_lengthD)
  have dist: "distinct (map tool_call_id rs)"
    unfolding rs(3) using subseq_distinct_list [OF sub] collect_missing_distinct ids by (simp add: distinct_map)
  have slot_set: "set (slot_ids plans slots) \<subseteq> tc_id ` set (tool_calls m)"
    using subseq_set [OF sub] by (simp add: ids collect_missing_set)
  then have sub_ids: "set (map tool_call_id rs) \<subseteq> Some ` tc_id ` set (tool_calls m)"
    unfolding rs(3) by (auto simp: image_image)
  have known: "known_ids (c_messages (tu_convo st1)) \<subseteq> K"
    using c(3) slot_set m(1) tools_known [OF rs(2,3)] by (auto simp: rs(1) known_ids_Cons)
  have "closable K (tu_convo st1)"
    unfolding closable_def using known backfill_pairs [OF rs(1) c(2) conjunct1 [OF m(1)] m(2) rs(2) dist sub_ids m(3)] by simp
  moreover have "sound_history K (tu_convo st1)" if "\<not> cancelled"
    using batch_keeps_pairing [OF mw c(1,2) m(1) plans slots(2) [OF that]] known by (simp add: sound_history_def st1 ap)
  ultimately show ?thesis by (simp add: rs(1))
qed

lemma did_work_prefix:
  assumes "prefix (ms @ [m]) ms'" "n \<le> length ms" "m_role m = Assistant"
  shows "did_work n ms'"
proof -
  obtain rest where "ms' = ms @ m # rest" using assms(1) by (auto elim: prefixE)
  then show ?thesis using assms(2,3) by (simp add: did_work_def)
qed

section \<open>A whole turn\<close>

definition sound :: "conversation \<Rightarrow> string set \<Rightarrow> conversation \<Rightarrow> agent_event list \<Rightarrow> bool" where
  "sound c0 K c es \<longleftrightarrow> sound_history K c \<and> grown c0 c es"

text \<open>
  At the end of a cancelled turn: a turn that keeps its work leaves a sound history, unless a compaction
  moved the place the turn started from.
\<close>

definition cancelled_sound :: "'s turn_cfg \<Rightarrow> conversation \<Rightarrow> string set \<Rightarrow> conversation \<Rightarrow> agent_event list \<Rightarrow> bool" where
  "cancelled_sound cfg c0 K c es \<longleftrightarrow>
     cf_keep_interrupted cfg \<longrightarrow> \<not> compacted_in es \<longrightarrow> cf_rollback_len cfg \<le> length (c_messages c0) \<longrightarrow> sound_history K c"

interpretation pairing: history_law "sound c0 K" cfg "cancelled_sound cfg c0 K"
  for c0 and K and cfg :: "'s turn_cfg"
proof unfold_locales
  show "sound c0 K (conversation_push c m) es" if "sound c0 K c es" "plain_message m" for c es m
    using that growth.law_push [of c0 c es m] by (simp add: sound_def sound_push)
  show "sound c0 K c (es @ fs)" if "sound c0 K c es" for c es fs
    using that growth.law_emit [of c0 c es fs] by (simp add: sound_def)
  show "sound c0 K (fst (apply_plan c plan sacred)) (es @ [Compacted trigger (snd (apply_plan c plan sacred)) snap])"
    if "sound c0 K c es" for c es plan sacred trigger snap
    using that growth.law_plan [of c0 c es plan sacred trigger snap] by (simp add: sound_def sound_apply_plan)
  show "cancelled_sound cfg c0 K (cancelled_convo cfg internal c) es" if "sound c0 K c es" for c es internal
    using that by (simp add: cancelled_sound_def sound_def sound_cancelled sound_closable)
  show "cancelled_sound cfg c0 K c (es @ fs)" if "cancelled_sound cfg c0 K c es" for c es fs
    using that by (auto simp: cancelled_sound_def compacted_in_def)
qed

lemma cancelled_open:
  assumes "grown c0 c es" "prefix (ms @ [m]) (c_messages c')" "c_messages c = ms" "m_role m = Assistant" "closable K c'"
  shows "cancelled_sound cfg c0 K (cancelled_convo cfg internal c') (es @ fs)"
proof -
  have "did_work (cf_rollback_len cfg) (c_messages c')"
    if "\<not> compacted_in (es @ fs)" "cf_rollback_len cfg \<le> length (c_messages c0)"
  proof (rule did_work_prefix [OF assms(2) _ assms(4)])
    have "extends c0 c" using that(1) assms(1) by (auto simp: grown_def compacted_in_def)
    then have "length (c_messages c0) \<le> length ms" using assms(3) prefix_length_le by (auto simp: extends_def)
    then show "cf_rollback_len cfg \<le> length ms" using that(2) by simp
  qed
  then show ?thesis by (simp add: cancelled_sound_def sound_cancelled [OF assms(5)])
qed

lemma respond_message:
  assumes "respond cfg env msgs acc st = (st', m, t)" "env_ok env"
  shows "m_role m = Assistant \<and> tool_call_id m = None \<and> tool_calls m = sa_calls acc"
  using assms
  by (auto simp: respond_def Let_def env_ok_def keeps_calls_def message_assistant_def split: option.splits prod.splits
      continuation_kind.splits)

text \<open>The tools of a response that is stored behind a sound history.\<close>

lemma tools_sound:
  assumes mws: "mws_ok (cf_mws cfg)" and ok: "env_ok env"
    and base: "sound c0 K (tu_convo st) (tu_events st)" "tu_convo st' = conversation_push (tu_convo st) m"
      "tu_events st' = tu_events st @ es"
    and m: "m_role m = Assistant" "tool_calls m \<noteq> []" "tool_call_id m = None"
    and ids: "call_ids (tool_calls m) \<inter> K = {}" "K \<subseteq> L" "call_ids (tool_calls m) \<subseteq> L"
  shows "exits (sound c0 L) (cancelled_sound cfg c0 L) (run_tools cfg env was_cut (tool_calls m) st')"
proof -
  let ?ms = "c_messages (tu_convo st)"
  have paired: "well_paired ?ms" and known: "known_ids ?ms \<subseteq> K" and grown: "grown c0 (tu_convo st) (tu_events st)"
    using base(1) by (simp_all add: sound_def sound_history_def)
  have msgs: "c_messages (tu_convo st') = ?ms @ [m]" by (simp add: base(2) conversation_push_def)
  have fresh: "result_ids ?ms \<inter> tc_id ` set (tool_calls m) = {}"
    using known ids(1) by (auto simp: known_ids_def call_ids_def)
  have all_known: "known_ids (?ms @ [m]) \<subseteq> L" using known ids(2,3) m by (auto simp: known_ids_Cons call_ids_def)
  have open_now: "closable L (tu_convo st')"
    unfolding closable_def using all_known backfill_pairs [of "tu_convo st'" ?ms m "[]"] msgs paired m fresh by simp
  have opens: "opens_batch m" using m by simp
  show ?thesis
  proof (rule pairing.leaves_run_tools)
    show "cancelled_sound cfg c0 L (cancelled_convo cfg (rd_internal_cancel env) (tu_convo st')) (tu_events st')"
      unfolding base(3) using grown by (rule cancelled_open [where ms = ?ms and m = m]) (simp_all add: msgs m(1) open_now)
  next
    fix batched s1 es1 cancelled ap s2
    assume s1: "tu_convo s1 = tu_convo st'" "tu_events s1 = tu_events st' @ es1"
      and run: "run_batch cfg env was_cut batched (tool_calls m) s1 = (cancelled, ap, s2)"
    have "c_messages (tu_convo s1) = ?ms @ [m]" by (simp add: s1 msgs)
    note after = batch_history [OF mws ok this paired all_known opens m(3) fresh run]
    obtain es2 where es2: "tu_events s2 = tu_events s1 @ es2" and more: "extends (tu_convo s1) (tu_convo s2)"
      using extends_run_batch [OF run] by blast
    have "grown c0 (tu_convo s2) (tu_events s2)"
      using growth.law_emit [OF growth.law_extends [OF grown extends_trans [OF extends_push more [unfolded s1(1) base(2)]]]]
      by (simp add: es2 s1(2) base(3))
    moreover have "cancelled_sound cfg c0 L (cancelled_convo cfg (rd_internal_cancel env) (tu_convo s2)) (tu_events s2)"
      unfolding es2 s1(2) base(3) append_assoc using grown by (rule cancelled_open [where ms = ?ms and m = m]) (use after m(1) in simp_all)
    ultimately show "if cancelled
        then cancelled_sound cfg c0 L (cancelled_convo cfg (rd_internal_cancel env) (tu_convo s2)) (tu_events s2)
        else holds_in (sound c0 L) s2"
      using after by (simp add: sound_def)
  qed
qed

lemma round_sound:
  assumes mws: "mws_ok (cf_mws cfg)" and ok: "env_ok env"
    and start: "holds_in (sound c0 K) st" and fresh: "set (arrival_ids (rd_arrivals env)) \<inter> K = {}"
  shows "exits (sound c0 (K \<union> set (arrival_ids (rd_arrivals env))))
    (cancelled_sound cfg c0 (K \<union> set (arrival_ids (rd_arrivals env)))) (round_step cfg env st)"
proof -
  let ?A = "set (arrival_ids (rd_arrivals env))"
  let ?L = "K \<union> ?A"
  have weaker: "sound c0 ?L c es" if "sound c0 K c es" for c es
    using that sound_mono [of K c ?L] by (auto simp: sound_def)
  have weaker_cancelled: "cancelled_sound cfg c0 ?L c es" if "cancelled_sound cfg c0 K c es" for c es
    using that sound_mono [of K c ?L] by (auto simp: cancelled_sound_def)
  show ?thesis
  proof (rule pairing.exits_until_stream [OF start weaker weaker_cancelled])
    fix st3 :: "'a turn_state" and msgs assume st3: "holds_in (sound c0 K) st3"
    then have base: "sound_history K (tu_convo st3)" "grown c0 (tu_convo st3) (tu_events st3)" by (simp_all add: sound_def)
    have stored: "sound c0 ?L (persist_partial hidden acc' (tu_convo st3)) (tu_events st3)"
      if "call_ids (sa_calls acc') \<subseteq> call_ids (sa_calls (acc_start env)) \<union> ?A" for acc' hidden
    proof -
      have ids: "call_ids (sa_calls acc') \<subseteq> ?A" using that by (simp add: acc_start_def call_ids_def)
      then have "sound_history (K \<union> call_ids (sa_calls acc')) (persist_partial hidden acc' (tu_convo st3))"
        using fresh by (intro sound_persist base(1)) auto
      then have "sound_history ?L (persist_partial hidden acc' (tu_convo st3))"
        using ids by (elim sound_mono) auto
      then show ?thesis using growth.law_extends [OF base(2) extends_persist] by (simp add: sound_def)
    qed
    have read: "exits (sound c0 ?L) (cancelled_sound cfg c0 ?L) (consume cfg env (rd_arrivals env) st3 (acc_start env))
        \<and> (\<forall>st' acc'. consume cfg env (rd_arrivals env) st3 (acc_start env) = Next (st', acc') \<longrightarrow>
            call_ids (sa_calls acc') \<subseteq> call_ids (sa_calls (acc_start env)) \<union> ?A)"
      by (rule pairing.leaves_consume [OF weaker [OF st3]]) (rule stored)
    show "exits (sound c0 ?L) (cancelled_sound cfg c0 ?L)
        (bind_flow (consume cfg env (rd_arrivals env) st3 (acc_start env)) (after_stream cfg env msgs))"
    proof (rule exits_bind [OF conjunct1 [OF read]])
      fix sa assume sa: "consume cfg env (rd_arrivals env) st3 (acc_start env) = Next sa"
      obtain st4 acc where sa_eq: "sa = (st4, acc)" by fastforce
      obtain evs where "st4 = emit evs st3" using consume_Next sa sa_eq by blast
      then have st4: "holds_in (sound c0 K) st4" using pairing.law_emit [OF st3] by simp
      have ids: "call_ids (sa_calls acc) \<subseteq> ?A" using read sa sa_eq by (simp add: acc_start_def call_ids_def)
      show "exits (sound c0 ?L) (cancelled_sound cfg c0 ?L) (after_stream cfg env msgs sa)"
        unfolding sa_eq
      proof (rule pairing.leaves_after_stream [OF weaker [OF st4]])
        fix st5 st6 m t
        assume st5: "tu_convo st5 = tu_convo st4" "tu_events st5 = tu_events st4"
          and r: "respond cfg env msgs acc st5 = (st6, m, t)"
        note m = respond_message [OF r ok]
        have base: "sound c0 K (tu_convo st5) (tu_events st5)" using st4 st5 by simp
        obtain es where es: "tu_events st6 = tu_events st5 @ es" using respond_events [OF r] by blast
        show "if tool_calls m = [] then holds_in (sound c0 ?L) st6
          else exits (sound c0 ?L) (cancelled_sound cfg c0 ?L) (run_tools cfg env (sa_cut acc) (tool_calls m) st6)"
        proof (cases "tool_calls m = []")
          case True
          then have "plain_message m" using m by (simp add: plain_message_def)
          with base have "holds_in (sound c0 K) st6"
            by (simp add: respond_convo [OF r] es pairing.law_push pairing.law_emit)
          then show ?thesis using True weaker by simp
        next
          case False
          then show ?thesis
            using tools_sound [OF mws ok base respond_convo [OF r] es, of ?L "sa_cut acc"] m ids fresh by auto
        qed
      qed
    qed
  qed
qed

definition round_ids :: "round_env list \<Rightarrow> string set" where
  "round_ids envs = (\<Union>env\<in>set envs. set (arrival_ids (rd_arrivals env)))"

lemma turn_sound:
  assumes mws: "mws_ok (cf_mws cfg)"
  shows "\<forall>env\<in>set envs. env_ok env \<Longrightarrow> fresh_rounds K envs \<Longrightarrow> holds_in (sound c0 K) st \<Longrightarrow>
    \<exists>L. L \<subseteq> K \<union> round_ids envs \<and>
      (case run_turn cfg envs st of
        Inl st' \<Rightarrow> holds_in (sound c0 L) st'
      | Inr (r, st') \<Rightarrow> (if r = StopCancelled then holds_in (cancelled_sound cfg c0 L) st' else holds_in (sound c0 L) st'))"
proof (induction envs arbitrary: K st)
  case (Cons env envs)
  let ?K = "K \<union> set (arrival_ids (rd_arrivals env))"
  have step: "exits (sound c0 ?K) (cancelled_sound cfg c0 ?K) (round_step cfg env st)"
    using Cons.prems by (intro round_sound [OF mws]) simp_all
  have ids: "K \<union> round_ids (env # envs) = ?K \<union> round_ids envs" by (auto simp: round_ids_def)
  show ?case
  proof (cases "round_step cfg env st")
    case (Next a)
    then show ?thesis using Cons.prems(3) by (intro exI [of _ K]) simp
  next
    case (Again st')
    then have "holds_in (sound c0 ?K) st'" using step by (simp add: exits_def)
    then show ?thesis using Cons.IH [of ?K st'] Cons.prems(1,2) Again unfolding ids by simp
  next
    case (Ended r st')
    then have "if r = StopCancelled then holds_in (cancelled_sound cfg c0 ?K) st' else holds_in (sound c0 ?K) st'"
      using step by (simp add: exits_def)
    then show ?thesis using Ended unfolding ids by (intro exI [of _ ?K]) simp
  qed
qed auto

end
