(* ===== verification/Turn_Replay.thy ===== *)
theory Turn_Replay
  imports Turn_Laws
begin

text \<open>
  A pass that is replayed, because the provider refused it, the stream broke off, the reasoning ran in
  circles or the response was empty, has executed nothing: neither phase 2 of a tool batch nor a middleware
  has been reached. The statement is one of independence, the pass is the same whatever phase 2 would do.
\<close>

named_theorems unexecuted "pieces of a pass that do not look at phase 2"

abbreviation executing :: "round_env \<Rightarrow> (receipt list \<Rightarrow> call_plan list \<Rightarrow> executed option list \<times> bool) \<Rightarrow> round_env" where
  "executing env f \<equiv> env\<lparr>rd_execute := f\<rparr>"

lemma finish_cancelled_executing [unexecuted]: "finish_cancelled cfg (executing env f) st = finish_cancelled cfg env st"
  by (simp add: finish_cancelled_def)

lemma wait_then_executing [unexecuted]: "wait_then cfg (executing env f) st k = wait_then cfg env st k"
  by (simp add: wait_then_def unexecuted)

lemma begin_round_executing [unexecuted]: "begin_round cfg (executing env f) st = begin_round cfg env st"
  by (simp add: begin_round_def unexecuted Let_def split: option.split)

lemma fold_steered_executing [unexecuted]: "fold_steered (executing env f) st = fold_steered env st"
  by (simp add: fold_steered_def)

lemma run_compaction_executing [unexecuted]:
  "run_compaction cfg (executing env f) cp trigger st = run_compaction cfg env cp trigger st"
  by (simp add: run_compaction_def)

lemma project_executing [unexecuted]: "project_request (executing env f) k stored = project_request env k stored"
  by (simp add: project_request_def)

lemma emergency_executing [unexecuted]:
  "emergency_compaction cfg (executing env f) limit left k st pm = emergency_compaction cfg env limit left k st pm"
  by (induction cfg env limit left k st pm rule: emergency_compaction.induct)
    (simp_all add: Let_def split_beta unexecuted)

lemma prepare_executing [unexecuted]: "prepare_request cfg (executing env f) st = prepare_request cfg env st"
  unfolding prepare_request_def project_executing emergency_executing ..

lemma rate_decision_executing [unexecuted]: "rate_decision (executing env f) e n = rate_decision env e n"
proof -
  have "rd_verdict (executing env f) = rd_verdict env" "rd_jitter (executing env f) = rd_jitter env" by simp_all
  then show ?thesis by (simp only: rate_decision_def)
qed

lemma rate_limited_executing [unexecuted]: "rate_limited cfg (executing env f) e st = rate_limited cfg env e st"
  by (simp add: rate_limited_def unexecuted Let_def split_beta split: rate_limit_decision.split)

lemma open_executing [unexecuted]: "open_stream cfg (executing env f) st = open_stream cfg env st"
  by (simp add: open_stream_def unexecuted Let_def split: open_outcome.split)

lemma idle_executing [unexecuted]: "idle_timeout cfg (executing env f) acc st = idle_timeout cfg env acc st"
  by (simp add: idle_timeout_def unexecuted Let_def)

lemma tripped_executing [unexecuted]: "reasoning_tripped cfg (executing env f) acc st = reasoning_tripped cfg env acc st"
  by (simp add: reasoning_tripped_def Let_def)

lemma stream_error_executing [unexecuted]: "stream_error cfg (executing env f) e acc st = stream_error cfg env e acc st"
  by (simp add: stream_error_def)

lemma stream_limited_executing [unexecuted]:
  "stream_rate_limited cfg (executing env f) e acc st = stream_rate_limited cfg env e acc st"
  by (simp add: stream_rate_limited_def unexecuted)

lemma consume_executing [unexecuted]: "consume cfg (executing env f) arrs st acc = consume cfg env arrs st acc"
  by (induction arrs st acc rule: consume_induct [where cfg = cfg])
    (simp_all add: consume_tripped consume_Done consume_Error consume_plain unexecuted)

lemma settle_executing [unexecuted]: "settle cfg (executing env f) msgs acc st = settle cfg env msgs acc st"
  by (simp add: settle_def unexecuted Let_def)

lemma acc_start_executing [unexecuted]: "acc_start (executing env f) = acc_start env"
  by (simp add: acc_start_def)

section \<open>Middleware\<close>

lemma world_run_compaction: "tu_world (run_compaction cfg env cp trigger st) = tu_world st"
  by (subst run_compaction_frame) simp

lemma world_fold_push: "tu_world (fold (\<lambda>(t, imgs). push_msg (user_with_images t imgs)) xs st) = tu_world st"
proof (induction xs arbitrary: st)
  case (Cons x xs)
  then show ?case by (cases x) simp
qed simp

lemma world_steered: "tu_world (fold_steered env st) = tu_world st"
  by (simp add: fold_steered_def world_fold_push clear_repeat_def)

lemma world_emergency: "tu_world (fst (emergency_compaction cfg env limit left k st pm)) = tu_world st"
  by (induction cfg env limit left k st pm rule: emergency_compaction.induct)
    (simp_all add: Let_def split_beta world_run_compaction)

lemma world_prepare: "tu_world (fst (prepare_request cfg env st)) = tu_world st"
proof -
  let ?stored = "c_messages (tu_convo st)"
  let ?window = "effective_compact_window (cf_context_window cfg) (fst (last_pressure ?stored))"
  obtain st1 msgs appended where em:
    "emergency_compaction cfg env (effective_input_limit ?window (cf_max_tokens cfg))
      (if list_ex (\<lambda>m. m_role m = Assistant) ?stored \<and> 0 < ?window then MAX_OVERFLOW_ATTEMPTS else 0) 0 st
      (project_request env 0 ?stored) = (st1, msgs, appended)"
    by (metis surj_pair)
  then have "tu_world st1 = tu_world st" using world_emergency by (metis fst_conv)
  then show ?thesis
    unfolding prepare_request_def Let_def em prod.case by (simp add: split_beta split: option.split bool.split)
qed

lemma world_begin: "begin_round cfg env st = Next st' \<Longrightarrow> tu_world st' = tu_world st \<and> tu_round st' = tu_round st + 1"
  by (auto simp: begin_round_def Let_def split: option.split_asm if_split_asm)

lemma world_rate_limited: "rate_limited cfg env e st = Again st' \<Longrightarrow> tu_world st' = tu_world st"
  by (auto simp: rate_limited_def Let_def wait_then_Again split: prod.splits rate_limit_decision.splits if_splits)

lemma world_open:
  assumes "open_stream cfg env st = Again st'"
  shows "tu_world st' = tu_world st"
proof (cases "rd_open env")
  case (Open_Err e)
  show ?thesis
    using assms world_rate_limited [of cfg env e st st']
    by (simp add: open_stream_def Open_Err Let_def wait_then_Again world_run_compaction split: if_split_asm)
qed (use assms in \<open>simp_all add: open_stream_def\<close>)

lemma world_persisted: "tu_world (if b then persisted acc st else st) = tu_world st"
  by simp

lemma world_recovered [simp]: "tu_world (recovered st) = tu_world st"
  by (simp add: recovered_def)

lemma world_idle: "idle_timeout cfg env acc st = Again st' \<Longrightarrow> tu_world st' = tu_world st"
  by (auto simp: idle_timeout_def Let_def wait_then_Again split: if_split_asm)

lemma world_tripped: "reasoning_tripped cfg env acc st = Again st' \<Longrightarrow> tu_world st' = tu_world st"
  by (auto simp: reasoning_tripped_def Let_def split: if_splits option.splits sum.splits)

lemma world_stream_error: "stream_error cfg env e acc st = Again st' \<Longrightarrow> tu_world st' = tu_world st"
  by (auto simp: stream_error_def Let_def split: if_split_asm)

lemma world_stream_limited:
  fixes st :: "'s turn_state"
  assumes "stream_rate_limited cfg env e acc st = (Again st' :: ('s, 'b) flow)"
  shows "tu_world st' = tu_world st"
proof -
  have "rate_limited cfg env e st = (Again st' :: ('s, 'b) flow)"
    using assms by (simp add: stream_rate_limited_def split_beta split: if_split_asm)
  then show ?thesis by (rule world_rate_limited)
qed

lemma world_consume: "consume cfg env arrs st acc = Again st' \<Longrightarrow> tu_world st' = tu_world st"
proof (induction arrs st acc rule: consume_induct [where cfg = cfg])
  case (failed e hooked rest st acc det)
  then show ?case
    by (auto simp: consume_Error split: if_split_asm intro: world_stream_error world_stream_limited)
next
  case (plain ev hooked rest st acc det)
  then show ?case by (simp add: consume_plain)
qed (simp_all add: consume_tripped consume_Done world_idle world_tripped)

lemma world_settle: "settle cfg env msgs acc st = Again st' \<Longrightarrow> tu_world st' = tu_world st"
  by (auto simp: settle_def Let_def wait_then_Again split: if_split_asm)

section \<open>The pass\<close>

lemma after_stream_replayed:
  assumes "after_stream cfg env msgs (st, acc) = Again st'" "tu_round st' < tu_round st"
  shows "settle cfg env msgs acc st = Again st'"
proof (cases "settle cfg env msgs acc st")
  case (Next st1)
  obtain st2 m t where r: "respond cfg env msgs acc st1 = (st2, m, t)" by (metis surj_pair)
  have "tu_round st1 = tu_round st" using settle_Next [OF Next] by simp
  moreover have "counters_of st2 = counters_of st1" using counters_respond [of cfg env msgs acc st1] by (simp add: r)
  moreover have "counters_of st' = counters_of st2"
    using assms(1) Next r by (auto simp: after_stream_def split: if_split_asm dest: no_tools_Again run_tools_Again)
  ultimately have "tu_round st' = tu_round st" by (simp add: counters_eq_iff)
  then show ?thesis using assms(2) by simp
qed (use assms in \<open>simp_all add: after_stream_def\<close>)

lemma replayed_pass:
  fixes st :: "'s turn_state"
  assumes step: "round_step cfg env st = Again st'" and same: "tu_round st' = tu_round st"
  shows "tu_world st' = tu_world st \<and> round_step cfg (executing env f) st = Again st'"
proof -
  obtain st1 where begin_ok: "begin_round cfg env st = Next st1"
    using step by (auto simp: round_step_def bind_flow_Again)
  obtain st2 msgs where prep: "prepare_request cfg env (fold_steered env st1) = (st2, msgs)" by (metis surj_pair)
  have w2: "tu_world st2 = tu_world st"
    using world_prepare [of cfg env "fold_steered env st1"] world_begin [OF begin_ok] by (simp add: prep world_steered)
  have "counters_of st2 = counters_of st1"
    using counters_prepare [of cfg env "fold_steered env st1"] by (simp add: prep counters_steered)
  then have r2: "tu_round st2 = tu_round st + 1" using world_begin [OF begin_ok] by (simp add: counters_eq_iff)
  consider (unopened) "open_stream cfg env st2 = (Again st' :: ('s, 's turn_state) flow)"
    | (reading) st3 where "open_stream cfg env st2 = Next st3"
        "consume cfg env (rd_arrivals env) st3 (acc_start env) = (Again st' :: ('s, 's turn_state \<times> stream_acc) flow)"
    | (behind) st3 st4 acc where "open_stream cfg env st2 = Next st3"
        "consume cfg env (rd_arrivals env) st3 (acc_start env) = Next (st4, acc)"
        "after_stream cfg env msgs (st4, acc) = Again st'"
    using step by (auto simp: round_step_def bind_flow_Again begin_ok prep)
  then show ?thesis
  proof cases
    case unopened
    then show ?thesis
      using w2 world_open [OF unopened] by (simp add: round_step_def unexecuted begin_ok prep)
  next
    case reading
    have "tu_world st3 = tu_world st2" using open_stream_Next [OF reading(1)] by simp
    then show ?thesis
      using w2 world_consume [OF reading(2)] reading by (simp add: round_step_def unexecuted begin_ok prep)
  next
    case behind
    obtain evs where st4: "st4 = emit evs st3" using consume_Next [OF behind(2)] by blast
    have st3: "tu_world st3 = tu_world st2" "tu_round st3 = tu_round st2" using open_stream_Next [OF behind(1)] by simp_all
    have "settle cfg env msgs acc st4 = Again st'"
      using behind(3) by (rule after_stream_replayed) (simp add: st4 st3 r2 same)
    then show ?thesis
      using w2 st3 st4 world_settle [of cfg env msgs acc st4 st'] behind(1,2)
      by (simp add: round_step_def unexecuted begin_ok prep after_stream_def)
  qed
qed

end
