(* ===== verification/Engine_Samples.thy ===== *)
theory Engine_Samples
  imports Turn_Pairing Turn_Replay
begin

text \<open>
  Concrete turns at which the theorems on the agent engine are applied: a configuration without
  middleware, one mounted tool, and passes in which the model calls it, the provider refuses the request, or
  the user cancels.
\<close>

definition plain_serde :: serde where
  "plain_serde = \<lparr>from_str = (\<lambda>_. None), to_string = (\<lambda>_. None)\<rparr>"

definition edit_tool :: tool where
  "edit_tool = \<lparr>t_ident = 1, t_name = ''edit'', t_parallel_safe = (\<lambda>_. False)\<rparr>"

definition edit_call :: "string \<Rightarrow> tool_call" where
  "edit_call i = \<lparr>tc_id = i, tc_name = ''edit'', tc_arguments = i\<rparr>"

definition sample_turn_cfg :: "nat option \<Rightarrow> bool \<Rightarrow> nat \<Rightarrow> unit turn_cfg" where
  "sample_turn_cfg cap keeping rollback =
     \<lparr>cf_serde = plain_serde, cf_mws = [], cf_tools = registry_mount [''edit''] (registry_register edit_tool []),
      cf_max_rounds = cap, cf_round_cap_checkpoint = False, cf_max_provider_retries = 0, cf_max_continuations = None,
      cf_max_tool_result_bytes = 0, cf_keep_interrupted = keeping, cf_max_tokens = None, cf_first_token_timeout = False,
      cf_context_window = 0, cf_compact_threshold = None, cf_session_id = None, cf_alphabetic = (\<lambda>_. False),
      cf_turn_id = 1, cf_rollback_len = rollback\<rparr>"

text \<open>Phase 2 in which every tool returns \<open>ok\<close>.\<close>

definition run_everything :: "receipt list \<Rightarrow> call_plan list \<Rightarrow> executed option list \<times> bool" where
  "run_everything rcs plans =
     (map (\<lambda>p. case p of
             Skip \<Rightarrow> None
           | Ready r _ \<Rightarrow> Some (ready_slot r)
           | Execute t c _ \<Rightarrow>
               Some \<lparr>ex_reused = False,
                     ex_result = \<lparr>to_call_id = tc_id c, to_content = ''ok'', to_is_error = False, to_images = []\<rparr>,
                     ex_cwd = Some ''/'', ex_intervention = None\<rparr>) plans, False)"

lemma run_everything_ok: "executes_ok run_everything"
proof -
  have "list_all2 slot_full plans (fst (run_everything rcs plans))" for rcs plans
    by (auto simp: run_everything_def list.rel_map slot_full_def intro!: list.rel_refl_strong split: call_plan.split)
  moreover from this have "list_all2 slot_ok plans (fst (run_everything rcs plans))" for rcs plans
    by (rule list_all2_mono) (simp add: slot_full_def)
  ultimately show ?thesis by (simp add: executes_ok_def)
qed

definition sample_pass :: "open_outcome \<Rightarrow> arrival list \<Rightarrow> round_env" where
  "sample_pass opening arrs =
     \<lparr>rd_internal_cancel = False, rd_grant_rounds = False, rd_cancelled_rounds = False, rd_steered = [],
      rd_project = (\<lambda>_ ms. ms), rd_plan = no_compaction_plan, rd_summarizes = (\<lambda>_. False),
      rd_guard = reasoning_loop_config_default, rd_attempt = None, rd_open = opening, rd_verdict = None, rd_jitter = 0,
      rd_wait_cancelled = False, rd_arrivals = arrs, rd_elapsed = 0, rd_reasoning_elapsed = 0, rd_promote = (\<lambda>t. t),
      rd_response = (\<lambda>m. m\<lparr>m_meta := None\<rparr>), rd_steer_pending = False, rd_continuation = None, rd_grant_cut = False,
      rd_cancelled_cut = False, rd_batch_cancelled = False, rd_execute = run_everything\<rparr>"

definition calling_pass :: "string \<Rightarrow> round_env" where
  "calling_pass i = sample_pass Open_Ok [Arrived (ToolCallEvent (edit_call i)) [], Arrived (Done False) []]"

definition overflowing_pass :: "compaction_plan \<Rightarrow> round_env" where
  "overflowing_pass plan =
     (sample_pass
        (Open_Err \<lparr>pe_retryable = False, pe_message = [], http_status = None,
                   pe_code = Some ''context_length_exceeded'', retry_after_secs = None\<rparr>) [])\<lparr>rd_plan := (\<lambda>_. plan)\<rparr>"

definition cancelled_pass :: round_env where
  "cancelled_pass = sample_pass Open_Cancelled []"

definition long_history :: conversation where
  "long_history = \<lparr>c_messages =
     [message_user ''one'', message_assistant ''first'' [], message_user ''two'', message_assistant ''second'' [],
      message_user ''three''], cache_epoch = 0\<rparr>"

definition drain_two :: compaction_plan where
  "drain_two = plan_noop\<lparr>drain_from := 1, drain_to := 3\<rparr>"

text \<open>A request that needs no emergency measure changes nothing.\<close>

lemma prepare_quiet:
  assumes "cf_context_window cfg = 0" "fst (last_pressure (c_messages (tu_convo st))) = 0"
    and "rd_project env = (\<lambda>_ ms. ms)" "well_paired (c_messages (tu_convo st))" "all_images (c_messages (tu_convo st)) = []"
  shows "fst (prepare_request cfg env st) = st"
proof -
  let ?ms = "c_messages (tu_convo st)"
  have none: "\<not> snd (snd (fold_oldest_images_to_budget ?ms IMAGE_SEND_BUDGET_BYTES))"
    using fold_images_spec(3) [of ?ms IMAGE_SEND_BUDGET_BYTES] assms(5) by (metis prod.collapse)
  have "effective_compact_window 0 0 = (0 :: u32)" by (simp add: effective_compact_window_def)
  then show ?thesis
    using none by (simp add: prepare_request_def Let_def split_beta assms project_request_def repair_pairing_well_paired
        over_window_advisory_def split: bool.split)
qed


definition steered_overflow :: round_env where
  "steered_overflow = (overflowing_pass drain_two)\<lparr>rd_steered := [(''four'', []), (''five'', [])]\<rparr>"

lemmas pass_defs = sample_pass_def calling_pass_def overflowing_pass_def cancelled_pass_def steered_overflow_def


text \<open>The passes of the examples, for any state.\<close>

lemma overflow_pass:
  fixes st :: "'s turn_state"
  assumes cap: "tu_round_cap st = None"
    and st1: "st1 = fold_steered env (st\<lparr>tu_round := tu_round st + 1, tu_request := tu_request st + 1\<rparr>)"
    and quiet: "fst (prepare_request cfg env st1) = st1"
    and overflow: "rd_open env = Open_Err e" "is_context_overflow e" "tu_overflow st < 3"
    and plan: "rd_plan env = (\<lambda>_. plan)"
  obtains st' where "round_step cfg env st = Again st'" "tu_round_cap st' = None" "tu_round st' = tu_round st"
    "tu_convo st' = fst (apply_plan (tu_convo st1) plan (sacred_floor (c_messages (tu_convo st1))))"
proof -
  have same: "counters_of st1 = (counters_of st)\<lparr>k_round := tu_round st + 1\<rparr>"
    unfolding st1 counters_steered by (simp add: counters_of_def)
  then have ov: "tu_overflow st1 < MAX_OVERFLOW_ATTEMPTS" "tu_round_cap st1 = None"
    using overflow(3) cap by (simp_all add: counters_of_def MAX_OVERFLOW_ATTEMPTS_def)
  obtain msgs where prep: "prepare_request cfg env st1 = (st1, msgs)" using quiet by (metis prod.collapse)
  define st2 where "st2 = run_compaction cfg env None (Overflow (word_of_nat (tu_overflow st1)))
      (emit [Warning (Overflow_Compacting (tu_round st1) (tu_overflow st1))] st1)"
  have c2: "tu_convo st2 = fst (apply_plan (tu_convo st1) plan (sacred_floor (c_messages (tu_convo st1))))"
    by (simp add: st2_def run_compaction_def Let_def split_beta plan apply_plan_def)
  have "counters_of st2 = counters_of st1" unfolding st2_def counters_run_compaction counters_emit ..
  then have cap2: "tu_round_cap st2 = None" "tu_round st2 - 1 = tu_round st"
    using ov(2) same by (simp_all add: counters_of_def)
  have "open_stream cfg env st1 = (Again (st2\<lparr>tu_overflow := tu_overflow st2 + 1, tu_round := tu_round st2 - 1\<rparr>) :: ('s, 's turn_state) flow)"
    using overflow(1,2) ov(1) by (simp add: open_stream_def Let_def replay_def st2_def [symmetric])
  then have "round_step cfg env st = Again (st2\<lparr>tu_overflow := tu_overflow st2 + 1, tu_round := tu_round st2 - 1\<rparr>)"
    using cap prep by (simp add: round_step_def begin_round_def Let_def st1)
  then show thesis using that c2 cap2 by simp
qed

lemma cancelled_opening:
  assumes "tu_round_cap st = None" "rd_steered env = []" "rd_open env = Open_Cancelled"
    and "fst (prepare_request cfg env (st\<lparr>tu_round := tu_round st + 1, tu_request := tu_request st + 1\<rparr>))
      = st\<lparr>tu_round := tu_round st + 1, tu_request := tu_request st + 1\<rparr>"
  obtains st' where "round_step cfg env st = Ended StopCancelled st'"
    "tu_convo st' = cancelled_convo cfg (rd_internal_cancel env) (tu_convo st)"
proof -
  let ?st = "st\<lparr>tu_round := tu_round st + 1, tu_request := tu_request st + 1\<rparr>"
  obtain msgs where "prepare_request cfg env ?st = (?st, msgs)" using assms(4) by (metis prod.collapse)
  then show thesis
    using assms by (intro that) (auto simp: round_step_def begin_round_def Let_def fold_steered_def open_stream_def
        finish_cancelled_def finish_turn_def)
qed

lemma prepare_quiet_sample:
  "well_paired (c_messages (tu_convo st)) \<Longrightarrow> all_images (c_messages (tu_convo st)) = [] \<Longrightarrow>
   fst (last_pressure (c_messages (tu_convo st))) = 0 \<Longrightarrow>
   cf_context_window cfg = 0 \<Longrightarrow> rd_project env = (\<lambda>_ ms. ms) \<Longrightarrow> fst (prepare_request cfg env st) = st"
  by (rule prepare_quiet)

text \<open>A turn that is steered twice, compacts because the request is too long, and is cancelled.\<close>

definition compacted_history :: conversation where
  "compacted_history = \<lparr>c_messages =
     [message_user ''one'', message_assistant ''second'' [], message_user ''three'', message_user ''four'',
      message_user ''five''], cache_epoch = 1\<rparr>"

lemma compacted_history_plan:
  "fst (apply_plan (long_history\<lparr>c_messages := c_messages long_history @ [user_with_images ''four'' [], user_with_images ''five'' []]\<rparr>)
     drain_two 1) = compacted_history"
  by code_simp

lemma overflow_code:
  "is_context_overflow \<lparr>pe_retryable = False, pe_message = [], http_status = None,
     pe_code = Some ''context_length_exceeded'', retry_after_secs = None\<rparr>"
  by code_simp

lemma compacted_history_quiet:
  "well_paired (c_messages compacted_history)" "all_images (c_messages compacted_history) = []"
  "fst (last_pressure (c_messages compacted_history)) = 0"
  by code_simp+

definition steered_history :: conversation where
  "steered_history = long_history\<lparr>c_messages := c_messages long_history @ [user_with_images ''four'' [], user_with_images ''five'' []]\<rparr>"

lemma steered_history_quiet:
  "well_paired (c_messages steered_history)" "all_images (c_messages steered_history) = []"
  "fst (last_pressure (c_messages steered_history)) = 0" "sacred_floor (c_messages steered_history) = 1"
  by code_simp+

lemma cancelled_compacted_history:
  "c_messages (cancelled_convo (sample_turn_cfg None False 4) False compacted_history)
   = [message_user ''one'', message_assistant ''second'' [], message_user ''three'', message_user ''four'', user_interruption]"
  by (simp add: cancelled_convo_def sample_turn_cfg_def compacted_history_def conversation_push_def)

lemma stale_run:
  obtains st' st2 where "run_turn (sample_turn_cfg None False 4) [steered_overflow, cancelled_pass]
      (turn_begin (sample_turn_cfg None False 4) long_history () 0 None) = Inr (StopCancelled, st')"
    "tu_convo st' = cancelled_convo (sample_turn_cfg None False 4) False compacted_history"
    "round_step (sample_turn_cfg None False 4) steered_overflow
      (turn_begin (sample_turn_cfg None False 4) long_history () 0 None) = Again st2" "tu_round st2 = 0"
proof -
  let ?cfg = "sample_turn_cfg None False 4"
  let ?st = "turn_begin ?cfg long_history () 0 None"
  define st1 where "st1 = fold_steered steered_overflow (?st\<lparr>tu_round := tu_round ?st + 1, tu_request := tu_request ?st + 1\<rparr>)"
  have c1: "tu_convo st1 = steered_history"
    by (simp add: st1_def fold_steered_def pass_defs turn_begin_def clear_repeat_def conversation_push_def steered_history_def)
  obtain st2 where st2: "round_step ?cfg steered_overflow ?st = Again st2" "tu_round_cap st2 = None"
      "tu_round st2 = tu_round ?st" "tu_convo st2 = fst (apply_plan (tu_convo st1) drain_two (sacred_floor (c_messages (tu_convo st1))))"
  proof (rule overflow_pass [where cfg = ?cfg and env = steered_overflow and st = ?st and ?st1.0 = st1, OF _ st1_def])
    show "fst (prepare_request ?cfg steered_overflow st1) = st1"
      by (rule prepare_quiet_sample) (simp_all only: c1 steered_history_quiet, simp_all add: sample_turn_cfg_def pass_defs)
  qed (auto simp: sample_turn_cfg_def turn_begin_def pass_defs overflow_code)
  have c2: "tu_convo st2 = compacted_history"
    using compacted_history_plan by (simp add: st2(4) c1 steered_history_quiet) (simp add: steered_history_def)
  obtain st3 where "round_step ?cfg cancelled_pass st2 = Ended StopCancelled st3"
      "tu_convo st3 = cancelled_convo ?cfg (rd_internal_cancel cancelled_pass) (tu_convo st2)"
  proof (rule cancelled_opening [where cfg = ?cfg and env = cancelled_pass and st = st2, OF st2(2)])
    show "fst (prepare_request ?cfg cancelled_pass (st2\<lparr>tu_round := tu_round st2 + 1, tu_request := tu_request st2 + 1\<rparr>))
      = st2\<lparr>tu_round := tu_round st2 + 1, tu_request := tu_request st2 + 1\<rparr>"
      by (rule prepare_quiet_sample) (simp_all add: c2 compacted_history_quiet sample_turn_cfg_def pass_defs)
  qed (simp_all add: pass_defs)
  then show thesis
    using that [of st3 st2] st2(1,3) c2 by (simp add: pass_defs turn_begin_def)
qed

end
