(* ===== verification/Engine_Properties.thy ===== *)
theory Engine_Properties
  imports Engine_Samples
begin

text \<open>
  The properties of the agent engine (\<open>crates/atomcode-kernel/src/agent/engine.rs\<close>): a turn over its
  passes, the batch of tool calls in its three phases, and the pure policies the loop consults.
\<close>

section \<open>Turns\<close>

text \<open>
  C3. A turn with a hard round cap returns. Where the cap ends the turn, and does not ask the driver whether to go on
  (\<open>round_cap_checkpoint\<close> is off; with it on, every yes re-arms the cap), there is no infinite way around the loop,
  whatever the provider, the tools, the hooks and the driver do: a turn that has been given more passes than
  the bound below has ended. The bound is the product of the budgets: rounds, empty responses, the one retry of a reasoning
  loop, rate limit waits and reconnects, overflow compactions and retries of the open.
\<close>

theorem capped_turn_returns:
  assumes "\<not> cf_round_cap_checkpoint cfg" and "cf_max_rounds cfg = Some cap"
    and "(((cap * 6 + 5) * 2 + 1) * 11 + 10) * (cf_max_provider_retries cfg + 4) + (cf_max_provider_retries cfg + 3) < length envs"
  shows "\<exists>r st. run_turn cfg envs (turn_begin cfg c w req guard) = Inr (r, st)"
proof (rule run_turn_returns [OF assms(1)])
  show "tu_round_cap (turn_begin cfg c w req guard) = Some cap" using assms(2) by (simp add: turn_begin_def)
  show "pass_rank cap (cf_max_provider_retries cfg) (counters_of (turn_begin cfg c w req guard)) < length envs"
    using assms(3) by (simp add: turn_begin_def counters_of_def pass_rank_def pass_major_def)
qed

theorem capped_turn_returns_witness:
  "\<exists>r st. run_turn (sample_turn_cfg (Some 1) True 4) (replicate 2000 (calling_pass ''x''))
      (turn_begin (sample_turn_cfg (Some 1) True 4) long_history () 0 None) = Inr (r, st)"
  by (rule capped_turn_returns [where cap = 1]) (simp_all add: sample_turn_cfg_def)

text \<open>What a cancelled turn leaves, in both modes.\<close>

lemma cancelled_history:
  assumes "run_turn cfg envs (turn_begin cfg c w req guard) = Inr (StopCancelled, st)"
    and "\<not> compacted_in (tu_events st)" and "cf_rollback_len cfg \<le> length (c_messages c)"
  shows "if cf_keep_interrupted cfg then prefix (take (cf_rollback_len cfg) (c_messages c)) (c_messages (tu_convo st))
    else c_messages (tu_convo st) \<in> {take (cf_rollback_len cfg) (c_messages c),
           take (cf_rollback_len cfg) (c_messages c) @ [user_interruption]}"
proof -
  have "holds_in (grown c) (turn_begin cfg c w req guard)" by (simp add: grown_def turn_begin_def)
  from growth.law_turn(2) [OF this assms(1)] show ?thesis
    using assms(2,3) by (simp add: rolled_back_def Let_def)
qed

lemma marker_keeps_pairing: "well_paired (ms @ [user_interruption]) = well_paired ms"
  by (rule well_paired_push) (simp add: plain_message_def user_interruption_def synthetic_user_def)

text \<open>
  C2. The history stays one a provider accepts. If it is well paired when the turn starts, and so was its part
  from before the prompt, it is when the turn ends or waits for its next pass, through tool batches,
  compactions, steering, recoveries from broken streams and cancels in both modes. What is assumed of the
  surroundings: the middleware keeps the ids it is handed and does not block after an execution (with such a
  block a result is lost, theorem \<open>blocked_result_is_lost\<close>), the hooks keep the calls of a message and its ids,
  phase 2 fills its slots (theorem \<open>slots_well_formed\<close>), and no provider reuses the id of an earlier call. Excepted
  is a turn that was cancelled after it had committed a compaction (lemma \<open>stale_rollback_keeps_the_prompt\<close>).
\<close>

theorem history_stays_accepted:
  assumes "mws_ok (cf_mws cfg)" and "\<forall>env\<in>set envs. env_ok env"
    and "fresh_rounds (known_ids (c_messages c)) envs" and "well_paired (c_messages c)"
    and "cf_rollback_len cfg \<le> length (c_messages c)" and "well_paired (take (cf_rollback_len cfg) (c_messages c))"
  shows "case run_turn cfg envs (turn_begin cfg c w req guard) of
      Inl st \<Rightarrow> well_paired (c_messages (tu_convo st))
    | Inr (r, st) \<Rightarrow> r = StopCancelled \<and> compacted_in (tu_events st) \<or> well_paired (c_messages (tu_convo st))"
proof -
  have "holds_in (sound c (known_ids (c_messages c))) (turn_begin cfg c w req guard)"
    using assms(4) by (simp add: sound_def sound_history_def grown_def turn_begin_def)
  from turn_sound [OF assms(1-3) this] obtain L where kept:
    "case run_turn cfg envs (turn_begin cfg c w req guard) of
        Inl st' \<Rightarrow> holds_in (sound c L) st'
      | Inr (r, st') \<Rightarrow> (if r = StopCancelled then holds_in (cancelled_sound cfg c L) st' else holds_in (sound c L) st')"
    by blast
  have undone: "well_paired (c_messages (tu_convo st))"
    if "run_turn cfg envs (turn_begin cfg c w req guard) = Inr (StopCancelled, st)" "\<not> compacted_in (tu_events st)"
      "\<not> cf_keep_interrupted cfg" for st
  proof -
    let ?before = "take (cf_rollback_len cfg) (c_messages c)"
    have "c_messages (tu_convo st) = ?before \<or> c_messages (tu_convo st) = ?before @ [user_interruption]"
      using cancelled_history [OF that(1,2) assms(5)] that(3) by simp
    then show ?thesis using assms(6) marker_keeps_pairing [of ?before] by (elim disjE) simp_all
  qed
  show ?thesis
  proof (cases "run_turn cfg envs (turn_begin cfg c w req guard)")
    case (Inl st)
    then show ?thesis using kept by (simp add: sound_def sound_history_def)
  next
    case (Inr x)
    obtain r st where "x = (r, st)" by (cases x)
    with Inr have run: "run_turn cfg envs (turn_begin cfg c w req guard) = Inr (r, st)" by simp
    show ?thesis
    proof (cases "r = StopCancelled \<and> \<not> cf_keep_interrupted cfg")
      case True
      then show ?thesis using run undone [of st] by auto
    next
      case False
      then show ?thesis using kept run assms(5)
        by (auto simp: sound_def sound_history_def cancelled_sound_def split: if_split_asm)
    qed
  qed
qed

theorem history_stays_accepted_witness:
  "case run_turn (sample_turn_cfg None True 4) [calling_pass ''x'', calling_pass ''y'', cancelled_pass]
      (turn_begin (sample_turn_cfg None True 4) long_history () 0 None) of
      Inl st \<Rightarrow> well_paired (c_messages (tu_convo st))
    | Inr (r, st) \<Rightarrow> r = StopCancelled \<and> compacted_in (tu_events st) \<or> well_paired (c_messages (tu_convo st))"
proof (rule history_stays_accepted)
  show "\<forall>env\<in>set [calling_pass ''x'', calling_pass ''y'', cancelled_pass]. env_ok env"
    by (simp add: env_ok_def keeps_calls_def pass_defs run_everything_ok)
  show "fresh_rounds (known_ids (c_messages long_history)) [calling_pass ''x'', calling_pass ''y'', cancelled_pass]"
    by (simp add: pass_defs edit_call_def long_history_def known_ids_Cons message_ctors)
  show "well_paired (c_messages long_history)" by code_simp
  show "well_paired (take (cf_rollback_len (sample_turn_cfg None True 4)) (c_messages long_history))" by code_simp
qed (simp_all add: mws_ok_def sample_turn_cfg_def long_history_def)

text \<open>
  C21. A cancel is an undo. In the default mode, a cancelled turn leaves exactly the messages from before its
  prompt, and, when the person cancelled it, the marker that says so; in the mode that keeps interrupted
  work it leaves at least those messages. The turn must not have committed a compaction.
\<close>

theorem cancel_restores_history:
  assumes "run_turn cfg envs (turn_begin cfg c w req guard) = Inr (StopCancelled, st)"
    and "\<not> compacted_in (tu_events st)" and "cf_rollback_len cfg \<le> length (c_messages c)"
  shows "if cf_keep_interrupted cfg then prefix (take (cf_rollback_len cfg) (c_messages c)) (c_messages (tu_convo st))
    else c_messages (tu_convo st) \<in> {take (cf_rollback_len cfg) (c_messages c),
           take (cf_rollback_len cfg) (c_messages c) @ [user_interruption]}"
  using assms by (rule cancelled_history)

lemma cancelled_at_once:
  obtains st where "run_turn (sample_turn_cfg None False 4) [cancelled_pass]
      (turn_begin (sample_turn_cfg None False 4) long_history () 0 None) = Inr (StopCancelled, st)"
    "tu_events st = [Turn_Started, Cancelled_Out, Turn_Complete StopCancelled]"
    "c_messages (tu_convo st) = take 4 (c_messages long_history) @ [user_interruption]"
proof -
  let ?cfg = "sample_turn_cfg None False 4"
  let ?st = "(turn_begin ?cfg long_history () 0 None)\<lparr>tu_round := 1, tu_request := 1\<rparr>"
  have quiet: "well_paired (c_messages long_history)" "all_images (c_messages long_history) = []"
    "fst (last_pressure (c_messages long_history)) = 0" by code_simp+
  have "fst (prepare_request ?cfg cancelled_pass ?st) = ?st"
    by (rule prepare_quiet_sample) (simp_all add: turn_begin_def quiet sample_turn_cfg_def pass_defs)
  then obtain msgs where "prepare_request ?cfg cancelled_pass ?st = (?st, msgs)" by (metis prod.collapse)
  then have "run_turn ?cfg [cancelled_pass] (turn_begin ?cfg long_history () 0 None)
      = Inr (StopCancelled, emit [Turn_Complete StopCancelled]
          (emit [Cancelled_Out] (?st\<lparr>tu_convo := cancelled_convo ?cfg False long_history\<rparr>)))"
    by (simp add: round_step_def begin_round_def Let_def turn_begin_def fold_steered_def open_stream_def
        finish_cancelled_def finish_turn_def pass_defs) (simp add: sample_turn_cfg_def)
  then show thesis
    by (rule that) (simp_all add: turn_begin_def cancelled_convo_def sample_turn_cfg_def conversation_push_def long_history_def)
qed

theorem cancel_restores_history_witness:
  "\<exists>st. run_turn (sample_turn_cfg None False 4) [cancelled_pass]
      (turn_begin (sample_turn_cfg None False 4) long_history () 0 None) = Inr (StopCancelled, st)
    \<and> (if cf_keep_interrupted (sample_turn_cfg None False 4)
       then prefix (take 4 (c_messages long_history)) (c_messages (tu_convo st))
       else c_messages (tu_convo st) \<in> {take 4 (c_messages long_history), take 4 (c_messages long_history) @ [user_interruption]})"
proof -
  obtain st where st: "run_turn (sample_turn_cfg None False 4) [cancelled_pass]
      (turn_begin (sample_turn_cfg None False 4) long_history () 0 None) = Inr (StopCancelled, st)"
    "tu_events st = [Turn_Started, Cancelled_Out, Turn_Complete StopCancelled]"
    by (rule cancelled_at_once)
  then have "\<not> compacted_in (tu_events st)" by (simp add: compacted_in_def)
  moreover have "cf_rollback_len (sample_turn_cfg None False 4) = 4" "4 \<le> length (c_messages long_history)"
    by (simp_all add: sample_turn_cfg_def long_history_def)
  ultimately show ?thesis using st(1) cancel_restores_history [OF st(1)] by auto
qed

text \<open>
  After a compaction the undo cuts at a stale place. The index a cancelled turn is cut at is taken before
  the turn; a compaction of the turn itself moves the messages under it. Here the history has four messages
  before the prompt \<open>three\<close>; the turn is steered twice, compacts, and is cancelled: the prompt and the first
  steering stay, the second one is cut off, and one of the four is gone.
\<close>

lemma stale_rollback_keeps_the_prompt:
  "\<exists>st. run_turn (sample_turn_cfg None False 4) [steered_overflow, cancelled_pass]
        (turn_begin (sample_turn_cfg None False 4) long_history () 0 None) = Inr (StopCancelled, st)
    \<and> take 4 (c_messages long_history)
        = [message_user ''one'', message_assistant ''first'' [], message_user ''two'', message_assistant ''second'' []]
    \<and> c_messages (tu_convo st)
        = [message_user ''one'', message_assistant ''second'' [], message_user ''three'', message_user ''four'', user_interruption]"
proof -
  obtain st where "run_turn (sample_turn_cfg None False 4) [steered_overflow, cancelled_pass]
        (turn_begin (sample_turn_cfg None False 4) long_history () 0 None) = Inr (StopCancelled, st)"
      "tu_convo st = cancelled_convo (sample_turn_cfg None False 4) False compacted_history"
    by (rule stale_run)
  then show ?thesis by (simp add: cancelled_compacted_history long_history_def)
qed

text \<open>
  A replayed pass has executed nothing. When the loop goes around without counting a round, because the
  provider refused the request, the stream broke off before it said anything, the reasoning ran in circles
  or the response was empty, no middleware has been run, and the pass is the same whatever phase 2
  of a batch would do: a retry repeats no side effect.
\<close>

lemma replay_executes_nothing:
  assumes "round_step cfg env st = Again st'" and "tu_round st' = tu_round st"
  shows "tu_world st' = tu_world st \<and> round_step cfg (env\<lparr>rd_execute := f\<rparr>) st = Again st'"
  using assms by (rule replayed_pass)

text \<open>
  Retained messages survive. The messages that a compaction has to keep are still there, in their order,
  when a turn ends that has not been cancelled, however often it compacted.
\<close>

lemma turn_keeps_retained:
  assumes "run_turn cfg envs (turn_begin cfg c w req guard) = Inr (r, st)" and "r \<noteq> StopCancelled"
  shows "prefix (pinned (c_messages c)) (pinned (c_messages (tu_convo st)))"
proof -
  have "retains c (tu_convo (turn_begin cfg c w req guard))" by (simp add: retains_def turn_begin_def)
  from retention.law_turn(2) [of c, OF this assms(1)] show ?thesis using assms(2) by (simp add: retains_def)
qed

section \<open>Batches\<close>

text \<open>
  C4. What a batch may execute. Nothing is executed of a message that was cut off, nothing beside a call
  that a policy denied with the end of the turn, and of several calls of the same tool with the same
  arguments, up to the order of object keys, one.
\<close>

theorem batch_executes_once:
  "let plans = cl_plans (classify sd mws mounted was_cut w calls);
       executed = map (tool_call_dedup_key sd \<circ> fst) (filter (plan_is_execute \<circ> snd) (zip calls plans))
   in length plans = length calls \<and> distinct executed
      \<and> (if was_cut \<or> list_ex (\<lambda>p. case p of Ready _ stop \<Rightarrow> stop | _ \<Rightarrow> False) plans then executed = [] else True)"
proof -
  let ?plans = "cl_plans (classify sd mws mounted was_cut w calls)"
  have keys: "length ?plans = length calls"
    "distinct (map (tool_call_dedup_key sd \<circ> fst) (filter (plan_is_execute \<circ> snd) (zip calls ?plans)))"
    using classify_keys [of sd calls mws mounted was_cut w] by (auto simp: keys_inv_def)
  have none: "filter (plan_is_execute \<circ> snd) (zip calls ?plans) = []" if "\<not> list_ex plan_is_execute ?plans"
    using that by (auto simp: filter_empty_conv list_ex_iff dest: set_zip_rightD)
  have "\<not> list_ex plan_is_execute ?plans"
    if "was_cut \<or> list_ex (\<lambda>p. case p of Ready _ stop \<Rightarrow> stop | _ \<Rightarrow> False) ?plans"
    using that classify_cut_nothing_executes [of sd mws mounted w calls] classify_denial [of sd mws mounted was_cut w calls]
    by (cases was_cut) (auto simp: denial_inv_def)
  with keys none show ?thesis by (simp add: Let_def)
qed

lemma exec_run_snoc: "exec_run env n s t \<Longrightarrow> exec_run env m t u \<Longrightarrow> exec_run env (n + m) s u"
  by (rotate_tac, induction rule: exec_run.induct) (auto intro: exec_run.intros)

lemma exec_completes:
  assumes "lift_keeps_ids env" "0 < xe_cap env"
  shows "exec_inv env s \<Longrightarrow> \<exists>m t. exec_run env m s t \<and> exec_done t"
proof (induction "exec_measure s" arbitrary: s rule: less_induct)
  case less
  show ?case
  proof (cases "exec_done s")
    case False
    obtain u where u: "exec_step env s u" using exec_progress [OF less.prems assms(2) False] by blast
    have "exec_inv env u" "exec_measure u < exec_measure s"
      using exec_step_inv [OF u assms(1) less.prems] exec_step_measure [OF u less.prems] by simp_all
    with less.hyps obtain m t where "exec_run env m u t" "exec_done t" by blast
    then show ?thesis using exec_run_snoc [OF run_step [OF run_here u]] by blast
  qed (blast intro: run_here)
qed

text \<open>The executions of a batch as they are started, on the plan of one call.\<close>

definition sample_exec :: exec_env where
  "sample_exec = \<lparr>xe_serde = plain_serde, xe_plans = [Execute edit_tool (edit_call ''x'') False, Execute edit_tool (edit_call ''y'') False],
     xe_cap = 1, xe_receipts = [], xe_lift = (\<lambda>_ r. (r, None))\<rparr>"

lemma sample_exec_keeps_ids: "lift_keeps_ids sample_exec"
  by (simp add: lift_keeps_ids_def sample_exec_def)

lemma sample_exec_cap: "0 < xe_cap sample_exec"
  by (simp add: sample_exec_def)

lemma sample_exec_run:
  "exec_run sample_exec 1 (exec_initial sample_exec ''/'' False)
     ((exec_initial sample_exec ''/'' False)\<lparr>xs_futs := [Permitted, Queued], xs_sem := [1]\<rparr>)"
proof -
  let ?s = "exec_initial sample_exec ''/'' False"
  have sem: "xs_sem ?s = [0, 1]" "xs_futs ?s = [Queued, Queued]"
    by (simp_all add: exec_initial_def exec_indices_def sample_exec_def upt_rec)
  have cap: "xe_cap sample_exec = 1" by (simp add: sample_exec_def)
  have "exec_step sample_exec ?s (?s\<lparr>xs_futs := (xs_futs ?s)[0 := Permitted], xs_sem := [1]\<rparr>)"
    by (rule take_permit) (simp_all add: sem permits_used_def cap)
  then have "exec_step sample_exec ?s (?s\<lparr>xs_futs := [Permitted, Queued], xs_sem := [1]\<rparr>)" by (simp add: sem)
  from run_step [OF run_here this] show ?thesis by simp
qed

text \<open>
  C5. Phase 2 keeps its promises at every moment of every interleaving, with cancels at any time: no more
  tools are under way than the cap allows, a call that is not parallel-safe runs alone, no call is started
  twice, and once the turn is cancelled or stopped by a policy no further call is started.
\<close>

theorem phase_two_safe:
  assumes "lift_keeps_ids env" and "exec_run env n (exec_initial env dir cancelled) s"
  shows "permits_used s \<le> xe_cap env \<and> exclusive env s \<and> distinct (xs_started s)
    \<and> (\<forall>t. exec_step env s t \<and> (xs_cancelled s \<or> xs_stop s) \<longrightarrow> xs_started t = xs_started s)"
proof -
  have "exec_inv env s" using exec_run_inv [OF assms(2,1) exec_initial_inv] by blast
  moreover have "xs_started t = xs_started s" if "exec_step env s t" "xs_cancelled s \<or> xs_stop s" for t
    using that by (cases rule: exec_step.cases) (auto simp: finish_running_def enter_gate_def split: call_plan.splits)
  ultimately show ?thesis by (simp add: exec_inv_def)
qed

theorem phase_two_safe_witness:
  "permits_used ((exec_initial sample_exec ''/'' False)\<lparr>xs_futs := [Permitted, Queued], xs_sem := [1]\<rparr>) \<le> 1
   \<and> exclusive sample_exec ((exec_initial sample_exec ''/'' False)\<lparr>xs_futs := [Permitted, Queued], xs_sem := [1]\<rparr>)"
  using phase_two_safe [OF sample_exec_keeps_ids sample_exec_run] by (simp add: sample_exec_def)

text \<open>
  C23. What phase 2 hands to phase 3. When every execution has come to an end there is one slot for every plan,
  empty for a skipped call, the ready result where there was one, a result under the id of the call for an
  execution; an execution without a result occurs only in a cancelled turn.
\<close>

theorem slots_well_formed:
  assumes "lift_keeps_ids env" and "exec_run env n (exec_initial env dir cancelled) s" and "exec_done s"
  shows "list_all2 (if xs_cancelled s then slot_ok else slot_full) (xe_plans env) (exec_slots env s)"
proof -
  have "exec_inv env s" using exec_run_inv [OF assms(2,1) exec_initial_inv] by blast
  from exec_slots_ok [OF this assms(3)] show ?thesis by simp
qed

theorem slots_well_formed_witness:
  "\<exists>s. exec_done s
    \<and> list_all2 (if xs_cancelled s then slot_ok else slot_full) (xe_plans sample_exec) (exec_slots sample_exec s)"
proof -
  have "exec_inv sample_exec (exec_initial sample_exec ''/'' False)" by (rule exec_initial_inv)
  then obtain m s where s: "exec_run sample_exec m (exec_initial sample_exec ''/'' False) s" "exec_done s"
    using exec_completes [OF sample_exec_keeps_ids sample_exec_cap] by blast
  from slots_well_formed [OF sample_exec_keeps_ids s] s(2) show ?thesis by blast
qed

text \<open>
  C22. Phase 2 comes to an end. From every moment of every interleaving the executions can be completed, if
  every tool that has been called returns or is interrupted, and the futures move at most four times as often as there are
  plans: the semaphore and the lock never leave the batch waiting for itself.
\<close>

theorem phase_two_finishes:
  assumes "lift_keeps_ids env" and "0 < xe_cap env" and "exec_run env n (exec_initial env dir cancelled) s"
  shows "\<exists>m t. exec_run env m s t \<and> exec_done t \<and> n + m \<le> 4 * length (xe_plans env)"
proof -
  have inv: "exec_inv env s" using exec_run_inv [OF assms(3,1) exec_initial_inv] by blast
  then obtain m t where mt: "exec_run env m s t" "exec_done t" using exec_completes [OF assms(1,2)] by blast
  have "(n + m) + exec_measure t \<le> exec_measure (exec_initial env dir cancelled)"
    using exec_run_inv [OF exec_run_snoc [OF assms(3) mt(1)] assms(1) exec_initial_inv] by blast
  with mt exec_measure_initial [of env dir cancelled] show ?thesis by fastforce
qed

theorem phase_two_finishes_witness:
  "\<exists>m t. exec_run sample_exec m ((exec_initial sample_exec ''/'' False)\<lparr>xs_futs := [Permitted, Queued], xs_sem := [1]\<rparr>) t
    \<and> exec_done t \<and> 1 + m \<le> 4 * length (xe_plans sample_exec)"
  by (rule phase_two_finishes [OF sample_exec_keeps_ids sample_exec_cap sample_exec_run])

text \<open>The results of the executed calls of a batch as they are stored, each with the reason of a block behind it.\<close>

fun applied :: "'s middleware list \<Rightarrow> nat \<Rightarrow> (call_plan \<times> executed) list \<Rightarrow> 's \<Rightarrow> (tool_output \<times> string option) list" where
  "applied mws limit [] w = []"
| "applied mws limit ((plan, ex) # xs) w =
     (let (w', raw, blocked) =
        (if ex_reused ex then (w, ex_result ex, None) else after_chain mws (tool_of_plan plan) w (ex_result ex) None)
      in (cap_tool_result raw limit, blocked) # applied mws limit xs w')"

definition result_message :: "tool_output \<times> string option \<Rightarrow> message" where
  "result_message rb = tool_result (to_call_id (fst rb)) (to_content (fst rb)) (to_is_error (fst rb))"

definition reason_message :: "tool_output \<times> string option \<Rightarrow> message list" where
  "reason_message rb = (case snd rb of Some reason \<Rightarrow> [synthetic_user reason] | None \<Rightarrow> [])"

lemma apply_slots_messages:
  "c_messages (ap_convo (fold (apply_slot sd mws limit batched) (map (apsnd Some) xs) st)) =
   c_messages (ap_convo st) @ concat (map (\<lambda>rb. result_message rb # reason_message rb) (applied mws limit xs (ap_world st)))"
proof (induction xs arbitrary: st)
  case (Cons x xs)
  obtain plan ex where x: "x = (plan, ex)" by (cases x)
  have "ap_world (apply_slot sd mws limit batched (plan, Some ex) st) =
      fst (if ex_reused ex then (ap_world st, ex_result ex, None) else after_chain mws (tool_of_plan plan) (ap_world st) (ex_result ex) None)"
    "c_messages (ap_convo (apply_slot sd mws limit batched (plan, Some ex) st)) = c_messages (ap_convo st) @
      (case (if ex_reused ex then (ap_world st, ex_result ex, None) else after_chain mws (tool_of_plan plan) (ap_world st) (ex_result ex) None)
       of (_, raw, blocked) \<Rightarrow> result_message (cap_tool_result raw limit, blocked) # reason_message (cap_tool_result raw limit, blocked))"
    by (auto simp: apply_slot_def Let_def conversation_push_def result_message_def reason_message_def split: prod.split option.split
        simp del: after_chain.simps)
  then show ?case using Cons.IH [of "apply_slot sd mws limit batched (plan, Some ex) st"]
    by (simp add: x Let_def split_beta del: after_chain.simps)
qed simp

lemma is_tool_result_message [simp]: "is_tool (result_message rb)" "tool_call_id (result_message rb) = Some (to_call_id (fst rb))"
  by (simp_all add: result_message_def tool_result_def)

lemma repair_behind_batch:
  "repair_pairing (concat (map (\<lambda>rb. result_message rb # reason_message rb) rs)) = concat (map reason_message rs)"
proof (induction rs)
  case (Cons rb rs)
  have "\<not> opens_batch (result_message rb)" by (simp add: result_message_def tool_result_def)
  moreover have "\<not> opens_batch (synthetic_user t) \<and> \<not> is_tool (synthetic_user t)" for t by (simp add: synthetic_user_def)
  ultimately show ?case using Cons.IH
    by (cases "snd rb") (simp_all add: reason_message_def repair_pairing_plain)
qed simp

lemma cancel_unresolved_distinct:
  "distinct is \<Longrightarrow> cancel_unresolved is r = map (\<lambda>i. tool_result i ''(cancelled)'' True) (filter (\<lambda>i. i \<notin> r) is)"
proof (induction "is" arbitrary: r)
  case (Cons i "is")
  then have "filter (\<lambda>j. j \<notin> insert i r) is = filter (\<lambda>j. j \<notin> r) is" by (intro filter_cong) auto
  then show ?case using Cons.IH [of "insert i r"] Cons.IH [of r] Cons.prems by simp
qed simp

lemma cancel_unresolved_suffix:
  assumes "distinct (xs @ ys)"
  shows "cancel_unresolved (xs @ ys) (set xs) = map (\<lambda>i. tool_result i ''(cancelled)'' True) ys"
proof -
  have "filter (\<lambda>i. i \<notin> set xs) ys = ys" using assms by (intro filter_True) auto
  then show ?thesis using cancel_unresolved_distinct [OF assms, of "set xs"] by simp
qed

lemma distinct_map_Some: "distinct xs \<Longrightarrow> distinct (map Some xs)"
  by (simp add: distinct_map)

text \<open>
  C24. Results are lost when a middleware blocks after an execution. In a batch all of whose calls were executed or
  reused, the reason of a block is stored as a user message right behind the result of its call. Take the first
  block of the batch: the repair that every request passes through keeps the results up to that call, and answers
  every later call of the batch as cancelled, although it was executed and its result is stored; the reasons come
  behind. (If it is the last call of the batch, no result is lost. The code keeps the images of a batch back until
  all results are stored, because a message between the results would make the request invalid.)
\<close>

theorem blocked_result_is_lost:
  assumes batch: "c_messages c = ms @ [m]" "well_paired ms" "m_role m = Assistant"
      "map tc_id (tool_calls m) = map (\<lambda>rb. to_call_id (fst rb)) (before @ (r, Some reason) # later)" "distinct (map tc_id (tool_calls m))"
    and results: "applied mws limit xs w = before @ (r, Some reason) # later" "\<forall>rb\<in>set before. snd rb = None"
    and stored: "stored = c_messages (ap_convo (apply_batch sd mws limit guarded batched pint
      (map fst xs) (map (Some \<circ> snd) xs) c w))"
  shows "stored = ms @ m # map result_message before @ [result_message (r, Some reason), synthetic_user reason]
        @ concat (map (\<lambda>rb. result_message rb # reason_message rb) later)
    \<and> repair_pairing stored = ms @ m # map result_message before @ [result_message (r, Some reason)]
        @ map (\<lambda>rb. tool_result (to_call_id (fst rb)) ''(cancelled)'' True) later
        @ synthetic_user reason # concat (map reason_message later)"
proof -
  let ?behind = "synthetic_user reason # concat (map (\<lambda>rb. result_message rb # reason_message rb) later)"
  let ?run = "map result_message (before @ [(r, Some reason)])" and ?ids = "map tc_id (tool_calls m)"
  let ?done = "map (\<lambda>rb. to_call_id (fst rb)) (before @ [(r, Some reason)])" and ?open = "map (\<lambda>rb. to_call_id (fst rb)) later"
  have "zip (map fst xs) (map (Some \<circ> snd) xs) = map (apsnd Some) xs" by (induction xs) auto
  then have "stored = ms @ m # concat (map (\<lambda>rb. result_message rb # reason_message rb) (before @ (r, Some reason) # later))"
    unfolding stored apply_batch_def by (simp add: apply_slots_messages apply_start_def batch(1) results(1))
  moreover have "concat (map (\<lambda>rb. result_message rb # reason_message rb) before) = map result_message before"
    using results(2) by (induction before) (simp_all add: reason_message_def)
  ultimately have st: "stored = ms @ m # ?run @ ?behind" by (simp add: reason_message_def)
  have opens: "opens_batch m" using batch(3,4) by auto
  have ids: "?ids = ?done @ ?open" "distinct (?done @ ?open)" using batch(4,5) by simp_all
  have user: "\<not> is_tool (synthetic_user reason)" "\<not> opens_batch (synthetic_user reason)" by (simp_all add: synthetic_user_def)
  have answered: "map tool_call_id ?run = map Some ?done" by simp
  have "take_results ?ids {} (?run @ ?behind) = (?run, {} \<union> {i. Some i \<in> set (map tool_call_id ?run)}, ?behind)"
  proof (rule take_results_all)
    show "distinct (map tool_call_id ?run)" unfolding answered by (rule distinct_map_Some) (use ids(2) in \<open>simp only: distinct_append\<close>)
    show "set (map tool_call_id ?run) \<subseteq> Some ` (set ?ids - {})" unfolding answered ids(1) by auto
  qed (use user in auto)
  moreover have "{i. Some i \<in> set (map tool_call_id ?run)} = set ?done" unfolding answered by auto
  ultimately have taken: "take_results ?ids {} (?run @ ?behind) = (?run, set ?done, ?behind)" by simp
  have "dropWhile is_tool (?run @ ?behind) = ?behind" using user(1) by (subst dropWhile_append2) auto
  moreover have "cancel_unresolved ?ids (set ?done) = map (\<lambda>i. tool_result i ''(cancelled)'' True) ?open"
    unfolding ids(1) by (rule cancel_unresolved_suffix [OF ids(2)])
  moreover have "repair_pairing ?behind = synthetic_user reason # concat (map reason_message later)"
    using user repair_behind_batch [of later] by (simp add: repair_pairing_plain)
  ultimately have "repair_pairing (m # ?run @ ?behind) = m # ?run
      @ map (\<lambda>i. tool_result i ''(cancelled)'' True) ?open @ synthetic_user reason # concat (map reason_message later)"
    using opens taken by (simp only: repair_pairing_batch fst_conv snd_conv append_assoc simp_thms)
  moreover have "repair_pairing (ms @ m # ?run @ ?behind) = ms @ repair_pairing (m # ?run @ ?behind)"
    using repair_pairing_append [of "m # ?run @ ?behind" ms] opens by (simp add: repair_pairing_well_paired [OF batch(2)])
  ultimately show ?thesis unfolding st by (simp add: comp_def)
qed

definition blocking_middleware :: "unit middleware" where
  "blocking_middleware =
     \<lparr>mw_before = (\<lambda>s c t. (s, c, Before_Proceed)),
      mw_after = (\<lambda>s r t. (s, r, if to_call_id r = ''x'' then After_Block ''stop'' else After_Proceed))\<rparr>"

definition returned :: "string \<Rightarrow> executed" where
  "returned i = \<lparr>ex_reused = False, ex_result = \<lparr>to_call_id = i, to_content = ''ok'', to_is_error = False, to_images = []\<rparr>,
     ex_cwd = Some ''/'', ex_intervention = None\<rparr>"

lemma sample_applied:
  "applied [blocking_middleware] 0 (map (\<lambda>i. (Execute edit_tool (edit_call i) False, returned i)) is) () =
     map (\<lambda>i. (ex_result (returned i), if i = ''x'' then Some ''stop'' else None)) is"
  by (induction "is") (simp_all add: blocking_middleware_def returned_def cap_tool_result_under)

theorem blocked_result_is_lost_witness:
  "repair_pairing (c_messages (ap_convo (apply_batch plain_serde [blocking_middleware] 0 False True None
      [Execute edit_tool (edit_call ''w'') False, Execute edit_tool (edit_call ''x'') False, Execute edit_tool (edit_call ''y'') False]
      [Some (returned ''w''), Some (returned ''x''), Some (returned ''y'')]
      \<lparr>c_messages = [message_assistant [] [edit_call ''w'', edit_call ''x'', edit_call ''y'']], cache_epoch = 0\<rparr> ())))
   = [message_assistant [] [edit_call ''w'', edit_call ''x'', edit_call ''y''], tool_result ''w'' ''ok'' False, tool_result ''x'' ''ok'' False,
      tool_result ''y'' ''(cancelled)'' True, synthetic_user ''stop'']"
proof -
  let ?m = "message_assistant [] [edit_call ''w'', edit_call ''x'', edit_call ''y'']"
  let ?xs = "map (\<lambda>i. (Execute edit_tool (edit_call i) False, returned i)) [''w'', ''x'', ''y'']"
  have fields: "to_call_id (ex_result (returned i)) = i" "to_content (ex_result (returned i)) = ''ok''"
    "\<not> to_is_error (ex_result (returned i))" "tc_id (edit_call i) = i" for i
    by (simp_all add: edit_call_def returned_def)
  have "applied [blocking_middleware] 0 ?xs () = [(ex_result (returned ''w''), None)]
      @ (ex_result (returned ''x''), Some ''stop'') # [(ex_result (returned ''y''), None)]"
    unfolding sample_applied by simp
  from blocked_result_is_lost [where ms = "[]" and m = ?m, OF _ _ _ _ _ this _ refl,
      of "\<lparr>c_messages = [?m], cache_epoch = 0\<rparr>" plain_serde False True None, THEN conjunct2]
  show ?thesis by (simp add: fields message_assistant_def result_message_def reason_message_def)
qed

section \<open>Policies\<close>

text \<open>
  The exact loop guard. After any history of observed and of incomparable rounds, the guard stops the
  turn exactly when the rounds at the end of the history, with the new one, that gave this very fingerprint
  have reached the stop threshold, warns exactly when they are the warning threshold, and otherwise lets
  the turn go on.
\<close>

lemma loop_guard_exact:
  assumes "length evs < 2 ^ 32 - 1"
  shows "snd (tool_loop_observe fp (guard_after p evs)) =
    (let n = Suc (run_length fp evs)
     in if unat (stop_threshold p) \<le> n then Loop_Stop
        else if n = unat (warning_threshold p) then Loop_Warn else Loop_Continue)"
  using assms by (rule guard_decision)

text \<open>
  Capping a tool result. A result within the limit is unchanged. Of a longer one a front and a rear are
  kept, each at most half of the limit, cut at boundaries of UTF-8 characters, and what is between them is
  replaced by a note that says how many bytes it was.
\<close>

lemma tool_result_capped:
  assumes "0 < limit" and "limit < length (to_content r)"
  shows "\<exists>front middle rear. to_content r = front @ middle @ rear
    \<and> to_content (cap_tool_result r limit) =
        front @ elision_counts (length middle) (length (to_content r)) @ ellipsis @ newline # rear
    \<and> is_char_boundary (to_content r) (length front)
    \<and> is_char_boundary (to_content r) (length front + length middle)
    \<and> length front \<le> limit div 2 \<and> length rear \<le> limit div 2
    \<and> cap_tool_result r (length (to_content r)) = r"
proof -
  obtain front middle rear where
    "to_content r = front @ middle @ rear"
    "to_content (cap_tool_result r limit) =
       front @ elision_counts (length middle) (length (to_content r)) @ ellipsis @ newline # rear"
    "is_char_boundary (to_content r) (length front)" "is_char_boundary (to_content r) (length front + length middle)"
    "length front \<le> limit div 2" "length rear \<le> limit div 2"
    using assms by (rule cap_tool_result_over)
  moreover have "cap_tool_result r (length (to_content r)) = r" by (rule cap_tool_result_under) simp
  ultimately show ?thesis by (intro exI [of _ front] exI [of _ middle] exI [of _ rear]) (intro conjI)
qed

definition sample_output :: tool_output where
  "sample_output = \<lparr>to_call_id = ''x'', to_content = ''abcdef'', to_is_error = False, to_images = []\<rparr>"

text \<open>
  Two calls count as the same exactly when their arguments agree up to the order of object keys, at every depth:
  sorting the keys identifies these argument values and no others.
\<close>

lemma argument_order_is_irrelevant:
  assumes "json_ok v" and "json_ok w"
  shows "sort_json_object_keys v = sort_json_object_keys w \<longleftrightarrow> same_json v w"
  using assms by (rule sort_json_exact)

end
