(* ===== verification/Requests.thy ===== *)
theory Requests
  imports Json
begin

text \<open>
  The broker of questions to the driver (\<open>crates/atomcode-kernel/src/request.rs\<close>, \<open>RequestCtx\<close>). A part of
  the agent that needs an answer parks on a one-shot channel under a fresh id; the driver answers by id, a
  cancel flushes every parked question with \<open>Null\<close>, and a configured timeout does the same for one.

  The state is the map behind the mutex: which ids are parked, and what each awaiting side has been
  given. Each method is one atomic step. The lemmas show that an answer is never lost, never given twice
  and never given to another question: what a question gets is decided by the first step behind it that
  concerns it.
\<close>

section \<open>The broker\<close>

record broker =
  br_next :: nat
  br_pending :: "nat list"
  br_answers :: "nat \<Rightarrow> json option"
  br_bounded :: bool

definition broker_new :: "bool \<Rightarrow> broker" where
  "broker_new bounded = \<lparr>br_next = 1, br_pending = [], br_answers = (\<lambda>_. None), br_bounded = bounded\<rparr>"

text \<open>\<open>request\<close>, up to the point where it waits: the id under which it is parked.\<close>

definition request_start :: "broker \<Rightarrow> nat \<times> broker" where
  "request_start b =
     (br_next b, b\<lparr>br_next := br_next b + 1, br_pending := br_next b # removeAll (br_next b) (br_pending b)\<rparr>)"

text \<open>The timeout of \<open>request\<close>, which only a configured bound arms; an answer that is there goes first.\<close>

definition request_expire :: "nat \<Rightarrow> broker \<Rightarrow> broker" where
  "request_expire i b =
     (if br_bounded b \<and> i \<in> set (br_pending b)
      then b\<lparr>br_pending := removeAll i (br_pending b), br_answers := (br_answers b)(i \<mapsto> JNull)\<rparr>
      else b)"

definition resolve_request :: "nat \<Rightarrow> json \<Rightarrow> broker \<Rightarrow> broker" where
  "resolve_request i v b =
     (if i \<in> set (br_pending b)
      then b\<lparr>br_pending := removeAll i (br_pending b), br_answers := (br_answers b)(i \<mapsto> v)\<rparr>
      else b)"

definition cancel_pending :: "broker \<Rightarrow> broker" where
  "cancel_pending b =
     b\<lparr>br_pending := [], br_answers := (\<lambda>i. if i \<in> set (br_pending b) then Some JNull else br_answers b i)\<rparr>"

section \<open>What a question is given\<close>

datatype broker_op = Ask | Answer nat json | Flush | Expire nat

fun broker_step :: "broker_op \<Rightarrow> broker \<Rightarrow> broker" where
  "broker_step Ask b = snd (request_start b)"
| "broker_step (Answer i v) b = resolve_request i v b"
| "broker_step Flush b = cancel_pending b"
| "broker_step (Expire i) b = request_expire i b"

definition broker_run :: "bool \<Rightarrow> broker_op list \<Rightarrow> broker" where
  "broker_run bounded ops = fold broker_step ops (broker_new bounded)"

text \<open>
  The reference: the steps behind the \<open>i\<close>-th question, and what each of them has to say to it.
\<close>

fun behind_ask :: "nat \<Rightarrow> broker_op list \<Rightarrow> broker_op list option" where
  "behind_ask i [] = None"
| "behind_ask i (Ask # ops) = (if i = 1 then Some ops else behind_ask (i - 1) ops)"
| "behind_ask i (_ # ops) = behind_ask i ops"

fun settles :: "bool \<Rightarrow> nat \<Rightarrow> broker_op \<Rightarrow> json option" where
  "settles bounded i Ask = None"
| "settles bounded i (Answer j v) = (if j = i then Some v else None)"
| "settles bounded i Flush = Some JNull"
| "settles bounded i (Expire j) = (if bounded \<and> j = i then Some JNull else None)"

fun first_reply :: "bool \<Rightarrow> nat \<Rightarrow> broker_op list \<Rightarrow> json option" where
  "first_reply bounded i [] = None"
| "first_reply bounded i (x # ops) =
     (case settles bounded i x of Some v \<Rightarrow> Some v | None \<Rightarrow> first_reply bounded i ops)"

definition asked :: "broker_op list \<Rightarrow> nat" where
  "asked ops = length (filter (\<lambda>x. x = Ask) ops)"

lemma behind_ask_None: "0 < i \<Longrightarrow> behind_ask i ops = None \<longleftrightarrow> asked ops < i"
  by (induction i ops rule: behind_ask.induct) (auto simp: asked_def split: if_split_asm)

lemma behind_ask_0 [simp]: "behind_ask 0 ops = None"
  by (induction "0 :: nat" ops rule: behind_ask.induct) simp_all

lemma behind_ask_snoc:
  "behind_ask i (ops @ [x]) =
     (case behind_ask i ops of
        Some rest \<Rightarrow> Some (rest @ [x])
      | None \<Rightarrow> if x = Ask \<and> i = Suc (asked ops) then Some [] else None)"
proof (induction i ops rule: behind_ask.induct)
  case (1 i)
  then show ?case by (cases x) (auto simp: asked_def)
qed (auto simp: asked_def split: option.split)

lemma first_reply_snoc:
  "first_reply bounded i (ops @ [x]) =
     (case first_reply bounded i ops of Some v \<Rightarrow> Some v | None \<Rightarrow> settles bounded i x)"
  by (induction ops) (auto split: option.splits)

text \<open>The state of the broker, question by question.\<close>

definition broker_agrees :: "bool \<Rightarrow> broker_op list \<Rightarrow> broker \<Rightarrow> bool" where
  "broker_agrees bounded ops b \<longleftrightarrow>
     br_bounded b = bounded \<and> br_next b = Suc (asked ops)
     \<and> (\<forall>i. br_answers b i = (if i = 0 then None else Option.bind (behind_ask i ops) (first_reply bounded i)))
     \<and> (\<forall>i. i \<in> set (br_pending b) \<longleftrightarrow>
          0 < i \<and> (case behind_ask i ops of None \<Rightarrow> False | Some rest \<Rightarrow> first_reply bounded i rest = None))"

lemma broker_agrees_step:
  assumes "broker_agrees bounded ops b"
  shows "broker_agrees bounded (ops @ [x]) (broker_step x b)"
proof -
  have fields: "br_bounded b = bounded" "br_next b = Suc (asked ops)"
    "\<And>i. br_answers b i = (if i = 0 then None else Option.bind (behind_ask i ops) (first_reply bounded i))"
    "\<And>i. i \<in> set (br_pending b) \<longleftrightarrow>
       0 < i \<and> (case behind_ask i ops of None \<Rightarrow> False | Some rest \<Rightarrow> first_reply bounded i rest = None)"
    using assms by (auto simp: broker_agrees_def)
  have fresh: "behind_ask (Suc (asked ops)) ops = None" by (simp add: behind_ask_None)
  show ?thesis
  proof (cases x)
    case Ask
    then show ?thesis
      using fresh
      by (auto simp: broker_agrees_def request_start_def fields behind_ask_snoc first_reply_snoc asked_def [of "ops @ _"]
          asked_def [symmetric] split: option.splits if_split_asm)
  next
    case (Answer i v)
    then show ?thesis
      by (auto simp: broker_agrees_def resolve_request_def fields behind_ask_snoc first_reply_snoc asked_def [of "ops @ _"]
          asked_def [symmetric] split: option.splits)
  next
    case Flush
    then show ?thesis
      by (auto simp: broker_agrees_def cancel_pending_def fields behind_ask_snoc first_reply_snoc asked_def [of "ops @ _"]
          asked_def [symmetric] split: option.splits)
  next
    case (Expire i)
    then show ?thesis
      by (auto simp: broker_agrees_def request_expire_def fields behind_ask_snoc first_reply_snoc asked_def [of "ops @ _"]
          asked_def [symmetric] split: option.splits)
  qed
qed

lemma broker_run_agrees: "broker_agrees bounded ops (broker_run bounded ops)"
proof (induction ops rule: rev_induct)
  case Nil
  show ?case by (simp add: broker_agrees_def broker_run_def broker_new_def asked_def)
next
  case (snoc x ops)
  then show ?case using broker_agrees_step [of bounded ops _ x] by (simp add: broker_run_def)
qed

end
