(* ===== verification/Agent_Session.thy ===== *)
theory Agent_Session
  imports Turn_Pairing Requests
begin

text \<open>
  The session of an agent (\<open>crates/atomcode-kernel/src/agent/engine.rs\<close>: the counters of \<open>Agent::spawn\<close>, then
  \<open>session_loop\<close>, \<open>process_send_message\<close> and \<open>drain_pending\<close> of \<open>RunningAgent\<close>): how commands of the driver start
  turns, reach a turn that is under way, or wait for its end.

  While a turn runs, commands are served between its suspension points. A \<open>pass\<close> is one pass of the
  turn's loop together with the commands that are served during it, in order: steering is what is in the
  buffer when the pass begins, and the two places where the pass looks at what has arrived meanwhile are
  positions in that list. What a command does to the turn itself (a cancel makes waits end) is part of
  the pass's environment. A driver that hangs up in the middle of a turn is not modelled: the code then
  drops the turn where it stands.
\<close>

section \<open>Commands\<close>

datatype agent_command =
    Cmd_SendMessage string "image_content list"
  | Cmd_SendMessageWithContext string "image_content list" string
  | Cmd_SendSyntheticMessage string
  | Cmd_PeerNote string string
  | Cmd_Respond nat json
  | Cmd_Snapshot
  | Cmd_Compact "string option"
  | Cmd_Cancel
  | Cmd_Shutdown
  | Cmd_Tagged string agent_command
  | Cmd_Subscribe string nat
  | Cmd_Unsubscribe string
  | Cmd_Invoke string string string string "image_content list"
  | Cmd_To string agent_command

fun untagged :: "agent_command \<Rightarrow> agent_command" where
  "untagged (Cmd_Tagged _ c) = untagged c"
| "untagged c = c"

datatype prompt_kind = User_Prompt | Synthetic_Prompt

text \<open>The prompts among the commands: kind, text, images, context.\<close>

fun as_prompt :: "agent_command \<Rightarrow> (prompt_kind \<times> string \<times> image_content list \<times> string option) option" where
  "as_prompt (Cmd_SendMessage t imgs) = Some (User_Prompt, t, imgs, None)"
| "as_prompt (Cmd_SendMessageWithContext t imgs ctx) = Some (User_Prompt, t, imgs, Some ctx)"
| "as_prompt (Cmd_SendSyntheticMessage t) = Some (Synthetic_Prompt, t, [], None)"
| "as_prompt (Cmd_PeerNote _ t) = Some (Synthetic_Prompt, t, [], None)"
| "as_prompt _ = None"

section \<open>State\<close>

datatype session_out =
    Turn_Out agent_event
  | Snapshot_Out session_snapshot
  | Prompt_Rejected_Out string
  | Unsupported_Snapshot u32

record 's session_cfg =
  sc_turn :: "'s turn_cfg"
  sc_persona :: string
  sc_resume :: "session_snapshot option"
  sc_loop_policy :: "tool_loop_policy option"
  sc_checkpoint :: "(session_snapshot \<Rightarrow> string option) option"
  sc_request_bound :: bool

record 's session =
  se_convo :: conversation
  se_world :: 's
  se_out :: "session_out list"
  se_guard :: "call_fingerprint list tool_loop_state option"
  se_turns :: u64
  se_requests :: u64
  se_pending :: "agent_command list"
  se_broker :: broker

definition say :: "session_out list \<Rightarrow> 's session \<Rightarrow> 's session" where
  "say outs se = se\<lparr>se_out := se_out se @ outs\<rparr>"

section \<open>The start of a session\<close>

definition fresh_conversation :: "string \<Rightarrow> conversation" where
  "fresh_conversation persona =
     (if persona = [] then conversation_new else conversation_push conversation_new (message_system persona))"

text \<open>The counters a session starts from: those of a supported snapshot, or of its messages if higher.\<close>

definition counter_seeds :: "session_snapshot option \<Rightarrow> u64 \<times> u64" where
  "counter_seeds resume =
     (case resume of
        Some s \<Rightarrow>
          (if version s = SNAPSHOT_VERSION
           then (let (dt, dr) = derive_counters (s_messages s) in (max (turn_counter s) dt, max (request_counter s) dr))
           else (0, 0))
      | None \<Rightarrow> (0, 0))"

definition session_seed :: "string \<Rightarrow> session_snapshot option \<Rightarrow> conversation \<times> bool \<times> session_out list" where
  "session_seed persona resume =
     (case resume of
        Some s \<Rightarrow>
          (if version s = SNAPSHOT_VERSION
           then (\<lparr>c_messages = repair_pairing (s_messages s), cache_epoch = s_cache_epoch s\<rparr>, True, [])
           else (fresh_conversation persona, False, [Unsupported_Snapshot (version s)]))
      | None \<Rightarrow> (fresh_conversation persona, False, []))"

definition session_begin :: "'s session_cfg \<Rightarrow> 's \<Rightarrow> (conversation \<Rightarrow> bool \<Rightarrow> conversation) \<Rightarrow> 's session" where
  "session_begin sc w hook =
     (let (c, resumed, outs) = session_seed (sc_persona sc) (sc_resume sc);
          (turns, requests) = counter_seeds (sc_resume sc)
      in \<lparr>se_convo = hook c resumed, se_world = w, se_out = outs,
          se_guard = map_option tool_loop_state_new (sc_loop_policy sc),
          se_turns = turns, se_requests = requests, se_pending = [], se_broker = broker_new (sc_request_bound sc)\<rparr>)"

section \<open>Between turns\<close>

definition snapshot_out :: "'s session \<Rightarrow> 's session" where
  "snapshot_out se = say [Snapshot_Out (capture_snapshot (se_turns se) (se_requests se) (se_convo se))] se"

text \<open>Compaction outside a turn: \<open>run_compaction\<close> on the session's conversation.\<close>

definition session_compact :: "'s session_cfg \<Rightarrow> round_env \<Rightarrow> compact_trigger \<Rightarrow> 's session \<Rightarrow> 's session" where
  "session_compact sc env trigger se =
     (let cfg = (sc_turn sc)\<lparr>cf_turn_id := se_turns se\<rparr>;
          idle = (turn_begin cfg (se_convo se) (se_world se) (se_requests se) (se_guard se))\<lparr>tu_events := []\<rparr>;
          st = run_compaction cfg env (sc_checkpoint sc) trigger idle
      in say (map Turn_Out (tu_events st)) (se\<lparr>se_convo := tu_convo st\<rparr>))"

section \<open>During a turn\<close>

record mid_turn =
  mi_steer :: "(string \<times> image_content list) list"
  mi_pending :: "agent_command list"
  mi_cancelled :: bool
  mi_internal :: bool
  mi_shutdown :: bool
  mi_broker :: broker

definition mid_cancel :: "mid_turn \<Rightarrow> mid_turn" where
  "mid_cancel m = m\<lparr>mi_cancelled := True, mi_broker := cancel_pending (mi_broker m), mi_steer := []\<rparr>"

definition mid_command :: "agent_command \<Rightarrow> mid_turn \<Rightarrow> mid_turn" where
  "mid_command c m =
     (case untagged c of
        Cmd_Respond i v \<Rightarrow> m\<lparr>mi_broker := resolve_request i v (mi_broker m)\<rparr>
      | Cmd_Shutdown \<Rightarrow> (mid_cancel m)\<lparr>mi_shutdown := True, mi_internal := True\<rparr>
      | Cmd_Cancel \<Rightarrow> mid_cancel m
      | Cmd_Snapshot \<Rightarrow> m\<lparr>mi_pending := mi_pending m @ [untagged c]\<rparr>
      | Cmd_SendSyntheticMessage _ \<Rightarrow> m\<lparr>mi_pending := mi_pending m @ [untagged c]\<rparr>
      | Cmd_PeerNote _ _ \<Rightarrow> m\<lparr>mi_pending := mi_pending m @ [untagged c]\<rparr>
      | Cmd_SendMessageWithContext _ _ _ \<Rightarrow> m\<lparr>mi_pending := mi_pending m @ [untagged c]\<rparr>
      | Cmd_Compact _ \<Rightarrow> m\<lparr>mi_pending := mi_pending m @ [untagged c]\<rparr>
      | Cmd_SendMessage t imgs \<Rightarrow> m\<lparr>mi_steer := mi_steer m @ [(t, imgs)]\<rparr>
      | _ \<Rightarrow> m)"

text \<open>What happens beside the turn during a pass: a command is served, or the turn asks the driver.\<close>

datatype pass_item = Served agent_command | Asks | Ask_Expires nat

fun mid_item :: "pass_item \<Rightarrow> mid_turn \<Rightarrow> mid_turn" where
  "mid_item (Served c) m = mid_command c m"
| "mid_item Asks m = m\<lparr>mi_broker := snd (request_start (mi_broker m))\<rparr>"
| "mid_item (Ask_Expires i) m = m\<lparr>mi_broker := request_expire i (mi_broker m)\<rparr>"

record pass =
  ps_items :: "pass_item list"
  ps_seen :: nat
  ps_cut :: nat
  ps_env :: round_env

text \<open>A pass that gets beyond its round cap takes the steering buffer.\<close>

definition drained :: "'s turn_cfg \<Rightarrow> pass \<Rightarrow> 's turn_state \<Rightarrow> mid_turn \<Rightarrow> mid_turn" where
  "drained cfg p st m =
     (case begin_round cfg (ps_env p) st of Next _ \<Rightarrow> m\<lparr>mi_steer := []\<rparr> | _ \<Rightarrow> m)"

definition pass_env :: "'s turn_cfg \<Rightarrow> pass \<Rightarrow> 's turn_state \<Rightarrow> mid_turn \<Rightarrow> round_env" where
  "pass_env cfg p st m =
     (ps_env p)\<lparr>rd_steered := mi_steer m,
       rd_steer_pending := mi_steer (fold mid_item (take (ps_seen p) (ps_items p)) (drained cfg p st m)) \<noteq> [],
       rd_internal_cancel := mi_internal (fold mid_item (take (ps_cut p) (ps_items p)) (drained cfg p st m))\<rparr>"

fun drive :: "'s turn_cfg \<Rightarrow> pass list \<Rightarrow> 's turn_state \<Rightarrow> mid_turn \<Rightarrow> ('s turn_state \<times> mid_turn) option" where
  "drive cfg [] st m = None"
| "drive cfg (p # ps) st m =
     (case round_step cfg (pass_env cfg p st m) st of
        Again st' \<Rightarrow> drive cfg ps st' (fold mid_item (ps_items p) (drained cfg p st m))
      | Ended r st' \<Rightarrow> Some (st', fold mid_item (ps_items p) (drained cfg p st m))
      | Next _ \<Rightarrow> None)"

section \<open>A prompt\<close>

text \<open>
  What the environment does to one prompt: the verdict of the submit hook, the plan of the compaction
  before the turn, the tools mounted when it starts, the hook at its start, what is served before the first
  pass, and the passes.
\<close>

record prompt_run =
  pr_verdict :: "string + string"
  pr_compaction :: round_env
  pr_tools :: mounted_snapshot
  pr_start :: "conversation \<Rightarrow> conversation"
  pr_first :: "pass_item list"
  pr_passes :: "pass list"

definition mid_start :: "'s session \<Rightarrow> mid_turn" where
  "mid_start se =
     \<lparr>mi_steer = [], mi_pending = se_pending se, mi_cancelled = False, mi_internal = False, mi_shutdown = False,
      mi_broker = se_broker se\<rparr>"

definition push_prompt :: "prompt_kind \<Rightarrow> string \<Rightarrow> image_content list \<Rightarrow> string option \<Rightarrow> conversation \<Rightarrow> conversation" where
  "push_prompt kind t imgs context c =
     (let c1 = (case context of
                  Some ctx \<Rightarrow> if trim_is_empty ctx then c else conversation_push c (synthetic_user ctx)
                | None \<Rightarrow> c)
      in conversation_push c1 (case kind of User_Prompt \<Rightarrow> user_with_images t imgs | Synthetic_Prompt \<Rightarrow> synthetic_user t))"

text \<open>The session as the turn finds it: the streak of a guard belongs to one intent of the user.\<close>

definition before_turn :: "'s session_cfg \<Rightarrow> prompt_run \<Rightarrow> prompt_kind \<Rightarrow> 's session \<Rightarrow> 's session" where
  "before_turn sc pr kind se =
     (let se1 = (if kind = User_Prompt then se\<lparr>se_guard := map_option tool_loop_reset (se_guard se)\<rparr> else se)
      in case should_compact (sc_turn sc) (se_convo se1) of
           Some trigger \<Rightarrow> session_compact sc (pr_compaction pr) trigger se1
         | None \<Rightarrow> se1)"

definition turn_cfg_for :: "'s session_cfg \<Rightarrow> prompt_run \<Rightarrow> 's session \<Rightarrow> 's turn_cfg" where
  "turn_cfg_for sc pr se =
     (sc_turn sc)\<lparr>cf_turn_id := se_turns se + 1, cf_rollback_len := length (c_messages (se_convo se)), cf_tools := pr_tools pr\<rparr>"

definition after_turn :: "u64 \<Rightarrow> 's turn_state \<Rightarrow> mid_turn \<Rightarrow> 's session \<Rightarrow> 's session" where
  "after_turn turn_no st m se =
     (say (map Turn_Out (tu_events st)) se)
       \<lparr>se_convo := tu_convo st, se_world := tu_world st, se_guard := tu_guard st, se_turns := turn_no,
        se_requests := tu_request st,
        se_pending := mi_pending m @ map (\<lambda>(t, imgs). Cmd_SendMessage t imgs) (mi_steer m), se_broker := mi_broker m\<rparr>"

text \<open>\<open>None\<close>: the turn is still under way behind the given passes. The flag: a shutdown was served.\<close>

definition process_send_message ::
  "'s session_cfg \<Rightarrow> prompt_run \<Rightarrow> prompt_kind \<times> string \<times> image_content list \<times> string option \<Rightarrow> 's session
   \<Rightarrow> ('s session \<times> bool) option" where
  "process_send_message sc pr pmt se =
     (case pmt of (kind, _, imgs, context) \<Rightarrow>
        (case pr_verdict pr of
           Inl reason \<Rightarrow> Some (say [Prompt_Rejected_Out reason, Turn_Out (Turn_Complete PromptRejected)] se, False)
         | Inr t \<Rightarrow>
             (let se1 = before_turn sc pr kind se;
                  cfg = turn_cfg_for sc pr se1;
                  start = turn_begin cfg (pr_start pr (push_prompt kind t imgs context (se_convo se1)))
                            (se_world se1) (se_requests se1) (se_guard se1)
              in case drive cfg (pr_passes pr) start (fold mid_item (pr_first pr) (mid_start se1)) of
                   None \<Rightarrow> None
                 | Some (st, m) \<Rightarrow>
                     (let se2 = after_turn (cf_turn_id cfg) st m se1
                      in Some (if mi_shutdown m then snapshot_out se2 else se2, mi_shutdown m)))))"

section \<open>The loops\<close>

text \<open>
  The script holds one \<open>prompt_run\<close> for every command that needs the environment, in the order they are
  served. \<open>None\<close>: a turn is under way, or the script is used up.
\<close>

function drain_pending ::
  "'s session_cfg \<Rightarrow> prompt_run list \<Rightarrow> 's session \<Rightarrow> ('s session \<times> prompt_run list \<times> bool) option" where
  "drain_pending sc script se =
     (case se_pending se of
        [] \<Rightarrow> Some (se, script, False)
      | c # rest \<Rightarrow>
          (let se1 = se\<lparr>se_pending := rest\<rparr>
           in case c of
                Cmd_Snapshot \<Rightarrow> drain_pending sc script (snapshot_out se1)
              | Cmd_Compact topic \<Rightarrow>
                  (case script of
                     [] \<Rightarrow> None
                   | pr # script' \<Rightarrow> drain_pending sc script' (session_compact sc (pr_compaction pr) (Manual topic) se1))
              | _ \<Rightarrow>
                  (case as_prompt c of
                     None \<Rightarrow> drain_pending sc script se1
                   | Some pmt \<Rightarrow>
                       (case script of
                          [] \<Rightarrow> None
                        | pr # script' \<Rightarrow>
                            (case process_send_message sc pr pmt se1 of
                               None \<Rightarrow> None
                             | Some (se2, gone) \<Rightarrow> if gone then Some (se2, script', True) else drain_pending sc script' se2)))))"
  by pat_completeness auto
termination
  by (relation "measures [\<lambda>(_, script, _). length script, \<lambda>(_, _, se). length (se_pending se)]")
    (auto simp: snapshot_out_def say_def)

declare drain_pending.simps [simp del]

definition serve_prompt ::
  "'s session_cfg \<Rightarrow> prompt_run list \<Rightarrow> prompt_kind \<times> string \<times> image_content list \<times> string option \<Rightarrow> 's session
   \<Rightarrow> ('s session \<times> prompt_run list \<times> bool) option" where
  "serve_prompt sc script pmt se =
     (case script of
        [] \<Rightarrow> None
      | pr # script' \<Rightarrow>
          (case process_send_message sc pr pmt se of
             None \<Rightarrow> None
           | Some (se1, gone) \<Rightarrow> if gone then Some (se1, script', True) else drain_pending sc script' se1))"

fun session_loop ::
  "'s session_cfg \<Rightarrow> prompt_run list \<Rightarrow> agent_command list \<Rightarrow> 's session \<Rightarrow> ('s session \<times> prompt_run list \<times> bool) option" where
  "session_loop sc script [] se = Some (se, script, False)"
| "session_loop sc script (c # cmds) se =
     (case untagged c of
        Cmd_Shutdown \<Rightarrow> Some (se, script, True)
      | Cmd_Cancel \<Rightarrow> session_loop sc script cmds (se\<lparr>se_broker := cancel_pending (se_broker se)\<rparr>)
      | Cmd_Respond i v \<Rightarrow> session_loop sc script cmds (se\<lparr>se_broker := resolve_request i v (se_broker se)\<rparr>)
      | Cmd_Snapshot \<Rightarrow> session_loop sc script cmds (snapshot_out se)
      | Cmd_Compact topic \<Rightarrow>
          (case script of
             [] \<Rightarrow> None
           | pr # script' \<Rightarrow> session_loop sc script' cmds (session_compact sc (pr_compaction pr) (Manual topic) se))
      | _ \<Rightarrow>
          (case as_prompt (untagged c) of
             None \<Rightarrow> session_loop sc script cmds se
           | Some pmt \<Rightarrow>
               (case serve_prompt sc script pmt se of
                  None \<Rightarrow> None
                | Some (se1, script', gone) \<Rightarrow>
                    if gone then Some (se1, script', True) else session_loop sc script' cmds se1)))"

end
