(* ===== verification/Turn_Events.thy ===== *)
theory Turn_Events
  imports Turn_History
begin

text \<open>
  What a turn tells the driver: it only ever adds to its events, says that it is complete exactly when
  it ends, and says nothing behind that; and every pass says which steering inputs it has taken.
\<close>

fun boundary :: "agent_event \<Rightarrow> bool" where
  "boundary Turn_Started \<longleftrightarrow> True"
| "boundary (Turn_Complete _) \<longleftrightarrow> True"
| "boundary _ \<longleftrightarrow> False"

text \<open>The steering inputs a turn says it has taken.\<close>

fun inputs_of :: "agent_event \<Rightarrow> (string \<times> image_content list) list" where
  "inputs_of (Steered_In inputs) = inputs"
| "inputs_of _ = []"

definition inputs_in :: "agent_event list \<Rightarrow> (string \<times> image_content list) list" where
  "inputs_in es = concat (map inputs_of es)"

lemma inputs_in_simps [simp]:
  "inputs_in [] = []" "inputs_in (e # es) = inputs_of e @ inputs_in es" "inputs_in (es @ fs) = inputs_in es @ inputs_in fs"
  by (simp_all add: inputs_in_def)

definition silent :: "agent_event list \<Rightarrow> bool" where
  "silent es \<longleftrightarrow> list_all (\<lambda>e. \<not> boundary e \<and> inputs_of e = []) es"

lemma silent_simps [simp]:
  "silent []" "silent (e # es) \<longleftrightarrow> \<not> boundary e \<and> inputs_of e = [] \<and> silent es"
  "silent (es @ fs) \<longleftrightarrow> silent es \<and> silent fs"
  by (auto simp: silent_def)

lemma silent_map [simp]: "(\<And>x. \<not> boundary (f x)) \<Longrightarrow> (\<And>x. inputs_of (f x) = []) \<Longrightarrow> silent (map f xs)"
  by (induction xs) simp_all

lemma silent_inputs: "silent es \<Longrightarrow> inputs_in es = [] \<and> \<not> list_ex boundary es"
  by (induction es) (auto simp: inputs_in_def)

definition adds :: "'s turn_state \<Rightarrow> 's turn_state \<Rightarrow> bool" where
  "adds st st' \<longleftrightarrow> (\<exists>es. tu_events st' = tu_events st @ es \<and> silent es)"

definition announces :: "'s turn_state \<Rightarrow> ('s, 'a) flow \<Rightarrow> bool" where
  "announces st fl \<longleftrightarrow>
     (\<forall>st'. fl = Again st' \<longrightarrow> adds st st')
     \<and> (\<forall>r st'. fl = Ended r st' \<longrightarrow> (\<exists>es. tu_events st' = tu_events st @ es @ [Turn_Complete r] \<and> silent es))"

lemma adds_refl [simp]: "adds st st"
  by (simp add: adds_def)

lemma adds_trans: "adds a b \<Longrightarrow> adds b c \<Longrightarrow> adds a c"
  by (auto simp: adds_def)

lemma adds_events: "tu_events st' = tu_events st @ es \<Longrightarrow> silent es \<Longrightarrow> adds st st'"
  by (auto simp: adds_def)

lemma adds_more: "tu_events c = tu_events b @ es \<Longrightarrow> silent es \<Longrightarrow> adds a b \<Longrightarrow> adds a c"
  by (auto simp: adds_def)

lemma announces_trans: "adds a b \<Longrightarrow> announces b fl \<Longrightarrow> announces a fl"
  by (fastforce simp: announces_def adds_def)

lemma announces_Next [simp]: "announces st (Next x)"
  by (simp add: announces_def)

lemma announces_Again [simp]: "announces st (Again st') \<longleftrightarrow> adds st st'"
  by (simp add: announces_def)

lemma announces_replay [simp]: "announces st (replay st') \<longleftrightarrow> adds st st'"
  by (simp add: announces_def replay_def adds_def)

lemma announces_finish: "adds st st' \<Longrightarrow> announces st (finish_turn r st')"
  by (auto simp: announces_def finish_turn_def adds_def)

lemma announces_bind:
  "announces st fl \<Longrightarrow> (\<And>a. fl = Next a \<Longrightarrow> announces st (f a)) \<Longrightarrow> announces st (bind_flow fl f)"
  by (cases fl) (simp_all add: announces_def)

lemma announces_cancelled: "adds st st' \<Longrightarrow> announces st (finish_cancelled cfg env st')"
  unfolding finish_cancelled_def by (rule announces_finish) (auto simp: adds_def)

lemma announces_wait: "adds st st' \<Longrightarrow> announces st k \<Longrightarrow> announces st (wait_then cfg env st' k)"
  by (simp add: wait_then_def announces_cancelled)

section \<open>The pieces\<close>

lemma adds_compaction: "adds st (run_compaction cfg env cp trigger st)"
  unfolding run_compaction_def Let_def split_beta
  by (split option.split) (auto simp: adds_def)

lemma adds_internal: "adds st (compact_before_internal_continuation cfg env st)"
  using adds_compaction [of "st\<lparr>tu_stages := s\<rparr>" cfg env None t for s t]
  by (auto simp: compact_before_internal_continuation_def Let_def adds_def split: option.split)

lemma adds_fold_push: "tu_events (fold (\<lambda>(t, imgs). push_msg (user_with_images t imgs)) xs st) = tu_events st"
  by (induction xs arbitrary: st) auto

lemma fold_steered_events:
  "tu_events (fold_steered env st) = tu_events st @ (if rd_steered env = [] then [] else [Steered_In (rd_steered env)])"
  by (simp add: fold_steered_def adds_fold_push)

lemma adds_emergency: "adds st (fst (emergency_compaction cfg env limit left k st pm))"
proof (induction cfg env limit left k st pm rule: emergency_compaction.induct)
  case (2 cfg env limit left k st msgs appended)
  let ?st' = "run_compaction cfg env None (Overflow (word_of_nat k)) st"
  obtain msgs' ok where proj: "project_request env (Suc k) (c_messages (tu_convo ?st')) = (msgs', ok)" by fastforce
  show ?case
  proof (cases "unat limit \<le> estimated msgs")
    case True
    have "adds ?st' (fst (emergency_compaction cfg env limit left (Suc k) ?st' (msgs', appended \<and> ok)))"
      by (rule 2 [OF True refl refl proj [symmetric]])
    then show ?thesis using True adds_trans [OF adds_compaction] by (simp add: Let_def proj)
  qed simp
qed simp

lemma adds_prepare: "adds st (fst (prepare_request cfg env st))"
proof -
  let ?stored = "c_messages (tu_convo st)"
  let ?window = "effective_compact_window (cf_context_window cfg) (fst (last_pressure ?stored))"
  obtain st1 msgs appended where em:
    "emergency_compaction cfg env (effective_input_limit ?window (cf_max_tokens cfg))
      (if list_ex (\<lambda>m. m_role m = Assistant) ?stored \<and> 0 < ?window then MAX_OVERFLOW_ATTEMPTS else 0) 0 st
      (project_request env 0 ?stored) = (st1, msgs, appended)"
    by (metis surj_pair)
  then have "adds st st1" using adds_emergency by (metis fst_conv)
  then show ?thesis
    unfolding prepare_request_def Let_def em prod.case
    by (auto simp: split_beta adds_def split: option.split bool.split)
qed

lemma announces_begin: "announces st (begin_round cfg env st)"
  by (auto simp: begin_round_def Let_def adds_def split: option.split intro!: announces_finish announces_cancelled)

lemma announces_rate_limited: "announces st (rate_limited cfg env e st)"
  by (auto simp: rate_limited_def Let_def split_beta adds_def split: rate_limit_decision.split
      intro!: announces_finish announces_wait)

lemma announces_open: "announces st (open_stream cfg env st)"
proof -
  have "adds st (run_compaction cfg env None t (emit [Warning w] st))" for t w
    by (rule adds_trans [OF _ adds_compaction]) (simp add: adds_def)
  then have "adds st ((run_compaction cfg env None t (emit [Warning w] st))\<lparr>tu_overflow := n\<rparr>)" for t w n
    by (simp add: adds_def)
  then show ?thesis
    by (auto simp: open_stream_def Let_def split: open_outcome.split
        intro!: announces_rate_limited announces_cancelled announces_finish announces_wait) (auto simp: adds_def)
qed

lemma announces_idle: "announces st (idle_timeout cfg env acc st)"
  by (auto simp: idle_timeout_def Let_def adds_def persisted_def split: if_split_asm intro!: announces_wait announces_finish)

lemma announces_tripped: "announces st (reasoning_tripped cfg env acc st)"
  by (auto simp: reasoning_tripped_def Let_def adds_def split: option.split sum.split intro!: announces_finish)

lemma announces_stream_error: "announces st (stream_error cfg env e acc st)"
  by (auto simp: stream_error_def Let_def adds_def persisted_def intro!: announces_finish)

lemma announces_stream_limited: "announces st (stream_rate_limited cfg env e acc st)"
  by (auto simp: stream_rate_limited_def split_beta adds_def persisted_def intro!: announces_finish announces_rate_limited)

lemma silent_absorb: "silent (snd (absorb hidden ev hooked acc))"
  by (cases ev) (auto simp: Let_def)

lemma announces_consume:
  "announces st (consume cfg env arrs st acc)
   \<and> (\<forall>st' acc'. consume cfg env arrs st acc = Next (st', acc') \<longrightarrow> adds st st')"
proof (induction arrs st acc rule: consume_induct [where cfg = cfg])
  case (tripped ev hooked rest st acc det)
  then show ?case by (simp add: consume_tripped announces_tripped)
next
  case (failed e hooked rest st acc det)
  then show ?case by (simp add: consume_Error announces_stream_limited announces_stream_error)
next
  case (plain ev hooked rest st acc det)
  let ?ab = "absorb (suppressed st) ev hooked (acc\<lparr>sa_detector := det\<rparr>)"
  have "adds st (emit (snd ?ab) st)" by (auto simp: adds_def silent_absorb)
  then show ?case
    using plain(3) announces_trans adds_trans unfolding consume_plain [OF plain(1,2)] by blast
qed (auto simp: consume_Done announces_idle intro!: announces_cancelled)

lemma announces_settle: "announces st (settle cfg env msgs acc st)"
  by (auto simp: settle_def Let_def adds_def intro!: announces_wait announces_finish)

lemma adds_respond: "respond cfg env msgs acc st = (st', m, t) \<Longrightarrow> adds st st'"
  by (auto simp: respond_def Let_def adds_def)

lemma adds_nudged: "adds st st1 \<Longrightarrow> adds st (push_msg m (compact_before_internal_continuation cfg env st1))"
  by (rule adds_more [of _ "compact_before_internal_continuation cfg env st1" "[]"])
    (simp_all add: adds_trans [OF _ adds_internal])

lemma announces_no_tools: "announces st (no_tools cfg env was_cut t st)"
proof -
  have "adds st ((compact_before_internal_continuation cfg env st1)\<lparr>tu_internal := x\<rparr>)" if "adds st st1" for st1 x
    using adds_trans [OF that adds_internal, of cfg env] by (simp add: adds_def)
  then have "adds st (push_msg m ((compact_before_internal_continuation cfg env st1)\<lparr>tu_internal := x\<rparr>))"
    if "adds st st1" for st1 x m
    using that by (simp add: adds_def)
  then show ?thesis
    unfolding no_tools_def Let_def stop_turn_def
    by (auto split: option.split intro!: adds_nudged announces_finish announces_cancelled) (auto simp: adds_def)
qed

lemma announces_fuse: "announces st (coarse_fuse sig streak st)"
  by (auto simp: coarse_fuse_def Let_def adds_def intro!: announces_finish)

lemma announces_after_batch: "announces st (after_batch steer sig imgs print st)"
proof -
  have "adds st st1 \<Longrightarrow> announces st (coarse_fuse sig streak st1)" for streak and st1 :: "'a turn_state"
    by (rule announces_trans [OF _ announces_fuse])
  then have "announces s (after_batch steer sig [] print s)" for s :: "'a turn_state"
    unfolding after_batch_def Let_def
    by (auto split: option.split prod.split tool_loop_decision.split intro!: announces_finish announces_trans [OF _ announces_fuse])
      (auto simp: adds_def)
  then show ?thesis
    using announces_trans [of st "push_msg (synthetic_user_with_images TOOL_IMAGES_NOTE imgs) st"]
    by (subst after_batch_images) (auto simp: adds_def)
qed

lemma adds_run_batch: "run_batch cfg env was_cut batched calls st = (cancelled, ap, st1) \<Longrightarrow> adds st st1"
  by (auto simp: run_batch_def Let_def split_beta adds_def)

lemma announces_run_tools: "announces st (run_tools cfg env was_cut calls st)"
proof -
  let ?whole = "distinct_tool_call_count (cf_serde cfg) calls"
  let ?st = "if 2 \<le> ?whole then emit [Batch_Started calls] st else st"
  obtain cancelled ap st1 where run: "run_batch cfg env was_cut (2 \<le> ?whole) calls ?st = (cancelled, ap, st1)"
    by (metis surj_pair)
  have "adds st ?st" by (simp add: adds_def)
  then have "adds st st1" using adds_run_batch [OF run] by (rule adds_trans)
  then have closed: "adds st (batch_closed batched ok whole st1)"
    and opened: "adds st (batch_closed batched ok whole ?st)" for batched ok whole
    using \<open>adds st ?st\<close> by (auto intro: adds_more [OF batch_closed_events])
  have denied: "adds st (emit (case x of Some i \<Rightarrow> [Intervention_Out i] | None \<Rightarrow> []) (batch_closed batched ok whole st1))"
    for x batched ok whole
    by (rule adds_more [OF emit_fields(3) _ closed]) (simp split: option.split)
  show ?thesis
    unfolding run_tools_def Let_def run prod.case
    by (simp add: announces_cancelled opened closed announces_finish denied announces_trans [OF closed announces_after_batch]
        split del: if_split split: if_split)
qed

section \<open>The loop\<close>

lemma announces_from_stream:
  "announces st (bind_flow (open_stream cfg env st)
     (\<lambda>st3. bind_flow (consume cfg env (rd_arrivals env) st3 (acc_start env)) (after_stream cfg env msgs)))"
proof (rule announces_bind [OF announces_open])
  fix st3 assume "open_stream cfg env st = Next st3"
  then have "adds st st3" by (auto dest: open_stream_Next simp: adds_def)
  moreover have "announces st3 (bind_flow (consume cfg env (rd_arrivals env) st3 (acc_start env)) (after_stream cfg env msgs))"
  proof (rule announces_bind [OF conjunct1 [OF announces_consume]])
    fix sa assume sa: "consume cfg env (rd_arrivals env) st3 (acc_start env) = Next sa"
    obtain st4 acc where sa_eq: "sa = (st4, acc)" by fastforce
    have st4: "adds st3 st4" using announces_consume sa sa_eq by blast
    have "announces st4 (after_stream cfg env msgs (st4, acc))"
      unfolding after_stream_def fst_conv snd_conv
    proof (rule announces_bind [OF announces_settle])
      fix st5 assume "settle cfg env msgs acc st4 = Next st5"
      then have st5: "adds st4 st5" by (auto dest: settle_Next simp: adds_def)
      obtain st6 m t where r: "respond cfg env msgs acc st5 = (st6, m, t)" by (metis surj_pair)
      from adds_trans [OF st5 adds_respond [OF r]]
      show "announces st4 (let (st1, m, text) = respond cfg env msgs acc st5
          in if tool_calls m = [] then no_tools cfg env (sa_cut acc) text st1
             else run_tools cfg env (sa_cut acc) (tool_calls m) st1)"
        by (auto simp: r intro: announces_trans [OF _ announces_no_tools] announces_trans [OF _ announces_run_tools])
    qed
    with st4 sa_eq show "announces st3 (after_stream cfg env msgs sa)" by (auto intro: announces_trans)
  qed
  ultimately show "announces st (bind_flow (consume cfg env (rd_arrivals env) st3 (acc_start env)) (after_stream cfg env msgs))"
    by (rule announces_trans)
qed

text \<open>What a pass says: the inputs it takes, and, when the turn ends, once and last, that it is complete.\<close>

definition taken_inputs :: "'s turn_cfg \<Rightarrow> round_env \<Rightarrow> 's turn_state \<Rightarrow> (string \<times> image_content list) list" where
  "taken_inputs cfg env st = (case begin_round cfg env st of Next _ \<Rightarrow> rd_steered env | _ \<Rightarrow> [])"

lemma round_events:
  assumes "round_step cfg env st = Again st' \<or> round_step cfg env st = Ended r st'"
  shows "\<exists>es. tu_events st' = tu_events st @ es @ (if round_step cfg env st = Again st' then [] else [Turn_Complete r])
    \<and> \<not> list_ex boundary es \<and> inputs_in es = taken_inputs cfg env st"
proof (cases "begin_round cfg env st")
  case (Next st1)
  then have st1: "adds st st1" by (auto simp: begin_round_def Let_def adds_def split: option.split_asm if_split_asm)
  obtain st2 msgs where prep: "prepare_request cfg env (fold_steered env st1) = (st2, msgs)" by (metis surj_pair)
  then have "adds (fold_steered env st1) st2" using adds_prepare by (metis fst_conv)
  then obtain es1 es2 where st2: "tu_events st2 = tu_events st @ es1 @ (if rd_steered env = [] then [] else [Steered_In (rd_steered env)]) @ es2"
    and quiet: "silent es1" "silent es2"
    using st1 by (auto simp: adds_def fold_steered_events)
  let ?rest = "bind_flow (open_stream cfg env st2)
      (\<lambda>st3. bind_flow (consume cfg env (rd_arrivals env) st3 (acc_start env)) (after_stream cfg env msgs))"
  have step: "round_step cfg env st = ?rest" by (simp add: round_step_def Next prep)
  obtain es where es: "tu_events st' = tu_events st2 @ es @ (if round_step cfg env st = Again st' then [] else [Turn_Complete r])" "silent es"
    using assms announces_from_stream [of st2 cfg env msgs] unfolding step announces_def adds_def by fastforce
  show ?thesis
    using es quiet silent_inputs [OF quiet(1)] silent_inputs [OF quiet(2)] silent_inputs [OF es(2)]
    by (intro exI [of _ "es1 @ (if rd_steered env = [] then [] else [Steered_In (rd_steered env)]) @ es2 @ es"])
      (auto simp: st2 taken_inputs_def Next)
next
  case (Again st1)
  then show ?thesis
    using assms announces_begin [of st cfg env] silent_inputs by (auto simp: round_step_def announces_def adds_def taken_inputs_def)
next
  case (Ended r1 st1)
  then show ?thesis
    using assms announces_begin [of st cfg env] silent_inputs by (fastforce simp: round_step_def announces_def adds_def taken_inputs_def)
qed

end
