(* ===== verification/Session_Laws.thy ===== *)
theory Session_Laws
  imports Agent_Session Turn_Events
begin

text \<open>
  What a session keeps: a turn driven beside the commands is a turn; every prompt ends once; no message
  sent during a turn is lost; the stored history stays accepted from one turn to the next.
\<close>

section \<open>What a driven turn says and takes\<close>

text \<open>The items of a turn: what is sent to steer it, what is queued behind it, and whether it is cancelled.\<close>

fun item_input :: "pass_item \<Rightarrow> (string \<times> image_content list) option" where
  "item_input (Served c) = (case untagged c of Cmd_SendMessage t imgs \<Rightarrow> Some (t, imgs) | _ \<Rightarrow> None)"
| "item_input _ = None"

definition sent_inputs :: "pass_item list \<Rightarrow> (string \<times> image_content list) list" where
  "sent_inputs items = List.map_filter item_input items"

fun item_queued :: "pass_item \<Rightarrow> agent_command option" where
  "item_queued (Served c) =
     (case untagged c of
        Cmd_Snapshot \<Rightarrow> Some Cmd_Snapshot
      | Cmd_SendSyntheticMessage t \<Rightarrow> Some (Cmd_SendSyntheticMessage t)
      | Cmd_PeerNote f t \<Rightarrow> Some (Cmd_PeerNote f t)
      | Cmd_SendMessageWithContext t imgs ctx \<Rightarrow> Some (Cmd_SendMessageWithContext t imgs ctx)
      | Cmd_Compact topic \<Rightarrow> Some (Cmd_Compact topic)
      | _ \<Rightarrow> None)"
| "item_queued _ = None"

definition queued_commands :: "pass_item list \<Rightarrow> agent_command list" where
  "queued_commands items = List.map_filter item_queued items"

fun item_cancels :: "pass_item \<Rightarrow> bool" where
  "item_cancels (Served c) \<longleftrightarrow> untagged c = Cmd_Cancel \<or> untagged c = Cmd_Shutdown"
| "item_cancels _ \<longleftrightarrow> False"

definition undisturbed :: "pass_item list \<Rightarrow> bool" where
  "undisturbed items \<longleftrightarrow> \<not> list_ex item_cancels items"

lemma item_lists [simp]:
  "sent_inputs [] = []" "sent_inputs (x # xs) = (case item_input x of Some i \<Rightarrow> [i] | None \<Rightarrow> []) @ sent_inputs xs"
  "sent_inputs (xs @ ys) = sent_inputs xs @ sent_inputs ys"
  "queued_commands [] = []" "queued_commands (x # xs) = (case item_queued x of Some i \<Rightarrow> [i] | None \<Rightarrow> []) @ queued_commands xs"
  "queued_commands (xs @ ys) = queued_commands xs @ queued_commands ys"
  "undisturbed []" "undisturbed (x # xs) \<longleftrightarrow> \<not> item_cancels x \<and> undisturbed xs"
  "undisturbed (xs @ ys) \<longleftrightarrow> undisturbed xs \<and> undisturbed ys"
  by (auto simp: sent_inputs_def queued_commands_def undisturbed_def map_filter_def split: option.split)

lemma mid_item_effect:
  "mi_pending (mid_item x m) = mi_pending m @ (case item_queued x of Some c \<Rightarrow> [c] | None \<Rightarrow> [])"
  "\<not> item_cancels x \<Longrightarrow> mi_steer (mid_item x m) = mi_steer m @ (case item_input x of Some i \<Rightarrow> [i] | None \<Rightarrow> [])"
  "subseq (mi_steer (mid_item x m)) (mi_steer m @ (case item_input x of Some i \<Rightarrow> [i] | None \<Rightarrow> []))"
  "\<not> item_cancels x \<Longrightarrow> mi_shutdown (mid_item x m) = mi_shutdown m"
  by (cases x; auto simp: mid_command_def mid_cancel_def split: agent_command.split)+

lemma mid_items_effect:
  "mi_pending (fold mid_item items m) = mi_pending m @ queued_commands items"
  "undisturbed items \<Longrightarrow> mi_steer (fold mid_item items m) = mi_steer m @ sent_inputs items"
  "subseq (mi_steer (fold mid_item items m)) (mi_steer m @ sent_inputs items)"
  "undisturbed items \<Longrightarrow> mi_shutdown (fold mid_item items m) = mi_shutdown m"
proof (induction items arbitrary: m)
  case (Cons x items)
  { case 1 then show ?case by (simp add: Cons.IH mid_item_effect) }
  { case 2 then show ?case by (simp add: Cons.IH mid_item_effect) }
  { case 3
    have "subseq (mi_steer (mid_item x m) @ sent_inputs items)
        ((mi_steer m @ (case item_input x of Some i \<Rightarrow> [i] | None \<Rightarrow> [])) @ sent_inputs items)"
      using mid_item_effect(3) by (rule list_emb_append_mono) simp
    then show ?case using subseq_order.trans [OF Cons.IH(3) [of "mid_item x m"]] by simp }
  { case 4 then show ?case by (simp add: Cons.IH mid_item_effect) }
qed simp_all

lemma begin_round_env:
  "(\<exists>x. begin_round cfg (pass_env cfg p st m) st = Next x) \<longleftrightarrow> (\<exists>x. begin_round cfg (ps_env p) st = Next x)"
  by (simp add: begin_round_def Let_def pass_env_def split: option.split)

lemma taken_and_left: "taken_inputs cfg (pass_env cfg p st m) st @ mi_steer (drained cfg p st m) = mi_steer m"
proof -
  have "rd_steered (pass_env cfg p st m) = mi_steer m" by (simp add: pass_env_def)
  then show ?thesis
    using begin_round_env [of cfg p st m]
    by (auto simp: taken_inputs_def drained_def split: flow.splits)
qed

lemma drained_fields [simp]: "mi_pending (drained cfg p st m) = mi_pending m" "mi_shutdown (drained cfg p st m) = mi_shutdown m"
  by (simp_all add: drained_def split: flow.split)

text \<open>
  What is served during a driven turn: the items of the passes the turn makes, from where it stands to its end.
\<close>

fun turn_items :: "'s turn_cfg \<Rightarrow> pass list \<Rightarrow> 's turn_state \<Rightarrow> mid_turn \<Rightarrow> pass_item list" where
  "turn_items cfg [] st m = []"
| "turn_items cfg (p # ps) st m =
     ps_items p @
     (case round_step cfg (pass_env cfg p st m) st of
        Again st' \<Rightarrow> turn_items cfg ps st' (fold mid_item (ps_items p) (drained cfg p st m))
      | _ \<Rightarrow> [])"

text \<open>The same for a whole prompt, with what is served before the first pass.\<close>

definition prompt_items ::
  "'s session_cfg \<Rightarrow> prompt_run \<Rightarrow> prompt_kind \<Rightarrow> string \<Rightarrow> image_content list \<Rightarrow> string option \<Rightarrow> 's session \<Rightarrow> pass_item list" where
  "prompt_items sc pr kind t imgs context se =
     (let se1 = before_turn sc pr kind se;
          cfg = turn_cfg_for sc pr se1;
          start = turn_begin cfg (pr_start pr (push_prompt kind t imgs context (se_convo se1)))
                    (se_world se1) (se_requests se1) (se_guard se1)
      in pr_first pr @ turn_items cfg (pr_passes pr) start (fold mid_item (pr_first pr) (mid_start se1)))"

text \<open>The accounts of a driven turn: what was in the buffer and what was sent is taken or left, in order.\<close>

lemma drive_accounts:
  "drive cfg ps st m = Some (st', m') \<Longrightarrow>
   \<exists>es r. tu_events st' = tu_events st @ es @ [Turn_Complete r] \<and> \<not> list_ex boundary es
     \<and> mi_pending m' = mi_pending m @ queued_commands (turn_items cfg ps st m)
     \<and> subseq (inputs_in es @ mi_steer m') (mi_steer m @ sent_inputs (turn_items cfg ps st m))
     \<and> (undisturbed (turn_items cfg ps st m) \<longrightarrow>
         inputs_in es @ mi_steer m' = mi_steer m @ sent_inputs (turn_items cfg ps st m) \<and> mi_shutdown m' = mi_shutdown m)"
proof (induction ps arbitrary: st m)
  case (Cons p ps)
  let ?env = "pass_env cfg p st m" and ?m = "fold mid_item (ps_items p) (drained cfg p st m)"
  have taken: "taken_inputs cfg ?env st @ mi_steer (drained cfg p st m) = mi_steer m" by (rule taken_and_left)
  have here: "subseq (taken_inputs cfg ?env st @ mi_steer ?m) (mi_steer m @ sent_inputs (ps_items p))"
    unfolding taken [symmetric] append_assoc by (intro list_emb_append_mono mid_items_effect) simp
  have still: "taken_inputs cfg ?env st @ mi_steer ?m = mi_steer m @ sent_inputs (ps_items p)" if "undisturbed (ps_items p)"
    using mid_items_effect(2) [OF that] taken by (metis append_assoc)
  show ?case
  proof (cases "round_step cfg ?env st")
    case (Again st1)
    let ?items = "turn_items cfg ps st1 ?m"
    obtain es1 where es1: "tu_events st1 = tu_events st @ es1" "\<not> list_ex boundary es1" "inputs_in es1 = taken_inputs cfg ?env st"
      using round_events [of cfg ?env st st1 undefined] Again by auto
    have "drive cfg ps st1 ?m = Some (st', m')" using Cons.prems Again by simp
    from Cons.IH [OF this] obtain es r where rest: "tu_events st' = tu_events st1 @ es @ [Turn_Complete r]"
      "\<not> list_ex boundary es" "mi_pending m' = mi_pending ?m @ queued_commands ?items"
      "subseq (inputs_in es @ mi_steer m') (mi_steer ?m @ sent_inputs ?items)"
      "undisturbed ?items \<longrightarrow>
        inputs_in es @ mi_steer m' = mi_steer ?m @ sent_inputs ?items \<and> mi_shutdown m' = mi_shutdown ?m"
      by blast
    have "subseq (inputs_in es1 @ inputs_in es @ mi_steer m') (taken_inputs cfg ?env st @ mi_steer ?m @ sent_inputs ?items)"
      unfolding es1(3) by (intro list_emb_append_mono rest(4)) simp
    moreover have "subseq ((taken_inputs cfg ?env st @ mi_steer ?m) @ sent_inputs ?items)
        ((mi_steer m @ sent_inputs (ps_items p)) @ sent_inputs ?items)"
      by (intro list_emb_append_mono here) simp
    ultimately have "subseq (inputs_in (es1 @ es) @ mi_steer m') (mi_steer m @ sent_inputs (ps_items p @ ?items))"
      by (simp add: subseq_order.trans)
    moreover have "inputs_in (es1 @ es) @ mi_steer m' = mi_steer m @ sent_inputs (ps_items p @ ?items) \<and> mi_shutdown m' = mi_shutdown m"
      if "undisturbed (ps_items p @ ?items)"
      using that rest(5) still es1(3) mid_items_effect(4) [of "ps_items p" "drained cfg p st m"]
      by simp
    ultimately show ?thesis
      using rest(1-3) es1(1,2) Again
      by (intro exI [of _ "es1 @ es"] exI [of _ r]) (simp add: mid_items_effect(1))
  next
    case (Ended r st1)
    then have st1: "st' = st1" "m' = ?m" using Cons.prems by simp_all
    obtain es where "tu_events st1 = tu_events st @ es @ [Turn_Complete r]" "\<not> list_ex boundary es"
        "inputs_in es = taken_inputs cfg ?env st"
      using round_events [of cfg ?env st st1 r] Ended by auto
    then show ?thesis
      using here still mid_items_effect(4) [of "ps_items p" "drained cfg p st m"] Ended
      by (intro exI [of _ es] exI [of _ r]) (simp add: mid_items_effect(1) st1)
  qed (use Cons.prems in simp)
qed simp

section \<open>One end for every prompt\<close>

fun out_ends :: "session_out \<Rightarrow> bool" where
  "out_ends (Turn_Out e) \<longleftrightarrow> boundary e"
| "out_ends _ \<longleftrightarrow> False"

lemma say_fields [simp]:
  "se_out (say outs se) = se_out se @ outs" "se_convo (say outs se) = se_convo se" "se_pending (say outs se) = se_pending se"
  "se_turns (say outs se) = se_turns se" "se_requests (say outs se) = se_requests se" "se_world (say outs se) = se_world se"
  "se_guard (say outs se) = se_guard se" "se_broker (say outs se) = se_broker se"
  by (simp_all add: say_def)

lemma snapshot_out_fields [simp]:
  "se_out (snapshot_out se) = se_out se @ [Snapshot_Out (capture_snapshot (se_turns se) (se_requests se) (se_convo se))]"
  "se_convo (snapshot_out se) = se_convo se" "se_pending (snapshot_out se) = se_pending se"
  "se_turns (snapshot_out se) = se_turns se" "se_requests (snapshot_out se) = se_requests se"
  by (simp_all add: snapshot_out_def)

lemma ends_map [simp]: "list_ex out_ends (map Turn_Out es) = list_ex boundary es"
  by (induction es) simp_all

lemma session_compact_out:
  "\<exists>es. se_out (session_compact sc env trigger se) = se_out se @ map Turn_Out es \<and> silent es
    \<and> se_pending (session_compact sc env trigger se) = se_pending se
    \<and> se_turns (session_compact sc env trigger se) = se_turns se"
proof -
  let ?st = "(turn_begin ((sc_turn sc)\<lparr>cf_turn_id := se_turns se\<rparr>) (se_convo se) (se_world se) (se_requests se) (se_guard se))\<lparr>tu_events := []\<rparr>"
  have "adds ?st (run_compaction ((sc_turn sc)\<lparr>cf_turn_id := se_turns se\<rparr>) env (sc_checkpoint sc) trigger ?st)"
    by (rule adds_compaction)
  then show ?thesis by (auto simp: session_compact_def Let_def adds_def)
qed

lemma before_turn_out:
  "\<exists>es. se_out (before_turn sc pr kind se) = se_out se @ map Turn_Out es \<and> silent es
    \<and> se_pending (before_turn sc pr kind se) = se_pending se
    \<and> se_turns (before_turn sc pr kind se) = se_turns se"
proof -
  let ?se = "if kind = User_Prompt then se\<lparr>se_guard := map_option tool_loop_reset (se_guard se)\<rparr> else se"
  show ?thesis
  proof (cases "should_compact (sc_turn sc) (se_convo ?se)")
    case None
    then show ?thesis by (auto simp: before_turn_def Let_def intro: exI [of _ "[]"])
  next
    case (Some trigger)
    then show ?thesis
      using session_compact_out [of sc "pr_compaction pr" trigger ?se] by (auto simp: before_turn_def Let_def)
  qed
qed

text \<open>A served prompt, taken apart.\<close>

lemma process_cases:
  assumes "process_send_message sc pr (kind, t0, imgs, context) se = Some (se', gone)"
  obtains (rejected) reason where "pr_verdict pr = Inl reason" "\<not> gone"
      "se' = say [Prompt_Rejected_Out reason, Turn_Out (Turn_Complete PromptRejected)] se"
  | (ran) t se1 st m where "pr_verdict pr = Inr t" "se1 = before_turn sc pr kind se"
      "drive (turn_cfg_for sc pr se1) (pr_passes pr)
         (turn_begin (turn_cfg_for sc pr se1) (pr_start pr (push_prompt kind t imgs context (se_convo se1)))
            (se_world se1) (se_requests se1) (se_guard se1))
         (fold mid_item (pr_first pr) (mid_start se1)) = Some (st, m)"
      "gone = mi_shutdown m"
      "se' = (if gone then snapshot_out (after_turn (se_turns se1 + 1) st m se1) else after_turn (se_turns se1 + 1) st m se1)"
proof (cases "pr_verdict pr")
  case (Inl reason)
  then show thesis using assms rejected by (simp add: process_send_message_def)
next
  case (Inr t)
  let ?se1 = "before_turn sc pr kind se"
  obtain st m where "drive (turn_cfg_for sc pr ?se1) (pr_passes pr)
         (turn_begin (turn_cfg_for sc pr ?se1) (pr_start pr (push_prompt kind t imgs context (se_convo ?se1)))
            (se_world ?se1) (se_requests ?se1) (se_guard ?se1))
         (fold mid_item (pr_first pr) (mid_start ?se1)) = Some (st, m)"
    using assms Inr by (auto simp: process_send_message_def Let_def split: option.split_asm)
  moreover have "cf_turn_id (turn_cfg_for sc pr ?se1) = se_turns ?se1 + 1" by (simp add: turn_cfg_for_def)
  ultimately show thesis
    using assms Inr by (intro ran [of t ?se1 st m]) (auto simp: process_send_message_def Let_def)
qed

lemma after_turn_fields [simp]:
  "se_out (after_turn n st m se) = se_out se @ map Turn_Out (tu_events st)"
  "se_convo (after_turn n st m se) = tu_convo st" "se_turns (after_turn n st m se) = n"
  "se_pending (after_turn n st m se) = mi_pending m @ map (\<lambda>(t, imgs). Cmd_SendMessage t imgs) (mi_steer m)"
  by (simp_all add: after_turn_def)

lemma prompt_ends_once:
  assumes "process_send_message sc pr pmt se = Some (se', gone)"
  shows "case pr_verdict pr of
      Inl reason \<Rightarrow> se_out se' = se_out se @ [Prompt_Rejected_Out reason, Turn_Out (Turn_Complete PromptRejected)] \<and> \<not> gone
    | Inr t \<Rightarrow>
        \<exists>before during r. \<not> list_ex out_ends before \<and> \<not> list_ex out_ends during
          \<and> se_out se' = se_out se @ before @ Turn_Out Turn_Started # during @ Turn_Out (Turn_Complete r) #
              (if gone then [Snapshot_Out (capture_snapshot (se_turns se') (se_requests se') (se_convo se'))] else [])"
proof -
  obtain kind t0 imgs ctx where pmt: "pmt = (kind, t0, imgs, ctx)" by (metis prod_cases4)
  show ?thesis using assms unfolding pmt
  proof (cases rule: process_cases)
    case (ran t se1 st m)
    obtain es where es: "se_out se1 = se_out se @ map Turn_Out es" "silent es"
      using before_turn_out [of sc pr kind se] ran(2) by auto
    obtain fs r where "tu_events st = [Turn_Started] @ fs @ [Turn_Complete r]" "\<not> list_ex boundary fs"
      using drive_accounts [OF ran(3)] by (auto simp: turn_begin_def)
    then have "\<not> list_ex out_ends (map Turn_Out es) \<and> \<not> list_ex out_ends (map Turn_Out fs)
      \<and> se_out se' = se_out se @ map Turn_Out es @ Turn_Out Turn_Started # map Turn_Out fs @ Turn_Out (Turn_Complete r) #
          (if gone then [Snapshot_Out (capture_snapshot (se_turns se') (se_requests se') (se_convo se'))] else [])"
      using es silent_inputs [OF es(2)] by (simp add: ran(5))
    then show ?thesis unfolding ran(1) sum.case by blast
  qed simp
qed

section \<open>Nothing that is sent during a turn is lost\<close>

lemma prompt_accounts:
  assumes "process_send_message sc pr (kind, t0, imgs, context) se = Some (se', gone)" and "pr_verdict pr = Inr t"
    and "items = prompt_items sc pr kind t imgs context se"
  shows "\<exists>es left. se_out se' = se_out se @ map Turn_Out es @
        (if gone then [Snapshot_Out (capture_snapshot (se_turns se') (se_requests se') (se_convo se'))] else [])
    \<and> se_pending se' = se_pending se @ queued_commands items @ map (\<lambda>(t, imgs). Cmd_SendMessage t imgs) left
    \<and> subseq (inputs_in es @ left) (sent_inputs items)
    \<and> (undisturbed items \<longrightarrow> inputs_in es @ left = sent_inputs items \<and> \<not> gone)"
  using assms(1)
proof (cases rule: process_cases)
  case (ran t' se1 st m)
  obtain es where es: "se_out se1 = se_out se @ map Turn_Out es" "silent es" "se_pending se1 = se_pending se"
    using before_turn_out [of sc pr kind se] ran(2) by auto
  let ?m0 = "fold mid_item (pr_first pr) (mid_start se1)"
  have m0: "mi_pending ?m0 = se_pending se @ queued_commands (pr_first pr)"
    "subseq (mi_steer ?m0) (sent_inputs (pr_first pr))"
    "undisturbed (pr_first pr) \<Longrightarrow> mi_steer ?m0 = sent_inputs (pr_first pr) \<and> \<not> mi_shutdown ?m0"
    using mid_items_effect [of "pr_first pr" "mid_start se1"] es(3) by (simp_all add: mid_start_def)
  have same: "t' = t" using ran(1) assms(2) by simp
  define during where "during = turn_items (turn_cfg_for sc pr se1) (pr_passes pr)
     (turn_begin (turn_cfg_for sc pr se1) (pr_start pr (push_prompt kind t imgs context (se_convo se1)))
        (se_world se1) (se_requests se1) (se_guard se1)) ?m0"
  have items: "items = pr_first pr @ during"
    unfolding assms(3) prompt_items_def Let_def during_def ran(2) by (rule refl)
  from drive_accounts [OF ran(3)] obtain fs r where n:
    "tu_events st = [Turn_Started] @ fs @ [Turn_Complete r]"
    "mi_pending m = mi_pending ?m0 @ queued_commands during"
    "subseq (inputs_in fs @ mi_steer m) (mi_steer ?m0 @ sent_inputs during)"
    "undisturbed during \<longrightarrow>
       inputs_in fs @ mi_steer m = mi_steer ?m0 @ sent_inputs during \<and> mi_shutdown m = mi_shutdown ?m0"
    unfolding same during_def [symmetric] by (auto simp: turn_begin_def)
  have "subseq (mi_steer ?m0 @ sent_inputs during) (sent_inputs (pr_first pr) @ sent_inputs during)"
    by (intro list_emb_append_mono m0(2)) simp
  from subseq_order.trans [OF n(3) this]
  have "subseq (inputs_in fs @ mi_steer m) (sent_inputs items)" by (simp add: items)
  moreover have "inputs_in es = []" using silent_inputs [OF es(2)] by simp
  ultimately show ?thesis
    using n(1,2,4) m0(1,3) es
    by (intro exI [of _ "es @ tu_events st"] exI [of _ "mi_steer m"]) (auto simp: items ran(4,5))
qed (use assms(2) in simp)

end
