(* ===== verification/Session_History.thy ===== *)
theory Session_History
  imports Session_Laws
begin

text \<open>
  The stored history over a whole session: from one turn to the next, through compactions between turns,
  queued commands and prompts of every kind, it stays one a provider accepts. The one exception is a turn
  that compacts and is then cancelled, whose undo cuts at a place of the old history; \<open>cut_stale\<close>
  recognises such a turn in the output of the session.
\<close>

section \<open>A driven turn is a turn\<close>

definition like :: "pass \<Rightarrow> round_env \<Rightarrow> bool" where
  "like p env \<longleftrightarrow> rd_response env = rd_response (ps_env p) \<and> rd_execute env = rd_execute (ps_env p)
     \<and> rd_arrivals env = rd_arrivals (ps_env p)"

lemma like_pass_env: "like p (pass_env cfg p st m)"
  by (simp add: like_def pass_env_def)

lemma drive_turn:
  "drive cfg ps st m = Some (st', m') \<Longrightarrow>
   \<exists>n envs r es. n \<le> length ps \<and> list_all2 like (take n ps) envs \<and> run_turn cfg envs st = Inr (r, st')
     \<and> tu_events st' = tu_events st @ es @ [Turn_Complete r] \<and> \<not> list_ex boundary es"
proof (induction ps arbitrary: st m)
  case (Cons p ps)
  let ?env = "pass_env cfg p st m" and ?m = "fold mid_item (ps_items p) (drained cfg p st m)"
  show ?case
  proof (cases "round_step cfg ?env st")
    case (Again st1)
    obtain es1 where es1: "tu_events st1 = tu_events st @ es1" "\<not> list_ex boundary es1"
      using round_events [of cfg ?env st st1 undefined] Again by auto
    have "drive cfg ps st1 ?m = Some (st', m')" using Cons.prems Again by simp
    from Cons.IH [OF this] obtain n envs r es where rest: "n \<le> length ps" "list_all2 like (take n ps) envs"
      "run_turn cfg envs st1 = Inr (r, st')" "tu_events st' = tu_events st1 @ es @ [Turn_Complete r]" "\<not> list_ex boundary es"
      by blast
    then show ?thesis using Again es1 like_pass_env
      by (intro exI [of _ "Suc n"] exI [of _ "?env # envs"] exI [of _ r] exI [of _ "es1 @ es"]) simp
  next
    case (Ended r st1)
    obtain es where "tu_events st1 = tu_events st @ es @ [Turn_Complete r]" "\<not> list_ex boundary es"
      using round_events [of cfg ?env st st1 r] Ended by auto
    then show ?thesis using Ended Cons.prems like_pass_env
      by (intro exI [of _ 1] exI [of _ "[?env]"] exI [of _ r] exI [of _ es]) auto
  qed (use Cons.prems in simp)
qed simp

section \<open>The environment of a session\<close>

text \<open>A hook at the start of a turn may add messages that are no calls and no results.\<close>

definition starts_plainly :: "(conversation \<Rightarrow> conversation) \<Rightarrow> bool" where
  "starts_plainly f \<longleftrightarrow> (\<forall>c. \<exists>ms. list_all plain_message ms \<and> f c = fold (\<lambda>m c. conversation_push c m) ms c)"

definition run_ok :: "prompt_run \<Rightarrow> bool" where
  "run_ok pr \<longleftrightarrow> list_all (env_ok \<circ> ps_env) (pr_passes pr) \<and> starts_plainly (pr_start pr)"

definition run_ids :: "prompt_run \<Rightarrow> string set" where
  "run_ids pr = round_ids (map ps_env (pr_passes pr))"

fun fresh_script :: "string set \<Rightarrow> prompt_run list \<Rightarrow> bool" where
  "fresh_script K [] \<longleftrightarrow> True"
| "fresh_script K (pr # script) \<longleftrightarrow>
     fresh_rounds K (map ps_env (pr_passes pr)) \<and> fresh_script (K \<union> run_ids pr) script"

lemma fresh_rounds_like:
  "list_all2 like ps envs \<Longrightarrow> fresh_rounds K envs = fresh_rounds K (map ps_env ps) \<and> round_ids envs = round_ids (map ps_env ps)"
  by (induction ps envs arbitrary: K rule: list_all2_induct) (auto simp: like_def round_ids_def)

lemma fresh_rounds_take: "fresh_rounds K envs \<Longrightarrow> fresh_rounds K (take n envs)"
  by (induction K envs arbitrary: n rule: fresh_rounds.induct) (auto simp: take_Cons split: nat.split)

lemma env_ok_like: "like p env \<Longrightarrow> env_ok env = env_ok (ps_env p)"
  by (simp add: like_def env_ok_def)

lemma envs_ok_like:
  "list_all2 like ps envs \<Longrightarrow> list_all (env_ok \<circ> ps_env) ps \<Longrightarrow> \<forall>env\<in>set envs. env_ok env"
  by (induction ps envs rule: list_all2_induct) (auto simp: env_ok_like)

lemma fold_push_sound:
  "list_all plain_message ms \<Longrightarrow> sound_history K (fold (\<lambda>m c. conversation_push c m) ms c) = sound_history K c
     \<and> extends c (fold (\<lambda>m c. conversation_push c m) ms c)"
  by (induction ms arbitrary: c) (auto simp: sound_push intro: extends_trans [OF extends_push])

lemma starts_plainly_sound: "starts_plainly f \<Longrightarrow> sound_history K (f c) = sound_history K c \<and> extends c (f c)"
  unfolding starts_plainly_def using fold_push_sound by metis

lemma push_prompt_sound:
  "sound_history K (push_prompt kind t imgs ctx c) = sound_history K c \<and> extends c (push_prompt kind t imgs ctx c)"
  by (auto simp: push_prompt_def Let_def sound_push split: option.split prompt_kind.split
      intro: extends_trans [OF extends_push extends_push])

section \<open>Turns that were cut at a stale place\<close>

fun cut_stale :: "bool \<Rightarrow> session_out list \<Rightarrow> bool" where
  "cut_stale moved [] \<longleftrightarrow> False"
| "cut_stale moved (Turn_Out Turn_Started # outs) \<longleftrightarrow> cut_stale False outs"
| "cut_stale moved (Turn_Out (Turn_Complete r) # outs) \<longleftrightarrow> moved \<and> r = StopCancelled \<or> cut_stale False outs"
| "cut_stale moved (Turn_Out e # outs) \<longleftrightarrow> cut_stale (moved \<or> commits e) outs"
| "cut_stale moved (out # outs) \<longleftrightarrow> cut_stale moved outs"

declare cut_stale.simps [simp del]

lemma cut_stale_simps [simp]:
  "\<not> cut_stale moved []"
  "cut_stale moved (Turn_Out e # outs) \<longleftrightarrow>
     (case e of Turn_Started \<Rightarrow> cut_stale False outs
      | Turn_Complete r \<Rightarrow> moved \<and> r = StopCancelled \<or> cut_stale False outs
      | _ \<Rightarrow> cut_stale (moved \<or> commits e) outs)"
  "cut_stale moved (Snapshot_Out snap # outs) = cut_stale moved outs"
  "cut_stale moved (Prompt_Rejected_Out reason # outs) = cut_stale moved outs"
  "cut_stale moved (Unsupported_Snapshot v # outs) = cut_stale moved outs"
  by (simp_all add: cut_stale.simps) (cases e; simp add: cut_stale.simps)

lemma cut_stale_mono: "cut_stale moved outs \<Longrightarrow> cut_stale True outs"
proof (induction outs arbitrary: moved)
  case (Cons out outs)
  show ?case
  proof (cases out)
    case (Turn_Out e)
    with Cons show ?thesis by (cases e) auto
  qed (use Cons in simp_all)
qed simp

lemma cut_stale_append:
  "cut_stale moved outs \<Longrightarrow> cut_stale moved (outs @ outs')"
  "cut_stale False outs' \<Longrightarrow> cut_stale moved (outs @ outs')"
proof (induction outs arbitrary: moved)
  case (Cons out outs)
  { case 1
    with Cons show ?case
      by (cases out) (auto split: agent_event.split_asm agent_event.split)
  next
    case 2
    with Cons show ?case
      by (cases out) (auto split: agent_event.split) }
next
  case Nil
  { case 2 then show ?case using cut_stale_mono by (cases moved) auto }
qed simp

lemma cut_stale_silent:
  "\<not> list_ex boundary es \<Longrightarrow> cut_stale moved (map Turn_Out es @ outs) = cut_stale (moved \<or> compacted_in es) outs"
proof (induction es arbitrary: moved)
  case (Cons e es)
  then show ?case by (cases e) (simp_all add: compacted_in_def)
qed (simp add: compacted_in_def)

section \<open>One prompt\<close>

lemma round_ids_like:
  assumes "list_all2 like (take n ps) envs"
  shows "round_ids envs \<subseteq> round_ids (map ps_env ps)"
  using fresh_rounds_like [OF assms] by (auto simp: round_ids_def dest: in_set_takeD)

lemma driven_sound:
  assumes mws: "mws_ok (cf_mws cfg)" and ok: "list_all (env_ok \<circ> ps_env) ps" and fresh: "fresh_rounds K (map ps_env ps)"
    and start: "sound_history K c0" "sound_history K c" "extends c0 c" "cf_rollback_len cfg = length (c_messages c0)"
    and run: "drive cfg ps (turn_begin cfg c w req guard) m = Some (st, m')"
  shows "cut_stale False (map Turn_Out (tu_events st)) \<or> sound_history (K \<union> round_ids (map ps_env ps)) (tu_convo st)"
proof -
  obtain n envs r es where envs: "list_all2 like (take n ps) envs" and turn: "run_turn cfg envs (turn_begin cfg c w req guard) = Inr (r, st)"
    and es: "tu_events st = Turn_Started # es @ [Turn_Complete r]" "\<not> list_ex boundary es"
    using drive_turn [OF run] by (auto simp: turn_begin_def)
  have "list_all (env_ok \<circ> ps_env) (take n ps)" using ok by (auto simp: list_all_iff dest: in_set_takeD)
  then have envs_ok: "\<forall>env\<in>set envs. env_ok env" by (rule envs_ok_like [OF envs])
  have fresh_envs: "fresh_rounds K envs"
    using fresh_rounds_take [OF fresh, of n] fresh_rounds_like [OF envs] by (simp add: take_map)
  have held: "holds_in (sound c K) (turn_begin cfg c w req guard)" "holds_in (grown c) (turn_begin cfg c w req guard)"
    using start(2) by (simp_all add: sound_def grown_def turn_begin_def)
  from turn_sound [OF mws envs_ok fresh_envs held(1)] obtain L where L: "L \<subseteq> K \<union> round_ids envs"
    "if r = StopCancelled then holds_in (cancelled_sound cfg c L) st else holds_in (sound c L) st"
    by (auto simp: turn)
  note widen = sound_mono [OF _ order_trans [OF L(1) Un_mono [OF order_refl round_ids_like [OF envs]]]]
  show ?thesis
  proof (cases "r = StopCancelled")
    case False
    then show ?thesis using L(2) widen by (simp add: sound_def)
  next
    case True
    show ?thesis
    proof (cases "compacted_in es")
      case True
      then show ?thesis using \<open>r = StopCancelled\<close> cut_stale_silent [OF es(2), of False "[Turn_Out (Turn_Complete r)]"]
        by (simp add: es(1))
    next
      case False
      then have still: "\<not> compacted_in (tu_events st)" by (simp add: es(1) compacted_in_def)
      have long: "cf_rollback_len cfg \<le> length (c_messages c)"
        using start(3,4) prefix_length_le by (auto simp: extends_def)
      have start_of: "take (cf_rollback_len cfg) (c_messages c) = c_messages c0"
        using start(3,4) by (auto simp: extends_def elim!: prefixE)
      have "sound_history K (tu_convo st)" if "\<not> cf_keep_interrupted cfg"
      proof -
        have "rolled_back cfg c (tu_convo st) (tu_events st)"
          using growth.law_turn(2) [OF held(2) turn] True by simp
        then have "c_messages (tu_convo st) = c_messages c0 \<or> c_messages (tu_convo st) = c_messages c0 @ [user_interruption]"
          using that still long by (simp add: rolled_back_def start_of Let_def)
        then show ?thesis
          using start(1) sound_push [of user_interruption K c0] by (auto simp: sound_history_def conversation_push_def)
      qed
      moreover have "sound_history L (tu_convo st)" if "cf_keep_interrupted cfg"
        using that L(2) True still long by (simp add: cancelled_sound_def)
      ultimately show ?thesis using widen sound_mono by blast
    qed
  qed
qed

lemma session_compact_sound: "sound_history K (se_convo se) \<Longrightarrow> sound_history K (se_convo (session_compact sc env trigger se))"
  by (rule run_compaction_cases
      [of "(sc_turn sc)\<lparr>cf_turn_id := se_turns se\<rparr>" env "sc_checkpoint sc" trigger
        "(turn_begin ((sc_turn sc)\<lparr>cf_turn_id := se_turns se\<rparr>) (se_convo se) (se_world se) (se_requests se) (se_guard se))\<lparr>tu_events := []\<rparr>"])
    (simp_all add: session_compact_def Let_def turn_begin_def sound_apply_plan)

lemma before_turn_sound: "sound_history K (se_convo se) \<Longrightarrow> sound_history K (se_convo (before_turn sc pr kind se))"
  by (auto simp: before_turn_def Let_def session_compact_sound split: option.split)

text \<open>
  From one state of a session to a later one: its output grows, and unless a turn was cut at a stale place
  the rest of the script finds an accepted history.
\<close>

definition may_run :: "string set \<Rightarrow> prompt_run list \<Rightarrow> 's session \<Rightarrow> bool" where
  "may_run K script se \<longleftrightarrow> sound_history K (se_convo se) \<and> fresh_script K script \<and> list_all run_ok script"

definition grows :: "'s session \<Rightarrow> 's session \<Rightarrow> bool" where
  "grows se se' \<longleftrightarrow> (\<exists>outs. se_out se' = se_out se @ outs)"

definition reaches :: "'s session \<Rightarrow> 's session \<Rightarrow> prompt_run list \<Rightarrow> bool" where
  "reaches se se' rest \<longleftrightarrow>
     (\<exists>outs. se_out se' = se_out se @ outs \<and> (cut_stale False outs \<or> (\<exists>L. may_run L rest se')))"

lemma grows_trans: "grows a b \<Longrightarrow> grows b c \<Longrightarrow> grows a c"
  by (auto simp: grows_def)

lemma reaches_here: "se_out se' = se_out se @ outs \<Longrightarrow> may_run K rest se' \<Longrightarrow> reaches se se' rest"
  by (auto simp: reaches_def)

lemma reaches_trans:
  assumes "reaches a b script" and "\<And>K. may_run K script b \<Longrightarrow> reaches b c rest" and "grows b c"
  shows "reaches a c rest"
proof -
  obtain outs where outs: "se_out b = se_out a @ outs" "cut_stale False outs \<or> (\<exists>K. may_run K script b)"
    using assms(1) by (auto simp: reaches_def)
  show ?thesis
  proof (cases "\<exists>K. may_run K script b")
    case True
    then obtain K where "may_run K script b" by blast
    from assms(2) [OF this] obtain outs' where "se_out c = se_out b @ outs'" "cut_stale False outs' \<or> (\<exists>L. may_run L rest c)"
      unfolding reaches_def by blast
    then show ?thesis using outs(1) cut_stale_append(2) by (auto simp: reaches_def)
  next
    case False
    then show ?thesis using outs assms(3) cut_stale_append(1) by (auto simp: reaches_def grows_def)
  qed
qed

text \<open>A part of the session, with the script before and behind it.\<close>

definition goes :: "prompt_run list \<Rightarrow> 's session \<Rightarrow> prompt_run list \<Rightarrow> 's session \<Rightarrow> bool" where
  "goes script se rest se' \<longleftrightarrow> grows se se' \<and> (\<forall>K. may_run K script se \<longrightarrow> reaches se se' rest)"

lemma goes_trans: "goes script a script1 b \<Longrightarrow> goes script1 b rest c \<Longrightarrow> goes script a rest c"
  unfolding goes_def using grows_trans reaches_trans by blast

lemma goes_still: "se_convo se' = se_convo se \<Longrightarrow> \<exists>outs. se_out se' = se_out se @ outs \<Longrightarrow> goes script se script se'"
  by (auto simp: goes_def grows_def may_run_def reaches_def)

lemma goes_refl [simp]: "goes script se script se"
  by (rule goes_still) simp_all

lemma goes_moved: "se_convo se1 = se_convo se \<Longrightarrow> se_out se1 = se_out se \<Longrightarrow> goes script se1 rest se' = goes script se rest se'"
  by (simp add: goes_def grows_def may_run_def reaches_def)

lemma process_grows:
  assumes "process_send_message sc pr pmt se = Some (se', gone)"
  shows "grows se se'"
  using prompt_ends_once [OF assms] by (cases "pr_verdict pr") (auto simp: grows_def)

lemma may_run_Cons: "may_run K (pr # rest) se \<Longrightarrow> sound_history (K \<union> run_ids pr) (se_convo se') \<Longrightarrow> may_run (K \<union> run_ids pr) rest se'"
  by (simp add: may_run_def)

lemma compact_goes: "goes (pr # rest) se rest (session_compact sc env trigger se)"
proof -
  let ?se = "session_compact sc env trigger se"
  obtain outs where outs: "se_out ?se = se_out se @ outs" using session_compact_out by blast
  have "reaches se ?se rest" if may: "may_run K (pr # rest) se" for K
  proof (rule reaches_here [OF outs])
    have "sound_history K (se_convo ?se)" using may by (intro session_compact_sound) (simp add: may_run_def)
    then show "may_run (K \<union> run_ids pr) rest ?se" by (intro may_run_Cons [OF may]) (rule sound_mono [OF _ Un_upper1])
  qed
  then show ?thesis using outs by (auto simp: goes_def grows_def)
qed

lemma prompt_reaches:
  assumes mws: "mws_ok (cf_mws (sc_turn sc))" and may: "may_run K (pr # rest) se"
    and run: "process_send_message sc pr pmt se = Some (se', gone)"
  shows "reaches se se' rest"
proof -
  obtain kind t0 imgs ctx where pmt: "pmt = (kind, t0, imgs, ctx)" by (metis prod_cases4)
  have sound: "sound_history K (se_convo se)" and pr: "run_ok pr" "fresh_rounds K (map ps_env (pr_passes pr))"
    using may by (simp_all add: may_run_def)
  show ?thesis using run unfolding pmt
  proof (cases rule: process_cases)
    case (rejected reason)
    have "may_run (K \<union> run_ids pr) rest se'"
      using sound unfolding rejected(3) by (intro may_run_Cons [OF may]) (auto elim: sound_mono)
    then show ?thesis by (intro reaches_here) (simp_all add: rejected(3))
  next
    case (ran t se1 st m)
    obtain es where es: "se_out se1 = se_out se @ map Turn_Out es"
      using before_turn_out [of sc pr kind se] ran(2) by auto
    let ?c = "pr_start pr (push_prompt kind t imgs ctx (se_convo se1))"
    have sound1: "sound_history K (se_convo se1)" unfolding ran(2) by (rule before_turn_sound) (rule sound)
    have "sound_history K ?c" "extends (se_convo se1) ?c"
      using sound1 pr(1) push_prompt_sound starts_plainly_sound extends_trans unfolding run_ok_def by metis+
    from driven_sound [OF _ _ pr(2) sound1 this _ ran(3)]
    have "cut_stale False (map Turn_Out (tu_events st)) \<or> sound_history (K \<union> run_ids pr) (se_convo se')"
      using mws pr(1) by (simp add: turn_cfg_for_def run_ok_def run_ids_def ran(5))
    then show ?thesis
      using may_run_Cons [OF may, of se'] by (auto simp: reaches_def ran(5) es cut_stale_append)
  qed
qed

lemma prompt_goes:
  "mws_ok (cf_mws (sc_turn sc)) \<Longrightarrow> process_send_message sc pr pmt se = Some (se', gone) \<Longrightarrow> goes (pr # rest) se rest se'"
  unfolding goes_def using process_grows prompt_reaches by blast

section \<open>The loops\<close>

text \<open>One step of the queue behind a turn.\<close>

lemma drain_step:
  assumes "drain_pending sc script se = Some (se', script', gone)"
  obtains (empty) "se_pending se = []" "se' = se" "script' = script" "\<not> gone"
  | (idle) se1 where "se_convo se1 = se_convo se" "\<exists>outs. se_out se1 = se_out se @ outs"
      "length (se_pending se1) < length (se_pending se)" "drain_pending sc script se1 = Some (se', script', gone)"
  | (compact) pr rest se1 env trigger where "script = pr # rest" "se_convo se1 = se_convo se" "se_out se1 = se_out se"
      "drain_pending sc rest (session_compact sc env trigger se1) = Some (se', script', gone)"
  | (prompt) pr rest se1 pmt se2 away where "script = pr # rest" "se_convo se1 = se_convo se" "se_out se1 = se_out se"
      "process_send_message sc pr pmt se1 = Some (se2, away)"
      "if away then se' = se2 \<and> script' = rest \<and> gone else drain_pending sc rest se2 = Some (se', script', gone)"
proof (cases "se_pending se")
  case Nil
  then have "drain_pending sc script se = Some (se, script, False)" by (subst drain_pending.simps) simp
  then show thesis using assms by (intro empty Nil) simp_all
next
  case (Cons c cs)
  let ?se = "se\<lparr>se_pending := cs\<rparr>"
  have served: thesis if "as_prompt c = Some pmt"
      "(case script of [] \<Rightarrow> None
        | pr # rest \<Rightarrow> (case process_send_message sc pr pmt ?se of
            None \<Rightarrow> None | Some (se2, away) \<Rightarrow> if away then Some (se2, rest, True) else drain_pending sc rest se2))
        = Some (se', script', gone)" for pmt
    using that by (auto split: list.split_asm option.split_asm prod.split_asm if_split_asm intro: prompt [of _ _ ?se])
  have skipped: thesis if "drain_pending sc script ?se = Some (se', script', gone)"
    using that Cons by (intro idle [of ?se]) simp_all
  have planned: thesis if "(case script of [] \<Rightarrow> None
      | pr # rest \<Rightarrow> drain_pending sc rest (session_compact sc (pr_compaction pr) (Manual topic) ?se)) = Some (se', script', gone)"
    for topic
    using that by (auto split: list.split_asm intro: compact [of _ _ ?se])
  have shown: thesis if "drain_pending sc script (snapshot_out ?se) = Some (se', script', gone)"
    using that Cons by (intro idle [of "snapshot_out ?se"]) simp_all
  have res: "(case c of
      Cmd_Snapshot \<Rightarrow> drain_pending sc script (snapshot_out ?se)
    | Cmd_Compact topic \<Rightarrow>
        (case script of [] \<Rightarrow> None
         | pr # rest \<Rightarrow> drain_pending sc rest (session_compact sc (pr_compaction pr) (Manual topic) ?se))
    | _ \<Rightarrow>
        (case as_prompt c of
           None \<Rightarrow> drain_pending sc script ?se
         | Some pmt \<Rightarrow>
             (case script of [] \<Rightarrow> None
              | pr # rest \<Rightarrow>
                  (case process_send_message sc pr pmt ?se of
                     None \<Rightarrow> None
                   | Some (se2, away) \<Rightarrow> if away then Some (se2, rest, True) else drain_pending sc rest se2))))
      = Some (se', script', gone)"
    using assms [unfolded drain_pending.simps [of sc script se]] unfolding Cons by (simp only: Let_def list.case)
  show thesis
    using res served skipped planned shown by (cases c) (simp_all only: agent_command.case as_prompt.simps option.case)
qed

lemma drain_goes:
  assumes mws: "mws_ok (cf_mws (sc_turn sc))"
  shows "drain_pending sc script se = Some (se', rest, gone) \<Longrightarrow> goes script se rest se'"
proof (induction "(script, se)" arbitrary: script se
    rule: wf_induct_rule [OF wf_measures [of "[\<lambda>(script, _). length script, \<lambda>(_, se). length (se_pending se)]"]])
  case less: 1
  show ?case using less.prems
  proof (cases rule: drain_step)
    case empty
    then show ?thesis by simp
  next
    case (idle se1)
    then have "goes script se1 rest se'" by (intro less.hyps) simp_all
    then show ?thesis using goes_still [OF idle(1,2)] goes_trans by blast
  next
    case (compact pr script1 se1 env trigger)
    then have "goes script1 (session_compact sc env trigger se1) rest se'" by (intro less.hyps) simp_all
    then have "goes script se1 rest se'" unfolding compact(1) using compact_goes goes_trans by blast
    then show ?thesis by (simp add: goes_moved [OF compact(2,3)])
  next
    case (prompt pr script1 se1 pmt se2 away)
    have "goes script1 se2 rest se'"
      using prompt(1,5) less.hyps [of script1 se2] by (cases away) simp_all
    then have "goes script se1 rest se'" unfolding prompt(1) using prompt_goes [OF mws prompt(4)] goes_trans by blast
    then show ?thesis by (simp add: goes_moved [OF prompt(2,3)])
  qed
qed

lemma serve_goes:
  assumes mws: "mws_ok (cf_mws (sc_turn sc))" and run: "serve_prompt sc script pmt se = Some (se', rest, gone)"
  shows "goes script se rest se'"
proof -
  obtain pr script1 se1 away where pr: "script = pr # script1" "process_send_message sc pr pmt se = Some (se1, away)"
    "if away then se' = se1 \<and> rest = script1 else drain_pending sc script1 se1 = Some (se', rest, gone)"
    using run by (auto simp: serve_prompt_def split: list.split_asm option.split_asm if_split_asm)
  have "goes script1 se1 rest se'" using pr(3) drain_goes [OF mws] by (cases away) auto
  then show ?thesis unfolding pr(1) using prompt_goes [OF mws pr(2)] goes_trans by blast
qed

lemma loop_goes:
  assumes mws: "mws_ok (cf_mws (sc_turn sc))"
  shows "session_loop sc script cmds se = Some (se', rest, gone) \<Longrightarrow> goes script se rest se'"
proof (induction cmds arbitrary: script se)
  case (Cons c cmds)
  have stays: ?case if "session_loop sc script cmds se1 = Some (se', rest, gone)" "se_convo se1 = se_convo se"
      "\<exists>outs. se_out se1 = se_out se @ outs" for se1
    using goes_trans [OF goes_still [OF that(2,3)] Cons.IH [OF that(1)]] .
  have compacts: ?case if "script = pr # script1"
      "session_loop sc script1 cmds (session_compact sc env trigger se) = Some (se', rest, gone)" for pr script1 env trigger
    unfolding that(1) using goes_trans [OF compact_goes Cons.IH [OF that(2)]] .
  have prompts: ?case if served: "(case serve_prompt sc script pmt se of None \<Rightarrow> None
      | Some (se1, script', away) \<Rightarrow> if away then Some (se1, script', True) else session_loop sc script' cmds se1)
      = Some (se', rest, gone)" for pmt
  proof -
    obtain se1 script1 away where parts: "serve_prompt sc script pmt se = Some (se1, script1, away)"
      "if away then se' = se1 \<and> rest = script1 else session_loop sc script1 cmds se1 = Some (se', rest, gone)"
      using served by (auto split: option.split_asm if_split_asm)
    have "goes script1 se1 rest se'" using parts(2) Cons.IH by (cases away) auto
    then show ?case using serve_goes [OF mws parts(1)] goes_trans by blast
  qed
  show ?case
    using Cons.prems stays [of "se\<lparr>se_broker := b\<rparr>" for b] stays [of "snapshot_out se"] stays [of se] compacts prompts
    by (cases "untagged c") (auto split: list.split_asm)
qed simp

end
