(* ===== verification/Session_Properties.thy ===== *)
theory Session_Properties
  imports Session_History Engine_Samples
begin

text \<open>
  The properties of a session, with concrete sessions at which they are applied: a session on an empty
  history, whose first prompt is cancelled while the request to the provider is opened.
\<close>

section \<open>The start\<close>

lemma session_begin_paired:
  assumes "starts_plainly (\<lambda>c. hook c (fst (snd (session_seed (sc_persona sc) (sc_resume sc)))))"
  shows "well_paired (c_messages (se_convo (session_begin sc w hook)))"
proof -
  obtain c resumed outs where seed: "session_seed (sc_persona sc) (sc_resume sc) = (c, resumed, outs)" by (metis prod_cases3)
  have "well_paired (c_messages (fresh_conversation p))" for p
    by (simp add: fresh_conversation_def conversation_new_def conversation_push_def message_system_def pairing_simps)
  then have "well_paired (c_messages c)"
    using seed well_paired_repair_pairing
    by (auto simp: session_seed_def split: option.split_asm if_split_asm)
  then have "sound_history (known_ids (c_messages c)) (hook c resumed)"
    using starts_plainly_sound [OF assms, of "known_ids (c_messages c)" c] seed by (simp add: sound_history_def)
  then show ?thesis by (simp add: session_begin_def Let_def seed sound_history_def split: prod.split)
qed

lemma starts_plainly_id: "starts_plainly (\<lambda>c. c)"
  unfolding starts_plainly_def by (intro allI exI [of _ "[]"]) simp

section \<open>A sample session\<close>

definition sample_session_cfg :: "session_snapshot option \<Rightarrow> unit session_cfg" where
  "sample_session_cfg resume =
     \<lparr>sc_turn = sample_turn_cfg None False 0, sc_persona = ''Be brief.'', sc_resume = resume, sc_loop_policy = None,
      sc_checkpoint = None, sc_request_bound = False\<rparr>"

definition sample_run :: "pass_item list \<Rightarrow> prompt_run" where
  "sample_run items =
     \<lparr>pr_verdict = Inr ''one'', pr_compaction = cancelled_pass,
      pr_tools = registry_mount [''edit''] (registry_register edit_tool []), pr_start = (\<lambda>c. c), pr_first = [],
      pr_passes = [\<lparr>ps_items = items, ps_seen = 0, ps_cut = 0, ps_env = cancelled_pass\<rparr>]\<rparr>"

definition sample_session :: "unit session" where
  "sample_session = session_begin (sample_session_cfg None) () (\<lambda>c _. c)"

lemmas sample_session_defs = sample_session_def sample_session_cfg_def session_begin_def session_seed_def
  fresh_conversation_def counter_seeds_def broker_new_def

lemma sample_convo: "c_messages (se_convo sample_session) = [message_system ''Be brief.'']"
  by (simp add: sample_session_defs conversation_push_def conversation_new_def)

lemma sample_fields: "se_guard sample_session = None" "se_pending sample_session = []" "se_turns sample_session = 0"
  by (simp_all add: sample_session_defs)

lemma sample_before: "before_turn (sample_session_cfg r) pr User_Prompt sample_session = sample_session"
proof -
  have "should_compact (sc_turn (sample_session_cfg r)) c = None" for c
    by (simp add: should_compact_def sample_session_cfg_def sample_turn_cfg_def effective_compact_window_def)
  moreover have "sample_session\<lparr>se_guard := None\<rparr> = sample_session" using sample_fields(1) by simp
  ultimately show ?thesis by (simp add: before_turn_def sample_fields)
qed

lemma sample_prompt:
  obtains se' where "process_send_message (sample_session_cfg None) (sample_run items) (User_Prompt, ''one'', [], None) sample_session
      = Some (se', mi_shutdown (fold mid_item items (mid_start sample_session)))"
    "se_pending se' = mi_pending (fold mid_item items (mid_start sample_session))
       @ map (\<lambda>(t, imgs). Cmd_SendMessage t imgs) (mi_steer (fold mid_item items (mid_start sample_session)))"
proof -
  let ?cfg = "turn_cfg_for (sample_session_cfg None) (sample_run items) sample_session"
  let ?p = "\<lparr>ps_items = items, ps_seen = 0, ps_cut = 0, ps_env = cancelled_pass\<rparr>"
  let ?m = "mid_start sample_session"
  define st where "st = turn_begin ?cfg (push_prompt User_Prompt ''one'' [] None (se_convo sample_session))
      () (se_requests sample_session) None"
  let ?st1 = "st\<lparr>tu_round := tu_round st + 1, tu_request := tu_request st + 1\<rparr>"
  have msgs: "c_messages (tu_convo st) = [message_system ''Be brief.'', message_user ''one'']"
    by (simp add: st_def turn_begin_def push_prompt_def conversation_push_def sample_convo user_with_images_def message_user_def)
  have quiet: "well_paired (c_messages (tu_convo st))" "all_images (c_messages (tu_convo st)) = []"
    "fst (last_pressure (c_messages (tu_convo st))) = 0"
    unfolding msgs by code_simp+
  have cap: "tu_round_cap st = None" by (simp add: st_def turn_begin_def turn_cfg_for_def sample_session_cfg_def sample_turn_cfg_def)
  have calm: "fst (prepare_request ?cfg (pass_env ?cfg ?p st ?m) ?st1) = ?st1"
    by (rule prepare_quiet_sample)
      (simp_all add: quiet turn_cfg_for_def sample_session_cfg_def sample_turn_cfg_def pass_env_def pass_defs)
  have "rd_steered (pass_env ?cfg ?p st ?m) = []" "rd_open (pass_env ?cfg ?p st ?m) = Open_Cancelled"
    by (simp_all add: pass_env_def pass_defs mid_start_def)
  from cancelled_opening [OF cap this calm]
  obtain st' where st': "round_step ?cfg (pass_env ?cfg ?p st ?m) st = Ended StopCancelled st'" by blast
  have "drained ?cfg ?p st ?m = ?m" by (simp add: drained_def mid_start_def split: flow.split)
  then have "drive ?cfg [?p] st ?m = Some (st', fold mid_item items ?m)" using st' by simp
  moreover have run: "pr_verdict (sample_run items) = Inr ''one''" "pr_passes (sample_run items) = [?p]" "pr_first (sample_run items) = []"
    "pr_start (sample_run items) = (\<lambda>c. c)" "cf_turn_id ?cfg = 1"
    by (simp_all add: sample_run_def turn_cfg_for_def sample_fields)
  ultimately have "process_send_message (sample_session_cfg None) (sample_run items) (User_Prompt, ''one'', [], None) sample_session
      = Some (if mi_shutdown (fold mid_item items ?m) then snapshot_out (after_turn 1 st' (fold mid_item items ?m) sample_session)
              else after_turn 1 st' (fold mid_item items ?m) sample_session, mi_shutdown (fold mid_item items ?m))"
    using run by (simp add: process_send_message_def Let_def sample_before sample_fields st_def [symmetric] del: drive.simps)
  then show thesis
    by (rule that) (cases "mi_shutdown (fold mid_item items ?m)"; simp only: if_True if_False snapshot_out_fields after_turn_fields)
qed

section \<open>Sessions\<close>

text \<open>
  C1. The history stays one a provider accepts for the whole session. Whatever prompts, steering, compactions,
  questions and cancels a session serves, from any snapshot it is resumed from, broken ones included, its
  history is well paired whenever it is between turns, unless a turn was cancelled after it had committed a
  compaction. What is asked of the environment: no middleware blocks after an execution (C24 shows what is lost when
  one does), middlewares keep the id of the call they are handed, the hook on responses keeps their calls, the hooks at
  the start of a session and of a turn add only messages that neither call tools nor answer calls, an execution gives
  the slots C23 shows it to give, and the provider does not use the id of a call twice. The script holds the
  environment of every turn up to its end; a driver that hangs up in the middle of a turn is not modelled.
\<close>

theorem session_stays_accepted:
  assumes "mws_ok (cf_mws (sc_turn sc))" and "starts_plainly (\<lambda>c. hook c (fst (snd (session_seed (sc_persona sc) (sc_resume sc)))))"
    and "list_all run_ok script" and "fresh_script (known_ids (c_messages (se_convo (session_begin sc w hook)))) script"
    and "session_loop sc script cmds (session_begin sc w hook) = Some (se, rest, gone)"
  shows "\<exists>outs. se_out se = se_out (session_begin sc w hook) @ outs
    \<and> (cut_stale False outs \<or> well_paired (c_messages (se_convo se)))"
proof -
  let ?se = "session_begin sc w hook"
  have "may_run (known_ids (c_messages (se_convo ?se))) script ?se"
    using assms(2-4) by (simp add: may_run_def sound_history_def session_begin_paired)
  then have "reaches ?se se rest" using loop_goes [OF assms(1,5)] by (auto simp: goes_def)
  then show ?thesis by (auto simp: reaches_def may_run_def sound_history_def)
qed

theorem session_stays_accepted_witness:
  "\<exists>se outs. session_loop (sample_session_cfg None) [sample_run [Served Cmd_Cancel]]
       [Cmd_SendMessage ''one'' [], Cmd_Snapshot] sample_session = Some (se, [], False)
    \<and> se_out se = se_out sample_session @ outs \<and> (cut_stale False outs \<or> well_paired (c_messages (se_convo se)))"
proof -
  obtain se1 where se1: "process_send_message (sample_session_cfg None) (sample_run [Served Cmd_Cancel]) (User_Prompt, ''one'', [], None)
      sample_session = Some (se1, False)" "se_pending se1 = []"
    using sample_prompt [of "[Served Cmd_Cancel]"] by (auto simp: mid_start_def mid_command_def mid_cancel_def sample_fields)
  then have run: "session_loop (sample_session_cfg None) [sample_run [Served Cmd_Cancel]]
       [Cmd_SendMessage ''one'' [], Cmd_Snapshot] (session_begin (sample_session_cfg None) () (\<lambda>c _. c))
       = Some (snapshot_out se1, [], False)"
    by (simp add: serve_prompt_def drain_pending.simps [of _ "[]" se1] sample_session_def [symmetric])
  have "\<exists>outs. se_out (snapshot_out se1) = se_out (session_begin (sample_session_cfg None) () (\<lambda>c _. c)) @ outs
      \<and> (cut_stale False outs \<or> well_paired (c_messages (se_convo (snapshot_out se1))))"
    using run
  proof (rule session_stays_accepted [rotated -1])
    show "list_all run_ok [sample_run [Served Cmd_Cancel]]"
      by (simp add: run_ok_def sample_run_def env_ok_def keeps_calls_def pass_defs run_everything_ok starts_plainly_id)
    show "fresh_script (known_ids (c_messages (se_convo (session_begin (sample_session_cfg None) () (\<lambda>c _. c))))) [sample_run [Served Cmd_Cancel]]"
      by (simp add: sample_run_def pass_defs)
  qed (simp_all add: mws_ok_def sample_session_cfg_def sample_turn_cfg_def starts_plainly_id)
  then show ?thesis using run unfolding sample_session_def by blast
qed

text \<open>
  C6. A session ends once, and in order, every prompt whose turn comes to its end. A prompt the submit hook rejects is
  answered by the reason and one \<open>TurnComplete\<close>; any other announces its turn after what the compaction before it
  has to say, and ends with exactly one \<open>TurnComplete\<close>, behind which only a shutdown puts its snapshot. A turn that
  is dropped because the driver closed the channel of commands does not come to its end; it is not modelled.
\<close>

theorem every_prompt_ends_once:
  assumes "process_send_message sc pr pmt se = Some (se', gone)"
  shows "case pr_verdict pr of
      Inl reason \<Rightarrow> se_out se' = se_out se @ [Prompt_Rejected_Out reason, Turn_Out (Turn_Complete PromptRejected)] \<and> \<not> gone
    | Inr t \<Rightarrow>
        \<exists>before during r. \<not> list_ex out_ends before \<and> \<not> list_ex out_ends during
          \<and> se_out se' = se_out se @ before @ Turn_Out Turn_Started # during @ Turn_Out (Turn_Complete r) #
              (if gone then [Snapshot_Out (capture_snapshot (se_turns se') (se_requests se') (se_convo se'))] else [])"
  using assms by (rule prompt_ends_once)

theorem every_prompt_ends_once_witness:
  "\<exists>se' before during r. process_send_message (sample_session_cfg None) (sample_run [Served Cmd_Shutdown]) (User_Prompt, ''one'', [], None)
       sample_session = Some (se', True)
    \<and> \<not> list_ex out_ends before \<and> \<not> list_ex out_ends during
    \<and> se_out se' = se_out sample_session @ before @ Turn_Out Turn_Started # during @ [Turn_Out (Turn_Complete r),
        Snapshot_Out (capture_snapshot (se_turns se') (se_requests se') (se_convo se'))]"
proof -
  obtain se' where run: "process_send_message (sample_session_cfg None) (sample_run [Served Cmd_Shutdown])
      (User_Prompt, ''one'', [], None) sample_session = Some (se', True)"
    using sample_prompt [of "[Served Cmd_Shutdown]"] by (auto simp: mid_start_def mid_command_def)
  from every_prompt_ends_once [OF this] run show ?thesis
    by (simp add: sample_run_def)
qed

text \<open>
  C7. Nothing that is sent while a turn runs is lost or reordered. The items are those served before the first pass and
  in the passes the turn makes, up to and with its last one. Unless one of them cancels the turn, the messages sent to
  steer it are, in order, those it has taken into its history and those that wait behind it as prompts: a message
  that comes too late for the turn is among the latter. The other commands that cannot be served during a turn
  wait in order behind those that waited before. After a cancel the messages that were still in the buffer
  are gone, but what is left is still in order.
\<close>

theorem nothing_sent_is_lost:
  assumes "process_send_message sc pr (kind, t0, imgs, context) se = Some (se', gone)" and "pr_verdict pr = Inr t"
    and "items = prompt_items sc pr kind t imgs context se"
  shows "\<exists>es left. se_out se' = se_out se @ map Turn_Out es @
        (if gone then [Snapshot_Out (capture_snapshot (se_turns se') (se_requests se') (se_convo se'))] else [])
    \<and> se_pending se' = se_pending se @ queued_commands items @ map (\<lambda>(t, imgs). Cmd_SendMessage t imgs) left
    \<and> subseq (inputs_in es @ left) (sent_inputs items)
    \<and> (undisturbed items \<longrightarrow> inputs_in es @ left = sent_inputs items \<and> \<not> gone)"
  using assms by (rule prompt_accounts)

theorem nothing_sent_is_lost_witness:
  "\<exists>se' es left. process_send_message (sample_session_cfg None)
       (sample_run [Served (Cmd_SendMessage ''two'' []), Served (Cmd_Tagged ''cli'' Cmd_Snapshot)])
       (User_Prompt, ''one'', [], None) sample_session = Some (se', False)
    \<and> se_pending se' = [Cmd_Snapshot, Cmd_SendMessage ''two'' []]
    \<and> se_out se' = se_out sample_session @ map Turn_Out es \<and> inputs_in es @ left = [(''two'', [])]"
proof -
  let ?items = "[Served (Cmd_SendMessage ''two'' []), Served (Cmd_Tagged ''cli'' Cmd_Snapshot)]"
  obtain se' where run: "process_send_message (sample_session_cfg None) (sample_run ?items)
      (User_Prompt, ''one'', [], None) sample_session = Some (se', False)"
      "se_pending se' = [Cmd_Snapshot, Cmd_SendMessage ''two'' []]"
    using sample_prompt [of ?items] by (auto simp: mid_start_def mid_command_def mid_cancel_def sample_fields)
  have verdict: "pr_verdict (sample_run ?items) = Inr ''one''" by (simp add: sample_run_def)
  have items: "prompt_items (sample_session_cfg None) (sample_run ?items) User_Prompt ''one'' [] None sample_session = ?items"
    by (simp add: prompt_items_def sample_run_def Let_def split: flow.split)
  from nothing_sent_is_lost [OF run(1) verdict refl] obtain es left where
    "se_out se' = se_out sample_session @ map Turn_Out es" "inputs_in es @ left = sent_inputs ?items"
    unfolding items by auto
  then show ?thesis using run by (intro exI [of _ se'] exI [of _ es] exI [of _ left]) simp
qed

section \<open>Questions to the driver\<close>

text \<open>What the items of a turn do to the broker.\<close>

fun item_ops :: "pass_item \<Rightarrow> broker_op list" where
  "item_ops (Served c) =
     (case untagged c of
        Cmd_Respond i v \<Rightarrow> [Answer i v] | Cmd_Cancel \<Rightarrow> [Flush] | Cmd_Shutdown \<Rightarrow> [Flush] | _ \<Rightarrow> [])"
| "item_ops Asks = [Ask]"
| "item_ops (Ask_Expires i) = [Expire i]"

lemma mid_item_broker: "mi_broker (mid_item x m) = fold broker_step (item_ops x) (mi_broker m)"
  by (cases x) (auto simp: mid_command_def mid_cancel_def split: agent_command.split)

lemma mid_items_broker: "mi_broker (fold mid_item items m) = fold broker_step (concat (map item_ops items)) (mi_broker m)"
  by (induction items arbitrary: m) (simp_all add: mid_item_broker)

text \<open>
  C8. A question is answered once, by the first thing that concerns it. Whatever is served and asked during a
  turn, in whatever order, the \<open>i\<close>-th question of the session has been given what the first of the following
  says that comes behind it: an answer to its id, a cancel or shutdown (\<open>null\<close>), its own timeout where
  timeouts are configured (\<open>null\<close>). It is parked exactly when there was none of these. An answer to a
  question that is settled, or was never asked, changes nothing.
\<close>

theorem question_gets_first_answer:
  "let ops = before @ concat (map item_ops items);
       b = mi_broker (fold mid_item items (m\<lparr>mi_broker := broker_run bounded before\<rparr>))
   in br_answers b i = (case behind_ask i ops of None \<Rightarrow> None | Some behind \<Rightarrow> first_reply bounded i behind)
      \<and> (i \<in> set (br_pending b) \<longleftrightarrow>
           (case behind_ask i ops of None \<Rightarrow> False | Some behind \<Rightarrow> first_reply bounded i behind = None))"
proof -
  let ?ops = "before @ concat (map item_ops items)"
  have "mi_broker (fold mid_item items (m\<lparr>mi_broker := broker_run bounded before\<rparr>)) = broker_run bounded ?ops"
    by (simp add: mid_items_broker broker_run_def)
  then show ?thesis
    using broker_run_agrees [of bounded ?ops] by (cases "i = 0") (auto simp: broker_agrees_def split: option.split)
qed

section \<open>Resuming\<close>

text \<open>
  Resuming undoes a snapshot. A session resumed from the snapshot of a well-paired history starts with
  exactly that history, message by message, and that cache epoch, and its counters are beyond every turn and
  request the snapshot or any of its messages knows of, so that no number is used twice.
\<close>

lemma resume_restores:
  assumes "well_paired (c_messages c)"
  shows "session_seed persona (Some (capture_snapshot t r c)) = (c, True, [])
    \<and> (case counter_seeds (Some (capture_snapshot t r c)) of (t', r') \<Rightarrow>
        t \<le> t' \<and> r \<le> r'
        \<and> (\<forall>m\<in>set (c_messages c). \<forall>meta. m_meta m = Some meta \<longrightarrow> turn_id meta \<le> t' \<and> request_id meta \<le> r'))"
proof -
  let ?d = "derive_counters (c_messages c)"
  have "fst ?d \<le> max (fst ?d) t \<and> snd ?d \<le> max (snd ?d) r" by simp
  then have "\<forall>m\<in>set (c_messages c). \<forall>meta. m_meta m = Some meta \<longrightarrow> turn_id meta \<le> max (fst ?d) t \<and> request_id meta \<le> max (snd ?d) r"
    by (simp only: derive_counters_le_iff)
  then show ?thesis
    using assms
    by (simp add: session_seed_def counter_seeds_def capture_snapshot_def from_conversation_def repair_pairing_well_paired split_beta Let_def)
qed

end
