(* ===== verification/Compaction_Policy.thy ===== *)
theory Compaction_Policy
  imports Summary_Anchor Compaction Session
begin

text \<open>
  The compaction strategy of the product (\<open>crates/atomcode-capabilities/src/compaction.rs\<close>): what
  \<open>StubCompaction\<close> folds, where a drain may cut, the ladder \<open>OverflowCompaction\<close> climbs when a request does
  not fit, and its prediction that a plan will be slow. A strategy only proposes; the kernel's \<open>apply_plan\<close>
  (theory \<open>Compaction\<close>) is the one writer.
\<close>

section \<open>Budgets\<close>

definition MIN_COLLAPSE_SIZE :: nat where "MIN_COLLAPSE_SIZE = 500"

definition AGGRESSIVE_STUB_MIN :: nat where "AGGRESSIVE_STUB_MIN = 160"

definition TRUNCATE_MARKER :: string where "TRUNCATE_MARKER = newline # ''[truncated: showing ''"

definition AUTO_DRAIN_UTILIZATION :: f32 where "AUTO_DRAIN_UTILIZATION = to_f32 (78 / 100)"

definition MIN_RECENT_KEEP_TOKENS :: nat where "MIN_RECENT_KEEP_TOKENS = 8000"

definition MAX_RECENT_KEEP_TOKENS :: nat where "MAX_RECENT_KEEP_TOKENS = 256000"

definition recent_keep_budget :: "u32 \<Rightarrow> nat" where
  "recent_keep_budget window =
     min (max MIN_RECENT_KEEP_TOKENS
            (min MAX_RECENT_KEEP_TOKENS (nat \<lfloor>to_f32 (to_f32 (of_nat (unat window)) * (1 / 4))\<rfloor>)))
       (unat window div 2)"

section \<open>Where a drain may cut\<close>

definition span_tokens :: "message list \<Rightarrow> nat" where
  "span_tokens msgs = sum_list (map (\<lambda>m. unat (estimate_tokens m)) msgs)"

text \<open>A turn starts at what the user said.\<close>

definition starts_turn :: "message \<Rightarrow> bool" where
  "starts_turn m \<longleftrightarrow> m_role m = User \<and> \<not> synthetic m"

definition turn_starts :: "message list \<Rightarrow> nat list" where
  "turn_starts msgs = filter (\<lambda>i. starts_turn (msgs ! i)) [0..<length msgs]"

text \<open>Whole turns are kept backwards while they fit.\<close>

fun keep_turns :: "message list \<Rightarrow> nat \<Rightarrow> nat \<Rightarrow> nat list \<Rightarrow> nat \<Rightarrow> nat \<Rightarrow> nat" where
  "keep_turns msgs budget flr [] kept b = b"
| "keep_turns msgs budget flr (s # starts) kept b =
     (if s < flr then b
      else (let t = span_tokens (drop s (take b msgs))
            in if budget < kept + t then b else keep_turns msgs budget flr starts (kept + t) s))"

definition recent_keep_boundary :: "message list \<Rightarrow> nat \<Rightarrow> nat \<Rightarrow> nat" where
  "recent_keep_boundary msgs budget flr =
     (case rev (turn_starts msgs) of
        [] \<Rightarrow> flr
      | active # older \<Rightarrow> max (keep_turns msgs budget flr older (span_tokens (drop active msgs)) active) flr)"

text \<open>Inside one long turn, messages are kept backwards while they fit, and the last one in any case.\<close>

fun keep_messages :: "message list \<Rightarrow> nat \<Rightarrow> nat \<Rightarrow> nat \<Rightarrow> nat \<Rightarrow> nat \<Rightarrow> nat" where
  "keep_messages msgs budget lo 0 acc b = b"
| "keep_messages msgs budget lo (Suc i) acc b =
     (if i < lo then b
      else (let t = unat (estimate_tokens (msgs ! i))
            in if b < length msgs \<and> budget < acc + t then b else keep_messages msgs budget lo i (acc + t) i))"

definition recent_keep_boundary_splitting :: "message list \<Rightarrow> nat \<Rightarrow> nat \<Rightarrow> nat" where
  "recent_keep_boundary_splitting msgs budget flr =
     (let tb = recent_keep_boundary msgs budget flr
      in if span_tokens (drop tb msgs) \<le> budget then tb
         else (let b = keep_messages msgs budget tb (length msgs) 0 (length msgs);
                   b = b + length (takeWhile is_tool (drop b msgs));
                   b = (if length msgs \<le> b
                        then (case find (\<lambda>i. \<not> is_tool (msgs ! i)) (rev [flr..<length msgs]) of Some i \<Rightarrow> i | None \<Rightarrow> b)
                        else b)
               in min (max b flr) (length msgs)))"

section \<open>Folding tool results\<close>

definition call_id_to_tool :: "message list \<Rightarrow> string \<Rightarrow> string option" where
  "call_id_to_tool msgs =
     map_of (rev (concat (map (\<lambda>m. if m_role m = Assistant then map (\<lambda>c. (tc_id c, tc_name c)) (tool_calls m) else []) msgs)))"

definition tool_of :: "message list \<Rightarrow> message \<Rightarrow> string" where
  "tool_of msgs m =
     (case Option.bind (tool_call_id m) (call_id_to_tool msgs) of Some n \<Rightarrow> n | None \<Rightarrow> ''tool'')"

definition stub_of :: "message list \<Rightarrow> message \<Rightarrow> string" where
  "stub_of msgs m = build_compact_stub (tool_of msgs m) (m_text m) (\<not> is_error m)"

text \<open>The gentle policy: its protected budget, if it is pinned, and whether reads are exempt.\<close>

record stub_policy =
  protect_tokens :: "nat option"
  exempt_read_file :: bool

definition stub_policy_default :: stub_policy where
  "stub_policy_default = \<lparr>protect_tokens = None, exempt_read_file = True\<rparr>"

definition gentle_rewrites :: "bool \<Rightarrow> message list \<Rightarrow> nat \<Rightarrow> nat \<Rightarrow> (nat \<times> string) list" where
  "gentle_rewrites exempt msgs flr b =
     map (\<lambda>i. (i, stub_of msgs (msgs ! i)))
       (filter (\<lambda>i. flr \<le> i \<and> is_tool (msgs ! i) \<and> MIN_COLLAPSE_SIZE < length (m_text (msgs ! i))
                  \<and> \<not> (exempt \<and> tool_of msgs (msgs ! i) = ''read_file''))
          [0..<min b (length msgs)])"

definition rewrite_plan :: "(nat \<times> string) list \<Rightarrow> compaction_plan" where
  "rewrite_plan rws =
     (if rws = [] then plan_noop
      else \<lparr>drain_from = 0, drain_to = 0, summary = None, plan_rewrites = rws, resume_note = None\<rparr>)"

definition stub_plan :: "stub_policy \<Rightarrow> compaction_view \<Rightarrow> compaction_plan" where
  "stub_plan sp view =
     (let msgs = cv_messages view;
          budget = (case protect_tokens sp of Some n \<Rightarrow> n | None \<Rightarrow> recent_keep_budget (cv_ctx_window view));
          b = recent_keep_boundary msgs budget (cv_sacred_floor view)
      in if b \<le> cv_sacred_floor view then plan_noop
         else rewrite_plan (gentle_rewrites (exempt_read_file sp) msgs (cv_sacred_floor view) b))"

text \<open>\<open>None\<close>: no read is exempt.\<close>

definition aggressive_stub_rewrites :: "message list \<Rightarrow> nat \<Rightarrow> nat \<Rightarrow> nat option \<Rightarrow> (nat \<times> string) list" where
  "aggressive_stub_rewrites msgs from' to' exempt_from =
     map (\<lambda>i. (i, stub_of msgs (msgs ! i)))
       (filter (\<lambda>i. is_tool (msgs ! i) \<and> AGGRESSIVE_STUB_MIN < length (m_text (msgs ! i))
                  \<and> \<not> (tool_of msgs (msgs ! i) = ''read_file'' \<and> (case exempt_from of Some k \<Rightarrow> k \<le> i | None \<Rightarrow> False)))
          [from'..<min to' (length msgs)])"

definition truncated_text :: "nat \<Rightarrow> string \<Rightarrow> string" where
  "truncated_text budget t =
     take_chars budget t @ TRUNCATE_MARKER @ show_nat budget @ '' of '' @ show_nat (char_count t) @ '' chars]''"

definition truncate_rewrites :: "message list \<Rightarrow> nat \<Rightarrow> nat \<Rightarrow> bool \<Rightarrow> (nat \<times> string) list" where
  "truncate_rewrites msgs from' budget tools_only =
     map (\<lambda>i. (i, truncated_text budget (m_text (msgs ! i))))
       (filter (\<lambda>i. \<not> (tools_only \<and> \<not> is_tool (msgs ! i)) \<and> \<not> contains_str (m_text (msgs ! i)) TRUNCATE_MARKER
                  \<and> budget < char_count (m_text (msgs ! i)))
          [from'..<length msgs])"

section \<open>The ladder\<close>

text \<open>Byte for byte the notes of the source, which are written in Chinese.\<close>

definition SUMMARY_TIMEOUT_NOTE :: string where
  "SUMMARY_TIMEOUT_NOTE =
     ''['' @
     [CHR 0xE7, CHR 0xB3, CHR 0xBB, CHR 0xE7, CHR 0xBB, CHR 0x9F] @
     ''] '' @
     [CHR 0xE6, CHR 0x9C, CHR 0xAC, CHR 0xE6, CHR 0xAC, CHR 0xA1, CHR 0xE4, CHR 0xB8, CHR 0x8A, CHR 0xE4] @
     [CHR 0xB8, CHR 0x8B, CHR 0xE6, CHR 0x96, CHR 0x87, CHR 0xE5, CHR 0x8E, CHR 0x8B, CHR 0xE7, CHR 0xBC] @
     [CHR 0xA9, CHR 0xE7, CHR 0x9A, CHR 0x84] @
     '' AI '' @
     [CHR 0xE6, CHR 0x91, CHR 0x98, CHR 0xE8, CHR 0xA6, CHR 0x81, CHR 0xE8, CHR 0xB6, CHR 0x85, CHR 0xE6] @
     [CHR 0x97, CHR 0xB6, CHR 0xEF, CHR 0xBC, CHR 0x88, CHR 0xE6, CHR 0xA8, CHR 0xA1, CHR 0xE5, CHR 0x9E] @
     [CHR 0x8B, CHR 0xE5, CHR 0x8F, CHR 0xAF, CHR 0xE8, CHR 0x83, CHR 0xBD, CHR 0xE5, CHR 0x9C, CHR 0xA8] @
     [CHR 0xE5, CHR 0xA4, CHR 0xA7, CHR 0xE4, CHR 0xB8, CHR 0x8A, CHR 0xE4, CHR 0xB8, CHR 0x8B, CHR 0xE6] @
     [CHR 0x96, CHR 0x87, CHR 0xE4, CHR 0xB8, CHR 0x8B, CHR 0xE9, CHR 0x95, CHR 0xBF, CHR 0xE6, CHR 0x97] @
     [CHR 0xB6, CHR 0xE9, CHR 0x97, CHR 0xB4, CHR 0xE6, CHR 0x8E, CHR 0xA8, CHR 0xE7, CHR 0x90, CHR 0x86] @
     [CHR 0xEF, CHR 0xBC, CHR 0x89, CHR 0xEF, CHR 0xBC, CHR 0x8C, CHR 0xE5, CHR 0xB7, CHR 0xB2, CHR 0xE6] @
     [CHR 0x94, CHR 0xB9, CHR 0xE7, CHR 0x94, CHR 0xA8, CHR 0xE5, CHR 0xBF, CHR 0xAB, CHR 0xE9, CHR 0x80] @
     [CHR 0x9F, CHR 0xE5, CHR 0x8E, CHR 0x8B, CHR 0xE7, CHR 0xBC, CHR 0xA9, CHR 0xEF, CHR 0xBC, CHR 0x9A] @
     [CHR 0xE5, CHR 0xAF, CHR 0xB9, CHR 0xE8, CHR 0xAF, CHR 0x9D, CHR 0xE5, CHR 0x85, CHR 0xA8, CHR 0xE9] @
     [CHR 0x83, CHR 0xA8, CHR 0xE4, CHR 0xBF, CHR 0x9D, CHR 0xE7, CHR 0x95, CHR 0x99, CHR 0xEF, CHR 0xBC] @
     [CHR 0x8C, CHR 0xE4, CHR 0xBB, CHR 0x85, CHR 0xE6, CHR 0x8A, CHR 0x98, CHR 0xE5, CHR 0x8F, CHR 0xA0] @
     [CHR 0xE4, CHR 0xBA, CHR 0x86, CHR 0xE8, CHR 0xBE, CHR 0x83, CHR 0xE5, CHR 0xA4, CHR 0xA7, CHR 0xE7] @
     [CHR 0x9A, CHR 0x84, CHR 0xE5, CHR 0xB7, CHR 0xA5, CHR 0xE5, CHR 0x85, CHR 0xB7, CHR 0xE8, CHR 0xBE] @
     [CHR 0x93, CHR 0xE5, CHR 0x87, CHR 0xBA, CHR 0xE3, CHR 0x80, CHR 0x82, CHR 0xE5, CHR 0xA6, CHR 0x82] @
     [CHR 0xE9, CHR 0x9C, CHR 0x80, CHR 0xE6, CHR 0x9B, CHR 0xB4, CHR 0xE5, CHR 0xBD, CHR 0xBB, CHR 0xE5] @
     [CHR 0xBA, CHR 0x95, CHR 0xE7, CHR 0x9A, CHR 0x84, CHR 0xE5, CHR 0x8E, CHR 0x8B, CHR 0xE7, CHR 0xBC] @
     [CHR 0xA9, CHR 0xEF, CHR 0xBC, CHR 0x8C, CHR 0xE5, CHR 0x8F, CHR 0xAF, CHR 0xE7, CHR 0xA8, CHR 0x8D] @
     [CHR 0xE5, CHR 0x90, CHR 0x8E, CHR 0xE6, CHR 0x89, CHR 0x8B, CHR 0xE5, CHR 0x8A, CHR 0xA8, CHR 0xE5] @
     [CHR 0x8E, CHR 0x8B, CHR 0xE7, CHR 0xBC, CHR 0xA9, CHR 0xEF, CHR 0xBC, CHR 0x88] @
     ''/compact'' @
     [CHR 0xEF, CHR 0xBC, CHR 0x89, CHR 0xEF, CHR 0xBC, CHR 0x8C, CHR 0xE6, CHR 0x88, CHR 0x96, CHR 0xE5] @
     [CHR 0x88, CHR 0x87, CHR 0xE6, CHR 0x8D, CHR 0xA2, CHR 0xE6, CHR 0x9B, CHR 0xB4, CHR 0xE5, CHR 0xBF] @
     [CHR 0xAB, CHR 0xE7, CHR 0x9A, CHR 0x84, CHR 0xE6, CHR 0xA8, CHR 0xA1, CHR 0xE5, CHR 0x9E, CHR 0x8B] @
     [CHR 0xE3, CHR 0x80, CHR 0x82]"

definition SUMMARY_FAILURE_NOTE :: string where
  "SUMMARY_FAILURE_NOTE =
     ''['' @
     [CHR 0xE7, CHR 0xB3, CHR 0xBB, CHR 0xE7, CHR 0xBB, CHR 0x9F] @
     ''] '' @
     [CHR 0xE6, CHR 0x9C, CHR 0xAC, CHR 0xE6, CHR 0xAC, CHR 0xA1] @
     '' AI '' @
     [CHR 0xE6, CHR 0x91, CHR 0x98, CHR 0xE8, CHR 0xA6, CHR 0x81, CHR 0xE5, CHR 0xA4, CHR 0xB1, CHR 0xE8] @
     [CHR 0xB4, CHR 0xA5, CHR 0xE6, CHR 0x88, CHR 0x96, CHR 0xE6, CHR 0x9C, CHR 0xAA, CHR 0xE8, CHR 0xBF] @
     [CHR 0x94, CHR 0xE5, CHR 0x9B, CHR 0x9E, CHR 0xE6, CHR 0x9C, CHR 0x89, CHR 0xE6, CHR 0x95, CHR 0x88] @
     [CHR 0xE5, CHR 0x86, CHR 0x85, CHR 0xE5, CHR 0xAE, CHR 0xB9, CHR 0xEF, CHR 0xBC, CHR 0x8C, CHR 0xE5] @
     [CHR 0xB7, CHR 0xB2, CHR 0xE4, CHR 0xBF, CHR 0x9D, CHR 0xE7, CHR 0x95, CHR 0x99, CHR 0xE5, CHR 0xAF] @
     [CHR 0xB9, CHR 0xE8, CHR 0xAF, CHR 0x9D, CHR 0xEF, CHR 0xBC, CHR 0x8C, CHR 0xE4, CHR 0xBB, CHR 0x85] @
     [CHR 0xE7, CHR 0xB2, CHR 0xBE, CHR 0xE7, CHR 0xAE, CHR 0x80, CHR 0xE8, CHR 0xBE, CHR 0x83, CHR 0xE5] @
     [CHR 0xA4, CHR 0xA7, CHR 0xE7, CHR 0x9A, CHR 0x84, CHR 0xE5, CHR 0xB7, CHR 0xA5, CHR 0xE5, CHR 0x85] @
     [CHR 0xB7, CHR 0xE8, CHR 0xBE, CHR 0x93, CHR 0xE5, CHR 0x87, CHR 0xBA, CHR 0xE3, CHR 0x80, CHR 0x82] @
     [CHR 0xE5, CHR 0x8F, CHR 0xAF, CHR 0xE7, CHR 0xA8, CHR 0x8D, CHR 0xE5, CHR 0x90, CHR 0x8E, CHR 0xE9] @
     [CHR 0x87, CHR 0x8D, CHR 0xE8, CHR 0xAF, CHR 0x95] @
     '' /compact '' @
     [CHR 0xE6, CHR 0x88, CHR 0x96, CHR 0xE6, CHR 0xA3, CHR 0x80, CHR 0xE6, CHR 0x9F, CHR 0xA5, CHR 0xE6] @
     [CHR 0xA8, CHR 0xA1, CHR 0xE5, CHR 0x9E, CHR 0x8B, CHR 0xE8, CHR 0xAE, CHR 0xBF, CHR 0xE9, CHR 0x97] @
     [CHR 0xAE, CHR 0xE6, CHR 0x9D, CHR 0x83, CHR 0xE9, CHR 0x99, CHR 0x90, CHR 0xE3, CHR 0x80, CHR 0x82]"

text \<open>
  \<open>OverflowCompaction\<close>: the gentle policy, the provider that summarises (if one is configured), the prompts
  it does not answer in time, and the limit on automatic context.
\<close>

record overflow_policy =
  oc_inner :: stub_policy
  oc_chat :: "(message list \<Rightarrow> stream_event list option) option"
  oc_slow :: "message list \<Rightarrow> bool"
  oc_limit :: "u32 option"

definition with_auto_token_limit :: "u32 option \<Rightarrow> overflow_policy \<Rightarrow> overflow_policy" where
  "with_auto_token_limit limit oc = oc\<lparr>oc_limit := (case limit of Some l \<Rightarrow> if 0 < l then Some l else None | None \<Rightarrow> None)\<rparr>"

definition recent_budget :: "overflow_policy \<Rightarrow> compaction_view \<Rightarrow> nat" where
  "recent_budget oc view =
     (case oc_limit oc of
        None \<Rightarrow> recent_keep_budget (cv_ctx_window view)
      | Some l \<Rightarrow> min (recent_keep_budget (cv_ctx_window view)) (unat l div 4))"

definition auto_mark :: "overflow_policy \<Rightarrow> compaction_view \<Rightarrow> nat" where
  "auto_mark oc view =
     (let ratio = nat \<lfloor>to_f32 (to_f32 (of_nat (unat (cv_ctx_window view))) * AUTO_DRAIN_UTILIZATION)\<rfloor>
      in case oc_limit oc of None \<Rightarrow> ratio | Some l \<Rightarrow> min ratio (unat l))"

definition auto_drain_would_help :: "compaction_view \<Rightarrow> nat \<Rightarrow> nat \<Rightarrow> bool" where
  "auto_drain_would_help view budget mark =
     (let msgs = cv_messages view; flr = cv_sacred_floor view;
          b = recent_keep_boundary_splitting msgs budget flr
      in if b \<le> flr then False
         else if cv_ctx_window view = 0 \<or> cv_used_tokens view = 0 then True
         else (let total = span_tokens msgs
               in if total = 0 then False
                  else (let remaining = total - span_tokens (drop flr (take b msgs))
                        in min (remaining * unat (cv_used_tokens view)) (2 ^ 64 - 1) div total < mark)))"

definition auto_due :: "overflow_policy \<Rightarrow> compaction_view \<Rightarrow> bool" where
  "auto_due oc view \<longleftrightarrow>
     (AUTO_DRAIN_UTILIZATION \<le> cv_utilization view
      \<or> (case oc_limit oc of Some l \<Rightarrow> l \<le> cv_used_tokens view | None \<Rightarrow> False))
     \<and> auto_drain_would_help view (recent_budget oc view) (auto_mark oc view)"

text \<open>A call for a summary, under its time limit.\<close>

datatype summary_call = Timed_Out | Answered "string option"

definition call_summary :: "overflow_policy \<Rightarrow> message list \<Rightarrow> string option \<Rightarrow> summary_call" where
  "call_summary oc seg steer =
     (case oc_chat oc of
        None \<Rightarrow> Answered None
      | Some chat \<Rightarrow>
          (if oc_slow oc (summary_prompt seg steer) then Timed_Out else Answered (summarize_span chat seg steer)))"

definition unavailable_note :: "summary_call \<Rightarrow> string" where
  "unavailable_note sc = (if sc = Timed_Out then SUMMARY_TIMEOUT_NOTE else SUMMARY_FAILURE_NOTE)"

text \<open>\<open>None\<close>: the summary is unavailable and nothing may be drained.\<close>

definition authorized :: "overflow_policy \<Rightarrow> summary_call \<Rightarrow> string option option" where
  "authorized oc sc =
     (case sc of
        Answered (Some s) \<Rightarrow> Some (Some s)
      | Answered None \<Rightarrow> if oc_chat oc = None then Some None else None
      | Timed_Out \<Rightarrow> None)"

definition drain_span :: "overflow_policy \<Rightarrow> compaction_view \<Rightarrow> message list" where
  "drain_span oc view =
     drop (cv_sacred_floor view)
       (take (recent_keep_boundary_splitting (cv_messages view) (recent_budget oc view) (cv_sacred_floor view))
         (cv_messages view))"

definition overflow_stub :: "overflow_policy \<Rightarrow> compaction_view \<Rightarrow> compaction_plan" where
  "overflow_stub oc view =
     (let msgs = cv_messages view; flr = cv_sacred_floor view;
          recent = recent_keep_boundary msgs (recent_budget oc view) flr;
          rws = aggressive_stub_rewrites msgs flr (length msgs) (Some recent)
      in rewrite_plan (if rws = [] then aggressive_stub_rewrites msgs flr (length msgs) None else rws))"

definition overflow_truncate :: "overflow_policy \<Rightarrow> compaction_view \<Rightarrow> compaction_plan" where
  "overflow_truncate oc view =
     rewrite_plan (truncate_rewrites (cv_messages view) (cv_sacred_floor view)
       (max (unat (cv_ctx_window view) * 2) 8000) (oc_chat oc \<noteq> None))"

definition overflow_drain :: "overflow_policy \<Rightarrow> compaction_view \<Rightarrow> compaction_plan" where
  "overflow_drain oc view =
     (let msgs = cv_messages view; flr = cv_sacred_floor view;
          b = recent_keep_boundary_splitting msgs (recent_budget oc view) flr
      in if b \<le> flr then plan_noop
         else (let rws = aggressive_stub_rewrites msgs b (length msgs) (Some b)
               in if \<not> span_has_non_anchor (drain_span oc view) then rewrite_plan rws
                  else (let sc = call_summary oc (drain_span oc view) None
                        in case authorized oc sc of
                             Some s \<Rightarrow>
                               \<lparr>drain_from = flr, drain_to = b, summary = s, plan_rewrites = rws, resume_note = None\<rparr>
                           | None \<Rightarrow>
                               \<lparr>drain_from = 0, drain_to = 0, summary = None, plan_rewrites = rws,
                                resume_note = (if rws \<noteq> [] then Some (unavailable_note sc) else None)\<rparr>)))"

definition overflow_plan :: "overflow_policy \<Rightarrow> compaction_view \<Rightarrow> u8 \<Rightarrow> compaction_plan" where
  "overflow_plan oc view n =
     (if n = 0 then overflow_stub oc view else if n = 1 then overflow_truncate oc view else overflow_drain oc view)"

definition annotate :: "string \<Rightarrow> compaction_plan \<Rightarrow> compaction_plan" where
  "annotate note plan =
     (if plan_rewrites plan \<noteq> []
      then plan\<lparr>resume_note := Some (case resume_note plan of Some n \<Rightarrow> n @ newline # note | None \<Rightarrow> note)\<rparr>
      else plan)"

definition manual_plan :: "overflow_policy \<Rightarrow> compaction_view \<Rightarrow> string option \<Rightarrow> compaction_plan" where
  "manual_plan oc view steer =
     (let msgs = cv_messages view; flr = cv_sacred_floor view;
          b = recent_keep_boundary_splitting msgs (recent_budget oc view) flr
      in if b \<le> flr \<or> \<not> span_has_non_anchor (drain_span oc view) then stub_plan (oc_inner oc) view
         else (let sc = call_summary oc (drain_span oc view) steer
               in case authorized oc sc of
                    Some s \<Rightarrow> \<lparr>drain_from = flr, drain_to = b, summary = s, plan_rewrites = [], resume_note = None\<rparr>
                  | None \<Rightarrow> annotate (unavailable_note sc) (stub_plan (oc_inner oc) view)))"

definition overflow_strategy :: "overflow_policy \<Rightarrow> compaction_view \<Rightarrow> compaction_plan" where
  "overflow_strategy oc view =
     (case cv_trigger view of
        Overflow n \<Rightarrow> overflow_plan oc view n
      | Manual steer \<Rightarrow> manual_plan oc view steer
      | Auto _ \<Rightarrow> if auto_due oc view then manual_plan oc view None else stub_plan (oc_inner oc) view)"

definition proactive_drains :: "overflow_policy \<Rightarrow> compaction_view \<Rightarrow> bool" where
  "proactive_drains oc view \<longleftrightarrow>
     cv_sacred_floor view < recent_keep_boundary_splitting (cv_messages view) (recent_budget oc view) (cv_sacred_floor view)
     \<and> span_has_non_anchor (drain_span oc view)"

definition will_summarize :: "overflow_policy \<Rightarrow> compaction_view \<Rightarrow> bool" where
  "will_summarize oc view \<longleftrightarrow>
     (case cv_trigger view of
        Manual _ \<Rightarrow> proactive_drains oc view
      | Overflow n \<Rightarrow> 2 \<le> n \<and> proactive_drains oc view
      | Auto _ \<Rightarrow> auto_due oc view \<and> proactive_drains oc view)"

end
