(* ===== verification/Compaction_Policy_Laws.thy ===== *)
theory Compaction_Policy_Laws
  imports Compaction_Policy
begin

text \<open>
  What the compaction strategy proposes: where it cuts, what it rewrites, and what the kernel makes of it.
\<close>

section \<open>Where a drain may cut\<close>

lemma span_tokens_append [simp]: "span_tokens (xs @ ys) = span_tokens xs + span_tokens ys"
  by (simp add: span_tokens_def)

lemma span_tokens_drop: "b \<le> c \<Longrightarrow> span_tokens (drop c ms) \<le> span_tokens (drop b ms)"
  using sum_list_drop_le [of "c - b" "map (\<lambda>m. unat (estimate_tokens m)) (drop b ms)"]
  by (simp add: span_tokens_def drop_map)

lemma keep_turns_in: "keep_turns msgs budget flr starts kept b \<in> insert b (set starts)"
  by (induction msgs budget flr starts kept b rule: keep_turns.induct) (auto simp: Let_def)

text \<open>What is kept either fits or is the turn that was kept in any case.\<close>

lemma keep_turns_fits:
  assumes "kept = span_tokens (drop b msgs)" "sorted (rev starts)" "\<forall>s\<in>set starts. s \<le> b" "b \<le> length msgs"
  shows "keep_turns msgs budget flr starts kept b = b
    \<or> span_tokens (drop (keep_turns msgs budget flr starts kept b) msgs) \<le> budget"
  using assms
proof (induction msgs budget flr starts kept b rule: keep_turns.induct)
  case (2 msgs budget flr s starts kept b)
  have "drop s (take b msgs) @ drop b msgs = drop s msgs"
    using "2.prems"(3,4) by (metis append_take_drop_id drop_append drop_take length_take list.set_intros(1) min.absorb2 diff_is_0_eq drop0)
  then have sum: "span_tokens (drop s (take b msgs)) + span_tokens (drop b msgs) = span_tokens (drop s msgs)"
    by (metis span_tokens_append)
  show ?case
  proof (cases "s < flr \<or> budget < kept + span_tokens (drop s (take b msgs))")
    case False
    have "keep_turns msgs budget flr starts (kept + span_tokens (drop s (take b msgs))) s = s
        \<or> span_tokens (drop (keep_turns msgs budget flr starts (kept + span_tokens (drop s (take b msgs))) s) msgs) \<le> budget"
      using False "2.prems" sum by (intro "2.IH") (auto simp: sorted_append)
    then show ?thesis using False sum "2.prems"(1) by (auto simp: Let_def)
  qed (auto simp: Let_def)
qed simp

lemma turn_starts_facts:
  "sorted (turn_starts msgs)" "s \<in> set (turn_starts msgs) \<longleftrightarrow> s < length msgs \<and> starts_turn (msgs ! s)"
  by (auto simp: turn_starts_def sorted_wrt_filter)

lemma keep_boundary_cases:
  "recent_keep_boundary msgs budget flr = flr
   \<or> flr < recent_keep_boundary msgs budget flr \<and> recent_keep_boundary msgs budget flr < length msgs
     \<and> starts_turn (msgs ! recent_keep_boundary msgs budget flr)"
proof (cases "rev (turn_starts msgs)")
  case (Cons active older)
  let ?k = "keep_turns msgs budget flr older (span_tokens (drop active msgs)) active"
  have "?k \<in> set (turn_starts msgs)"
    using keep_turns_in [of msgs budget flr older "span_tokens (drop active msgs)" active] Cons
    by (metis list.simps(15) set_rev)
  then show ?thesis using turn_starts_facts(2) by (auto simp: recent_keep_boundary_def Cons max_def)
qed (simp add: recent_keep_boundary_def)

lemma keep_boundary_bounds:
  "flr \<le> recent_keep_boundary msgs budget flr"
  "flr \<le> length msgs \<Longrightarrow> recent_keep_boundary msgs budget flr \<le> length msgs"
  using keep_boundary_cases [of msgs budget flr] by linarith+

lemma keep_messages_bounds:
  assumes "lo \<le> b" "i \<le> b"
  shows "lo \<le> keep_messages msgs budget lo i acc b \<and> keep_messages msgs budget lo i acc b \<le> b"
  using assms
proof (induction msgs budget lo i acc b rule: keep_messages.induct)
  case (2 msgs budget lo i acc b)
  then show ?case by (auto simp: Let_def intro: le_trans)
qed simp

lemma keep_messages_fits:
  assumes "acc = span_tokens (drop b msgs)" "i = b" "b \<le> length msgs" "b = length msgs \<or> acc \<le> budget \<or> b = length msgs - 1"
  shows "(let k = keep_messages msgs budget lo i acc b in span_tokens (drop k msgs) \<le> budget \<or> length msgs - 1 \<le> k)"
  using assms
proof (induction msgs budget lo i acc b rule: keep_messages.induct)
  case (2 msgs budget lo i acc b)
  have i: "i < length msgs" using "2.prems"(2,3) by simp
  have sum: "unat (estimate_tokens (msgs ! i)) + span_tokens (drop (Suc i) msgs) = span_tokens (drop i msgs)"
    by (simp add: span_tokens_def Cons_nth_drop_Suc [OF i, symmetric])
  show ?case
  proof (cases "i < lo \<or> b < length msgs \<and> budget < acc + unat (estimate_tokens (msgs ! i))")
    case True
    then have "keep_messages msgs budget lo (Suc i) acc b = b" by (auto simp: Let_def)
    then show ?thesis using "2.prems"(1,4) by (auto simp: span_tokens_def)
  next
    case False
    have "let k = keep_messages msgs budget lo i (acc + unat (estimate_tokens (msgs ! i))) i
        in span_tokens (drop k msgs) \<le> budget \<or> length msgs - 1 \<le> k"
      using False "2.prems" sum i by (intro "2.IH") auto
    moreover have "keep_messages msgs budget lo (Suc i) acc b = keep_messages msgs budget lo i (acc + unat (estimate_tokens (msgs ! i))) i"
      using False by (auto simp: Let_def)
    ultimately show ?thesis by simp
  qed
qed (auto simp: Let_def)

text \<open>The cut is clean: it never falls between the results of a batch.\<close>

definition clean_cut :: "message list \<Rightarrow> nat \<Rightarrow> bool" where
  "clean_cut msgs b \<longleftrightarrow> b \<le> length msgs \<and> well_paired (take b msgs) \<and> well_paired (drop b msgs)"

lemma clean_cut_head:
  assumes "well_paired msgs" "b \<le> length msgs" "b = length msgs \<or> \<not> is_tool (msgs ! b)"
  shows "clean_cut msgs b"
  using assms well_paired_append [of "drop b msgs" "take b msgs"]
  by (cases "b = length msgs") (auto simp: clean_cut_def hd_drop_conv_nth)

lemma sacred_floor_head:
  assumes "well_paired msgs" "sacred_floor msgs < length msgs"
  shows "\<not> is_tool (msgs ! sacred_floor msgs)"
proof (cases "take (sacred_floor msgs) msgs" rule: rev_cases)
  case Nil
  then have zero: "sacred_floor msgs = 0" using assms(2) by auto
  obtain m ms where "msgs = m # ms" using assms(2) by (cases msgs) auto
  then show ?thesis using assms(1) zero by (auto simp: pairing_simps split: if_split_asm)
next
  case (snoc p u)
  have u: "\<not> is_tool u" "\<not> opens_batch u" using sacred_floor_closed [of msgs] snoc by auto
  obtain m ms where rest: "drop (sacred_floor msgs) msgs = m # ms" using assms(2) by (cases "drop (sacred_floor msgs) msgs") auto
  have "msgs = p @ u # m # ms" using snoc rest append_take_drop_id [of "sacred_floor msgs" msgs] by simp
  then have "well_paired (u # m # ms)" using assms(1) u(1) well_paired_append [of "u # m # ms" p] by simp
  then have "\<not> is_tool m" using u by (auto simp: pairing_simps split: if_split_asm)
  moreover have "msgs ! sacred_floor msgs = m" using rest by (simp add: nth_via_drop)
  ultimately show ?thesis by simp
qed

lemma find_rev_upt: "find P (rev [a..<b]) = Some i \<Longrightarrow> a \<le> i \<and> i < b \<and> P i \<and> (\<forall>j. i < j \<longrightarrow> j < b \<longrightarrow> \<not> P j)"
proof -
  assume "find P (rev [a..<b]) = Some i"
  then obtain ys zs where split: "rev [a..<b] = ys @ i # zs" "P i" "\<forall>y\<in>set ys. \<not> P y" using find_Some_split by metis
  have "[a..<b] = rev zs @ i # rev ys" using split(1) by (metis append.assoc append_Cons append_Nil rev.simps(2) rev_append rev_rev_ident)
  moreover from this have "sorted (rev zs @ i # rev ys)" "distinct (rev zs @ i # rev ys)"
    by (metis sorted_upt, metis distinct_upt)
  moreover have "a \<le> i \<and> i < b" using split(1) by (metis atLeastLessThan_iff in_set_conv_decomp set_rev set_upt)
  moreover have "j \<in> set ys" if "i < j" "j < b" for j
  proof -
    have "j \<in> set [a..<b]" using that calculation(4) by simp
    then have "j \<in> set zs \<or> j \<in> set ys" using calculation(1) that(1) by auto
    then show ?thesis using calculation(2) that(1) by (fastforce simp: sorted_append)
  qed
  ultimately show ?thesis using split(2,3) by blast
qed

lemma drain_cut:
  fixes budget :: nat
  assumes msgs: "well_paired msgs" and flr: "flr = sacred_floor msgs"
  defines "b \<equiv> recent_keep_boundary_splitting msgs (budget :: nat) flr"
  shows "flr \<le> b" "clean_cut msgs b" "flr < length msgs \<Longrightarrow> b < length msgs"
    "span_tokens (drop b msgs) \<le> budget \<or> list_all is_tool (drop (Suc b) msgs)"
proof -
  have fl: "flr \<le> length msgs" by (simp add: flr sacred_floor_le)
  let ?tb = "recent_keep_boundary msgs budget flr"
  have tb: "flr \<le> ?tb" "?tb \<le> length msgs" using keep_boundary_bounds fl by blast+
  have goal: "flr \<le> b \<and> clean_cut msgs b \<and> (flr < length msgs \<longrightarrow> b < length msgs)
      \<and> (span_tokens (drop b msgs) \<le> budget \<or> list_all is_tool (drop (Suc b) msgs))"
  proof (cases "span_tokens (drop ?tb msgs) \<le> budget")
    case True
    then have b: "b = ?tb" by (simp add: b_def recent_keep_boundary_splitting_def Let_def)
    have "?tb = length msgs \<or> \<not> is_tool (msgs ! ?tb)"
      using keep_boundary_cases [of msgs budget flr] sacred_floor_head [OF msgs] fl
      by (auto simp: starts_turn_def flr)
    then have "clean_cut msgs b" using clean_cut_head [OF msgs tb(2)] b by simp
    then show ?thesis using True b tb keep_boundary_cases [of msgs budget flr] by auto
  next
    case False
    let ?k = "keep_messages msgs budget ?tb (length msgs) 0 (length msgs)"
    have k: "?tb \<le> ?k" "?k \<le> length msgs"
      "span_tokens (drop ?k msgs) \<le> budget \<or> length msgs - 1 \<le> ?k"
      using keep_messages_bounds [of ?tb "length msgs" "length msgs" msgs budget 0] tb
        keep_messages_fits [of 0 "length msgs" msgs "length msgs" budget ?tb]
      by (auto simp: Let_def span_tokens_def)
    let ?s = "?k + length (takeWhile is_tool (drop ?k msgs))"
    have s: "?s \<le> length msgs" using length_takeWhile_le [of is_tool "drop ?k msgs"] k(2) by simp
    have drop_s: "drop ?s msgs = dropWhile is_tool (drop ?k msgs)"
      by (metis add.commute drop_drop dropWhile_eq_drop)
    show ?thesis
    proof (cases "?s < length msgs")
      case True
      then have b: "b = ?s" using False k(1) tb(1) by (simp add: b_def recent_keep_boundary_splitting_def Let_def)
      have "\<not> is_tool (msgs ! ?s)"
      proof -
        have "dropWhile is_tool (drop ?k msgs) \<noteq> []" using True drop_s by (metis drop_eq_Nil not_le)
        from hd_dropWhile [OF this] show ?thesis using hd_drop_conv_nth [OF True] drop_s by simp
      qed
      then have "clean_cut msgs b" using clean_cut_head [OF msgs s] b by simp
      moreover have "span_tokens (drop b msgs) \<le> budget \<or> list_all is_tool (drop (Suc b) msgs)"
        using k(3) span_tokens_drop [of ?k ?s msgs] True unfolding b by auto
      ultimately show ?thesis using b k(1) tb(1) True by simp
    next
      case False
      note whole = this
      show ?thesis
      proof (cases "find (\<lambda>i. \<not> is_tool (msgs ! i)) (rev [flr..<length msgs])")
        case None
        have "flr = length msgs"
        proof (rule ccontr)
          assume "flr \<noteq> length msgs"
          then have "flr < length msgs" using fl by simp
          moreover from this have "\<not> is_tool (msgs ! flr)" using sacred_floor_head [OF msgs] flr by simp
          ultimately show False using None by (auto simp: find_None_iff)
        qed
        moreover from this have "b = length msgs"
          using tb \<open>\<not> span_tokens (drop ?tb msgs) \<le> budget\<close> by (auto simp: b_def recent_keep_boundary_splitting_def Let_def span_tokens_def)
        ultimately show ?thesis using clean_cut_head [OF msgs] by simp
      next
        case (Some i)
        note i = find_rev_upt [OF Some]
        have b: "b = i"
          using \<open>\<not> span_tokens (drop ?tb msgs) \<le> budget\<close> whole s Some i
          by (simp add: b_def recent_keep_boundary_splitting_def Let_def)
        have "list_all is_tool (drop (Suc b) msgs)"
          using i by (auto simp: b list_all_length)
        then show ?thesis using i b clean_cut_head [OF msgs, of b] by auto
      qed
    qed
  qed
  then show "flr \<le> b" "clean_cut msgs b" "flr < length msgs \<Longrightarrow> b < length msgs"
    "span_tokens (drop b msgs) \<le> budget \<or> list_all is_tool (drop (Suc b) msgs)" by blast+
qed

section \<open>What is proposed\<close>

text \<open>The rewrites of every policy are a function of the index on some of the indices of a range.\<close>

lemma rewrites_of_filter:
  "(i, t) \<in> set (map (\<lambda>i. (i, f i)) (filter P [a..<b])) \<longleftrightarrow> a \<le> i \<and> i < b \<and> P i \<and> t = f i"
  by auto

lemma gentle_rewrites_in:
  "(i, t) \<in> set (gentle_rewrites exempt msgs flr b) \<Longrightarrow>
   flr \<le> i \<and> i < b \<and> i < length msgs \<and> is_tool (msgs ! i) \<and> MIN_COLLAPSE_SIZE < length (m_text (msgs ! i))"
  by (auto simp: gentle_rewrites_def)

lemma aggressive_rewrites_in:
  "(i, t) \<in> set (aggressive_stub_rewrites msgs a b k) \<Longrightarrow>
   a \<le> i \<and> i < b \<and> i < length msgs \<and> is_tool (msgs ! i) \<and> AGGRESSIVE_STUB_MIN < length (m_text (msgs ! i))"
  by (auto simp: aggressive_stub_rewrites_def)

lemma truncate_rewrites_in:
  "(i, t) \<in> set (truncate_rewrites msgs a n tools_only) \<Longrightarrow>
   a \<le> i \<and> i < length msgs \<and> (tools_only \<longrightarrow> is_tool (msgs ! i)) \<and> n < char_count (m_text (msgs ! i))"
  by (auto simp: truncate_rewrites_def)

lemma rewrite_plan_fields [simp]:
  "drain_from (rewrite_plan rws) = 0" "drain_to (rewrite_plan rws) = 0" "summary (rewrite_plan rws) = None"
  "plan_rewrites (rewrite_plan rws) = rws" "resume_note (rewrite_plan rws) = None"
  by (simp_all add: rewrite_plan_def plan_noop_def)

lemma plan_noop_fields [simp]:
  "drain_from plan_noop = 0" "drain_to plan_noop = 0" "summary plan_noop = None" "plan_rewrites plan_noop = []"
  "resume_note plan_noop = None"
  by (simp_all add: plan_noop_def)

lemma annotate_fields [simp]:
  "drain_from (annotate n p) = drain_from p" "drain_to (annotate n p) = drain_to p" "summary (annotate n p) = summary p"
  "plan_rewrites (annotate n p) = plan_rewrites p"
  by (simp_all add: annotate_def)

definition folds_only :: "compaction_plan \<Rightarrow> bool" where
  "folds_only p \<longleftrightarrow> drain_from p = 0 \<and> drain_to p = 0 \<and> summary p = None"

definition rewrites_tools :: "message list \<Rightarrow> compaction_plan \<Rightarrow> bool" where
  "rewrites_tools msgs p \<longleftrightarrow> (\<forall>rw\<in>set (plan_rewrites p). fst rw < length msgs \<and> is_tool (msgs ! fst rw))"

lemma folds_only_simps [simp]: "folds_only plan_noop" "folds_only (rewrite_plan rws)" "folds_only (annotate n p) = folds_only p"
  by (simp_all add: folds_only_def)

lemma rewrites_tools_simps [simp]:
  "rewrites_tools msgs plan_noop"
  "rewrites_tools msgs (annotate n p) = rewrites_tools msgs p"
  "rewrites_tools msgs (rewrite_plan (gentle_rewrites exempt msgs flr b))"
  "rewrites_tools msgs (rewrite_plan (aggressive_stub_rewrites msgs a b k))"
  "rewrites_tools msgs (rewrite_plan (truncate_rewrites msgs a m True))"
  by (auto simp: rewrites_tools_def dest: gentle_rewrites_in aggressive_rewrites_in truncate_rewrites_in)

lemma stub_plan_folds: "folds_only (stub_plan sp view) \<and> rewrites_tools (cv_messages view) (stub_plan sp view)"
  by (auto simp: stub_plan_def Let_def)

lemma stub_plan_within:
  "(i, t) \<in> set (plan_rewrites (stub_plan sp view)) \<Longrightarrow> cv_sacred_floor view \<le> i \<and> i < length (cv_messages view)"
  by (auto simp: stub_plan_def Let_def split: if_split_asm dest: gentle_rewrites_in)

text \<open>The three things a plan of the ladder can be.\<close>

definition drains_at :: "compaction_view \<Rightarrow> overflow_policy \<Rightarrow> compaction_plan \<Rightarrow> bool" where
  "drains_at view oc p \<longleftrightarrow>
     drain_from p = cv_sacred_floor view
     \<and> drain_to p = recent_keep_boundary_splitting (cv_messages view) (recent_budget oc view) (cv_sacred_floor view)
     \<and> proactive_drains oc view"

lemma authorized_Some:
  "authorized oc sc = Some s \<longleftrightarrow> (\<exists>t. sc = Answered (Some t) \<and> s = Some t) \<or> (sc = Answered None \<and> oc_chat oc = None \<and> s = None)"
  by (auto simp: authorized_def split: summary_call.splits option.splits)

lemma authorized_None:
  "authorized oc sc = None \<longleftrightarrow> sc = Timed_Out \<or> (sc = Answered None \<and> oc_chat oc \<noteq> None)"
  by (auto simp: authorized_def split: summary_call.splits option.splits)

lemma manual_plan_cases:
  obtains (gentle) "\<not> proactive_drains oc view" "manual_plan oc view steer = stub_plan (oc_inner oc) view"
  | (drained) s where "proactive_drains oc view" "authorized oc (call_summary oc (drain_span oc view) steer) = Some s"
      "manual_plan oc view steer =
         \<lparr>drain_from = cv_sacred_floor view,
          drain_to = recent_keep_boundary_splitting (cv_messages view) (recent_budget oc view) (cv_sacred_floor view),
          summary = s, plan_rewrites = [], resume_note = None\<rparr>"
  | (refused) "proactive_drains oc view" "authorized oc (call_summary oc (drain_span oc view) steer) = None"
      "manual_plan oc view steer
         = annotate (unavailable_note (call_summary oc (drain_span oc view) steer)) (stub_plan (oc_inner oc) view)"
proof (cases "proactive_drains oc view")
  case False
  then show thesis by (intro gentle) (auto simp: manual_plan_def proactive_drains_def Let_def)
next
  case True
  then show thesis
    using drained refused
    by (cases "authorized oc (call_summary oc (drain_span oc view) steer)")
      (auto simp: manual_plan_def proactive_drains_def Let_def)
qed

lemma overflow_drain_cases:
  obtains (folded) "\<not> proactive_drains oc view" "folds_only (overflow_drain oc view)"
      "rewrites_tools (cv_messages view) (overflow_drain oc view)"
  | (drained) s where "proactive_drains oc view" "authorized oc (call_summary oc (drain_span oc view) None) = Some s"
      "drains_at view oc (overflow_drain oc view)" "summary (overflow_drain oc view) = s"
      "rewrites_tools (cv_messages view) (overflow_drain oc view)"
  | (refused) "proactive_drains oc view" "authorized oc (call_summary oc (drain_span oc view) None) = None"
      "folds_only (overflow_drain oc view)" "rewrites_tools (cv_messages view) (overflow_drain oc view)"
proof (cases "proactive_drains oc view")
  case False
  then show thesis by (intro folded) (auto simp: overflow_drain_def proactive_drains_def Let_def)
next
  case True
  then have can: "\<not> recent_keep_boundary_splitting (cv_messages view) (recent_budget oc view) (cv_sacred_floor view) \<le> cv_sacred_floor view"
    "span_has_non_anchor (drain_span oc view)" by (auto simp: proactive_drains_def)
  have tools: "rewrites_tools msgs (p\<lparr>plan_rewrites := aggressive_stub_rewrites msgs a b k\<rparr>)" for msgs a b k and p :: compaction_plan
    using rewrites_tools_simps(4) [of msgs a b k] by (simp add: rewrites_tools_def)
  show thesis
  proof (cases "authorized oc (call_summary oc (drain_span oc view) None)")
    case None
    with True can show thesis
      by (intro refused) (auto simp: overflow_drain_def Let_def folds_only_def rewrites_tools_def dest: aggressive_rewrites_in)
  next
    case (Some s)
    with True can show thesis
      by (intro drained [of s]) (auto simp: overflow_drain_def Let_def drains_at_def rewrites_tools_def dest: aggressive_rewrites_in)
  qed
qed

text \<open>A provider that is configured and gives no summary: nothing is drained, and only tool results are touched.\<close>

lemma unavailable_folds:
  assumes "oc_chat oc \<noteq> None" "summary (overflow_strategy oc view) = None"
  shows "folds_only (overflow_strategy oc view) \<and> rewrites_tools (cv_messages view) (overflow_strategy oc view)"
proof -
  have manual: "folds_only (manual_plan oc view steer) \<and> rewrites_tools (cv_messages view) (manual_plan oc view steer)"
    if "summary (manual_plan oc view steer) = None" for steer
    using that assms(1) stub_plan_folds
    by (cases rule: manual_plan_cases [of oc view steer]) (auto simp: authorized_Some)
  have drain: "folds_only (overflow_drain oc view) \<and> rewrites_tools (cv_messages view) (overflow_drain oc view)"
    if "summary (overflow_drain oc view) = None"
    using that assms(1) by (cases rule: overflow_drain_cases [of oc view]) (auto simp: authorized_Some)
  have stub: "folds_only (overflow_stub oc view) \<and> rewrites_tools (cv_messages view) (overflow_stub oc view)"
    by (simp add: overflow_stub_def Let_def)
  have cut: "folds_only (overflow_truncate oc view) \<and> rewrites_tools (cv_messages view) (overflow_truncate oc view)"
    using assms(1) by (simp add: overflow_truncate_def Let_def)
  show ?thesis
    using assms(2) manual drain stub cut stub_plan_folds
    by (auto simp: overflow_strategy_def overflow_plan_def split: compact_trigger.splits if_split_asm)
qed

section \<open>What the kernel makes of it\<close>

lemma fold_candidate:
  assumes "folds_only p"
  shows "build_candidate p msgs sacred =
    repair_pairing (survivors (min sacred (length msgs)) (plan_rewrites p) msgs 0 (length msgs) @ resume_messages p)"
proof -
  let ?f = "min sacred (length msgs)"
  have "clamp_drain p ?f (length msgs) = (?f, ?f)"
    using assms by (simp add: clamp_drain_def folds_only_def Let_def)
  from build_candidate_eq [OF this] show ?thesis
    using assms survivors_split [of 0 ?f "length msgs" ?f "plan_rewrites p" msgs]
    by (simp add: folds_only_def summary_messages_def)
qed

lemma survivors_dialogue:
  assumes "\<forall>rw\<in>set rws. fst rw < length msgs \<and> is_tool (msgs ! fst rw)"
  shows "filter (\<lambda>m. \<not> is_tool m) (survivors flr rws msgs 0 (length msgs)) = filter (\<lambda>m. \<not> is_tool m) msgs"
proof -
  let ?g = "\<lambda>i. rewritten flr rws i (msgs ! i)"
  have same: "?g i = msgs ! i" if "\<not> is_tool (msgs ! i)" for i
  proof -
    have "map_of (rev rws) i = None" using assms that by (auto simp: map_of_eq_None_iff)
    then show ?thesis by (simp add: rewritten_def)
  qed
  have "filter (\<lambda>m. \<not> is_tool m) (map ?g is) = filter (\<lambda>m. \<not> is_tool m) (map ((!) msgs) is)" for "is"
    using same by (induction "is") auto
  then show ?thesis by (simp add: survivors_def map_nth)
qed

lemma filter_bare: "filter (\<lambda>m. \<not> is_tool m) (map bare ms) = map bare (filter (\<lambda>m. \<not> is_tool m) ms)"
  by (induction ms) auto

lemma applied_bare:
  "map bare (c_messages (fst (apply_plan c p sacred))) =
     (if committed (snd (apply_plan c p sacred)) then map bare (build_candidate p (c_messages c) sacred)
      else map bare (c_messages c))"
  using apply_plan_committed [of c p sacred] apply_plan_refused [of c p sacred] by (simp add: relieve_pressure_bare)

lemma fold_keeps_dialogue:
  assumes "folds_only p" "rewrites_tools (c_messages c) p"
  shows "map bare (filter (\<lambda>m. \<not> is_tool m) (c_messages (fst (apply_plan c p sacred)))) =
    map bare (filter (\<lambda>m. \<not> is_tool m) (c_messages c))
    @ (if committed (snd (apply_plan c p sacred)) then map bare (resume_messages p) else [])"
proof -
  let ?c = "build_candidate p (c_messages c) sacred"
  have resume: "filter (\<lambda>m. \<not> is_tool m) (resume_messages p) = resume_messages p"
    by (simp add: resume_messages_def synthetic_user_def split: option.split)
  have "filter (\<lambda>m. \<not> is_tool m) ?c = filter (\<lambda>m. \<not> is_tool m) (c_messages c) @ resume_messages p"
    unfolding fold_candidate [OF assms(1)] repair_pairing_keeps
    using assms(2) by (simp add: survivors_dialogue rewrites_tools_def resume)
  then show ?thesis
    using applied_bare [of c p sacred] by (simp add: filter_bare [symmetric]) (simp add: filter_bare)
qed

lemma well_paired_users: "list_all (\<lambda>m. m_role m = User) us \<Longrightarrow> well_paired (us @ ms) = well_paired ms"
  by (induction us) (auto simp: pairing_simps)

lemma drain_candidate:
  assumes msgs: "well_paired msgs" and flr: "flr = sacred_floor msgs"
    and pins: "\<forall>m\<in>set msgs. is_retained m \<longrightarrow> m_role m = User"
    and p: "drain_from p = flr" "drain_to p = b" "flr < b" "plan_rewrites p = []" "resume_note p = None"
    and cut: "clean_cut msgs b"
  shows "build_candidate p msgs flr = take flr msgs @ summary_messages p @ filter is_retained (drop flr (take b msgs)) @ drop b msgs"
proof -
  have fl: "flr \<le> length msgs" "b \<le> length msgs" using cut p(3) by (auto simp: clean_cut_def)
  let ?mid = "summary_messages p @ filter is_retained (drop flr (take b msgs))"
  have "clamp_drain p flr (length msgs) = (flr, b)" using fl p by (simp add: clamp_drain_def)
  then have cand: "build_candidate p msgs flr = repair_pairing (take flr msgs @ ?mid @ drop b msgs)"
    using build_candidate_eq [of p flr msgs flr b] fl p(4,5) by (simp add: survivors_Nil resume_messages_def min_absorb1)
  have "list_all (\<lambda>m. m_role m = User) ?mid"
    using pins by (auto simp: list_all_iff summary_messages_def synthetic_user_def dest: in_set_takeD in_set_dropD split: option.splits)
  then have rest: "well_paired (?mid @ drop b msgs)" using cut by (simp only: well_paired_users clean_cut_def)
  have "well_paired (take flr msgs)"
    using well_paired_closed_prefix [OF sacred_floor_closed [of msgs], of "drop (sacred_floor msgs) msgs"] msgs flr by simp
  moreover have "?mid @ drop b msgs = [] \<or> \<not> is_tool (hd (?mid @ drop b msgs))"
    using rest by (cases "?mid @ drop b msgs") (auto simp: pairing_simps split: if_split_asm)
  ultimately have "well_paired (take flr msgs @ ?mid @ drop b msgs)" using rest by (simp add: well_paired_append)
  then show ?thesis unfolding cand by (simp add: repair_pairing_well_paired)
qed

section \<open>The prediction\<close>

definition trigger_steer :: "compact_trigger \<Rightarrow> string option" where
  "trigger_steer t = (case t of Manual f \<Rightarrow> f | _ \<Rightarrow> None)"

lemma manual_plan_summary:
  "summary (manual_plan oc view steer) = Some s \<longleftrightarrow>
     proactive_drains oc view \<and> call_summary oc (drain_span oc view) steer = Answered (Some s)"
proof (cases rule: manual_plan_cases [of oc view steer])
  case gentle
  then show ?thesis using stub_plan_folds [of "oc_inner oc" view] by (simp add: folds_only_def)
next
  case (drained s')
  then show ?thesis by (auto simp: authorized_Some)
next
  case refused
  then show ?thesis using stub_plan_folds [of "oc_inner oc" view] by (auto simp: folds_only_def authorized_None)
qed

lemma overflow_drain_summary:
  "summary (overflow_drain oc view) = Some s \<longleftrightarrow>
     proactive_drains oc view \<and> call_summary oc (drain_span oc view) None = Answered (Some s)"
  by (cases rule: overflow_drain_cases [of oc view]) (auto simp: folds_only_def authorized_Some authorized_None)

lemma two_le: "2 \<le> n \<longleftrightarrow> n \<noteq> 0 \<and> n \<noteq> 1" for n :: u8
  by (simp add: word_le_nat_alt word_unat_eq_iff) linarith

lemma strategy_summary:
  "summary (overflow_strategy oc view) = Some s \<longleftrightarrow>
     will_summarize oc view \<and> call_summary oc (drain_span oc view) (trigger_steer (cv_trigger view)) = Answered (Some s)"
proof (cases "cv_trigger view")
  case (Auto u)
  then show ?thesis
    using stub_plan_folds [of "oc_inner oc" view]
    by (auto simp: overflow_strategy_def will_summarize_def trigger_steer_def manual_plan_summary folds_only_def)
next
  case (Manual f)
  then show ?thesis by (auto simp: overflow_strategy_def will_summarize_def trigger_steer_def manual_plan_summary)
next
  case (Overflow n)
  show ?thesis
    using Overflow two_le [of n]
    by (auto simp: overflow_strategy_def overflow_plan_def will_summarize_def trigger_steer_def overflow_drain_summary
        overflow_stub_def overflow_truncate_def Let_def)
qed

text \<open>Where the prediction is negative the provider is not asked.\<close>

lemma predicted_fields [simp]:
  "recent_budget (oc\<lparr>oc_chat := chat, oc_slow := slow\<rparr>) view = recent_budget oc view"
  "auto_due (oc\<lparr>oc_chat := chat, oc_slow := slow\<rparr>) view = auto_due oc view"
  "drain_span (oc\<lparr>oc_chat := chat, oc_slow := slow\<rparr>) view = drain_span oc view"
  "proactive_drains (oc\<lparr>oc_chat := chat, oc_slow := slow\<rparr>) view = proactive_drains oc view"
  by (simp_all add: recent_budget_def auto_due_def auto_mark_def drain_span_def proactive_drains_def)

lemma unasked:
  assumes "\<not> will_summarize oc view" "chat = None \<longleftrightarrow> oc_chat oc = None"
  shows "overflow_strategy (oc\<lparr>oc_chat := chat, oc_slow := slow\<rparr>) view = overflow_strategy oc view"
proof -
  let ?oc = "oc\<lparr>oc_chat := chat, oc_slow := slow\<rparr>"
  have stub: "overflow_stub ?oc view = overflow_stub oc view" "overflow_truncate ?oc view = overflow_truncate oc view"
    using assms(2) by (auto simp: overflow_stub_def overflow_truncate_def)
  have quiet: "manual_plan ?oc view steer = manual_plan oc view steer" "overflow_drain ?oc view = overflow_drain oc view"
    if "\<not> proactive_drains oc view" for steer
  proof -
    show "manual_plan ?oc view steer = manual_plan oc view steer"
      using that by (auto simp: manual_plan_def proactive_drains_def Let_def)
    show "overflow_drain ?oc view = overflow_drain oc view"
      using that by (auto simp: overflow_drain_def proactive_drains_def Let_def)
  qed
  show ?thesis
    using assms(1) quiet stub two_le
    by (auto simp: overflow_strategy_def overflow_plan_def will_summarize_def split: compact_trigger.splits)
qed

end
