(* ===== verification/Summary_Laws.thy ===== *)
theory Summary_Laws
  imports Summary_Anchor
begin

text \<open>
  The text of a summary: what is accepted of the stream, how the anchor is found again with exactly the body
  that was stored, and why a summary cannot close the element it is quoted in.
\<close>

section \<open>Characters as pieces\<close>

lemma concat_pieces [simp]: "concat (char_pieces s) = s"
  by (induction s) (auto split: list.splits)

lemma pieces_Nil [simp]: "char_pieces s = [] \<longleftrightarrow> s = []"
  by (cases s) (auto split: list.splits)

definition cut_pieces :: "string list \<Rightarrow> bool" where
  "cut_pieces ps \<longleftrightarrow> (\<forall>p\<in>set ps. p \<noteq> [] \<and> list_all is_continuation (tl p)) \<and> (\<forall>p\<in>set (tl ps). \<not> is_continuation (hd p))"

lemma cut_pieces_append: "cut_pieces (xs @ ys) \<Longrightarrow> cut_pieces xs \<and> cut_pieces ys"
  by (cases xs; cases ys) (auto simp: cut_pieces_def)

lemma cut_char_pieces: "cut_pieces (char_pieces s)"
proof (induction s)
  case (Cons c s)
  then show ?case by (cases "char_pieces s") (auto simp: cut_pieces_def list_all_iff, (metis list.collapse set_ConsD)+)
qed (simp add: cut_pieces_def)

lemma hd_pieces: "char_pieces (c # s) = p # ps \<Longrightarrow> p \<noteq> [] \<and> hd p = c"
  by (auto split: list.splits if_split_asm)

lemma pieces_cons:
  "list_all is_continuation cs \<Longrightarrow> r = [] \<or> \<not> is_continuation (hd r) \<Longrightarrow> char_pieces (c # cs @ r) = (c # cs) # char_pieces r"
proof (induction cs arbitrary: c)
  case Nil
  show ?case
  proof (cases r)
    case (Cons d r')
    then have "char_pieces r \<noteq> []" by (simp del: char_pieces.simps)
    then obtain p ps where ps: "char_pieces r = p # ps" by (meson list.exhaust)
    then have "hd p = d" using hd_pieces Cons by blast
    then show ?thesis using Nil Cons ps by simp
  qed simp
next
  case (Cons d cs)
  then have "char_pieces (d # cs @ r) = (d # cs) # char_pieces r" by simp
  then show ?case using Cons.prems(1) by (simp del: char_pieces.simps add: char_pieces.simps(2) [of c])
qed

lemma pieces_concat: "cut_pieces ps \<Longrightarrow> char_pieces (concat ps) = ps"
proof (induction ps)
  case (Cons p ps)
  obtain c cs where p: "p = c # cs" "list_all is_continuation cs" using Cons.prems by (cases p) (auto simp: cut_pieces_def)
  have "concat ps = [] \<or> \<not> is_continuation (hd (concat ps))"
    using Cons.prems by (cases ps) (auto simp: cut_pieces_def hd_append)
  then show ?case
    using Cons.IH cut_pieces_append [of "[p]" ps] Cons.prems pieces_cons [OF p(2)] by (simp add: p(1))
qed simp

lemma pieces_append: "r = [] \<or> \<not> is_continuation (hd r) \<Longrightarrow> char_pieces (p @ r) = char_pieces p @ char_pieces r"
proof -
  assume r: "r = [] \<or> \<not> is_continuation (hd r)"
  have "\<forall>q\<in>set (char_pieces r). \<not> is_continuation (hd q)"
    using r cut_char_pieces [of r] hd_pieces
    by (cases r; cases "char_pieces r") (auto simp: cut_pieces_def simp del: char_pieces.simps(2))
  then have "cut_pieces (char_pieces p @ char_pieces r)"
    using cut_char_pieces [of p] cut_char_pieces [of r] by (cases "char_pieces p") (auto simp: cut_pieces_def)
  from pieces_concat [OF this] show ?thesis by simp
qed

section \<open>Trimmed strings\<close>

definition trimmed :: "string \<Rightarrow> bool" where
  "trimmed s \<longleftrightarrow> s = [] \<or> \<not> is_space (hd (char_pieces s)) \<and> \<not> is_space (last (char_pieces s))"

lemma pieces_trim_start: "char_pieces (trim_start s) = dropWhile is_space (char_pieces s)"
proof -
  have "char_pieces s = takeWhile is_space (char_pieces s) @ dropWhile is_space (char_pieces s)" by simp
  then have "cut_pieces (dropWhile is_space (char_pieces s))" using cut_pieces_append cut_char_pieces by metis
  then show ?thesis by (simp add: trim_start_def pieces_concat)
qed

definition trim_end :: "'a list \<Rightarrow> ('a \<Rightarrow> bool) \<Rightarrow> 'a list" where
  "trim_end ps P = rev (dropWhile P (rev ps))"

lemma trim_end_split: "\<exists>ys. ps = trim_end ps P @ ys \<and> list_all P ys"
proof -
  have "ps = rev (dropWhile P (rev ps)) @ rev (takeWhile P (rev ps))"
    by (metis rev_append rev_rev_ident takeWhile_dropWhile_id)
  moreover have "list_all P (rev (takeWhile P (rev ps)))" by (auto simp: list_all_iff dest: set_takeWhileD)
  ultimately show ?thesis unfolding trim_end_def by blast
qed

lemma pieces_str_trim: "char_pieces (str_trim s) = trim_end (dropWhile is_space (char_pieces s)) is_space"
proof -
  let ?ps = "dropWhile is_space (char_pieces s)"
  obtain ys where "?ps = trim_end ?ps is_space @ ys" using trim_end_split by blast
  moreover have "cut_pieces ?ps" using cut_char_pieces [of "trim_start s"] pieces_trim_start by metis
  ultimately have "cut_pieces (trim_end ?ps is_space)" using cut_pieces_append by metis
  then show ?thesis by (simp add: str_trim_def trim_end_def pieces_concat)
qed

lemma trim_end_hd: "trim_end ps P \<noteq> [] \<Longrightarrow> hd (trim_end ps P) = hd ps \<and> \<not> P (last (trim_end ps P))"
proof -
  assume ne: "trim_end ps P \<noteq> []"
  obtain ys where "ps = trim_end ps P @ ys" using trim_end_split by blast
  then have "hd (trim_end ps P) = hd ps" using ne by (metis hd_append2)
  moreover have "last (trim_end ps P) = hd (dropWhile P (rev ps))" using ne by (simp add: trim_end_def last_rev)
  ultimately show ?thesis using ne hd_dropWhile [of P "rev ps"] by (simp add: trim_end_def)
qed

lemma trimmed_str_trim: "trimmed (str_trim s)"
proof (cases "str_trim s = []")
  case False
  let ?ps = "dropWhile is_space (char_pieces s)"
  have ne: "trim_end ?ps is_space \<noteq> []" using False pieces_str_trim [of s] pieces_Nil by metis
  have "?ps \<noteq> []"
  proof
    assume "?ps = []"
    with ne show False by (simp only: trim_end_def rev.simps dropWhile.simps simp_thms)
  qed
  from hd_dropWhile [OF this] show ?thesis using trim_end_hd [OF ne] by (simp add: trimmed_def pieces_str_trim)
qed (simp add: trimmed_def)

lemma trim_end_id: "ps = [] \<or> \<not> P (last ps) \<Longrightarrow> trim_end ps P = ps"
  by (cases ps rule: rev_cases) (simp_all add: trim_end_def)

lemma str_trim_id: "trimmed s \<Longrightarrow> str_trim s = s"
proof -
  assume s: "trimmed s"
  have front: "dropWhile is_space (char_pieces s) = char_pieces s"
    using s by (cases "char_pieces s") (auto simp: trimmed_def)
  have "char_pieces (str_trim s) = char_pieces s"
    using s unfolding pieces_str_trim front by (intro trim_end_id) (auto simp: trimmed_def)
  then show ?thesis by (metis concat_pieces)
qed

text \<open>A trimmed string without a prefix, once its front is trimmed again.\<close>

lemma trimmed_behind:
  assumes "trimmed (p @ r)" "r = [] \<or> \<not> is_continuation (hd r)"
  shows "trimmed (trim_start r)"
proof (cases "trim_start r = []")
  case False
  then have ne: "dropWhile is_space (char_pieces r) \<noteq> []" using pieces_trim_start pieces_Nil by metis
  then have "char_pieces r \<noteq> []" by auto
  then have "last (char_pieces (p @ r)) = last (char_pieces r)" using assms(2) by (simp add: pieces_append)
  moreover have "last (dropWhile is_space (char_pieces r)) = last (char_pieces r)"
    using ne by (metis last_appendR takeWhile_dropWhile_id)
  moreover have "r \<noteq> []" using \<open>char_pieces r \<noteq> []\<close> by auto
  ultimately show ?thesis
    using assms(1) hd_dropWhile [OF ne] by (auto simp: trimmed_def pieces_trim_start)
qed (simp add: trimmed_def)

section \<open>Whole characters\<close>

text \<open>Of UTF-8 all that is used: a continuation byte stands behind a byte that is not ASCII.\<close>

fun continues :: "bool \<Rightarrow> string \<Rightarrow> bool" where
  "continues inside [] \<longleftrightarrow> True"
| "continues inside (c # cs) \<longleftrightarrow> (is_continuation c \<longrightarrow> inside) \<and> continues (128 \<le> byte_of c) cs"

abbreviation utf8_ok :: "string \<Rightarrow> bool" where "utf8_ok \<equiv> continues False"

lemma continues_weaken: "continues False s \<Longrightarrow> continues b s"
  by (cases s) auto

lemma continues_append: "continues b (xs @ ys) \<longleftrightarrow> continues b xs \<and> continues (if xs = [] then b else 128 \<le> byte_of (last xs)) ys"
  by (induction xs arbitrary: b) auto

lemma utf8_ok_append: "utf8_ok xs \<Longrightarrow> utf8_ok ys \<Longrightarrow> utf8_ok (xs @ ys)"
  by (simp add: continues_append continues_weaken)

lemma utf8_ok_head: "utf8_ok s \<Longrightarrow> s = [] \<or> \<not> is_continuation (hd s)"
  by (cases s) auto

lemma continues_head: "continues b s \<Longrightarrow> s = [] \<or> \<not> is_continuation (hd s) \<Longrightarrow> utf8_ok s"
  by (cases s) auto

lemma utf8_ok_behind: "utf8_ok (p @ r) \<Longrightarrow> p \<noteq> [] \<Longrightarrow> byte_of (last p) < 128 \<Longrightarrow> utf8_ok r"
  by (simp add: continues_append)

lemma utf8_ok_pieces:
  assumes "utf8_ok (concat (xs @ ys))" "cut_pieces (xs @ ys)"
  shows "utf8_ok (concat xs) \<and> utf8_ok (concat ys)"
proof -
  have "concat ys = [] \<or> \<not> is_continuation (hd (concat ys))" if "xs \<noteq> []"
    using assms(2) that by (cases ys) (auto simp: cut_pieces_def hd_append)
  then show ?thesis
    using assms(1) continues_head by (cases "xs = []") (auto simp: continues_append)
qed

lemma utf8_ok_trim_start: "utf8_ok s \<Longrightarrow> utf8_ok (trim_start s)"
  using utf8_ok_pieces [of "takeWhile is_space (char_pieces s)" "dropWhile is_space (char_pieces s)"] cut_char_pieces [of s]
  by (simp add: trim_start_def)

lemma utf8_ok_str_trim: "utf8_ok s \<Longrightarrow> utf8_ok (str_trim s)"
proof -
  assume "utf8_ok s"
  then have s: "utf8_ok (trim_start s)" by (rule utf8_ok_trim_start)
  let ?ps = "char_pieces (trim_start s)"
  obtain ys where "?ps = trim_end ?ps is_space @ ys" using trim_end_split by blast
  then have "utf8_ok (concat (trim_end ?ps is_space))"
    using utf8_ok_pieces [of "trim_end ?ps is_space" ys] s cut_char_pieces [of "trim_start s"] by (metis concat_pieces)
  then show ?thesis by (simp add: str_trim_def trim_end_def pieces_trim_start)
qed

section \<open>The anchor\<close>

definition delta_text :: "stream_event \<Rightarrow> string option" where
  "delta_text ev = (case ev of TextDelta t \<Rightarrow> Some t | _ \<Rightarrow> None)"

lemma delta_text_simps [simp]:
  "delta_text (TextDelta t) = Some t" "delta_text (Reasoning t) = None" "delta_text (ReasoningSignature a b) = None"
  "delta_text (ToolCallEvent c) = None" "delta_text (ToolCallDelta i d n a) = None" "delta_text (UsageEvent u) = None"
  "delta_text (ResponseId t) = None" "delta_text (ResponseModel t) = None" "delta_text (StreamError e) = None"
  "delta_text Malformed = None" "delta_text (Done whole) = None"
  by (simp_all add: delta_text_def)

lemma collect_Cons:
  assumes "collect_summary (ev # evs) out completed = Some whole"
  obtains (delta) t where "ev = TextDelta t" "length t \<le> body_budget - length out" "collect_summary evs (out @ t) completed = Some whole"
  | (complete) "ev = Done False" "collect_summary evs out True = Some whole"
  | (other) "delta_text ev = None" "\<forall>b. ev \<noteq> Done b" "\<forall>e. ev \<noteq> StreamError e" "collect_summary evs out completed = Some whole"
  using assms by (cases ev) (auto split: if_split_asm)

lemma accepted_texts:
  "collect_summary evs out completed = Some whole \<Longrightarrow>
     whole = out @ concat (List.map_filter delta_text evs)
     \<and> (completed \<or> Done False \<in> set evs) \<and> Done True \<notin> set evs \<and> (\<forall>e. StreamError e \<notin> set evs)"
proof (induction evs arbitrary: out completed)
  case (Cons ev evs)
  from Cons.prems show ?case
  proof (cases rule: collect_Cons)
    case (delta t)
    then show ?thesis using Cons.IH [of "out @ t" completed] by (auto simp: map_filter_simps)
  next
    case complete
    then show ?thesis using Cons.IH [of out True] by (auto simp: map_filter_simps)
  next
    case other
    then show ?thesis using Cons.IH [of out completed] by (auto simp: map_filter_simps)
  qed
qed (simp add: map_filter_simps split: if_split_asm)

lemma accepted_length:
  "collect_summary evs out completed = Some whole \<Longrightarrow> length out \<le> body_budget \<Longrightarrow> length whole \<le> body_budget"
proof (induction evs arbitrary: out completed)
  case (Cons ev evs)
  from Cons.prems(1) show ?case
  proof (cases rule: collect_Cons)
    case (delta t)
    then show ?thesis using Cons.IH [of "out @ t" completed] Cons.prems(2) by simp
  qed (use Cons in blast)+
qed (simp split: if_split_asm)

lemma accepted_utf8:
  "collect_summary evs out completed = Some whole \<Longrightarrow> utf8_ok out \<Longrightarrow> \<forall>t. TextDelta t \<in> set evs \<longrightarrow> utf8_ok t \<Longrightarrow> utf8_ok whole"
proof (induction evs arbitrary: out completed)
  case (Cons ev evs)
  from Cons.prems(1) show ?case
  proof (cases rule: collect_Cons)
    case (delta t)
    then show ?thesis using Cons.IH [of "out @ t" completed] Cons.prems(2,3) utf8_ok_append by simp
  next
    case complete
    then show ?thesis using Cons.IH [of out True] Cons.prems(2,3) by simp
  next
    case other
    then show ?thesis using Cons.IH [of out completed] Cons.prems(2,3) by simp
  qed
qed (simp split: if_split_asm)

lemma texts_ascii_end:
  "ANCHOR_SENTINEL \<noteq> []" "byte_of (last ANCHOR_SENTINEL) < 128"
  "SUMMARY_FRAMING \<noteq> []" "byte_of (last SUMMARY_FRAMING) < 128"
  by code_simp+

lemma stripped:
  assumes "trimmed b" "utf8_ok b" "p \<noteq> []" "byte_of (last p) < 128"
  defines "b' \<equiv> (case strip_prefix p b of Some r \<Rightarrow> trim_start r | None \<Rightarrow> b)"
  shows "trimmed b' \<and> utf8_ok b' \<and> length b' \<le> length b"
proof (cases "strip_prefix p b")
  case (Some r)
  then have b: "b = p @ r" by (simp add: strip_prefix_Some)
  then have r: "utf8_ok r" using assms(2-4) utf8_ok_behind by blast
  have "length (trim_start r) \<le> length r"
    unfolding trim_start_def by (metis concat_append concat_pieces length_append le_add2 takeWhile_dropWhile_id)
  then show ?thesis
    using Some trimmed_behind [of p r] assms(1) utf8_ok_trim_start [OF r] utf8_ok_head [OF r] by (simp add: b'_def b)
qed (use assms in simp)

lemma length_str_trim: "length (str_trim s) \<le> length s"
proof -
  let ?ps = "dropWhile is_space (char_pieces s)"
  obtain ys where ys: "?ps = trim_end ?ps is_space @ ys" using trim_end_split by blast
  have "length (str_trim s) \<le> length (concat ?ps)"
    by (subst ys) (simp add: str_trim_def trim_end_def)
  also have "\<dots> \<le> length s"
    by (metis concat_append concat_pieces length_append le_add2 takeWhile_dropWhile_id)
  finally show ?thesis .
qed

lemma stamped:
  assumes "stamp_summary out = Some t" "utf8_ok out"
  obtains body where "t = ANCHOR_SENTINEL @ newline # SUMMARY_FRAMING @ newline # body" "body \<noteq> []"
    "trimmed body" "utf8_ok body" "length body \<le> length out"
proof -
  let ?b1 = "str_trim out"
  let ?b2 = "case strip_prefix ANCHOR_SENTINEL ?b1 of Some r \<Rightarrow> trim_start r | None \<Rightarrow> ?b1"
  let ?b3 = "case strip_prefix SUMMARY_FRAMING ?b2 of Some r \<Rightarrow> trim_start r | None \<Rightarrow> ?b2"
  have b1: "trimmed ?b1" "utf8_ok ?b1" using trimmed_str_trim utf8_ok_str_trim assms(2) by blast+
  note b2 = stripped [OF b1 texts_ascii_end(1,2)]
  have b3: "trimmed ?b3 \<and> utf8_ok ?b3 \<and> length ?b3 \<le> length ?b2" using b2 texts_ascii_end(3,4) by (intro stripped) blast+
  show thesis
    using assms(1) b2 b3 length_str_trim [of out]
    by (intro that [of ?b3]) (auto simp: stamp_summary_def Let_def split: if_split_asm)
qed

lemma framing_shape:
  "prefix SUMMARY_FRAMING_LEAD SUMMARY_FRAMING"
  "\<exists>f. SUMMARY_FRAMING = f @ [CHR '']''] \<and> CHR '']'' \<notin> set f"
  "\<exists>f. SUMMARY_FRAMING = CHR ''['' # f \<and> \<not> is_continuation (hd f) \<and> f \<noteq> []"
proof -
  show "prefix SUMMARY_FRAMING_LEAD SUMMARY_FRAMING" by code_simp
  have "SUMMARY_FRAMING = butlast SUMMARY_FRAMING @ [CHR '']''] \<and> CHR '']'' \<notin> set (butlast SUMMARY_FRAMING)" by code_simp
  then show "\<exists>f. SUMMARY_FRAMING = f @ [CHR '']''] \<and> CHR '']'' \<notin> set f" by blast
  have "SUMMARY_FRAMING = CHR ''['' # tl SUMMARY_FRAMING \<and> \<not> is_continuation (hd (tl SUMMARY_FRAMING)) \<and> tl SUMMARY_FRAMING \<noteq> []"
    by code_simp
  then show "\<exists>f. SUMMARY_FRAMING = CHR ''['' # f \<and> \<not> is_continuation (hd f) \<and> f \<noteq> []" by blast
qed

lemma newline_piece:
  assumes "s = [] \<or> \<not> is_continuation (hd s)"
  shows "char_pieces (newline # s) = [newline] # char_pieces s" "is_space [newline]"
  using pieces_append [OF assms, of "[newline]"] by (simp, code_simp)

lemma single_piece: "char_pieces [c] = [[c]]"
  by simp

lemma body_found:
  assumes "body \<noteq> []" "trimmed body" "utf8_ok body"
  shows "anchor_body (ANCHOR_SENTINEL @ newline # SUMMARY_FRAMING @ newline # body) = body"
proof -
  let ?rest = "SUMMARY_FRAMING @ newline # body"
  obtain f where f: "SUMMARY_FRAMING = CHR ''['' # f" "\<not> is_continuation (hd f)" "f \<noteq> []" using framing_shape(3) by blast
  have open1: "\<not> is_continuation (CHR ''['')" "\<not> is_space [CHR ''['']" by code_simp+
  have rest: "?rest = CHR ''['' # f @ newline # body" by (simp add: f(1))
  have pieces: "char_pieces ?rest = [CHR ''[''] # char_pieces (f @ newline # body)"
    unfolding rest using pieces_append [of "f @ newline # body" "[CHR ''['']"] f(2,3) by (simp add: single_piece del: char_pieces.simps)
  have "?rest = [] \<or> \<not> is_continuation (hd ?rest)" unfolding rest using open1(1) by (simp only: list.sel simp_thms)
  note nl = newline_piece [OF this]
  have "dropWhile is_space (char_pieces (newline # ?rest)) = char_pieces ?rest"
    unfolding nl(1) pieces by (simp only: dropWhile.simps nl(2) open1(2) if_True if_False)
  then have "trim_start (newline # ?rest) = ?rest" by (simp only: trim_start_def concat_pieces)
  moreover have "prefix SUMMARY_FRAMING_LEAD ?rest" using framing_shape(1) by (auto elim!: prefixE)
  moreover have "behind_bracket ?rest = newline # body"
  proof -
    obtain g where "SUMMARY_FRAMING = g @ [CHR '']'']" "CHR '']'' \<notin> set g" using framing_shape(2) by blast
    moreover from this(2) have "dropWhile (\<lambda>c. c \<noteq> CHR '']'') (g @ CHR '']'' # newline # body) = CHR '']'' # newline # body"
      by (induction g) auto
    moreover from calculation(1) have "?rest = g @ CHR '']'' # newline # body" by simp
    ultimately show ?thesis by (simp only: behind_bracket_def) simp
  qed
  moreover have "str_trim (newline # body) = body"
    using newline_piece [OF utf8_ok_head [OF assms(3)]] str_trim_id [OF assms(2)] by (simp add: str_trim_def)
  ultimately show ?thesis by (simp add: anchor_body_def strip_or_def)
qed

lemma summary_anchor:
  assumes "chat (summary_prompt seg steer) = Some evs" "\<forall>t. TextDelta t \<in> set evs \<longrightarrow> utf8_ok t"
    and "summarize_span chat seg steer = Some text"
  obtains body where "text = ANCHOR_SENTINEL @ newline # SUMMARY_FRAMING @ newline # body" "body \<noteq> []"
    "anchor_body text = body" "length text \<le> MAX_SUMMARY_BYTES"
    "Done False \<in> set evs" "Done True \<notin> set evs" "\<forall>e. StreamError e \<notin> set evs"
proof -
  obtain whole where whole: "collect_summary evs [] False = Some whole" "stamp_summary whole = Some text"
    using assms(1,3) by (auto simp: summarize_span_def bind_eq_Some_conv)
  have "utf8_ok whole" using accepted_utf8 [OF whole(1)] assms(2) by simp
  from stamped [OF whole(2) this] obtain body where body:
    "text = ANCHOR_SENTINEL @ newline # SUMMARY_FRAMING @ newline # body" "body \<noteq> []" "trimmed body" "utf8_ok body"
    "length body \<le> length whole" .
  have "body_budget + (length ANCHOR_SENTINEL + length SUMMARY_FRAMING + 2) = MAX_SUMMARY_BYTES"
    by (simp add: body_budget_def MAX_SUMMARY_BYTES_def ANCHOR_SENTINEL_def SUMMARY_FRAMING_def)
  moreover have "length body \<le> body_budget" using body(5) accepted_length [OF whole(1)] by simp
  ultimately have "length text \<le> MAX_SUMMARY_BYTES" by (simp add: body(1))
  moreover have "anchor_body text = body" unfolding body(1) by (rule body_found [OF body(2-4)])
  ultimately show thesis using accepted_texts [OF whole(1)] by (intro that [OF body(1,2)]) blast+
qed

section \<open>The quoted summary cannot close its element\<close>

lemma lower_continuation: "is_continuation c \<Longrightarrow> ascii_lower c = c"
  by (auto simp: ascii_lower_def is_continuation_def)

lemma replace_simps:
  "replace_ascii_case_insensitive [] n r = []"
  "s \<noteq> [] \<Longrightarrow> n \<noteq> [] \<Longrightarrow> prefix (to_ascii_lowercase n) (to_ascii_lowercase s) \<Longrightarrow>
   replace_ascii_case_insensitive s n r = r @ replace_ascii_case_insensitive (drop (length n) s) n r"
  "s \<noteq> [] \<Longrightarrow> \<not> prefix (to_ascii_lowercase n) (to_ascii_lowercase s) \<Longrightarrow>
   replace_ascii_case_insensitive s n r = first_char s @ replace_ascii_case_insensitive (drop (length (first_char s)) s) n r"
  by (subst replace_ascii_case_insensitive.simps; simp)+

text \<open>
  What the scan needs of a needle and its replacement: the needle is in lower case, its first character
  comes only once, and no part of the replacement can begin an occurrence of the needle.
\<close>

locale needle_replacement =
  fixes needle repl :: string
  assumes needle: "needle \<noteq> []" "to_ascii_lowercase needle = needle" "\<forall>c\<in>set needle. \<not> is_continuation c"
    and fresh_head: "hd needle \<notin> set (tl needle)"
    and repl_head: "repl \<noteq> []" "hd (to_ascii_lowercase repl) = hd needle"
    and no_overlap: "j < length repl \<Longrightarrow> \<not> prefix needle (drop j (to_ascii_lowercase repl) @ r)"
begin

definition defused :: "string \<Rightarrow> string" where
  "defused s = to_ascii_lowercase (replace_ascii_case_insensitive s needle repl)"

lemma defused_cases:
  obtains (empty) "s = []" "defused s = []"
  | (replaced) "s \<noteq> []" "prefix needle (to_ascii_lowercase s)"
      "defused s = to_ascii_lowercase repl @ defused (drop (length needle) s)"
  | (kept) c cs where "s = c # cs" "\<not> prefix needle (to_ascii_lowercase s)"
      "defused s = ascii_lower c # map ascii_lower (takeWhile is_continuation cs) @ defused (dropWhile is_continuation cs)"
proof (cases s)
  case Nil
  then show thesis using empty by (simp add: defused_def replace_simps to_ascii_lowercase_def)
next
  case (Cons c cs)
  show thesis
  proof (cases "prefix needle (to_ascii_lowercase s)")
    case True
    then show thesis
      using Cons replaced needle by (simp add: defused_def replace_simps(2) to_ascii_lowercase_def)
  next
    case False
    have "drop (length (first_char s)) s = dropWhile is_continuation cs"
      by (simp add: Cons first_char_def dropWhile_eq_drop)
    then show thesis
      using Cons False kept [of c cs] needle by (simp add: defused_def replace_simps(3) to_ascii_lowercase_def first_char_def)
  qed
qed

lemma no_continuation_match:
  assumes "prefix (x # w) (map ascii_lower (takeWhile is_continuation cs) @ rest)" "x \<in> set needle"
  shows "takeWhile is_continuation cs = []"
proof (rule ccontr)
  assume "takeWhile is_continuation cs \<noteq> []"
  then obtain d ds where "cs = d # ds" "is_continuation d" by (cases cs) (auto split: if_split_asm)
  then have "is_continuation x" using assms(1) lower_continuation by simp
  then show False using needle(3) assms(2) by simp
qed

text \<open>A tail of the needle that starts the defused text starts the text.\<close>

lemma tail_at_start:
  "set w \<subseteq> set (tl needle) \<Longrightarrow> prefix w (defused s) \<Longrightarrow> prefix w (to_ascii_lowercase s)"
proof (induction w arbitrary: s)
  case (Cons x w)
  have x: "x \<noteq> hd needle" "x \<in> set needle" using Cons.prems(1) fresh_head needle(1) by (auto dest: list.set_sel(2))
  show ?case
  proof (cases rule: defused_cases [of s])
    case replaced
    have "to_ascii_lowercase repl = hd needle # tl (to_ascii_lowercase repl)"
      using repl_head by (metis list.collapse list.map_disc_iff to_ascii_lowercase_def)
    then have "x = hd needle" using Cons.prems(2) unfolding replaced(3) by (metis Cons_prefix_Cons append_Cons)
    then show ?thesis using x by simp
  next
    case (kept c cs)
    have first: "x = ascii_lower c"
      and rest: "prefix w (map ascii_lower (takeWhile is_continuation cs) @ defused (dropWhile is_continuation cs))"
      using Cons.prems(2) unfolding kept(3) by simp_all
    have "prefix w (to_ascii_lowercase cs)"
    proof (cases w)
      case (Cons y w')
      have "takeWhile is_continuation cs = []"
        using no_continuation_match rest Cons.prems(1) needle(1) unfolding Cons by (auto dest: list.set_sel(2))
      moreover from this have "dropWhile is_continuation cs = cs" by (metis append_Nil takeWhile_dropWhile_id)
      ultimately show ?thesis using Cons.IH [of cs] rest Cons.prems(1) by simp
    qed simp
    then show ?thesis by (simp add: first kept(1) to_ascii_lowercase_def)
  qed (use Cons.prems in simp)
qed simp

lemma sublist_behind:
  assumes "sublist n (xs @ ys)"
  obtains j where "j < length xs" "prefix n (drop j xs @ ys)" | "sublist n ys"
proof -
  obtain ps ss where split: "xs @ ys = ps @ n @ ss" using assms by (auto simp: sublist_def)
  show thesis
  proof (cases "length ps < length xs")
    case True
    have "drop (length ps) (xs @ ys) = n @ ss" by (simp add: split)
    then show thesis using True that(1) [of "length ps"] by simp
  next
    case False
    have "drop (length ps) (xs @ ys) = n @ ss" by (simp add: split)
    then have "drop (length ps - length xs) ys = n @ ss" using False by simp
    then have "sublist n ys" by (metis append_take_drop_id sublist_appendI)
    then show thesis by (rule that(2))
  qed
qed

lemma no_needle: "\<not> sublist needle (defused s)"
proof (induction s rule: length_induct)
  case (1 s)
  show ?case
  proof (cases rule: defused_cases [of s])
    case empty
    then show ?thesis using needle(1) by simp
  next
    case replaced
    have "\<not> sublist needle (defused (drop (length needle) s))" using "1.IH" replaced(1) needle(1) by simp
    then show ?thesis
      unfolding replaced(3) using no_overlap by (auto elim!: sublist_behind simp: to_ascii_lowercase_def)
  next
    case (kept c cs)
    let ?tail = "defused (dropWhile is_continuation cs)" and ?conts = "map ascii_lower (takeWhile is_continuation cs)"
    have "\<not> sublist needle ?tail"
      using "1.IH" kept(1) length_dropWhile_le [of is_continuation cs] by (simp add: le_imp_less_Suc)
    moreover have "\<not> prefix needle (drop j (ascii_lower c # ?conts) @ ?tail)" if j: "j < length (ascii_lower c # ?conts)" for j
    proof
      assume start: "prefix needle (drop j (ascii_lower c # ?conts) @ ?tail)"
      show False
      proof (cases j)
        case 0
        have n: "needle = hd needle # tl needle" using needle(1) by simp
        have first: "hd needle = ascii_lower c" and rest: "prefix (tl needle) (?conts @ ?tail)"
          using start 0 n by (metis Cons_prefix_Cons append_Cons drop0)+
        have "prefix (tl needle) (to_ascii_lowercase cs)"
        proof (cases "tl needle")
          case (Cons y w)
          have "y \<in> set needle" using Cons n by (metis list.set_intros)
          then have none: "takeWhile is_continuation cs = []" using no_continuation_match rest unfolding Cons by blast
          then have "dropWhile is_continuation cs = cs" by (metis append_Nil takeWhile_dropWhile_id)
          then show ?thesis using tail_at_start [of "tl needle" cs] rest none by simp
        qed simp
        then have "prefix needle (to_ascii_lowercase s)" using first n kept(1) by (metis Cons_prefix_Cons list.map(2) to_ascii_lowercase_def)
        then show False using kept(2) by simp
      next
        case (Suc i)
        then have "i < length (takeWhile is_continuation cs)" using j by simp
        then obtain d ds where d: "drop i (takeWhile is_continuation cs) = d # ds" "d \<in> set (takeWhile is_continuation cs)"
          by (metis Cons_nth_drop_Suc nth_mem)
        have "drop j (ascii_lower c # ?conts) = ascii_lower d # map ascii_lower ds" by (simp add: Suc drop_map d(1))
        then have "prefix needle (ascii_lower d # map ascii_lower ds @ ?tail)" using start by simp
        then have "hd needle = ascii_lower d" using needle(1) by (cases needle) simp_all
        moreover have "is_continuation d" using d(2) by (rule set_takeWhileD [THEN conjunct2])
        ultimately have "hd needle = ascii_lower d" "is_continuation d" by simp_all
        then show False using lower_continuation needle(1,3) by (metis hd_in_set)
      qed
    qed
    moreover have "defused s = (ascii_lower c # ?conts) @ ?tail" by (simp add: kept(3))
    ultimately show ?thesis by (auto simp only: elim!: sublist_behind)
  qed
qed

end

interpretation delimiter: needle_replacement "''previous-summary''" "''previous_summary''"
proof
  fix j :: nat and r :: string
  let ?k = "to_ascii_lowercase ''previous_summary''"
  assume "j < length ''previous_summary''"
  moreover have "\<forall>j\<in>set [0..<16]. \<not> prefix (drop j ?k) ''previous-summary''" by code_simp
  ultimately have apart: "\<not> prefix (drop j ?k) ''previous-summary''" by simp
  show "\<not> prefix ''previous-summary'' (drop j ?k @ r)"
  proof
    assume "prefix ''previous-summary'' (drop j ?k @ r)"
    then have "prefix (drop j ?k) ''previous-summary''"
      by (rule prefix_length_prefix [rotated]) (simp_all add: to_ascii_lowercase_def)
    then show False using apart by simp
  qed
qed (code_simp | simp)+

end
