(* ===== verification/Compaction_Properties.thy ===== *)
theory Compaction_Properties
  imports Compaction_Policy_Laws Summary_Laws
begin

text \<open>
  The properties of the compaction strategy and of what the kernel makes of its plans, with a history of
  three messages, the middle one long, at which they are applied.
\<close>

section \<open>A sample\<close>

definition sample_talk :: conversation where
  "sample_talk = \<lparr>c_messages =
     [message_user ''one'', message_assistant (replicate 2000 (CHR ''x'')) [], message_user ''two''], cache_epoch = 4\<rparr>"

definition sample_oc :: "stream_event list option \<Rightarrow> overflow_policy" where
  "sample_oc reply =
     \<lparr>oc_inner = stub_policy_default, oc_chat = Some (\<lambda>_. reply), oc_slow = (\<lambda>_. False), oc_limit = None\<rparr>"

definition sample_view :: "compact_trigger \<Rightarrow> compaction_view" where
  "sample_view trigger =
     \<lparr>cv_messages = c_messages sample_talk, cv_trigger = trigger, cv_ctx_window = 100, cv_used_tokens = 90,
      cv_utilization = 9 / 10, cv_sacred_floor = Suc 0\<rparr>"

definition sample_reply :: "stream_event list" where
  "sample_reply = [TextDelta ''sum'', Done False]"

definition sample_summary :: string where
  "sample_summary = ANCHOR_SENTINEL @ newline # SUMMARY_FRAMING @ newline # ''sum''"

lemma sample_floor: "sacred_floor (c_messages sample_talk) = Suc 0"
  by (simp add: sample_talk_def message_user_def message_assistant_def sacred_floor_def)

lemma sample_paired: "well_paired (c_messages sample_talk)"
  by (simp add: sample_talk_def message_user_def message_assistant_def pairing_simps)

lemma sample_budget: "recent_keep_budget 100 = 50"
  by (simp add: recent_keep_budget_def MIN_RECENT_KEEP_TOKENS_def MAX_RECENT_KEEP_TOKENS_def)

lemma sample_boundary: "recent_keep_boundary_splitting (c_messages sample_talk) 50 (Suc 0) = 2"
proof -
  have starts: "turn_starts (c_messages sample_talk) = [0, 2]"
    by (simp add: turn_starts_def sample_talk_def message_user_def message_assistant_def starts_turn_def upt_rec)
  have tail: "span_tokens (drop 2 (c_messages sample_talk)) = 5"
    by (simp add: sample_talk_def span_tokens_def estimate_tokens_def token_figure_def message_user_def)
  have "recent_keep_boundary (c_messages sample_talk) 50 (Suc 0) = 2" by (simp add: recent_keep_boundary_def starts)
  then show ?thesis using tail by (simp add: recent_keep_boundary_splitting_def)
qed

lemma sample_drains: "proactive_drains (sample_oc reply) (sample_view trigger)"
  by (simp add: proactive_drains_def sample_view_def sample_oc_def recent_budget_def sample_budget sample_boundary
      drain_span_def span_has_non_anchor_def) (simp add: sample_talk_def is_anchor_message_def message_assistant_def)

lemma sample_summarize: "summarize_span (\<lambda>_. Some sample_reply) seg steer = Some sample_summary"
proof -
  have "collect_summary sample_reply [] False = Some ''sum''"
    by (simp add: sample_reply_def body_budget_def MAX_SUMMARY_BYTES_def ANCHOR_SENTINEL_def SUMMARY_FRAMING_def)
  moreover have "stamp_summary ''sum'' = Some sample_summary" unfolding sample_summary_def by code_simp
  ultimately show ?thesis by (simp add: summarize_span_def)
qed

section \<open>Where a drain cuts\<close>

text \<open>
  C11. A drain never cuts through a batch. The place where the strategy cuts a well-paired history is behind the
  protected prefix, leaves calls and results paired on either side, and keeps at least one message; what is
  kept fits the budget, unless it is the last message that is no tool result, with its results.
\<close>

theorem drain_cut_is_clean:
  assumes "well_paired msgs"
  shows "let b = recent_keep_boundary_splitting msgs budget (sacred_floor msgs)
    in sacred_floor msgs \<le> b \<and> b \<le> length msgs \<and> (sacred_floor msgs < length msgs \<longrightarrow> b < length msgs)
       \<and> well_paired (take b msgs) \<and> well_paired (drop b msgs)
       \<and> (span_tokens (drop b msgs) \<le> budget \<or> list_all is_tool (drop (Suc b) msgs))"
  using drain_cut [OF assms refl, of budget] by (simp add: clean_cut_def Let_def)

theorem drain_cut_is_clean_witness:
  "let b = recent_keep_boundary_splitting (c_messages sample_talk) 50 (sacred_floor (c_messages sample_talk))
    in sacred_floor (c_messages sample_talk) \<le> b \<and> b \<le> length (c_messages sample_talk)
       \<and> well_paired (take b (c_messages sample_talk)) \<and> well_paired (drop b (c_messages sample_talk)) \<and> b = 2"
  using drain_cut_is_clean [OF sample_paired, of 50] by (simp add: Let_def sample_floor sample_boundary)

section \<open>What a drain does\<close>

text \<open>
  C10. A committed drain on request or ahead of pressure does exactly what it says. When the user asks for a
  compaction, or an automatic one is due, and the plan drains a well-paired history whose pinned messages are
  messages of the user, the kernel makes of the history: the protected prefix, the summary, the pinned
  messages of the drained span, and the recent messages word for word. Nothing else is added, dropped or
  changed (the recorded token figures apart), and no pairing has to be repaired. The emergency drain of the overflow
  ladder is not meant: it also shortens tool results among the messages it keeps.
\<close>

theorem drain_replaces_span:
  assumes view: "cv_messages view = c_messages c" "cv_sacred_floor view = sacred_floor (c_messages c)"
    and msgs: "well_paired (c_messages c)" "\<forall>m\<in>set (c_messages c). is_retained m \<longrightarrow> m_role m = User"
    and trigger: "\<forall>n. cv_trigger view \<noteq> Overflow n" and drains: "drain_to (overflow_strategy oc view) \<noteq> 0"
    and committed: "committed (snd (apply_plan c (overflow_strategy oc view) (sacred_floor (c_messages c))))"
  shows "let flr = sacred_floor (c_messages c); b = recent_keep_boundary_splitting (c_messages c) (recent_budget oc view) flr
    in flr < b \<and> map bare (c_messages (fst (apply_plan c (overflow_strategy oc view) flr))) =
         map bare (take flr (c_messages c) @ summary_messages (overflow_strategy oc view)
           @ filter is_retained (drop flr (take b (c_messages c))) @ drop b (c_messages c))"
proof -
  let ?flr = "sacred_floor (c_messages c)" and ?p = "overflow_strategy oc view"
  let ?b = "recent_keep_boundary_splitting (c_messages c) (recent_budget oc view) ?flr"
  have shape: "drain_from p = ?flr \<and> drain_to p = ?b \<and> ?flr < ?b \<and> plan_rewrites p = [] \<and> resume_note p = None"
    if p: "p = manual_plan oc view steer" "drain_to p \<noteq> 0" for p steer
    using p stub_plan_folds [of "oc_inner oc" view] view
    by (cases rule: manual_plan_cases [of oc view steer]) (auto simp: folds_only_def proactive_drains_def)
  have p: "drain_from ?p = ?flr \<and> drain_to ?p = ?b \<and> ?flr < ?b \<and> plan_rewrites ?p = [] \<and> resume_note ?p = None"
  proof (cases "cv_trigger view")
    case (Auto u)
    then have "?p = manual_plan oc view None"
      using drains stub_plan_folds [of "oc_inner oc" view] by (simp add: overflow_strategy_def folds_only_def split: if_split_asm)
    then show ?thesis by (rule shape) (rule drains)
  next
    case (Manual f)
    then have "?p = manual_plan oc view f" by (simp add: overflow_strategy_def)
    then show ?thesis by (rule shape) (rule drains)
  qed (use trigger in simp)
  have "build_candidate ?p (c_messages c) ?flr =
      take ?flr (c_messages c) @ summary_messages ?p @ filter is_retained (drop ?flr (take ?b (c_messages c))) @ drop ?b (c_messages c)"
    by (rule drain_candidate [OF msgs(1) refl msgs(2) _ _ _ _ _ drain_cut(2) [OF msgs(1) refl]]) (use p in simp_all)
  then have "map bare (c_messages (fst (apply_plan c ?p ?flr))) =
      map bare (take ?flr (c_messages c) @ summary_messages ?p @ filter is_retained (drop ?flr (take ?b (c_messages c))) @ drop ?b (c_messages c))"
    using applied_bare [of c ?p ?flr] committed by (simp only: if_True)
  then show ?thesis using p by (simp only: Let_def simp_thms)
qed

lemma sample_plan:
  "overflow_strategy (sample_oc (Some sample_reply)) (sample_view (Manual None)) =
     \<lparr>drain_from = Suc 0, drain_to = 2, summary = Some sample_summary, plan_rewrites = [], resume_note = None\<rparr>"
proof -
  let ?oc = "sample_oc (Some sample_reply)" and ?v = "sample_view (Manual None)"
  have "call_summary ?oc (drain_span ?oc ?v) None = Answered (Some sample_summary)"
    by (simp add: call_summary_def sample_oc_def sample_summarize)
  then have "authorized ?oc (call_summary ?oc (drain_span ?oc ?v) None) = Some (Some sample_summary)"
    by (simp add: authorized_Some)
  moreover have "proactive_drains ?oc ?v" by (rule sample_drains)
  ultimately have "manual_plan ?oc ?v None =
      \<lparr>drain_from = cv_sacred_floor ?v,
       drain_to = recent_keep_boundary_splitting (cv_messages ?v) (recent_budget ?oc ?v) (cv_sacred_floor ?v),
       summary = Some sample_summary, plan_rewrites = [], resume_note = None\<rparr>"
    by (cases rule: manual_plan_cases [of ?oc ?v None]) simp_all
  then show ?thesis
    by (simp add: overflow_strategy_def sample_view_def recent_budget_def sample_oc_def sample_budget sample_boundary)
qed

lemma sample_commits:
  "committed (snd (apply_plan sample_talk (overflow_strategy (sample_oc (Some sample_reply)) (sample_view (Manual None)))
     (sacred_floor (c_messages sample_talk))))"
proof -
  let ?p = "overflow_strategy (sample_oc (Some sample_reply)) (sample_view (Manual None))"
  have "clean_cut (c_messages sample_talk) 2"
    using drain_cut(2) [OF sample_paired refl, of 50] by (simp add: sample_floor sample_boundary)
  then have "build_candidate ?p (c_messages sample_talk) (sacred_floor (c_messages sample_talk)) =
      take 1 (c_messages sample_talk) @ summary_messages ?p @ filter is_retained (drop 1 (take 2 (c_messages sample_talk)))
        @ drop 2 (c_messages sample_talk)"
    by (subst drain_candidate [OF sample_paired refl, of ?p 2])
      (simp_all add: sample_plan sample_floor, simp add: sample_talk_def is_retained_def message_user_def message_assistant_def)
  then show ?thesis
    by (simp add: apply_plan_report sample_plan summary_messages_def)
      (simp add: sample_talk_def total_size_def message_size_def message_user_def message_assistant_def synthetic_user_def
        is_retained_def sample_summary_def ANCHOR_SENTINEL_def SUMMARY_FRAMING_def option_len_def)
qed

theorem drain_replaces_span_witness:
  "map bare (c_messages (fst (apply_plan sample_talk (overflow_strategy (sample_oc (Some sample_reply)) (sample_view (Manual None))) 1))) =
     [message_user ''one'', synthetic_user sample_summary, message_user ''two'']"
proof -
  let ?v = "sample_view (Manual None)" and ?oc = "sample_oc (Some sample_reply)"
  have drains: "drain_to (overflow_strategy ?oc ?v) \<noteq> 0" by (simp add: sample_plan)
  have "map bare (c_messages (fst (apply_plan sample_talk (overflow_strategy ?oc ?v) (sacred_floor (c_messages sample_talk))))) =
      map bare (take 1 (c_messages sample_talk) @ summary_messages (overflow_strategy ?oc ?v)
        @ filter is_retained (drop 1 (take 2 (c_messages sample_talk))) @ drop 2 (c_messages sample_talk))"
    using drain_replaces_span [of ?v sample_talk ?oc, OF _ _ sample_paired _ _ drains sample_commits]
    by (simp add: sample_view_def sample_floor recent_budget_def sample_oc_def sample_budget sample_boundary)
      (simp add: sample_talk_def is_retained_def message_user_def message_assistant_def)
  then show ?thesis
    by (simp add: sample_floor sample_plan summary_messages_def)
      (simp add: sample_talk_def is_retained_def message_user_def message_assistant_def synthetic_user_def)
qed

section \<open>When there is no summary\<close>

text \<open>
  C9. A summary that fails costs nothing. When a provider is configured and the plan comes without a summary
  (the call failed, timed out, was cut off, said nothing, or was not made), then applying the plan keeps
  every message of the dialogue, in order and word for word: only texts of tool results are shortened, and at
  most a note to the user is added at the end. This holds for every trigger and at every rung of the ladder, also
  where the time for the summary ran out in an emergency, for which a comment of the code still announces a plain
  drain.
\<close>

theorem missing_summary_loses_nothing:
  assumes "oc_chat oc \<noteq> None" and "summary (overflow_strategy oc view) = None" and "cv_messages view = c_messages c"
  shows "let p = overflow_strategy oc view; after = apply_plan c p sacred
    in map bare (filter (\<lambda>m. \<not> is_tool m) (c_messages (fst after))) =
       map bare (filter (\<lambda>m. \<not> is_tool m) (c_messages c))
       @ (if committed (snd after) then map bare (resume_messages p) else [])"
  using fold_keeps_dialogue [of "overflow_strategy oc view" c sacred] unavailable_folds [OF assms(1,2)] assms(3)
  by (simp add: Let_def)

theorem missing_summary_loses_nothing_witness:
  "let p = overflow_strategy (sample_oc None) (sample_view (Overflow 2)); after = apply_plan sample_talk p 1
    in summary p = None \<and> map bare (filter (\<lambda>m. \<not> is_tool m) (c_messages (fst after))) =
       map bare (filter (\<lambda>m. \<not> is_tool m) (c_messages sample_talk))
       @ (if committed (snd after) then map bare (resume_messages p) else [])"
proof -
  have none: "summary (overflow_strategy (sample_oc None) (sample_view (Overflow 2))) = None"
    using strategy_summary [of "sample_oc None" "sample_view (Overflow 2)"]
    by (cases "summary (overflow_strategy (sample_oc None) (sample_view (Overflow 2)))")
      (simp_all add: call_summary_def sample_oc_def summarize_span_def)
  have "oc_chat (sample_oc None) \<noteq> None" "cv_messages (sample_view (Overflow 2)) = c_messages sample_talk"
    by (simp_all add: sample_oc_def sample_view_def)
  from missing_summary_loses_nothing [OF this(1) none this(2), of 1] show ?thesis using none by (simp add: Let_def)
qed

section \<open>The prediction\<close>

text \<open>
  Without a provider \<open>will_summarize\<close> still announces a summary, though the plan drains the old turns without one. Its
  comment says that it is true only when the plan drains them into a summary.
\<close>

lemma announced_without_provider:
  assumes "oc_chat oc = None" "will_summarize oc view"
  shows "summary (overflow_strategy oc view) = None \<and> drain_to (overflow_strategy oc view) \<noteq> 0"
proof
  have answered: "call_summary oc seg steer = Answered None" for seg steer using assms(1) by (simp add: call_summary_def)
  have "summary (overflow_strategy oc view) \<noteq> Some s" for s by (simp add: strategy_summary answered)
  then show "summary (overflow_strategy oc view) = None" by auto
  have due: "proactive_drains oc view" using assms(2) by (auto simp: will_summarize_def split: compact_trigger.split_asm)
  have granted: "authorized oc (Answered None) = Some None" using assms(1) by (simp add: authorized_def)
  have manual: "drain_to (manual_plan oc view steer) \<noteq> 0" for steer
    using due by (cases rule: manual_plan_cases [of oc view steer]) (auto simp: answered granted proactive_drains_def)
  have "drain_to (overflow_drain oc view) \<noteq> 0"
    using due by (cases rule: overflow_drain_cases [of oc view]) (auto simp: answered granted proactive_drains_def drains_at_def)
  then show "drain_to (overflow_strategy oc view) \<noteq> 0"
    using manual assms(2)
    by (cases "cv_trigger view") (use two_le in \<open>auto simp: overflow_strategy_def overflow_plan_def will_summarize_def\<close>)
qed

text \<open>
  C19. The announcement of a slow compaction. Where \<open>will_summarize\<close> says no, the plan has no summary and
  does not depend on what the provider would say; where it says yes, the plan carries exactly the summary the
  provider gives for the drained span under the user's focus, if it gives one in time, and none if it gives
  none or if there is no provider (lemma \<open>announced_without_provider\<close>: then the old turns are dropped).
\<close>

theorem prediction_is_exact:
  "(will_summarize oc view \<longrightarrow>
      (\<forall>s. summary (overflow_strategy oc view) = Some s \<longleftrightarrow>
         call_summary oc (drain_span oc view) (trigger_steer (cv_trigger view)) = Answered (Some s)))
   \<and> (\<not> will_summarize oc view \<longrightarrow>
      summary (overflow_strategy oc view) = None
      \<and> (\<forall>chat slow. (chat = None \<longleftrightarrow> oc_chat oc = None) \<longrightarrow>
           overflow_strategy (oc\<lparr>oc_chat := chat, oc_slow := slow\<rparr>) view = overflow_strategy oc view))"
proof (intro conjI impI allI)
  fix s assume "will_summarize oc view"
  then show "summary (overflow_strategy oc view) = Some s \<longleftrightarrow>
      call_summary oc (drain_span oc view) (trigger_steer (cv_trigger view)) = Answered (Some s)"
    by (simp add: strategy_summary)
next
  assume "\<not> will_summarize oc view"
  then have "summary (overflow_strategy oc view) \<noteq> Some s" for s by (simp add: strategy_summary)
  then show "summary (overflow_strategy oc view) = None" by auto
next
  fix chat :: "(message list \<Rightarrow> stream_event list option) option" and slow :: "message list \<Rightarrow> bool"
  assume "\<not> will_summarize oc view" "chat = None \<longleftrightarrow> oc_chat oc = None"
  then show "overflow_strategy (oc\<lparr>oc_chat := chat, oc_slow := slow\<rparr>) view = overflow_strategy oc view" by (rule unasked)
qed

theorem prediction_is_exact_witness:
  "will_summarize (sample_oc (Some sample_reply)) (sample_view (Manual None))
   \<and> summary (overflow_strategy (sample_oc (Some sample_reply)) (sample_view (Manual None))) = Some sample_summary"
proof -
  let ?v = "sample_view (Manual None)" and ?oc = "sample_oc (Some sample_reply)"
  have will: "will_summarize ?oc ?v" using sample_drains by (simp add: will_summarize_def sample_view_def)
  moreover have "call_summary ?oc seg steer = Answered (Some sample_summary)" for seg steer
    by (simp add: call_summary_def sample_oc_def sample_summarize)
  ultimately show ?thesis using prediction_is_exact [of ?oc ?v] by blast
qed

section \<open>The anchor\<close>

text \<open>
  C12. A summary is found again. Only an answer that completed, was not cut off and fits 64 KiB becomes a
  summary; stored as a message, it is the anchor the next compaction finds, whatever messages surround it as
  long as none behind it is an anchor, and what that compaction updates is exactly its body.
\<close>

theorem summary_is_found_again:
  assumes "chat (summary_prompt seg steer) = Some evs" and "\<forall>t. TextDelta t \<in> set evs \<longrightarrow> utf8_ok t"
    and "summarize_span chat seg steer = Some text" and "list_all (\<lambda>m. \<not> is_anchor_message m) later"
  shows "\<exists>body. text = ANCHOR_SENTINEL @ newline # SUMMARY_FRAMING @ newline # body \<and> body \<noteq> []
      \<and> find_prior_anchor (earlier @ synthetic_user text # later) = Some body
    \<and> length text \<le> MAX_SUMMARY_BYTES
    \<and> Done False \<in> set evs \<and> Done True \<notin> set evs \<and> (\<forall>e. StreamError e \<notin> set evs)"
proof -
  obtain body where body: "text = ANCHOR_SENTINEL @ newline # SUMMARY_FRAMING @ newline # body" "body \<noteq> []"
    "anchor_body text = body" "length text \<le> MAX_SUMMARY_BYTES"
    "Done False \<in> set evs" "Done True \<notin> set evs" "\<forall>e. StreamError e \<notin> set evs"
    using summary_anchor [OF assms(1-3)] .
  have "is_anchor_message (synthetic_user text)" by (simp add: is_anchor_message_def synthetic_user_def body(1))
  moreover have "find is_anchor_message (rev later @ ms) = find is_anchor_message ms" for ms
    using assms(4) by (induction later arbitrary: ms) simp_all
  ultimately have "find is_anchor_message (rev (earlier @ synthetic_user text # later)) = Some (synthetic_user text)" by simp
  moreover have "m_text (synthetic_user text) = text" by (simp add: synthetic_user_def)
  ultimately have "find_prior_anchor (earlier @ synthetic_user text # later) = Some body"
    using body(2,3) by (simp only: find_prior_anchor_def option.case Let_def if_False)
  then show ?thesis using body by blast
qed

theorem summary_is_found_again_witness:
  "find_prior_anchor [message_user ''one'', synthetic_user sample_summary, message_user ''two''] = Some ''sum''"
proof -
  have "list_all (\<lambda>m. \<not> is_anchor_message m) [message_user ''two'']" by (simp add: is_anchor_message_def message_user_def)
  moreover have "\<forall>t. TextDelta t \<in> set sample_reply \<longrightarrow> utf8_ok t" by (simp add: sample_reply_def is_continuation_def byte_of_def)
  ultimately obtain body where
    "sample_summary = ANCHOR_SENTINEL @ newline # SUMMARY_FRAMING @ newline # body"
    "find_prior_anchor ([message_user ''one''] @ synthetic_user sample_summary # [message_user ''two'']) = Some body"
    using summary_is_found_again [of "\<lambda>_. Some sample_reply" "[]" None sample_reply sample_summary "[message_user ''two'']"
        "[message_user ''one'']"] sample_summarize by blast
  then show ?thesis by (simp add: sample_summary_def)
qed

text \<open>
  C20. A summary that is quoted to the summariser stays inside its quotation. Whatever the text of an earlier
  summary, the prompt quotes a version of it in which the name of the quoting element does not occur, in any
  mixture of cases, so that no closing tag but the prompt's own ends the quotation.
\<close>

theorem quoted_summary_stays_inside:
  "\<exists>quoted rest. build_summary_prompt (Some anchor) transcript steer
      = UPDATE_INSTRUCTIONS @ quoted @ newline # ''</previous-summary>'' @ rest
    \<and> quoted = neutralize_summary_delimiters anchor
    \<and> \<not> contains_str (to_ascii_lowercase quoted) ''previous-summary''"
proof -
  have "\<not> contains_str (to_ascii_lowercase (neutralize_summary_delimiters anchor)) ''previous-summary''"
    using delimiter.no_needle [of anchor] by (simp add: contains_str_iff delimiter.defused_def neutralize_summary_delimiters_def)
  then show ?thesis unfolding build_summary_prompt_def option.case append_assoc append_Cons append_Nil by blast
qed

section \<open>Stubs that are stubbed again\<close>

text \<open>A tool result of one line of 60 characters that take three bytes each.\<close>

definition wide_result :: message where
  "wide_result = tool_result ''c'' (concat (replicate 60 [CHR 0xE6, CHR 0xB1, CHR 0x89])) False"

text \<open>
  The aggressive stub is not stable. Of a result of 180 bytes in 60 characters the emergency policy makes a
  stub that is longer than the result, and above the size from which results are stubbed, so that the next
  overflow stubs the stub. The code promises that a stub is well under that size and never stubbed again.
\<close>

lemma wide_stub_is_stubbed_again:
  "let msgs = [message_assistant [] [\<lparr>tc_id = ''c'', tc_name = ''bash'', tc_arguments = ''{}''\<rparr>], wide_result];
       rws = aggressive_stub_rewrites msgs 0 2 None; t = snd (hd rws);
       again = aggressive_stub_rewrites [msgs ! 0, (msgs ! 1)\<lparr>m_text := t\<rparr>] 0 2 None
   in map fst rws = [1] \<and> length (m_text wide_result) < length t
      \<and> map fst again = [1] \<and> snd (hd again) \<noteq> t"
  by code_simp

end
