(* ===== verification/Edit_Match.thy ===== *)
theory Edit_Match
  imports Engine_Policy
begin

text \<open>
  How \<open>edit_file\<close> finds what it replaces (\<open>crates/atomcode-capabilities/src/tools/edit.rs\<close>, and
  \<open>coerce_eol\<close> of \<open>tools/mod.rs\<close>): exact search, and three tiers that tolerate a little drift, each of which
  puts the replacement at the indentation the file really has. A string is its UTF-8 bytes; \<open>find\<close>, \<open>matches\<close>
  and \<open>replace\<close> of \<open>str\<close> search for bytes.
\<close>

section \<open>Exact search\<close>

text \<open>The text between the matches of \<open>p\<close>, which do not overlap; \<open>p\<close> must not be empty.\<close>

function str_split :: "string \<Rightarrow> string \<Rightarrow> string list" where
  "str_split p s =
     (if p = [] \<or> find_str p s = None then [s]
      else (let i = the (find_str p s) in take i s # str_split p (drop (i + length p) s)))"
  by pat_completeness auto
termination
proof (relation "measure (\<lambda>(p, s). length s)")
  fix p s :: string and i assume "\<not> (p = [] \<or> find_str p s = None)" "i = the (find_str p s)"
  then show "((p, drop (i + length p) s), p, s) \<in> measure (\<lambda>(p, s). length s)"
    using find_str_bound [of p s i] by (cases p) auto
qed simp

declare str_split.simps [simp del]

text \<open>\<open>lines.join(eol)\<close>\<close>

fun str_join :: "string \<Rightarrow> string list \<Rightarrow> string" where
  "str_join sep [] = []"
| "str_join sep [x] = x"
| "str_join sep (x # y # ys) = x @ sep @ str_join sep (y # ys)"

text \<open>\<open>s.matches(p).count()\<close>, \<open>s.replace(p, r)\<close>, \<open>s.replacen(p, r, 1)\<close>\<close>

definition matches_of :: "string \<Rightarrow> string \<Rightarrow> nat" where
  "matches_of p s = length (str_split p s) - 1"

definition str_replace :: "string \<Rightarrow> string \<Rightarrow> string \<Rightarrow> string" where
  "str_replace p r s = str_join r (str_split p s)"

definition replace_first :: "string \<Rightarrow> string \<Rightarrow> string \<Rightarrow> string" where
  "replace_first p r s = (case find_str p s of Some i \<Rightarrow> take i s @ r @ drop (i + length p) s | None \<Rightarrow> s)"

abbreviation crlf :: string where "crlf \<equiv> [carriage_return, newline]"

definition coerce_eol :: "string \<Rightarrow> string \<Rightarrow> string" where
  "coerce_eol s eol =
     (if eol = crlf then str_replace [newline] crlf (str_replace crlf [newline] s)
      else str_replace crlf [newline] s)"

section \<open>Indentation\<close>

definition leading_ws_chars :: "string \<Rightarrow> nat" where
  "leading_ws_chars s = length (takeWhile is_space (char_pieces s))"

definition base_indent :: "string list \<Rightarrow> nat" where
  "base_indent new_lines = (case find (\<lambda>l. str_trim l \<noteq> []) new_lines of Some l \<Rightarrow> leading_ws_chars l | None \<Rightarrow> 0)"

definition reanchored_line :: "nat \<Rightarrow> string \<Rightarrow> string \<Rightarrow> string" where
  "reanchored_line base original l =
     (if str_trim l = [] then []
      else (let file_indent = leading_ws_chars original;
                indent = take_chars file_indent original;
                total = (if base \<le> leading_ws_chars l
                         then indent @ replicate (leading_ws_chars l - base) (CHR '' '')
                         else take_chars (file_indent - (base - leading_ws_chars l)) indent)
            in total @ str_trim l))"

definition reanchored_replacement :: "string list \<Rightarrow> string \<Rightarrow> string list" where
  "reanchored_replacement new_lines original = map (reanchored_line (base_indent new_lines) original) new_lines"

section \<open>Tolerant tiers\<close>

definition strip_interior_ws :: "string \<Rightarrow> string" where
  "strip_interior_ws l = filter (\<lambda>c. c \<noteq> CHR '' '' \<and> c \<noteq> CHR 0x09) (str_trim l)"

text \<open>The windows of \<open>ls\<close> from \<open>i\<close> on that equal \<open>old\<close>, none overlapping the one before.\<close>

function windows_from :: "string list \<Rightarrow> string list \<Rightarrow> nat \<Rightarrow> nat list" where
  "windows_from old ls i =
     (if old \<noteq> [] \<and> i + length old \<le> length ls
      then (if take (length old) (drop i ls) = old then i # windows_from old ls (i + length old)
            else windows_from old ls (Suc i))
      else [])"
  by pat_completeness auto
termination
  by (relation "measure (\<lambda>(old, ls, i). Suc (length ls) - i)") (auto simp: neq_Nil_conv)

declare windows_from.simps [simp del]

definition splice_lines :: "nat \<Rightarrow> nat \<Rightarrow> string list \<Rightarrow> string list \<Rightarrow> string list" where
  "splice_lines start end' ins xs = take start xs @ ins @ drop end' xs"

text \<open>The lines that have become the file's, put together again.\<close>

definition rejoined :: "string \<Rightarrow> string list \<Rightarrow> string" where
  "rejoined content ls =
     (let joined = str_join [newline] ls;
          ended = (if ends_newline content \<and> \<not> ends_newline joined then joined @ [newline] else joined)
      in if contains_str content crlf then coerce_eol ended crlf else ended)"

definition try_normalized_replace ::
  "(string \<Rightarrow> string) \<Rightarrow> string \<Rightarrow> string \<Rightarrow> string \<Rightarrow> bool \<Rightarrow> (string \<times> nat) option" where
  "try_normalized_replace normal content old new every =
     (let old_normal = map normal (str_lines old); ls = str_lines content; n = length old_normal;
          hits = windows_from old_normal (map normal ls) 0
      in if list_all (\<lambda>l. l = []) old_normal \<or> sum_list (map length old_normal) < 10
            \<or> hits = [] \<or> \<not> every \<and> 1 < length hits
         then None
         else Some (rejoined content
             (foldr (\<lambda>s xs. splice_lines s (s + n) (reanchored_replacement (str_lines new) (ls ! s)) xs) hits ls),
           length hits))"

definition try_fuzzy_replace :: "string \<Rightarrow> string \<Rightarrow> string \<Rightarrow> bool \<Rightarrow> (string \<times> nat) option" where
  "try_fuzzy_replace = try_normalized_replace str_trim"

definition try_whitespace_insensitive_replace :: "string \<Rightarrow> string \<Rightarrow> string \<Rightarrow> bool \<Rightarrow> (string \<times> nat) option" where
  "try_whitespace_insensitive_replace = try_normalized_replace strip_interior_ws"

text \<open>Where the anchors stand and all lines but at most one agree.\<close>

definition anchored_at :: "string list \<Rightarrow> string list \<Rightarrow> nat \<Rightarrow> bool" where
  "anchored_at old_lines ls i \<longleftrightarrow>
     (let n = length old_lines in
      str_trim (ls ! i) = str_trim (hd old_lines) \<and> str_trim (ls ! (i + n - 1)) = str_trim (last old_lines)
      \<and> n \<le> length (filter (\<lambda>k. str_trim (ls ! (i + k)) = str_trim (old_lines ! k)) [0..<n]) + 1)"

definition try_block_anchor_replace :: "string \<Rightarrow> string \<Rightarrow> string \<Rightarrow> (string \<times> nat) option" where
  "try_block_anchor_replace content old new =
     (let old_lines = str_lines old; n = length old_lines; ls = str_lines content
      in if n < 3 \<or> char_count (str_trim (hd old_lines)) < 3 \<or> char_count (str_trim (last old_lines)) < 3 then None
         else (case filter (anchored_at old_lines ls) [0..<Suc (length ls) - n] of
                 [s] \<Rightarrow> Some (rejoined content (splice_lines s (s + n) (reanchored_replacement (str_lines new) (ls ! s)) ls), 1)
               | _ \<Rightarrow> None))"

section \<open>What to show when nothing matches\<close>

definition MAX_SCAN_LINES :: nat where "MAX_SCAN_LINES = 20000"
definition MAX_EXCERPT_CHARS :: nat where "MAX_EXCERPT_CHARS = 2000"
definition MAX_EXCERPT_LINES :: nat where "MAX_EXCERPT_LINES = 40"

definition line_cost :: "string \<Rightarrow> nat" where
  "line_cost l = char_count l + 1"

definition excerpt_cost :: "string list \<Rightarrow> nat \<Rightarrow> nat \<Rightarrow> nat" where
  "excerpt_cost ls start end' = sum_list (map line_cost (drop start (take end' ls)))"

text \<open>Lines are given up at the end of the window, then at its start, never the one in the centre.\<close>

function shrink_end :: "string list \<Rightarrow> nat \<Rightarrow> nat \<Rightarrow> nat \<Rightarrow> nat \<times> nat" where
  "shrink_end ls centre end' used =
     (if MAX_EXCERPT_CHARS < used \<and> Suc centre < end'
      then shrink_end ls centre (end' - 1) (used - line_cost (ls ! (end' - 1))) else (end', used))"
  by pat_completeness auto
termination by (relation "measure (\<lambda>(ls, centre, e, used). e)") auto

function shrink_start :: "string list \<Rightarrow> nat \<Rightarrow> nat \<Rightarrow> nat \<Rightarrow> nat \<times> nat" where
  "shrink_start ls centre start used =
     (if MAX_EXCERPT_CHARS < used \<and> start < centre
      then shrink_start ls centre (Suc start) (used - line_cost (ls ! start)) else (start, used))"
  by pat_completeness auto
termination by (relation "measure (\<lambda>(ls, centre, s, used). centre - s)") auto

declare shrink_end.simps [simp del] shrink_start.simps [simp del]

definition current_text_window :: "string list \<Rightarrow> nat \<Rightarrow> nat \<Rightarrow> (nat \<times> nat \<times> string) option" where
  "current_text_window ls centre wanted_lines =
     (if length ls \<le> centre \<or> MAX_EXCERPT_CHARS < line_cost (ls ! centre) then None
      else (let seg = min (max (wanted_lines + 4) 8) MAX_EXCERPT_LINES; start = centre - 2;
                end' = min (start + seg) (length ls);
                (end', used) = shrink_end ls centre end' (excerpt_cost ls start end');
                (start, used) = shrink_start ls centre start used
            in if MAX_EXCERPT_CHARS < used then None
               else Some (Suc start, end', str_join [newline] (drop start (take end' ls)))))"

definition common_prefix_chars :: "string \<Rightarrow> string \<Rightarrow> nat" where
  "common_prefix_chars a b = length (takeWhile (\<lambda>(x, y). x = y) (zip (char_pieces a) (char_pieces b)))"

text \<open>The first line with the best score; \<open>lower\<close> stands for \<open>str::to_lowercase\<close>.\<close>

fun best_line :: "(string \<Rightarrow> string) \<Rightarrow> string \<Rightarrow> string list \<Rightarrow> nat \<Rightarrow> (nat \<times> nat) option \<Rightarrow> (nat \<times> nat) option" where
  "best_line lower wanted [] i best = best"
| "best_line lower wanted (l # ls) i best =
     (let t = str_trim l; score = common_prefix_chars wanted (lower t)
      in best_line lower wanted ls (Suc i)
           (if t \<noteq> [] \<and> (case best of None \<Rightarrow> True | Some (_, current) \<Rightarrow> current < score) then Some (i, score) else best))"

datatype edit_hint =
    Reread
  | Closest nat string "(nat \<times> nat \<times> string) option"

definition closest_match_hint :: "(string \<Rightarrow> string) \<Rightarrow> string \<Rightarrow> string \<Rightarrow> edit_hint" where
  "closest_match_hint lower content old =
     (let wanted = (case find (\<lambda>l. str_trim l \<noteq> []) (str_lines old) of Some l \<Rightarrow> str_trim l | None \<Rightarrow> []);
          ls = take (MAX_SCAN_LINES + MAX_EXCERPT_LINES) (str_lines content)
      in if char_count wanted < 4 then Reread
         else (case best_line lower (lower wanted) (take MAX_SCAN_LINES ls) 0 None of
                 Some (i, score) \<Rightarrow>
                   (if 4 \<le> score
                    then Closest (Suc i) (take_chars 160 (str_trim (ls ! i)))
                           (current_text_window ls i (length (str_lines old)))
                    else Reread)
               | None \<Rightarrow> Reread))"

end
