(* ===== verification/Edit_File.thy ===== *)
theory Edit_File
  imports Edit_Match Apply_Patch
begin

text \<open>
  The tool \<open>edit_file\<close> (\<open>crates/atomcode-capabilities/src/tools/edit.rs\<close>, \<open>tools/encoding.rs\<close>): which edit
  is made, in which encoding the file is written back, and the check before the write that nobody
  else has changed the file. The tool acts on a file system as \<open>Apply_Patch\<close> has it. The parser of its
  arguments, the codec of GB18030 and \<open>str::to_lowercase\<close> are parameters; the diff in the
  answer is a third-party rendering of the two texts and left out.
\<close>

section \<open>Encodings\<close>

datatype file_encoding = Enc_Utf8 | Enc_Gb18030

record decoded_file =
  df_text :: string
  df_encoding :: file_encoding

text \<open>\<open>encoding_rs::GB18030\<close>: no result where it reports errors.\<close>

record gb_codec =
  gb_decode :: "string \<Rightarrow> string option"
  gb_encode :: "string \<Rightarrow> string option"

definition GBK_CANDIDATE_EXTENSIONS :: "string list" where
  "GBK_CANDIDATE_EXTENSIONS =
     [''txt'', ''md'', ''markdown'', ''csv'', ''tsv'', ''log'', ''sql'', ''ini'', ''conf'', ''cfg'', ''toml'', ''yaml'',
      ''yml'', ''html'', ''htm'', ''xml'', ''json'', ''js'', ''ts'', ''css'', ''py'', ''rb'', ''go'', ''rs'', ''c'', ''h'',
      ''cpp'', ''hpp'', ''java'', ''kt'', ''sh'', ''bat'', ''ps1'']"

text \<open>\<open>Path::extension\<close>: behind the last dot of the file name, unless the name only begins with it.\<close>

definition extension :: "path \<Rightarrow> string option" where
  "extension p =
     (if p = [] \<or> last p = ''..'' then None
      else (let behind = takeWhile (\<lambda>c. c \<noteq> CHR ''.'') (rev (last p)); rest = dropWhile (\<lambda>c. c \<noteq> CHR ''.'') (rev (last p))
            in if length rest \<le> 1 then None else Some (rev behind)))"

definition has_text_extension :: "path \<Rightarrow> bool" where
  "has_text_extension p =
     (case extension p of Some e \<Rightarrow> to_ascii_lowercase e \<in> set GBK_CANDIDATE_EXTENSIONS | None \<Rightarrow> False)"

definition decode_non_utf8_text :: "gb_codec \<Rightarrow> path \<Rightarrow> string \<Rightarrow> string option" where
  "decode_non_utf8_text gb p bytes = (if has_text_extension p then gb_decode gb bytes else None)"

definition encode_text :: "gb_codec \<Rightarrow> file_encoding \<Rightarrow> string \<Rightarrow> string option" where
  "encode_text gb enc t = (case enc of Enc_Utf8 \<Rightarrow> Some t | Enc_Gb18030 \<Rightarrow> gb_encode gb t)"

definition decode_for_edit :: "gb_codec \<Rightarrow> path \<Rightarrow> string \<Rightarrow> decoded_file option" where
  "decode_for_edit gb p bytes =
     (if utf8_bytes (map byte_of bytes) then Some \<lparr>df_text = bytes, df_encoding = Enc_Utf8\<rparr>
      else Option.bind (decode_non_utf8_text gb p bytes) (\<lambda>t.
           Option.bind (encode_text gb Enc_Gb18030 t) (\<lambda>again.
             if again = bytes then Some \<lparr>df_text = t, df_encoding = Enc_Gb18030\<rparr> else None)))"

section \<open>The edit\<close>

record edit_args =
  ea_path :: string
  ea_old :: string
  ea_new :: string
  ea_all :: bool

datatype edit_tier = Exact | Fuzzy | Insensitive | Anchored

datatype edit_error =
    Bad_Arguments string
  | Identical
  | Empty_Old
  | Unreadable string
  | Undecodable
  | Only_Whitespace edit_tier
  | Not_Found edit_hint
  | Ambiguous nat
  | Identical_After_Eol
  | Reread_Failed string
  | Changed_Meanwhile
  | Not_Encodable
  | Write_Failed string

text \<open>What is searched for, what replaces it, and how often it occurs.\<close>

definition matched_pair :: "string \<Rightarrow> string \<Rightarrow> string \<Rightarrow> string \<times> string \<times> nat" where
  "matched_pair content old new =
     (if 0 < matches_of old content then (old, new, matches_of old content)
      else (let eol = (if contains_str content crlf then crlf else [newline]); old_c = coerce_eol old eol
            in (old_c, coerce_eol new eol, matches_of old_c content)))"

text \<open>The tiers that are tried when nothing matches exactly, in order.\<close>

definition tolerant_edit :: "(string \<Rightarrow> string) \<Rightarrow> edit_args \<Rightarrow> string \<Rightarrow> edit_error + edit_tier \<times> nat \<times> string" where
  "tolerant_edit lower a content =
     (case try_fuzzy_replace content (ea_old a) (ea_new a) (ea_all a) of
        Some (t, n) \<Rightarrow> (if t = content then Inl (Only_Whitespace Fuzzy) else Inr (Fuzzy, n, t))
      | None \<Rightarrow>
          (case try_whitespace_insensitive_replace content (ea_old a) (ea_new a) (ea_all a) of
             Some (t, n) \<Rightarrow> (if t = content then Inl (Only_Whitespace Insensitive) else Inr (Insensitive, n, t))
           | None \<Rightarrow>
               (case try_block_anchor_replace content (ea_old a) (ea_new a) of
                  Some (t, _) \<Rightarrow>
                    (if t = content then Inl (Not_Found (closest_match_hint lower content (ea_old a)))
                     else Inr (Anchored, 1, t))
                | None \<Rightarrow> Inl (Not_Found (closest_match_hint lower content (ea_old a))))))"

definition edited :: "(string \<Rightarrow> string) \<Rightarrow> edit_args \<Rightarrow> string \<Rightarrow> edit_error + edit_tier \<times> nat \<times> string" where
  "edited lower a content =
     (let (old, new, n) = matched_pair content (ea_old a) (ea_new a)
      in if n = 0 then tolerant_edit lower a content
         else if 1 < n \<and> \<not> ea_all a then Inl (Ambiguous n)
         else if old = new then Inl Identical_After_Eol
         else Inr (Exact, if ea_all a then n else 1,
                   if ea_all a then str_replace old new content else replace_first old new content))"

section \<open>The write\<close>

definition write_encoded ::
  "'w fs_ops \<Rightarrow> gb_codec \<Rightarrow> ('w \<Rightarrow> 'w) \<Rightarrow> path \<Rightarrow> string \<Rightarrow> file_encoding \<Rightarrow> 'w \<Rightarrow> (edit_error + unit) \<times> 'w" where
  "write_encoded fs gb late p t enc w =
     (case encode_text gb enc t of
        None \<Rightarrow> (Inl Not_Encodable, w)
      | Some bytes \<Rightarrow> (case write_op fs p bytes (late w) of (Inl e, w) \<Rightarrow> (Inl (Write_Failed e), w) | (Inr _, w) \<Rightarrow> (Inr (), w)))"

definition write_encoded_if_unchanged ::
  "'w fs_ops \<Rightarrow> gb_codec \<Rightarrow> ('w \<Rightarrow> 'w) \<Rightarrow> path \<Rightarrow> string \<Rightarrow> string \<Rightarrow> file_encoding \<Rightarrow> 'w \<Rightarrow> (edit_error + unit) \<times> 'w" where
  "write_encoded_if_unchanged fs gb late p expected t enc w =
     (case read_op fs p w of
        (Inl e, w) \<Rightarrow> (Inl (Reread_Failed e), w)
      | (Inr current, w) \<Rightarrow> (if current \<noteq> expected then (Inl Changed_Meanwhile, w) else write_encoded fs gb late p t enc w))"

text \<open>
  The tool. The calls of the tool on one file are serialised by a lock, so only other programs can come between:
  \<open>meanwhile\<close> is what they do between the reading and the check, \<open>late\<close> what they do between the check and
  the write, which the check cannot see.
\<close>

definition edit_file ::
  "'w fs_ops \<Rightarrow> gb_codec \<Rightarrow> (string \<Rightarrow> string) \<Rightarrow> ('w \<Rightarrow> 'w) \<Rightarrow> ('w \<Rightarrow> 'w) \<Rightarrow> (string \<Rightarrow> path) \<Rightarrow> string + edit_args \<Rightarrow>
   'w \<Rightarrow> (edit_error + edit_tier \<times> nat) \<times> 'w" where
  "edit_file fs gb lower meanwhile late resolve args w =
     (case args of
        Inl e \<Rightarrow> (Inl (Bad_Arguments e), w)
      | Inr a \<Rightarrow>
          (let p = resolve (ea_path a) in
           if ea_old a = ea_new a then (Inl Identical, w)
           else if ea_old a = [] then (Inl Empty_Old, w)
           else (case read_op fs p w of
                   (Inl e, w) \<Rightarrow> (Inl (Unreadable e), w)
                 | (Inr raw, w) \<Rightarrow>
                     (case decode_for_edit gb p raw of
                        None \<Rightarrow> (Inl Undecodable, w)
                      | Some d \<Rightarrow>
                          (case edited lower a (df_text d) of
                             Inl e \<Rightarrow> (Inl e, w)
                           | Inr (tier, n, t) \<Rightarrow>
                               (case write_encoded_if_unchanged fs gb late p raw t (df_encoding d) (meanwhile w) of
                                  (Inl e, w) \<Rightarrow> (Inl e, w)
                                | (Inr _, w) \<Rightarrow> (Inr (tier, n), w)))))))"

end
