(* ===== verification/Edit_Laws.thy ===== *)
theory Edit_Laws
  imports Edit_File Summary_Laws Apply_Laws
begin

text \<open>
  The theory of \<open>edit_file\<close>: splitting at a pattern and joining, what the windows of the tolerant tiers
  replace, and line ends.
\<close>

section \<open>Splitting and joining\<close>

lemma find_str_None: "find_str p s = None \<longleftrightarrow> \<not> sublist p s"
  by (induction p s rule: find_str.induct) (auto simp: sublist_Cons_right)

lemma find_str_Some: "find_str p s = Some i \<Longrightarrow> prefix p (drop i s) \<and> (\<forall>j<i. \<not> prefix p (drop j s))"
proof (induction p s arbitrary: i rule: find_str.induct)
  case (2 p c cs)
  then show ?case by (fastforce split: if_split_asm simp: less_Suc_eq_0_disj)
qed (simp split: if_split_asm)

lemma find_str_cut: "find_str p s = Some i \<Longrightarrow> s = take i s @ p @ drop (i + length p) s"
  using find_str_Some [of p s i] by (metis add.commute append_eq_conv_conj append_take_drop_id drop_drop prefix_def)

lemma find_str_first: "find_str p s = Some i \<Longrightarrow> p \<noteq> [] \<Longrightarrow> \<not> sublist p (take i s)"
proof
  assume "find_str p s = Some i" "p \<noteq> []" "sublist p (take i s)"
  then obtain x y where xy: "take i s = x @ p @ y" by (auto simp: sublist_def)
  then have "i \<ge> length x + length p" by (metis length_append length_take le_add1 min.boundedE order_trans add.assoc)
  moreover have "prefix p (drop (length x) s)" using xy
    by (metis append.assoc append_eq_conv_conj append_take_drop_id prefixI)
  moreover have "0 < length p" using \<open>p \<noteq> []\<close> by simp
  ultimately show False using find_str_Some [OF \<open>find_str p s = Some i\<close>] by (metis add_less_cancel_left less_le_trans add.right_neutral)
qed

lemma str_split_ne [simp]: "str_split p s \<noteq> []"
  by (subst str_split.simps) (simp add: Let_def)

lemma str_join_Cons: "xs \<noteq> [] \<Longrightarrow> str_join sep (x # xs) = x @ sep @ str_join sep xs"
  by (cases xs) simp_all

lemma str_join_append: "xs \<noteq> [] \<Longrightarrow> ys \<noteq> [] \<Longrightarrow> str_join sep (xs @ ys) = str_join sep xs @ sep @ str_join sep ys"
  by (induction xs rule: list_nonempty_induct) (simp_all add: str_join_Cons)

lemma str_join_split: "p \<noteq> [] \<Longrightarrow> str_join p (str_split p s) = s"
proof (induction p s rule: str_split.induct)
  case (1 p s)
  show ?case
  proof (cases "find_str p s")
    case None
    then show ?thesis by (subst str_split.simps) simp
  next
    case (Some i)
    then show ?thesis using 1 find_str_cut [OF Some] by (subst str_split.simps) (simp add: str_join_Cons)
  qed
qed

lemma in_str_split: "p \<noteq> [] \<Longrightarrow> x \<in> set (str_split p s) \<Longrightarrow> \<not> sublist p x"
proof (induction p s rule: str_split.induct)
  case (1 p s)
  show ?case
  proof (cases "find_str p s")
    case None
    then have "str_split p s = [s]" by (subst str_split.simps) simp
    then show ?thesis using 1(3) None by (simp add: find_str_None)
  next
    case (Some i)
    then have "str_split p s = take i s # str_split p (drop (i + length p) s)" using 1(2) by (subst str_split.simps) simp
    then show ?thesis using 1 find_str_first [OF Some] Some by auto
  qed
qed

lemma str_split_none: "\<not> sublist p s \<Longrightarrow> str_split p s = [s]"
  by (subst str_split.simps) (simp flip: find_str_None)

lemma matches_Nil [simp]: "matches_of [] s = 0"
  by (subst matches_of_def, subst str_split.simps) simp

lemma matches_pos: "p \<noteq> [] \<Longrightarrow> 0 < matches_of p s \<longleftrightarrow> sublist p s"
proof (cases "sublist p s")
  case True
  moreover assume "p \<noteq> []"
  ultimately have "str_split p s = take (the (find_str p s)) s # str_split p (drop (the (find_str p s) + length p) s)"
    by (subst str_split.simps) (simp add: find_str_None Let_def)
  then show ?thesis using True by (simp add: matches_of_def)
qed (simp add: matches_of_def str_split_none)

lemma replace_first_one: "p \<noteq> [] \<Longrightarrow> matches_of p s = 1 \<Longrightarrow> replace_first p r s = str_replace p r s"
proof -
  assume p: "p \<noteq> []" and one: "matches_of p s = 1"
  then obtain i where i: "find_str p s = Some i" using find_str_None [of p s] matches_pos [OF p, of s] by (metis One_nat_def option.exhaust zero_less_Suc)
  have eq: "str_split p s = take i s # str_split p (drop (i + length p) s)" using i p by (subst str_split.simps) simp
  then have "length (str_split p (drop (i + length p) s)) = 1" using one by (simp add: matches_of_def)
  then obtain y where "str_split p (drop (i + length p) s) = [y]" by (auto simp: length_Suc_conv)
  then show ?thesis using str_join_split [OF p, of "drop (i + length p) s"] i eq by (simp add: str_replace_def replace_first_def)
qed

lemma find_str_newline: "newline \<notin> set x \<Longrightarrow> find_str [newline] (x @ newline # y) = Some (length x)"
  by (induction x) auto

lemma split_join_lines: "ls \<noteq> [] \<Longrightarrow> \<forall>l\<in>set ls. newline \<notin> set l \<Longrightarrow> str_split [newline] (str_join [newline] ls) = ls"
proof (induction ls rule: list_nonempty_induct)
  case (single l)
  then show ?case by (simp, intro str_split_none) (auto simp: sublist_def)
next
  case (cons l ls)
  then show ?case by (subst str_split.simps) (simp add: str_join_Cons find_str_newline)
qed

section \<open>Line ends\<close>

text \<open>A line as it stands in a file whose line ends are regular.\<close>

definition bare_line :: "string \<Rightarrow> bool" where
  "bare_line l \<longleftrightarrow> newline \<notin> set l \<and> (l \<noteq> [] \<longrightarrow> last l \<noteq> carriage_return)"

lemma crlf_line:
  "newline \<notin> set l \<Longrightarrow> sublist crlf (l @ newline # r) \<longleftrightarrow> (l \<noteq> [] \<and> last l = carriage_return) \<or> sublist crlf r"
proof (induction l)
  case (Cons c l)
  then show ?case by (cases l) (auto simp: sublist_Cons_right)
qed (simp add: sublist_Cons_right)

lemma crlf_last: "newline \<notin> set l \<Longrightarrow> \<not> sublist crlf l"
  by (auto simp: sublist_def)

lemma no_crlf: "\<forall>l\<in>set ls. bare_line l \<Longrightarrow> \<not> sublist crlf (str_join [newline] ls)"
proof (induction ls)
  case (Cons l ls)
  then show ?case by (cases "ls = []") (auto simp: str_join_Cons crlf_line crlf_last bare_line_def)
qed simp

text \<open>What the lines of a changed file become when they are put together.\<close>

definition file_text :: "string \<Rightarrow> string list \<Rightarrow> bool \<Rightarrow> string" where
  "file_text eol ls ended = str_join eol ls @ (if ended then eol else [])"

definition blank_end :: "string list \<Rightarrow> bool" where
  "blank_end ls \<longleftrightarrow> 1 < length ls \<and> last ls = []"

lemma ends_newline_join:
  "\<forall>l\<in>set ls. newline \<notin> set l \<Longrightarrow> ends_newline (str_join [newline] ls) \<longleftrightarrow> blank_end ls"
proof (induction ls)
  case (Cons l ls)
  show ?case
  proof (cases ls)
    case Nil
    then show ?thesis using Cons.prems by (metis ends_newline_def blank_end_def last_in_set length_Cons less_numeral_extra(4)
        list.set_intros(1) list.size(3) One_nat_def str_join.simps(2))
  next
    case (Cons x xs)
    then have "ends_newline (str_join [newline] (l # ls)) \<longleftrightarrow> str_join [newline] ls = [] \<or> ends_newline (str_join [newline] ls)"
      by (auto simp: ends_newline_def)
    moreover have "str_join [newline] ls = [] \<longleftrightarrow> ls = [[]]" using Cons by (cases xs) auto
    moreover have "blank_end (l # ls) \<longleftrightarrow> ls = [[]] \<or> blank_end ls" using Cons by (cases xs) (auto simp: blank_end_def)
    ultimately show ?thesis using Cons.IH Cons.prems by simp
  qed
qed (simp add: ends_newline_def blank_end_def)

definition eol_of :: "string \<Rightarrow> string" where
  "eol_of content = (if contains_str content crlf then crlf else [newline])"

lemma coerce_joined:
  assumes "ls \<noteq> []" "\<forall>l\<in>set ls. bare_line l"
  shows "coerce_eol (str_join [newline] ls) crlf = str_join crlf ls"
  using assms split_join_lines [OF assms(1)] str_split_none [OF no_crlf [OF assms(2)]]
  by (simp add: coerce_eol_def str_replace_def bare_line_def)

lemma rejoined_text:
  assumes ls: "\<forall>l\<in>set ls. bare_line l"
  shows "rejoined content ls = file_text (eol_of content) ls (ends_newline content \<and> \<not> blank_end ls)"
proof -
  have lf: "ends_newline (str_join [newline] ls) \<longleftrightarrow> blank_end ls" using ls by (intro ends_newline_join) (auto simp: bare_line_def)
  let ?ended = "ends_newline content \<and> \<not> blank_end ls"
  have joined: "(if ends_newline content \<and> \<not> ends_newline (str_join [newline] ls) then str_join [newline] ls @ [newline]
      else str_join [newline] ls) = file_text [newline] ls ?ended"
    by (simp add: lf file_text_def)
  moreover have "coerce_eol (file_text [newline] ls ?ended) crlf = file_text crlf ls ?ended"
  proof -
    let ?ls = "(if ls = [] then [[]] else ls) @ (if ?ended then [[]] else [])"
    have "file_text e ls ?ended = str_join e ?ls" for e by (auto simp: file_text_def str_join_append)
    moreover have "coerce_eol (str_join [newline] ?ls) crlf = str_join crlf ?ls"
      using ls by (intro coerce_joined) (auto simp: bare_line_def)
    ultimately show ?thesis by simp
  qed
  ultimately show ?thesis by (simp only: rejoined_def eol_of_def Let_def joined) simp
qed

section \<open>Windows\<close>

text \<open>Lines that are kept and windows that are hit, in turn, and the lines behind the last one.\<close>

definition woven :: "(string list \<times> string list) list \<Rightarrow> string list \<Rightarrow> string list" where
  "woven ps rest = concat (map (\<lambda>(kept, hit). kept @ hit) ps) @ rest"

lemma woven_simps [simp]:
  "woven [] rest = rest" "woven ((kept, hit) # ps) rest = kept @ hit @ woven ps rest"
  by (simp_all add: woven_def)

lemma woven_Cons: "\<exists>ps' rest'. x # woven ps rest = woven ps' rest' \<and> length ps' = length ps \<and> map snd ps' = map snd ps
    \<and> (\<forall>h. x # woven (map (apsnd h) ps) rest = woven (map (apsnd h) ps') rest')"
proof (cases ps)
  case Nil
  then show ?thesis by (intro exI [of _ "[]"] exI [of _ "x # rest"]) simp
next
  case (Cons p qs)
  obtain kept hit where p: "p = (kept, hit)" by (cases p)
  show ?thesis unfolding Cons p by (intro exI [of _ "(x # kept, hit) # qs"] exI [of _ rest]) simp
qed

text \<open>From line \<open>i\<close> on, the file is woven of kept lines and hits, and replacing the hits weaves it anew.\<close>

definition tiles :: "(string \<Rightarrow> string) \<Rightarrow> (string \<Rightarrow> string list) \<Rightarrow> string list \<Rightarrow> string list \<Rightarrow> nat
    \<Rightarrow> (string list \<times> string list) list \<Rightarrow> string list \<Rightarrow> bool" where
  "tiles f g old ls i ps rest \<longleftrightarrow>
     drop i ls = woven ps rest \<and> length ps = length (windows_from old (map f ls) i)
     \<and> (\<forall>hit\<in>set (map snd ps). map f hit = old)
     \<and> foldr (\<lambda>s xs. splice_lines s (s + length old) (g (ls ! s)) xs) (windows_from old (map f ls) i) ls
       = take i ls @ woven (map (apsnd (\<lambda>hit. g (hd hit))) ps) rest"

lemma tiles_hit:
  assumes "tiles f g old ls (i + length old) ps rest" "i + length old \<le> length ls" "take (length old) (drop i (map f ls)) = old" "old \<noteq> []"
  shows "tiles f g old ls i (([], take (length old) (drop i ls)) # ps) rest"
proof -
  let ?n = "length old" and ?h = "take (length old) (drop i ls)"
  have w: "windows_from old (map f ls) i = i # windows_from old (map f ls) (i + ?n)"
    using assms(2-4) by (subst windows_from.simps) simp
  have "drop i ls = ?h @ drop (i + ?n) ls" by (metis add.commute append_take_drop_id drop_drop)
  moreover have "map f ?h = old" using assms(3) by (simp add: take_map drop_map)
  moreover have "i < length ls" using assms(2,4) by (cases old) simp_all
  then have "hd ?h = ls ! i" using assms(4) by (simp add: hd_take hd_drop_conv_nth)
  moreover have "splice_lines i (i + ?n) r (take (i + ?n) ls @ xs) = take i ls @ r @ xs" for r xs
    using assms(2) by (simp add: splice_lines_def min_absorb1)
  ultimately show ?thesis using assms(1) unfolding tiles_def w by simp
qed

lemma tiles_miss:
  assumes "tiles f g old ls (Suc i) ps rest" "i < length ls" "take (length old) (drop i (map f ls)) \<noteq> old" "i + length old \<le> length ls" "old \<noteq> []"
  shows "\<exists>ps' rest'. tiles f g old ls i ps' rest'"
proof -
  have w: "windows_from old (map f ls) i = windows_from old (map f ls) (Suc i)"
    using assms(3-5) by (subst windows_from.simps) simp
  obtain ps' rest' where ps': "ls ! i # woven ps rest = woven ps' rest'" "length ps' = length ps" "map snd ps' = map snd ps"
    "\<forall>h. ls ! i # woven (map (apsnd h) ps) rest = woven (map (apsnd h) ps') rest'" using woven_Cons [of "ls ! i" ps rest] by blast
  have "drop i ls = woven ps' rest'" using ps'(1) assms(1,2) unfolding tiles_def by (metis Cons_nth_drop_Suc)
  moreover have "take i ls @ ls ! i # xs = take (Suc i) ls @ xs" for xs using assms(2) by (simp add: take_Suc_conv_app_nth)
  ultimately have "tiles f g old ls i ps' rest'"
    using assms(1) unfolding tiles_def w ps'(2,3) ps'(4) [rule_format, symmetric] by metis
  then show ?thesis by blast
qed

lemma windows_tile:
  assumes "old \<noteq> []"
  shows "i \<le> length ls \<Longrightarrow> \<exists>ps rest. tiles f g old ls i ps rest"
proof (induction "Suc (length ls) - i" arbitrary: i rule: less_induct)
  case less
  let ?n = "length old"
  have n: "0 < ?n" using assms by simp
  have step: "0 < k \<Longrightarrow> i + k \<le> length ls \<Longrightarrow> \<exists>ps rest. tiles f g old ls (i + k) ps rest" for k
    by (rule less.hyps) simp_all
  consider (past) "\<not> i + ?n \<le> length ls" | (hit) "i + ?n \<le> length ls" "take ?n (drop i (map f ls)) = old"
    | (miss) "i + ?n \<le> length ls" "take ?n (drop i (map f ls)) \<noteq> old" by blast
  then show ?case
  proof cases
    case past
    then have "windows_from old (map f ls) i = []" by (subst windows_from.simps) simp
    then have "tiles f g old ls i [] (drop i ls)" by (simp add: tiles_def)
    then show ?thesis by blast
  next
    case hit
    then show ?thesis using step [OF n] tiles_hit assms by blast
  next
    case miss
    then have "i < length ls" using n by linarith
    then show ?thesis using step [of 1] tiles_miss [OF _ _ miss(2,1) assms] by auto
  qed
qed

section \<open>Indentation\<close>

lemma set_str_trim: "set (str_trim s) \<subseteq> set s"
proof
  fix c assume "c \<in> set (str_trim s)"
  then obtain q where "c \<in> set q" "q \<in> set (char_pieces s)"
    by (auto simp: str_trim_def dest!: set_dropWhileD)
  then have "c \<in> set (concat (char_pieces s))" by (simp only: set_concat) blast
  then show "c \<in> set s" by (simp only: concat_pieces)
qed

lemma str_trim_last: "str_trim s \<noteq> [] \<Longrightarrow> last (str_trim s) \<noteq> carriage_return"
proof
  let ?t = "str_trim s" and ?ps = "char_pieces (str_trim s)"
  assume t: "?t \<noteq> []" and cr: "last ?t = carriage_return"
  have ps: "?ps \<noteq> []" using t pieces_Nil by metis
  then have q: "last ?ps \<noteq> []" "list_all is_continuation (tl (last ?ps))" using cut_char_pieces [of ?t] by (auto simp: cut_pieces_def)
  have "?t = concat (butlast ?ps) @ last ?ps" using ps concat_pieces by (metis append_butlast_last_id concat_append concat.simps append_Nil2)
  then have "last (last ?ps) = carriage_return" using cr q(1) by (metis last_appendR)
  then have "last ?ps = [carriage_return]"
    using q by (cases "last ?ps"; cases "tl (last ?ps)" rule: rev_cases) (auto simp: is_continuation_def byte_of_def)
  moreover have "is_space [carriage_return]" by code_simp
  ultimately show False using trimmed_str_trim [of s] t by (simp add: trimmed_def)
qed

lemma str_lines_newline: "l \<in> set (str_lines s) \<Longrightarrow> newline \<notin> set l"
proof -
  assume "l \<in> set (str_lines s)"
  then obtain q where q: "q \<in> set (split_inclusive_newline s)" "l = strip_line_ending q" by (auto simp: str_lines_def)
  have "is_line x" if "line_list ls" "x \<in> set ls" for x ls using that by (induction ls) (auto simp: line_list_Cons)
  then have "newline \<notin> set (butlast q)" "q \<noteq> []" using q(1) line_list_split_inclusive by (auto simp: is_line_def)
  then show ?thesis unfolding q(2) strip_line_ending_def Let_def
    by (cases q rule: rev_cases) (auto dest: in_set_butlastD)
qed

lemma set_take_chars: "set (take_chars n s) \<subseteq> set s"
  using take_chars_prefix [of n s] set_mono_prefix by metis

lemma reanchored_bare:
  "newline \<notin> set w \<Longrightarrow> l \<in> set (reanchored_replacement (str_lines new) w) \<Longrightarrow> bare_line l"
proof -
  assume w: "newline \<notin> set w" and "l \<in> set (reanchored_replacement (str_lines new) w)"
  then obtain q where q: "q \<in> set (str_lines new)" "l = reanchored_line (base_indent (str_lines new)) w q"
    by (auto simp: reanchored_replacement_def)
  have cut: "newline \<notin> set (take_chars i w)" "newline \<notin> set (take_chars j (take_chars i w))" for i j
    using w set_take_chars [of i w] set_take_chars [of j "take_chars i w"] by auto
  have "newline \<notin> set (str_trim q)" using set_str_trim [of q] str_lines_newline [OF q(1)] by auto
  then show ?thesis using str_trim_last [of q] cut unfolding q(2)
    by (auto simp: bare_line_def reanchored_line_def Let_def)
qed

section \<open>The tolerant tiers\<close>

lemma woven_bare:
  assumes "\<forall>l\<in>set (woven ps rest). bare_line l" "\<forall>hit\<in>set (map snd ps). hit \<noteq> []"
  shows "\<forall>l\<in>set (woven (map (apsnd (\<lambda>hit. reanchored_replacement (str_lines new) (hd hit))) ps) rest). bare_line l"
  using assms
proof (induction ps)
  case (Cons p ps)
  obtain kept hit where p: "p = (kept, hit)" by (cases p)
  have "newline \<notin> set (hd hit)" using Cons.prems p by (cases hit) (auto simp: bare_line_def)
  then show ?case using Cons p reanchored_bare [of "hd hit"] by auto
qed simp

abbreviation rewoven :: "string \<Rightarrow> (string list \<times> string list) list \<Rightarrow> string list \<Rightarrow> string list" where
  "rewoven new ps rest \<equiv> woven (map (apsnd (\<lambda>hit. reanchored_replacement (str_lines new) (hd hit))) ps) rest"

lemma normalized_replaced:
  assumes "try_normalized_replace normal content old new every = Some (t, n)" "\<forall>l\<in>set (str_lines content). bare_line l"
  obtains ps rest where "str_lines content = woven ps rest" "length ps = n" "0 < n" "every \<or> n = 1"
    "\<forall>hit\<in>set (map snd ps). map normal hit = map normal (str_lines old)"
    "t = file_text (eol_of content) (rewoven new ps rest) (ends_newline content \<and> \<not> blank_end (rewoven new ps rest))"
proof -
  let ?old = "map normal (str_lines old)" and ?ls = "str_lines content"
  let ?hits = "windows_from ?old (map normal ?ls) 0"
  have some: "?old \<noteq> []" "?hits \<noteq> []" "every \<or> length ?hits = 1" "n = length ?hits"
    "t = rejoined content (foldr (\<lambda>s xs. splice_lines s (s + length ?old) (reanchored_replacement (str_lines new) (?ls ! s)) xs) ?hits ?ls)"
    using assms(1) by (auto simp: try_normalized_replace_def Let_def split: if_split_asm simp: Suc_le_eq le_less not_less)
  obtain ps rest where ps: "?ls = woven ps rest" "length ps = length ?hits" "\<forall>hit\<in>set (map snd ps). map normal hit = ?old"
    "foldr (\<lambda>s xs. splice_lines s (s + length ?old) (reanchored_replacement (str_lines new) (?ls ! s)) xs) ?hits ?ls = rewoven new ps rest"
    using windows_tile [OF some(1), of 0 ?ls normal "reanchored_replacement (str_lines new)"] unfolding tiles_def by auto
  have ne: "\<forall>hit\<in>set (map snd ps). hit \<noteq> []" using ps(3) some(1) by auto
  from ps(1) assms(2) have "\<forall>l\<in>set (woven ps rest). bare_line l" by metis
  from rejoined_text [OF woven_bare [OF this ne]] show ?thesis
    using that [of ps rest] ps some by (simp only:) simp
qed

lemma anchored_replaced:
  assumes "try_block_anchor_replace content old new = Some (t, n)" "\<forall>l\<in>set (str_lines content). bare_line l"
  obtains kept hit rest where "str_lines content = woven [(kept, hit)] rest" "n = 1" "length hit = length (str_lines old)"
    "str_trim (hd hit) = str_trim (hd (str_lines old))" "str_trim (last hit) = str_trim (last (str_lines old))"
    "length (str_lines old) \<le> length (filter (\<lambda>k. str_trim (hit ! k) = str_trim (str_lines old ! k)) [0..<length hit]) + 1"
    "t = file_text (eol_of content) (rewoven new [(kept, hit)] rest) (ends_newline content \<and> \<not> blank_end (rewoven new [(kept, hit)] rest))"
proof -
  let ?old = "str_lines old" and ?ls = "str_lines content" and ?n = "length (str_lines old)"
  obtain s where s: "filter (anchored_at ?old ?ls) [0..<Suc (length ?ls) - ?n] = [s]" and n: "n = 1" "3 \<le> ?n"
    and t: "t = rejoined content (splice_lines s (s + ?n) (reanchored_replacement (str_lines new) (?ls ! s)) ?ls)"
    using assms(1) by (auto simp: try_block_anchor_replace_def Let_def split: if_split_asm list.split_asm)
  then have "s \<in> set (filter (anchored_at ?old ?ls) [0..<Suc (length ?ls) - ?n])" by simp
  then have at: "anchored_at ?old ?ls s" "s + ?n \<le> length ?ls" by auto
  let ?hit = "take ?n (drop s ?ls)"
  have nth: "?ls ! (s + k) = ?hit ! k" if "k < ?n" for k using that at(2) by simp
  have len: "length ?hit = ?n" using at(2) by simp
  have ne: "?hit \<noteq> []" using len n(2) by (metis list.size(3) not_numeral_le_zero)
  have p: "0 < ?n" "?n - 1 < ?n" "s + (?n - 1) = s + ?n - 1" using n(2) by linarith+
  have "hd ?hit = ?hit ! 0" "last ?hit = ?hit ! (?n - 1)" using hd_conv_nth [OF ne] last_conv_nth [OF ne] len by simp_all
  then have ends: "hd ?hit = ?ls ! s" "last ?hit = ?ls ! (s + ?n - 1)"
    using nth [OF p(1)] nth [OF p(2)] unfolding p(3) add_0_right by argo+
  have cut: "?ls = woven [(take s ?ls, ?hit)] (drop (s + ?n) ?ls)"
    by simp (metis add.commute append_take_drop_id drop_drop)
  have "\<forall>l\<in>set (woven [(take s ?ls, ?hit)] (drop (s + ?n) ?ls)). bare_line l" using assms(2) cut by metis
  moreover have "\<forall>hit\<in>set (map snd [(take s ?ls, ?hit)]). hit \<noteq> []" using len n(2) by auto
  moreover have "rewoven new [(take s ?ls, ?hit)] (drop (s + ?n) ?ls)
      = splice_lines s (s + ?n) (reanchored_replacement (str_lines new) (?ls ! s)) ?ls"
    unfolding splice_lines_def ends(1) [symmetric] by simp
  ultimately have "t = file_text (eol_of content) (rewoven new [(take s ?ls, ?hit)] (drop (s + ?n) ?ls))
      (ends_newline content \<and> \<not> blank_end (rewoven new [(take s ?ls, ?hit)] (drop (s + ?n) ?ls)))"
    using rejoined_text [OF woven_bare] t by metis
  moreover have "filter (\<lambda>k. str_trim (?ls ! (s + k)) = str_trim (?old ! k)) [0..<?n]
      = filter (\<lambda>k. str_trim (?hit ! k) = str_trim (?old ! k)) [0..<length ?hit]"
    unfolding len by (intro filter_cong) (auto simp: nth)
  moreover have "str_trim (hd ?hit) = str_trim (hd ?old)" "str_trim (last ?hit) = str_trim (last ?old)"
    "?n \<le> length (filter (\<lambda>k. str_trim (?ls ! (s + k)) = str_trim (?old ! k)) [0..<?n]) + 1"
    using at(1) unfolding anchored_at_def Let_def ends by blast+
  ultimately show ?thesis using that [OF cut n(1) len] by metis
qed

text \<open>How a window of the file agrees with the lines that were asked for.\<close>

definition agrees :: "edit_tier \<Rightarrow> string list \<Rightarrow> string list \<Rightarrow> bool" where
  "agrees tier old hit \<longleftrightarrow>
     (case tier of
        Exact \<Rightarrow> hit = old
      | Fuzzy \<Rightarrow> map str_trim hit = map str_trim old
      | Insensitive \<Rightarrow> map strip_interior_ws hit = map strip_interior_ws old
      | Anchored \<Rightarrow> length hit = length old \<and> str_trim (hd hit) = str_trim (hd old) \<and> str_trim (last hit) = str_trim (last old)
          \<and> length old \<le> length (filter (\<lambda>k. str_trim (hit ! k) = str_trim (old ! k)) [0..<length hit]) + 1)"

lemma tolerant_replaced:
  assumes "tolerant_edit lower a content = Inr (tier, n, t)" "\<forall>l\<in>set (str_lines content). bare_line l"
  shows "\<exists>ps rest. str_lines content = woven ps rest \<and> length ps = n \<and> 0 < n \<and> (n = 1 \<or> ea_all a \<and> tier \<noteq> Anchored)
    \<and> (\<forall>hit\<in>set (map snd ps). agrees tier (str_lines (ea_old a)) hit)
    \<and> t = file_text (eol_of content) (rewoven (ea_new a) ps rest) (ends_newline content \<and> \<not> blank_end (rewoven (ea_new a) ps rest))"
proof -
  consider (fuzzy) "tier = Fuzzy" "try_fuzzy_replace content (ea_old a) (ea_new a) (ea_all a) = Some (t, n)"
    | (ws) "tier = Insensitive" "try_whitespace_insensitive_replace content (ea_old a) (ea_new a) (ea_all a) = Some (t, n)"
    | (anchored) m where "tier = Anchored" "n = 1" "try_block_anchor_replace content (ea_old a) (ea_new a) = Some (t, m)"
    using assms(1) by (auto simp: tolerant_edit_def split: option.split_asm if_split_asm)
  then show ?thesis
  proof cases
    case fuzzy
    then show ?thesis unfolding try_fuzzy_replace_def
      by (elim normalized_replaced [OF _ assms(2)]) (auto simp: agrees_def)
  next
    case ws
    then show ?thesis unfolding try_whitespace_insensitive_replace_def
      by (elim normalized_replaced [OF _ assms(2)]) (auto simp: agrees_def)
  next
    case anchored
    from anchored_replaced [OF anchored(3) assms(2)] obtain kept hit rest where r:
      "str_lines content = woven [(kept, hit)] rest" "length hit = length (str_lines (ea_old a))"
      "str_trim (hd hit) = str_trim (hd (str_lines (ea_old a)))" "str_trim (last hit) = str_trim (last (str_lines (ea_old a)))"
      "length (str_lines (ea_old a)) \<le> length (filter (\<lambda>k. str_trim (hit ! k) = str_trim (str_lines (ea_old a) ! k)) [0..<length hit]) + 1"
      "t = file_text (eol_of content) (rewoven (ea_new a) [(kept, hit)] rest)
         (ends_newline content \<and> \<not> blank_end (rewoven (ea_new a) [(kept, hit)] rest))" .
    moreover have "agrees tier (str_lines (ea_old a)) hit" using r(2-5) anchored(1) by (simp add: agrees_def)
    ultimately show ?thesis using anchored(1,2) by (intro exI [of _ "[(kept, hit)]"] exI [of _ rest]) simp
  qed
qed

section \<open>Files with CRLF line ends\<close>

definition to_crlf :: "string \<Rightarrow> string" where
  "to_crlf s = concat (map (\<lambda>c. if c = newline then crlf else [c]) s)"

lemma to_crlf_simps [simp]:
  "to_crlf [] = []" "to_crlf (c # s) = (if c = newline then crlf else [c]) @ to_crlf s" "to_crlf (s @ t) = to_crlf s @ to_crlf t"
  by (simp_all add: to_crlf_def)

lemma to_crlf_Nil [simp]: "to_crlf s = [] \<longleftrightarrow> s = []"
  by (cases s) simp_all

lemma prefix_to_crlf:
  "carriage_return \<notin> set p \<Longrightarrow> carriage_return \<notin> set s \<Longrightarrow> prefix (to_crlf p) (to_crlf s) \<longleftrightarrow> prefix p s"
proof (induction p arbitrary: s)
  case (Cons c p)
  then show ?case by (cases s) auto
qed simp

lemma to_crlf_inject: "carriage_return \<notin> set p \<Longrightarrow> carriage_return \<notin> set s \<Longrightarrow> to_crlf p = to_crlf s \<longleftrightarrow> p = s"
  using prefix_to_crlf [of p s] prefix_to_crlf [of s p] by (metis prefix_order.eq_iff)

lemma find_to_crlf:
  assumes "p \<noteq> []" "carriage_return \<notin> set p"
  shows "carriage_return \<notin> set s \<Longrightarrow> find_str (to_crlf p) (to_crlf s) = map_option (\<lambda>i. length (to_crlf (take i s))) (find_str p s)"
proof (induction s)
  case Nil
  then show ?case using assms by simp
next
  case (Cons c s)
  have eq: "prefix (to_crlf p) (to_crlf (c # s)) \<longleftrightarrow> prefix p (c # s)" using prefix_to_crlf assms(2) Cons.prems by metis
  have "\<not> prefix (to_crlf p) (newline # x)" for x using assms(1) by (cases p) auto
  then show ?case using Cons eq by (auto simp: option.map_comp o_def)
qed

lemma split_to_crlf:
  assumes "p \<noteq> []" "carriage_return \<notin> set p"
  shows "carriage_return \<notin> set s \<Longrightarrow> str_split (to_crlf p) (to_crlf s) = map to_crlf (str_split p s)"
proof (induction "length s" arbitrary: s rule: less_induct)
  case less
  show ?case
  proof (cases "find_str p s")
    case None
    then have "find_str (to_crlf p) (to_crlf s) = None" using find_to_crlf [OF assms less.prems] by simp
    with None show ?thesis by (simp add: str_split_none find_str_None)
  next
    case (Some i)
    let ?r = "drop (i + length p) s"
    have s: "s = take i s @ p @ ?r" using find_str_cut [OF Some] .
    have i: "find_str (to_crlf p) (to_crlf s) = Some (length (to_crlf (take i s)))" using find_to_crlf [OF assms less.prems] Some by simp
    have "to_crlf s = to_crlf (take i s) @ to_crlf p @ to_crlf ?r" using s to_crlf_simps(3) by metis
    then have "take (length (to_crlf (take i s))) (to_crlf s) = to_crlf (take i s)"
      "drop (length (to_crlf (take i s)) + length (to_crlf p)) (to_crlf s) = to_crlf ?r" by simp_all
    then have "str_split (to_crlf p) (to_crlf s) = to_crlf (take i s) # str_split (to_crlf p) (to_crlf ?r)"
      using i assms(1) by (subst str_split.simps) (simp add: Let_def)
    moreover have "length ?r < length s" using find_str_bound [OF Some] assms(1) by (cases p) auto
    moreover have "carriage_return \<notin> set ?r" using less.prems by (metis in_set_dropD)
    ultimately have "str_split (to_crlf p) (to_crlf s) = to_crlf (take i s) # map to_crlf (str_split p ?r)"
      using less.hyps by simp
    then show ?thesis using Some assms(1) by (subst (2) str_split.simps) (simp add: Let_def)
  qed
qed

lemma join_to_crlf: "str_join (to_crlf r) (map to_crlf xs) = to_crlf (str_join r xs)"
proof (induction xs)
  case (Cons x xs)
  then show ?case by (cases "xs = []") (simp_all add: str_join_Cons)
qed simp

lemma to_crlf_before: "to_crlf s = u @ c # newline # v \<Longrightarrow> c = carriage_return"
  and to_crlf_hd: "to_crlf s \<noteq> newline # v"
proof (induction s arbitrary: u)
  case (Cons a s)
  { case 1
    then show ?case using Cons.IH(1) Cons.IH(2) by (cases u; cases "tl u"; cases "a = newline") (fastforce+)
  next
    case 2
    then show ?case by simp }
qed simp_all

lemma no_literal_match:
  assumes "carriage_return \<notin> set p" "newline \<in> set (tl p)"
  shows "\<not> sublist p (to_crlf s)"
proof
  assume "sublist p (to_crlf s)"
  then obtain u v where uv: "to_crlf s = u @ p @ v" by (auto simp: sublist_def)
  obtain x q where p: "p = x # q" "newline \<in> set q" using assms(2) by (cases p) auto
  then obtain y z where "q = y @ newline # z" by (meson split_list)
  then have "to_crlf s = (u @ butlast (x # y)) @ last (x # y) # newline # (z @ v)"
    using uv p(1) append_butlast_last_id [of "x # y"] by (metis append.assoc append_Cons append_Nil list.distinct(1))
  from to_crlf_before [OF this] have "carriage_return \<in> set (x # y)" by (metis last_in_set list.distinct(1))
  then show False using assms(1) p(1) \<open>q = y @ newline # z\<close> by auto
qed

lemma coerce_to_crlf: "carriage_return \<notin> set s \<Longrightarrow> coerce_eol s crlf = to_crlf s"
proof -
  assume cr: "carriage_return \<notin> set s"
  then have "\<not> sublist crlf s" by (auto simp: sublist_def)
  moreover have "map to_crlf (str_split [newline] s) = str_split [newline] s"
  proof (rule map_idI)
    fix x assume "x \<in> set (str_split [newline] s)"
    then have "\<not> sublist [newline] x" by (intro in_str_split) simp_all
    then have "newline \<notin> set x" using split_list [of newline x] by (auto simp: sublist_def)
    then show "to_crlf x = x" by (induction x) auto
  qed
  ultimately have "coerce_eol s crlf = str_join (to_crlf [newline]) (map to_crlf (str_split [newline] s))"
    by (simp add: coerce_eol_def str_replace_def str_split_none)
  then show ?thesis unfolding join_to_crlf by (simp add: str_join_split)
qed

lemma crlf_pair:
  assumes "carriage_return \<notin> set content" "carriage_return \<notin> set old" "carriage_return \<notin> set new" "newline \<in> set (tl old)"
    "sublist old content"
  shows "matched_pair (to_crlf content) old new = (to_crlf old, to_crlf new, matches_of old content)"
proof -
  have old: "old \<noteq> []" using assms(4) by auto
  have "matches_of old (to_crlf content) = 0" using matches_pos [OF old, of "to_crlf content"] no_literal_match [OF assms(2,4), of content] by simp
  moreover have "contains_str (to_crlf content) crlf"
  proof -
    have "newline \<in> set content" using assms(4,5) by (cases old) (auto simp: sublist_def)
    then obtain u v where "content = u @ newline # v" by (meson split_list)
    then have "to_crlf content = to_crlf u @ crlf @ to_crlf v" by simp
    then show ?thesis unfolding contains_str_iff sublist_def by blast
  qed
  ultimately show ?thesis
    using split_to_crlf [OF old assms(2,1)] by (simp add: matched_pair_def coerce_to_crlf assms matches_of_def)
qed

section \<open>The excerpt\<close>

lemma excerpt_cost_last: "start < e \<Longrightarrow> e \<le> length ls \<Longrightarrow> excerpt_cost ls start e = excerpt_cost ls start (e - 1) + line_cost (ls ! (e - 1))"
  by (cases e) (simp_all add: excerpt_cost_def take_Suc_conv_app_nth)

lemma excerpt_cost_first: "start < e \<Longrightarrow> e \<le> length ls \<Longrightarrow> excerpt_cost ls start e = line_cost (ls ! start) + excerpt_cost ls (Suc start) e"
  using Cons_nth_drop_Suc [of start "take e ls"] by (simp add: excerpt_cost_def flip: Cons_nth_drop_Suc)

lemma shrink_end_facts:
  "shrink_end ls c e used = (e', used') \<Longrightarrow> used = excerpt_cost ls start e \<Longrightarrow> start \<le> c \<Longrightarrow> c < e \<Longrightarrow> e \<le> length ls
   \<Longrightarrow> used' = excerpt_cost ls start e' \<and> c < e' \<and> e' \<le> e \<and> (used' \<le> MAX_EXCERPT_CHARS \<or> e' = Suc c)"
proof (induction ls c e used rule: shrink_end.induct)
  case (1 ls c e used)
  show ?case
  proof (cases "MAX_EXCERPT_CHARS < used \<and> Suc c < e")
    case True
    then have "shrink_end ls c (e - 1) (used - line_cost (ls ! (e - 1))) = (e', used')"
      using 1(2) by (subst (asm) shrink_end.simps) simp
    then show ?thesis using 1(1) [OF True] 1(3-6) True excerpt_cost_last [of start e ls] by fastforce
  next
    case False
    then show ?thesis using 1(2-6) by (subst (asm) shrink_end.simps) auto
  qed
qed

lemma shrink_start_facts:
  "shrink_start ls c start used = (s', used') \<Longrightarrow> used = excerpt_cost ls start e \<Longrightarrow> start \<le> c \<Longrightarrow> c < e \<Longrightarrow> e \<le> length ls
   \<Longrightarrow> used' = excerpt_cost ls s' e \<and> start \<le> s' \<and> s' \<le> c \<and> (used' \<le> MAX_EXCERPT_CHARS \<or> s' = c)
     \<and> (used \<le> MAX_EXCERPT_CHARS \<longrightarrow> used' \<le> MAX_EXCERPT_CHARS)"
proof (induction ls c start used rule: shrink_start.induct)
  case (1 ls c start used)
  show ?case
  proof (cases "MAX_EXCERPT_CHARS < used \<and> start < c")
    case True
    then have "shrink_start ls c (Suc start) (used - line_cost (ls ! start)) = (s', used')"
      using 1(2) by (subst (asm) shrink_start.simps) simp
    then show ?thesis using 1(1) [OF True] 1(3-6) True excerpt_cost_first [of start e ls] by fastforce
  next
    case False
    then show ?thesis using 1(2-6) by (subst (asm) shrink_start.simps) auto
  qed
qed

lemma current_text_window_facts:
  assumes "c < length ls" "line_cost (ls ! c) \<le> MAX_EXCERPT_CHARS"
  obtains s e where "current_text_window ls c n = Some (Suc s, e, str_join [newline] (drop s (take e ls)))"
    "s \<le> c" "c < e" "e \<le> length ls" "e - s \<le> MAX_EXCERPT_LINES" "excerpt_cost ls s e \<le> MAX_EXCERPT_CHARS"
proof -
  let ?seg = "min (max (n + 4) 8) MAX_EXCERPT_LINES" and ?s0 = "c - 2"
  let ?e0 = "min (?s0 + ?seg) (length ls)"
  have e0: "?s0 \<le> c" "c < ?e0" "?e0 \<le> length ls" "?e0 - ?s0 \<le> MAX_EXCERPT_LINES"
    using assms(1) by (auto simp: MAX_EXCERPT_LINES_def)
  obtain e u where e: "shrink_end ls c ?e0 (excerpt_cost ls ?s0 ?e0) = (e, u)" by force
  from shrink_end_facts [OF e refl e0(1-3)] have ef: "u = excerpt_cost ls ?s0 e" "c < e" "e \<le> ?e0" "u \<le> MAX_EXCERPT_CHARS \<or> e = Suc c" by auto
  obtain s v where s: "shrink_start ls c ?s0 u = (s, v)" by force
  have le: "e \<le> length ls" using ef(3) by simp
  from shrink_start_facts [OF s ef(1) e0(1) ef(2) le] have sf: "v = excerpt_cost ls s e" "?s0 \<le> s" "s \<le> c"
    "v \<le> MAX_EXCERPT_CHARS \<or> s = c" "u \<le> MAX_EXCERPT_CHARS \<longrightarrow> v \<le> MAX_EXCERPT_CHARS" by auto
  have "excerpt_cost ls c (Suc c) = line_cost (ls ! c)"
    using excerpt_cost_first [of c "Suc c" ls] assms(1) by (simp add: excerpt_cost_def)
  then have v: "v \<le> MAX_EXCERPT_CHARS" using sf(1,4,5) ef(4) assms(2) by metis
  have win: "current_text_window ls c n = Some (Suc s, e, str_join [newline] (drop s (take e ls)))"
    unfolding current_text_window_def Let_def e prod.case s using assms(1) assms(2) [THEN leD] v [THEN leD] by simp
  have "e - s \<le> MAX_EXCERPT_LINES" using e0(4) diff_le_mono [OF ef(3)] diff_le_mono2 [OF sf(2)] order.trans by metis
  from that [OF win sf(3) ef(2) le this v [unfolded sf(1)]] show ?thesis .
qed

lemma best_line_Some:
  "best_line lower wanted ls i best = Some (k, score) \<Longrightarrow>
     best = Some (k, score) \<or> i \<le> k \<and> k < i + length ls \<and> str_trim (ls ! (k - i)) \<noteq> []"
proof (induction lower wanted ls i best rule: best_line.induct)
  case (2 lower wanted l ls i best)
  then have "(if str_trim l \<noteq> [] \<and> (case best of None \<Rightarrow> True | Some (_, current) \<Rightarrow> current < common_prefix_chars wanted (lower (str_trim l)))
      then Some (i, common_prefix_chars wanted (lower (str_trim l))) else best) = Some (k, score)
    \<or> Suc i \<le> k \<and> k < Suc i + length ls \<and> str_trim (ls ! (k - Suc i)) \<noteq> []"
    by (simp add: Let_def)
  then show ?case
  proof
    assume k: "Suc i \<le> k \<and> k < Suc i + length ls \<and> str_trim (ls ! (k - Suc i)) \<noteq> []"
    then obtain j where "k = Suc (i + j)" by (metis add_Suc le_Suc_ex)
    then show ?thesis using k by simp
  qed (auto split: if_split_asm)
qed simp

lemma join_infix: "ys \<noteq> [] \<Longrightarrow> sublist (str_join sep ys) (str_join sep (xs @ ys @ zs))"
proof -
  assume ys: "ys \<noteq> []"
  have "sublist (str_join sep ys) (str_join sep (ys @ zs))"
    using ys by (cases "zs = []") (auto simp: str_join_append intro: sublist_appendI [of "[]", simplified])
  then show ?thesis using ys
    by (cases "xs = []") (auto simp: str_join_append sublist_append)
qed

text \<open>Lines of a file whose line ends are regular occur in it, with its line ends.\<close>

definition regular_file :: "string \<Rightarrow> bool" where
  "regular_file content \<longleftrightarrow> (\<forall>l\<in>set (str_lines content). bare_line l)
     \<and> content = file_text (eol_of content) (str_lines content) (ends_newline content)"

lemma excerpt_matches:
  assumes "regular_file content" "str_lines content = xs @ ys @ zs" "ys \<noteq> []" "str_join [newline] ys \<noteq> []"
  shows "case matched_pair content (str_join [newline] ys) new of (_, _, n) \<Rightarrow> 0 < n"
proof -
  have bare: "\<forall>l\<in>set ys. bare_line l" using assms(1,2) by (simp add: regular_file_def)
  have "sublist (str_join (eol_of content) ys) (file_text (eol_of content) (str_lines content) (ends_newline content))"
    unfolding file_text_def assms(2) using join_infix [OF assms(3)] by (metis sublist_append_leftI sublist_order.order.trans sublist_append_rightI)
  then have sub: "sublist (str_join (eol_of content) ys) content" using assms(1) by (simp add: regular_file_def)
  have "coerce_eol (str_join [newline] ys) (eol_of content) = str_join (eol_of content) ys"
    using coerce_joined [OF assms(3) bare] str_split_none [OF no_crlf [OF bare]] by (auto simp: eol_of_def coerce_eol_def str_replace_def)
  moreover have "str_join (eol_of content) ys \<noteq> []"
    using assms(3,4) by (cases ys; cases "tl ys") (auto simp: eol_of_def)
  ultimately show ?thesis using sub matches_pos
    by (auto simp: matched_pair_def Let_def eol_of_def [symmetric])
qed

section \<open>What stays on the disk\<close>

context file_system
begin

lemma write_effect:
  assumes "write_encoded_if_unchanged fs gb late p raw t enc w = (res, w')"
  obtains (refused) e where "res = Inl e" "\<forall>m. e \<noteq> Write_Failed m" "content w' = content w"
  | (written) bytes v where "content w p = Some raw" "encode_text gb enc t = Some bytes" "v = snd (read_op fs p w)"
      "w' = snd (write_op fs p bytes (late v))"
      "res = (case fst (write_op fs p bytes (late v)) of Inl m \<Rightarrow> Inl (Write_Failed m) | Inr _ \<Rightarrow> Inr ())"
proof -
  obtain got v where v: "read_op fs p w = (got, v)" by (cases "read_op fs p w")
  have c: "content v = content w" using read_content [of p w] v by simp
  show ?thesis
  proof (cases "got = Inr raw \<and> encode_text gb enc t \<noteq> None")
    case True
    then obtain bytes where b: "encode_text gb enc t = Some bytes" "got = Inr raw" by auto
    obtain out u where o': "write_op fs p bytes (late v) = (out, u)" by (cases "write_op fs p bytes (late v)")
    have "w' = snd (write_op fs p bytes (late v))"
      "res = (case fst (write_op fs p bytes (late v)) of Inl m \<Rightarrow> Inl (Write_Failed m) | Inr _ \<Rightarrow> Inr ())"
      using assms b v o' by (auto simp: write_encoded_if_unchanged_def write_encoded_def split: sum.split_asm)
    moreover have "content w p = Some raw" "v = snd (read_op fs p w)" using read_ok [of p w raw] v b(2) by simp_all
    ultimately show ?thesis using written b(1) by blast
  next
    case False
    then show ?thesis using assms refused v c
      by (cases got) (auto simp: write_encoded_if_unchanged_def write_encoded_def split: if_split_asm option.split_asm)
  qed
qed

text \<open>
  The tool ends in one of three ways: before anything is written and before the check, after the check
  refused, or with one write of the edited text to a file that had the bytes that were read when it was checked.
\<close>

lemma edit_file_effect:
  assumes "edit_file fs gb lower meanwhile late resolve (Inr a) w = (r, w')"
  obtains (early) e where "r = Inl e" "content w' = content w"
  | (refused) e where "r = Inl e" "\<forall>m. e \<noteq> Write_Failed m" "content w' = content (meanwhile (snd (read_op fs (resolve (ea_path a)) w)))"
  | (written) raw d tier n t bytes v where "content w (resolve (ea_path a)) = Some raw"
      "content (meanwhile (snd (read_op fs (resolve (ea_path a)) w))) (resolve (ea_path a)) = Some raw"
      "decode_for_edit gb (resolve (ea_path a)) raw = Some d" "edited lower a (df_text d) = Inr (tier, n, t)"
      "encode_text gb (df_encoding d) t = Some bytes" "ea_old a \<noteq> ea_new a"
      "v = snd (read_op fs (resolve (ea_path a)) (meanwhile (snd (read_op fs (resolve (ea_path a)) w))))"
      "w' = snd (write_op fs (resolve (ea_path a)) bytes (late v))"
      "r = (case fst (write_op fs (resolve (ea_path a)) bytes (late v)) of Inl m \<Rightarrow> Inl (Write_Failed m) | Inr _ \<Rightarrow> Inr (tier, n))"
proof -
  let ?p = "resolve (ea_path a)"
  obtain got w1 where got: "read_op fs ?p w = (got, w1)" by (cases "read_op fs ?p w")
  have c1: "content w1 = content w" using read_content [of ?p w] got by simp
  consider (checks) "ea_old a = ea_new a \<or> ea_old a = []" | (unread) e where "got = Inl e" "ea_old a \<noteq> ea_new a" "ea_old a \<noteq> []"
    | (read) raw where "got = Inr raw" "ea_old a \<noteq> ea_new a" "ea_old a \<noteq> []"
    by (cases got) auto
  then show ?thesis
  proof cases
    case checks
    then show ?thesis using assms early by (auto simp: edit_file_def Let_def split: if_split_asm)
  next
    case unread
    then show ?thesis using assms early c1 by (auto simp: edit_file_def got)
  next
    case (read raw)
    have raw: "content w ?p = Some raw" using read_ok [of ?p w raw] read(1) got by simp
    show ?thesis
    proof (cases "decode_for_edit gb ?p raw")
      case None
      then show ?thesis using assms early c1 read by (auto simp: edit_file_def got)
    next
      case (Some d)
      show ?thesis
      proof (cases "edited lower a (df_text d)")
        case (Inl e)
        then show ?thesis using assms early c1 read Some by (auto simp: edit_file_def got)
      next
        case (Inr x)
        obtain tier n t where x: "x = (tier, n, t)" by (cases x)
        obtain res u where u: "write_encoded_if_unchanged fs gb late ?p raw t (df_encoding d) (meanwhile w1) = (res, u)" by fastforce
        have r: "w' = u" "r = (case res of Inl e \<Rightarrow> Inl e | Inr _ \<Rightarrow> Inr (tier, n))"
          using assms read Some Inr x u by (auto simp: edit_file_def got split: sum.split_asm)
        from u show ?thesis
        proof (cases rule: write_effect)
          case refused
          then show ?thesis using that(2) r got by simp
        next
          case (written bytes v)
          have "r = (case fst (write_op fs ?p bytes (late v)) of Inl m \<Rightarrow> Inl (Write_Failed m) | Inr _ \<Rightarrow> Inr (tier, n))"
            unfolding r(2) written(5) by (cases "fst (write_op fs ?p bytes (late v))") simp_all
          moreover have "edited lower a (df_text d) = Inr (tier, n, t)" using Inr x by simp
          moreover have "snd (read_op fs ?p w) = w1" using got by simp
          ultimately show ?thesis using that(3) [OF raw _ Some _ written(2) read(2), of tier n v] written(1,3,4) r(1) by metis
        qed
      qed
    qed
  qed
qed

end

end
