(* ===== verification/Edit_Properties.thy ===== *)
theory Edit_Properties
  imports Edit_Laws
begin

text \<open>
  What \<open>edit_file\<close> promises: which text it replaces and what it leaves alone, in the file and on the disk,
  and where it falls short.
\<close>

section \<open>Exact edits\<close>

lemma edited_Exact:
  assumes "edited lower a content = Inr (Exact, n, t)"
  obtains old new where "matched_pair content (ea_old a) (ea_new a) = (old, new, matches_of old content)" "old \<noteq> []"
    "0 < matches_of old content" "n = 1 \<or> ea_all a" "n = matches_of old content" "old \<noteq> new" "t = str_replace old new content"
proof -
  obtain old new where pair: "matched_pair content (ea_old a) (ea_new a) = (old, new, matches_of old content)"
    by (cases "0 < matches_of (ea_old a) content") (auto simp: matched_pair_def Let_def)
  have tolerant: "tolerant_edit lower a content \<noteq> Inr (Exact, n, t)"
    by (auto simp: tolerant_edit_def split: option.split prod.split)
  have pos: "0 < matches_of old content" using assms tolerant by (auto simp: edited_def pair split: if_split_asm)
  then have ne: "old \<noteq> []" by auto
  have "\<not> (1 < matches_of old content \<and> \<not> ea_all a)" "old \<noteq> new"
    using assms pos by (auto simp: edited_def pair split: if_split_asm)
  moreover from this have "n = (if ea_all a then matches_of old content else 1)"
    "t = (if ea_all a then str_replace old new content else replace_first old new content)"
    using assms pos by (auto simp: edited_def pair)
  moreover have "\<not> ea_all a \<Longrightarrow> matches_of old content = 1" using calculation(1) pos by linarith
  ultimately show ?thesis using that [OF pair ne pos] replace_first_one [OF ne] by (cases "ea_all a") auto
qed

text \<open>
  C14. An exact edit replaces what it was asked to replace and nothing else. The file is cut at the
  occurrences of the old text (of the old text with the line ends of the file, where it does not occur as it
  stands), no piece between them contains it, and the new file has the same pieces around the new text; the
  number reported is the number of occurrences, and it is one unless all were asked for.
\<close>

theorem exact_edit_replaces_matches:
  assumes "edited lower a content = Inr (Exact, n, t)"
  shows "let old = (if contains_str content (ea_old a) \<and> ea_old a \<noteq> [] then ea_old a else coerce_eol (ea_old a) (eol_of content));
      new = (if contains_str content (ea_old a) \<and> ea_old a \<noteq> [] then ea_new a else coerce_eol (ea_new a) (eol_of content))
    in \<exists>pieces. content = str_join old pieces \<and> t = str_join new pieces \<and> length pieces = n + 1 \<and> 0 < n
      \<and> (n = 1 \<or> ea_all a) \<and> old \<noteq> new \<and> list_all (\<lambda>x. \<not> contains_str x old) pieces"
proof -
  from edited_Exact [OF assms] obtain old new where e: "matched_pair content (ea_old a) (ea_new a) = (old, new, matches_of old content)"
    "old \<noteq> []" "0 < matches_of old content" "n = 1 \<or> ea_all a" "n = matches_of old content" "old \<noteq> new" "t = str_replace old new content" .
  have "0 < matches_of (ea_old a) content \<longleftrightarrow> contains_str content (ea_old a) \<and> ea_old a \<noteq> []"
    using matches_pos [of "ea_old a" content] by (cases "ea_old a = []") (auto simp: contains_str_iff)
  then have "old = (if contains_str content (ea_old a) \<and> ea_old a \<noteq> [] then ea_old a else coerce_eol (ea_old a) (eol_of content))"
    "new = (if contains_str content (ea_old a) \<and> ea_old a \<noteq> [] then ea_new a else coerce_eol (ea_new a) (eol_of content))"
    using e(1) by (auto simp: matched_pair_def Let_def eol_of_def split: if_split_asm)
  moreover have "content = str_join old (str_split old content)" using str_join_split [OF e(2)] by simp
  moreover have "length (str_split old content) = n + 1" using e(3,5) by (simp add: matches_of_def)
  moreover have "list_all (\<lambda>x. \<not> contains_str x old) (str_split old content)"
    using in_str_split [OF e(2)] by (auto simp: list_all_iff contains_str_iff)
  ultimately show ?thesis using e unfolding str_replace_def Let_def by (intro exI [of _ "str_split old content"]) auto
qed

definition sample_edit :: edit_args where
  "sample_edit = \<lparr>ea_path = ''f'', ea_old = ''a'', ea_new = ''bb'', ea_all = False\<rparr>"

lemma sample_edited: "edited id sample_edit ''xay'' = Inr (Exact, 1, ''xbby'')"
  by (simp add: edited_def matched_pair_def matches_of_def str_split.simps replace_first_def sample_edit_def)

theorem exact_edit_replaces_matches_witness:
  "\<exists>pieces. ''xay'' = str_join ''a'' pieces \<and> ''xbby'' = str_join ''bb'' pieces \<and> length pieces = 2"
  using exact_edit_replaces_matches [OF sample_edited] by (auto simp: sample_edit_def Let_def)

section \<open>Tolerant edits\<close>

text \<open>
  C15. A tolerant edit replaces windows of whole lines and keeps the other lines. Where no line of the file ends
  in a stray carriage return, the file's lines are the windows that were hit, with kept lines between them;
  each window agrees with the old text line by line up to white space. (For the anchored tier there is only one
  window; it agrees with the old text in its first and its last line and in all lines but at most one, and that one line
  may be any.) The new file consists of the kept lines and, for
  each window, the new lines at the indentation of its first line, all of them with one line end, which
  is CRLF when the file has one anywhere. A last newline is kept, unless the last line is blank.
\<close>

theorem tolerant_edit_keeps_other_lines:
  assumes "edited lower a content = Inr (tier, n, t)" "tier \<noteq> Exact" "\<forall>l\<in>set (str_lines content). bare_line l"
  shows "\<exists>ps rest. str_lines content = woven ps rest \<and> length ps = n \<and> 0 < n \<and> (n = 1 \<or> ea_all a \<and> tier \<noteq> Anchored)
    \<and> (\<forall>hit\<in>set (map snd ps). agrees tier (str_lines (ea_old a)) hit)
    \<and> t = file_text (eol_of content) (rewoven (ea_new a) ps rest) (ends_newline content \<and> \<not> blank_end (rewoven (ea_new a) ps rest))"
proof (rule tolerant_replaced [OF _ assms(3)])
  show "tolerant_edit lower a content = Inr (tier, n, t)"
    using assms(1,2) by (auto simp: edited_def Let_def split: if_split_asm prod.split_asm)
qed

text \<open>An edit of two lines whose indentation differs from the file's.\<close>

definition sample_block :: edit_args where
  "sample_block = \<lparr>ea_path = ''f'', ea_old = ''alpha beta'' @ newline # ''gamma'', ea_new = ''delta'', ea_all = False\<rparr>"

definition sample_file :: "string \<Rightarrow> string" where
  "sample_file rest = ''  alpha beta'' @ newline # ''   gamma'' @ newline # rest"

lemma sample_trims:
  "str_trim ''  alpha beta'' = ''alpha beta''" "str_trim ''alpha beta'' = ''alpha beta''" "str_trim ''   gamma'' = ''gamma''"
  "str_trim ''gamma'' = ''gamma''" "str_trim ''last'' = ''last''" "str_trim [] = []" "str_trim ''delta'' = ''delta''"
  "str_trim ''x'' = ''x''" "str_trim ''y'' = ''y''"
  by (simp_all add: str_trim_def is_space_def is_whitespace_def byte_of_def is_continuation_def)

lemma sample_indented: "reanchored_replacement [''delta''] ''  alpha beta'' = [''  delta'']"
  by (simp add: reanchored_replacement_def reanchored_line_def base_indent_def sample_trims leading_ws_chars_def
      is_space_def is_whitespace_def byte_of_def is_continuation_def)

lemma sample_block_lines: "str_lines (ea_old sample_block) = [''alpha beta'', ''gamma'']" "str_lines (ea_new sample_block) = [''delta'']"
  by (simp_all add: sample_block_def str_lines_def strip_line_ending_def)

lemma sample_block_edited:
  assumes "str_lines content = ''  alpha beta'' # ''   gamma'' # rest" "\<not> contains_str content (ea_old sample_block)"
    "\<not> contains_str content (coerce_eol (ea_old sample_block) (eol_of content))"
    "windows_from [''alpha beta'', ''gamma''] (''alpha beta'' # ''gamma'' # map str_trim rest) 0 = [0]"
    "rejoined content (''  delta'' # rest) \<noteq> content"
  shows "edited id sample_block content = Inr (Fuzzy, 1, rejoined content (''  delta'' # rest))"
proof -
  have "snd (snd (matched_pair content (ea_old sample_block) (ea_new sample_block))) = 0"
    using assms(2,3) by (auto simp: matched_pair_def Let_def matches_of_def str_split_none contains_str_iff eol_of_def)
  moreover have "try_fuzzy_replace content (ea_old sample_block) (ea_new sample_block) (ea_all sample_block)
      = Some (rejoined content (''  delta'' # rest), 1)"
    using assms(4) unfolding try_fuzzy_replace_def try_normalized_replace_def assms(1) sample_block_lines Let_def
    by (simp add: sample_trims splice_lines_def sample_indented)
  ultimately show ?thesis using assms(5)
    by (cases "matched_pair content (ea_old sample_block) (ea_new sample_block)") (simp add: edited_def tolerant_edit_def)
qed

lemma sample_lines:
  "str_lines (sample_file (''last'' @ [newline])) = [''  alpha beta'', ''   gamma'', ''last'']"
  "str_lines (sample_file (''last'' @ [newline, newline])) = [''  alpha beta'', ''   gamma'', ''last'', []]"
  "str_lines (sample_file (''x'' @ crlf @ ''y'' @ [newline])) = [''  alpha beta'', ''   gamma'', ''x'', ''y'']"
  by (simp_all add: sample_file_def str_lines_def strip_line_ending_def)

lemma sample_eols:
  "eol_of (sample_file (''last'' @ [newline])) = [newline]" "eol_of (sample_file (''last'' @ [newline, newline])) = [newline]"
  "eol_of (sample_file (''x'' @ crlf @ ''y'' @ [newline])) = crlf"
  by (simp_all add: sample_file_def eol_of_def)

lemma sample_old: "coerce_eol (ea_old sample_block) [newline] = ea_old sample_block"
  "coerce_eol (ea_old sample_block) crlf = ''alpha beta'' @ crlf @ ''gamma''"
  by (simp_all add: sample_block_def coerce_eol_def str_replace_def str_split.simps)

lemma sample_no_match:
  "\<not> contains_str (sample_file (''last'' @ [newline])) (ea_old sample_block)"
  "\<not> contains_str (sample_file (''last'' @ [newline, newline])) (ea_old sample_block)"
  "\<not> contains_str (sample_file (''x'' @ crlf @ ''y'' @ [newline])) (ea_old sample_block)"
  "\<not> contains_str (sample_file (''x'' @ crlf @ ''y'' @ [newline])) (''alpha beta'' @ crlf @ ''gamma'')"
  by (simp_all add: sample_file_def sample_block_def)

lemma sample_rejoined:
  "rejoined (sample_file (''last'' @ [newline])) [''  delta'', ''last''] = ''  delta'' @ newline # ''last'' @ [newline]"
  "rejoined (sample_file (''last'' @ [newline, newline])) [''  delta'', ''last'', []] = ''  delta'' @ newline # ''last'' @ [newline]"
  "rejoined (sample_file (''x'' @ crlf @ ''y'' @ [newline])) [''  delta'', ''x'', ''y''] = ''  delta'' @ crlf @ ''x'' @ crlf @ ''y'' @ crlf"
  by (simp_all add: rejoined_def sample_file_def ends_newline_def coerce_eol_def str_replace_def str_split.simps)

lemma sample_changed:
  "''  delta'' @ newline # ''last'' @ [newline] \<noteq> sample_file (''last'' @ [newline])"
  "''  delta'' @ newline # ''last'' @ [newline] \<noteq> sample_file (''last'' @ [newline, newline])"
  "''  delta'' @ crlf @ ''x'' @ crlf @ ''y'' @ crlf \<noteq> sample_file (''x'' @ crlf @ ''y'' @ [newline])"
  by (simp_all add: sample_file_def)

lemma sample_edits:
  "edited id sample_block (sample_file (''last'' @ [newline])) = Inr (Fuzzy, 1, ''  delta'' @ newline # ''last'' @ [newline])"
  "edited id sample_block (sample_file (''last'' @ [newline, newline])) = Inr (Fuzzy, 1, ''  delta'' @ newline # ''last'' @ [newline])"
  "edited id sample_block (sample_file (''x'' @ crlf @ ''y'' @ [newline])) = Inr (Fuzzy, 1, ''  delta'' @ crlf @ ''x'' @ crlf @ ''y'' @ crlf)"
  using sample_block_edited [OF sample_lines(1) sample_no_match(1)] sample_block_edited [OF sample_lines(2) sample_no_match(2)]
    sample_block_edited [OF sample_lines(3) sample_no_match(3)] sample_no_match sample_changed
  unfolding sample_eols sample_old sample_rejoined by (simp_all add: sample_trims windows_from.simps)

theorem tolerant_edit_keeps_other_lines_witness:
  "\<exists>ps rest. [''  alpha beta'', ''   gamma'', ''last''] = woven ps rest \<and> length ps = 1
     \<and> (\<forall>hit\<in>set (map snd ps). agrees Fuzzy [''alpha beta'', ''gamma''] hit)"
proof -
  note lines = sample_lines(1) sample_block_lines(1)
  have "\<forall>l\<in>set (str_lines (sample_file (''last'' @ [newline]))). bare_line l" unfolding lines by (simp add: bare_line_def)
  from tolerant_edit_keeps_other_lines [OF sample_edits(1) _ this] show ?thesis unfolding lines by auto
qed

text \<open>
  A tolerant edit is not confined to its window. When the file ends with a blank line, the last newline is
  lost with an edit elsewhere in the file; and when the file has one CRLF among its line ends, every other
  line end becomes one, in lines that were not touched.
\<close>

lemma tolerant_edit_reaches_other_lines:
  "edited id sample_block (sample_file (''last'' @ [newline, newline])) = Inr (Fuzzy, 1, ''  delta'' @ newline # ''last'' @ [newline])
   \<and> edited id sample_block (sample_file (''x'' @ crlf @ ''y'' @ [newline]))
     = Inr (Fuzzy, 1, ''  delta'' @ crlf @ ''x'' @ crlf @ ''y'' @ crlf)"
  by (rule conjI; rule sample_edits)

text \<open>
  Two places where an exact edit does something else than the tool says: text that occurs twice, with an
  overlap, counts as unique; and a text of one line is found in a file with CRLF line ends as it stands,
  so that a replacement of several lines brings its bare newlines into the file.
\<close>

lemma overlapping_text_counts_as_unique:
  "edited id \<lparr>ea_path = ''f'', ea_old = ''}'' @ newline # ''}'', ea_new = ''}'', ea_all = False\<rparr> (''}'' @ newline # ''}'' @ newline # ''}'')
     = Inr (Exact, 1, ''}'' @ newline # ''}'')"
  by (simp add: edited_def matched_pair_def matches_of_def str_split.simps replace_first_def)

lemma single_line_edit_mixes_line_ends:
  "edited id \<lparr>ea_path = ''f'', ea_old = ''a'', ea_new = ''b'' @ newline # ''c'', ea_all = False\<rparr> (''a'' @ crlf @ ''d'' @ crlf)
     = Inr (Exact, 1, ''b'' @ newline # ''c'' @ crlf @ ''d'' @ crlf)"
  by (simp add: edited_def matched_pair_def matches_of_def str_split.simps replace_first_def)

section \<open>Line ends\<close>

text \<open>
  C16. With an old text of several lines a file with CRLF line ends is edited as the same file with plain line ends
  would be. When the plain file and both texts have no carriage returns, and the old text has a newline behind
  its first character and occurs in the plain file, the tool gives the same answer for both
  files, and the text it makes of the one is the text it makes of the other with its line ends converted. (For an old
  text of one line this fails, see \<open>single_line_edit_mixes_line_ends\<close>.)
\<close>

theorem crlf_file_is_edited_alike:
  assumes "carriage_return \<notin> set content" "carriage_return \<notin> set (ea_old a)" "carriage_return \<notin> set (ea_new a)"
    "newline \<in> set (tl (ea_old a))" "contains_str content (ea_old a)"
  shows "edited lower a (to_crlf content) = map_sum id (apsnd (apsnd to_crlf)) (edited lower a content)"
proof -
  let ?old = "ea_old a" and ?new = "ea_new a"
  have old: "?old \<noteq> []" using assms(4) by auto
  have pos: "0 < matches_of ?old content" using assms(5) matches_pos [OF old] by (simp add: contains_str_iff)
  have plain: "matched_pair content ?old ?new = (?old, ?new, matches_of ?old content)" using pos by (simp add: matched_pair_def)
  have conv: "matched_pair (to_crlf content) ?old ?new = (to_crlf ?old, to_crlf ?new, matches_of ?old content)"
    using crlf_pair [OF assms(1-4)] assms(5) by (simp add: contains_str_iff)
  have "str_replace (to_crlf ?old) (to_crlf ?new) (to_crlf content) = to_crlf (str_replace ?old ?new content)"
    by (simp add: str_replace_def split_to_crlf [OF old assms(2,1)] join_to_crlf)
  moreover have "matches_of (to_crlf ?old) (to_crlf content) = matches_of ?old content"
    by (simp add: matches_of_def split_to_crlf [OF old assms(2,1)])
  moreover have "matches_of ?old content = 1 \<Longrightarrow>
      replace_first (to_crlf ?old) (to_crlf ?new) (to_crlf content) = to_crlf (replace_first ?old ?new content)"
    using calculation old by (simp add: replace_first_one)
  ultimately show ?thesis using pos to_crlf_inject [OF assms(2,3)]
    by (cases "matches_of ?old content = 1") (auto simp: edited_def plain conv)
qed

definition sample_lines_edit :: edit_args where
  "sample_lines_edit = \<lparr>ea_path = ''f'', ea_old = ''a'' @ newline # ''b'', ea_new = ''c'' @ newline # ''d'', ea_all = False\<rparr>"

theorem crlf_file_is_edited_alike_witness:
  "edited id sample_lines_edit (''xa'' @ crlf @ ''b'') = Inr (Exact, 1, ''xc'' @ crlf @ ''d'')"
proof -
  have "edited id sample_lines_edit (''xa'' @ newline # ''b'') = Inr (Exact, 1, ''xc'' @ newline # ''d'')"
    by (simp add: edited_def matched_pair_def matches_of_def str_split.simps replace_first_def sample_lines_edit_def)
  then show ?thesis
    using crlf_file_is_edited_alike [of "''xa'' @ newline # ''b''" sample_lines_edit id] by (simp add: sample_lines_edit_def)
qed

section \<open>On the disk\<close>

text \<open>
  C13. The tool writes one file, and only after it found it unchanged. Whatever the disk does, and whatever other
  programs do to it between the reading and the check and between the check and the write: the tool changes no
  file but the edited one; an answer that reports an error, other than a failed write, means that the tool wrote
  nothing; otherwise the file had, when it was read a second time, the bytes that were read first, the edit
  was made on their text, and if the disk works from then on, the file holds the edited text in the encoding it
  had, and the tool reports success. A change that another program makes to the file after the check is
  overwritten: the theorem names the disk as that program left it.
\<close>

theorem edit_never_overwrites_unread:
  assumes "edit_file disk_ops gb lower meanwhile late resolve (Inr a) d = (r, d')"
  shows "let p = resolve (ea_path a); between = meanwhile (snd (disk_read p d)); found = late (snd (disk_read p between))
    in (files d' = files d \<or> files d' = files between) \<and> (\<exists>e. r = Inl e)
     \<or> (\<exists>raw dec tier n t bytes. files d p = Some raw \<and> files between p = Some raw \<and> decode_for_edit gb p raw = Some dec
          \<and> edited lower a (df_text dec) = Inr (tier, n, t) \<and> encode_text gb (df_encoding dec) t = Some bytes
          \<and> (r = Inr (tier, n) \<or> (\<exists>m. r = Inl (Write_Failed m)))
          \<and> (\<exists>left. files d' = (files found)(p := left))
          \<and> (script found = [] \<longrightarrow> r = Inr (tier, n) \<and> files d' = (files found)(p \<mapsto> bytes)))"
  using assms
proof (cases rule: local_disk.edit_file_effect)
  case (written raw dec tier n t bytes v)
  let ?p = "resolve (ea_path a)" and ?between = "meanwhile (snd (disk_read (resolve (ea_path a)) d))"
  let ?found = "late v"
  have v: "v = snd (disk_read ?p ?between)" using written(7) by (simp add: disk_ops_def)
  have w: "d' = snd (disk_write ?p bytes ?found)"
    "r = (case fst (disk_write ?p bytes ?found) of Inl m \<Rightarrow> Inl (Write_Failed m) | Inr _ \<Rightarrow> Inr (tier, n))"
    using written(8,9) by (simp_all add: disk_ops_def)
  have "\<exists>left. files d' = (files ?found)(?p := left)"
    unfolding w(1) disk_write_def next_outcome_def
    by (auto split: list.split outcome.split intro: exI [of _ "files ?found ?p"])
  moreover have "script ?found = [] \<Longrightarrow> r = Inr (tier, n) \<and> files d' = (files ?found)(?p \<mapsto> bytes)"
    unfolding w by (simp add: disk_write_def next_outcome_def)
  moreover have "r = Inr (tier, n) \<or> (\<exists>m. r = Inl (Write_Failed m))" unfolding w(2) by (auto split: sum.split)
  ultimately show ?thesis using written(1-5) unfolding v by (auto simp: Let_def disk_ops_def)
qed (auto simp: Let_def disk_ops_def)

definition sample_disk_f :: "string \<Rightarrow> disk" where
  "sample_disk_f b = \<lparr>files = [[''f''] \<mapsto> b], links = Map.empty, script = []\<rparr>"

definition sample_gb :: gb_codec where
  "sample_gb = \<lparr>gb_decode = (\<lambda>_. None), gb_encode = (\<lambda>_. None)\<rparr>"

lemma edit_on_quiet_disk:
  assumes "script d = []" "files d (resolve (ea_path a)) = Some raw" "utf8_bytes (map byte_of raw)"
    "edited lower a raw = Inr (tier, n, t)" "ea_old a \<noteq> ea_new a" "ea_old a \<noteq> []"
  shows "edit_file disk_ops gb lower id id resolve (Inr a) d
      = (Inr (tier, n), d\<lparr>files := (files d)(resolve (ea_path a) \<mapsto> t)\<rparr>)"
  using assms
  by (simp add: edit_file_def Let_def disk_ops_def disk_read_def disk_write_def next_outcome_def decode_for_edit_def
      write_encoded_if_unchanged_def write_encoded_def encode_text_def)

lemma sample_run:
  "edit_file disk_ops gb id id id parts_of (Inr sample_edit) (sample_disk_f ''xay'') = (Inr (Exact, 1), sample_disk_f ''xbby'')"
  by (subst edit_on_quiet_disk [OF _ _ _ sample_edited])
    (simp_all add: sample_disk_f_def sample_edit_def parts_of_def byte_of_def)

theorem edit_never_overwrites_unread_witness:
  "\<exists>bytes. files (sample_disk_f ''xbby'') = (files (sample_disk_f ''xay''))([''f''] \<mapsto> bytes)"
  using edit_never_overwrites_unread [OF sample_run [of sample_gb]]
  by (auto simp: sample_disk_f_def sample_edit_def parts_of_def Let_def disk_read_def next_outcome_def)

section \<open>Undoing\<close>

lemma one_in_filter: "length (filter P xs) = 1 \<Longrightarrow> i \<in> set xs \<Longrightarrow> P i \<Longrightarrow> j \<in> set xs \<Longrightarrow> P j \<Longrightarrow> i = j"
proof -
  assume "length (filter P xs) = 1" and ij: "i \<in> set xs" "P i" "j \<in> set xs" "P j"
  then obtain k where k: "filter P xs = [k]" by (auto simp: length_Suc_conv)
  have "i \<in> set (filter P xs)" "j \<in> set (filter P xs)" using ij by simp_all
  then show ?thesis by (simp add: k del: set_filter)
qed

lemma edited_back:
  assumes "\<not> ea_all a" "contains_str content (ea_old a)" "ea_old a \<noteq> []" "ea_new a \<noteq> []"
    "edited lower a content = Inr (Exact, n, t)" "length (filter (\<lambda>i. prefix (ea_new a) (drop i t)) [0..<length t]) = 1"
  shows "edited lower (a\<lparr>ea_old := ea_new a, ea_new := ea_old a\<rparr>) t = Inr (Exact, 1, content)"
proof -
  let ?old = "ea_old a" and ?new = "ea_new a"
  have pos: "0 < matches_of ?old content" using assms(2,3) matches_pos by (simp add: contains_str_iff)
  then have pair: "matched_pair content ?old ?new = (?old, ?new, matches_of ?old content)" by (simp add: matched_pair_def)
  from edited_Exact [OF assms(5)] have one: "matches_of ?old content = 1" and ne: "?old \<noteq> ?new" and t: "t = str_replace ?old ?new content"
    using pair assms(1) by force+
  obtain x y where "str_split ?old content = [x, y]"
    using one by (cases "str_split ?old content") (auto simp: matches_of_def length_Suc_conv)
  then have cut: "content = x @ ?old @ y" "t = x @ ?new @ y"
    using str_join_split [OF assms(3), of content] t by (simp_all add: str_replace_def)
  have only: "i = length x" if "prefix ?new (drop i t)" "i < length t" for i
  proof -
    have "prefix ?new (drop (length x) t)" "length x < length t" using cut(2) assms(4) by simp_all
    then show ?thesis using one_in_filter [OF assms(6)] that by simp
  qed
  have "sublist ?new t" using cut(2) by auto
  then obtain i where i: "find_str ?new t = Some i" using find_str_None [of ?new t] by auto
  have "i < length t" using find_str_bound [OF i] assms(4) by (cases ?new) auto
  then have at: "i = length x" using only find_str_Some [OF i] by simp
  have "\<not> sublist ?new y"
  proof
    assume "sublist ?new y"
    then obtain u v where "y = u @ ?new @ v" by (auto simp: sublist_def)
    then have "prefix ?new (drop (length (x @ ?new @ u)) t)" "length (x @ ?new @ u) < length t" using cut(2) assms(4) by simp_all
    then show False using only assms(4) by fastforce
  qed
  then have "str_split ?new t = [x, y]"
    using i at cut(2) assms(4) by (subst str_split.simps) (simp add: Let_def str_split_none)
  then show ?thesis
    using ne assms(1) i at cut by (simp add: edited_def matched_pair_def matches_of_def replace_first_def)
qed

text \<open>
  C17. A literal edit of a UTF-8 file can be undone. When, on a disk on which nothing goes wrong and nobody else
  writes, an edit replaced the one occurrence of its old text as it stands, the file is UTF-8 before and after, and
  the new text stands at exactly one place of the new file, then the edit with the two texts exchanged brings back
  the file, byte for byte. (Where the old text was found only with the line ends of the file, or in a file in
  GB18030, the way back may choose other line ends or another encoding.)
\<close>

theorem edit_undone_by_exchange:
  assumes "\<not> ea_all a" "ea_old a \<noteq> []" "ea_new a \<noteq> []" "ea_old a \<noteq> ea_new a"
    and disk: "script d = []" "files d (resolve (ea_path a)) = Some raw" "utf8_bytes (map byte_of raw)"
    and ran: "edited lower a raw = Inr (Exact, n, t)" "contains_str raw (ea_old a)" "utf8_bytes (map byte_of t)"
      "length (filter (\<lambda>i. prefix (ea_new a) (drop i t)) [0..<length t]) = 1"
  shows "let (r, d') = edit_file disk_ops gb lower id id resolve (Inr a) d
    in r = Inr (Exact, n)
       \<and> edit_file disk_ops gb lower id id resolve (Inr (a\<lparr>ea_old := ea_new a, ea_new := ea_old a\<rparr>)) d' = (Inr (Exact, 1), d)"
proof -
  let ?p = "resolve (ea_path a)" and ?undo = "a\<lparr>ea_old := ea_new a, ea_new := ea_old a\<rparr>"
  let ?d = "d\<lparr>files := (files d)(?p \<mapsto> t)\<rparr>"
  have there: "edit_file disk_ops gb lower id id resolve (Inr a) d = (Inr (Exact, n), ?d)"
    using disk ran(1) assms(4,2) by (intro edit_on_quiet_disk)
  have "edit_file disk_ops gb lower id id resolve (Inr ?undo) ?d
      = (Inr (Exact, 1), ?d\<lparr>files := (files ?d)(resolve (ea_path ?undo) \<mapsto> raw)\<rparr>)"
    using edited_back [OF assms(1) ran(2) assms(2,3) ran(1,4)] disk(1) ran(3) assms
    by (intro edit_on_quiet_disk) simp_all
  moreover have "?d\<lparr>files := (files ?d)(resolve (ea_path ?undo) \<mapsto> raw)\<rparr> = d" using disk(2) by (simp add: fun_upd_idem)
  ultimately show ?thesis by (simp add: there)
qed

theorem edit_undone_by_exchange_witness:
  "edit_file disk_ops sample_gb id id id parts_of (Inr (sample_edit\<lparr>ea_old := ''bb'', ea_new := ''a''\<rparr>)) (sample_disk_f ''xbby'')
     = (Inr (Exact, 1), sample_disk_f ''xay'')"
  using edit_undone_by_exchange [of sample_edit "sample_disk_f ''xay''" parts_of "''xay''" id 1 "''xbby''" sample_gb] sample_run [of sample_gb]
    sample_edited
  by (simp add: sample_disk_f_def sample_edit_def parts_of_def byte_of_def upt_rec)

section \<open>What a failed edit says\<close>

text \<open>
  C18. What a failed edit quotes can be edited. When nothing matches and the answer quotes the file around its closest
  line, the quotation consists of lines of the file, that line among them, is at most 40 lines and 2000
  characters long, and, in a file with regular line ends, an edit whose old text is the quotation finds it.
\<close>

theorem excerpt_can_be_edited:
  assumes "closest_match_hint lower content old = Closest line shown (Some (first, final, excerpt))"
  shows "\<exists>xs ys zs. str_lines content = xs @ ys @ zs \<and> excerpt = str_join [newline] ys \<and> first = length xs + 1 \<and> final = length (xs @ ys)
      \<and> first \<le> line \<and> line \<le> final \<and> length ys \<le> 40 \<and> sum_list (map (\<lambda>l. char_count l + 1) ys) \<le> 2000
      \<and> (regular_file content \<longrightarrow> (case matched_pair content excerpt new of (_, _, n) \<Rightarrow> 0 < n))"
proof -
  let ?all = "str_lines content"
  let ?ls = "take (MAX_SCAN_LINES + MAX_EXCERPT_LINES) ?all"
  obtain i score wanted where best: "best_line lower wanted (take MAX_SCAN_LINES ?ls) 0 None = Some (i, score)"
    and i: "line = Suc i" "current_text_window ?ls i (length (str_lines old)) = Some (first, final, excerpt)"
    using assms by (auto simp: closest_match_hint_def Let_def split: if_split_asm option.split_asm)
  have in_ls: "i < length ?ls" "str_trim (?ls ! i) \<noteq> []" using best_line_Some [OF best] by auto
  then have "line_cost (?ls ! i) \<le> MAX_EXCERPT_CHARS" using i(2) by (auto simp: current_text_window_def split: if_split_asm)
  from current_text_window_facts [OF in_ls(1) this, of "length (str_lines old)"] obtain s e where
    w: "first = Suc s" "final = e" "excerpt = str_join [newline] (drop s (take e ?ls))" "s \<le> i" "i < e" "e \<le> length ?ls"
    "e - s \<le> MAX_EXCERPT_LINES" "excerpt_cost ?ls s e \<le> MAX_EXCERPT_CHARS" using i(2) by (metis option.inject prod.inject)
  let ?ys = "drop s (take e ?ls)"
  have le: "e \<le> length ?all" "take e ?ls = take e ?all" using w(6) by (simp_all add: min_def split: if_split_asm)
  have cut: "?all = take s ?all @ ?ys @ drop e ?all" unfolding le(2)
    using w(4,5) by (metis append.assoc append_take_drop_id less_imp_le order.trans take_drop take_take min.absorb1 min.commute)
  have "?ls ! i \<in> set ?ys" using w(4-6) by (auto simp: in_set_conv_nth intro!: exI [of _ "i - s"])
  moreover have "?ls ! i \<noteq> []" using in_ls(2) by (auto simp: str_trim_def)
  moreover have "x = []" if "str_join [newline] zs = []" "x \<in> set zs" for x zs using that by (cases zs; cases "tl zs") auto
  ultimately have "?ys \<noteq> []" "excerpt \<noteq> []" using w(3) by (metis list.set_cases list.distinct(1), metis)
  then have "regular_file content \<longrightarrow> (case matched_pair content excerpt new of (_, _, n) \<Rightarrow> 0 < n)"
    using excerpt_matches [OF _ cut] w(3) by simp
  moreover have "sum_list (map (\<lambda>l. char_count l + 1) ?ys) \<le> 2000" "length ?ys \<le> 40"
    using w(6-8) by (simp_all add: excerpt_cost_def line_cost_def [abs_def] MAX_EXCERPT_CHARS_def MAX_EXCERPT_LINES_def)
  ultimately show ?thesis using cut w(1-6) i(1) le(1)
    by (intro exI [of _ "take s ?all"] exI [of _ ?ys] exI [of _ "drop e ?all"]) auto
qed

lemma sample_words:
  "char_pieces ''alpha1'' = [''a'', ''l'', ''p'', ''h'', ''a'', ''1'']" "char_pieces ''alphax'' = [''a'', ''l'', ''p'', ''h'', ''a'', ''x'']"
  "str_trim ''alpha1'' = ''alpha1''" "str_trim ''alphax'' = ''alphax''" "char_count ''alphax'' = 6" "char_count ''alpha1'' = 6"
  "str_lines ''alphax'' = [''alphax'']" "str_lines (''alpha1'' @ [newline]) = [''alpha1'']"
  by (simp_all add: str_trim_def is_space_def is_whitespace_def byte_of_def is_continuation_def char_count_def str_lines_def
      strip_line_ending_def)

lemma sample_window: "current_text_window [''alpha1''] 0 1 = Some (1, 1, ''alpha1'')"
  by (simp add: current_text_window_def line_cost_def excerpt_cost_def sample_words MAX_EXCERPT_CHARS_def MAX_EXCERPT_LINES_def
    shrink_end.simps shrink_start.simps)

lemma take_chars_all: "char_count s \<le> n \<Longrightarrow> take_chars n s = s"
  by (induction n s rule: take_chars.induct) (auto simp: char_count_def split: nat.split if_split_asm)

lemma sample_hint: "closest_match_hint id (''alpha1'' @ [newline]) ''alphax'' = Closest 1 ''alpha1'' (Some (1, 1, ''alpha1''))"
proof -
  have "take (MAX_SCAN_LINES + MAX_EXCERPT_LINES) [''alpha1''] = [''alpha1'']" "take MAX_SCAN_LINES [''alpha1''] = [''alpha1'']"
    by (simp_all add: MAX_SCAN_LINES_def MAX_EXCERPT_LINES_def)
  moreover have "common_prefix_chars ''alphax'' ''alpha1'' = 5"
    by (simp add: common_prefix_chars_def sample_words del: char_pieces.simps)
  moreover have "take_chars 160 ''alpha1'' = ''alpha1''" by (simp add: take_chars_all sample_words)
  ultimately show ?thesis using sample_window unfolding closest_match_hint_def Let_def sample_words by (simp add: sample_words)
qed

theorem excerpt_can_be_edited_witness:
  "closest_match_hint id (''alpha1'' @ [newline]) ''alphax'' = Closest 1 ''alpha1'' (Some (1, 1, ''alpha1''))
   \<and> (case matched_pair (''alpha1'' @ [newline]) ''alpha1'' ''beta'' of (_, _, n) \<Rightarrow> 0 < n)"
proof -
  have "regular_file (''alpha1'' @ [newline])"
    unfolding regular_file_def sample_words by (simp add: bare_line_def file_text_def eol_of_def ends_newline_def)
  with excerpt_can_be_edited [OF sample_hint, of "''beta''"]
  have "case matched_pair (''alpha1'' @ [newline]) ''alpha1'' ''beta'' of (_, _, n) \<Rightarrow> 0 < n" by (elim exE conjE) (erule mp)
  then show ?thesis using sample_hint by simp
qed

end
