(* ===== verification/Spec2Isabelle.thy ===== *)
theory Spec2Isabelle
  imports Samples Tool_Properties Engine_Properties Session_Properties Compaction_Properties Edit_Properties
begin

text \<open>
  AtomCode is a coding agent written in Rust. This library models the parts of it that decide what
  the model is shown, what a turn may spend, how the product is put together out of plugins, and which
  calls may run and what they do to files.

  \<^bold>\<open>The program's parts.\<close> Three crates carry that logic. The kernel
  (\<open>src/crates/atomcode-kernel\<close>) holds conversations, the append-only session log, the projection of
  the log to the messages of a request, compaction of a conversation, pinned sources, the guards
  around a model stream, and the agent engine, whose loop sends a request, consumes the stream, runs the
  batch of tool calls that came on it and goes around. The plexus (\<open>src/crates/atomcode-plexus\<close>) is the plugin runtime: realms,
  services, an event bus, fibers that remember how to undo what a plugin did, a configuration tree
  of plugin rows, and the app that mounts the rows. Of the capabilities
  (\<open>src/crates/atomcode-capabilities\<close>), the patch tools, the edit tool, the permission rules and the
  compaction strategy are here.
  A turn writes events to the log; the projection reads them back as messages; compaction and pins act
  on both; the model's tool calls pass the permission rules; everything is reached through services that
  plugins provide through their contexts.

  \<^bold>\<open>Theories and sources.\<close>
  \<^item> \<open>Prelude\<close>: lemmas on lists, options and ordered maps, and the interfaces
    \<open>map_store\<close>, \<open>ordered_map\<close> and \<open>step_system\<close>; \<open>Floats\<close>: binary64 rounding of rationals for the
    one computation the code does in \<open>f64\<close>.
  \<^item> \<open>Stream_Model\<close> (\<open>stream.rs\<close>): token usage, provider errors, stream events.
  \<^item> \<open>Message\<close>, \<open>Conversation\<close>, \<open>Compaction\<close> (\<open>message.rs\<close>): the message type and its constructors; the
    conversation as a record, pairing repair, backfill after a cancel, folding of images; the sacred
    prefix, compaction plans, their preparation and commit, snapshots.
  \<^item> \<open>Session\<close>, \<open>Retention\<close>, \<open>Projection\<close> (\<open>session.rs\<close>, \<open>session_retention.rs\<close>): every event of the log
    with its fields, renumbering, rewinds, folds and undone turns; pinned sources and their validation;
    the projection state machine that holds a batch's results until the batch is complete.
    \<open>Projection_Laws\<close> and \<open>Log_Laws\<close> hold their theory.
  \<^item> \<open>Reasoning_Loop\<close> (\<open>reasoning_loop.rs\<close>), \<open>Recovery_Budget\<close> (\<open>provider/recovery_budget.rs\<close>): the
    detector of repeated reasoning with its Z array, and the shared retry budget with its 32-bit
    counter.
  \<^item> \<open>Realm\<close>, \<open>Service\<close>, \<open>Event_Bus\<close>, \<open>Fiber\<close>, \<open>Plexus_Context\<close> (\<open>realm.rs\<close>, \<open>service.rs\<close>, \<open>event.rs\<close>,
    \<open>fiber.rs\<close>, \<open>context.rs\<close>): one record per Rust struct, one definition per method; the root record
    is the state behind the \<open>Arc\<close>s and locks of the code. \<open>Plexus_Laws\<close> holds the invariant of the root
    and \<open>Reversibility\<close> the theory of unloading.
  \<^item> \<open>Loader\<close> (\<open>loader.rs\<close>): configuration rows, layers, the builder and the application of layers.
  \<^item> \<open>App\<close>, \<open>App_Laws\<close> (\<open>app.rs\<close>, \<open>plugin.rs\<close>): mounting by passes, waiting rows, patches, stopping.
  \<^item> \<open>Samples\<close>: concrete values at which the theorems are applied.
  \<^item> \<open>Str_Ops\<close>, \<open>Unified_Patch\<close>, \<open>Patch_Laws\<close>, \<open>Apply_Patch\<close>, \<open>Apply_Laws\<close>, \<open>Import_Apply\<close> (in
    \<open>src/crates/atomcode-capabilities/src\<close>: \<open>tools/unified_patch.rs\<close>, \<open>tools/apply_patch.rs\<close>, parts of
    \<open>world.rs\<close>): operations of \<open>str\<close>; parsing and applying a unified diff; the tools that import a patch and
    commit it to several files with rollback, on a file system given by the interface \<open>file_system\<close> and
    instantiated with a disk whose operations fail as a script says.
  \<^item> \<open>Wildcard\<close>, \<open>Permission_Rules\<close> (\<open>tools/permission_rules.rs\<close> and the helpers it calls in \<open>tools/bash.rs\<close>,
    \<open>tools/mod.rs\<close>, \<open>pathutil.rs\<close>): the pattern matcher, rules, rule sets and the decision about a call.
    \<open>Tool_Properties\<close> states what the two groups promise.
  \<^item> \<open>Edit_Match\<close>, \<open>Edit_File\<close> (\<open>tools/edit.rs\<close>, \<open>tools/encoding.rs\<close>): \<open>edit_file\<close>, the tool the model edits
    with: the exact search, the three tiers that tolerate drift and re-indent the replacement, what a failed edit
    quotes, the encodings, and the check before the write that the file has not changed, with what other programs do
    before and after that check. \<open>Edit_Laws\<close> holds the
    theory of splitting, joining, windows and line ends; \<open>Edit_Properties\<close> states what the tool promises.
  \<^item> \<open>Json\<close>, \<open>Engine_Policy\<close>, \<open>Policy_Laws\<close> (\<open>agent/engine.rs\<close> up to \<open>cap_tool_result\<close>, \<open>hook.rs\<close>): the pure
    decisions of the engine: identity of tool calls, the exact loop guard, filler and leaked markup in
    reasoning, retries and rate limits, windows and triggers of compaction, the cap on a tool result.
  \<^item> \<open>Tools\<close> (\<open>tool.rs\<close>, \<open>middleware.rs\<close>): the catalogue of tools, mounted snapshots, the chains of middleware.
  \<^item> \<open>Tool_Batch\<close>, \<open>Batch_Laws\<close>, \<open>Batch_Exec\<close> (\<open>run_turn\<close> of \<open>agent/engine.rs\<close>): a batch of tool calls.
    Phase 1 classifies (\<open>classify\<close>), phase 3 applies (\<open>apply_batch\<close>); phase 2, which executes concurrently under
    a semaphore and a lock, is the step relation \<open>exec_step\<close>.
  \<^item> \<open>Turn\<close>, \<open>Turn_Request\<close>, \<open>Turn_Loop\<close> (\<open>run_turn\<close> and the helpers it calls): the state of a turn, one
    definition for each piece of the loop's body, and the loop (\<open>round_step\<close>, \<open>run_turn\<close>). \<open>Turn_Laws\<close> counts the
    ways around the loop; \<open>Turn_History\<close> states what every push, compaction and cancel does to the stored
    history once, as the interface \<open>history_law\<close>, and lifts it to the turn; \<open>Turn_Pairing\<close> instantiates it with
    the pairing of calls and results; \<open>Turn_Replay\<close> is about the passes that are repeated. \<open>Engine_Samples\<close> holds
    concrete turns, \<open>Engine_Properties\<close> what the engine promises.
  \<^item> \<open>Requests\<close> (\<open>request.rs\<close>), \<open>Agent_Session\<close> (\<open>Agent::spawn\<close>, \<open>session_loop\<close>, \<open>process_send_message\<close>,
    \<open>drain_pending\<close> of \<open>agent/engine.rs\<close>): the broker of questions to the driver, and the session around the
    turns: the start from a snapshot, prompts, the commands served while a turn runs, the queue behind it.
    \<open>Turn_Events\<close> says what a pass emits and takes from the steering buffer; \<open>Session_Laws\<close> keeps the accounts of
    what is sent during a turn; \<open>Session_History\<close> carries the pairing of the history from turn to turn;
    \<open>Session_Properties\<close> states what a session promises.
  \<^item> \<open>Summary_Anchor\<close>, \<open>Compaction_Policy\<close> (\<open>src/crates/atomcode-capabilities/src/compaction.rs\<close>): the strategy
    the kernel asks for a compaction plan. The first has the transcript, the prompt for a summary, what is accepted of
    the answer, and the anchor under which a summary is stored and found; the second where a drain may cut, which
    tool results are folded or truncated, the ladder of \<open>OverflowCompaction\<close> and its prediction
    (\<open>will_summarize\<close>). \<open>Summary_Laws\<close> and \<open>Compaction_Policy_Laws\<close> hold their theory, down to what the kernel's
    \<open>apply_plan\<close> makes of such a plan; \<open>Compaction_Properties\<close> states what the strategy promises.

  \<^bold>\<open>Correspondence.\<close> A Rust struct is a record and an enum a datatype with the source's constructors.
  A method on \<open>&mut self\<close> takes the record and returns it updated; \<open>Result\<close> is a sum with the error on
  the left and \<open>Option\<close> is \<open>option\<close>. A \<open>BTreeMap\<close> is an association list kept in key order, a
  \<open>HashMap\<close> whose iteration order shows is a list, one that is only looked up is a map. A mutex makes
  a method one atomic step, so concurrent use is a sequence of steps in any order. Closures the code
  stores to undo an effect are data (\<open>effect\<close>, \<open>disposable\<close>) with an interpreter. Sequence numbers,
  realm, fiber and listener ids are natural numbers: the code's 64-bit counters are taken not to
  overflow. The attempt counter of the recovery budget is kept at 32 bits, and the token rescaling of
  compaction is computed with the rounding of binary64.

  \<^bold>\<open>Parameters.\<close> Code that is not in the repository is an argument: the SHA-256 digest of pinned
  sources, \<open>char::is_alphabetic\<close>, the TOML parser, the conversion of plugin options, the JSON parser,
  the codec of GB18030, \<open>str::to_lowercase\<close>, and
  the analysis of shell commands, which rests on a parser generator's grammar. The list of sensitive
  paths and the artifact store are arguments too. The provider that summarises is a function from prompts to the
  events of its stream, with the prompts it does not answer within the time limit. A plugin's \<open>apply\<close>
  is a function on the root; the theorems on mounting name what they ask of it (\<open>tame\<close>: it acts through
  its own context; \<open>dependable\<close>: it fills what it declares), and the witnesses instantiate it with
  plugins that provide, listen and fail. What other programs do to a file that is being edited is two functions on the
  disk, one for the time before the check and one for the time between check and write.

  \<^bold>\<open>The engine's environment.\<close> A pass of the agent loop is a function of a \<open>round_env\<close>, which holds what the
  code does not decide: what hooks make of the data they are handed, whether the stream opens and what
  arrives on it, when a cancel falls, the driver's answers, the plan of the compaction strategy, the clock,
  the jitter, and what phase 2 of a batch leaves. Theorems quantify over all of it and name what
  they ask. A turn is \<open>run_turn\<close> over a list of environments, one for each pass: it is still under way
  (\<open>Inl\<close>) or has ended with a reason (\<open>Inr\<close>). In a session, a \<open>pass\<close> adds the commands that are served beside
  the pass, in order; what the pass finds in the steering buffer is then computed, no longer given.

  \<^bold>\<open>Results.\<close>
  \<^item> \<open>Session_Properties\<close>: a session keeps its history accepted across turns, compactions and cancels, from
    whatever snapshot it starts, as long as no middleware blocks after an execution and no call id is used twice; ends
    every prompt whose turn comes to its end once; loses nothing that is sent during a turn; answers
    every question once; and resumes from its own snapshots without reusing a number.
  \<^item> \<open>Engine_Properties\<close>: a turn keeps the stored history one a provider accepts (under the same conditions; what a
    block after an execution does to a batch is a theorem of its own), returns within the product
    of its budgets where its round cap is hard, keeps what a compaction must keep, and is undone by a cancel; a replayed pass
    executes nothing; a batch executes equal calls once and nothing that was cut off or denied; its
    concurrent phase respects the cap and the lock at every moment, always comes to an end, and leaves one
    result for every call; the loop guard and the cap on results are exact.
  \<^item> \<open>Compaction_Properties\<close>: a drain cuts between batches and keeps what it says word for word; a summary that
    fails costs no dialogue; a summary is found again and updated by its body alone, and quoted it stays inside
    its quotation; the announcement of a slow compaction says exactly when the provider is asked, if there is one.
  \<^item> Conversations and the session log: pairing repair, the sacred prefix, compaction; rewinding restores
    the projection; what the projection shows and in which order; pinned sources reach the request.
  \<^item> Guards: the loop detector and the recovery budget.
  \<^item> Plugins: listeners come and go without a trace, and so does whatever a plugin does; layers refine edits
    of a map; mounting terminates, is the least fixed point of the declarations and cleans up after a
    failing row.
  \<^item> \<open>Edit_Properties\<close>: an edit replaces what was asked for and keeps the rest, with the file's line ends;
    a literal edit of UTF-8 text can be undone; the tool writes only after it found the file unchanged; what a failed
    edit quotes can be edited.
  \<^item> \<open>Tool_Properties\<close>: a patch stays below its directory, applies exactly and can be taken back; its commit is
    a transaction under every fault; import and apply compose; the pattern matcher against its reference;
    what an allowed call has earned.
  Some of these state where the code falls short of its own comments: \<open>renumber_breaks_rewind\<close>,
  \<open>dead_context_leaks\<close>, \<open>failed_patch_forgets_waiting_rows\<close>, \<open>deny_rule_misses_star\<close>, \<open>blocked_result_is_lost\<close>,
  \<open>stale_rollback_keeps_the_prompt\<close>, \<open>wide_stub_is_stubbed_again\<close>, \<open>announced_without_provider\<close>, \<open>insertion_joins_last_line\<close>,
  \<open>tolerant_edit_reaches_other_lines\<close>, \<open>overlapping_text_counts_as_unique\<close>, \<open>single_line_edit_mixes_line_ends\<close>.

  \<^bold>\<open>Termination and fuel.\<close> The walk up the realm tree is a partial function into \<open>option\<close>, shown to
  return under the realm invariant (a parent has a smaller id). Unloading a fiber recurses over its
  children with fuel one more than the next fiber id; under the root invariant every child has a larger
  id than its parent, so the fuel is never exhausted, and \<open>Reversibility\<close> proves that unloading returns.
  The passes of \<open>mount_all\<close> are a total function: a pass that makes progress shortens the list of rows.
  The loop of the pattern matcher is total by a lexicographic measure: the remembered star, the position
  to resume from and the current position only move forward. The way around the agent loop is bounded by
  a rank over its counters (\<open>pass_rank\<close>), which every pass that goes around lowers; a batch is bounded by the
  number of suspension points its futures have left (\<open>exec_measure\<close>).

  \<^bold>\<open>Not modelled.\<close> Serialisation (serde), rendering (\<open>dump\<close>, reports), clocks and randomness (they are
  arguments), and the crates that are input and output: providers' HTTP clients, tools that run
  processes, sessions on disk, the terminal interface, the daemon, command line, authentication, telemetry
  and updater. Of the engine, the builder, the one-shot runner, and a driver that hangs up in the middle of a
  turn (the code then drops the turn where it stands).
\<close>

section \<open>Conversations\<close>

text \<open>
  C25. \<open>repair_pairing\<close> makes any message list one a provider accepts: every tool result answers a
  call of the assistant message that opens its run, every call is answered exactly once, no result
  stands alone. It keeps every other message, in order, and a second repair changes nothing.
\<close>

theorem repair_pairing_correct:
  "well_paired (repair_pairing ms)
   \<and> filter (\<lambda>m. m_role m \<noteq> Tool) (repair_pairing ms) = filter (\<lambda>m. m_role m \<noteq> Tool) ms
   \<and> repair_pairing (repair_pairing ms) = repair_pairing ms"
  using well_paired_repair_pairing repair_pairing_keeps repair_pairing_well_paired by metis

text \<open>
  Backfilling after a cancel answers every open call, appends only, and on the batch a cancel
  leaves open gives what \<open>repair_pairing\<close> gives.
\<close>

lemma backfill_agrees_with_repair:
  assumes "c_messages c = ps @ m # run" and "well_paired ps"
    and "opens_batch m" and "tool_call_id m = None"
    and "\<forall>x\<in>set run. is_tool x" and "distinct (map tool_call_id run)"
    and "set (map tool_call_id run) \<subseteq> Some ` tc_id ` set (tool_calls m)"
    and "result_ids ps \<inter> tc_id ` set (tool_calls m) = {}"
  shows "c_messages (backfill_cancelled_tool_results c) = repair_pairing (c_messages c)
    \<and> prefix (c_messages c) (c_messages (backfill_cancelled_tool_results c))
    \<and> set (assistant_call_ids (c_messages (backfill_cancelled_tool_results c)))
        \<subseteq> result_ids (c_messages (backfill_cancelled_tool_results c))"
proof -
  have "prefix (c_messages c) (c_messages (backfill_cancelled_tool_results c))"
    by (simp add: backfill_cancelled_tool_results_def backfill_appends)
  then show ?thesis
    using backfill_eq_repair [OF assms] backfill_answers_every_call [of "''(cancelled)''" c]
    by (simp add: backfill_cancelled_tool_results_def)
qed

text \<open>
  Folding images to a byte budget drops the shortest prefix of the oldest images that makes the
  rest fit, keeps the others in order, and says whether none is left.
\<close>

lemma fold_images_minimal:
  "case fold_oldest_images_to_budget msgs budget of (msgs', folded, all_folded) \<Rightarrow>
     all_images msgs' = drop folded (all_images msgs)
     \<and> folded = (LEAST n. image_bytes (drop n (all_images msgs)) \<le> budget)
     \<and> (all_folded \<longleftrightarrow> all_images msgs \<noteq> [] \<and> folded = length (all_images msgs))"
  using fold_images_spec [of msgs budget] by (cases "fold_oldest_images_to_budget msgs budget") auto

text \<open>
  The sacred prefix of a conversation (what compaction must not touch) is within the list, ends
  at a message that neither is nor awaits a tool result, and, when the user has said anything, ends
  with what the user said last.
\<close>

lemma sacred_floor_correct:
  "sacred_floor msgs \<le> length msgs \<and> closed_prefix (take (sacred_floor msgs) msgs)
   \<and> ((\<exists>m\<in>set msgs. m_role m = User \<and> \<not> synthetic m) \<longrightarrow>
        take (sacred_floor msgs) msgs \<noteq> [] \<and> m_role (last (take (sacred_floor msgs) msgs)) = User
        \<and> \<not> synthetic (last (take (sacred_floor msgs) msgs)))"
  using sacred_floor_le sacred_floor_closed sacred_floor_keeps_prompt by metis

section \<open>Compaction\<close>

text \<open>
  C26. Any sequence of compaction plans, whatever a strategy proposes, keeps the pinned messages in
  order and never grows the conversation; one plan keeps the pairing of calls and results, bumps
  the prefix generation exactly when it commits, and commits exactly when the result is smaller.
\<close>

theorem compaction_safe:
  "pinned (c_messages (apply_plans ps c)) = pinned (c_messages c)
   \<and> total_size (c_messages (apply_plans ps c)) \<le> total_size (c_messages c)
   \<and> (well_paired (c_messages c) \<longrightarrow> well_paired (c_messages (fst (apply_plan c plan sacred))))
   \<and> (committed (snd (apply_plan c plan sacred)) \<longleftrightarrow>
        total_size (build_candidate plan (c_messages c) sacred) < total_size (c_messages c))
   \<and> cache_epoch (fst (apply_plan c plan sacred))
       = cache_epoch c + (if committed (snd (apply_plan c plan sacred)) then 1 else 0)
   \<and> (\<not> committed (snd (apply_plan c plan sacred)) \<longrightarrow> fst (apply_plan c plan sacred) = c)"
  using pinned_apply_plans [of ps c] apply_plans_size [of ps c] apply_plan_well_paired [of c plan sacred]
    apply_plan_report(5) [of c plan sacred] apply_plan_refused [of c plan sacred] apply_plan_committed [of c plan sacred]
  by auto

theorem compaction_safe_witness:
  "well_paired (c_messages (fst (apply_plan conversation_new plan_noop 0)))
   \<and> fst (apply_plan conversation_new plan_noop 0) = conversation_new"
proof -
  have paired: "well_paired (c_messages conversation_new)" by (simp add: conversation_new_def)
  have "\<not> committed (snd (apply_plan conversation_new plan_noop 0))"
    using compaction_safe [of "[]" conversation_new plan_noop 0]
    by (simp add: conversation_new_def total_size_def)
  with compaction_safe [of "[]" conversation_new plan_noop 0] paired show ?thesis by blast
qed

text \<open>
  A plan never changes the sacred prefix: its messages are the same, up to the token figures a
  committed compaction rescales.
\<close>

lemma compaction_keeps_sacred:
  assumes "well_paired (take (sacred_floor (c_messages c)) (c_messages c))"
  shows "map (\<lambda>m. m\<lparr>m_meta := None\<rparr>) (take (sacred_floor (c_messages c)) (c_messages (fst (apply_plan c plan (sacred_floor (c_messages c))))))
       = map (\<lambda>m. m\<lparr>m_meta := None\<rparr>) (take (sacred_floor (c_messages c)) (c_messages c))"
  using apply_plan_prefix [of "sacred_floor (c_messages c)" "sacred_floor (c_messages c)" c plan] assms
    sacred_floor_le [of "c_messages c"] sacred_floor_closed [of "c_messages c"]
  by (simp add: min_def)

section \<open>The session log\<close>

text \<open>
  C27. Rewinding takes the conversation back: after the events since the mark and the rewind itself,
  the model is shown exactly what it was shown at the mark. The stretch that is taken back holds nothing that
  stands for the session (memories, summaries and the like are not taken back), its turns and tool calls are not
  continued from before the mark, and no rewind in it reaches back behind the mark.
\<close>

theorem rewind_restores:
  assumes "undoes pre mid r"
  shows "project (pre @ mid @ [r]) w = project pre w
    \<and> derive_messages (pre @ mid @ [r]) = derive_messages pre"
  using project_undo [OF assms] by (simp add: derive_messages_def)

theorem rewind_restores_witness:
  "project ([said 1 1 ''a''] @ [said 2 2 ''b''] @ [rewound_to 3 3 2]) True = project [said 1 1 ''a''] True
   \<and> derive_messages ([said 1 1 ''a''] @ [said 2 2 ''b''] @ [rewound_to 3 3 2]) = derive_messages [said 1 1 ''a'']"
proof (rule rewind_restores)
  show "undoes [said 1 1 ''a''] [said 2 2 ''b''] (rewound_to 3 3 2)" by code_simp
qed

text \<open>
  Renumbering a log without rewinds, when a member's events move behind others, does not change
  what the model is shown: every reference between events is carried along.
\<close>

lemma renumber_keeps_messages:
  assumes "\<forall>l\<in>set evs. \<not> is_rewound (le_event l)"
    and "0 < le_seq (hd evs)" "le_seq (hd evs) \<le> first" "evs \<noteq> []"
  shows "derive_messages (renumber evs first) = derive_messages evs"
  using assms by (intro derive_messages_renumber) simp_all

text \<open>
  With a rewind in the log this fails: the mark of \<open>Rewound\<close> is not renumbered, so after the
  move it points before the moved events and takes back one the user had kept.
\<close>

lemma renumber_breaks_rewind:
  "\<exists>evs first. 0 < le_seq (hd evs) \<and> le_seq (hd evs) \<le> first
     \<and> sorted_wrt (<) (map le_seq evs)
     \<and> derive_messages (renumber evs first) \<noteq> derive_messages evs"
proof (intro exI conjI)
  let ?log = "[said 1 1 ''a'', said 2 2 ''b'', rewound_to 3 3 2]"
  show "0 < le_seq (hd ?log)" "le_seq (hd ?log) \<le> 10" "sorted_wrt (<) (map le_seq ?log)"
    by (simp_all add: said_def rewound_to_def)
  show "derive_messages (renumber ?log 10) \<noteq> derive_messages ?log" by code_simp
qed

text \<open>
  A message shown as an event of the log is one that speaks, is not taken back by a rewind, not
  undone by an interruption, not folded into a summary unless pinned, and of a visible turn.
\<close>

lemma shown_events_stand:
  assumes "tm \<in> set (project evs w)" "tm_source tm = Event s"
  shows "\<exists>l\<in>set evs. le_seq l = s \<and> speaks (le_event l) \<and> \<not> taken_back evs s
    \<and> turn (le_event l) \<notin> undone_by_interruption evs
    \<and> (is_pinned evs s \<or> \<not> in_ranges (folded_ranges evs) s)"
  using project_Event [OF assms] .

text \<open>
  C28. In what the model is shown, the results of an assistant's calls stand directly behind it, with
  nothing between: images and injected text wait until the batch is complete.
\<close>

theorem results_follow_their_calls: "batches_together (derive_messages evs)"
  using project_batches_together [of evs False] by (simp add: derive_messages_def)

text \<open>
  The projection for requests and the one that records metadata differ in nothing but
  metadata, origin and framing: same messages, same sources, same text to display.
\<close>

lemma two_projections_alike: "list_all2 reads_alike (project evs False) (project evs True)"
  by (rule projections_alike)

text \<open>
  What \<open>is_model_visible\<close> filters out cannot be seen by the model, with one exception it does
  not name: \<open>Rewound\<close>. The visible events and the rewinds alone determine the projection.
\<close>

lemma invisible_events_do_not_matter:
  "derive_messages (filter (\<lambda>l. is_model_visible (le_event l) \<or> is_rewound (le_event l)) evs) = derive_messages evs"
  using project_matters [of evs False] by (simp add: derive_messages_def matters_def [abs_def])

section \<open>Pinned sources\<close>

text \<open>
  When the pinned sources of a log are intact, the request derived from that log passes the
  check that every pinned source is carried: projecting never loses one.
\<close>

lemma projection_carries_pins:
  assumes "validate digest evs = Inr texts"
  shows "\<exists>n. validate_request digest evs (derive_messages evs) = Inr n"
  using validate_request_of_projection [OF assms] .

text \<open>
  The check of a request is exact: it passes iff every active source is intact and the pinned
  texts, counted with repetition, are among those the request carries.
\<close>

lemma validate_request_exact:
  "(\<exists>n. validate_request digest evs messages = Inr n) \<longleftrightarrow>
     list_all (source_ok digest evs) (active_sources evs)
     \<and> mset (map (snd \<circ> source_text evs) (active_sources evs)) \<subseteq># mset (pinned_texts messages)"
  by (rule validate_request_Inr)

text \<open>
  The active sources are what the last decision about each source says, over the events that
  were not taken back.
\<close>

lemma last_pin_decision_stands:
  "map_of (active_sources evs) s =
     (case map_of (rev (retention_decisions evs)) s of Some d \<Rightarrow> d | None \<Rightarrow> None)"
  by (rule lookup_active_sources)

section \<open>Limits on a model call\<close>

text \<open>
  C29. The loop detector is exact. Fed any reasoning text from the start, it raises the alarm iff at
  one of its scans (every 128 characters) the last 4096 characters end in a word of admissible
  length, with a letter in it, repeated often enough and long enough.
\<close>

theorem loop_detector_exact:
  assumes "enabled c"
  shows "snd (push_chars alphabetic (detector_new c) cs) \<longleftrightarrow>
    (\<exists>k. 1 \<le> k \<and> k \<le> length cs \<and> k mod 128 = 0
       \<and> ends_in_cycle alphabetic (config (detector_new c)) (last_window (take k cs)))"
proof -
  let ?d = "detector_new c"
  have d: "enabled (config ?d)" "tail ?d = []" "since_scan ?d = 0"
    using assms by (simp_all add: detector_new_def Let_def)
  have inv: "detector_inv ?d" using observe_all_inv [of alphabetic c "[]"] by simp
  have "scans_at alphabetic ?d cs k \<longleftrightarrow> 1 \<le> k \<and> k \<le> length cs \<and> k mod 128 = 0
      \<and> ends_in_cycle alphabetic (config ?d) (last_window (take k cs))" for k
    using repeated_iff_cycle [of "fed ?d (take k cs)" alphabetic] config_ok_new [of c] d
    by (simp add: scans_at_def fed_def)
  then show ?thesis using push_chars_alarm [OF inv d(1), of alphabetic cs] by simp
qed

theorem loop_detector_exact_witness:
  "\<not> snd (push_chars (\<lambda>c. c \<noteq> 32) (detector_new reasoning_loop_config_default) [104, 105])"
proof -
  have on: "enabled reasoning_loop_config_default" by (simp add: reasoning_loop_config_default_def)
  show ?thesis unfolding loop_detector_exact [OF on]
  proof (rule notI, elim exE conjE)
    fix k :: nat assume k: "1 \<le> k" "k \<le> length [104, 105 :: nat]" "k mod 128 = 0"
    then have "k mod 128 = k" by (intro mod_less) simp
    with k show False by simp
  qed
qed

text \<open>
  The linear-time routine inside the detector computes the Z array: at every position the length
  of the longest common prefix of the text and its suffix there.
\<close>

lemma z_array_correct:
  assumes "1 \<le> i" "i < length t"
  shows "z_array t ! i = lcp t (drop i t)"
  using z_array_lcp [OF assms] .

text \<open>
  Once the model has shown output (text, a tool call, a signed reasoning block) the detector
  never raises the alarm again in that call, and its window stays bounded throughout.
\<close>

lemma visible_output_disarms:
  assumes "e \<in> set es" "visible_output e"
  shows "\<not> snd (observe alphabetic (observe_all alphabetic (detector_new c) es) f)
    \<and> length (tail (observe_all alphabetic (detector_new c) es)) \<le> 4096"
  using observe_after_visible [OF assms] observe_all_inv [of alphabetic c es] by (simp add: detector_inv_def)

text \<open>
  C30. A recovery budget, whatever calls are made on it in whatever order, grants exactly the
  attempts asked for up to its limit (at least one) and never more waiting than its limit; the
  counter kept at 32 bits agrees with the number granted.
\<close>

theorem recovery_budget_exact:
  "case budget_run (budget_new a w) cs of (outs, st) \<Rightarrow>
     granted_attempts outs = min (length (filter (\<lambda>c. c = Try_Attempt) cs)) (unat (max a 1))
     \<and> granted_wait outs \<le> w \<and> unat (attempts st) = granted_attempts outs \<and> reserved_wait st = granted_wait outs"
proof -
  obtain outs st where run: "budget_run (budget_new a w) cs = (outs, st)" by fastforce
  have "budget_inv (budget_new a w)" using budget.start_inv [of "budget_new a w"] by (auto simp: budget_start_def)
  from budget_run_account [OF run this] have "unat (attempts st) = granted_attempts outs" "reserved_wait st = granted_wait outs"
    by (simp_all add: budget_new_def)
  with budget_run_exact [OF run] budget_run_bounded [OF run] show ?thesis by (simp add: run)
qed

text \<open>
  Usage reports of one round, which a provider may repeat or send in parts, are joined to the
  least report above all of them.
\<close>

lemma round_usage_is_join: "usage_le (round_usage us) c \<longleftrightarrow> (\<forall>u\<in>set us. usage_le u c)"
  by (rule round_usage_least)

text \<open>
  Rescaling the recorded pressure after a compaction, in the code's binary floating point with
  its two roundings, never reports more used tokens than before.
\<close>

lemma relieved_pressure_le:
  assumes "after \<le> before" "0 < before"
  shows "used_tokens (scale_meta before after meta) \<le> used_tokens meta"
  using scale_meta_used_le [OF assms] .

text \<open>
  A snapshot's counters are the largest turn and request ids of its messages, so that a resumed
  session never reuses one.
\<close>

lemma snapshot_counters_cover:
  "turn_counter (from_conversation c) \<le> t \<and> request_counter (from_conversation c) \<le> q \<longleftrightarrow>
   (\<forall>m\<in>set (c_messages c). \<forall>meta. m_meta m = Some meta \<longrightarrow> turn_id meta \<le> t \<and> request_id meta \<le> q)"
  using derive_counters_le_iff [of "c_messages c" t q] by (simp add: from_conversation_def)

section \<open>Plugins: scopes, services, listeners\<close>

text \<open>
  Isolation. A realm forked from another sees exactly what that one sees, no realm there was
  sees the fork, and before anything is provided in it every lookup from the fork gives what it
  gives from the parent.
\<close>

lemma fork_isolates:
  assumes "realm_inv t" "p < next_realm t" "viewer < next_realm t"
    and "table_inv tb" "\<forall>e\<in>set (slots tb). fst (fst e) < next_realm t"
  shows "(visible_from (snd (fork t p)) viewer (next_realm t) \<longleftrightarrow> visible_from t viewer p)
    \<and> \<not> visible_from (snd (fork t p)) (next_realm t) viewer
    \<and> table_get (snd (fork t p)) tb ty (next_realm t) = table_get t tb ty p"
  using visible_from_fork [OF assms(1-3)] fork_unseen [OF assms(1-3)] get_from_fork [OF assms(1,2,4,5)] by blast

text \<open>
  A slot is never overwritten: providing fails iff the slot of that realm is filled, and then
  nothing changes. Otherwise the realm finds the new service, and realms that do not see that realm
  find what they found.
\<close>

lemma provide_correct:
  assumes "realm_inv t"
  shows "case table_provide tb k r v f l of
      Inl e \<Rightarrow> map_of (slots tb) (r, sk_type k) \<noteq> None
    | Inr tb' \<Rightarrow> map_of (slots tb) (r, sk_type k) = None \<and> table_get t tb' (sk_type k) r = Some (Some v)
        \<and> (\<forall>viewer ty. r \<notin> set (ancestry t viewer) \<longrightarrow> table_get t tb' ty viewer = table_get t tb ty viewer)"
proof (cases "table_provide tb k r v f l")
  case (Inl e)
  then show ?thesis using provide_conflict_iff [of tb k r v f l] by simp
next
  case (Inr tb')
  then have "map_of (slots tb) (r, sk_type k) = None" using provide_conflict_iff [of tb k r v f l] by simp
  then show ?thesis using Inr get_own_slot [OF assms Inr] get_other_realm [OF assms Inr] by simp
qed

text \<open>
  Listeners. A new listener goes behind the prepended ones if it is prepended itself and to the
  end otherwise, realms that do not see its realm are dispatched to as before, and taking it out
  again leaves the listeners of every event as they were.
\<close>

lemma listener_round_trip:
  assumes "bus_inv b"
  shows "case bus_insert b ty r p h of (i, b') \<Rightarrow>
      bus_inv b' \<and> (\<forall>ty'. listeners_of (bus_remove b' ty i) ty' = listeners_of b ty')
      \<and> (\<forall>t viewer ty' cast. \<not> visible_from t r viewer \<longrightarrow> collect t b' cast ty' viewer = collect t b cast ty' viewer)
      \<and> map reg_id (listeners_of b' ty) =
          map reg_id (filter reg_prepend (listeners_of b ty)) @ (if p then [i] else [])
          @ map reg_id (filter (\<lambda>x. \<not> reg_prepend x) (listeners_of b ty)) @ (if p then [] else [i])"
proof -
  obtain i b' where ins: "bus_insert b ty r p h = (i, b')" by fastforce
  have "bus_inv b'" using bus_inv_insert [OF assms, of ty r p h] by (simp add: ins)
  then show ?thesis
    using remove_insert [OF assms ins] collect_unseen [OF assms ins] listeners_of_insert [OF assms ins, of ty]
    by (auto simp: ins)
qed

text \<open>
  In a chain of waterfall listeners one that only delegates is neutral wherever it stands, and
  one that never delegates cuts off everything behind it, the terminal included.
\<close>

lemma waterfall_chain:
  "next_run (as @ (\<lambda>k. k) # bs) terminal = next_run (as @ bs) terminal
   \<and> next_run (as @ (\<lambda>_. g) # bs) terminal = next_run as g
   \<and> next_run (as @ bs) terminal = next_run as (next_run bs terminal)"
  using next_run_neutral next_run_short_circuit next_run_append by metis

section \<open>Plugins: unloading\<close>

text \<open>
  C31. A plugin can be taken out. Whatever it and the plugins it mounts do through their live
  contexts, in any order, unloading it returns and leaves every slot, the listeners of every event
  and the table of fibers as they were before it was mounted, in whatever order children are
  visited.
\<close>

theorem plugin_reverts:
  assumes "root_inv r0" "p < next_fiber (fiber_table r0)"
    and "(acts (next_fiber (fiber_table r0)))\<^sup>*\<^sup>* (r0\<lparr>fiber_table := snd (fiber_create (fiber_table r0) entry plugin p)\<rparr>) r"
    and "\<forall>xs. set (ord xs) = set xs"
  shows "\<exists>r'. ctx_unload ord (next_fiber (fiber_table r0)) r = Some r'
    \<and> slots (services r') = slots (services r0)
    \<and> (\<forall>ty. listeners_of (events r') ty = listeners_of (events r0) ty)
    \<and> fibers (fiber_table r') = fibers (fiber_table r0)"
  using unload_reverts [OF footprint_acts_star [OF assms(3) footprint_start [OF assms(1,2)]] assms(4)] .

theorem plugin_reverts_witness:
  "\<exists>r'. ctx_unload rev 1 (snd (ctx_provide sample_mounted \<lparr>ctx_fiber = 1, ctx_realm = 0\<rparr> sample_key 7)) = Some r'
    \<and> slots (services r') = [] \<and> (\<forall>ty. listeners_of (events r') ty = []) \<and> map fst (fibers (fiber_table r')) = [0]"
proof -
  let ?r0 = "root_new :: (nat, nat, nat, nat) app_root"
  let ?c = "\<lparr>ctx_fiber = 1, ctx_realm = 0\<rparr>"
  have r0: "next_fiber (fiber_table ?r0) = 1" "slots (services ?r0) = []" "listeners_of (events ?r0) ty = []"
      "map fst (fibers (fiber_table ?r0)) = [0]" for ty
    by (simp_all add: root_new_def fiber_table_new_def service_table_new_def event_bus_new_def listeners_of_def ROOT_FIBER_def)
  have "live sample_mounted 1 ?c"
    by (simp add: live_def sample_mounted_def Let_def root_new_def fiber_table_new_def fiber_create_def fiber_get_def)
  then have "(acts 1)\<^sup>*\<^sup>* sample_mounted (snd (ctx_provide sample_mounted ?c sample_key 7))"
    by (intro r_into_rtranclp act_provide)
  then show ?thesis
    using plugin_reverts [OF root_inv_new, of 0 "''row''" "''p''" "snd (ctx_provide sample_mounted ?c sample_key 7)" rev] r0
    unfolding sample_mounted_def Let_def by auto
qed

text \<open>
  The contexts must be live. Through a context whose fiber has been unloaded, \<open>provide\<close> still
  fills the slot, but files no undo for it: the fiber's ledger is gone and what is filed on the root
  instead does nothing. Unloading the fiber again does not empty the slot.
\<close>

lemma dead_context_leaks:
  "root_inv sample_dead \<and> fiber_get (fiber_table sample_dead) 1 = None
   \<and> slots (services sample_dead) = []
   \<and> slots (services (snd (ctx_provide sample_dead \<lparr>ctx_fiber = 1, ctx_realm = 0\<rparr> sample_key 7))) \<noteq> []
   \<and> map_option (slots \<circ> services) (ctx_unload (\<lambda>xs. xs) 1 (snd (ctx_provide sample_dead \<lparr>ctx_fiber = 1, ctx_realm = 0\<rparr> sample_key 7)))
       = Some (slots (services (snd (ctx_provide sample_dead \<lparr>ctx_fiber = 1, ctx_realm = 0\<rparr> sample_key 7))))"
proof (intro conjI)
  show "root_inv sample_dead"
    using root_inv_fibers [OF root_inv_new, of "fiber_table_new\<lparr>next_fiber := 2\<rparr>"] fiber_inv_new
    by (auto simp: sample_dead_def fiber_inv_def root_new_def fiber_table_new_def ROOT_FIBER_def fiber_state_new_def)
  show "fiber_get (fiber_table sample_dead) 1 = None" "slots (services sample_dead) = []"
    "slots (services (snd (ctx_provide sample_dead \<lparr>ctx_fiber = 1, ctx_realm = 0\<rparr> sample_key 7))) \<noteq> []"
    "map_option (slots \<circ> services) (ctx_unload (\<lambda>xs. xs) 1 (snd (ctx_provide sample_dead \<lparr>ctx_fiber = 1, ctx_realm = 0\<rparr> sample_key 7)))
       = Some (slots (services (snd (ctx_provide sample_dead \<lparr>ctx_fiber = 1, ctx_realm = 0\<rparr> sample_key 7))))"
    by code_simp+
qed

section \<open>The config tree\<close>

text \<open>
  C32. Applying layers to the list of rows refines edits of a map from row ids to rows: inserting
  replaces or adds, a patch replaces what it names and fails on an id that is not there, removing
  forgets; an edit that fails stops the layer and leaves what the edits before it did. Ids stay
  unique throughout.
\<close>

theorem layer_refines_map:
  "map_prod id rows (tree_apply l t) = spec_ops (ops l) (rows t)
   \<and> (distinct (map e_id t) \<longrightarrow> distinct (map e_id (snd (tree_apply l t))))"
  using apply_ops_refines [of "ops l" t] tree_inv_apply_ops [of t "ops l"] by (simp add: tree_apply_def tree_inv_def)

theorem layer_refines_map_witness:
  "distinct (map e_id (snd (tree_apply (layer_disable (layer_insert layer_new (entry_named (0 :: nat) ''a'')) ''a'') [entry_named 0 ''b''])))"
  using layer_refines_map [of "layer_disable (layer_insert layer_new (entry_named (0 :: nat) ''a'')) ''a''" "[entry_named 0 ''b'']"]
  by simp

text \<open>
  Stacking layers is the same as concatenating their edits, also where they fail, and the
  builder's \<open>insert\<close>, which merges consecutive inserts into one edit, means one more insertion.
\<close>

lemma stacking_is_concatenation:
  "from_layers ls = (case apply_ops (concat (map ops ls)) [] of (Inl e, _) \<Rightarrow> Inl e | (Inr _, t) \<Rightarrow> Inr t)
   \<and> tree_apply (layer_then l k) t = (case tree_apply l t of (Inl e, t') \<Rightarrow> (Inl e, t') | (Inr _, t') \<Rightarrow> tree_apply k t')
   \<and> tree_apply (layer_insert l e) t = tree_apply (layer_then l \<lparr>ops = [Insert [e]]\<rparr>) t"
  using stack_layers_concat [of ls "[]"] apply_ops_append [of "ops l" "ops k" t] apply_insert_last [of "ops l" e t]
  unfolding tree_apply_def by (simp add: from_layers_def layer_then_def layer_insert_def)

section \<open>Mounting\<close>

text \<open>
  C33. Which rows come up does not depend on their order. For plugins that succeed and fill the slots
  they declare, mounting returns, the rows left waiting are those that inject something outside the
  least set of services that contains what is there and is closed under the rows' declarations, and
  that set is what is offered in the end.
\<close>

theorem mounting_is_least_fixed_point:
  assumes "dependable I reg es" "I (app_root a)"
  shows "\<exists>a'. mount_all reg ord es a = Some (Inr (), a')
    \<and> app_pending a' = filter (\<lambda>e. \<not> injects reg e \<subseteq> obtainable reg (set es) (offers a)) es
    \<and> offers a' = obtainable reg (set es) (offers a)"
  using mount_all_exact [OF assms] .

theorem mounting_is_least_fixed_point_witness:
  "\<exists>a'. mount_all sample_registry rev (map (entry_named 0) [''q'', ''p'']) (sample_app []) = Some (Inr (), a')
    \<and> offers a' = obtainable sample_registry (set (map (entry_named 0) [''q'', ''p''])) (offers (sample_app []))"
proof -
  have "sample_ok (app_root (sample_app []))"
    by (simp add: sample_ok_def sample_app_def app_new_def root_new_def realm_inv_new service_table_new_def)
  moreover have "dependable sample_ok sample_registry (map (entry_named 0) [''q'', ''p''])" by (rule sample_dependable) simp
  ultimately show ?thesis using mounting_is_least_fixed_point [of sample_ok sample_registry _ "sample_app []" rev] by blast
qed

text \<open>
  Mounting always returns, with a sound root, if plugins act through their contexts only.
\<close>

lemma mounting_returns:
  assumes "tame_registry reg" "\<forall>xs. set (ord xs) = set xs" "root_inv (app_root a)"
  shows "\<exists>res a'. mount_all reg ord es a = Some (res, a') \<and> root_inv (app_root a')"
  using mount_all_total [OF assms] .

text \<open>
  C34. A failed row leaves no trace: no slot, no listener, no fiber, and nothing else of the app
  changes.
\<close>

theorem failed_row_leaves_nothing:
  assumes "tame_registry reg" "\<forall>xs. set (ord xs) = set xs" "root_inv (app_root a)"
    and "mount_row reg ord e a = Some (Inl err, a')"
  shows "slots (services (app_root a')) = slots (services (app_root a))
    \<and> (\<forall>ty. listeners_of (events (app_root a')) ty = listeners_of (events (app_root a)) ty)
    \<and> fibers (fiber_table (app_root a')) = fibers (fiber_table (app_root a))
    \<and> app_mounted a' = app_mounted a \<and> (\<exists>m. err = Apply (e_id e) m)"
proof -
  obtain p where p: "registry_get reg (e_name e) = Some p" using assms(4) by (auto simp: mount_row_def bind_eq_Some_conv)
  from assms(3,1) p assms(2) show ?thesis
    by (cases rule: mount_row_cases) (use assms(4) in auto)
qed

theorem failed_row_leaves_nothing_witness:
  "\<exists>a'. mount_row sample_registry rev (entry_named 0 ''b'') (sample_app []) = Some (Inl (Apply ''b'' ''no''), a')
     \<and> slots (services (app_root a')) = slots (services (app_root (sample_app [])))"
proof -
  have inv: "root_inv (app_root (sample_app []))" by (simp add: sample_app_def app_new_def root_inv_new)
  have "map_option fst (mount_row sample_registry rev (entry_named 0 ''b'') (sample_app [])) = Some (Inl (Apply ''b'' ''no''))"
    by code_simp
  then obtain a' where a': "mount_row sample_registry rev (entry_named 0 ''b'') (sample_app []) = Some (Inl (Apply ''b'' ''no''), a')"
    by auto
  from failed_row_leaves_nothing [OF sample_tame _ inv a'] a' show ?thesis by simp
qed

text \<open>
  When mounting succeeds, every row is either mounted or waiting, and a waiting row injects a
  service that is not there; when a row names an unknown plugin, nothing at all has been mounted.
\<close>

lemma mounting_accounts_for_rows:
  assumes "mount_all reg ord es a = Some (Inr (), a')"
  shows "(\<forall>e\<in>set es. e \<in> set (app_pending a') \<or> e_id e \<in> fst ` set (app_mounted a'))
    \<and> (\<forall>e\<in>set (app_pending a'). \<exists>p. registry_get reg (e_name e) = Some p
          \<and> (\<exists>n\<in>set (p_inject p). has_service (app_root a') root_ctx n = Some False))"
proof -
  obtain still a1 where l: "mount_loop reg ord es a = Some (Inr still, a1)" "a' = a1\<lparr>app_pending := still\<rparr>"
    using mount_all_Inr [OF assms] by blast
  have up: "\<forall>e\<in>set es. e \<in> set still \<or> e_id e \<in> fst ` set (app_mounted a1)" using mount_loop_mounted [OF l(1)] by blast
  have "\<exists>p. registry_get reg (e_name e) = Some p \<and> (\<exists>n\<in>set (p_inject p). has_service (app_root a1) root_ctx n = Some False)"
    if "e \<in> set still" for e using mount_loop_waiting [OF l(1) that] .
  with up l(2) show ?thesis by simp
qed

text \<open>
  A patch that fails while mounting forgets the rows that were waiting. Row \<open>q\<close> waits for \<open>a\<close>;
  a patch that adds a row of an unknown plugin is refused, and after a second patch that takes that
  row out and adds the provider of \<open>a\<close>, \<open>q\<close> is in the tree and enabled, \<open>a\<close> is there, and \<open>q\<close> is
  neither mounted nor waiting.
\<close>

lemma failed_patch_forgets_waiting_rows:
  "\<exists>a0 a1 a2.
     start_lenient sample_registry (\<lambda>xs. xs) (sample_app [''q'']) = Some (Inr (), a0)
     \<and> map e_id (app_pending a0) = [''q'']
     \<and> app_patch sample_registry (\<lambda>xs. xs) (\<lambda>xs. xs) (layer_insert layer_new (entry_named 0 ''zz'')) a0
         = Some (Inl (UnknownPlugin ''zz'' ''zz''), a1)
     \<and> app_patch sample_registry (\<lambda>xs. xs) (\<lambda>xs. xs) (layer_insert (layer_remove layer_new ''zz'') (entry_named 0 ''p'')) a1
         = Some (Inr (), a2)
     \<and> map e_id (active (app_tree a2)) = [''q'', ''p''] \<and> has_service (app_root a2) root_ctx ''a'' = Some True
     \<and> map fst (app_mounted a2) = [''p''] \<and> app_pending a2 = []"
proof -
  let ?go = "do {
      (o0, a0) \<leftarrow> start_lenient sample_registry (\<lambda>xs. xs) (sample_app [''q'']);
      (o1, a1) \<leftarrow> app_patch sample_registry (\<lambda>xs. xs) (\<lambda>xs. xs) (layer_insert layer_new (entry_named 0 ''zz'')) a0;
      (o2, a2) \<leftarrow> app_patch sample_registry (\<lambda>xs. xs) (\<lambda>xs. xs) (layer_insert (layer_remove layer_new ''zz'') (entry_named 0 ''p'')) a1;
      Some (o0, map e_id (app_pending a0), o1, o2, map e_id (active (app_tree a2)), has_service (app_root a2) root_ctx ''a'',
        map fst (app_mounted a2), app_pending a2 = [])
    }"
  have "?go = Some (Inr (), [''q''], Inl (UnknownPlugin ''zz'' ''zz''), Inr (), [''q'', ''p''], Some True, [''p''], True)"
    by (code_simp, subst find_up.simps, simp)
  then show ?thesis by (auto simp: bind_eq_Some_conv)
qed

end
